(* ===== verification/C_Prelude.thy ===== *)
theory C_Prelude
  imports Main "HOL-Library.Word" "HOL-Library.Signed_Division"
begin

text \<open>
  Shared ground of the development: the C types, the part of the C library and the error
  values that several components use, and the generic lemmas on lists and numbers their proofs
  share.

  \<^item> Machine integers: an \<^verbatim>\<open>int\<close> is a value of type \<^typ>\<open>int\<close> kept in range by \<open>i32\<close>, or a
    \<^typ>\<open>32 word\<close> where the bit pattern matters; \<^verbatim>\<open>/\<close> and \<^verbatim>\<open>%\<close> truncate towards zero (\<open>sdiv\<close>,
    \<open>smod\<close> of the library).
  \<^item> C strings: the characters before the terminating NUL, a \<^typ>\<open>string\<close>.
  \<^item> \<open>strtol10\<close>, \<open>atoi\<close>: the conversions of the C library (decimal, clamped to a 64-bit
    \<^verbatim>\<open>long\<close>; \<^verbatim>\<open>atoi\<close> keeps the low 32 bits, as the GNU library does).
  \<^item> \<open>show_int\<close>: the text \<^verbatim>\<open>%d\<close> prints; \<open>pad\<close>: a field width.
  \<^item> \<open>outcome\<close>: how a piece of C code ends: it returns, exits the process, faults
    (undefined behaviour the model reports instead of hiding), or blocks.
\<close>

section \<open>Collections of facts\<close>

named_theorems c_defs \<open>definitions of the C library model, unfolded on demand\<close>
named_theorems prog_simps \<open>how one primitive of a component acts on the state\<close>

section \<open>Types\<close>

type_synonym addr = nat
type_synonym tid = nat

abbreviation (input) NULL :: addr where "NULL \<equiv> 0"

abbreviation (input) EXIT_SUCCESS :: int where "EXIT_SUCCESS \<equiv> 0"
abbreviation (input) EXIT_FAILURE :: int where "EXIT_FAILURE \<equiv> 1"

text \<open>
  What can end a piece of C code. \<open>Faulted\<close> stands for undefined behaviour: a read or write
  through a pointer to no live object, a free of one, a division by zero, an index out of
  bounds.
\<close>

datatype fault = NullDeref | BadDeref | BadFree | DivByZero | OutOfBounds | Uninitialised

datatype 'a outcome = Return 'a | Exited int | Faulted fault | Blocks

text \<open>An output line of the program, on stdout or stderr.\<close>

datatype io = Out string | Err string

section \<open>Machine integers\<close>

definition i32 :: "int \<Rightarrow> int" where
  "i32 x = (x + 2147483648) mod 4294967296 - 2147483648"

definition u32 :: "int \<Rightarrow> int" where
  "u32 x = x mod 4294967296"

definition i64 :: "int \<Rightarrow> int" where
  "i64 x = (x + 9223372036854775808) mod 18446744073709551616 - 9223372036854775808"

abbreviation (input) INT_MAX :: int where "INT_MAX \<equiv> 2147483647"
abbreviation (input) INT_MIN :: int where "INT_MIN \<equiv> -2147483648"
abbreviation (input) LONG_MAX :: int where "LONG_MAX \<equiv> 9223372036854775807"
abbreviation (input) LONG_MIN :: int where "LONG_MIN \<equiv> -9223372036854775808"

section \<open>Characters and strings\<close>

definition isspace :: "char \<Rightarrow> bool" where
  "isspace c \<longleftrightarrow> of_char c = (32::nat) \<or> (9 \<le> (of_char c::nat) \<and> (of_char c::nat) \<le> 13)"

definition isdigit :: "char \<Rightarrow> bool" where
  "isdigit c \<longleftrightarrow> 48 \<le> (of_char c::nat) \<and> (of_char c::nat) \<le> 57"

definition digit_val :: "char \<Rightarrow> nat" where
  "digit_val c = of_char c - 48"

text \<open>\<^verbatim>\<open>strncmp(s, t, n) == 0\<close> on NUL-terminated strings.\<close>

definition strncmp_eq :: "string \<Rightarrow> string \<Rightarrow> nat \<Rightarrow> bool" where
  "strncmp_eq s t n \<longleftrightarrow> take n s = take n t"

text \<open>The value of a run of digits, most significant first.\<close>

fun digits_val :: "nat \<Rightarrow> string \<Rightarrow> nat" where
  "digits_val acc [] = acc"
| "digits_val acc (c # cs) = digits_val (10 * acc + digit_val c) cs"

definition split_sign :: "string \<Rightarrow> bool \<times> string" where
  "split_sign s = (case s of
     [] \<Rightarrow> (False, [])
   | c # cs \<Rightarrow> if c = CHR ''-'' then (True, cs) else if c = CHR ''+'' then (False, cs)
               else (False, s))"

text \<open>
  \<^verbatim>\<open>strtol(s, &end, 10)\<close>: the value and what follows the number. With no digit the result is
  0 and \<^verbatim>\<open>end\<close> is \<^verbatim>\<open>s\<close> itself; an out-of-range value is clamped.
\<close>

definition strtol10 :: "string \<Rightarrow> int \<times> string" where
  "strtol10 s =
     (let (neg, r) = split_sign (dropWhile isspace s);
          ds = takeWhile isdigit r
      in if ds = [] then (0, s)
         else let v = int (digits_val 0 ds);
                  x = (if neg then - v else v)
              in (max LONG_MIN (min LONG_MAX x), dropWhile isdigit r))"

definition atoi :: "string \<Rightarrow> int" where
  "atoi s = i32 (fst (strtol10 s))"

section \<open>Printing numbers\<close>

definition digit_char :: "nat \<Rightarrow> char" where
  "digit_char d = char_of (48 + d)"

fun show_nat :: "nat \<Rightarrow> string" where
  "show_nat n = (if n < 10 then [digit_char n] else show_nat (n div 10) @ [digit_char (n mod 10)])"

declare show_nat.simps [simp del]

definition show_int :: "int \<Rightarrow> string" where
  "show_int x = (if x < 0 then CHR ''-'' # show_nat (nat (- x)) else show_nat (nat x))"

text \<open>A minimum field width, filled on the left.\<close>

definition pad :: "char \<Rightarrow> nat \<Rightarrow> string \<Rightarrow> string" where
  "pad c w s = replicate (w - length s) c @ s"

abbreviation (input) nl :: char where "nl \<equiv> CHR 0x0A"
abbreviation (input) cr :: char where "cr \<equiv> CHR 0x0D"
abbreviation (input) nul :: char where "nul \<equiv> CHR 0x00"

section \<open>Machine integers: lemmas\<close>

lemma i32_id: "INT_MIN \<le> x \<Longrightarrow> x \<le> INT_MAX \<Longrightarrow> i32 x = x"
  by (simp add: i32_def)

lemma i32_range: "INT_MIN \<le> i32 x \<and> i32 x \<le> INT_MAX"
  using pos_mod_bound [of 4294967296 "x + 2147483648"] pos_mod_sign [of 4294967296 "x + 2147483648"]
  unfolding i32_def by linarith

lemma i64_id: "LONG_MIN \<le> x \<Longrightarrow> x \<le> LONG_MAX \<Longrightarrow> i64 x = x"
  by (simp add: i64_def)

lemma i64_range: "LONG_MIN \<le> i64 x \<and> i64 x \<le> LONG_MAX"
  using pos_mod_bound [of 18446744073709551616 "x + 9223372036854775808"]
    pos_mod_sign [of 18446744073709551616 "x + 9223372036854775808"]
  unfolding i64_def by linarith

lemma u32_id: "0 \<le> x \<Longrightarrow> x < 4294967296 \<Longrightarrow> u32 x = x"
  by (simp add: u32_def)

lemma sdiv_nonneg: "0 \<le> a \<Longrightarrow> 0 < b \<Longrightarrow> (a::int) sdiv b = a div b"
  by (cases "a = 0") (simp_all add: signed_divide_int_def)

lemma smod_nonneg: "0 \<le> a \<Longrightarrow> 0 < b \<Longrightarrow> (a::int) smod b = a mod b"
  by (cases "a = 0") (simp_all add: signed_modulo_int_def)

lemma sint_of_nat32: "n < 2147483648 \<Longrightarrow> sint (of_nat n :: 32 word) = int n"
  by (simp add: signed_of_nat signed_take_bit_int_eq_self)

section \<open>Printing and reading numbers: lemmas\<close>

lemma digit_chars:
  "digit_char 0 = CHR ''0''" "digit_char 1 = CHR ''1''" "digit_char 2 = CHR ''2''" "digit_char 3 = CHR ''3''"
  "digit_char 4 = CHR ''4''" "digit_char 5 = CHR ''5''" "digit_char 6 = CHR ''6''" "digit_char 7 = CHR ''7''"
  "digit_char 8 = CHR ''8''" "digit_char 9 = CHR ''9''"
  "digit_char (Suc 0) = CHR ''1''"
  by code_simp+

text \<open>Evaluation of \<open>show_nat\<close> and \<open>show_int\<close> on numerals.\<close>

lemmas show_eval = show_int_def show_nat.simps digit_chars

lemma digit_char_isdigit [simp]: "d < 10 \<Longrightarrow> isdigit (digit_char d)"
  by (simp add: isdigit_def digit_char_def)

lemma digit_val_char [simp]: "d < 10 \<Longrightarrow> digit_val (digit_char d) = d"
  by (simp add: digit_val_def digit_char_def)

lemma digits_val_append: "digits_val a (s @ t) = digits_val (digits_val a s) t"
  by (induction a s rule: digits_val.induct) auto

lemma show_nat_digits: "\<forall>c \<in> set (show_nat n). isdigit c"
proof (induction n rule: show_nat.induct)
  case (1 n)
  then show ?case by (subst show_nat.simps) auto
qed

lemma show_nat_nonempty [simp]: "show_nat n \<noteq> []"
  by (subst show_nat.simps) simp

lemma digits_val_show_nat: "digits_val 0 (show_nat n) = n"
proof (induction n rule: show_nat.induct)
  case (1 n)
  then show ?case
    by (subst show_nat.simps) (auto simp: digits_val_append)
qed

lemma length_show_nat: "n < 10 ^ Suc d \<Longrightarrow> length (show_nat n) \<le> Suc d"
proof (induction d arbitrary: n)
  case (Suc d)
  show ?case
  proof (cases "n < 10")
    case False
    then have e: "show_nat n = show_nat (n div 10) @ [digit_char (n mod 10)]" by (subst show_nat.simps) simp
    from Suc.prems have "n div 10 < 10 ^ Suc d" by (simp add: less_mult_imp_div_less)
    from Suc.IH [OF this] e show ?thesis by simp
  qed (subst show_nat.simps, simp)
qed (subst show_nat.simps, simp)

lemma takeWhile_show_nat [simp]:
  "(r = [] \<or> \<not> isdigit (hd r)) \<Longrightarrow> takeWhile isdigit (show_nat n @ r) = show_nat n"
  using show_nat_digits [of n] by (cases r) (auto simp: takeWhile_append)

lemma dropWhile_show_nat [simp]:
  "(r = [] \<or> \<not> isdigit (hd r)) \<Longrightarrow> dropWhile isdigit (show_nat n @ r) = r"
  using show_nat_digits [of n] by (cases r) (auto simp: dropWhile_append)

lemma isdigit_not_space: "isdigit c \<Longrightarrow> \<not> isspace c"
  by (auto simp: isdigit_def isspace_def)

lemma isdigit_not_sign: "isdigit c \<Longrightarrow> c \<noteq> CHR ''-'' \<and> c \<noteq> CHR ''+''"
  by (auto simp: isdigit_def)

lemma show_nat_hd: "isdigit (hd (show_nat n @ r))"
  using show_nat_digits [of n] by (simp add: hd_append)

lemma split_sign_show_nat:
  "split_sign (dropWhile isspace (show_nat n @ r)) = (False, show_nat n @ r)"
proof -
  obtain c cs where c: "show_nat n @ r = c # cs"
    by (metis append_is_Nil_conv neq_Nil_conv show_nat_nonempty)
  with show_nat_hd [of n r] have "isdigit c" by simp
  with c isdigit_not_space [of c] isdigit_not_sign [of c] show ?thesis
    by (simp add: split_sign_def)
qed

lemma strtol10_show_nat:
  assumes "int n \<le> LONG_MAX" and "r = [] \<or> \<not> isdigit (hd r)"
  shows "strtol10 (show_nat n @ r) = (int n, r)"
  unfolding strtol10_def split_sign_show_nat using assms
  by (simp add: digits_val_show_nat)

lemma strtol10_show_int:
  assumes "LONG_MIN \<le> x" "x \<le> LONG_MAX" and "r = [] \<or> \<not> isdigit (hd r)"
  shows "strtol10 (show_int x @ r) = (x, r)"
proof (cases "x < 0")
  case False
  with assms strtol10_show_nat [of "nat x" r] show ?thesis by (simp add: show_int_def)
next
  case True
  have "split_sign (dropWhile isspace (show_int x @ r)) = (True, show_nat (nat (- x)) @ r)"
    using True by (simp add: show_int_def split_sign_def isspace_def)
  with assms True show ?thesis
    unfolding strtol10_def by (simp add: digits_val_show_nat)
qed

lemma atoi_show_int:
  assumes "INT_MIN \<le> x" and "x \<le> INT_MAX"
  shows "atoi (show_int x) = x"
  using strtol10_show_int [of x "[]"] assms by (simp add: atoi_def i32_id)

section \<open>Lists\<close>

lemma nth_opt_append_Suc: "drop n xs = y # ys \<Longrightarrow> take (Suc n) xs = take n xs @ [y]"
  by (metis append_eq_conv_conj append_take_drop_id drop_eq_Nil hd_drop_conv_nth linorder_le_less_linear
      list.distinct(1) list.sel(1) take_Suc_conv_app_nth)

lemma take_length_take: "take (length (take k xs)) xs = take k xs"
  by (cases "k \<le> length xs") simp_all

section \<open>Reading lines\<close>

text \<open>\<^verbatim>\<open>fgets(buf, n, f)\<close>: a line with its newline, at most \<open>n - 1\<close> characters, and what is left.\<close>

definition upto_nl :: "string \<Rightarrow> string" where
  "upto_nl s = takeWhile (\<lambda>c. c \<noteq> nl) s @ (if nl \<in> set s then [nl] else [])"

definition fgets :: "nat \<Rightarrow> string \<Rightarrow> (string \<times> string) option" where
  "fgets n s = (if s = [] then None
     else let l = take (n - 1) (upto_nl s) in Some (l, drop (length l) s))"

lemma fgets_shorter: "fgets (Suc (Suc n)) s = Some (l, r) \<Longrightarrow> length r < length s"
  by (cases s) (auto simp: fgets_def upto_nl_def Let_def split: if_splits)

lemma fgets_line:
  assumes "nl \<notin> set l" and "Suc (length l) < n"
  shows "fgets n (l @ nl # r) = Some (l @ [nl], r)"
proof -
  have "takeWhile (\<lambda>c. c \<noteq> nl) (l @ nl # r) = l" using assms(1) by (auto simp: takeWhile_append)
  with assms(2) show ?thesis by (simp add: fgets_def upto_nl_def)
qed

end
