(* ===== verification/C_Prog.thy ===== *)
theory C_Prog
  imports C_Prelude
begin

text \<open>
  C functions as programs on a state: a program takes the state and gives how it ended (an
  \<open>outcome\<close>) and the state it left. \<open>bnd\<close> runs one after another, stopping at the first that does
  not return. A heap is a map from addresses to live objects inside the state; \<open>deref\<close>, \<open>store\<close>
  and \<open>free\<close> take the selector and the update of that map.
\<close>

section \<open>Programs\<close>

type_synonym ('s, 'a) cprog = "'s \<Rightarrow> 'a outcome \<times> 's"

definition ret :: "'a \<Rightarrow> ('s, 'a) cprog" where
  "ret x = (\<lambda>m. (Return x, m))"

definition bnd :: "('s, 'a) cprog \<Rightarrow> ('a \<Rightarrow> ('s, 'b) cprog) \<Rightarrow> ('s, 'b) cprog" where
  "bnd p f = (\<lambda>m. case p m of
      (Return x, m') \<Rightarrow> f x m'
    | (Exited n, m') \<Rightarrow> (Exited n, m')
    | (Faulted e, m') \<Rightarrow> (Faulted e, m')
    | (Blocks, m') \<Rightarrow> (Blocks, m'))"

abbreviation (input) sq :: "('s, 'a) cprog \<Rightarrow> ('s, 'b) cprog \<Rightarrow> ('s, 'b) cprog" where
  "sq p q \<equiv> bnd p (\<lambda>_. q)"

definition gets :: "('s \<Rightarrow> 'a) \<Rightarrow> ('s, 'a) cprog" where
  "gets f = (\<lambda>m. (Return (f m), m))"

definition modify :: "('s \<Rightarrow> 's) \<Rightarrow> ('s, unit) cprog" where
  "modify f = (\<lambda>m. (Return (), f m))"

definition exit_with :: "int \<Rightarrow> ('s, 'a) cprog" where
  "exit_with n = (\<lambda>m. (Exited n, m))"

definition fault :: "fault \<Rightarrow> ('s, 'a) cprog" where
  "fault e = (\<lambda>m. (Faulted e, m))"

section \<open>Objects on a heap\<close>

definition deref :: "('s \<Rightarrow> (addr \<rightharpoonup> 'o)) \<Rightarrow> addr \<Rightarrow> ('s, 'o) cprog" where
  "deref sel p = (\<lambda>m.
     if p = NULL then (Faulted NullDeref, m)
     else case sel m p of None \<Rightarrow> (Faulted BadDeref, m) | Some x \<Rightarrow> (Return x, m))"

definition store :: "('s \<Rightarrow> (addr \<rightharpoonup> 'o)) \<Rightarrow>
    (((addr \<rightharpoonup> 'o) \<Rightarrow> (addr \<rightharpoonup> 'o)) \<Rightarrow> 's \<Rightarrow> 's) \<Rightarrow> addr \<Rightarrow> ('o \<Rightarrow> 'o) \<Rightarrow> ('s, unit) cprog" where
  "store sel upd p g = (\<lambda>m.
     if p = NULL then (Faulted NullDeref, m)
     else case sel m p of None \<Rightarrow> (Faulted BadDeref, m)
          | Some x \<Rightarrow> (Return (), upd (\<lambda>f. f(p \<mapsto> g x)) m))"

definition free :: "('s \<Rightarrow> (addr \<rightharpoonup> 'o)) \<Rightarrow>
    (((addr \<rightharpoonup> 'o) \<Rightarrow> (addr \<rightharpoonup> 'o)) \<Rightarrow> 's \<Rightarrow> 's) \<Rightarrow> addr \<Rightarrow> ('s, unit) cprog" where
  "free sel upd p = (\<lambda>m.
     if p = NULL then (Return (), m)
     else case sel m p of None \<Rightarrow> (Faulted BadFree, m)
          | Some _ \<Rightarrow> (Return (), upd (\<lambda>f. f(p := None)) m))"

section \<open>How they run\<close>

text \<open>
  One equation per primitive and outcome: a function is evaluated on a state by rewriting with
  the collection \<open>prog_simps\<close>.
\<close>

lemma run_ret [prog_simps]: "ret x m = (Return x, m)"
  by (simp add: ret_def)

lemma run_gets [prog_simps]: "gets f m = (Return (f m), m)"
  by (simp add: gets_def)

lemma run_modify [prog_simps]: "modify f m = (Return (), f m)"
  by (simp add: modify_def)

lemma run_exit [prog_simps]: "exit_with n m = (Exited n, m)"
  by (simp add: exit_with_def)

lemma run_fault [prog_simps]: "fault e m = (Faulted e, m)"
  by (simp add: fault_def)

lemma run_bnd_Return [prog_simps]: "p m = (Return x, m') \<Longrightarrow> bnd p f m = f x m'"
  by (simp add: bnd_def)

lemma run_bnd_Exited [prog_simps]: "p m = (Exited n, m') \<Longrightarrow> bnd p f m = (Exited n, m')"
  by (simp add: bnd_def)

lemma run_bnd_Faulted [prog_simps]: "p m = (Faulted e, m') \<Longrightarrow> bnd p f m = (Faulted e, m')"
  by (simp add: bnd_def)

lemma run_bnd_Blocks [prog_simps]: "p m = (Blocks, m') \<Longrightarrow> bnd p f m = (Blocks, m')"
  by (simp add: bnd_def)

lemma run_if [prog_simps]: "(if b then p else q) m = (if b then p m else q m)"
  by simp

text \<open>
  The same as one case distinction per \<open>bnd\<close>, for the evaluation of deeply nested programs.
\<close>

lemmas prog_eval = bnd_def run_ret run_gets run_modify run_exit run_fault run_if

lemma bnd_assoc: "bnd (bnd p f) g = bnd p (\<lambda>x. bnd (f x) g)"
  by (rule ext) (auto simp: bnd_def split: prod.splits outcome.splits)

lemma bnd_Return_conv:
  "bnd p f m = (Return y, m'') \<longleftrightarrow> (\<exists>x m'. p m = (Return x, m') \<and> f x m' = (Return y, m''))"
  by (auto simp: bnd_def split: prod.splits outcome.splits)

lemma run_deref [prog_simps]: "p \<noteq> NULL \<Longrightarrow> sel m p = Some x \<Longrightarrow> deref sel p m = (Return x, m)"
  by (simp add: deref_def)

lemma run_store [prog_simps]:
  "p \<noteq> NULL \<Longrightarrow> sel m p = Some x \<Longrightarrow>
   store sel upd p g m = (Return (), upd (\<lambda>f. f(p \<mapsto> g x)) m)"
  by (simp add: store_def)

lemma run_free [prog_simps]:
  "p \<noteq> NULL \<Longrightarrow> sel m p = Some x \<Longrightarrow> free sel upd p m = (Return (), upd (\<lambda>f. f(p := None)) m)"
  by (simp add: free_def)

end
