(* ===== verification/Machine.thy ===== *)
theory Machine
  imports C_Prog
begin

text \<open>
  The machine the request-queue programs run on (\<^verbatim>\<open>src/common.h\<close>, \<^verbatim>\<open>queue.c\<close>, \<^verbatim>\<open>worker_thread.c\<close>,
  \<^verbatim>\<open>thread_pool.c\<close>, \<^verbatim>\<open>main.c\<close> and the programs that link against them).

  The heap is one map per C type, from addresses to live objects: an address is in the map
  exactly while the object is allocated, so a double free, a use after free and a null
  dereference are \<open>Faulted\<close> outcomes. \<open>malloc\<close> hands out addresses that were never used
  before and returns \<open>NULL\<close> once \<open>avail\<close> successful allocations were made, so both branches
  of every \<^verbatim>\<open>if (!p)\<close> are reachable. A mutex records its holder, a condition variable the
  threads that wait on it, oldest first. \<open>threads\<close> is the thread table, \<open>taskfile\<close> the lines of
  \<^verbatim>\<open>task_log.txt\<close>, \<open>clock\<close> the current time as \<^verbatim>\<open>strftime\<close> prints it, \<open>slept\<close> the microseconds
  slept, \<open>log\<close> what went to stdout and stderr.

  A C function is a \<open>prog\<close>: it takes the machine and gives an outcome and the machine it leaves.
\<close>

section \<open>Objects\<close>

text \<open>\<^verbatim>\<open>struct request\<close> of \<^verbatim>\<open>common.h\<close>: a work function, by name, and its argument.\<close>

datatype work = Example_task | Handle_client_request_thread

record request =
  work_fn :: work
  arg :: addr

record node =
  n_data :: addr
  n_next :: addr

record queue =
  front :: addr
  rear :: addr
  mutex :: addr
  cond :: addr
  closed :: bool
  qsize :: "32 word"

record worker_thread =
  thread_id :: tid
  request_queue :: addr

record thread_pool =
  workers :: addr
  num_threads :: int

text \<open>
  A thread created by \<^verbatim>\<open>pthread_create\<close> runs \<^verbatim>\<open>worker_func\<close>; \<open>pc\<close> says which atomic piece of it comes
  next, with the values of its locals \<^verbatim>\<open>local_id\<close>, \<^verbatim>\<open>processed_count\<close> and \<^verbatim>\<open>req\<close> where they are live.
\<close>

datatype wpc = W_start | W_loop int int | W_wait int int | W_run int int addr | W_done

record thread =
  pc :: wpc
  warg :: addr

record machine =
  reqs :: "addr \<rightharpoonup> request"
  nodes :: "addr \<rightharpoonup> node"
  queues :: "addr \<rightharpoonup> queue"
  mutexes :: "addr \<rightharpoonup> tid option"
  conds :: "addr \<rightharpoonup> tid list"
  wthreads :: "addr \<rightharpoonup> worker_thread"
  arrays :: "addr \<rightharpoonup> addr option list"
  pools :: "addr \<rightharpoonup> thread_pool"
  ints :: "addr \<rightharpoonup> int"
  brk :: addr
  avail :: nat
  threads :: "tid \<rightharpoonup> thread"
  next_tid :: tid
  thread_counter :: int
  rands :: "nat \<Rightarrow> nat"
  rpos :: nat
  log :: "io list"
  fopen_ok :: bool
  clock :: string
  taskfile :: "string list"
  slept :: int

text \<open>
  The machine a program starts on: \<open>n\<close> allocations possible, nothing allocated but the one
  static mutex, \<^verbatim>\<open>thread_id_lock\<close>. Thread 0 is the main thread.
\<close>

abbreviation (input) thread_id_lock :: addr where "thread_id_lock \<equiv> 1"

definition boot :: "nat \<Rightarrow> (nat \<Rightarrow> nat) \<Rightarrow> machine" where
  "boot n rs = \<lparr>reqs = Map.empty, nodes = Map.empty, queues = Map.empty,
     mutexes = [thread_id_lock \<mapsto> None], conds = Map.empty, wthreads = Map.empty, arrays = Map.empty,
     pools = Map.empty, ints = Map.empty, brk = 2, avail = n, threads = Map.empty, next_tid = 1,
     thread_counter = 1, rands = rs, rpos = 0, log = [], fopen_ok = True,
     clock = ''[2025-04-29 10:36:52]'', taskfile = [], slept = 0\<rparr>"

section \<open>Programs\<close>

text \<open>A C function that runs on this machine.\<close>

type_synonym 'a prog = "(machine, 'a) cprog"

definition print :: "io \<Rightarrow> unit prog" where
  "print e = modify (log_update (\<lambda>l. l @ [e]))"

section \<open>The heap\<close>

text \<open>
  \<open>malloc upd x\<close> is \<^verbatim>\<open>malloc(sizeof(T))\<close> for the type \<open>T\<close> whose objects \<open>upd\<close> updates; \<open>x\<close>
  is what the fresh object holds before the code fills it in.
\<close>

definition malloc :: "(((addr \<rightharpoonup> 'o) \<Rightarrow> (addr \<rightharpoonup> 'o)) \<Rightarrow> machine \<Rightarrow> machine) \<Rightarrow> 'o \<Rightarrow> addr prog" where
  "malloc upd x = (\<lambda>m.
     if avail m = 0 then (Return NULL, m)
     else (Return (brk m),
           upd (\<lambda>f. f(brk m \<mapsto> x)) (m\<lparr>brk := Suc (brk m), avail := avail m - 1\<rparr>)))"

section \<open>Errors, mutexes and condition variables\<close>

definition EPERM :: int where "EPERM = 1"
definition EINVAL :: int where "EINVAL = 22"

definition strerror :: "int \<Rightarrow> string" where
  "strerror en = (if en = EPERM then ''Operation not permitted''
                  else if en = EINVAL then ''Invalid argument''
                  else ''Unknown error '' @ show_int en)"

definition handle_error_en :: "int \<Rightarrow> string \<Rightarrow> 'a prog" where
  "handle_error_en en msg =
     sq (print (Err (msg @ '': '' @ strerror en @ [nl]))) (exit_with EXIT_FAILURE)"

definition perror_exit :: "string \<Rightarrow> 'a prog" where
  "perror_exit msg = sq (print (Err msg)) (exit_with EXIT_FAILURE)"

text \<open>
  \<^verbatim>\<open>pthread_mutex_lock\<close> by thread \<open>t\<close>: 0 and the lock taken when it is free, \<open>EINVAL\<close> for no
  mutex, and no return while somebody holds it (the default mutex deadlocks on a second lock by
  its own holder). \<^verbatim>\<open>pthread_mutex_unlock\<close> by another thread than the holder is an error.
\<close>

definition pthread_mutex_lock :: "tid \<Rightarrow> addr \<Rightarrow> int prog" where
  "pthread_mutex_lock t p = (\<lambda>m. case mutexes m p of
      None \<Rightarrow> (Return EINVAL, m)
    | Some None \<Rightarrow> (Return 0, m\<lparr>mutexes := (mutexes m)(p \<mapsto> Some t)\<rparr>)
    | Some (Some _) \<Rightarrow> (Blocks, m))"

definition pthread_mutex_unlock :: "tid \<Rightarrow> addr \<Rightarrow> int prog" where
  "pthread_mutex_unlock t p = (\<lambda>m. case mutexes m p of
      None \<Rightarrow> (Return EINVAL, m)
    | Some h \<Rightarrow> if h = Some t then (Return 0, m\<lparr>mutexes := (mutexes m)(p \<mapsto> None)\<rparr>)
                else (Return EPERM, m))"

definition LOCK_MTX :: "tid \<Rightarrow> addr \<Rightarrow> unit prog" where
  "LOCK_MTX t p = bnd (pthread_mutex_lock t p)
     (\<lambda>r. if r \<noteq> 0 then handle_error_en r ''pthread_mutex_lock'' else ret ())"

definition UNLOCK_MTX :: "tid \<Rightarrow> addr \<Rightarrow> unit prog" where
  "UNLOCK_MTX t p = bnd (pthread_mutex_unlock t p)
     (\<lambda>r. if r \<noteq> 0 then handle_error_en r ''pthread_mutex_unlock'' else ret ())"

text \<open>
  A wait puts the thread on the list of waiters and releases the mutex in one step. A signal
  takes one waiter off the list, a broadcast all of them; a woken thread takes the mutex again
  before it goes on. With nobody waiting, both do nothing.
\<close>

definition pthread_cond_wait :: "tid \<Rightarrow> addr \<Rightarrow> addr \<Rightarrow> 'a prog" where
  "pthread_cond_wait t c p = (\<lambda>m.
     (Blocks, m\<lparr>conds := (conds m)(c := map_option (\<lambda>ws. ws @ [t]) (conds m c)),
                mutexes := (mutexes m)(p := Some None)\<rparr>))"

definition pthread_cond_signal :: "addr \<Rightarrow> unit prog" where
  "pthread_cond_signal c = modify (\<lambda>m. m\<lparr>conds := (conds m)(c := map_option tl (conds m c))\<rparr>)"

definition pthread_cond_broadcast :: "addr \<Rightarrow> unit prog" where
  "pthread_cond_broadcast c =
     modify (\<lambda>m. m\<lparr>conds := (conds m)(c := map_option (\<lambda>_. []) (conds m c))\<rparr>)"

text \<open>
  \<^verbatim>\<open>rand()\<close>: the next value of the machine's stream of random numbers, in \<open>[0, RAND_MAX]\<close>.
\<close>

definition rand :: "int prog" where
  "rand = (\<lambda>m. (Return (int (rands m (rpos m) mod 2147483648)), m\<lparr>rpos := Suc (rpos m)\<rparr>))"

section \<open>How the primitives run\<close>

text \<open>
  One equation per primitive and outcome: a function is evaluated on a machine by rewriting
  with the collection \<open>prog_simps\<close>.
\<close>

lemma run_print [prog_simps]: "print e m = (Return (), m\<lparr>log := log m @ [e]\<rparr>)"
  by (simp add: print_def modify_def)

lemma run_malloc_ok [prog_simps]:
  "0 < avail m \<Longrightarrow> malloc upd x m = (Return (brk m),
     upd (\<lambda>f. f(brk m \<mapsto> x)) (m\<lparr>brk := Suc (brk m), avail := avail m - 1\<rparr>))"
  by (simp add: malloc_def)

lemma run_malloc_none [prog_simps]: "avail m = 0 \<Longrightarrow> malloc upd x m = (Return NULL, m)"
  by (simp add: malloc_def)

lemma run_lock [prog_simps]:
  "mutexes m p = Some None \<Longrightarrow>
   LOCK_MTX t p m = (Return (), m\<lparr>mutexes := (mutexes m)(p \<mapsto> Some t)\<rparr>)"
  by (simp add: LOCK_MTX_def bnd_def pthread_mutex_lock_def ret_def)

lemma run_lock_held [prog_simps]: "mutexes m p = Some (Some s) \<Longrightarrow> LOCK_MTX t p m = (Blocks, m)"
  by (simp add: LOCK_MTX_def bnd_def pthread_mutex_lock_def)

lemma run_unlock [prog_simps]:
  "mutexes m p = Some (Some t) \<Longrightarrow>
   UNLOCK_MTX t p m = (Return (), m\<lparr>mutexes := (mutexes m)(p \<mapsto> None)\<rparr>)"
  by (simp add: UNLOCK_MTX_def bnd_def pthread_mutex_unlock_def ret_def)

lemma run_signal [prog_simps]:
  "pthread_cond_signal c m =
     (Return (), m\<lparr>conds := (conds m)(c := map_option tl (conds m c))\<rparr>)"
  by (simp add: pthread_cond_signal_def modify_def)

lemma run_broadcast [prog_simps]:
  "pthread_cond_broadcast c m =
     (Return (), m\<lparr>conds := (conds m)(c := map_option (\<lambda>_. []) (conds m c))\<rparr>)"
  by (simp add: pthread_cond_broadcast_def modify_def)

lemma run_wait [prog_simps]:
  "pthread_cond_wait t c p m =
     (Blocks, m\<lparr>conds := (conds m)(c := map_option (\<lambda>ws. ws @ [t]) (conds m c)),
                mutexes := (mutexes m)(p := Some None)\<rparr>)"
  by (simp add: pthread_cond_wait_def)

lemma run_rand [prog_simps]:
  "rand m = (Return (int (rands m (rpos m) mod 2147483648)), m\<lparr>rpos := Suc (rpos m)\<rparr>)"
  by (simp add: rand_def)

lemma run_perror_exit [prog_simps]:
  "perror_exit msg m = (Exited EXIT_FAILURE, m\<lparr>log := log m @ [Err msg]\<rparr>)"
  by (simp add: perror_exit_def bnd_def print_def modify_def exit_with_def)


text \<open>Updates of one object, in the form of a record update.\<close>

lemma upd_reqs [prog_simps]: "reqs_update (\<lambda>f. f(p := v)) m = m\<lparr>reqs := (reqs m)(p := v)\<rparr>"
  by simp

lemma upd_nodes [prog_simps]: "nodes_update (\<lambda>f. f(p := v)) m = m\<lparr>nodes := (nodes m)(p := v)\<rparr>"
  by simp

lemma upd_queues [prog_simps]: "queues_update (\<lambda>f. f(p := v)) m = m\<lparr>queues := (queues m)(p := v)\<rparr>"
  by simp

lemma upd_wthreads [prog_simps]: "wthreads_update (\<lambda>f. f(p := v)) m = m\<lparr>wthreads := (wthreads m)(p := v)\<rparr>"
  by simp

lemma upd_arrays [prog_simps]: "arrays_update (\<lambda>f. f(p := v)) m = m\<lparr>arrays := (arrays m)(p := v)\<rparr>"
  by simp

lemma upd_pools [prog_simps]: "pools_update (\<lambda>f. f(p := v)) m = m\<lparr>pools := (pools m)(p := v)\<rparr>"
  by simp

lemma upd_ints [prog_simps]: "ints_update (\<lambda>f. f(p := v)) m = m\<lparr>ints := (ints m)(p := v)\<rparr>"
  by simp

lemma upd_mutexes [prog_simps]: "mutexes_update (\<lambda>f. f(p := v)) m = m\<lparr>mutexes := (mutexes m)(p := v)\<rparr>"
  by simp

lemma upd_threads [prog_simps]: "threads_update (\<lambda>f. f(p := v)) m = m\<lparr>threads := (threads m)(p := v)\<rparr>"
  by simp

lemma upd_conds [prog_simps]: "conds_update (\<lambda>f. f(p := v)) m = m\<lparr>conds := (conds m)(p := v)\<rparr>"
  by simp

end
