(* ===== verification/Fifo_Spec.thy ===== *)
theory Fifo_Spec
  imports C_Prelude
begin

text \<open>
  What a request queue promises, with no pointer in sight: a list of items and a flag that says
  whether the queue still accepts some. \<open>fifo_step\<close> gives the answer and the next state for
  every call of the interface \<^verbatim>\<open>src/queue.h\<close>. The locale \<open>simulation\<close> is the contract between
  an implementation and such a specification: each call answers the same and keeps the two
  states related, for the calls a client may make (\<open>legal\<close>) and as long as the implementation
  has the room the call needs; then whole runs answer the same. The queue implementations interpret it.
\<close>

section \<open>The abstract queue\<close>

datatype 'a qop = Enq 'a | Deq | Close | Is_closed | Size

datatype 'a qres = Done | Item 'a | No_item | Must_wait | Flag bool | Count int | Failed

record 'a fifo =
  items :: "'a list"
  shut :: bool

definition empty_fifo :: "'a fifo" where
  "empty_fifo = \<lparr>items = [], shut = False\<rparr>"

fun fifo_step :: "'a fifo \<Rightarrow> 'a qop \<Rightarrow> 'a qres \<times> 'a fifo" where
  "fifo_step s (Enq x) = (Done, if shut s then s else s\<lparr>items := items s @ [x]\<rparr>)"
| "fifo_step s Deq = (case items s of
      [] \<Rightarrow> (if shut s then No_item else Must_wait, s)
    | x # xs \<Rightarrow> (Item x, s\<lparr>items := xs\<rparr>))"
| "fifo_step s Close = (Done, s\<lparr>shut := True\<rparr>)"
| "fifo_step s Is_closed = (Flag (shut s), s)"
| "fifo_step s Size = (Count (int (length (items s))), s)"

section \<open>Runs\<close>

fun run_ops :: "('s \<Rightarrow> 'o \<Rightarrow> 'r \<times> 's) \<Rightarrow> 's \<Rightarrow> 'o list \<Rightarrow> 'r list \<times> 's" where
  "run_ops step s [] = ([], s)"
| "run_ops step s (x # xs) =
     (let (r, s') = step s x; (rs, s'') = run_ops step s' xs in (r # rs, s''))"

text \<open>The items a run handed out, and those it was given while open.\<close>

fun taken :: "'a qres list \<Rightarrow> 'a list" where
  "taken [] = []"
| "taken (Item x # rs) = x # taken rs"
| "taken (_ # rs) = taken rs"

fun accepted :: "bool \<Rightarrow> 'a qop list \<Rightarrow> 'a list" where
  "accepted b [] = []"
| "accepted b (Enq x # xs) = (if b then accepted b xs else x # accepted b xs)"
| "accepted b (Close # xs) = accepted True xs"
| "accepted b (_ # xs) = accepted b xs"

section \<open>First in, first out\<close>

text \<open>
  Over any run, what was taken out, followed by what is still inside, is what was inside at the
  start followed by what was accepted: nothing is lost, duplicated or reordered.
\<close>

lemma fifo_order:
  "run_ops fifo_step s xs = (rs, s') \<Longrightarrow>
   taken rs @ items s' = items s @ accepted (shut s) xs"
proof (induction xs arbitrary: s rs s')
  case (Cons x xs)
  then show ?case
    by (cases x) (fastforce split: prod.splits list.splits if_splits)+
qed simp

lemma run_ops_append:
  "run_ops step s (xs @ ys) =
     (let (r1, s1) = run_ops step s xs; (r2, s2) = run_ops step s1 ys in (r1 @ r2, s2))"
  by (induction xs arbitrary: s) (auto split: prod.splits)

lemma length_run_ops: "run_ops step s xs = (rs, s') \<Longrightarrow> length rs = length xs"
  by (induction xs arbitrary: s rs s') (auto split: prod.splits)

section \<open>Simulation\<close>

locale simulation =
  fixes cstep :: "'c \<Rightarrow> 'o \<Rightarrow> 'r \<times> 'c" and astep :: "'a \<Rightarrow> 'o \<Rightarrow> 'r \<times> 'a"
    and rel :: "'c \<Rightarrow> 'a \<Rightarrow> bool" and room :: "'c \<Rightarrow> nat" and cost :: "'o \<Rightarrow> nat"
    and legal :: "'o \<Rightarrow> bool"
  assumes step_sim: "rel c a \<Longrightarrow> legal x \<Longrightarrow> cost x \<le> room c \<Longrightarrow> cstep c x = (r, c') \<Longrightarrow>
     \<exists>a'. astep a x = (r, a') \<and> rel c' a' \<and> room c \<le> room c' + cost x"
begin

lemma run_sim:
  assumes "rel c a" and "list_all legal xs" and "sum_list (map cost xs) \<le> room c" and "run_ops cstep c xs = (rs, c')"
  shows "\<exists>a'. run_ops astep a xs = (rs, a') \<and> rel c' a'"
  using assms
proof (induction xs arbitrary: c a rs)
  case (Cons x xs)
  obtain r c1 where s: "cstep c x = (r, c1)" by (cases "cstep c x")
  obtain rs1 c2 where t: "run_ops cstep c1 xs = (rs1, c2)" by (cases "run_ops cstep c1 xs")
  from Cons.prems s t have e: "rs = r # rs1" "c' = c2" by auto
  from step_sim [OF Cons.prems(1) _ _ s] Cons.prems(2,3) obtain a1 where
    a1: "astep a x = (r, a1)" "rel c1 a1" "room c \<le> room c1 + cost x" by auto
  with Cons.prems(3) have "sum_list (map cost xs) \<le> room c1" by simp
  from Cons.IH [OF a1(2) _ this] Cons.prems(2) t e obtain a2 where "run_ops astep a1 xs = (rs1, a2)" "rel c' a2"
    by auto
  with a1 e show ?case by auto
qed auto

end

end
