(* ===== verification/Request_Queue.thy ===== *)
theory Request_Queue
  imports Machine Fifo_Spec
begin

text \<open>
  The request queue, \<^verbatim>\<open>src/queue.c\<close>: a singly linked list of nodes with a front and a rear
  pointer, a size, a closed flag, and a mutex and a condition variable supplied by the caller.

  \<^item> The operations, one definition per C function; \<open>t\<close> is the calling thread. \<open>queue_dequeue\<close>
    is one pass through the function: it \<open>Blocks\<close> where \<^verbatim>\<open>pthread_cond_wait\<close> sleeps, and a
    woken thread, which has to take the mutex again and re-test the loop condition, runs it
    again.
  \<^item> \<open>queue_rep m q as\<close>: the nodes \<open>as\<close>, in order, are the list the queue at \<open>q\<close> holds;
    \<open>contents\<close> reads the data pointers off them. \<open>queue_ok\<close> adds that the nodes lie below
    the allocation mark and the mutex is free.
  \<^item> Each operation's exact effect on every branch, and the refinement: through \<open>contents\<close> the
    operations are those of a FIFO list (locale \<open>simulation\<close>, interpreted on the C operations).
\<close>

section \<open>The operations\<close>

definition queue_init :: "addr \<Rightarrow> addr \<Rightarrow> addr prog" where
  "queue_init mtx cond_var =
     bnd (malloc queues_update \<lparr>front = NULL, rear = NULL, mutex = NULL, cond = NULL,
                                closed = False, qsize = 0\<rparr>) (\<lambda>q.
     if q = NULL then perror_exit ''queue_init: malloc''
     else
       sq (store queues queues_update q (\<lambda>r. r\<lparr>front := NULL, rear := NULL\<rparr>))
       (sq (store queues queues_update q (\<lambda>r. r\<lparr>mutex := mtx\<rparr>))
       (sq (store queues queues_update q (\<lambda>r. r\<lparr>cond := cond_var\<rparr>))
       (sq (store queues queues_update q (\<lambda>r. r\<lparr>closed := False\<rparr>))
       (sq (store queues queues_update q (\<lambda>r. r\<lparr>qsize := 0\<rparr>))
       (ret q))))))"

text \<open>
  The loop of \<^verbatim>\<open>queue_destroy\<close>, with fuel: every round frees one node, so the number of nodes
  is enough (\<open>queue_destroy_run\<close> below). Out of fuel is \<open>Blocks\<close>.
\<close>

fun queue_destroy_loop :: "nat \<Rightarrow> addr \<Rightarrow> unit prog" where
  "queue_destroy_loop fuel q =
     bnd (deref queues q) (\<lambda>s.
     if front s = NULL then ret ()
     else case fuel of 0 \<Rightarrow> (\<lambda>m. (Blocks, m)) | Suc fuel' \<Rightarrow>
       bnd (deref nodes (front s)) (\<lambda>tmp.
       sq (store queues queues_update q (\<lambda>r. r\<lparr>front := n_next tmp\<rparr>))
       (sq (free reqs reqs_update (n_data tmp))
       (sq (free nodes nodes_update (front s))
       (queue_destroy_loop fuel' q)))))"

definition queue_destroy :: "nat \<Rightarrow> addr \<Rightarrow> unit prog" where
  "queue_destroy fuel q =
     sq (queue_destroy_loop fuel q) (free queues queues_update q)"

definition queue_enqueue :: "tid \<Rightarrow> addr \<Rightarrow> addr \<Rightarrow> unit prog" where
  "queue_enqueue t q req =
     bnd (malloc nodes_update \<lparr>n_data = NULL, n_next = NULL\<rparr>) (\<lambda>node.
     if node = NULL then perror_exit ''queue_enqueue: malloc''
     else
       sq (store nodes nodes_update node (\<lambda>r. r\<lparr>n_data := req\<rparr>))
       (sq (store nodes nodes_update node (\<lambda>r. r\<lparr>n_next := NULL\<rparr>))
       (bnd (deref queues q) (\<lambda>s0.
       sq (LOCK_MTX t (mutex s0))
       (bnd (deref queues q) (\<lambda>s.
       if closed s then
          sq (print (Err (''queue_enqueue called on closed queue.'' @ [nl])))
          (sq (free nodes nodes_update node)
          (UNLOCK_MTX t (mutex s)))
        else
          sq (if rear s \<noteq> NULL
              then store nodes nodes_update (rear s) (\<lambda>r. r\<lparr>n_next := node\<rparr>)
              else store queues queues_update q (\<lambda>r. r\<lparr>front := node\<rparr>))
          (sq (store queues queues_update q (\<lambda>r. r\<lparr>rear := node\<rparr>))
          (sq (store queues queues_update q (\<lambda>r. r\<lparr>qsize := qsize r + 1\<rparr>))
          (sq (pthread_cond_signal (cond s))
          (UNLOCK_MTX t (mutex s)))))))))))"

definition queue_dequeue :: "tid \<Rightarrow> addr \<Rightarrow> addr prog" where
  "queue_dequeue t q =
     bnd (deref queues q) (\<lambda>s0.
     sq (LOCK_MTX t (mutex s0))
     (bnd (deref queues q) (\<lambda>s.
      if front s = NULL \<and> \<not> closed s then pthread_cond_wait t (cond s) (mutex s)
      else if front s = NULL \<and> closed s then sq (UNLOCK_MTX t (mutex s)) (ret NULL)
      else
        bnd (deref nodes (front s)) (\<lambda>node.
        sq (store queues queues_update q (\<lambda>r. r\<lparr>front := n_next node\<rparr>))
        (bnd (deref queues q) (\<lambda>s1.
        sq (if front s1 = NULL
            then store queues queues_update q (\<lambda>r. r\<lparr>rear := NULL\<rparr>) else ret ())
        (sq (store queues queues_update q (\<lambda>r. r\<lparr>qsize := qsize r - 1\<rparr>))
        (sq (UNLOCK_MTX t (mutex s))
        (bnd (deref nodes (front s)) (\<lambda>node'.
        sq (free nodes nodes_update (front s))
        (ret (n_data node'))))))))))))"

definition queue_close :: "tid \<Rightarrow> addr \<Rightarrow> unit prog" where
  "queue_close t q =
     bnd (deref queues q) (\<lambda>s.
     sq (LOCK_MTX t (mutex s))
     (sq (store queues queues_update q (\<lambda>r. r\<lparr>closed := True\<rparr>))
     (sq (pthread_cond_broadcast (cond s))
     (UNLOCK_MTX t (mutex s)))))"

definition queue_isclosed :: "tid \<Rightarrow> addr \<Rightarrow> bool prog" where
  "queue_isclosed t q =
     bnd (deref queues q) (\<lambda>s.
     sq (LOCK_MTX t (mutex s))
     (bnd (deref queues q) (\<lambda>s'.
     sq (UNLOCK_MTX t (mutex s))
     (ret (closed s')))))"

definition queue_size :: "tid \<Rightarrow> addr \<Rightarrow> int prog" where
  "queue_size t q =
     bnd (deref queues q) (\<lambda>s.
     sq (LOCK_MTX t (mutex s))
     (bnd (deref queues q) (\<lambda>s'.
     sq (UNLOCK_MTX t (mutex s))
     (ret (sint (qsize s'))))))"

section \<open>The list a queue represents\<close>

fun chain :: "(addr \<rightharpoonup> node) \<Rightarrow> addr \<Rightarrow> addr list \<Rightarrow> bool" where
  "chain ns p [] \<longleftrightarrow> p = NULL"
| "chain ns p (a # as) \<longleftrightarrow> p = a \<and> a \<noteq> NULL \<and>
     (case ns a of None \<Rightarrow> False | Some n \<Rightarrow> chain ns (n_next n) as)"

definition queue_rep :: "machine \<Rightarrow> addr \<Rightarrow> addr list \<Rightarrow> bool" where
  "queue_rep m q as \<longleftrightarrow> (case queues m q of None \<Rightarrow> False
     | Some s \<Rightarrow> chain (nodes m) (front s) as \<and> distinct as \<and>
         rear s = (if as = [] then NULL else last as) \<and> qsize s = of_nat (length as))"

text \<open>The data pointers of the nodes, front to rear.\<close>

definition contents :: "machine \<Rightarrow> addr list \<Rightarrow> addr list" where
  "contents m as = map (\<lambda>a. case nodes m a of None \<Rightarrow> NULL | Some n \<Rightarrow> n_data n) as"

text \<open>
  A queue between two calls: its representation is sound, its nodes were allocated (so the next
  address is none of them), its mutex and condition variable exist and nobody is inside.
\<close>

definition queue_ok :: "machine \<Rightarrow> addr \<Rightarrow> addr list \<Rightarrow> bool" where
  "queue_ok m q as \<longleftrightarrow> q \<noteq> NULL \<and> 0 < brk m \<and> queue_rep m q as \<and> (\<forall>a \<in> set as. a < brk m) \<and>
     (case queues m q of None \<Rightarrow> False
      | Some s \<Rightarrow> mutexes m (mutex s) = Some None \<and> conds m (cond s) \<noteq> None)"

section \<open>Chains\<close>

lemma chain_NULL [simp]: "chain ns NULL as \<longleftrightarrow> as = []"
  by (cases as) auto

lemma chain_in_dom: "chain ns p as \<Longrightarrow> a \<in> set as \<Longrightarrow> a \<noteq> NULL \<and> (\<exists>n. ns a = Some n)"
  by (induction ns p as rule: chain.induct) (auto split: option.splits)

lemma chain_cong: "(\<And>a. a \<in> set as \<Longrightarrow> ns a = ns' a) \<Longrightarrow> chain ns p as \<longleftrightarrow> chain ns' p as"
  by (induction ns p as rule: chain.induct) (auto split: option.splits)

lemma chain_upd_other [simp]: "b \<notin> set as \<Longrightarrow> chain (ns(b := v)) p as \<longleftrightarrow> chain ns p as"
  by (rule chain_cong) auto

lemma chain_append_last:
  assumes "chain ns p as" "as \<noteq> []" "distinct as" "b \<notin> set as" "b \<noteq> NULL" "ns (last as) = Some n"
  shows "chain (ns(b \<mapsto> \<lparr>n_data = d, n_next = NULL\<rparr>, last as \<mapsto> n\<lparr>n_next := b\<rparr>)) p (as @ [b])"
  using assms
proof (induction ns p as rule: chain.induct)
  case (2 ns p a as)
  then obtain na where na: "ns a = Some na" by (auto split: option.splits)
  show ?case
  proof (cases "as = []")
    case True
    with 2 show ?thesis by auto
  next
    case False
    then have "last as \<in> set as" by simp
    with 2 False na have "a \<noteq> last as" "a \<noteq> b" by auto
    with 2 False na show ?thesis by (auto simp: fun_upd_def)
  qed
qed simp

lemma contents_upd_other [simp]: "b \<notin> set as \<Longrightarrow> contents (m\<lparr>nodes := (nodes m)(b := v)\<rparr>) as = contents m as"
  by (auto simp: contents_def)

lemma contents_cong: "(\<And>a. a \<in> set as \<Longrightarrow> map_option n_data (nodes m a) = map_option n_data (nodes m' a)) \<Longrightarrow>
    contents m as = contents m' as"
  unfolding contents_def by (rule map_cong) (force split: option.splits)+

lemma contents_Nil [simp]: "contents m [] = []"
  by (simp add: contents_def)

lemma contents_Cons:
  "contents m (a # as) = (case nodes m a of None \<Rightarrow> NULL | Some n \<Rightarrow> n_data n) # contents m as"
  by (simp add: contents_def)

lemma length_contents [simp]: "length (contents m as) = length as"
  by (simp add: contents_def)

lemma queue_repE:
  assumes "queue_rep m q as"
  obtains s where "queues m q = Some s" "chain (nodes m) (front s) as" "distinct as"
    "rear s = (if as = [] then NULL else last as)" "qsize s = of_nat (length as)"
  using assms by (auto simp: queue_rep_def split: option.splits)

lemma queue_okE:
  assumes "queue_ok m q as"
  obtains s where "queues m q = Some s" "chain (nodes m) (front s) as" "distinct as"
    "rear s = (if as = [] then NULL else last as)" "qsize s = of_nat (length as)"
    "q \<noteq> NULL" "0 < brk m" "\<forall>a \<in> set as. a < brk m" "mutexes m (mutex s) = Some None"
    "conds m (cond s) \<noteq> None"
  using assms by (auto simp: queue_ok_def queue_rep_def split: option.splits)

lemma front_NULL_iff: "chain ns (front s) as \<Longrightarrow> front s = NULL \<longleftrightarrow> as = []"
  by (cases as) auto

section \<open>What each operation does\<close>

lemma queue_ok_last:
  assumes "queue_ok m q as" and "as \<noteq> []"
  shows "\<exists>n. nodes m (last as) = Some n" and "last as < brk m" and "last as \<noteq> NULL"
proof -
  have "last as \<in> set as" using assms(2) by simp
  with assms(1) show "\<exists>n. nodes m (last as) = Some n" and "last as < brk m" and "last as \<noteq> NULL"
    by (auto elim!: queue_okE dest: chain_in_dom [where a = "last as"])
qed

lemma queue_enqueue_run:
  assumes ok: "queue_ok m q as" and q: "queues m q = Some s" and av: "0 < avail m" and op: "\<not> closed s"
  shows "queue_enqueue t q req m = (Return (), m\<lparr>
     nodes := (if as = [] then (nodes m)(brk m \<mapsto> \<lparr>n_data = req, n_next = NULL\<rparr>)
               else (nodes m)(brk m \<mapsto> \<lparr>n_data = req, n_next = NULL\<rparr>,
                              last as \<mapsto> (the (nodes m (last as)))\<lparr>n_next := brk m\<rparr>)),
     queues := (queues m)(q \<mapsto> s\<lparr>front := (if as = [] then brk m else front s),
                                  rear := brk m, qsize := qsize s + 1\<rparr>),
     conds := (conds m)(cond s := map_option tl (conds m (cond s))),
     brk := Suc (brk m), avail := avail m - 1\<rparr>)"
proof (cases "as = []")
  case True
  with ok q av op show ?thesis
    unfolding queue_enqueue_def
    by (auto elim!: queue_okE simp: prog_simps fun_upd_idem intro!: machine.equality)
next
  case False
  with ok queue_ok_last [OF ok False] q av op show ?thesis
    unfolding queue_enqueue_def
    by (auto elim!: queue_okE simp: prog_simps fun_upd_idem intro!: machine.equality)
qed

lemma queue_enqueue_closed_run:
  assumes ok: "queue_ok m q as" and q: "queues m q = Some s" and av: "0 < avail m" and cl: "closed s"
  shows "queue_enqueue t q req m = (Return (), m\<lparr>
     nodes := (nodes m)(brk m := None), brk := Suc (brk m), avail := avail m - 1,
     log := log m @ [Err (''queue_enqueue called on closed queue.'' @ [nl])]\<rparr>)"
  using assms unfolding queue_enqueue_def
  by (auto elim!: queue_okE simp: prog_simps fun_upd_idem intro!: machine.equality)

lemma queue_enqueue_nomem_run:
  "avail m = 0 \<Longrightarrow> queue_enqueue t q req m =
     (Exited EXIT_FAILURE, m\<lparr>log := log m @ [Err ''queue_enqueue: malloc'']\<rparr>)"
  by (simp add: queue_enqueue_def prog_simps)

lemma queue_dequeue_item_run:
  assumes ok: "queue_ok m q (a # as)" and q: "queues m q = Some s" and n: "nodes m a = Some n"
  shows "queue_dequeue t q m = (Return (n_data n), m\<lparr>
     nodes := (nodes m)(a := None),
     queues := (queues m)(q \<mapsto> s\<lparr>front := n_next n, rear := (if as = [] then NULL else rear s),
                                  qsize := qsize s - 1\<rparr>)\<rparr>)"
proof -
  from ok q n have c: "front s = a" "a \<noteq> NULL" "chain (nodes m) (n_next n) as" "q \<noteq> NULL"
    "mutexes m (mutex s) = Some None" by (auto elim!: queue_okE split: option.splits)
  then have e: "n_next n = NULL \<longleftrightarrow> as = []" by (cases as) auto
  show ?thesis
  proof (cases "as = []")
    case True
    with c e q n show ?thesis unfolding queue_dequeue_def
      by (auto simp: prog_simps fun_upd_idem intro!: machine.equality)
  next
    case False
    with c e q n show ?thesis unfolding queue_dequeue_def
      by (auto simp: prog_simps fun_upd_idem intro!: machine.equality)
  qed
qed

lemma queue_dequeue_wait_run:
  assumes "queue_ok m q []" and "queues m q = Some s" and "\<not> closed s"
  shows "queue_dequeue t q m = (Blocks, m\<lparr>
     conds := (conds m)(cond s := map_option (\<lambda>ws. ws @ [t]) (conds m (cond s)))\<rparr>)"
  using assms unfolding queue_dequeue_def
  by (auto elim!: queue_okE simp: prog_simps fun_upd_idem intro!: machine.equality)

lemma queue_dequeue_closed_run:
  assumes "queue_ok m q []" and "queues m q = Some s" and "closed s"
  shows "queue_dequeue t q m = (Return NULL, m)"
  using assms unfolding queue_dequeue_def
  by (auto elim!: queue_okE simp: prog_simps fun_upd_idem intro!: machine.equality)

lemma queue_close_run:
  assumes "queue_ok m q as" and "queues m q = Some s"
  shows "queue_close t q m = (Return (), m\<lparr>
     queues := (queues m)(q \<mapsto> s\<lparr>closed := True\<rparr>),
     conds := (conds m)(cond s := map_option (\<lambda>_. []) (conds m (cond s)))\<rparr>)"
  using assms unfolding queue_close_def
  by (auto elim!: queue_okE simp: prog_simps fun_upd_idem intro!: machine.equality)

lemma queue_isclosed_run:
  assumes "queue_ok m q as" and "queues m q = Some s"
  shows "queue_isclosed t q m = (Return (closed s), m)"
  using assms unfolding queue_isclosed_def
  by (auto elim!: queue_okE simp: prog_simps fun_upd_idem intro!: machine.equality)

lemma queue_size_run:
  assumes "queue_ok m q as" and "queues m q = Some s"
  shows "queue_size t q m = (Return (sint (qsize s)), m)"
  using assms unfolding queue_size_def
  by (auto elim!: queue_okE simp: prog_simps fun_upd_idem intro!: machine.equality)

lemma queue_init_run:
  assumes "0 < avail m" and "0 < brk m"
  shows "queue_init mtx cv m = (Return (brk m), m\<lparr>
     queues := (queues m)(brk m \<mapsto> \<lparr>front = NULL, rear = NULL, mutex = mtx, cond = cv,
                                    closed = False, qsize = 0\<rparr>),
     brk := Suc (brk m), avail := avail m - 1\<rparr>)"
  using assms unfolding queue_init_def
  by (auto simp: prog_simps intro!: machine.equality)


section \<open>The invariant is kept\<close>

lemma queue_enqueue_ok:
  assumes ok: "queue_ok m q as" and q: "queues m q = Some s" and av: "0 < avail m" and op: "\<not> closed s"
    and run: "queue_enqueue t q req m = (r, m')"
  shows "r = Return ()" and "queue_ok m' q (as @ [brk m])"
    and "contents m' (as @ [brk m]) = contents m as @ [req]" and "avail m' = avail m - 1"
    and "queues m' q = Some (s\<lparr>front := (if as = [] then brk m else front s),
           rear := brk m, qsize := qsize s + 1\<rparr>)"
proof -
  note e = queue_enqueue_run [OF ok q av op, of t req]
  have fresh: "brk m \<notin> set as" "brk m \<noteq> NULL"
    using ok by (auto elim!: queue_okE)
  from e run show "r = Return ()" "avail m' = avail m - 1"
    "queues m' q = Some (s\<lparr>front := (if as = [] then brk m else front s),
           rear := brk m, qsize := qsize s + 1\<rparr>)" by auto
  show "queue_ok m' q (as @ [brk m])"
  proof (cases "as = []")
    case True
    with e run ok q fresh show ?thesis by (auto elim!: queue_okE simp: queue_ok_def queue_rep_def)
  next
    case False
    from queue_ok_last [OF ok False] obtain n where n: "nodes m (last as) = Some n" by auto
    from ok q have c: "chain (nodes m) (front s) as" "distinct as" by (auto elim!: queue_okE)
    from chain_append_last [OF c(1) False c(2) fresh n]
    have "chain (nodes m') (front s) (as @ [brk m])" using e run n False by auto
    with e run ok q fresh False show ?thesis
      by (auto elim!: queue_okE simp: queue_ok_def queue_rep_def less_SucI)
  qed
  show "contents m' (as @ [brk m]) = contents m as @ [req]"
  proof (cases "as = []")
    case True
    with e run show ?thesis by (auto simp: contents_def)
  next
    case False
    with queue_ok_last [OF ok False] have "last as \<noteq> brk m" by simp
    with False e run queue_ok_last [OF ok False] fresh show ?thesis
      by (auto simp: contents_def)
  qed
qed

lemma queue_enqueue_closed_ok:
  assumes ok: "queue_ok m q as" and q: "queues m q = Some s" and av: "0 < avail m" and cl: "closed s"
    and run: "queue_enqueue t q req m = (r, m')"
  shows "r = Return ()" and "queue_ok m' q as" and "contents m' as = contents m as"
    and "avail m' = avail m - 1" and "queues m' q = Some s"
proof -
  note e = queue_enqueue_closed_run [OF ok q av cl, of t req]
  have "brk m \<notin> set as" using ok by (auto elim!: queue_okE)
  with e run ok q show "r = Return ()" "queue_ok m' q as" "contents m' as = contents m as"
    "avail m' = avail m - 1" "queues m' q = Some s"
    by (auto elim!: queue_okE simp: queue_ok_def queue_rep_def contents_def less_SucI)
qed

lemma queue_dequeue_item_ok:
  assumes ok: "queue_ok m q (a # as)" and q: "queues m q = Some s"
    and run: "queue_dequeue t q m = (r, m')"
  shows "r = Return (hd (contents m (a # as)))" and "queue_ok m' q as"
    and "contents m' as = tl (contents m (a # as))" and "avail m' = avail m"
    and "map_option closed (queues m' q) = Some (closed s)"
proof -
  from ok q obtain n where n: "nodes m a = Some n" by (auto elim!: queue_okE split: option.splits)
  note e = queue_dequeue_item_run [OF ok q n, of t]
  have d: "a \<notin> set as" using ok by (auto elim!: queue_okE)
  from e run n show "r = Return (hd (contents m (a # as)))" "avail m' = avail m"
    "map_option closed (queues m' q) = Some (closed s)" by (auto simp: contents_def)
  from d e run show "contents m' as = tl (contents m (a # as))" by (auto simp: contents_def)
  from ok q n have c: "chain (nodes m) (n_next n) as" "qsize s = of_nat (Suc (length as))"
    by (auto elim!: queue_okE)
  from ok q have "rear s = (if as = [] then a else last as)" by (auto elim!: queue_okE)
  with c d e run ok q show "queue_ok m' q as"
    by (auto elim!: queue_okE simp: queue_ok_def queue_rep_def)
qed

lemma queue_dequeue_wait_ok:
  assumes ok: "queue_ok m q []" and q: "queues m q = Some s" and op: "\<not> closed s"
    and run: "queue_dequeue t q m = (r, m')"
  shows "r = Blocks" and "queue_ok m' q []" and "avail m' = avail m" and "queues m' q = Some s"
  using queue_dequeue_wait_run [OF ok q op, of t] run ok q
  by (auto elim!: queue_okE simp: queue_ok_def queue_rep_def)

lemma queue_close_ok:
  assumes ok: "queue_ok m q as" and q: "queues m q = Some s" and run: "queue_close t q m = (r, m')"
  shows "r = Return ()" and "queue_ok m' q as" and "contents m' as = contents m as"
    and "avail m' = avail m" and "queues m' q = Some (s\<lparr>closed := True\<rparr>)"
  using queue_close_run [OF ok q, of t] run ok q
  by (auto elim!: queue_okE simp: queue_ok_def queue_rep_def contents_def)

text \<open>An operation on one queue leaves the others as they were.\<close>

lemma queue_ok_frame:
  assumes ok: "queue_ok m p bs" and q: "queues m' p = queues m p" and le: "brk m \<le> brk m'"
    and mx: "\<And>x. mutexes m x = Some None \<Longrightarrow> mutexes m' x = Some None" and cv: "\<And>c. conds m c \<noteq> None \<Longrightarrow> conds m' c \<noteq> None"
    and ns: "\<And>b. b \<in> set bs \<Longrightarrow> nodes m' b = nodes m b"
  shows "queue_ok m' p bs" and "contents m' bs = contents m bs"
proof -
  have "chain (nodes m') x bs = chain (nodes m) x bs" for x
    by (rule chain_cong) (use ns in simp)
  with ok q le mx cv show "queue_ok m' p bs"
    by (fastforce simp: queue_ok_def queue_rep_def split: option.splits)
  from ns show "contents m' bs = contents m bs" by (auto intro: contents_cong)
qed


section \<open>Destroying a queue\<close>

declare queue_destroy_loop.simps [simp del]

lemma queue_destroy_loop_run:
  assumes "queues m q = Some s" "q \<noteq> NULL" "chain (nodes m) (front s) as" "distinct as"
    "distinct (contents m as)" "\<forall>d \<in> set (contents m as). d \<noteq> NULL \<and> reqs m d \<noteq> None" "length as \<le> fuel"
  shows "queue_destroy_loop fuel q m = (Return (), m\<lparr>nodes := nodes m |` (- set as),
     queues := (queues m)(q \<mapsto> s\<lparr>front := NULL\<rparr>), reqs := reqs m |` (- set (contents m as))\<rparr>)"
  using assms
proof (induction as arbitrary: m s fuel)
  case Nil
  then show ?case
    by (subst queue_destroy_loop.simps)
       (auto simp: prog_simps fun_upd_idem intro!: machine.equality)
next
  case (Cons a as)
  then obtain n where n: "nodes m a = Some n" "front s = a" "a \<noteq> NULL" "chain (nodes m) (n_next n) as"
    by (auto split: option.splits)
  from Cons.prems obtain fuel' where f: "fuel = Suc fuel'" "length as \<le> fuel'"
    by (cases fuel) auto
  from Cons.prems n obtain rq where rq: "reqs m (n_data n) = Some rq" "n_data n \<noteq> NULL"
    "n_data n \<notin> set (contents m as)" "a \<notin> set as" by (auto simp: contents_def)
  let ?m = "m\<lparr>queues := (queues m)(q \<mapsto> s\<lparr>front := n_next n\<rparr>),
              reqs := (reqs m)(n_data n := None), nodes := (nodes m)(a := None)\<rparr>"
  have c: "contents ?m as = contents m as" using rq by (auto simp: contents_def)
  have step: "queue_destroy_loop fuel q m = queue_destroy_loop fuel' q ?m"
    using Cons.prems n rq f by (subst queue_destroy_loop.simps) (simp add: prog_simps)
  have "queue_destroy_loop fuel' q ?m = (Return (), ?m\<lparr>nodes := nodes ?m |` (- set as),
     queues := (queues ?m)(q \<mapsto> s\<lparr>front := n_next n, front := NULL\<rparr>),
     reqs := reqs ?m |` (- set (contents ?m as))\<rparr>)"
  proof (rule Cons.IH)
    show "chain (nodes ?m) (front (s\<lparr>front := n_next n\<rparr>)) as" using n(4) rq(4) by simp
    show "distinct (contents ?m as)" unfolding c using Cons.prems(5) by (simp add: contents_Cons)
    show "\<forall>d \<in> set (contents ?m as). d \<noteq> NULL \<and> reqs ?m d \<noteq> None"
      unfolding c using Cons.prems(6) rq(3) by (auto simp: contents_Cons)
  qed (use Cons.prems f in auto)
  with step c n show ?case
    by (auto simp: contents_def restrict_map_def fun_eq_iff intro!: machine.equality)
qed

lemma queue_destroy_run:
  assumes "queue_ok m q as" "distinct (contents m as)"
    "\<forall>d \<in> set (contents m as). d \<noteq> NULL \<and> reqs m d \<noteq> None" "length as \<le> fuel"
  shows "queue_destroy fuel q m = (Return (), m\<lparr>nodes := nodes m |` (- set as),
     queues := (queues m)(q := None), reqs := reqs m |` (- set (contents m as))\<rparr>)"
proof -
  from assms(1) obtain s where s: "queues m q = Some s" "q \<noteq> NULL" "chain (nodes m) (front s) as"
    "distinct as" by (auto elim: queue_okE)
  from queue_destroy_loop_run [OF s assms(2-4)] s show ?thesis
    by (auto simp: queue_destroy_def prog_simps intro!: machine.equality)
qed

section \<open>Refinement of the FIFO specification\<close>

text \<open>One call of the interface by thread \<open>t\<close>, with its C result as an answer of the specification.\<close>

fun queue_call :: "tid \<Rightarrow> addr \<Rightarrow> machine \<Rightarrow> addr qop \<Rightarrow> addr qres \<times> machine" where
  "queue_call t q m (Enq x) = (case queue_enqueue t q x m of
      (Return _, m') \<Rightarrow> (Done, m') | (_, m') \<Rightarrow> (Failed, m'))"
| "queue_call t q m Deq = (case queue_dequeue t q m of
      (Return p, m') \<Rightarrow> (if p = NULL then No_item else Item p, m')
    | (Blocks, m') \<Rightarrow> (Must_wait, m') | (_, m') \<Rightarrow> (Failed, m'))"
| "queue_call t q m Close = (case queue_close t q m of
      (Return _, m') \<Rightarrow> (Done, m') | (_, m') \<Rightarrow> (Failed, m'))"
| "queue_call t q m Is_closed = (case queue_isclosed t q m of
      (Return b, m') \<Rightarrow> (Flag b, m') | (_, m') \<Rightarrow> (Failed, m'))"
| "queue_call t q m Size = (case queue_size t q m of
      (Return n, m') \<Rightarrow> (Count n, m') | (_, m') \<Rightarrow> (Failed, m'))"

text \<open>
  The abstraction relation: the machine's queue at \<open>q\<close> holds the specification's items, none of
  them NULL, and the number of items and of allocations still to come fit an \<^verbatim>\<open>int\<close>, so that
  \<^verbatim>\<open>size\<close> cannot wrap.
\<close>

definition queue_rel :: "addr \<Rightarrow> machine \<Rightarrow> addr fifo \<Rightarrow> bool" where
  "queue_rel q m a \<longleftrightarrow> (\<exists>as s. queue_ok m q as \<and> queues m q = Some s \<and> items a = contents m as \<and>
     shut a = closed s \<and> NULL \<notin> set (items a) \<and> length as + avail m < 2147483648)"

fun queue_cost :: "addr qop \<Rightarrow> nat" where
  "queue_cost (Enq x) = 1"
| "queue_cost _ = 0"


fun queue_legal :: "addr qop \<Rightarrow> bool" where
  "queue_legal (Enq x) \<longleftrightarrow> x \<noteq> NULL"
| "queue_legal _ \<longleftrightarrow> True"

lemma queue_relE:
  assumes "queue_rel q m a"
  obtains as s where "queue_ok m q as" "queues m q = Some s" "items a = contents m as"
    "shut a = closed s" "NULL \<notin> set (items a)" "length as + avail m < 2147483648"
  using assms by (auto simp: queue_rel_def)

lemma queue_call_enq:
  assumes rel: "queue_rel q m a" and x: "x \<noteq> NULL" "0 < avail m" and run: "queue_call t q m (Enq x) = (r, m')"
  shows "r = Done \<and> queue_rel q m' (snd (fifo_step a (Enq x))) \<and> avail m = avail m' + 1"
proof -
  from rel obtain as s where ok: "queue_ok m q as" and s: "queues m q = Some s"
    and a: "items a = contents m as" "shut a = closed s" "NULL \<notin> set (items a)"
      "length as + avail m < 2147483648" by (rule queue_relE)
  obtain r0 where e: "queue_enqueue t q x m = (r0, m')"
    using run by (cases "queue_enqueue t q x m") (auto split: outcome.splits)
  show ?thesis
  proof (cases "closed s")
    case True
    from queue_enqueue_closed_ok [OF ok s x(2) True e] run e True a x
    show ?thesis by (auto simp: queue_rel_def)
  next
    case False
    from queue_enqueue_ok [OF ok s x(2) False e] run e False a x show ?thesis
      by (auto simp: queue_rel_def intro!: exI [of _ "as @ [brk m]"])
  qed
qed

lemma queue_call_deq:
  assumes rel: "queue_rel q m a" and run: "queue_call t q m Deq = (r, m')"
  shows "fifo_step a Deq = (r, snd (fifo_step a Deq)) \<and> queue_rel q m' (snd (fifo_step a Deq)) \<and>
         avail m' = avail m"
proof -
  from rel obtain as s where ok: "queue_ok m q as" and s: "queues m q = Some s"
    and a: "items a = contents m as" "shut a = closed s" "NULL \<notin> set (items a)"
      "length as + avail m < 2147483648" by (rule queue_relE)
  obtain r0 where e: "queue_dequeue t q m = (r0, m')"
    using run by (cases "queue_dequeue t q m") (auto split: outcome.splits if_splits)
  show ?thesis
  proof (cases as)
    case Nil
    show ?thesis
    proof (cases "closed s")
      case True
      with queue_dequeue_closed_run [of m q s t] ok s Nil e run a show ?thesis
        by (auto simp: queue_rel_def)
    next
      case False
      with queue_dequeue_wait_ok [OF _ s False e] ok s Nil e run a show ?thesis
        by (auto simp: queue_rel_def)
    qed
  next
    case (Cons b bs)
    note o = queue_dequeue_item_ok [OF ok [unfolded Cons] s e]
    obtain d ds where d: "contents m (b # bs) = d # ds"
      by (simp add: contents_def)
    from o obtain s' where "queues m' q = Some s'" "closed s' = closed s" by auto
    with o d a Cons e run show ?thesis
      by (auto simp: queue_rel_def intro!: exI [of _ bs])
  qed
qed

lemma queue_call_sim:
  assumes rel: "queue_rel q m a" and "queue_legal x" "queue_cost x \<le> avail m"
    and run: "queue_call t q m x = (r, m')"
  shows "\<exists>a'. fifo_step a x = (r, a') \<and> queue_rel q m' a' \<and> avail m \<le> avail m' + queue_cost x"
proof -
  from rel obtain as s where ok: "queue_ok m q as" and s: "queues m q = Some s"
    and a: "items a = contents m as" "shut a = closed s" "NULL \<notin> set (items a)"
      "length as + avail m < 2147483648" by (rule queue_relE)
  show ?thesis
  proof (cases x)
    case (Enq y)
    with queue_call_enq [OF rel, of y t r m'] assms show ?thesis by auto
  next
    case Deq
    with queue_call_deq [OF rel, of t r m'] run show ?thesis
      by (metis le_add1 surj_pair)
  next
    case Close
    with run obtain r0 where e: "queue_close t q m = (r0, m')"
      by (cases "queue_close t q m") (auto split: outcome.splits)
    from queue_close_ok [OF ok s e] Close run e a show ?thesis
      by (auto simp: queue_rel_def)
  next
    case Is_closed
    with queue_isclosed_run [OF ok s, of t] run rel a show ?thesis by auto
  next
    case Size
    have "qsize s = of_nat (length as)" using ok s by (auto elim: queue_okE)
    with queue_size_run [OF ok s, of t] run rel a Size show ?thesis
      by (auto simp: sint_of_nat32)
  qed
qed

interpretation cq: simulation "queue_call t q" fifo_step "queue_rel q" avail queue_cost queue_legal
  for t :: tid and q :: addr
  by unfold_locales (rule queue_call_sim)


section \<open>Properties\<close>

text \<open>
  A machine with one queue, made by \<open>queue_init\<close> on a fresh mutex (address 2) and a fresh
  condition variable (address 3); its address is 4.
\<close>

definition one_queue :: "nat \<Rightarrow> machine" where
  "one_queue n = snd (queue_init 2 3 ((boot (Suc n) (\<lambda>_. 0))
     \<lparr>mutexes := [2 \<mapsto> None], conds := [3 \<mapsto> []], brk := 4\<rparr>))"

lemma one_queue_unfold: "one_queue n = (boot n (\<lambda>_. 0))\<lparr>mutexes := [2 \<mapsto> None], conds := [3 \<mapsto> []], brk := 5,
    queues := [4 \<mapsto> \<lparr>front = NULL, rear = NULL, mutex = 2, cond = 3, closed = False, qsize = 0\<rparr>]\<rparr>"
  unfolding one_queue_def by (subst queue_init_run) (simp_all add: boot_def)

lemma one_queue_rel: "n < 2147483648 \<Longrightarrow> queue_rel 4 (one_queue n) empty_fifo"
  by (auto simp: queue_rel_def queue_ok_def queue_rep_def one_queue_unfold empty_fifo_def boot_def
      intro!: exI [of _ "[]"])

text \<open>
  C1. Refinement of \<^verbatim>\<open>src/queue.c\<close>: whatever sequence of calls to enqueue, dequeue, close, isclosed
  and size is made on a queue (no NULL is enqueued, and malloc does not run dry), every call
  answers exactly what the abstract FIFO queue answers, and the pointer structure represents the
  abstract queue again afterwards.
\<close>

theorem queue_refines_fifo:
  assumes "queue_rel q m a" and "list_all queue_legal xs"
    and "sum_list (map queue_cost xs) \<le> avail m" and "run_ops (queue_call t q) m xs = (rs, m')"
  shows "\<exists>a'. run_ops fifo_step a xs = (rs, a') \<and> queue_rel q m' a'"
  using assms by (rule cq.run_sim)

theorem queue_refines_fifo_witness:
  "\<exists>a'. run_ops fifo_step empty_fifo [Enq 7, Enq 8, Deq, Close, Enq 9, Size, Deq, Deq] =
     (fst (run_ops (queue_call 0 4) (one_queue 5) [Enq 7, Enq 8, Deq, Close, Enq 9, Size, Deq, Deq]), a')
   \<and> queue_rel 4 (snd (run_ops (queue_call 0 4) (one_queue 5)
        [Enq 7, Enq 8, Deq, Close, Enq 9, Size, Deq, Deq])) a'"
proof (rule queue_refines_fifo)
  show "queue_rel 4 (one_queue 5) empty_fifo" by (rule one_queue_rel) simp
  show "sum_list (map queue_cost [Enq 7, Enq 8, Deq, Close, Enq 9, Size, Deq, Deq]) \<le> avail (one_queue 5)"
    by (simp add: one_queue_unfold boot_def)
qed simp_all

text \<open>
  C2. First in, first out, nothing lost: over any run of calls on a queue, the items handed out
  by dequeue followed by the items still inside are the items inside at the start followed by
  those enqueued before the close.
\<close>

theorem queue_first_in_first_out:
  assumes "queue_rel q m a" and "list_all queue_legal xs"
    and "sum_list (map queue_cost xs) \<le> avail m" and "run_ops (queue_call t q) m xs = (rs, m')"
  shows "\<exists>as. queue_ok m' q as \<and> taken rs @ contents m' as = items a @ accepted (shut a) xs"
proof -
  from cq.run_sim [OF assms] obtain a' where "run_ops fifo_step a xs = (rs, a')" "queue_rel q m' a'"
    by blast
  with fifo_order [of a xs rs a'] show ?thesis by (auto elim!: queue_relE)
qed

theorem queue_first_in_first_out_witness:
  "\<exists>as. queue_ok (snd (run_ops (queue_call 0 4) (one_queue 3) [Enq 7, Enq 8, Deq])) 4 as \<and>
     taken (fst (run_ops (queue_call 0 4) (one_queue 3) [Enq 7, Enq 8, Deq])) @
       contents (snd (run_ops (queue_call 0 4) (one_queue 3) [Enq 7, Enq 8, Deq])) as = [7, 8]"
  using queue_first_in_first_out [of 4 "one_queue 3" empty_fifo "[Enq 7, Enq 8, Deq]" 0
      "fst (run_ops (queue_call 0 4) (one_queue 3) [Enq 7, Enq 8, Deq])"
      "snd (run_ops (queue_call 0 4) (one_queue 3) [Enq 7, Enq 8, Deq])"] one_queue_rel [of 3]
  by (simp add: one_queue_unfold boot_def empty_fifo_def)



end
