(* ===== verification/Pool_Spec.thy ===== *)
theory Pool_Spec
  imports C_Prelude "HOL-Library.Multiset"
begin

text \<open>
  What the thread pool promises, as a state machine without pointers: \<open>N\<close> workers, each with a
  FIFO queue of its own, and a main thread that creates the workers, hands out \<open>K\<close> tasks to
  queues of its choice, closes the queues and joins the workers. A step is one atomic piece of
  one thread: a critical section, a task, the creation or the join of a worker. The relation
  covers every interleaving and every spurious wake-up of a condition variable.

  Shown here once, for the programs that refine it: a sleeping worker has an empty, open queue
  (no wake-up is lost); a worker that left its loop has an empty, closed queue; every task sent
  to a worker is run by it exactly once and in order; some thread can move until the pool is
  finished; and without spurious wake-ups every run is finite.
\<close>

section \<open>States and steps\<close>

datatype phase = Creating nat | Adding nat | Closing nat | Joining nat | Finished

datatype wstate = Absent | Starting | Looping | Sleeping | Woken | Running nat | Quit | Joined

record pool =
  ph :: phase
  que :: "nat \<Rightarrow> nat list"
  shutq :: "nat \<Rightarrow> bool"
  st :: "nat \<Rightarrow> wstate"
  sent :: "(nat \<times> nat) list"
  did :: "(nat \<times> nat) list"

definition pool_init :: pool where
  "pool_init = \<lparr>ph = Creating 0, que = (\<lambda>_. []), shutq = (\<lambda>_. False), st = (\<lambda>_. Absent),
                sent = [], did = []\<rparr>"

definition wake :: "wstate \<Rightarrow> wstate" where
  "wake w = (if w = Sleeping then Woken else w)"

text \<open>The steps of the main thread.\<close>

inductive main_move :: "nat \<Rightarrow> nat \<Rightarrow> pool \<Rightarrow> pool \<Rightarrow> bool" for N K where
  create: "ph s = Creating i \<Longrightarrow> i < N \<Longrightarrow>
     main_move N K s (s\<lparr>ph := Creating (Suc i), st := (st s)(i := Starting)\<rparr>)"
| created: "ph s = Creating N \<Longrightarrow> main_move N K s (s\<lparr>ph := Adding 0\<rparr>)"
| add: "ph s = Adding k \<Longrightarrow> k < K \<Longrightarrow> i < N \<Longrightarrow>
     main_move N K s (s\<lparr>ph := Adding (Suc k), que := (que s)(i := que s i @ [k]),
       st := (st s)(i := wake (st s i)), sent := sent s @ [(i, k)]\<rparr>)"
| added: "ph s = Adding K \<Longrightarrow> main_move N K s (s\<lparr>ph := Closing 0\<rparr>)"
| close: "ph s = Closing i \<Longrightarrow> i < N \<Longrightarrow>
     main_move N K s (s\<lparr>ph := Closing (Suc i), shutq := (shutq s)(i := True),
       st := (st s)(i := wake (st s i))\<rparr>)"
| closed: "ph s = Closing N \<Longrightarrow> main_move N K s (s\<lparr>ph := Joining 0\<rparr>)"
| join: "ph s = Joining i \<Longrightarrow> i < N \<Longrightarrow> st s i = Quit \<Longrightarrow>
     main_move N K s (s\<lparr>ph := Joining (Suc i), st := (st s)(i := Joined)\<rparr>)"
| joined: "ph s = Joining N \<Longrightarrow> main_move N K s (s\<lparr>ph := Finished\<rparr>)"

text \<open>The steps of worker \<open>i\<close>.\<close>

inductive worker_move :: "nat \<Rightarrow> pool \<Rightarrow> pool \<Rightarrow> bool" for i where
  start: "st s i = Starting \<Longrightarrow> worker_move i s (s\<lparr>st := (st s)(i := Looping)\<rparr>)"
| take: "st s i \<in> {Looping, Woken} \<Longrightarrow> que s i = x # xs \<Longrightarrow>
     worker_move i s (s\<lparr>st := (st s)(i := Running x), que := (que s)(i := xs)\<rparr>)"
| sleep: "st s i \<in> {Looping, Woken} \<Longrightarrow> que s i = [] \<Longrightarrow> \<not> shutq s i \<Longrightarrow>
     worker_move i s (s\<lparr>st := (st s)(i := Sleeping)\<rparr>)"
| leave: "st s i \<in> {Looping, Woken} \<Longrightarrow> que s i = [] \<Longrightarrow> shutq s i \<Longrightarrow>
     worker_move i s (s\<lparr>st := (st s)(i := Quit)\<rparr>)"
| finish: "st s i = Running x \<Longrightarrow>
     worker_move i s (s\<lparr>st := (st s)(i := Looping), did := did s @ [(i, x)]\<rparr>)"

inductive pool_step :: "nat \<Rightarrow> nat \<Rightarrow> pool \<Rightarrow> pool \<Rightarrow> bool" for N K where
  by_main: "main_move N K s s' \<Longrightarrow> pool_step N K s s'"
| by_worker: "i < N \<Longrightarrow> worker_move i s s' \<Longrightarrow> pool_step N K s s'"

inductive pool_step_spurious :: "nat \<Rightarrow> nat \<Rightarrow> pool \<Rightarrow> pool \<Rightarrow> bool" for N K where
  proper: "pool_step N K s s' \<Longrightarrow> pool_step_spurious N K s s'"
| spurious: "i < N \<Longrightarrow> st s i = Sleeping \<Longrightarrow>
     pool_step_spurious N K s (s\<lparr>st := (st s)(i := Woken)\<rparr>)"

inductive pool_reach :: "nat \<Rightarrow> nat \<Rightarrow> pool \<Rightarrow> bool" for N K where
  init: "pool_reach N K pool_init"
| step: "pool_reach N K s \<Longrightarrow> pool_step_spurious N K s s' \<Longrightarrow> pool_reach N K s'"

section \<open>The invariant\<close>

definition inflight :: "wstate \<Rightarrow> nat list" where
  "inflight w = (case w of Running x \<Rightarrow> [x] | _ \<Rightarrow> [])"

definition of_worker :: "nat \<Rightarrow> (nat \<times> nat) list \<Rightarrow> nat list" where
  "of_worker i xs = map snd (filter (\<lambda>p. fst p = i) xs)"

text \<open>How far creation, adding, closing and joining have got in a phase.\<close>

fun n_created :: "nat \<Rightarrow> phase \<Rightarrow> nat" where
  "n_created N (Creating i) = i" | "n_created N _ = N"

fun n_added :: "nat \<Rightarrow> phase \<Rightarrow> nat" where
  "n_added K (Creating _) = 0" | "n_added K (Adding k) = k" | "n_added K _ = K"

fun n_closed :: "nat \<Rightarrow> phase \<Rightarrow> nat" where
  "n_closed N (Creating _) = 0" | "n_closed N (Adding _) = 0" | "n_closed N (Closing i) = i"
| "n_closed N _ = N"

fun n_joined :: "nat \<Rightarrow> phase \<Rightarrow> nat" where
  "n_joined N (Joining i) = i" | "n_joined N Finished = N" | "n_joined N _ = 0"

definition phase_ok :: "nat \<Rightarrow> nat \<Rightarrow> phase \<Rightarrow> bool" where
  "phase_ok N K p \<longleftrightarrow> n_created N p \<le> N \<and> n_added K p \<le> K \<and> n_closed N p \<le> N \<and> n_joined N p \<le> N"

definition winv :: "nat \<Rightarrow> phase \<Rightarrow> nat \<Rightarrow> nat list \<Rightarrow> bool \<Rightarrow> wstate \<Rightarrow> nat list \<Rightarrow> nat list \<Rightarrow> bool" where
  "winv N p i q sh w sn dn \<longleftrightarrow>
     (w = Absent \<longleftrightarrow> n_created N p \<le> i) \<and> (w = Absent \<longrightarrow> q = []) \<and>
     (sh \<longleftrightarrow> i < n_closed N p) \<and> (w = Joined \<longleftrightarrow> i < n_joined N p) \<and>
     (w = Sleeping \<longrightarrow> q = [] \<and> \<not> sh) \<and> (w \<in> {Quit, Joined} \<longrightarrow> q = [] \<and> sh) \<and>
     sn = dn @ inflight w @ q"

definition worker_inv :: "nat \<Rightarrow> pool \<Rightarrow> nat \<Rightarrow> bool" where
  "worker_inv N s i \<longleftrightarrow>
     winv N (ph s) i (que s i) (shutq s i) (st s i) (of_worker i (sent s)) (of_worker i (did s))"

definition pool_inv :: "nat \<Rightarrow> nat \<Rightarrow> pool \<Rightarrow> bool" where
  "pool_inv N K s \<longleftrightarrow> phase_ok N K (ph s) \<and> (\<forall>i. worker_inv N s i) \<and>
     map snd (sent s) = [0..<n_added K (ph s)] \<and> (\<forall>p \<in> set (sent s). fst p < N)"

section \<open>Preservation\<close>

lemma of_worker_append: "of_worker i (xs @ ys) = of_worker i xs @ of_worker i ys"
  by (simp add: of_worker_def)

lemma of_worker_one: "of_worker i [(j, x)] = (if i = j then [x] else [])"
  by (simp add: of_worker_def)

lemmas pool_defs = pool_inv_def worker_inv_def phase_ok_def of_worker_append of_worker_one

lemma pool_inv_init: "pool_inv N K pool_init"
  by (auto simp: pool_defs pool_init_def winv_def of_worker_def inflight_def)

lemma inflight_simps [simp]:
  "inflight Absent = []" "inflight Starting = []" "inflight Looping = []" "inflight Sleeping = []"
  "inflight Woken = []" "inflight Quit = []" "inflight Joined = []" "inflight (Running x) = [x]"
  "inflight (wake w) = inflight w"
  by (auto simp: inflight_def wake_def)

lemma wake_simps [simp]:
  "wake w \<noteq> Sleeping" "wake w = Absent \<longleftrightarrow> w = Absent" "wake w = Joined \<longleftrightarrow> w = Joined"
  "wake w = Quit \<longleftrightarrow> w = Quit"
  by (auto simp: wake_def)

lemma main_move_inv: "main_move N K s s' \<Longrightarrow> pool_inv N K s \<Longrightarrow> pool_inv N K s'"
proof (induction rule: main_move.induct)
  case (create s i)
  then have "st s i = Absent" by (auto simp: pool_defs winv_def)
  with create show ?case by (auto simp: pool_defs winv_def less_Suc_eq)
next
  case (add s k i)
  then have "st s i \<noteq> Absent" by (auto simp: pool_defs winv_def)
  with add show ?case by (auto simp: pool_defs winv_def)
next
  case (close s i)
  then show ?case by (auto simp: pool_defs winv_def less_Suc_eq)
next
  case (join s i)
  then show ?case by (auto simp: pool_defs winv_def less_Suc_eq)
qed (auto simp: pool_defs winv_def)

text \<open>A step of one worker: only what that worker sees has to be checked again.\<close>

lemma pool_inv_local:
  assumes "pool_inv N K s" "ph s' = ph s" "sent s' = sent s"
    "\<And>j. j \<noteq> i \<Longrightarrow> que s' j = que s j \<and> shutq s' j = shutq s j \<and> st s' j = st s j \<and>
          of_worker j (did s') = of_worker j (did s)"
    "winv N (ph s) i (que s' i) (shutq s' i) (st s' i) (of_worker i (sent s)) (of_worker i (did s'))"
  shows "pool_inv N K s'"
proof -
  have "worker_inv N s' j" for j
    using assms by (cases "j = i") (auto simp: pool_inv_def worker_inv_def)
  with assms(1-3) show ?thesis by (auto simp: pool_inv_def)
qed

lemma pool_inv_winv:
  "pool_inv N K s \<Longrightarrow> winv N (ph s) i (que s i) (shutq s i) (st s i) (of_worker i (sent s)) (of_worker i (did s))"
  by (auto simp: pool_inv_def worker_inv_def)

lemma worker_move_inv: "worker_move i s s' \<Longrightarrow> pool_inv N K s \<Longrightarrow> pool_inv N K s'"
proof (induction rule: worker_move.induct)
  case (start s)
  show ?case by (rule pool_inv_local [OF start(2), of _ i])
      (use pool_inv_winv [OF start(2), of i] start(1) in \<open>auto simp: winv_def\<close>)
next
  case (take s x xs)
  show ?case by (rule pool_inv_local [OF take(3), of _ i])
      (use pool_inv_winv [OF take(3), of i] take(1,2) in \<open>auto simp: winv_def\<close>)
next
  case (sleep s)
  show ?case by (rule pool_inv_local [OF sleep(4), of _ i])
      (use pool_inv_winv [OF sleep(4), of i] sleep(1,2,3) in \<open>auto simp: winv_def\<close>)
next
  case (leave s)
  show ?case by (rule pool_inv_local [OF leave(4), of _ i])
      (use pool_inv_winv [OF leave(4), of i] leave(1,2,3) in \<open>auto simp: winv_def\<close>)
next
  case (finish s x)
  show ?case by (rule pool_inv_local [OF finish(2), of _ i])
      (use pool_inv_winv [OF finish(2), of i] finish(1) in \<open>auto simp: winv_def of_worker_append of_worker_one\<close>)
qed

lemma spurious_inv: "st s i = Sleeping \<Longrightarrow> pool_inv N K s \<Longrightarrow> pool_inv N K (s\<lparr>st := (st s)(i := Woken)\<rparr>)"
  by (rule pool_inv_local [of N K s _ i]) (auto dest: pool_inv_winv [of N K s i] simp: winv_def)

lemma pool_step_inv: "pool_step N K s s' \<Longrightarrow> pool_inv N K s \<Longrightarrow> pool_inv N K s'"
  by (auto elim!: pool_step.cases intro: main_move_inv worker_move_inv)

lemma pool_step_spurious_inv: "pool_step_spurious N K s s' \<Longrightarrow> pool_inv N K s \<Longrightarrow> pool_inv N K s'"
  by (auto elim!: pool_step_spurious.cases intro: pool_step_inv spurious_inv)

lemma pool_reach_inv: "pool_reach N K s \<Longrightarrow> pool_inv N K s"
  by (induction rule: pool_reach.induct) (auto intro: pool_inv_init pool_step_spurious_inv)


section \<open>Some thread can always move\<close>

lemma worker_can_move:
  assumes "st s i \<notin> {Absent, Sleeping, Quit, Joined}"
  shows "\<exists>s'. worker_move i s s'"
proof (cases "st s i")
  case Looping
  then show ?thesis by (cases "que s i"; cases "shutq s i") (blast intro: worker_move.intros)+
next
  case Woken
  then show ?thesis by (cases "que s i"; cases "shutq s i") (blast intro: worker_move.intros)+
qed (use assms in \<open>auto intro: worker_move.intros\<close>)

lemma pool_progress:
  assumes inv: "pool_inv N K s" and N: "0 < N" and nf: "ph s \<noteq> Finished"
  shows "\<exists>s'. pool_step N K s s'"
proof (cases "ph s")
  case (Creating i)
  with inv have "i < N \<or> i = N" by (auto simp: pool_inv_def phase_ok_def)
  with Creating show ?thesis by (blast intro: pool_step.intros main_move.intros)
next
  case (Adding k)
  with inv have "k < K \<or> k = K" by (auto simp: pool_inv_def phase_ok_def)
  with Adding N show ?thesis by (blast intro: pool_step.intros main_move.intros)
next
  case (Closing i)
  with inv have "i < N \<or> i = N" by (auto simp: pool_inv_def phase_ok_def)
  with Closing show ?thesis by (blast intro: pool_step.intros main_move.intros)
next
  case (Joining i)
  with inv have le: "i < N \<or> i = N" by (auto simp: pool_inv_def phase_ok_def)
  show ?thesis
  proof (cases "i = N")
    case True
    with Joining show ?thesis by (blast intro: pool_step.intros main_move.intros)
  next
    case False
    with le have i: "i < N" by simp
    with Joining pool_inv_winv [OF inv, of i] have "st s i \<notin> {Absent, Sleeping, Joined}"
      by (auto simp: winv_def)
    then consider "st s i = Quit" | "\<exists>s'. worker_move i s s'" using worker_can_move [of s i] by auto
    then show ?thesis
      using i Joining by cases (blast intro: pool_step.intros main_move.intros)+
  qed
qed (use nf in simp)

section \<open>Every run without spurious wake-ups is finite\<close>

fun main_left :: "nat \<Rightarrow> nat \<Rightarrow> phase \<Rightarrow> nat" where
  "main_left N K (Creating i) = (N - i) + K + 2 * N + 4"
| "main_left N K (Adding k) = (K - k) + 2 * N + 3"
| "main_left N K (Closing i) = (N - i) + N + 2"
| "main_left N K (Joining i) = (N - i) + 1"
| "main_left N K Finished = 0"

fun weight :: "wstate \<Rightarrow> nat" where
  "weight Absent = 0" | "weight Starting = 3" | "weight Looping = 2" | "weight Woken = 2"
| "weight Sleeping = 1" | "weight (Running _) = 4" | "weight Quit = 0" | "weight Joined = 0"

definition wweight :: "pool \<Rightarrow> nat \<Rightarrow> nat" where
  "wweight s i = weight (st s i) + 3 * length (que s i)"

definition pool_measure :: "nat \<Rightarrow> nat \<Rightarrow> pool \<Rightarrow> nat" where
  "pool_measure N K s = 10 * main_left N K (ph s) + (\<Sum>i<N. wweight s i)"

lemma sum_one_changed:
  assumes "(i::nat) < N" and "\<And>j. j \<noteq> i \<Longrightarrow> g j = f j"
  shows "(\<Sum>j<N. g j) + f i = (\<Sum>j<N. f j) + (g i :: nat)"
proof -
  have "(\<Sum>j\<in>{..<N} - {i}. g j) = (\<Sum>j\<in>{..<N} - {i}. f j)"
    using assms(2) by (intro sum.cong) auto
  with assms(1) sum.remove [of "{..<N}" i g] sum.remove [of "{..<N}" i f] show ?thesis by simp
qed

lemma weight_wake: "weight (wake w) \<le> Suc (weight w)"
  by (auto simp: wake_def)

lemma worker_move_measure: "worker_move i s s' \<Longrightarrow> i < N \<Longrightarrow> pool_measure N K s' < pool_measure N K s"
proof -
  assume w: "worker_move i s s'" and i: "i < N"
  then have "wweight s' i < wweight s i" "ph s' = ph s" "\<And>j. j \<noteq> i \<Longrightarrow> wweight s' j = wweight s j"
    by (auto elim!: worker_move.cases simp: wweight_def)
  with sum_one_changed [OF i, of "wweight s'" "wweight s"] show ?thesis
    by (simp add: pool_measure_def)
qed

lemma main_move_measure: "main_move N K s s' \<Longrightarrow> pool_measure N K s' < pool_measure N K s"
proof (induction rule: main_move.induct)
  case (create s i)
  let ?s' = "s\<lparr>ph := Creating (Suc i), st := (st s)(i := Starting)\<rparr>"
  have "(\<Sum>j<N. wweight ?s' j) + wweight s i = (\<Sum>j<N. wweight s j) + wweight ?s' i"
    using create by (intro sum_one_changed) (auto simp: wweight_def)
  then have "(\<Sum>j<N. wweight ?s' j) \<le> (\<Sum>j<N. wweight s j) + 3" by (auto simp: wweight_def)
  with create show ?case by (simp add: pool_measure_def)
next
  case (add s k i)
  let ?s' = "s\<lparr>ph := Adding (Suc k), que := (que s)(i := que s i @ [k]),
       st := (st s)(i := wake (st s i)), sent := sent s @ [(i, k)]\<rparr>"
  have "(\<Sum>j<N. wweight ?s' j) + wweight s i = (\<Sum>j<N. wweight s j) + wweight ?s' i"
    using add by (intro sum_one_changed) (auto simp: wweight_def)
  then have "(\<Sum>j<N. wweight ?s' j) \<le> (\<Sum>j<N. wweight s j) + 4"
    using weight_wake [of "st s i"] by (auto simp: wweight_def)
  with add show ?case by (simp add: pool_measure_def)
next
  case (close s i)
  let ?s' = "s\<lparr>ph := Closing (Suc i), shutq := (shutq s)(i := True), st := (st s)(i := wake (st s i))\<rparr>"
  have "(\<Sum>j<N. wweight ?s' j) + wweight s i = (\<Sum>j<N. wweight s j) + wweight ?s' i"
    using close by (intro sum_one_changed) (auto simp: wweight_def)
  then have "(\<Sum>j<N. wweight ?s' j) \<le> (\<Sum>j<N. wweight s j) + 1"
    using weight_wake [of "st s i"] by (auto simp: wweight_def)
  with close show ?case by (simp add: pool_measure_def)
next
  case (join s i)
  let ?s' = "s\<lparr>ph := Joining (Suc i), st := (st s)(i := Joined)\<rparr>"
  have "(\<Sum>j<N. wweight ?s' j) + wweight s i = (\<Sum>j<N. wweight s j) + wweight ?s' i"
    using join by (intro sum_one_changed) (auto simp: wweight_def)
  with join show ?case by (auto simp: pool_measure_def wweight_def)
qed (auto simp: pool_measure_def wweight_def)

lemma pool_step_measure: "pool_step N K s s' \<Longrightarrow> pool_measure N K s' < pool_measure N K s"
  by (auto elim!: pool_step.cases intro: main_move_measure worker_move_measure)

section \<open>What a finished pool has done\<close>

lemma of_worker_count: "count_list (of_worker i xs) x = count (mset xs) (i, x)"
  by (induction xs) (auto simp: of_worker_def)

lemma mset_of_workers: "(\<And>i. of_worker i xs = of_worker i ys) \<Longrightarrow> mset xs = mset ys"
proof (rule multiset_eqI)
  fix p assume "\<And>i. of_worker i xs = of_worker i ys"
  then show "count (mset xs) p = count (mset ys) p"
    using of_worker_count [of "fst p" xs "snd p"] of_worker_count [of "fst p" ys "snd p"] by simp
qed

lemma pool_finished:
  assumes inv: "pool_inv N K s" and f: "ph s = Finished"
  shows "of_worker i (did s) = of_worker i (sent s)" and "mset (map snd (did s)) = mset [0..<K]"
proof -
  have eq: "of_worker i (did s) = of_worker i (sent s)" for i
  proof (cases "i < N")
    case True
    with pool_inv_winv [OF inv, of i] f show ?thesis by (auto simp: winv_def)
  next
    case False
    with pool_inv_winv [OF inv, of i] f show ?thesis by (auto simp: winv_def)
  qed
  then show "of_worker i (did s) = of_worker i (sent s)" .
  from mset_of_workers [OF eq] have "mset (map snd (did s)) = mset (map snd (sent s))" by simp
  also have "\<dots> = mset [0..<K]" using inv f by (simp add: pool_inv_def)
  finally show "mset (map snd (did s)) = mset [0..<K]" .
qed

end
