(* ===== verification/Worker_Pool.thy ===== *)
theory Worker_Pool
  imports Request_Queue Pool_Spec
begin

text \<open>
  The thread pool: \<^verbatim>\<open>src/tasks.c\<close>, \<^verbatim>\<open>src/worker_thread.c\<close>, \<^verbatim>\<open>src/thread_pool.c\<close> and \<^verbatim>\<open>src/main.c\<close>, as
  the code of the machine. A thread runs in atomic pieces: \<open>worker_func\<close> is the next piece of a
  worker (taking its number, one pass of \<^verbatim>\<open>queue_dequeue\<close>, one request), \<open>main_step\<close> the next
  piece of \<^verbatim>\<open>main\<close> (the creation of one worker, one task handed out, one queue closed, one
  worker joined). \<open>sys_step\<close> interleaves them in every way, with spurious wake-ups, and stops the
  process when a piece exits or faults.
\<close>

section \<open>tasks.c\<close>

definition fprintf_log :: "string \<Rightarrow> unit prog" where
  "fprintf_log l = modify (\<lambda>m. m\<lparr>taskfile := taskfile m @ [l]\<rparr>)"

definition log_line :: "string \<Rightarrow> tid \<Rightarrow> string \<Rightarrow> string" where
  "log_line ts t msg = ts @ '' [Thread '' @ show_nat t @ ''] '' @ msg @ [nl]"

definition example_task :: "tid \<Rightarrow> addr \<Rightarrow> unit prog" where
  "example_task t a =
     bnd (gets fopen_ok) (\<lambda>opened.
     if \<not> opened then print (Err ''fopen'')
     else
       bnd (gets clock) (\<lambda>timestamp.
       bnd rand (\<lambda>r.
       let task_type = r smod 3 in
       bnd (deref ints a) (\<lambda>val.
       sq (fprintf_log (log_line timestamp t (''Log message '' @ show_int val)))
       (if task_type = 0 then
          bnd rand (\<lambda>r'.
          let x = r' smod 1000 in
          fprintf_log (log_line timestamp t (''Sum of numbers < '' @ show_int x @ '' is '' @
            show_int (i32 (x * (x - 1)) sdiv 2))))
        else if task_type = 1 then
          bnd rand (\<lambda>r'.
          let delay_ms = r' smod 200 + 50 in
          sq (modify (\<lambda>m. m\<lparr>slept := slept m + delay_ms * 1000\<rparr>))
          (fprintf_log (log_line timestamp t (''Simulated delay of 0 seconds and '' @
            show_int delay_ms @ '' milliseconds.''))))
        else
          bnd (deref ints a) (\<lambda>val'.
          fprintf_log (log_line timestamp t (''Log message '' @ show_int val'))))))))"

text \<open>Calling a request's work function; \<open>h\<close> is the handler of the proxy server.\<close>

definition call_work :: "(addr \<Rightarrow> unit prog) \<Rightarrow> tid \<Rightarrow> work \<Rightarrow> addr \<Rightarrow> unit prog" where
  "call_work h t w a = (case w of
      Example_task \<Rightarrow> example_task t a
    | Handle_client_request_thread \<Rightarrow> h a)"

section \<open>worker\_thread.c\<close>

definition set_pc :: "tid \<Rightarrow> wpc \<Rightarrow> unit prog" where
  "set_pc t c = modify (\<lambda>m. m\<lparr>threads := (threads m)(t := map_option (\<lambda>th. th\<lparr>pc := c\<rparr>) (threads m t))\<rparr>)"

text \<open>Whether thread \<open>t\<close> sleeps on the condition variable of the queue at \<open>q\<close>.\<close>

definition asleep :: "machine \<Rightarrow> tid \<Rightarrow> addr \<Rightarrow> bool" where
  "asleep m t q = (case queues m q of None \<Rightarrow> False
     | Some s \<Rightarrow> (case conds m (cond s) of None \<Rightarrow> False | Some ws \<Rightarrow> t \<in> set ws))"

text \<open>
  The head of the worker's loop: dequeue a request; sleep, leave the loop on NULL, or go on with
  the request.
\<close>

definition worker_dequeue :: "tid \<Rightarrow> addr \<Rightarrow> int \<Rightarrow> int \<Rightarrow> unit prog" where
  "worker_dequeue t w local_id processed_count =
     bnd (deref wthreads w) (\<lambda>wk. \<lambda>m.
     case queue_dequeue t (request_queue wk) m of
       (Return req, m') \<Rightarrow>
         (if req = NULL
          then sq (print (Out (''thread-'' @ show_int local_id @ '' exiting. Processed '' @
                      show_int processed_count @ '' requests.'' @ [nl])))
               (set_pc t W_done)
          else set_pc t (W_run local_id processed_count req)) m'
     | (Blocks, m') \<Rightarrow>
         (if asleep m' t (request_queue wk) then set_pc t (W_wait local_id processed_count) m'
          else (Blocks, m'))
     | (Exited n, m') \<Rightarrow> (Exited n, m')
     | (Faulted e, m') \<Rightarrow> (Faulted e, m'))"

definition worker_func :: "(addr \<Rightarrow> unit prog) \<Rightarrow> tid \<Rightarrow> unit prog" where
  "worker_func h t =
     bnd (deref threads t) (\<lambda>th.
     case pc th of
       W_start \<Rightarrow>
         sq (LOCK_MTX t thread_id_lock)
         (bnd (gets thread_counter) (\<lambda>local_id.
         sq (modify (\<lambda>m. m\<lparr>thread_counter := i32 (local_id + 1)\<rparr>))
         (sq (UNLOCK_MTX t thread_id_lock)
         (sq (print (Out (''thread-'' @ show_int local_id @ '' starting'' @ [nl])))
         (set_pc t (W_loop local_id 0))))))
     | W_loop local_id n \<Rightarrow> worker_dequeue t (warg th) local_id n
     | W_wait local_id n \<Rightarrow>
         bnd (deref wthreads (warg th)) (\<lambda>wk. \<lambda>m.
         if asleep m t (request_queue wk) then (Blocks, m)
         else worker_dequeue t (warg th) local_id n m)
     | W_run local_id n req \<Rightarrow>
         bnd (deref reqs req) (\<lambda>r.
         sq (call_work h t (work_fn r) (arg r))
         (sq (free reqs reqs_update req)
         (set_pc t (W_loop local_id (i32 (n + 1))))))
     | W_done \<Rightarrow> (\<lambda>m. (Blocks, m)))"

definition pthread_create :: "addr \<Rightarrow> tid prog" where
  "pthread_create a = (\<lambda>m. (Return (next_tid m), m\<lparr>
     threads := (threads m)(next_tid m \<mapsto> \<lparr>pc = W_start, warg = a\<rparr>), next_tid := Suc (next_tid m)\<rparr>))"

definition pthread_join :: "tid \<Rightarrow> int prog" where
  "pthread_join t = (\<lambda>m. case threads m t of
      None \<Rightarrow> (Return 3, m)
    | Some th \<Rightarrow> if pc th = W_done then (Return 0, m) else (Blocks, m))"

definition create_worker_thread :: "addr prog" where
  "create_worker_thread =
     bnd (malloc wthreads_update \<lparr>thread_id = 0, request_queue = NULL\<rparr>) (\<lambda>worker.
     if worker = NULL then perror_exit ''create_worker_thread: malloc''
     else
       bnd (malloc mutexes_update None) (\<lambda>mtx.
       bnd (malloc conds_update []) (\<lambda>cv.
       if mtx = NULL \<or> cv = NULL then perror_exit ''create_worker_thread: mutex/cond malloc''
       else
         sq (store mutexes mutexes_update mtx (\<lambda>_. None))
         (sq (store conds conds_update cv (\<lambda>_. []))
         (bnd (queue_init mtx cv) (\<lambda>q.
         sq (store wthreads wthreads_update worker (\<lambda>r. r\<lparr>request_queue := q\<rparr>))
         (bnd (pthread_create worker) (\<lambda>t.
         sq (store wthreads wthreads_update worker (\<lambda>r. r\<lparr>thread_id := t\<rparr>))
         (ret worker)))))))))"

definition join_worker_thread :: "addr \<Rightarrow> unit prog" where
  "join_worker_thread worker =
     bnd (deref wthreads worker) (\<lambda>wk.
     bnd (pthread_join (thread_id wk)) (\<lambda>r.
     if r \<noteq> 0 then handle_error_en r ''pthread_join''
     else
       bnd (gets brk) (\<lambda>fuel.
       sq (queue_destroy fuel (request_queue wk))
       (free wthreads wthreads_update worker))))"

section \<open>thread\_pool.c\<close>

text \<open>\<^verbatim>\<open>thread_pool_init\<close> up to its loop, one round of the loop, and the whole function.\<close>

definition thread_pool_alloc :: "int \<Rightarrow> addr prog" where
  "thread_pool_alloc n =
     bnd (malloc pools_update \<lparr>workers = NULL, num_threads = 0\<rparr>) (\<lambda>pool.
     if pool = NULL then perror_exit ''thread_pool_init: malloc''
     else
       bnd (if n < 0 then ret NULL else malloc arrays_update (replicate (nat n) None)) (\<lambda>arr.
       sq (store pools pools_update pool (\<lambda>r. r\<lparr>workers := arr\<rparr>))
       (if arr = NULL then perror_exit ''thread_pool_init: workers malloc''
        else
          sq (store pools pools_update pool (\<lambda>r. r\<lparr>num_threads := n\<rparr>))
          (ret pool))))"

definition thread_pool_create_one :: "addr \<Rightarrow> nat \<Rightarrow> unit prog" where
  "thread_pool_create_one pool i =
     bnd (deref pools pool) (\<lambda>p.
     bnd create_worker_thread (\<lambda>w.
     bnd (deref arrays (workers p)) (\<lambda>ws.
     if i < length ws then store arrays arrays_update (workers p) (\<lambda>ws. ws[i := Some w])
     else fault OutOfBounds)))"

primrec thread_pool_fill :: "addr \<Rightarrow> nat \<Rightarrow> nat \<Rightarrow> unit prog" where
  "thread_pool_fill pool i 0 = ret ()"
| "thread_pool_fill pool i (Suc k) = sq (thread_pool_create_one pool i) (thread_pool_fill pool (Suc i) k)"

definition thread_pool_init :: "int \<Rightarrow> addr prog" where
  "thread_pool_init n =
     bnd (thread_pool_alloc n) (\<lambda>pool. sq (thread_pool_fill pool 0 (nat n)) (ret pool))"

text \<open>\<^verbatim>\<open>pool->workers[i]\<close>\<close>

definition pool_worker :: "thread_pool \<Rightarrow> int \<Rightarrow> addr prog" where
  "pool_worker p i =
     bnd (deref arrays (workers p)) (\<lambda>ws.
     if i < 0 \<or> int (length ws) \<le> i then fault OutOfBounds
     else case ws ! nat i of None \<Rightarrow> fault Uninitialised | Some w \<Rightarrow> ret w)"

definition thread_pool_add :: "tid \<Rightarrow> addr \<Rightarrow> work \<Rightarrow> addr \<Rightarrow> unit prog" where
  "thread_pool_add t pool fn a =
     bnd (malloc reqs_update \<lparr>work_fn = Example_task, arg = NULL\<rparr>) (\<lambda>req.
     if req = NULL then perror_exit ''thread_pool_add: malloc''
     else
       sq (store reqs reqs_update req (\<lambda>r. r\<lparr>work_fn := fn\<rparr>))
       (sq (store reqs reqs_update req (\<lambda>r. r\<lparr>arg := a\<rparr>))
       (bnd rand (\<lambda>r.
       bnd (deref pools pool) (\<lambda>p.
       if num_threads p = 0 then fault DivByZero
       else
         bnd (pool_worker p (r smod num_threads p)) (\<lambda>w.
         bnd (deref wthreads w) (\<lambda>wk.
         queue_enqueue t (request_queue wk) req)))))))"

text \<open>
  \<^verbatim>\<open>thread_pool_destroy\<close>: one round of its first loop, one round of its second, and the frees at
  the end.
\<close>

definition thread_pool_close_one :: "tid \<Rightarrow> thread_pool \<Rightarrow> nat \<Rightarrow> unit prog" where
  "thread_pool_close_one t p i =
     bnd (pool_worker p (int i)) (\<lambda>w.
     bnd (deref wthreads w) (\<lambda>wk.
     queue_close t (request_queue wk)))"

definition thread_pool_join_one :: "thread_pool \<Rightarrow> nat \<Rightarrow> unit prog" where
  "thread_pool_join_one p i = bnd (pool_worker p (int i)) (\<lambda>w. join_worker_thread w)"

definition thread_pool_free :: "addr \<Rightarrow> unit prog" where
  "thread_pool_free pool =
     bnd (deref pools pool) (\<lambda>p.
     sq (free arrays arrays_update (workers p))
     (free pools pools_update pool))"

section \<open>main.c\<close>

definition NUM_THREADS :: nat where "NUM_THREADS = 4"
definition NUM_TASKS :: nat where "NUM_TASKS = 10"

datatype mpc = M_begin | M_create addr nat | M_add addr nat | M_close addr nat | M_join addr nat | M_exit

definition main_step :: "nat \<Rightarrow> nat \<Rightarrow> mpc \<Rightarrow> mpc prog" where
  "main_step n_threads n_tasks c = (case c of
      M_begin \<Rightarrow> bnd (thread_pool_alloc (int n_threads)) (\<lambda>pool. ret (M_create pool 0))
    | M_create pool i \<Rightarrow>
        if i < n_threads then sq (thread_pool_create_one pool i) (ret (M_create pool (Suc i)))
        else ret (M_add pool 0)
    | M_add pool i \<Rightarrow>
        if i < n_tasks then
          bnd (malloc ints_update 0) (\<lambda>val.
          if val = NULL then perror_exit ''malloc''
          else
            sq (store ints ints_update val (\<lambda>_. int i))
            (sq (thread_pool_add 0 pool Example_task val)
            (ret (M_add pool (Suc i)))))
        else ret (M_close pool 0)
    | M_close pool i \<Rightarrow>
        bnd (deref pools pool) (\<lambda>p.
        if int i < num_threads p
        then sq (thread_pool_close_one 0 p i) (ret (M_close pool (Suc i)))
        else ret (M_join pool 0))
    | M_join pool i \<Rightarrow>
        bnd (deref pools pool) (\<lambda>p.
        if int i < num_threads p
        then sq (thread_pool_join_one p i) (ret (M_join pool (Suc i)))
        else sq (thread_pool_free pool) (ret M_exit))
    | M_exit \<Rightarrow> exit_with EXIT_SUCCESS)"

section \<open>The whole process\<close>

record system =
  mach :: machine
  mpc :: mpc
  halted :: "int outcome option"

definition sys_init :: "nat \<Rightarrow> (nat \<Rightarrow> nat) \<Rightarrow> system" where
  "sys_init mem rs = \<lparr>mach = boot mem rs, mpc = M_begin, halted = None\<rparr>"

text \<open>The worker a spurious wake-up hits leaves the list of waiters of its condition variable.\<close>

definition spurious_wake :: "tid \<Rightarrow> addr \<Rightarrow> machine \<Rightarrow> machine" where
  "spurious_wake t c m = m\<lparr>conds := (conds m)(c := map_option (filter (\<lambda>u. u \<noteq> t)) (conds m c))\<rparr>"

text \<open>A move is a piece of code of one thread; a step is a move or a spurious wake-up.\<close>

inductive sys_move :: "(addr \<Rightarrow> unit prog) \<Rightarrow> nat \<Rightarrow> nat \<Rightarrow> system \<Rightarrow> system \<Rightarrow> bool" for h N K where
  main_ok: "halted s = None \<Longrightarrow> main_step N K (mpc s) (mach s) = (Return c, m) \<Longrightarrow>
     sys_move h N K s (s\<lparr>mach := m, mpc := c\<rparr>)"
| main_exit: "halted s = None \<Longrightarrow> main_step N K (mpc s) (mach s) = (Exited n, m) \<Longrightarrow>
     sys_move h N K s (s\<lparr>mach := m, halted := Some (Exited n)\<rparr>)"
| main_fault: "halted s = None \<Longrightarrow> main_step N K (mpc s) (mach s) = (Faulted e, m) \<Longrightarrow>
     sys_move h N K s (s\<lparr>mach := m, halted := Some (Faulted e)\<rparr>)"
| worker_ok: "halted s = None \<Longrightarrow> threads (mach s) t \<noteq> None \<Longrightarrow>
     worker_func h t (mach s) = (Return (), m) \<Longrightarrow> sys_move h N K s (s\<lparr>mach := m\<rparr>)"
| worker_exit: "halted s = None \<Longrightarrow> threads (mach s) t \<noteq> None \<Longrightarrow>
     worker_func h t (mach s) = (Exited n, m) \<Longrightarrow> sys_move h N K s (s\<lparr>mach := m, halted := Some (Exited n)\<rparr>)"
| worker_fault: "halted s = None \<Longrightarrow> threads (mach s) t \<noteq> None \<Longrightarrow>
     worker_func h t (mach s) = (Faulted e, m) \<Longrightarrow> sys_move h N K s (s\<lparr>mach := m, halted := Some (Faulted e)\<rparr>)"

inductive sys_step :: "(addr \<Rightarrow> unit prog) \<Rightarrow> nat \<Rightarrow> nat \<Rightarrow> system \<Rightarrow> system \<Rightarrow> bool" for h N K where
  move: "sys_move h N K s s' \<Longrightarrow> sys_step h N K s s'"
| spurious: "halted s = None \<Longrightarrow> conds (mach s) c = Some ws \<Longrightarrow> t \<in> set ws \<Longrightarrow>
     sys_step h N K s (s\<lparr>mach := spurious_wake t c (mach s)\<rparr>)"

inductive sys_reach :: "(addr \<Rightarrow> unit prog) \<Rightarrow> nat \<Rightarrow> nat \<Rightarrow> system \<Rightarrow> system \<Rightarrow> bool" for h N K s0 where
  start: "sys_reach h N K s0 s0"
| step: "sys_reach h N K s0 s \<Longrightarrow> sys_step h N K s s' \<Longrightarrow> sys_reach h N K s0 s'"

text \<open>
  One schedule, as a function: the list says whose piece of code runs next, \<open>None\<close> for main and
  \<open>Some t\<close> for thread \<open>t\<close>; a piece that blocks leaves the state as it was.
\<close>

definition sys_exec :: "(addr \<Rightarrow> unit prog) \<Rightarrow> nat \<Rightarrow> nat \<Rightarrow> tid option \<Rightarrow> system \<Rightarrow> system" where
  "sys_exec h N K who s = (if halted s \<noteq> None then s else case who of
      None \<Rightarrow> (case main_step N K (mpc s) (mach s) of
          (Return c, m) \<Rightarrow> s\<lparr>mach := m, mpc := c\<rparr>
        | (Exited n, m) \<Rightarrow> s\<lparr>mach := m, halted := Some (Exited n)\<rparr>
        | (Faulted e, m) \<Rightarrow> s\<lparr>mach := m, halted := Some (Faulted e)\<rparr>
        | (Blocks, m) \<Rightarrow> s)
    | Some t \<Rightarrow> (if threads (mach s) t = None then s else case worker_func h t (mach s) of
          (Return _, m) \<Rightarrow> s\<lparr>mach := m\<rparr>
        | (Exited n, m) \<Rightarrow> s\<lparr>mach := m, halted := Some (Exited n)\<rparr>
        | (Faulted e, m) \<Rightarrow> s\<lparr>mach := m, halted := Some (Faulted e)\<rparr>
        | (Blocks, m) \<Rightarrow> s))"

fun sys_sched :: "(addr \<Rightarrow> unit prog) \<Rightarrow> nat \<Rightarrow> nat \<Rightarrow> tid option list \<Rightarrow> system \<Rightarrow> system" where
  "sys_sched h N K [] s = s"
| "sys_sched h N K (x # xs) s = sys_sched h N K xs (sys_exec h N K x s)"

lemma sys_exec_step: "sys_exec h N K x s = s \<or> sys_move h N K s (sys_exec h N K x s)"
proof (cases "halted s = None")
  case True
  show ?thesis
  proof (cases x)
    case None
    with True show ?thesis
      by (auto simp: sys_exec_def intro: sys_move.intros split: prod.splits outcome.splits)
  next
    case (Some t)
    with True show ?thesis
      by (auto simp: sys_exec_def intro: sys_move.intros split: prod.splits outcome.splits)
  qed
qed (simp add: sys_exec_def)

lemma sys_reach_sched: "sys_reach h N K s0 s \<Longrightarrow> sys_reach h N K s0 (sys_sched h N K xs s)"
proof (induction xs arbitrary: s)
  case (Cons x xs)
  have "sys_reach h N K s0 (sys_exec h N K x s)"
    using Cons.prems sys_exec_step [of h N K x s] by (metis sys_reach.step sys_step.move)
  from Cons.IH [OF this] show ?case by simp
qed simp

lemma sys_sched_reach: "sys_reach h N K s (sys_sched h N K xs s)"
  by (rule sys_reach_sched) (rule sys_reach.start)

end
