(* ===== verification/Pool_Refinement.thy ===== *)
theory Pool_Refinement
  imports Worker_Pool
begin

text \<open>
  The C code of the thread pool refines the state machine of \<open>Pool_Spec\<close>. The abstraction relation
  \<open>sys_rel\<close> says, for a machine and an abstract pool state: which heap objects belong to worker
  \<open>i\<close> (ghost data \<open>winfo\<close>: its \<^verbatim>\<open>worker_thread_t\<close>, its queue, its condition variable and the nodes of
  its queue), that these of different workers are disjoint, that the requests inside its queue
  point to live integers with the abstract task numbers, and that its program counter and the
  waiters of its condition variable agree with its abstract state. Every step of the process then
  is a step of the specification or leaves it alone, and never faults.
\<close>

section \<open>The abstraction relation\<close>

record winfo =
  wi_w :: addr
  wi_q :: addr
  wi_c :: addr
  wi_as :: "addr list"

definition task_req :: "machine \<Rightarrow> addr \<Rightarrow> nat \<Rightarrow> bool" where
  "task_req m r x \<longleftrightarrow> r \<noteq> NULL \<and> r < brk m \<and> (case reqs m r of None \<Rightarrow> False
     | Some rq \<Rightarrow> work_fn rq = Example_task \<and> arg rq \<noteq> NULL \<and> arg rq < brk m \<and>
                 ints m (arg rq) = Some (int x))"

definition run_req :: "wpc \<Rightarrow> addr list" where
  "run_req c = (case c of W_run _ _ r \<Rightarrow> [r] | _ \<Rightarrow> [])"

text \<open>The requests worker \<open>i\<close> owns: the one it is working on and those in its queue.\<close>

definition own :: "machine \<Rightarrow> winfo \<Rightarrow> nat \<Rightarrow> addr list" where
  "own m g i = (case threads m (Suc i) of None \<Rightarrow> [] | Some th \<Rightarrow> run_req (pc th)) @ contents m (wi_as g)"

definition thread_rel :: "machine \<Rightarrow> winfo \<Rightarrow> nat \<Rightarrow> wstate \<Rightarrow> bool" where
  "thread_rel m g i w \<longleftrightarrow> (case threads m (Suc i) of None \<Rightarrow> False
     | Some th \<Rightarrow> warg th = wi_w g \<and>
         conds m (wi_c g) = Some (if w = Sleeping then [Suc i] else []) \<and>
         (case pc th of
            W_start \<Rightarrow> w = Starting
          | W_loop _ _ \<Rightarrow> w = Looping
          | W_wait _ _ \<Rightarrow> w \<in> {Sleeping, Woken}
          | W_run _ _ r \<Rightarrow> (\<exists>x. w = Running x \<and> task_req m r x)
          | W_done \<Rightarrow> w = Quit))"

definition worker_rel :: "machine \<Rightarrow> winfo \<Rightarrow> nat \<Rightarrow> wstate \<Rightarrow> nat list \<Rightarrow> bool \<Rightarrow> bool" where
  "worker_rel m g i w xs sh \<longleftrightarrow>
     wi_w g \<noteq> NULL \<and> wi_w g < brk m \<and> wi_q g < brk m \<and> wi_c g < brk m \<and>
     wthreads m (wi_w g) = Some \<lparr>thread_id = Suc i, request_queue = wi_q g\<rparr> \<and>
     queue_ok m (wi_q g) (wi_as g) \<and>
     (case queues m (wi_q g) of None \<Rightarrow> False | Some s \<Rightarrow> cond s = wi_c g \<and> closed s = sh) \<and>
     list_all2 (task_req m) (contents m (wi_as g)) xs \<and> distinct (own m g i) \<and>
     thread_rel m g i w"

definition apart :: "machine \<Rightarrow> winfo \<Rightarrow> nat \<Rightarrow> winfo \<Rightarrow> nat \<Rightarrow> bool" where
  "apart m g i g' j \<longleftrightarrow> wi_w g \<noteq> wi_w g' \<and> wi_q g \<noteq> wi_q g' \<and> wi_c g \<noteq> wi_c g' \<and>
     set (wi_as g) \<inter> set (wi_as g') = {} \<and> set (own m g i) \<inter> set (own m g' j) = {}"

text \<open>Created and not yet joined.\<close>

definition live :: "nat \<Rightarrow> phase \<Rightarrow> nat \<Rightarrow> bool" where
  "live N p i \<longleftrightarrow> n_joined N p \<le> i \<and> i < n_created N p"

definition mach_rel :: "nat \<Rightarrow> (nat \<Rightarrow> winfo) \<Rightarrow> machine \<Rightarrow> pool \<Rightarrow> bool" where
  "mach_rel N g m a \<longleftrightarrow>
     1 < brk m \<and> mutexes m thread_id_lock = Some None \<and> (\<forall>p k. mutexes m p = Some k \<longrightarrow> k = None) \<and>
     next_tid m = Suc (n_created N (ph a)) \<and>
     (\<forall>t. threads m t \<noteq> None \<longleftrightarrow> 0 < t \<and> t \<le> n_created N (ph a)) \<and>
     (\<forall>i. live N (ph a) i \<longrightarrow> worker_rel m (g i) i (st a i) (que a i) (shutq a i)) \<and>
     (\<forall>i j. live N (ph a) i \<longrightarrow> live N (ph a) j \<longrightarrow> i \<noteq> j \<longrightarrow> apart m (g i) i (g j) j) \<and>
     (\<forall>i < n_joined N (ph a). map_option pc (threads m (Suc i)) = Some W_done) \<and>
     (\<forall>c ws. conds m c = Some ws \<longrightarrow> ws \<noteq> [] \<longrightarrow> (\<exists>i. live N (ph a) i \<and> c = wi_c (g i)))"

text \<open>The pool object and its array of workers.\<close>

definition pool_heap :: "nat \<Rightarrow> (nat \<Rightarrow> winfo) \<Rightarrow> machine \<Rightarrow> addr \<Rightarrow> nat \<Rightarrow> bool" where
  "pool_heap N g m p n \<longleftrightarrow> p \<noteq> NULL \<and> p < brk m \<and> (case pools m p of None \<Rightarrow> False
     | Some pl \<Rightarrow> num_threads pl = int N \<and> workers pl \<noteq> NULL \<and> workers pl < brk m \<and>
         (\<exists>ws. arrays m (workers pl) = Some ws \<and> length ws = N \<and>
            (\<forall>i < n. ws ! i = Some (wi_w (g i)))))"

definition pc_rel :: "nat \<Rightarrow> (nat \<Rightarrow> winfo) \<Rightarrow> machine \<Rightarrow> mpc \<Rightarrow> phase \<Rightarrow> bool" where
  "pc_rel N g m c p = (case c of
      M_begin \<Rightarrow> p = Creating 0
    | M_create pl i \<Rightarrow> p = Creating i \<and> pool_heap N g m pl i
    | M_add pl k \<Rightarrow> p = Adding k \<and> pool_heap N g m pl N
    | M_close pl i \<Rightarrow> p = Closing i \<and> pool_heap N g m pl N
    | M_join pl i \<Rightarrow> p = Joining i \<and> pool_heap N g m pl N
    | M_exit \<Rightarrow> p = Finished)"

definition sys_rel :: "nat \<Rightarrow> system \<Rightarrow> pool \<Rightarrow> bool" where
  "sys_rel N s a \<longleftrightarrow> halted s = None \<and> (\<exists>g. mach_rel N g (mach s) a \<and> pc_rel N g (mach s) (mpc s) (ph a))"

section \<open>Frames\<close>

lemma mach_rel_joined: "mach_rel N g m a \<Longrightarrow> i < n_joined N (ph a) \<Longrightarrow> map_option pc (threads m (Suc i)) = Some W_done"
  unfolding mach_rel_def by blast

lemma mach_rel_worker: "mach_rel N g m a \<Longrightarrow> live N (ph a) i \<Longrightarrow> worker_rel m (g i) i (st a i) (que a i) (shutq a i)"
  by (simp add: mach_rel_def)

lemma mach_rel_apart:
  "mach_rel N g m a \<Longrightarrow> live N (ph a) i \<Longrightarrow> live N (ph a) j \<Longrightarrow> i \<noteq> j \<Longrightarrow> apart m (g i) i (g j) j"
  by (simp add: mach_rel_def)

lemma mach_rel_waiter:
  "mach_rel N g m a \<Longrightarrow> conds m c = Some ws \<Longrightarrow> ws \<noteq> [] \<Longrightarrow> \<exists>i. live N (ph a) i \<and> c = wi_c (g i)"
  unfolding mach_rel_def by blast

lemma task_req_frame:
  assumes "task_req m r x" "reqs m' r = reqs m r" "brk m \<le> brk m'" "\<And>p. p < brk m \<Longrightarrow> ints m' p = ints m p"
  shows "task_req m' r x"
  using assms by (fastforce simp: task_req_def split: option.splits)

lemma worker_rel_frame:
  assumes R: "worker_rel m g i w xs sh" and wt: "wthreads m' (wi_w g) = wthreads m (wi_w g)"
    and q: "queues m' (wi_q g) = queues m (wi_q g)"
    and ns: "\<And>b. b \<in> set (wi_as g) \<Longrightarrow> nodes m' b = nodes m b"
    and c: "conds m' (wi_c g) = conds m (wi_c g)"
    and rq: "\<And>r. r \<in> set (own m g i) \<Longrightarrow> reqs m' r = reqs m r"
    and it: "\<And>p. p < brk m \<Longrightarrow> ints m' p = ints m p"
    and th: "threads m' (Suc i) = threads m (Suc i)"
    and mx: "\<And>x. mutexes m x = Some None \<Longrightarrow> mutexes m' x = Some None"
    and cv: "\<And>x. conds m x \<noteq> None \<Longrightarrow> conds m' x \<noteq> None"
    and le: "brk m \<le> brk m'"
  shows "worker_rel m' g i w xs sh" and "own m' g i = own m g i"
proof -
  from R have ok: "queue_ok m (wi_q g) (wi_as g)" by (simp add: worker_rel_def)
  note ok' = queue_ok_frame [OF ok q le mx cv ns]
  show own: "own m' g i = own m g i" using th ok'(2) by (simp add: own_def)
  have t: "task_req m' r x" if "task_req m r x" "r \<in> set (own m g i)" for r x
    using that(1) rq [OF that(2)] le it by (rule task_req_frame)
  have "list_all2 (task_req m') (contents m (wi_as g)) xs"
    using R t by (auto simp: worker_rel_def own_def elim!: list.rel_mono_strong)
  moreover have "thread_rel m' g i w"
    using R th c t by (auto simp: worker_rel_def thread_rel_def own_def run_req_def split: option.splits wpc.splits)
  ultimately show "worker_rel m' g i w xs sh"
    using R wt q le ok' own by (auto simp: worker_rel_def split: option.splits)
qed


lemma apart_sym: "apart m g i g' j \<Longrightarrow> apart m g' j g i"
  by (auto simp: apart_def)

text \<open>
  A step that touches the objects of one live worker \<open>i\<close> and freshly allocated ones: the others
  are as before, so only worker \<open>i\<close> has to be looked at.
\<close>

lemma mach_rel_update:
  assumes R: "mach_rel N g m a" and i: "live N (ph a) i"
    and ph: "n_created N (ph a') = n_created N (ph a)" "n_joined N (ph a') = n_joined N (ph a)"
    and oth: "\<And>j. j \<noteq> i \<Longrightarrow> st a' j = st a j \<and> que a' j = que a j \<and> shutq a' j = shutq a j"
    and glob: "mutexes m' = mutexes m" "next_tid m' = next_tid m" "brk m \<le> brk m'" "wthreads m' = wthreads m"
    and thr: "\<And>t. t \<noteq> Suc i \<Longrightarrow> threads m' t = threads m t" "threads m' (Suc i) \<noteq> None"
    and q: "\<And>p. p \<noteq> wi_q (g i) \<Longrightarrow> p < brk m \<Longrightarrow> queues m' p = queues m p"
    and ns: "\<And>b. b \<notin> set (wi_as (g i)) \<Longrightarrow> b < brk m \<Longrightarrow> nodes m' b = nodes m b"
    and c: "\<And>d. d \<noteq> wi_c (g i) \<Longrightarrow> conds m' d = conds m d"
    and rq: "\<And>r. r \<notin> set (own m (g i) i) \<Longrightarrow> r < brk m \<Longrightarrow> reqs m' r = reqs m r"
    and it: "\<And>p. p < brk m \<Longrightarrow> ints m' p = ints m p"
    and new: "worker_rel m' gi i (st a' i) (que a' i) (shutq a' i)"
    and gi: "wi_w gi = wi_w (g i)" "wi_q gi = wi_q (g i)" "wi_c gi = wi_c (g i)"
      "\<And>b. b \<in> set (wi_as gi) \<Longrightarrow> b < brk m \<Longrightarrow> b \<in> set (wi_as (g i))"
      "\<And>r. r \<in> set (own m' gi i) \<Longrightarrow> r < brk m \<Longrightarrow> r \<in> set (own m (g i) i)"
  shows "mach_rel N (g(i := gi)) m' a'"
proof -
  have lv: "live N (ph a') j \<longleftrightarrow> live N (ph a) j" for j using ph by (simp add: live_def)
  have W: "worker_rel m (g j) j (st a j) (que a j) (shutq a j)" if "live N (ph a) j" for j
    using R that by (auto simp: mach_rel_def)
  have A: "apart m (g j) j (g k) k" if "live N (ph a) j" "live N (ph a) k" "j \<noteq> k" for j k
    using R that by (auto simp: mach_rel_def)
  have small: "r < brk m" if "live N (ph a) j" "r \<in> set (own m (g j) j) \<union> set (wi_as (g j))" for j r
  proof -
    note w = W [OF that(1)]
    from w have "\<forall>r \<in> set (contents m (wi_as (g j))). r < brk m"
      by (auto simp: worker_rel_def list_all2_conv_all_nth in_set_conv_nth task_req_def)
    with w that(2) show ?thesis
      by (auto simp: worker_rel_def own_def thread_rel_def run_req_def task_req_def queue_ok_def
          split: option.splits wpc.splits)
  qed
  have cv: "conds m x \<noteq> None \<Longrightarrow> conds m' x \<noteq> None" for x
    using c [of x] new gi by (cases "x = wi_c (g i)") (auto simp: worker_rel_def thread_rel_def split: option.splits)
  have F: "worker_rel m' (g j) j (st a j) (que a j) (shutq a j)" "own m' (g j) j = own m (g j) j"
    if j: "live N (ph a) j" "j \<noteq> i" for j
  proof -
    note ap = A [OF i j(1) j(2) [symmetric]] and sm = small [OF j(1)] and w = W [OF j(1)]
    have nd: "b \<notin> set (wi_as (g i))" if "b \<in> set (wi_as (g j))" for b
      using ap that by (auto simp: apart_def)
    have od: "r \<notin> set (own m (g i) i)" if "r \<in> set (own m (g j) j)" for r
      using ap that by (auto simp: apart_def)
    have e1: "queues m' (wi_q (g j)) = queues m (wi_q (g j))" "conds m' (wi_c (g j)) = conds m (wi_c (g j))"
      using q c ap w by (auto simp: apart_def worker_rel_def)
    have e2: "\<And>b. b \<in> set (wi_as (g j)) \<Longrightarrow> nodes m' b = nodes m b" using ns nd sm by blast
    have e3: "\<And>r. r \<in> set (own m (g j) j) \<Longrightarrow> reqs m' r = reqs m r" using rq od sm by blast
    have e4: "wthreads m' (wi_w (g j)) = wthreads m (wi_w (g j))" "threads m' (Suc j) = threads m (Suc j)"
      "\<And>x. mutexes m x = Some None \<Longrightarrow> mutexes m' x = Some None"
      using glob thr j by auto
    note fr = worker_rel_frame [OF w e4(1) e1(1) e2 e1(2) e3 it e4(2,3) cv glob(3)]
    show "worker_rel m' (g j) j (st a j) (que a j) (shutq a j)" "own m' (g j) j = own m (g j) j"
      by (rule fr; assumption)+
  qed
  have W': "worker_rel m' ((g(i := gi)) j) j (st a' j) (que a' j) (shutq a' j)" if "live N (ph a) j" for j
    using that new F oth by (cases "j = i") auto
  have A1: "apart m' gi i (g k) k" if k: "live N (ph a) k" "k \<noteq> i" for k
    using A [OF i k(1) k(2) [symmetric]] gi small [OF k(1)] F(2) [OF k] by (fastforce simp: apart_def)
  have A2: "apart m' (g j) j (g k) k" if "live N (ph a) j" "live N (ph a) k" "j \<noteq> k" "j \<noteq> i" "k \<noteq> i" for j k
    using A [OF that(1-3)] F(2) that by (auto simp: apart_def)
  have A': "apart m' ((g(i := gi)) j) j ((g(i := gi)) k) k" if "live N (ph a) j" "live N (ph a) k" "j \<noteq> k" for j k
    using that A1 [of k] A1 [of j] apart_sym [of m' gi i "g j" j] A2 [OF that] by (cases "j = i"; cases "k = i") simp_all
  have D: "map_option pc (threads m' (Suc j)) = Some W_done" if "j < n_joined N (ph a)" for j
    using R that thr(1) [of "Suc j"] i by (auto simp: mach_rel_def live_def)
  have T: "threads m' t \<noteq> None \<longleftrightarrow> 0 < t \<and> t \<le> n_created N (ph a)" for t
    using R thr i by (cases "t = Suc i") (auto simp: mach_rel_def live_def)
  have C: "\<exists>j. live N (ph a) j \<and> d = wi_c ((g(i := gi)) j)" if "conds m' d = Some ws" "ws \<noteq> []" for d ws
  proof (cases "d = wi_c (g i)")
    case True
    with i gi show ?thesis by (intro exI [of _ i]) simp
  next
    case False
    with that c have "conds m d = Some ws" by simp
    from mach_rel_waiter [OF R this that(2)] obtain j where "live N (ph a) j" "d = wi_c (g j)" by blast
    with False show ?thesis by (intro exI [of _ j]) auto
  qed
  from R glob have "1 < brk m'" "mutexes m' thread_id_lock = Some None"
    "\<forall>p k. mutexes m' p = Some k \<longrightarrow> k = None" "next_tid m' = Suc (n_created N (ph a))"
    by (auto simp: mach_rel_def)
  with W' A' D T C ph lv show ?thesis unfolding mach_rel_def by auto
qed

section \<open>Steps of a worker\<close>

text \<open>Thread \<open>t\<close> is at \<open>th\<close> after the step, and the step left the queue of worker \<open>i\<close> alone.\<close>

lemma worker_rel_shift:
  assumes R: "worker_rel m g i w xs sh"
    and same: "queues m' = queues m" "nodes m' = nodes m" "wthreads m' = wthreads m" "mutexes m' = mutexes m"
      "brk m' = brk m" "ints m' = ints m" "\<And>x. conds m x \<noteq> None \<Longrightarrow> conds m' x \<noteq> None"
    and rq: "\<And>r. r \<in> set (contents m (wi_as g)) \<Longrightarrow> reqs m' r = reqs m r"
    and th: "threads m' (Suc i) = Some th" and thr: "thread_rel m' g i w'"
    and dj: "set (run_req (pc th)) \<inter> set (contents m (wi_as g)) = {}"
  shows "worker_rel m' g i w' xs sh" and "own m' g i = run_req (pc th) @ contents m (wi_as g)"
proof -
  from R have ok: "queue_ok m (wi_q g) (wi_as g)" by (simp add: worker_rel_def)
  have ok': "queue_ok m' (wi_q g) (wi_as g)" "contents m' (wi_as g) = contents m (wi_as g)"
    by (rule queue_ok_frame [OF ok]; use same in auto)+
  show own: "own m' g i = run_req (pc th) @ contents m (wi_as g)" using th ok'(2) by (simp add: own_def)
  have t: "task_req m' r x" if "task_req m r x" "r \<in> set (contents m (wi_as g))" for r x
    using that(1) rq [OF that(2)] by (rule task_req_frame) (simp_all add: same)
  have l: "list_all2 (task_req m') (contents m (wi_as g)) xs"
    using R t by (auto simp: worker_rel_def elim!: list.rel_mono_strong)
  have "distinct (contents m (wi_as g))" using R by (auto simp: worker_rel_def own_def)
  moreover have "distinct (run_req (pc th))" by (cases "pc th") (auto simp: run_req_def)
  ultimately have "distinct (own m' g i)" using own dj by auto
  with R same ok' l thr own show "worker_rel m' g i w' xs sh"
    by (auto simp: worker_rel_def split: option.splits)
qed

lemma mach_rel_shift:
  assumes R: "mach_rel N g m a" and i: "live N (ph a) i"
    and same: "queues m' = queues m" "nodes m' = nodes m" "wthreads m' = wthreads m" "mutexes m' = mutexes m"
      "brk m' = brk m" "ints m' = ints m" "next_tid m' = next_tid m"
    and c: "\<And>d. d \<noteq> wi_c (g i) \<Longrightarrow> conds m' d = conds m d"
    and rq: "\<And>r. r \<notin> set (run_req (pc thb)) \<Longrightarrow> reqs m' r = reqs m r"
    and t0: "threads m (Suc i) = Some thb" and tt: "threads m' = (threads m)(Suc i \<mapsto> th)"
    and thr: "thread_rel m' (g i) i w'" and dj: "run_req (pc th) = []"
  shows "mach_rel N g m' (a\<lparr>st := (st a)(i := w'), did := ds\<rparr>)"
proof -
  note w = mach_rel_worker [OF R i]
  have o: "own m (g i) i = run_req (pc thb) @ contents m (wi_as (g i))" using t0 by (simp add: own_def)
  have cv: "conds m x \<noteq> None \<Longrightarrow> conds m' x \<noteq> None" for x
    using c [of x] thr by (cases "x = wi_c (g i)") (auto simp: thread_rel_def split: option.splits)
  have nin: "reqs m' r = reqs m r" if "r \<in> set (contents m (wi_as (g i)))" for r
    using w o that rq by (auto simp: worker_rel_def)
  have th: "threads m' (Suc i) = Some th" using tt by simp
  have new: "worker_rel m' (g i) i w' (que a i) (shutq a i)" "own m' (g i) i = contents m (wi_as (g i))"
    using worker_rel_shift [OF w same(1-6) cv nin th thr] dj by simp_all
  have "mach_rel N (g(i := g i)) m' (a\<lparr>st := (st a)(i := w'), did := ds\<rparr>)"
    by (rule mach_rel_update [OF R i, where m' = m']; use new same c rq tt o in \<open>auto\<close>)
  then show ?thesis by simp
qed

text \<open>What a step of a worker leaves as it was, besides the objects of that worker.\<close>

definition kept :: "(nat \<Rightarrow> winfo) \<Rightarrow> machine \<Rightarrow> (nat \<Rightarrow> winfo) \<Rightarrow> machine \<Rightarrow> bool" where
  "kept g m g' m' \<longleftrightarrow> (\<forall>j. wi_w (g' j) = wi_w (g j)) \<and> pools m' = pools m \<and> arrays m' = arrays m \<and>
     brk m' = brk m \<and> avail m' = avail m \<and> ints m' = ints m"

definition worker_sim :: "nat \<Rightarrow> (nat \<Rightarrow> winfo) \<Rightarrow> machine \<Rightarrow> pool \<Rightarrow> nat \<Rightarrow> machine \<Rightarrow> bool" where
  "worker_sim N g m a i m' \<longleftrightarrow> (\<exists>a' g'. worker_move i a a' \<and> ph a' = ph a \<and> mach_rel N g' m' a' \<and> kept g m g' m')"

lemma worker_simI: "worker_move i a a' \<Longrightarrow> ph a' = ph a \<Longrightarrow> mach_rel N g' m' a' \<Longrightarrow> kept g m g' m' \<Longrightarrow> worker_sim N g m a i m'"
  unfolding worker_sim_def by blast

lemma pc_rel_kept: "pc_rel N g m c p \<Longrightarrow> kept g m g' m' \<Longrightarrow> pc_rel N g' m' c p"
  by (auto simp: pc_rel_def pool_heap_def kept_def split: mpc.splits option.splits)

lemma set_pc_run [prog_simps]:
  "threads m t = Some th \<Longrightarrow> set_pc t c m = (Return (), m\<lparr>threads := (threads m)(t \<mapsto> th\<lparr>pc := c\<rparr>)\<rparr>)"
  by (simp add: set_pc_def modify_def)

lemma worker_start_sim:
  assumes R: "mach_rel N g m a" and i: "live N (ph a) i" and t: "threads m (Suc i) = Some th" and c: "pc th = W_start"
  shows "\<exists>m'. worker_func h (Suc i) m = (Return (), m') \<and> worker_sim N g m a i m'"
proof -
  note w = mach_rel_worker [OF R i]
  from w t c have st: "st a i = Starting" by (auto simp: worker_rel_def thread_rel_def)
  from R have mx: "mutexes m thread_id_lock = Some None" by (simp add: mach_rel_def)
  let ?th = "th\<lparr>pc := W_loop (thread_counter m) 0\<rparr>"
  let ?m = "m\<lparr>thread_counter := i32 (thread_counter m + 1),
      log := log m @ [Out (''thread-'' @ show_int (thread_counter m) @ '' starting'' @ [nl])],
      threads := (threads m)(Suc i \<mapsto> ?th)\<rparr>"
  have e: "worker_func h (Suc i) m = (Return (), ?m)"
    using t c mx unfolding worker_func_def
    by (simp add: prog_simps fun_upd_idem)
  have "thread_rel ?m (g i) i Looping"
    using w t c st by (auto simp: worker_rel_def thread_rel_def)
  then have "mach_rel N g ?m (a\<lparr>st := (st a)(i := Looping), did := did a\<rparr>)"
    by (intro mach_rel_shift [OF R i]) (use t c in \<open>auto simp: run_req_def\<close>)
  then have "mach_rel N g ?m (a\<lparr>st := (st a)(i := Looping)\<rparr>)" by simp
  from worker_simI [OF worker_move.start [OF st] _ this] have "worker_sim N g m a i ?m"
    by (simp add: kept_def)
  with e show ?thesis by blast
qed

definition quiet :: "machine \<Rightarrow> machine \<Rightarrow> bool" where
  "quiet m m' \<longleftrightarrow> m'\<lparr>log := log m, rpos := rpos m, taskfile := taskfile m, slept := slept m\<rparr> = m"

lemma quietD:
  assumes "quiet m m'"
  shows "reqs m' = reqs m" "nodes m' = nodes m" "queues m' = queues m" "mutexes m' = mutexes m"
    "conds m' = conds m" "wthreads m' = wthreads m" "arrays m' = arrays m" "pools m' = pools m"
    "ints m' = ints m" "brk m' = brk m" "avail m' = avail m" "threads m' = threads m" "next_tid m' = next_tid m"
proof -
  from assms have m: "m = m'\<lparr>log := log m, rpos := rpos m, taskfile := taskfile m, slept := slept m\<rparr>"
    by (simp add: quiet_def)
  show "reqs m' = reqs m" "nodes m' = nodes m" "queues m' = queues m" "mutexes m' = mutexes m"
    "conds m' = conds m" "wthreads m' = wthreads m" "arrays m' = arrays m" "pools m' = pools m"
    "ints m' = ints m" "brk m' = brk m" "avail m' = avail m" "threads m' = threads m" "next_tid m' = next_tid m"
    by (subst m, simp)+
qed

lemma quiet_trans: "quiet m m1 \<Longrightarrow> quiet m1 m2 \<Longrightarrow> quiet m m2"
  by (cases m; cases m1; cases m2) (simp add: quiet_def)

text \<open>A piece of code that returns and changes no more than a task does.\<close>

definition goes :: "'a prog \<Rightarrow> machine \<Rightarrow> bool" where
  "goes p m \<longleftrightarrow> (\<exists>x m'. p m = (Return x, m') \<and> quiet m m')"

lemma goes_bnd: "p m = (Return x, m1) \<Longrightarrow> quiet m m1 \<Longrightarrow> goes (f x) m1 \<Longrightarrow> goes (bnd p f) m"
  unfolding goes_def by (metis quiet_trans run_bnd_Return)

lemma goes_gets: "goes (f (sel m)) m \<Longrightarrow> goes (bnd (gets sel) f) m"
  by (rule goes_bnd [of _ _ "sel m" m]) (simp_all add: run_gets quiet_def)

lemma goes_rand: "(\<And>x m1. quiet m m1 \<Longrightarrow> goes (f x) m1) \<Longrightarrow> goes (bnd rand f) m"
  by (rule goes_bnd) (auto simp: run_rand quiet_def)

lemma goes_fprintf: "(\<And>m1. quiet m m1 \<Longrightarrow> goes q m1) \<Longrightarrow> goes (sq (fprintf_log l) q) m"
  by (rule goes_bnd) (auto simp: fprintf_log_def run_modify quiet_def)

lemma goes_fprintf_last: "goes (fprintf_log l) m"
  by (simp add: goes_def fprintf_log_def run_modify quiet_def)

lemma goes_sleep: "(\<And>m1. quiet m m1 \<Longrightarrow> goes q m1) \<Longrightarrow> goes (sq (modify (\<lambda>m. m\<lparr>slept := slept m + d\<rparr>)) q) m"
  by (rule goes_bnd) (auto simp: run_modify quiet_def)

lemma goes_print: "goes (print e) m"
  by (simp add: goes_def run_print quiet_def)

lemma goes_deref: "a \<noteq> NULL \<Longrightarrow> ints m a = Some v \<Longrightarrow> goes (f v) m \<Longrightarrow> goes (bnd (deref ints a) f) m"
  by (rule goes_bnd [of _ _ v m]) (simp_all add: run_deref quiet_def)

lemmas goes_intros = goes_gets goes_rand goes_fprintf goes_fprintf_last goes_sleep goes_print

lemma example_task_run:
  assumes "a \<noteq> NULL" and "ints m a = Some v"
  shows "\<exists>m'. example_task t a m = (Return (), m') \<and> quiet m m'"
proof -
  have "goes (example_task t a) m"
    unfolding example_task_def Let_def
    using assms(1) by (auto intro!: goes_intros goes_deref [of a _ v] simp: quietD assms(2))
  then show ?thesis by (simp add: goes_def)
qed

lemma worker_run_sim:
  assumes R: "mach_rel N g m a" and i: "live N (ph a) i" and t: "threads m (Suc i) = Some th" and c: "pc th = W_run l n r"
  shows "\<exists>m'. worker_func h (Suc i) m = (Return (), m') \<and> worker_sim N g m a i m'"
proof -
  note w = mach_rel_worker [OF R i]
  from w t c obtain x where st: "st a i = Running x" and tr: "task_req m r x"
    and k: "warg th = wi_w (g i)" "conds m (wi_c (g i)) = Some []"
    by (auto simp: worker_rel_def thread_rel_def)
  from tr obtain rq where rq: "r \<noteq> NULL" "reqs m r = Some rq" "work_fn rq = Example_task" "arg rq \<noteq> NULL"
    "ints m (arg rq) = Some (int x)" by (auto simp: task_req_def split: option.splits)
  from example_task_run [OF rq(4,5)] obtain m1 where m1: "example_task (Suc i) (arg rq) m = (Return (), m1)" "quiet m m1"
    by blast
  note q = quietD [OF m1(2)]
  let ?th = "th\<lparr>pc := W_loop l (i32 (n + 1))\<rparr>"
  let ?m = "m1\<lparr>reqs := (reqs m)(r := None), threads := (threads m)(Suc i \<mapsto> ?th)\<rparr>"
  have e: "worker_func h (Suc i) m = (Return (), ?m)"
    using t c m1(1) rq q unfolding worker_func_def call_work_def by (simp add: prog_simps)
  have "thread_rel ?m (g i) i Looping"
    using k q by (simp add: thread_rel_def)
  then have "mach_rel N g ?m (a\<lparr>st := (st a)(i := Looping), did := did a @ [(i, x)]\<rparr>)"
    by (intro mach_rel_shift [OF R i]) (use t c q in \<open>auto simp: run_req_def\<close>)
  from worker_simI [OF worker_move.finish [OF st] _ this] q have "worker_sim N g m a i ?m"
    by (simp add: kept_def)
  with e show ?thesis by blast
qed

lemma worker_take_sim:
  assumes R: "mach_rel N g m a" and i: "live N (ph a) i" and t: "threads m (Suc i) = Some th"
    and st: "st a i \<in> {Looping, Woken}" and c: "run_req (pc th) = []" and b: "wi_as (g i) = b # bs"
  shows "\<exists>m'. worker_dequeue (Suc i) (warg th) l n m = (Return (), m') \<and> worker_sim N g m a i m'"
proof -
  note w = mach_rel_worker [OF R i]
  from w t st have k: "warg th = wi_w (g i)" "conds m (wi_c (g i)) = Some []"
    by (auto simp: worker_rel_def thread_rel_def)
  from w obtain s where s: "queues m (wi_q (g i)) = Some s" "cond s = wi_c (g i)" "closed s = shutq a i"
    and ok: "queue_ok m (wi_q (g i)) (b # bs)" and wt: "wi_w (g i) \<noteq> NULL"
      "wthreads m (wi_w (g i)) = Some \<lparr>thread_id = Suc i, request_queue = wi_q (g i)\<rparr>"
    and l2: "list_all2 (task_req m) (contents m (b # bs)) (que a i)"
    by (auto simp: worker_rel_def b split: option.splits)
  from ok s(1) obtain nd where nd: "nodes m b = Some nd" by (auto elim!: queue_okE split: option.splits)
  from l2 nd obtain x xs where x: "que a i = x # xs" "task_req m (n_data nd) x" "list_all2 (task_req m) (contents m bs) xs"
    by (cases "que a i") (auto simp: contents_Cons)
  from x(2) have nn: "n_data nd \<noteq> NULL" by (simp add: task_req_def)
  have own: "own m (g i) i = n_data nd # contents m bs"
    using t c b nd by (simp add: own_def contents_Cons)
  let ?s = "s\<lparr>front := n_next nd, rear := (if bs = [] then NULL else rear s), qsize := qsize s - 1\<rparr>"
  let ?m1 = "m\<lparr>nodes := (nodes m)(b := None), queues := (queues m)(wi_q (g i) \<mapsto> ?s)\<rparr>"
  let ?m = "?m1\<lparr>threads := (threads m)(Suc i \<mapsto> th\<lparr>pc := W_run l n (n_data nd)\<rparr>)\<rparr>"
  note dq = queue_dequeue_item_run [OF ok s(1) nd, of "Suc i"]
  note ok1 = queue_dequeue_item_ok [OF ok s(1) dq]
  have e: "worker_dequeue (Suc i) (warg th) l n m = (Return (), ?m)"
    using dq nn wt k t unfolding worker_dequeue_def by (simp add: prog_simps)
  let ?g = "(g i)\<lparr>wi_as := bs\<rparr>"
  have ok2: "queue_ok ?m (wi_q ?g) bs" "contents ?m bs = contents m bs"
    using ok1(2,3) nd queue_ok_frame [OF ok1(2), of ?m] by (simp_all add: contents_Cons)
  have own': "own ?m ?g i = own m (g i) i" using ok2 own by (simp add: own_def run_req_def)
  have tr: "task_req ?m = task_req m" by (simp add: task_req_def fun_eq_iff split: option.split)
  have thr: "thread_rel ?m ?g i (Running x)" using k x(2) tr by (simp add: thread_rel_def)
  from w have "distinct (own m (g i) i)" by (simp add: worker_rel_def)
  with ok2 own' thr tr x(3) s w wt have new: "worker_rel ?m ?g i (Running x) xs (shutq a i)"
    by (auto simp: worker_rel_def)
  have "mach_rel N (g(i := ?g)) ?m (a\<lparr>st := (st a)(i := Running x), que := (que a)(i := xs)\<rparr>)"
    by (rule mach_rel_update [OF R i]; use new own' b in auto)
  from worker_simI [OF worker_move.take [OF st x(1)] _ this] have "worker_sim N g m a i ?m"
    by (simp add: kept_def)
  with e show ?thesis by blast
qed

lemma worker_dequeue_sim:
  assumes R: "mach_rel N g m a" and i: "live N (ph a) i" and t: "threads m (Suc i) = Some th"
    and st: "st a i \<in> {Looping, Woken}" and c: "run_req (pc th) = []"
  shows "\<exists>m'. worker_dequeue (Suc i) (warg th) l n m = (Return (), m') \<and> worker_sim N g m a i m'"
proof -
  note w = mach_rel_worker [OF R i]
  from w t st have k: "warg th = wi_w (g i)" "conds m (wi_c (g i)) = Some []"
    by (auto simp: worker_rel_def thread_rel_def)
  from w obtain s where s: "queues m (wi_q (g i)) = Some s" "cond s = wi_c (g i)" "closed s = shutq a i"
    and ok: "queue_ok m (wi_q (g i)) (wi_as (g i))" and wt: "wi_w (g i) \<noteq> NULL"
      "wthreads m (wi_w (g i)) = Some \<lparr>thread_id = Suc i, request_queue = wi_q (g i)\<rparr>"
    and l2: "list_all2 (task_req m) (contents m (wi_as (g i))) (que a i)"
    by (auto simp: worker_rel_def split: option.splits)
  show ?thesis
  proof (cases "wi_as (g i)")
    case Nil
    with l2 have q0: "que a i = []" by simp
    show ?thesis
    proof (cases "shutq a i")
      case True
      let ?m = "m\<lparr>log := log m @ [Out (''thread-'' @ show_int l @ '' exiting. Processed '' @
                      show_int n @ '' requests.'' @ [nl])], threads := (threads m)(Suc i \<mapsto> th\<lparr>pc := W_done\<rparr>)\<rparr>"
      have e: "worker_dequeue (Suc i) (warg th) l n m = (Return (), ?m)"
        using queue_dequeue_closed_run [OF ok [unfolded Nil] s(1), of "Suc i"] s(3) True wt k t
        unfolding worker_dequeue_def by (simp add: prog_simps)
      have "thread_rel ?m (g i) i Quit" using k by (simp add: thread_rel_def)
      then have "mach_rel N g ?m (a\<lparr>st := (st a)(i := Quit), did := did a\<rparr>)"
        by (intro mach_rel_shift [OF R i, where thb = th and th = "th\<lparr>pc := W_done\<rparr>"]) (use t c in \<open>auto simp: run_req_def\<close>)
      with worker_simI [OF worker_move.leave [OF st q0 True], of N g ?m g m] have "worker_sim N g m a i ?m"
        by (simp add: kept_def)
      with e show ?thesis by blast
    next
      case False
      let ?m = "m\<lparr>conds := (conds m)(wi_c (g i) \<mapsto> [Suc i]), threads := (threads m)(Suc i \<mapsto> th\<lparr>pc := W_wait l n\<rparr>)\<rparr>"
      have e: "worker_dequeue (Suc i) (warg th) l n m = (Return (), ?m)"
        using queue_dequeue_wait_run [OF ok [unfolded Nil] s(1), of "Suc i"] s False wt k t
        unfolding worker_dequeue_def by (simp add: prog_simps asleep_def)
      have "thread_rel ?m (g i) i Sleeping" using k by (simp add: thread_rel_def)
      then have "mach_rel N g ?m (a\<lparr>st := (st a)(i := Sleeping), did := did a\<rparr>)"
        by (intro mach_rel_shift [OF R i, where thb = th and th = "th\<lparr>pc := W_wait l n\<rparr>"]) (use t c in \<open>auto simp: run_req_def\<close>)
      with worker_simI [OF worker_move.sleep [OF st q0 False], of N g ?m g m] have "worker_sim N g m a i ?m"
        by (simp add: kept_def)
      with e show ?thesis by blast
    qed
  next
    case (Cons b bs)
    show ?thesis using worker_take_sim [OF R i t st c Cons] .
  qed
qed

lemma worker_wait_sim:
  assumes R: "mach_rel N g m a" and i: "live N (ph a) i" and t: "threads m (Suc i) = Some th" and c: "pc th = W_wait l n"
  shows "worker_func h (Suc i) m = (Blocks, m) \<and> st a i = Sleeping \<or>
    (\<exists>m'. worker_func h (Suc i) m = (Return (), m') \<and> worker_sim N g m a i m')"
proof -
  note w = mach_rel_worker [OF R i]
  from w obtain s where s: "queues m (wi_q (g i)) = Some s" "cond s = wi_c (g i)" and wt: "wi_w (g i) \<noteq> NULL"
      "wthreads m (wi_w (g i)) = Some \<lparr>thread_id = Suc i, request_queue = wi_q (g i)\<rparr>"
    by (auto simp: worker_rel_def split: option.splits)
  from w t c have k: "warg th = wi_w (g i)" "conds m (wi_c (g i)) = Some (if st a i = Sleeping then [Suc i] else [])"
    "st a i \<in> {Sleeping, Woken}" by (auto simp: worker_rel_def thread_rel_def)
  have as: "asleep m (Suc i) (wi_q (g i)) \<longleftrightarrow> st a i = Sleeping" using s k by (simp add: asleep_def)
  show ?thesis
  proof (cases "st a i = Sleeping")
    case True
    with t c wt k as have "worker_func h (Suc i) m = (Blocks, m)" unfolding worker_func_def by (simp add: prog_simps)
    with True show ?thesis by blast
  next
    case False
    with k have "st a i \<in> {Looping, Woken}" by blast
    from worker_dequeue_sim [OF R i t this, of l n] c obtain m'
      where m': "worker_dequeue (Suc i) (warg th) l n m = (Return (), m')" "worker_sim N g m a i m'"
      by (auto simp: run_req_def)
    from t c wt k as False have "worker_func h (Suc i) m = worker_dequeue (Suc i) (warg th) l n m"
      unfolding worker_func_def by (simp add: prog_simps)
    with m' show ?thesis by auto
  qed
qed

text \<open>
  A worker's piece of code never faults and never exits: it blocks, while it sleeps or after it
  left, or it makes a step of the specification.
\<close>

lemma worker_func_sim:
  assumes R: "mach_rel N g m a" and i: "i < n_created N (ph a)"
  shows "worker_func h (Suc i) m = (Blocks, m) \<and> (live N (ph a) i \<longrightarrow> st a i \<in> {Sleeping, Quit}) \<or>
    live N (ph a) i \<and> (\<exists>m'. worker_func h (Suc i) m = (Return (), m') \<and> worker_sim N g m a i m')"
proof -
  from R i have "threads m (Suc i) \<noteq> None" by (auto simp: mach_rel_def)
  then obtain th where t: "threads m (Suc i) = Some th" by blast
  have idle: "worker_func h (Suc i) m = (Blocks, m)" if "pc th = W_done"
    using that t unfolding worker_func_def by (simp add: prog_simps)
  show ?thesis
  proof (cases "live N (ph a) i")
    case False
    with i have "i < n_joined N (ph a)" by (simp add: live_def)
    from mach_rel_joined [OF R this] t have "pc th = W_done" by simp
    with idle False show ?thesis by blast
  next
    case True
    note w = mach_rel_worker [OF R True]
    show ?thesis
    proof (cases "pc th")
      case W_start
      from worker_start_sim [OF R True t this, of h] True show ?thesis by blast
    next
      case (W_loop l n)
      with w t have "st a i \<in> {Looping, Woken}" by (auto simp: worker_rel_def thread_rel_def)
      from worker_dequeue_sim [OF R True t this, of l n] W_loop True t show ?thesis
        unfolding worker_func_def by (simp add: prog_simps run_req_def)
    next
      case (W_wait l n)
      from worker_wait_sim [OF R True t this, of h] True show ?thesis by auto
    next
      case (W_run l n r)
      from worker_run_sim [OF R True t this, of h] True show ?thesis by blast
    next
      case W_done
      with w t idle show ?thesis by (auto simp: worker_rel_def thread_rel_def)
    qed
  qed
qed

lemma spurious_sim:
  assumes R: "mach_rel N g m a" and c: "conds m c = Some ws" "t \<in> set ws"
  shows "\<exists>i. live N (ph a) i \<and> st a i = Sleeping \<and> mach_rel N g (spurious_wake t c m) (a\<lparr>st := (st a)(i := Woken)\<rparr>) \<and>
    kept g m g (spurious_wake t c m)"
proof -
  from mach_rel_waiter [OF R c(1)] c(2) obtain i where i: "live N (ph a) i" "c = wi_c (g i)" by fastforce
  note w = mach_rel_worker [OF R i(1)]
  from w c i obtain th where k: "threads m (Suc i) = Some th" "st a i = Sleeping" "ws = [Suc i]" "t = Suc i" "warg th = wi_w (g i)"
    by (auto simp: worker_rel_def thread_rel_def split: option.splits if_splits)
  from w k obtain l n where p: "pc th = W_wait l n" by (auto simp: worker_rel_def thread_rel_def split: wpc.splits)
  let ?m = "spurious_wake t c m"
  have e: "?m = m\<lparr>conds := (conds m)(c \<mapsto> [])\<rparr>" using c k by (simp add: spurious_wake_def)
  have "thread_rel ?m (g i) i Woken" using e k p i by (simp add: thread_rel_def)
  then have "mach_rel N g ?m (a\<lparr>st := (st a)(i := Woken), did := did a\<rparr>)"
    by (intro mach_rel_shift [OF R i(1), where thb = th and th = th]) (use e i k p in \<open>auto simp: run_req_def fun_upd_idem\<close>)
  with i k e show ?thesis by (auto simp: kept_def)
qed

end
