(* ===== verification/Pool_Main.thy ===== *)
theory Pool_Main
  imports Pool_Refinement
begin

text \<open>
  The main thread's side of the refinement: the creation of the pool, of a worker, a task handed
  out, a queue closed and a worker joined are steps of \<open>Pool_Spec\<close>, or stop the process because
  \<^verbatim>\<open>malloc\<close> returned NULL, or block in \<^verbatim>\<open>pthread_join\<close>. Then the properties of the whole process,
  for every interleaving.
\<close>

section \<open>How the pieces of main run\<close>

lemma thread_pool_alloc_run:
  assumes "2 \<le> avail m" "0 < brk m"
  shows "thread_pool_alloc (int n) m = (Return (brk m), m\<lparr>
     pools := (pools m)(brk m \<mapsto> \<lparr>workers = Suc (brk m), num_threads = int n\<rparr>),
     arrays := (arrays m)(Suc (brk m) \<mapsto> replicate n None), brk := Suc (Suc (brk m)), avail := avail m - 2\<rparr>)"
  using assms unfolding thread_pool_alloc_def
  by (auto simp: prog_simps intro!: machine.equality)

lemma thread_pool_alloc_nomem:
  assumes "avail m < 2" "0 < brk m"
  shows "\<exists>m'. thread_pool_alloc (int n) m = (Exited EXIT_FAILURE, m')"
proof (cases "avail m")
  case 0
  then show ?thesis unfolding thread_pool_alloc_def by (simp add: prog_simps)
next
  case (Suc k)
  with assms show ?thesis unfolding thread_pool_alloc_def by (simp add: prog_simps)
qed

lemma create_worker_thread_run:
  assumes "4 \<le> avail m" "0 < brk m"
  shows "create_worker_thread m = (Return (brk m), m\<lparr>
     wthreads := (wthreads m)(brk m \<mapsto> \<lparr>thread_id = next_tid m, request_queue = brk m + 3\<rparr>),
     mutexes := (mutexes m)(brk m + 1 \<mapsto> None), conds := (conds m)(brk m + 2 \<mapsto> []),
     queues := (queues m)(brk m + 3 \<mapsto> \<lparr>front = NULL, rear = NULL, mutex = brk m + 1, cond = brk m + 2,
                                        closed = False, qsize = 0\<rparr>),
     threads := (threads m)(next_tid m \<mapsto> \<lparr>pc = W_start, warg = brk m\<rparr>), next_tid := Suc (next_tid m),
     brk := brk m + 4, avail := avail m - 4\<rparr>)"
  using assms unfolding create_worker_thread_def pthread_create_def
  by (simp add: prog_simps queue_init_run numeral_eq_Suc)

lemma create_worker_thread_nomem:
  assumes "avail m < 4" "0 < brk m"
  shows "\<exists>m'. create_worker_thread m = (Exited EXIT_FAILURE, m')"
proof -
  from assms(1) have "avail m = 0 \<or> avail m = 1 \<or> avail m = 2 \<or> avail m = 3" by linarith
  then show ?thesis using assms(2)
    by (elim disjE) (simp_all add: create_worker_thread_def prog_simps queue_init_def)
qed

lemma pool_worker_run [prog_simps]:
  "workers p \<noteq> NULL \<Longrightarrow> arrays m (workers p) = Some ws \<Longrightarrow> i < length ws \<Longrightarrow> ws ! i = Some w \<Longrightarrow>
   pool_worker p (int i) m = (Return w, m)"
  by (simp add: pool_worker_def prog_simps)

lemma rand_index:
  assumes "0 < N"
  shows "int r smod int N = int (r mod N)" "r mod N < N"
  using assms by (simp_all add: smod_nonneg zmod_int)

section \<open>Creating the workers\<close>

text \<open>The objects of a live worker lie below the allocation mark.\<close>

lemma worker_rel_small:
  assumes "worker_rel m g i w xs sh"
  shows "wi_w g < brk m" "wi_q g < brk m" "wi_c g < brk m" "\<And>b. b \<in> set (wi_as g) \<Longrightarrow> b < brk m"
    "\<And>r. r \<in> set (own m g i) \<Longrightarrow> r < brk m"
proof -
  have "\<forall>r \<in> set (contents m (wi_as g)). r < brk m"
    using assms by (auto simp: worker_rel_def list_all2_conv_all_nth in_set_conv_nth task_req_def)
  with assms show "\<And>r. r \<in> set (own m g i) \<Longrightarrow> r < brk m"
    by (auto simp: worker_rel_def own_def thread_rel_def run_req_def task_req_def split: option.splits wpc.splits)
qed (use assms in \<open>auto simp: worker_rel_def queue_ok_def\<close>)

lemma create_sim:
  assumes R: "mach_rel N g m a" and p: "ph a = Creating i" and i: "i < N" and inv: "pool_inv N K a"
    and av: "4 \<le> avail m" and run: "create_worker_thread m = (Return b, m')"
  shows "mach_rel N (g(i := \<lparr>wi_w = brk m, wi_q = brk m + 3, wi_c = brk m + 2, wi_as = []\<rparr>)) m'
    (a\<lparr>ph := Creating (Suc i), st := (st a)(i := Starting)\<rparr>)" (is "mach_rel N ?g m' ?a")
proof -
  from R p have b: "1 < brk m" and nt: "next_tid m = Suc i" by (simp_all add: mach_rel_def)
  note e = create_worker_thread_run [OF av] run
  from e b nt have m': "m' = m\<lparr>
     wthreads := (wthreads m)(brk m \<mapsto> \<lparr>thread_id = Suc i, request_queue = brk m + 3\<rparr>),
     mutexes := (mutexes m)(brk m + 1 \<mapsto> None), conds := (conds m)(brk m + 2 \<mapsto> []),
     queues := (queues m)(brk m + 3 \<mapsto> \<lparr>front = NULL, rear = NULL, mutex = brk m + 1, cond = brk m + 2,
                                        closed = False, qsize = 0\<rparr>),
     threads := (threads m)(Suc i \<mapsto> \<lparr>pc = W_start, warg = brk m\<rparr>), next_tid := Suc (Suc i),
     brk := brk m + 4, avail := avail m - 4\<rparr>" by simp
  have lv: "live N (Creating (Suc i)) j \<longleftrightarrow> live N (ph a) j \<or> j = i" for j using p by (auto simp: live_def)
  have ni: "\<not> live N (ph a) i" using p by (simp add: live_def)
  from pool_inv_winv [OF inv, of i] p have ab: "que a i = []" "\<not> shutq a i" by (auto simp: winv_def)
  let ?gi = "\<lparr>wi_w = brk m, wi_q = brk m + 3, wi_c = brk m + 2, wi_as = []\<rparr>"
  have new: "worker_rel m' ?gi i Starting [] False" "own m' ?gi i = []"
    using m' b by (simp_all add: worker_rel_def queue_ok_def queue_rep_def own_def run_req_def thread_rel_def)
  have F: "worker_rel m' (g j) j (st a j) (que a j) (shutq a j) \<and> own m' (g j) j = own m (g j) j" if j: "live N (ph a) j" for j
  proof -
    note w = mach_rel_worker [OF R j] and sm = worker_rel_small [OF mach_rel_worker [OF R j]]
    have "j \<noteq> i" using j ni by auto
    then show ?thesis using sm b by (intro conjI worker_rel_frame [OF w]) (auto simp: m')
  qed
  have W: "worker_rel m' (?g j) j (st ?a j) (que ?a j) (shutq ?a j)" if "live N (ph ?a) j" for j
    using that F [of j] new ab ni by (cases "j = i") (auto simp: lv)
  have A1: "apart m' ?gi i (g j) j" if j: "live N (ph a) j" for j
    using worker_rel_small [OF mach_rel_worker [OF R j]] new(2) by (auto simp: apart_def)
  have A2: "apart m' (g j) j (g k) k" if "live N (ph a) j" "live N (ph a) k" "j \<noteq> k" for j k
    using mach_rel_apart [OF R that] F [OF that(1)] F [OF that(2)] by (simp add: apart_def)
  have A: "apart m' (?g j) j (?g k) k" if "live N (ph ?a) j" "live N (ph ?a) k" "j \<noteq> k" for j k
    using that A1 [of k] apart_sym [OF A1 [of j]] A2 [of j k] by (cases "j = i"; cases "k = i") (simp_all add: lv)
  have C: "\<exists>j. live N (ph ?a) j \<and> c = wi_c (?g j)" if "conds m' c = Some ws" "ws \<noteq> []" for c ws
  proof -
    from that have "conds m c = Some ws" by (auto simp: m' split: if_splits)
    from mach_rel_waiter [OF R this that(2)] obtain j where "live N (ph a) j" "c = wi_c (g j)" by blast
    with ni lv show ?thesis by (intro exI [of _ j]) auto
  qed
  have T: "threads m' t \<noteq> None \<longleftrightarrow> 0 < t \<and> t \<le> Suc i" for t
    using R p by (auto simp: mach_rel_def m')
  have "\<forall>x k. mutexes m' x = Some k \<longrightarrow> k = None" "mutexes m' thread_id_lock = Some None"
    using R b by (auto simp: mach_rel_def m')
  with W A C T b show ?thesis unfolding mach_rel_def by (simp add: m')
qed

section \<open>Handing out a task\<close>

lemma pool_heapE:
  assumes "pool_heap N g m p n"
  obtains pl ws where "p \<noteq> NULL" "p < brk m" "pools m p = Some pl" "num_threads pl = int N" "workers pl \<noteq> NULL"
    "workers pl < brk m" "arrays m (workers pl) = Some ws" "length ws = N" "\<And>i. i < n \<Longrightarrow> ws ! i = Some (wi_w (g i))"
  using assms unfolding pool_heap_def by (auto split: option.splits)

lemma pool_heap_keep:
  "pool_heap N g m p n \<Longrightarrow> pools m' = pools m \<Longrightarrow> arrays m' = arrays m \<Longrightarrow> brk m \<le> brk m' \<Longrightarrow>
   (\<And>i. i < n \<Longrightarrow> wi_w (g' i) = wi_w (g i)) \<Longrightarrow> pool_heap N g' m' p n"
  unfolding pool_heap_def by (auto split: option.splits)

lemma enqueue_sim:
  assumes R: "mach_rel N g m a" and i: "live N (ph a) i" and sh: "\<not> shutq a i" and av: "3 \<le> avail m"
    and m1: "m1 = m\<lparr>ints := (ints m)(brk m \<mapsto> int x), brk := Suc (Suc (brk m)), avail := avail m - 2,
                    reqs := (reqs m)(Suc (brk m) \<mapsto> \<lparr>work_fn = Example_task, arg = brk m\<rparr>), rpos := rp\<rparr>"
    and ph: "n_created N p = n_created N (ph a)" "n_joined N p = n_joined N (ph a)"
  shows "\<exists>m' g'. queue_enqueue 0 (wi_q (g i)) (Suc (brk m)) m1 = (Return (), m') \<and> (\<forall>j. wi_w (g' j) = wi_w (g j)) \<and>
    mach_rel N g' m' (a\<lparr>ph := p, que := (que a)(i := que a i @ [x]), st := (st a)(i := wake (st a i)), sent := sn\<rparr>) \<and>
    pools m' = pools m \<and> arrays m' = arrays m \<and> brk m \<le> brk m' \<and> avail m' = avail m - 3"
proof -
  note w = mach_rel_worker [OF R i] and sm = worker_rel_small [OF mach_rel_worker [OF R i]]
  from w obtain s where s: "queues m (wi_q (g i)) = Some s" "cond s = wi_c (g i)" "closed s = shutq a i"
    and ok: "queue_ok m (wi_q (g i)) (wi_as (g i))"
    by (auto simp: worker_rel_def split: option.splits)
  have nb: "brk m \<notin> set (own m (g i) i)" "Suc (brk m) \<notin> set (own m (g i) i)"
    using sm(5) [of "brk m"] sm(5) [of "Suc (brk m)"] by auto
  have fr: "worker_rel m1 (g i) i (st a i) (que a i) (shutq a i)" "own m1 (g i) i = own m (g i) i"
    by (rule worker_rel_frame [OF w]; use sm nb in \<open>auto simp: m1\<close>)+
  have ok1: "queue_ok m1 (wi_q (g i)) (wi_as (g i))" using fr(1) by (simp add: worker_rel_def)
  have s1: "queues m1 (wi_q (g i)) = Some s" "0 < avail m1" "\<not> closed s" using s sh av by (auto simp: m1)
  obtain m' where run: "queue_enqueue 0 (wi_q (g i)) (Suc (brk m)) m1 = (Return (), m')"
    using queue_enqueue_run [OF ok1 s1, of 0] by simp
  note eq = queue_enqueue_run [OF ok1 s1, of 0 "Suc (brk m)", unfolded run]
  note post = queue_enqueue_ok [OF ok1 s1 run]
  let ?as = "wi_as (g i)" let ?g = "(g i)\<lparr>wi_as := ?as @ [brk m1]\<rparr>"
  have k: "threads m' = threads m" "wthreads m' = wthreads m" "mutexes m' = mutexes m" "next_tid m' = next_tid m"
    "pools m' = pools m" "arrays m' = arrays m" "brk m' = Suc (brk m1)" "avail m' = avail m - 3" "ints m' = ints m1"
    "reqs m' = reqs m1" "conds m' = (conds m)(wi_c (g i) := map_option tl (conds m (wi_c (g i))))"
    "\<And>q. q \<noteq> wi_q (g i) \<Longrightarrow> queues m' q = queues m q"
    "\<And>b. b \<notin> set ?as \<Longrightarrow> b < brk m \<Longrightarrow> nodes m' b = nodes m b"
    using eq av s(2) by (auto simp: m1 fun_upd_def split: if_splits)
  have own1: "own m' ?g i = own m (g i) i @ [Suc (brk m)]"
    using post(3) fr(2) k(1) by (simp add: own_def m1)
  have tr: "task_req m' r y" if "task_req m1 r y" for r y
    using that by (rule task_req_frame) (simp_all add: k)
  have trx: "task_req m' (Suc (brk m)) x" using R by (simp add: task_req_def k m1 mach_rel_def)
  have l2: "list_all2 (task_req m') (contents m' (?as @ [brk m1])) (que a i @ [x])"
    using fr(1) tr trx unfolding post(3) worker_rel_def
    by (auto intro!: list_all2_appendI elim!: list.rel_mono_strong)
  have thr: "thread_rel m' ?g i (wake (st a i))"
    using fr(1) tr by (auto simp: worker_rel_def thread_rel_def k m1 wake_def split: option.splits wpc.splits)
  have ds: "distinct (own m' ?g i)" using w nb own1 by (auto simp: worker_rel_def)
  have new: "worker_rel m' ?g i (wake (st a i)) (que a i @ [x]) (shutq a i)"
    using w post(2,5) l2 thr ds s by (auto simp: worker_rel_def k(2,7) m1)
  have "mach_rel N (g(i := ?g)) m' (a\<lparr>ph := p, que := (que a)(i := que a i @ [x]), st := (st a)(i := wake (st a i)), sent := sn\<rparr>)"
    by (rule mach_rel_update [OF R i]; use new own1 k ph m1 R i in \<open>auto simp: mach_rel_def live_def\<close>)
  with run k show ?thesis by (intro exI [of _ m'] exI [of _ "g(i := ?g)"]) (auto simp: m1)
qed

section \<open>Closing and joining\<close>

lemma close_sim:
  assumes R: "mach_rel N g m a" and i: "live N (ph a) i"
    and ph: "n_created N p = n_created N (ph a)" "n_joined N p = n_joined N (ph a)"
  shows "\<exists>m'. queue_close 0 (wi_q (g i)) m = (Return (), m') \<and> kept g m g m' \<and>
    mach_rel N g m' (a\<lparr>ph := p, shutq := (shutq a)(i := True), st := (st a)(i := wake (st a i))\<rparr>)"
proof -
  note w = mach_rel_worker [OF R i]
  from w obtain s where s: "queues m (wi_q (g i)) = Some s" "cond s = wi_c (g i)"
    and ok: "queue_ok m (wi_q (g i)) (wi_as (g i))" by (auto simp: worker_rel_def split: option.splits)
  let ?m = "m\<lparr>queues := (queues m)(wi_q (g i) \<mapsto> s\<lparr>closed := True\<rparr>), conds := (conds m)(wi_c (g i) := map_option (\<lambda>_. []) (conds m (wi_c (g i))))\<rparr>"
  have run: "queue_close 0 (wi_q (g i)) m = (Return (), ?m)" using queue_close_run [OF ok s(1)] s(2) by simp
  note post = queue_close_ok [OF ok s(1) run]
  have own: "own ?m (g i) i = own m (g i) i" using post(3) by (simp add: own_def)
  have tr: "task_req ?m = task_req m" by (simp add: task_req_def fun_eq_iff split: option.split)
  have thr: "thread_rel ?m (g i) i (wake (st a i))"
    using w by (auto simp: worker_rel_def thread_rel_def wake_def task_req_def split: option.splits wpc.splits)
  have "list_all2 (task_req ?m) (contents ?m (wi_as (g i))) (que a i)" "distinct (own ?m (g i) i)"
    unfolding post(3) tr own using w by (auto simp: worker_rel_def)
  with w post(2) thr s have new: "worker_rel ?m (g i) i (wake (st a i)) (que a i) True"
    by (auto simp: worker_rel_def)
  have "mach_rel N (g(i := g i)) ?m (a\<lparr>ph := p, shutq := (shutq a)(i := True), st := (st a)(i := wake (st a i))\<rparr>)"
  proof (rule mach_rel_update [OF R i])
    show "threads ?m (Suc i) \<noteq> None" using R i by (auto simp: mach_rel_def live_def)
  qed (use new own ph in auto)
  with run show ?thesis by (auto simp: kept_def)
qed

lemma join_sim:
  assumes R: "mach_rel N g m a" and p: "ph a = Joining i" and i: "i < N" and inv: "pool_inv N K a" and q: "st a i = Quit"
  shows "\<exists>m'. join_worker_thread (wi_w (g i)) m = (Return (), m') \<and> kept g m g m' \<and>
    mach_rel N g m' (a\<lparr>ph := Joining (Suc i), st := (st a)(i := Joined)\<rparr>)"
proof -
  have lvi: "live N (ph a) i" using p i by (simp add: live_def)
  note w = mach_rel_worker [OF R lvi]
  from pool_inv_winv [OF inv, of i] q have e: "que a i = []" by (simp add: winv_def)
  from w e have as: "wi_as (g i) = []" by (auto simp: worker_rel_def contents_def)
  from w as obtain s where s: "queues m (wi_q (g i)) = Some s" "cond s = wi_c (g i)"
    and ok: "queue_ok m (wi_q (g i)) []" and wt: "wi_w (g i) \<noteq> NULL"
      "wthreads m (wi_w (g i)) = Some \<lparr>thread_id = Suc i, request_queue = wi_q (g i)\<rparr>"
    by (auto simp: worker_rel_def split: option.splits)
  from w q obtain th where th: "threads m (Suc i) = Some th" "pc th = W_done"
    by (auto simp: worker_rel_def thread_rel_def split: option.splits wpc.splits)
  let ?m = "m\<lparr>queues := (queues m)(wi_q (g i) := None), wthreads := (wthreads m)(wi_w (g i) := None)\<rparr>"
  have run: "join_worker_thread (wi_w (g i)) m = (Return (), ?m)"
    using queue_destroy_run [OF ok, of "brk m"] wt th
    unfolding join_worker_thread_def pthread_join_def by (simp add: prog_simps restrict_map_def)
  let ?a = "a\<lparr>ph := Joining (Suc i), st := (st a)(i := Joined)\<rparr>"
  have lv: "live N (Joining (Suc i)) j \<longleftrightarrow> live N (ph a) j \<and> j \<noteq> i" for j using p by (auto simp: live_def)
  have F: "worker_rel ?m (g j) j (st a j) (que a j) (shutq a j) \<and> own ?m (g j) j = own m (g j) j"
    if j: "live N (ph a) j" "j \<noteq> i" for j
  proof -
    note wj = mach_rel_worker [OF R j(1)] and ap = mach_rel_apart [OF R j(1) lvi j(2)]
    then show ?thesis by (intro conjI worker_rel_frame [OF wj]) (auto simp: apart_def)
  qed
  have A: "apart ?m (g j) j (g k) k" if "live N (ph a) j" "j \<noteq> i" "live N (ph a) k" "k \<noteq> i" "j \<noteq> k" for j k
    using mach_rel_apart [OF R that(1,3,5)] F [OF that(1,2)] F [OF that(3,4)] by (simp add: apart_def)
  have C: "\<exists>j. live N (Joining (Suc i)) j \<and> c = wi_c (g j)" if c: "conds m c = Some ws" "ws \<noteq> []" for c ws
  proof -
    from mach_rel_waiter [OF R c] obtain j where j: "live N (ph a) j" "c = wi_c (g j)" by blast
    with w q c th have "j \<noteq> i" by (auto simp: worker_rel_def thread_rel_def)
    with j lv show ?thesis by blast
  qed
  have D: "map_option pc (threads m (Suc j)) = Some W_done" if "j < Suc i" for j
    using that mach_rel_joined [OF R, of j] p th by (cases "j = i") auto
  from R p have M: "1 < brk m" "mutexes m thread_id_lock = Some None" "\<forall>p k. mutexes m p = Some k \<longrightarrow> k = None"
    "next_tid m = Suc N" "\<forall>t. threads m t \<noteq> None \<longleftrightarrow> 0 < t \<and> t \<le> N" by (simp_all add: mach_rel_def)
  have "mach_rel N g ?m ?a"
    unfolding mach_rel_def using M D C F A lv by (intro conjI) simp_all
  with run show ?thesis by (auto simp: kept_def)
qed

section \<open>One step of main\<close>

text \<open>The array of workers is no part of the relation between machine and specification.\<close>

lemma mach_rel_arrays: "mach_rel N g m a \<Longrightarrow> mach_rel N g (m\<lparr>arrays := v\<rparr>) a"
proof -
  assume R: "mach_rel N g m a"
  have F: "worker_rel (m\<lparr>arrays := v\<rparr>) (g j) j (st a j) (que a j) (shutq a j) \<and> own (m\<lparr>arrays := v\<rparr>) (g j) j = own m (g j) j"
    if "live N (ph a) j" for j
    by (intro conjI worker_rel_frame [OF mach_rel_worker [OF R that]]) simp_all
  have "apart (m\<lparr>arrays := v\<rparr>) (g j) j (g k) k" if "live N (ph a) j" "live N (ph a) k" "j \<noteq> k" for j k
    using mach_rel_apart [OF R that] F that by (simp add: apart_def)
  with F R show ?thesis by (simp add: mach_rel_def)
qed

text \<open>The allocations main still has to make.\<close>

definition mem_left :: "nat \<Rightarrow> nat \<Rightarrow> mpc \<Rightarrow> nat" where
  "mem_left N K c = (case c of
      M_begin \<Rightarrow> 2 + 4 * N + 3 * K
    | M_create _ i \<Rightarrow> 4 * (N - i) + 3 * K
    | M_add _ k \<Rightarrow> 3 * (K - k)
    | _ \<Rightarrow> 0)"

definition main_sim :: "nat \<Rightarrow> nat \<Rightarrow> machine \<Rightarrow> pool \<Rightarrow> mpc \<Rightarrow> machine \<Rightarrow> mpc \<Rightarrow> bool" where
  "main_sim N K m a c m' c' \<longleftrightarrow> (\<exists>a' g'. (c = M_begin \<and> c' \<noteq> M_begin \<and> a' = a \<or> main_move N K a a' \<and> c' \<noteq> M_begin) \<and>
     did a' = did a \<and> mach_rel N g' m' a' \<and> pc_rel N g' m' c' (ph a') \<and>
     (mem_left N K c \<le> avail m \<longrightarrow> mem_left N K c' \<le> avail m'))"

definition main_out :: "nat \<Rightarrow> nat \<Rightarrow> machine \<Rightarrow> pool \<Rightarrow> mpc \<Rightarrow> bool" where
  "main_out N K m a c \<longleftrightarrow>
     (\<exists>m' c'. main_step N K c m = (Return c', m') \<and> main_sim N K m a c m' c') \<or>
     avail m < mem_left N K c \<and> (\<exists>m'. main_step N K c m = (Exited EXIT_FAILURE, m')) \<or>
     (\<exists>i. ph a = Joining i \<and> i < N \<and> st a i \<noteq> Quit) \<and> main_step N K c m = (Blocks, m) \<or>
     c = M_exit \<and> ph a = Finished \<and> main_step N K c m = (Exited EXIT_SUCCESS, m)"

lemma main_simI:
  "main_move N K a a' \<Longrightarrow> c' \<noteq> M_begin \<Longrightarrow> mach_rel N g' m' a' \<Longrightarrow> pc_rel N g' m' c' (ph a') \<Longrightarrow>
   (mem_left N K c \<le> avail m \<Longrightarrow> mem_left N K c' \<le> avail m') \<Longrightarrow> main_sim N K m a c m' c'"
  unfolding main_sim_def by (intro exI [of _ a'] exI [of _ g']) (auto elim!: main_move.cases)

lemma main_outI: "main_step N K c m = (Return c', m') \<Longrightarrow> main_sim N K m a c m' c' \<Longrightarrow> main_out N K m a c"
  unfolding main_out_def by blast

lemma main_begin_sim:
  assumes R: "mach_rel N g m a" and pc: "pc_rel N g m M_begin (ph a)"
  shows "main_out N K m a M_begin"
proof -
  from pc have p: "ph a = Creating 0" by (simp add: pc_rel_def)
  from R have b: "0 < brk m" by (simp add: mach_rel_def)
  show ?thesis
  proof (cases "2 \<le> avail m")
    case False
    then have "\<exists>m'. main_step N K M_begin m = (Exited EXIT_FAILURE, m')"
      using thread_pool_alloc_nomem [of m N] b by (auto simp: main_step_def prog_simps)
    with False show ?thesis by (auto simp: main_out_def mem_left_def)
  next
    case True
    let ?m = "m\<lparr>pools := (pools m)(brk m \<mapsto> \<lparr>workers = Suc (brk m), num_threads = int N\<rparr>),
     arrays := (arrays m)(Suc (brk m) \<mapsto> replicate N None), brk := Suc (Suc (brk m)), avail := avail m - 2\<rparr>"
    have e: "main_step N K M_begin m = (Return (M_create (brk m) 0), ?m)"
      using thread_pool_alloc_run [OF True b, of N] by (simp add: main_step_def prog_simps)
    have "mach_rel N g ?m a" using R p by (simp add: mach_rel_def live_def)
    moreover have "pc_rel N g ?m (M_create (brk m) 0) (ph a)" using p b by (simp add: pc_rel_def pool_heap_def)
    ultimately have "main_sim N K m a M_begin ?m (M_create (brk m) 0)"
      unfolding main_sim_def by (intro exI [of _ a] exI [of _ g]) (auto simp: mem_left_def)
    with e show ?thesis by (rule main_outI)
  qed
qed

lemma main_create_sim:
  assumes R: "mach_rel N g m a" and pc: "pc_rel N g m (M_create pl i) (ph a)" and inv: "pool_inv N K a"
  shows "main_out N K m a (M_create pl i)"
proof -
  from pc have p: "ph a = Creating i" and h: "pool_heap N g m pl i" by (simp_all add: pc_rel_def)
  from R have b: "0 < brk m" by (simp add: mach_rel_def)
  from inv p have le: "i \<le> N" by (simp add: pool_inv_def phase_ok_def)
  show ?thesis
  proof (cases "i < N")
    case False
    with le have [simp]: "i = N" by simp
    from p have mv: "main_move N K a (a\<lparr>ph := Adding 0\<rparr>)" by (intro main_move.created) simp
    have "mach_rel N g m (a\<lparr>ph := Adding 0\<rparr>)" using R p by (simp add: mach_rel_def live_def)
    from main_simI [OF mv _ this, of "M_add pl 0" "M_create pl i" m] h have "main_sim N K m a (M_create pl i) m (M_add pl 0)"
      by (simp add: pc_rel_def mem_left_def)
    then show ?thesis by (intro main_outI) (simp add: main_step_def prog_simps)
  next
    case True
    from h obtain tp ws where h': "pl \<noteq> NULL" "pl < brk m" "pools m pl = Some tp" "num_threads tp = int N"
      "workers tp \<noteq> NULL" "workers tp < brk m" "arrays m (workers tp) = Some ws" "length ws = N"
      "\<And>j. j < i \<Longrightarrow> ws ! j = Some (wi_w (g j))" by (rule pool_heapE) blast
    show ?thesis
    proof (cases "4 \<le> avail m")
      case False
      then have "avail m < mem_left N K (M_create pl i)" using True by (simp add: mem_left_def)
      moreover have "\<exists>m'. main_step N K (M_create pl i) m = (Exited EXIT_FAILURE, m')"
        using create_worker_thread_nomem [of m] False b h' True
        by (auto simp: main_step_def thread_pool_create_one_def prog_simps)
      ultimately show ?thesis by (auto simp: main_out_def)
    next
      case av: True
      note cr = create_worker_thread_run [OF av b]
      define m1 where "m1 = snd (create_worker_thread m)"
      have run: "create_worker_thread m = (Return (brk m), m1)" and
        k: "pools m1 = pools m" "arrays m1 = arrays m" "brk m1 = brk m + 4" "avail m1 = avail m - 4"
        using cr by (simp_all add: m1_def)
      note sim = create_sim [OF R p True inv av run]
      let ?g = "g(i := \<lparr>wi_w = brk m, wi_q = brk m + 3, wi_c = brk m + 2, wi_as = []\<rparr>)"
      let ?m = "m1\<lparr>arrays := (arrays m)(workers tp \<mapsto> ws[i := Some (brk m)])\<rparr>"
      have e: "main_step N K (M_create pl i) m = (Return (M_create pl (Suc i)), ?m)"
        using run h' True k by (simp add: main_step_def thread_pool_create_one_def prog_simps)
      have "mach_rel N ?g ?m (a\<lparr>ph := Creating (Suc i), st := (st a)(i := Starting)\<rparr>)"
        using sim by (rule mach_rel_arrays)
      moreover have "pc_rel N ?g ?m (M_create pl (Suc i)) (Creating (Suc i))"
        using h' k True by (auto simp: pc_rel_def pool_heap_def nth_list_update less_Suc_eq)
      ultimately have "main_sim N K m a (M_create pl i) ?m (M_create pl (Suc i))"
        using main_simI [OF main_move.create [of a i N K, OF p True], of "M_create pl (Suc i)" ?g ?m "M_create pl i" m] True k
        by (simp add: mem_left_def)
      with e show ?thesis by (rule main_outI)
    qed
  qed
qed

lemma main_add_sim:
  assumes R: "mach_rel N g m a" and pc: "pc_rel N g m (M_add pl k) (ph a)" and inv: "pool_inv N K a" and N: "0 < N"
  shows "main_out N K m a (M_add pl k)"
proof -
  from pc have p: "ph a = Adding k" and h: "pool_heap N g m pl N" by (simp_all add: pc_rel_def)
  from R have b: "0 < brk m" by (simp add: mach_rel_def)
  from inv p have le: "k \<le> K" by (simp add: pool_inv_def phase_ok_def)
  from h obtain tp ws where h': "pl \<noteq> NULL" "pl < brk m" "pools m pl = Some tp" "num_threads tp = int N"
      "workers tp \<noteq> NULL" "workers tp < brk m" "arrays m (workers tp) = Some ws" "length ws = N"
      "\<And>j. j < N \<Longrightarrow> ws ! j = Some (wi_w (g j))" by (rule pool_heapE) blast
  define i where "i = (rands m (rpos m) mod 2147483648) mod N"
  have i: "i < N" "int (rands m (rpos m) mod 2147483648) smod int N = int i"
    using rand_index [OF N] by (simp_all add: i_def)
  have lv: "live N (ph a) i" using p i by (simp add: live_def)
  note w = mach_rel_worker [OF R lv]
  show ?thesis
  proof (cases "k < K")
    case False
    with le have [simp]: "k = K" by simp
    from p have mv: "main_move N K a (a\<lparr>ph := Closing 0\<rparr>)" by (intro main_move.added) simp
    have "mach_rel N g m (a\<lparr>ph := Closing 0\<rparr>)" using R p by (simp add: mach_rel_def live_def)
    from main_simI [OF mv _ this, of "M_close pl 0" "M_add pl k" m] h have "main_sim N K m a (M_add pl k) m (M_close pl 0)"
      by (simp add: pc_rel_def mem_left_def)
    then show ?thesis by (intro main_outI) (simp add: main_step_def prog_simps)
  next
    case True
    let ?m1 = "m\<lparr>ints := (ints m)(brk m \<mapsto> int k), brk := Suc (Suc (brk m)), avail := avail m - 2,
                 reqs := (reqs m)(Suc (brk m) \<mapsto> \<lparr>work_fn = Example_task, arg = brk m\<rparr>), rpos := Suc (rpos m)\<rparr>"
    have wt: "wi_w (g i) \<noteq> NULL" "wthreads m (wi_w (g i)) = Some \<lparr>thread_id = Suc i, request_queue = wi_q (g i)\<rparr>"
      using w by (simp_all add: worker_rel_def)
    have step: "main_step N K (M_add pl k) m = bnd (queue_enqueue 0 (wi_q (g i)) (Suc (brk m))) (\<lambda>_. ret (M_add pl (Suc k))) ?m1"
      if "2 \<le> avail m"
    proof -
      have "thread_pool_add 0 pl Example_task (brk m) (m\<lparr>brk := Suc (brk m), avail := avail m - 1, ints := (ints m)(brk m \<mapsto> int k)\<rparr>) =
        queue_enqueue 0 (wi_q (g i)) (Suc (brk m)) ?m1"
        using that N b h' i wt unfolding thread_pool_add_def by (simp add: prog_simps numeral_2_eq_2)
      then show ?thesis using that b True by (simp add: main_step_def prog_simps bnd_def)
    qed
    show ?thesis
    proof (cases "3 \<le> avail m")
      case False
      then have "avail m = 0 \<or> avail m = 1 \<or> avail m = 2" by linarith
      then have "\<exists>m'. main_step N K (M_add pl k) m = (Exited EXIT_FAILURE, m')"
      proof (elim disjE)
        assume "avail m = 2"
        then show ?thesis using step by (simp add: prog_simps queue_enqueue_nomem_run)
      qed (use b True in \<open>simp_all add: main_step_def thread_pool_add_def prog_simps\<close>)
      with False True show ?thesis by (auto simp: main_out_def mem_left_def)
    next
      case av: True
      have sh: "\<not> shutq a i" using pool_inv_winv [OF inv, of i] p by (simp add: winv_def)
      let ?a = "a\<lparr>ph := Adding (Suc k), que := (que a)(i := que a i @ [k]), st := (st a)(i := wake (st a i)), sent := sent a @ [(i, k)]\<rparr>"
      from enqueue_sim [OF R lv sh av refl, where p = "Adding (Suc k)" and x = k and rp = "Suc (rpos m)" and sn = "sent a @ [(i, k)]"] p
      obtain m' g' where m': "queue_enqueue 0 (wi_q (g i)) (Suc (brk m)) ?m1 = (Return (), m')"
        "\<forall>j. wi_w (g' j) = wi_w (g j)" "mach_rel N g' m' ?a" "pools m' = pools m" "arrays m' = arrays m" "brk m \<le> brk m'"
        "avail m' = avail m - 3" by auto
      have e: "main_step N K (M_add pl k) m = (Return (M_add pl (Suc k)), m')"
        using step av m'(1) by (simp add: prog_simps)
      have "pc_rel N g' m' (M_add pl (Suc k)) (ph ?a)"
        using pool_heap_keep [OF h m'(4,5,6)] m'(2) by (simp add: pc_rel_def)
      from main_simI [OF main_move.add [OF p True i(1)] _ m'(3) this, of "M_add pl k" m] True m'(7)
      have "main_sim N K m a (M_add pl k) m' (M_add pl (Suc k))" by (simp add: mem_left_def)
      with e show ?thesis by (rule main_outI)
    qed
  qed
qed

lemma main_close_sim:
  assumes R: "mach_rel N g m a" and pc: "pc_rel N g m (M_close pl i) (ph a)" and inv: "pool_inv N K a"
  shows "main_out N K m a (M_close pl i)"
proof -
  from pc have p: "ph a = Closing i" and h: "pool_heap N g m pl N" by (simp_all add: pc_rel_def)
  from inv p have le: "i \<le> N" by (simp add: pool_inv_def phase_ok_def)
  from h obtain tp ws where h': "pl \<noteq> NULL" "pl < brk m" "pools m pl = Some tp" "num_threads tp = int N"
      "workers tp \<noteq> NULL" "workers tp < brk m" "arrays m (workers tp) = Some ws" "length ws = N"
      "\<And>j. j < N \<Longrightarrow> ws ! j = Some (wi_w (g j))" by (rule pool_heapE) blast
  show ?thesis
  proof (cases "i < N")
    case False
    with le have [simp]: "i = N" by simp
    from p have mv: "main_move N K a (a\<lparr>ph := Joining 0\<rparr>)" by (intro main_move.closed) simp
    have "mach_rel N g m (a\<lparr>ph := Joining 0\<rparr>)" using R p by (simp add: mach_rel_def live_def)
    from main_simI [OF mv _ this, of "M_join pl 0" "M_close pl i" m] h have "main_sim N K m a (M_close pl i) m (M_join pl 0)"
      by (simp add: pc_rel_def mem_left_def)
    then show ?thesis by (intro main_outI) (use h' in \<open>simp add: main_step_def prog_simps\<close>)
  next
    case True
    have lv: "live N (ph a) i" using p True by (simp add: live_def)
    from close_sim [OF R lv, of "Closing (Suc i)"] p obtain m' where
      m': "queue_close 0 (wi_q (g i)) m = (Return (), m')" "kept g m g m'"
        "mach_rel N g m' (a\<lparr>ph := Closing (Suc i), shutq := (shutq a)(i := True), st := (st a)(i := wake (st a i))\<rparr>)" by auto
    have wt: "wi_w (g i) \<noteq> NULL" "wthreads m (wi_w (g i)) = Some \<lparr>thread_id = Suc i, request_queue = wi_q (g i)\<rparr>"
      using mach_rel_worker [OF R lv] by (simp_all add: worker_rel_def)
    have e: "main_step N K (M_close pl i) m = (Return (M_close pl (Suc i)), m')"
      using h' True wt m'(1) by (simp add: main_step_def thread_pool_close_one_def prog_simps)
    have "pc_rel N g m' (M_close pl (Suc i)) (Closing (Suc i))"
      using pool_heap_keep [OF h, of m' g] m'(2) by (simp add: pc_rel_def kept_def)
    with main_simI [OF main_move.close [of a i N K, OF p True] _ m'(3), of "M_close pl (Suc i)" "M_close pl i" m]
    have "main_sim N K m a (M_close pl i) m' (M_close pl (Suc i))" by (simp add: mem_left_def)
    with e show ?thesis by (rule main_outI)
  qed
qed

lemma main_join_sim:
  assumes R: "mach_rel N g m a" and pc: "pc_rel N g m (M_join pl i) (ph a)" and inv: "pool_inv N K a"
  shows "main_out N K m a (M_join pl i)"
proof -
  from pc have p: "ph a = Joining i" and h: "pool_heap N g m pl N" by (simp_all add: pc_rel_def)
  from inv p have le: "i \<le> N" by (simp add: pool_inv_def phase_ok_def)
  from h obtain tp ws where h': "pl \<noteq> NULL" "pl < brk m" "pools m pl = Some tp" "num_threads tp = int N"
      "workers tp \<noteq> NULL" "workers tp < brk m" "arrays m (workers tp) = Some ws" "length ws = N"
      "\<And>j. j < N \<Longrightarrow> ws ! j = Some (wi_w (g j))" by (rule pool_heapE) blast
  show ?thesis
  proof (cases "i < N")
    case False
    with le have [simp]: "i = N" by simp
    from p have mv: "main_move N K a (a\<lparr>ph := Finished\<rparr>)" by (intro main_move.joined) simp
    let ?m = "m\<lparr>arrays := (arrays m)(workers tp := None), pools := (pools m)(pl := None)\<rparr>"
    have e: "main_step N K (M_join pl i) m = (Return M_exit, ?m)"
      using h' by (simp add: main_step_def thread_pool_free_def prog_simps)
    have no: "\<not> live N Finished j" "\<not> live N (Joining N) j" for j by (simp_all add: live_def)
    have "mach_rel N g ?m (a\<lparr>ph := Finished\<rparr>)" using R p by (simp add: mach_rel_def no)
    from main_simI [OF mv _ this, of M_exit "M_join pl i" m] have "main_sim N K m a (M_join pl i) ?m M_exit"
      by (simp add: pc_rel_def mem_left_def)
    with e show ?thesis by (rule main_outI)
  next
    case True
    have lv: "live N (ph a) i" using p True by (simp add: live_def)
    have w: "wi_w (g i) \<noteq> NULL" "wthreads m (wi_w (g i)) = Some \<lparr>thread_id = Suc i, request_queue = wi_q (g i)\<rparr>"
      "thread_rel m (g i) i (st a i)" using mach_rel_worker [OF R lv] by (simp_all add: worker_rel_def)
    show ?thesis
    proof (cases "st a i = Quit")
      case False
      with w have "pthread_join (Suc i) m = (Blocks, m)"
        by (auto simp: thread_rel_def pthread_join_def split: option.splits wpc.splits)
      then have "main_step N K (M_join pl i) m = (Blocks, m)"
        using h' True w by (simp add: main_step_def thread_pool_join_one_def join_worker_thread_def prog_simps)
      with p True False show ?thesis by (auto simp: main_out_def)
    next
      case q: True
      from join_sim [OF R p True inv q] obtain m' where m': "join_worker_thread (wi_w (g i)) m = (Return (), m')" "kept g m g m'"
        "mach_rel N g m' (a\<lparr>ph := Joining (Suc i), st := (st a)(i := Joined)\<rparr>)" by blast
      have e: "main_step N K (M_join pl i) m = (Return (M_join pl (Suc i)), m')"
        using h' True m'(1) by (simp add: main_step_def thread_pool_join_one_def prog_simps)
      have "pc_rel N g m' (M_join pl (Suc i)) (Joining (Suc i))"
        using pool_heap_keep [OF h, of m' g] m'(2) by (simp add: pc_rel_def kept_def)
      with main_simI [OF main_move.join [of a i N K, OF p True q] _ m'(3), of "M_join pl (Suc i)" "M_join pl i" m]
      have "main_sim N K m a (M_join pl i) m' (M_join pl (Suc i))" by (simp add: mem_left_def)
      with e show ?thesis by (rule main_outI)
    qed
  qed
qed

lemma main_step_sim:
  assumes "mach_rel N g m a" and "pc_rel N g m c (ph a)" and "pool_inv N K a" and "0 < N"
  shows "main_out N K m a c"
proof (cases c)
  case M_exit
  with assms(2) show ?thesis by (simp add: main_out_def pc_rel_def main_step_def prog_simps)
next
  case M_begin
  with assms main_begin_sim show ?thesis by simp
next
  case M_create
  with assms main_create_sim show ?thesis by simp
next
  case M_add
  with assms main_add_sim show ?thesis by simp
next
  case M_close
  with assms main_close_sim show ?thesis by simp
next
  case M_join
  with assms main_join_sim show ?thesis by simp
qed

end
