(* ===== verification/Pool_Log.thy ===== *)
theory Pool_Log
  imports Pool_Main "HOL-Library.Sublist"
begin

text \<open>
  What the pool leaves alone: the pieces of code other than a task write nothing to the task log,
  and none of them frees the integer a task was given. With this the log file is related to the
  tasks done, and the live integers to the tasks handed out.
\<close>

section \<open>Calm code\<close>

definition calm :: "machine \<Rightarrow> machine \<Rightarrow> bool" where
  "calm m m' \<longleftrightarrow> taskfile m' = taskfile m \<and> clock m' = clock m \<and> fopen_ok m' = fopen_ok m \<and>
     ints m' = ints m \<and> brk m \<le> brk m'"

definition keeps :: "'a prog \<Rightarrow> bool" where
  "keeps p \<longleftrightarrow> (\<forall>m. calm m (snd (p m)))"

lemma calm_refl [simp]: "calm m m"
  by (simp add: calm_def)

lemma calm_trans: "calm m m1 \<Longrightarrow> calm m1 m2 \<Longrightarrow> calm m m2"
  by (simp add: calm_def)

lemma keepsD: "keeps p \<Longrightarrow> p m = (r, m') \<Longrightarrow> calm m m'"
  by (metis keeps_def snd_conv)

lemma keeps_bnd: "keeps p \<Longrightarrow> (\<And>x. keeps (f x)) \<Longrightarrow> keeps (bnd p f)"
  unfolding keeps_def bnd_def by (auto split: prod.splits outcome.splits) (metis calm_trans snd_conv)+

lemma keeps_basic: "keeps (ret x)" "keeps (gets h)" "keeps (exit_with n)" "keeps (fault e)" "keeps (deref sel p)"
  "keeps rand" "keeps (print out)" "keeps (perror_exit s)" "keeps (\<lambda>m. (Blocks, m))"
  by (auto simp: keeps_def ret_def gets_def exit_with_def fault_def deref_def run_rand run_print run_perror_exit calm_def
      split: option.splits)

lemma keeps_if: "(b \<Longrightarrow> keeps p) \<Longrightarrow> (\<not> b \<Longrightarrow> keeps q) \<Longrightarrow> keeps (if b then p else q)"
  by simp

lemma keeps_malloc: "(\<And>f m. calm m (upd f m)) \<Longrightarrow> keeps (malloc upd x)"
proof -
  assume u: "\<And>f m. calm m (upd f m)"
  have "calm m (m\<lparr>brk := Suc (brk m), avail := avail m - 1\<rparr>)" for m by (simp add: calm_def)
  from calm_trans [OF this u] show ?thesis by (simp add: keeps_def malloc_def)
qed

lemma keeps_store: "(\<And>f m. calm m (upd f m)) \<Longrightarrow> keeps (store sel upd p g)"
  unfolding keeps_def store_def by (auto split: option.splits)

lemma keeps_free: "(\<And>f m. calm m (upd f m)) \<Longrightarrow> keeps (free sel upd p)"
  unfolding keeps_def free_def by (auto split: option.splits)

lemma calm_upd [simp]:
  "calm m (reqs_update f m)" "calm m (nodes_update g m)" "calm m (queues_update h m)" "calm m (mutexes_update i m)"
  "calm m (conds_update j m)" "calm m (wthreads_update k m)" "calm m (arrays_update l m)" "calm m (pools_update n m)"
  by (simp_all add: calm_def)

lemma keeps_sync: "keeps (LOCK_MTX t p)" "keeps (UNLOCK_MTX t p)" "keeps (pthread_cond_signal c)"
  "keeps (pthread_cond_broadcast c)" "keeps (pthread_cond_wait t c p)" "keeps (pthread_create a)" "keeps (pthread_join t)"
  "keeps (handle_error_en e s)" "keeps (set_pc t k)"
  by (auto simp: keeps_def LOCK_MTX_def UNLOCK_MTX_def pthread_mutex_lock_def pthread_mutex_unlock_def bnd_def ret_def
      handle_error_en_def print_def modify_def exit_with_def run_signal run_broadcast run_wait pthread_create_def
      pthread_join_def set_pc_def calm_def split: option.splits)

lemmas keeps_intros = keeps_bnd keeps_basic keeps_if keeps_malloc keeps_store keeps_free keeps_sync calm_upd

lemma keeps_queue: "keeps (queue_init p q)" "keeps (queue_enqueue t q r)" "keeps (queue_dequeue t q)" "keeps (queue_close t q)"
  unfolding queue_init_def queue_enqueue_def queue_dequeue_def queue_close_def by (intro keeps_intros)+

lemma keeps_destroy: "keeps (queue_destroy fuel q)"
proof -
  have "keeps (queue_destroy_loop fuel q)" for fuel
  proof (induction fuel)
    case 0
    show ?case by (subst queue_destroy_loop.simps) (auto intro!: keeps_intros)
  next
    case (Suc n)
    then show ?case by (subst queue_destroy_loop.simps) (auto intro!: keeps_intros)
  qed
  then show ?thesis unfolding queue_destroy_def by (intro keeps_intros)
qed

lemma keeps_pool:
  "keeps (thread_pool_alloc n)" "keeps (thread_pool_create_one p i)" "keeps (thread_pool_add t p w b)"
  "keeps (thread_pool_close_one t tp i)" "keeps (thread_pool_join_one tp i)" "keeps (thread_pool_free p)"
proof -
  have pw: "keeps (pool_worker tp k)" for tp k
    unfolding pool_worker_def by (auto intro!: keeps_intros split: option.splits)
  show "keeps (thread_pool_alloc n)" unfolding thread_pool_alloc_def by (intro keeps_intros)
  show "keeps (thread_pool_create_one p i)"
    unfolding thread_pool_create_one_def create_worker_thread_def by (intro keeps_intros keeps_queue)
  show "keeps (thread_pool_add t p w b)" unfolding thread_pool_add_def by (intro keeps_intros keeps_queue pw)
  show "keeps (thread_pool_close_one t tp i)" unfolding thread_pool_close_one_def by (intro keeps_intros keeps_queue pw)
  show "keeps (thread_pool_join_one tp i)"
    unfolding thread_pool_join_one_def join_worker_thread_def by (intro keeps_intros keeps_destroy pw)
  show "keeps (thread_pool_free p)" unfolding thread_pool_free_def by (intro keeps_intros)
qed

section \<open>The task log\<close>

definition task_line :: "machine \<Rightarrow> nat \<times> nat \<Rightarrow> string" where
  "task_line m p = log_line (clock m) (Suc (fst p)) (''Log message '' @ show_int (int (snd p)))"

text \<open>The tasks done, in the order they were done, have their lines in the log file in that order.\<close>

definition log_rel :: "machine \<Rightarrow> pool \<Rightarrow> bool" where
  "log_rel m a \<longleftrightarrow> fopen_ok m \<and> subseq (map (task_line m) (did a)) (taskfile m)"

lemma example_task_log:
  assumes "a \<noteq> NULL" "ints m a = Some v" "fopen_ok m" "example_task t a m = (r, m')"
  shows "\<exists>rest. taskfile m' = taskfile m @ log_line (clock m) t (''Log message '' @ show_int v) # rest"
  using assms
  by (auto simp: example_task_def bnd_def gets_def rand_def deref_def fprintf_log_def modify_def Let_def split: if_splits)

lemma quiet_file: "quiet m m' \<Longrightarrow> clock m' = clock m \<and> fopen_ok m' = fopen_ok m"
  by (cases m; cases m') (simp add: quiet_def)

lemma calm_deref: "(\<And>x. calm m (snd (f x m))) \<Longrightarrow> calm m (snd (bnd (deref sel p) f m))"
  by (auto simp: bnd_def deref_def split: option.splits)

lemma keeps_worker:
  assumes "threads m t = Some th" "run_req (pc th) = []" "worker_func h t m = (r, m')"
  shows "calm m m'"
proof -
  have dq: "calm m1 (snd (worker_dequeue t w l n m1))" for w l n m1
  proof -
    have "calm m1 (snd (case queue_dequeue t (request_queue wk) m1 of
       (Return req, m') \<Rightarrow>
         (if req = NULL
          then sq (print (Out (''thread-'' @ show_int l @ '' exiting. Processed '' @
                      show_int n @ '' requests.'' @ [nl])))
               (set_pc t W_done)
          else set_pc t (W_run l n req)) m'
     | (Blocks, m') \<Rightarrow>
         (if asleep m' t (request_queue wk) then set_pc t (W_wait l n) m'
          else (Blocks, m'))
     | (Exited n, m') \<Rightarrow> (Exited n, m')
     | (Faulted e, m') \<Rightarrow> (Faulted e, m')))" for wk
    proof -
      obtain r m2 where q: "queue_dequeue t (request_queue wk) m1 = (r, m2)" by fastforce
      have c: "calm m1 m2" by (rule keepsD [OF keeps_queue(3) q])
      have k: "calm m2 (snd (p m2))" if "keeps p" for p :: "unit prog" using that by (simp add: keeps_def)
      show ?thesis using c unfolding q
        by (cases r) (auto intro: calm_trans [OF c k] keeps_intros)
    qed
    then show ?thesis unfolding worker_dequeue_def by (rule calm_deref)
  qed
  have st: "keeps (sq (LOCK_MTX t thread_id_lock)
         (bnd (gets thread_counter) (\<lambda>local_id.
         sq (modify (\<lambda>m. m\<lparr>thread_counter := i32 (local_id + 1)\<rparr>))
         (sq (UNLOCK_MTX t thread_id_lock)
         (sq (print (Out (''thread-'' @ show_int local_id @ '' starting'' @ [nl])))
         (set_pc t (W_loop local_id 0)))))))"
    by (intro keeps_intros) (simp add: keeps_def modify_def calm_def)
  have "calm m (snd (worker_func h t m))"
  proof (cases "t = 0")
    case True
    then show ?thesis by (simp add: worker_func_def bnd_def deref_def)
  next
    case False
    with assms(1) have e: "deref threads t m = (Return th, m)" by (simp add: deref_def)
    show ?thesis
    proof (cases "pc th")
      case W_start
      with st show ?thesis by (simp add: worker_func_def run_bnd_Return [where p = "deref threads t", OF e] keeps_def)
    next
      case (W_wait l n)
      with dq show ?thesis
        by (auto simp: worker_func_def run_bnd_Return [where p = "deref threads t", OF e] intro!: calm_deref)
    qed (use dq assms(2) in \<open>auto simp: worker_func_def run_bnd_Return [where p = "deref threads t", OF e] run_req_def\<close>)
  qed
  with assms(3) show ?thesis by simp
qed

end
