(* ===== verification/Pool_Properties.thy ===== *)
theory Pool_Properties
  imports Pool_Log
begin

text \<open>
  The whole process of \<^verbatim>\<open>src/main.c\<close>: what holds in every state that some interleaving of the
  main thread and the workers reaches, and how the process ends.
\<close>

section \<open>The relation along a run\<close>

definition ints_rel :: "machine \<Rightarrow> nat \<Rightarrow> bool" where
  "ints_rel m k \<longleftrightarrow> finite (dom (ints m)) \<and> card (dom (ints m)) = k \<and> (\<forall>p \<in> dom (ints m). p < brk m)"

definition added_of :: "nat \<Rightarrow> mpc \<Rightarrow> nat" where
  "added_of K c = (case c of M_begin \<Rightarrow> 0 | M_create _ _ \<Rightarrow> 0 | M_add _ k \<Rightarrow> k | _ \<Rightarrow> K)"

definition runs :: "nat \<Rightarrow> nat \<Rightarrow> system \<Rightarrow> pool \<Rightarrow> bool" where
  "runs N K s a \<longleftrightarrow> pool_reach N K a \<and> sys_rel N s a \<and> log_rel (mach s) a \<and> ints_rel (mach s) (added_of K (mpc s))"

lemma log_rel_calm: "log_rel m a \<Longrightarrow> calm m m' \<Longrightarrow> did a' = did a \<Longrightarrow> log_rel m' a'"
  by (simp add: log_rel_def calm_def task_line_def [abs_def])

lemma ints_rel_calm: "ints_rel m k \<Longrightarrow> calm m m' \<Longrightarrow> ints_rel m' k"
  unfolding ints_rel_def calm_def by (metis less_le_trans)

lemma ints_rel_add: "ints_rel m k \<Longrightarrow> ints m' = (ints m)(brk m \<mapsto> v) \<Longrightarrow> brk m < brk m' \<Longrightarrow> ints_rel m' (Suc k)"
proof -
  assume i: "ints_rel m k" and e: "ints m' = (ints m)(brk m \<mapsto> v)" "brk m < brk m'"
  then have "brk m \<notin> dom (ints m)" by (auto simp: ints_rel_def)
  moreover have "\<forall>p \<in> dom (ints m'). p < brk m'" using i e unfolding ints_rel_def
    by (metis dom_fun_upd insertE less_trans option.distinct(1))
  ultimately show ?thesis using i e by (simp add: ints_rel_def)
qed

lemma main_step_calm:
  assumes "main_step N K c m = (r, m')" "\<And>p k. c = M_add p k \<Longrightarrow> K \<le> k"
  shows "calm m m'"
proof -
  have "keeps (main_step N K c)"
    using assms(2) unfolding main_step_def by (cases c) (auto intro!: keeps_intros keeps_pool)
  from keepsD [OF this assms(1)] show ?thesis .
qed

lemma main_add_ints:
  assumes run: "main_step N K (M_add p k) m = (Return c', m')" and k: "k < K" and b: "0 < brk m"
  shows "c' = M_add p (Suc k)" "ints m' = (ints m)(brk m \<mapsto> int k)" "brk m < brk m'"
    "taskfile m' = taskfile m" "clock m' = clock m" "fopen_ok m' = fopen_ok m"
proof -
  have av: "0 < avail m" using run k by (cases "avail m") (simp_all add: main_step_def prog_simps)
  let ?m = "m\<lparr>brk := Suc (brk m), avail := avail m - 1, ints := (ints m)(brk m \<mapsto> int k)\<rparr>"
  have e: "main_step N K (M_add p k) m = bnd (thread_pool_add 0 p Example_task (brk m)) (\<lambda>_. ret (M_add p (Suc k))) ?m"
    using av k b by (simp add: main_step_def prog_simps)
  obtain r m1 where r: "thread_pool_add 0 p Example_task (brk m) ?m = (r, m1)" by fastforce
  from keepsD [OF keeps_pool(3) r] have c: "calm ?m m1" .
  from e r run have "m' = m1" "c' = M_add p (Suc k)" by (cases r; simp add: prog_simps)+
  with c show "c' = M_add p (Suc k)" "ints m' = (ints m)(brk m \<mapsto> int k)" "brk m < brk m'"
    "taskfile m' = taskfile m" "clock m' = clock m" "fopen_ok m' = fopen_ok m" by (simp_all add: calm_def)
qed

lemma runs_main:
  assumes R: "runs N K s a" and N: "0 < N" and step: "main_step N K (mpc s) (mach s) = (Return c, m)"
  shows "\<exists>a'. runs N K (s\<lparr>mach := m, mpc := c\<rparr>) a' \<and> (mpc s = M_begin \<and> a' = a \<or> main_move N K a a') \<and> c \<noteq> M_begin \<and>
    (mem_left N K (mpc s) \<le> avail (mach s) \<longrightarrow> mem_left N K c \<le> avail m)"
proof -
  from R obtain g where h: "halted s = None" and g: "mach_rel N g (mach s) a" "pc_rel N g (mach s) (mpc s) (ph a)"
    and r: "pool_reach N K a" and l: "log_rel (mach s) a" and i: "ints_rel (mach s) (added_of K (mpc s))"
    by (auto simp: runs_def sys_rel_def)
  note inv = pool_reach_inv [OF r]
  from main_step_sim [OF g inv N] step obtain a' g' where
    a': "mpc s = M_begin \<and> a' = a \<or> main_move N K a a'" "c \<noteq> M_begin" "did a' = did a" "mach_rel N g' m a'" "pc_rel N g' m c (ph a')"
      "mem_left N K (mpc s) \<le> avail (mach s) \<longrightarrow> mem_left N K c \<le> avail m"
    by (auto simp: main_out_def main_sim_def)
  have r': "pool_reach N K a'"
    using a'(1) r by (auto intro: pool_reach.step pool_step_spurious.proper pool_step.by_main)
  have "log_rel m a' \<and> ints_rel m (added_of K c)"
  proof (cases "\<exists>p k. mpc s = M_add p k \<and> k < K")
    case True
    then obtain p k where pk: "mpc s = M_add p k" "k < K" by blast
    from g(1) have b: "0 < brk (mach s)" by (simp add: mach_rel_def)
    note e = main_add_ints [OF step [unfolded pk(1)] pk(2) b]
    from e l a'(3) have "log_rel m a'" by (simp add: log_rel_def task_line_def [abs_def])
    moreover have "ints_rel m (added_of K c)" using ints_rel_add [OF i e(2,3)] e(1) pk by (simp add: added_of_def)
    ultimately show ?thesis ..
  next
    case False
    then have c: "calm (mach s) m" by (intro main_step_calm [OF step]) auto
    have "added_of K c = added_of K (mpc s)"
    proof (cases "mpc s")
      case (M_add p k)
      with False g(2) inv have "k = K" by (auto simp: pc_rel_def pool_inv_def phase_ok_def)
      with M_add step show ?thesis by (auto simp: main_step_def prog_simps added_of_def)
    qed (use step in \<open>auto simp: main_step_def bnd_Return_conv added_of_def prog_simps split: if_splits\<close>)
    with c l i a'(3) show ?thesis by (auto intro: log_rel_calm ints_rel_calm)
  qed
  with r' a' h show ?thesis by (intro exI [of _ a']) (auto simp: runs_def sys_rel_def)
qed

lemma runs_worker_log:
  assumes R: "mach_rel N g m a" and lv: "live N (ph a) i" and mv: "worker_move i a a'" and l: "log_rel m a"
    and step: "worker_func h (Suc i) m = (r, m')"
  shows "log_rel m' a'"
proof -
  from mach_rel_worker [OF R lv] obtain th where th: "threads m (Suc i) = Some th"
    by (auto simp: worker_rel_def thread_rel_def split: option.splits)
  show ?thesis
  proof (cases "\<exists>x. st a i = Running x")
    case False
    with mach_rel_worker [OF R lv] th have n: "run_req (pc th) = []"
      by (auto simp: worker_rel_def thread_rel_def run_req_def split: wpc.splits)
    from mv False have "did a' = did a" by cases auto
    with log_rel_calm [OF l keeps_worker [OF th n step]] show ?thesis by simp
  next
    case True
    then obtain x where x: "st a i = Running x" by blast
    with mach_rel_worker [OF R lv] th obtain lid n rq where c: "pc th = W_run lid n rq" "task_req m rq x"
      by (auto simp: worker_rel_def thread_rel_def split: wpc.splits)
    from c(2) obtain q where q: "rq \<noteq> NULL" "reqs m rq = Some q" "work_fn q = Example_task" "arg q \<noteq> NULL" "ints m (arg q) = Some (int x)"
      by (auto simp: task_req_def split: option.splits)
    from example_task_run [OF q(4,5), of "Suc i"] obtain m1 where m1: "example_task (Suc i) (arg q) m = (Return (), m1)" "quiet m m1" by blast
    from q step m1(1) th c quietD [OF m1(2)] have e: "taskfile m' = taskfile m1" "clock m' = clock m1" "fopen_ok m' = fopen_ok m1"
      unfolding worker_func_def call_work_def by (auto simp: prog_simps)
    have o: "fopen_ok m" using l by (simp add: log_rel_def)
    from example_task_log [OF q(4,5) o m1(1)] obtain rest where
      "taskfile m' = taskfile m @ task_line m (i, x) # rest" using e by (auto simp: task_line_def)
    moreover from mv x have "did a' = did a @ [(i, x)]" by cases auto
    moreover have "task_line m' = task_line m" using e quiet_file [OF m1(2)] by (simp add: task_line_def [abs_def])
    ultimately show ?thesis using l e quiet_file [OF m1(2)] by (auto simp: log_rel_def intro: list_emb_append_mono)
  qed
qed

lemma runs_worker:
  assumes R: "runs N K s a" and t: "threads (mach s) t \<noteq> None" and step: "worker_func h t (mach s) = (r, m)"
  shows "r = Blocks \<or> r = Return () \<and> (\<exists>a' i. i < N \<and> worker_move i a a' \<and> runs N K (s\<lparr>mach := m\<rparr>) a' \<and> avail m = avail (mach s))"
proof -
  from R obtain g where h: "halted s = None" and g: "mach_rel N g (mach s) a" "pc_rel N g (mach s) (mpc s) (ph a)"
    and r: "pool_reach N K a" and l: "log_rel (mach s) a" and i: "ints_rel (mach s) (added_of K (mpc s))"
    by (auto simp: runs_def sys_rel_def)
  from t g(1) have "0 < t \<and> t \<le> n_created N (ph a)" unfolding mach_rel_def by blast
  then obtain w where w: "t = Suc w" "w < n_created N (ph a)" by (cases t) auto
  have wN: "w < N" using w(2) pool_reach_inv [OF r] by (simp add: pool_inv_def phase_ok_def)
  from worker_func_sim [OF g(1) w(2), of h] step w(1) consider "r = Blocks" | "r = Return ()" "live N (ph a) w" "worker_sim N g (mach s) a w m"
    by auto
  then show ?thesis
  proof cases
    case 2
    then obtain a' g' where a': "worker_move w a a'" "ph a' = ph a" "mach_rel N g' m a'" "kept g (mach s) g' m"
      by (auto simp: worker_sim_def)
    have r': "pool_reach N K a'" using r a'(1) wN by (auto intro: pool_reach.step pool_step_spurious.proper pool_step.by_worker)
    have k: "ints_rel m (added_of K (mpc s))" "avail m = avail (mach s)" using i a'(4) by (auto simp: ints_rel_def kept_def)
    have "log_rel m a'" using runs_worker_log [OF g(1) 2(2) a'(1) l step [unfolded w(1)]] .
    with k r' h a' pc_rel_kept [OF g(2) a'(4)] have "runs N K (s\<lparr>mach := m\<rparr>) a'" by (auto simp: runs_def sys_rel_def)
    with 2 wN a'(1) k show ?thesis by blast
  qed blast
qed

lemma runs_spurious:
  assumes R: "runs N K s a" and c: "conds (mach s) c = Some ws" "t \<in> set ws"
  shows "\<exists>a'. pool_step_spurious N K a a' \<and> runs N K (s\<lparr>mach := spurious_wake t c (mach s)\<rparr>) a' \<and>
    avail (spurious_wake t c (mach s)) = avail (mach s)"
proof -
  from R obtain g where h: "halted s = None" and g: "mach_rel N g (mach s) a" "pc_rel N g (mach s) (mpc s) (ph a)"
    and r: "pool_reach N K a" and l: "log_rel (mach s) a" and i: "ints_rel (mach s) (added_of K (mpc s))"
    by (auto simp: runs_def sys_rel_def)
  from spurious_sim [OF g(1) c] obtain w where w: "live N (ph a) w" "st a w = Sleeping"
    "mach_rel N g (spurious_wake t c (mach s)) (a\<lparr>st := (st a)(w := Woken)\<rparr>)" "kept g (mach s) g (spurious_wake t c (mach s))" by blast
  have "w < N" using w(1) pool_reach_inv [OF r] by (simp add: live_def pool_inv_def phase_ok_def)
  with w have p: "pool_step_spurious N K a (a\<lparr>st := (st a)(w := Woken)\<rparr>)" by (intro pool_step_spurious.spurious)
  have "log_rel (spurious_wake t c (mach s)) (a\<lparr>st := (st a)(w := Woken)\<rparr>)" "ints_rel (spurious_wake t c (mach s)) (added_of K (mpc s))"
    using l i by (simp_all add: log_rel_def ints_rel_def spurious_wake_def task_line_def [abs_def])
  with w pc_rel_kept [OF g(2) w(4)] h pool_reach.step [OF r p] p show ?thesis
    by (intro exI [of _ "a\<lparr>st := (st a)(w := Woken)\<rparr>"]) (auto simp: runs_def sys_rel_def spurious_wake_def)
qed

section \<open>Every reachable state\<close>

definition pool_need :: "nat \<Rightarrow> nat \<Rightarrow> nat" where
  "pool_need N K = 2 + 4 * N + 3 * K"

definition proc_ok :: "nat \<Rightarrow> nat \<Rightarrow> nat \<Rightarrow> system \<Rightarrow> bool" where
  "proc_ok N K mem s \<longleftrightarrow> (case halted s of
      None \<Rightarrow> \<exists>a. runs N K s a \<and> (pool_need N K \<le> mem \<longrightarrow> mem_left N K (mpc s) \<le> avail (mach s))
    | Some e \<Rightarrow> e = Exited EXIT_FAILURE \<and> mem < pool_need N K \<or>
        e = Exited EXIT_SUCCESS \<and> (\<exists>a. ph a = Finished \<and> runs N K (s\<lparr>halted := None\<rparr>) a))"

lemma runs_init: "runs N K (sys_init mem rs) pool_init"
proof -
  have "mach_rel N g (boot mem rs) pool_init" for g
    by (auto simp: mach_rel_def boot_def pool_init_def live_def)
  then have "sys_rel N (sys_init mem rs) pool_init"
    by (simp add: sys_rel_def sys_init_def pc_rel_def) (simp add: pool_init_def)
  then show ?thesis
    by (simp add: runs_def pool_reach.init log_rel_def ints_rel_def) (simp add: sys_init_def boot_def pool_init_def added_of_def)
qed

lemma proc_ok_init: "proc_ok N K mem (sys_init mem rs)"
  using runs_init [of N K mem rs] by (auto simp: proc_ok_def sys_init_def pool_need_def mem_left_def boot_def)

text \<open>A move of a running process: the process runs on in a related state, or it exits.\<close>

lemma runs_move:
  assumes R: "runs N K s a" and N: "0 < N" and mv: "sys_move h N K s s'"
  shows "(\<exists>a'. runs N K s' a' \<and> (mpc s = M_begin \<and> mpc s' \<noteq> M_begin \<and> a' = a \<or> pool_step N K a a' \<and> (mpc s' = M_begin \<longrightarrow> mpc s = M_begin)) \<and>
      (mem_left N K (mpc s) \<le> avail (mach s) \<longrightarrow> mem_left N K (mpc s') \<le> avail (mach s'))) \<or>
    halted s' = Some (Exited EXIT_FAILURE) \<and> avail (mach s) < mem_left N K (mpc s) \<or>
    halted s' = Some (Exited EXIT_SUCCESS) \<and> ph a = Finished \<and> s'\<lparr>halted := None\<rparr> = s"
  using mv
proof cases
  case (main_ok c m)
  from runs_main [OF R N main_ok(3)] show ?thesis unfolding main_ok(1) by (auto intro: pool_step.by_main)
next
  case (main_exit n m)
  from R obtain g where "mach_rel N g (mach s) a" "pc_rel N g (mach s) (mpc s) (ph a)" "pool_inv N K a"
    by (auto simp: runs_def sys_rel_def dest: pool_reach_inv)
  from main_step_sim [OF this N] main_exit show ?thesis by (auto simp: main_out_def)
next
  case (main_fault e m)
  from R obtain g where "mach_rel N g (mach s) a" "pc_rel N g (mach s) (mpc s) (ph a)" "pool_inv N K a"
    by (auto simp: runs_def sys_rel_def dest: pool_reach_inv)
  from main_step_sim [OF this N] main_fault show ?thesis by (auto simp: main_out_def)
next
  case (worker_ok t m)
  from runs_worker [OF R worker_ok(3,4)] show ?thesis unfolding worker_ok(1) by (auto intro: pool_step.by_worker)
next
  case (worker_exit t n m)
  from runs_worker [OF R worker_exit(3,4)] show ?thesis by simp
next
  case (worker_fault t e m)
  from runs_worker [OF R worker_fault(3,4)] show ?thesis by simp
qed

lemma sys_step_running: "sys_step h N K s s' \<Longrightarrow> halted s = None"
  by (auto elim!: sys_step.cases sys_move.cases)

lemma proc_ok_step:
  assumes ok: "proc_ok N K mem s" and N: "0 < N" and step: "sys_step h N K s s'"
  shows "proc_ok N K mem s'"
proof -
  from sys_step_running [OF step] ok obtain a where R: "runs N K s a" and
    mm: "pool_need N K \<le> mem \<longrightarrow> mem_left N K (mpc s) \<le> avail (mach s)" by (auto simp: proc_ok_def)
  have hr: "runs N K u b \<Longrightarrow> halted u = None" for u b by (simp add: runs_def sys_rel_def)
  from step show ?thesis
  proof cases
    case move
    from runs_move [OF R N move] mm R show ?thesis by (auto simp: proc_ok_def hr)
  next
    case (spurious c ws t)
    from runs_spurious [OF R spurious(3,4)] mm spurious(1,2) show ?thesis by (auto simp: proc_ok_def)
  qed
qed

lemma proc_ok_reach: "sys_reach h N K (sys_init mem rs) s \<Longrightarrow> 0 < N \<Longrightarrow> proc_ok N K mem s"
  by (induction rule: sys_reach.induct) (auto intro: proc_ok_init proc_ok_step)

lemma reach_runs:
  assumes "sys_reach h N K (sys_init mem rs) s" "0 < N" "halted s = None"
  obtains a g where "runs N K s a" "mach_rel N g (mach s) a" "pc_rel N g (mach s) (mpc s) (ph a)" "pool_inv N K a"
    "pool_need N K \<le> mem \<longrightarrow> mem_left N K (mpc s) \<le> avail (mach s)"
  using proc_ok_reach [OF assms(1,2)] assms(3)
  by (auto simp: proc_ok_def runs_def sys_rel_def dest: pool_reach_inv)

section \<open>Progress and termination\<close>

lemma joining_worker_moves:
  assumes inv: "pool_inv N K a" and R: "mach_rel N g m a" and p: "ph a = Joining i" "i < N" and q: "st a i \<noteq> Quit"
  shows "\<exists>m'. worker_func h (Suc i) m = (Return (), m')"
proof -
  have lv: "live N (ph a) i" using p by (simp add: live_def)
  have "st a i \<noteq> Sleeping" using pool_inv_winv [OF inv, of i] p by (auto simp: winv_def)
  with worker_func_sim [OF R, of i h] lv q show ?thesis by (auto simp: live_def)
qed

lemma runs_progress:
  assumes R: "runs N K s a" and N: "0 < N" and mem: "mem_left N K (mpc s) \<le> avail (mach s)"
  shows "\<exists>s'. sys_move h N K s s'"
proof -
  from R obtain g where h: "halted s = None" and g: "mach_rel N g (mach s) a" "pc_rel N g (mach s) (mpc s) (ph a)"
    and inv: "pool_inv N K a" by (auto simp: runs_def sys_rel_def dest: pool_reach_inv)
  from main_step_sim [OF g inv N] mem consider
      c m where "main_step N K (mpc s) (mach s) = (Return c, m)"
    | i where "ph a = Joining i" "i < N" "st a i \<noteq> Quit"
    | "main_step N K (mpc s) (mach s) = (Exited EXIT_SUCCESS, mach s)"
    unfolding main_out_def by auto
  then show ?thesis
  proof cases
    case 2
    from joining_worker_moves [OF inv g(1) 2] obtain m' where m': "worker_func h (Suc i) (mach s) = (Return (), m')" by blast
    have "threads (mach s) (Suc i) \<noteq> None" using g(1) 2 by (auto simp: mach_rel_def)
    from sys_move.worker_ok [OF h this m'] show ?thesis by blast
  qed (use h in \<open>blast intro: sys_move.main_ok sys_move.main_exit\<close>)+
qed

definition steps_left :: "nat \<Rightarrow> nat \<Rightarrow> system \<Rightarrow> pool \<Rightarrow> nat" where
  "steps_left N K s a = 2 * pool_measure N K a + (if mpc s = M_begin then 1 else 0)"

lemma runs_move_decreases:
  assumes "runs N K s a" "0 < N" "sys_move h N K s s'" "halted s' = None"
  shows "\<exists>a'. runs N K s' a' \<and> steps_left N K s' a' < steps_left N K s a \<and>
    (mem_left N K (mpc s) \<le> avail (mach s) \<longrightarrow> mem_left N K (mpc s') \<le> avail (mach s'))"
proof -
  from runs_move [OF assms(1-3)] assms(4) obtain a' where a': "runs N K s' a'"
    "mpc s = M_begin \<and> mpc s' \<noteq> M_begin \<and> a' = a \<or> pool_step N K a a' \<and> (mpc s' = M_begin \<longrightarrow> mpc s = M_begin)"
    "mem_left N K (mpc s) \<le> avail (mach s) \<longrightarrow> mem_left N K (mpc s') \<le> avail (mach s')" by auto
  from a'(2) have "steps_left N K s' a' < steps_left N K s a"
    using pool_step_measure [of N K a a'] by (elim disjE) (auto simp: steps_left_def)
  with a' show ?thesis by blast
qed

lemma moves_bounded:
  assumes "(sys_move h N K ^^ n) s s'" "runs N K s a" "0 < N"
  shows "n \<le> Suc (steps_left N K s a)"
  using assms
proof (induction n arbitrary: s a)
  case (Suc n)
  from Suc.prems(1) obtain s1 where s1: "sys_move h N K s s1" "(sys_move h N K ^^ n) s1 s'" by (meson relpowp_Suc_D2)
  show ?case
  proof (cases "halted s1")
    case None
    from runs_move_decreases [OF Suc.prems(2,3) s1(1) None] obtain a1 where
      a1: "runs N K s1 a1" "steps_left N K s1 a1 < steps_left N K s a" by blast
    from Suc.IH [OF s1(2) a1(1) Suc.prems(3)] a1(2) show ?thesis by simp
  next
    case (Some e)
    then have "\<not> sys_move h N K s1 u" for u by (auto elim!: sys_move.cases)
    with s1(2) have "n = 0" by (metis not0_implies_Suc relpowp_Suc_D2)
    then show ?thesis by simp
  qed
qed simp

lemma runs_exits:
  assumes "runs N K s a" "0 < N" "mem_left N K (mpc s) \<le> avail (mach s)"
  shows "\<exists>s'. (sys_move h N K)\<^sup>*\<^sup>* s s' \<and> halted s' = Some (Exited EXIT_SUCCESS)"
  using assms
proof (induction "steps_left N K s a" arbitrary: s a rule: less_induct)
  case less
  from runs_progress [OF less.prems] obtain s1 where s1: "sys_move h N K s s1" by blast
  show ?case
  proof (cases "halted s1")
    case None
    from runs_move_decreases [OF less.prems(1,2) s1 None] less.prems(3) obtain a1 where
      a1: "runs N K s1 a1" "steps_left N K s1 a1 < steps_left N K s a" "mem_left N K (mpc s1) \<le> avail (mach s1)" by blast
    from less.hyps [OF a1(2,1) less.prems(2) a1(3)] s1 show ?thesis by (meson converse_rtranclp_into_rtranclp)
  next
    case (Some e)
    with runs_move [OF less.prems(1,2) s1] less.prems(3) have "halted s1 = Some (Exited EXIT_SUCCESS)"
      by (auto simp: runs_def sys_rel_def)
    with s1 show ?thesis by blast
  qed
qed

lemma reach_moves: "(sys_move h N K)\<^sup>*\<^sup>* s s' \<Longrightarrow> sys_reach h N K s0 s \<Longrightarrow> sys_reach h N K s0 s'"
  by (induction rule: rtranclp_induct) (auto intro: sys_reach.step sys_step.move)

lemma pool_measure_init: "pool_measure N K pool_init = 10 * (3 * N + K + 4)"
  by (simp add: pool_measure_def pool_init_def wweight_def)

lemma sent_sorted: "pool_inv N K a \<Longrightarrow> sorted (of_worker i (sent a))"
proof -
  assume "pool_inv N K a"
  then have "sorted (map snd (sent a))" by (simp add: pool_inv_def)
  then show ?thesis unfolding of_worker_def by (rule sorted_filter)
qed

section \<open>Properties\<close>



text \<open>
  C5. No wake-up is lost: in every reachable state, a worker that sleeps on the condition variable
  of its queue has an empty queue that is still open. So a request that was enqueued, or a close,
  never leaves its worker asleep.
\<close>

theorem pool_no_lost_wakeup:
  assumes "sys_reach h N K (sys_init mem rs) s" and "0 < N" and "halted s = None"
    and "threads (mach s) t = Some th" and "wthreads (mach s) (warg th) = Some wk" and "asleep (mach s) t (request_queue wk)"
  shows "\<exists>q. queues (mach s) (request_queue wk) = Some q \<and> front q = NULL \<and> \<not> closed q"
proof -
  from reach_runs [OF assms(1-3)] obtain a g where R: "mach_rel N g (mach s) a" and inv: "pool_inv N K a" by metis
  from assms(6) obtain q ws where q: "queues (mach s) (request_queue wk) = Some q" "conds (mach s) (cond q) = Some ws" "t \<in> set ws"
    by (auto simp: asleep_def split: option.splits)
  from mach_rel_waiter [OF R q(2)] q(3) obtain i where i: "live N (ph a) i" "cond q = wi_c (g i)" by fastforce
  note w = mach_rel_worker [OF R i(1)]
  from w q i have t: "t = Suc i" "st a i = Sleeping" by (auto simp: worker_rel_def thread_rel_def split: option.splits if_splits)
  from pool_inv_winv [OF inv, of i] t have e: "que a i = []" "\<not> shutq a i" by (auto simp: winv_def)
  from w t assms(4,5) have "request_queue wk = wi_q (g i)" by (auto simp: worker_rel_def thread_rel_def)
  with w q(1) have ok: "queue_ok (mach s) (request_queue wk) (wi_as (g i))" "closed q = shutq a i"
    "wi_as (g i) = []" using e(1) by (auto simp: worker_rel_def contents_def)
  with q(1) e(2) show ?thesis by (auto elim!: queue_okE)
qed

text \<open>A run of one worker: main allocates the pool and creates the worker, which starts and falls asleep.\<close>

definition one_sleeper :: system where
  "one_sleeper = sys_sched (\<lambda>_. ret ()) 1 0 [None, None, Some 1, Some 1] (sys_init 6 (\<lambda>_. 0))"

theorem pool_no_lost_wakeup_witness:
  "\<exists>q. queues (mach one_sleeper) 7 = Some q \<and> front q = NULL \<and> \<not> closed q"
proof -
  have r: "sys_reach (\<lambda>_. ret ()) 1 0 (sys_init 6 (\<lambda>_. 0)) one_sleeper"
    unfolding one_sleeper_def by (rule sys_sched_reach)
  have "halted one_sleeper = None" "threads (mach one_sleeper) 1 = Some \<lparr>pc = W_wait 1 0, warg = 4\<rparr>"
    "wthreads (mach one_sleeper) 4 = Some \<lparr>thread_id = 1, request_queue = 7\<rparr>" "asleep (mach one_sleeper) 1 7"
    by code_simp+
  with pool_no_lost_wakeup [OF r _ this(1,2)] show ?thesis by simp
qed


text \<open>
  C7. No deadlock: with at least one worker and enough memory, whenever the process has not
  exited, some thread can take a step (a proper one, not a spurious wake-up).
\<close>

theorem pool_deadlock_free:
  assumes "sys_reach h N K (sys_init mem rs) s" and "0 < N" and "pool_need N K \<le> mem" and "halted s = None"
  shows "\<exists>s'. sys_move h N K s s'"
proof -
  from reach_runs [OF assms(1,2,4)] obtain a where "runs N K s a" "mem_left N K (mpc s) \<le> avail (mach s)"
    using assms(3) by metis
  from runs_progress [OF this(1) assms(2) this(2)] show ?thesis .
qed

theorem pool_deadlock_free_witness: "\<exists>s'. sys_move (\<lambda>_. ret ()) NUM_THREADS NUM_TASKS (sys_init 48 (\<lambda>_. 0)) s'"
  by (rule pool_deadlock_free [where mem = 48 and rs = "\<lambda>_. 0"])
     (simp_all add: sys_reach.start NUM_THREADS_def NUM_TASKS_def pool_need_def sys_init_def)





text \<open>A state in which the process of \<^verbatim>\<open>main.c\<close> has ended normally.\<close>

lemma some_exit:
  "\<exists>s. sys_reach (\<lambda>_. ret ()) NUM_THREADS NUM_TASKS (sys_init 48 (\<lambda>_. 0)) s \<and> halted s = Some (Exited EXIT_SUCCESS)"
proof -
  have "\<exists>s. (sys_move (\<lambda>_. ret ()) NUM_THREADS NUM_TASKS)\<^sup>*\<^sup>* (sys_init 48 (\<lambda>_. 0)) s \<and> halted s = Some (Exited EXIT_SUCCESS)"
    by (rule runs_exits [OF runs_init]) (simp_all add: NUM_THREADS_def NUM_TASKS_def mem_left_def sys_init_def boot_def)
  then show ?thesis using reach_moves sys_reach.start by metis
qed


text \<open>
  C10. The arguments are leaked: \<^verbatim>\<open>main\<close> allocates one \<^verbatim>\<open>int\<close> per task and nothing ever frees it; when
  the process exits, exactly K of them are still allocated. (A comment in \<^verbatim>\<open>main.c\<close> says the task
  frees its argument; \<^verbatim>\<open>example_task\<close> of \<^verbatim>\<open>tasks.c\<close>, the one that runs, does not.)
\<close>

theorem pool_leaks_arguments:
  assumes "sys_reach h N K (sys_init mem rs) s" and "0 < N" and "halted s = Some (Exited EXIT_SUCCESS)"
  shows "card (dom (ints (mach s))) = K"
proof -
  from proc_ok_reach [OF assms(1,2)] assms(3) obtain a where f: "ph a = Finished" and R: "runs N K (s\<lparr>halted := None\<rparr>) a"
    by (auto simp: proc_ok_def)
  from R f have "mpc s = M_exit" by (cases "mpc s") (auto simp: runs_def sys_rel_def pc_rel_def)
  with R show ?thesis by (simp add: runs_def ints_rel_def added_of_def)
qed

theorem pool_leaks_arguments_witness:
  "\<exists>s. sys_reach (\<lambda>_. ret ()) NUM_THREADS NUM_TASKS (sys_init 48 (\<lambda>_. 0)) s \<and> card (dom (ints (mach s))) = NUM_TASKS"
proof -
  obtain s where s: "sys_reach (\<lambda>_. ret ()) NUM_THREADS NUM_TASKS (sys_init 48 (\<lambda>_. 0)) s" "halted s = Some (Exited EXIT_SUCCESS)"
    using some_exit by blast
  from pool_leaks_arguments [OF s(1) _ s(2)] s show ?thesis by (auto simp: NUM_THREADS_def)
qed

end
