(* ===== verification/M9_Queue.thy ===== *)
theory M9_Queue
  imports Request_Queue
begin

text \<open>
  The request queue of the earlier milestone, \<^verbatim>\<open>src/M9/queue.c\<close>: no close flag and no size, the
  mutex and the condition variable lie inside the struct (their address is the queue's), and the
  results of the pthread calls are not looked at. It refines the same specification as the later
  queue, for the two calls it has.
\<close>

section \<open>The operations\<close>

definition m9_queue_create :: "addr prog" where
  "m9_queue_create =
     bnd (malloc queues_update \<lparr>front = NULL, rear = NULL, mutex = NULL, cond = NULL, closed = False, qsize = 0\<rparr>) (\<lambda>q.
     if q = NULL then perror_exit ''queue_create: malloc''
     else
       sq (store queues queues_update q (\<lambda>r. r\<lparr>front := NULL, rear := NULL\<rparr>))
       (sq (modify (\<lambda>m. m\<lparr>mutexes := (mutexes m)(q \<mapsto> None)\<rparr>))
       (sq (modify (\<lambda>m. m\<lparr>conds := (conds m)(q \<mapsto> [])\<rparr>))
       (ret q))))"

definition m9_queue_destroy :: "addr \<Rightarrow> unit prog" where
  "m9_queue_destroy q =
     sq (modify (\<lambda>m. m\<lparr>mutexes := (mutexes m)(q := None)\<rparr>))
     (sq (modify (\<lambda>m. m\<lparr>conds := (conds m)(q := None)\<rparr>))
     (free queues queues_update q))"

definition m9_queue_enqueue :: "tid \<Rightarrow> addr \<Rightarrow> addr \<Rightarrow> unit prog" where
  "m9_queue_enqueue t q req =
     bnd (malloc nodes_update \<lparr>n_data = NULL, n_next = NULL\<rparr>) (\<lambda>node.
     if node = NULL then perror_exit ''queue_enqueue: malloc''
     else
       sq (store nodes nodes_update node (\<lambda>r. r\<lparr>n_data := req\<rparr>))
       (sq (store nodes nodes_update node (\<lambda>r. r\<lparr>n_next := NULL\<rparr>))
       (sq (pthread_mutex_lock t q)
       (bnd (deref queues q) (\<lambda>s.
       sq (if rear s \<noteq> NULL
           then store nodes nodes_update (rear s) (\<lambda>r. r\<lparr>n_next := node\<rparr>)
           else store queues queues_update q (\<lambda>r. r\<lparr>front := node\<rparr>))
       (sq (store queues queues_update q (\<lambda>r. r\<lparr>rear := node\<rparr>))
       (sq (pthread_cond_signal q)
       (sq (pthread_mutex_unlock t q)
       (ret ())))))))))"

text \<open>One pass of \<^verbatim>\<open>queue_dequeue\<close>; it \<open>Blocks\<close> where \<^verbatim>\<open>pthread_cond_wait\<close> sleeps.\<close>

definition m9_queue_dequeue :: "tid \<Rightarrow> addr \<Rightarrow> addr prog" where
  "m9_queue_dequeue t q =
     sq (pthread_mutex_lock t q)
     (bnd (deref queues q) (\<lambda>s.
      if front s = NULL then pthread_cond_wait t q q
      else
        bnd (deref nodes (front s)) (\<lambda>node.
        sq (store queues queues_update q (\<lambda>r. r\<lparr>front := n_next node\<rparr>))
        (bnd (deref queues q) (\<lambda>s1.
        sq (if front s1 = NULL then store queues queues_update q (\<lambda>r. r\<lparr>rear := NULL\<rparr>) else ret ())
        (sq (pthread_mutex_unlock t q)
        (bnd (deref nodes (front s)) (\<lambda>node'.
        sq (free nodes nodes_update (front s))
        (ret (n_data node'))))))))))"

section \<open>The list it represents\<close>

definition m9_ok :: "machine \<Rightarrow> addr \<Rightarrow> addr list \<Rightarrow> bool" where
  "m9_ok m q as \<longleftrightarrow> q \<noteq> NULL \<and> 0 < brk m \<and> mutexes m q = Some None \<and> conds m q \<noteq> None \<and>
     (\<forall>a \<in> set as. a < brk m) \<and> distinct as \<and>
     (case queues m q of None \<Rightarrow> False
      | Some s \<Rightarrow> chain (nodes m) (front s) as \<and> rear s = (if as = [] then NULL else last as))"

lemma m9_okE:
  assumes "m9_ok m q as"
  obtains s where "queues m q = Some s" "chain (nodes m) (front s) as" "distinct as"
    "rear s = (if as = [] then NULL else last as)" "q \<noteq> NULL" "0 < brk m" "\<forall>a \<in> set as. a < brk m"
    "mutexes m q = Some None" "conds m q \<noteq> None"
  using assms by (auto simp: m9_ok_def split: option.splits)

lemma m9_ok_last:
  assumes "m9_ok m q as" and "as \<noteq> []"
  shows "\<exists>n. nodes m (last as) = Some n" and "last as < brk m" and "last as \<noteq> NULL"
proof -
  have "last as \<in> set as" using assms(2) by simp
  with assms(1) show "\<exists>n. nodes m (last as) = Some n" and "last as < brk m" and "last as \<noteq> NULL"
    by (auto elim!: m9_okE dest: chain_in_dom [where a = "last as"])
qed

lemmas m9_lock_defs = pthread_mutex_lock_def pthread_mutex_unlock_def

lemma m9_enqueue_run:
  assumes ok: "m9_ok m q as" and q: "queues m q = Some s" and av: "0 < avail m"
  shows "m9_queue_enqueue t q req m = (Return (), m\<lparr>
     nodes := (if as = [] then (nodes m)(brk m \<mapsto> \<lparr>n_data = req, n_next = NULL\<rparr>)
               else (nodes m)(brk m \<mapsto> \<lparr>n_data = req, n_next = NULL\<rparr>,
                              last as \<mapsto> (the (nodes m (last as)))\<lparr>n_next := brk m\<rparr>)),
     queues := (queues m)(q \<mapsto> s\<lparr>front := (if as = [] then brk m else front s), rear := brk m\<rparr>),
     conds := (conds m)(q := map_option tl (conds m q)),
     brk := Suc (brk m), avail := avail m - 1\<rparr>)"
proof (cases "as = []")
  case True
  with ok q av show ?thesis unfolding m9_queue_enqueue_def
    by (auto elim!: m9_okE simp: prog_simps m9_lock_defs fun_upd_idem intro!: machine.equality)
next
  case False
  with ok m9_ok_last [OF ok False] q av show ?thesis unfolding m9_queue_enqueue_def
    by (auto elim!: m9_okE simp: prog_simps m9_lock_defs fun_upd_idem intro!: machine.equality)
qed

lemma m9_dequeue_item_run:
  assumes ok: "m9_ok m q (a # as)" and q: "queues m q = Some s" and n: "nodes m a = Some n"
  shows "m9_queue_dequeue t q m = (Return (n_data n), m\<lparr>nodes := (nodes m)(a := None),
     queues := (queues m)(q \<mapsto> s\<lparr>front := n_next n, rear := (if as = [] then NULL else rear s)\<rparr>)\<rparr>)"
proof -
  from ok q n have c: "front s = a" "a \<noteq> NULL" "chain (nodes m) (n_next n) as" "q \<noteq> NULL" "mutexes m q = Some None"
    by (auto elim!: m9_okE split: option.splits)
  then have e: "n_next n = NULL \<longleftrightarrow> as = []" by (cases as) auto
  show ?thesis
  proof (cases "as = []")
    case True
    with c e q n show ?thesis unfolding m9_queue_dequeue_def
      by (auto simp: prog_simps m9_lock_defs fun_upd_idem intro!: machine.equality)
  next
    case False
    with c e q n show ?thesis unfolding m9_queue_dequeue_def
      by (auto simp: prog_simps m9_lock_defs fun_upd_idem intro!: machine.equality)
  qed
qed

lemma m9_dequeue_wait_run:
  assumes "m9_ok m q []"
  shows "m9_queue_dequeue t q m = (Blocks, m\<lparr>conds := (conds m)(q := map_option (\<lambda>ws. ws @ [t]) (conds m q))\<rparr>)"
  using assms unfolding m9_queue_dequeue_def
  by (auto elim!: m9_okE simp: prog_simps m9_lock_defs fun_upd_idem intro!: machine.equality)

lemma m9_enqueue_ok:
  assumes ok: "m9_ok m q as" and av: "0 < avail m" and run: "m9_queue_enqueue t q req m = (r, m')"
  shows "r = Return ()" and "m9_ok m' q (as @ [brk m])" and "contents m' (as @ [brk m]) = contents m as @ [req]"
    and "avail m' = avail m - 1"
proof -
  from ok obtain s where q: "queues m q = Some s" by (rule m9_okE)
  note e = m9_enqueue_run [OF ok q av, of t req]
  have fresh: "brk m \<notin> set as" "brk m \<noteq> NULL" using ok by (auto elim!: m9_okE)
  from e run show "r = Return ()" "avail m' = avail m - 1" by auto
  show "m9_ok m' q (as @ [brk m])"
  proof (cases "as = []")
    case True
    with e run ok q fresh show ?thesis by (auto elim!: m9_okE simp: m9_ok_def)
  next
    case False
    from m9_ok_last [OF ok False] obtain n where n: "nodes m (last as) = Some n" by auto
    from ok q have c: "chain (nodes m) (front s) as" "distinct as" by (auto elim!: m9_okE)
    from chain_append_last [OF c(1) False c(2) fresh n]
    have "chain (nodes m') (front s) (as @ [brk m])" using e run n False by auto
    with e run ok q fresh False show ?thesis by (auto elim!: m9_okE simp: m9_ok_def less_SucI)
  qed
  show "contents m' (as @ [brk m]) = contents m as @ [req]"
  proof (cases "as = []")
    case True
    with e run show ?thesis by (auto simp: contents_def)
  next
    case False
    with m9_ok_last [OF ok False] have "last as \<noteq> brk m" by simp
    with False e run m9_ok_last [OF ok False] fresh show ?thesis by (auto simp: contents_def)
  qed
qed

lemma m9_dequeue_item_ok:
  assumes ok: "m9_ok m q (a # as)" and run: "m9_queue_dequeue t q m = (r, m')"
  shows "r = Return (hd (contents m (a # as)))" and "m9_ok m' q as"
    and "contents m' as = tl (contents m (a # as))" and "avail m' = avail m"
proof -
  from ok obtain s n where q: "queues m q = Some s" and n: "nodes m a = Some n"
    by (auto elim!: m9_okE split: option.splits)
  note e = m9_dequeue_item_run [OF ok q n, of t]
  have d: "a \<notin> set as" using ok by (auto elim!: m9_okE)
  from e run n show "r = Return (hd (contents m (a # as)))" "avail m' = avail m" by (auto simp: contents_def)
  from d e run show "contents m' as = tl (contents m (a # as))" by (auto simp: contents_def)
  from ok q n have "chain (nodes m) (n_next n) as" "rear s = (if as = [] then a else last as)" by (auto elim!: m9_okE)
  with d e run ok q show "m9_ok m' q as" by (auto elim!: m9_okE simp: m9_ok_def)
qed

lemma m9_dequeue_wait_ok:
  assumes "m9_ok m q []" "m9_queue_dequeue t q m = (r, m')"
  shows "r = Blocks" "m9_ok m' q []" "avail m' = avail m"
  using m9_dequeue_wait_run [OF assms(1), of t] assms by (auto elim!: m9_okE simp: m9_ok_def split: option.splits)

section \<open>Refinement\<close>

text \<open>The calls of the interface this queue implements.\<close>

fun m9_call :: "tid \<Rightarrow> addr \<Rightarrow> machine \<Rightarrow> addr qop \<Rightarrow> addr qres \<times> machine" where
  "m9_call t q m (Enq x) = (case m9_queue_enqueue t q x m of
      (Return _, m') \<Rightarrow> (Done, m') | (_, m') \<Rightarrow> (Failed, m'))"
| "m9_call t q m Deq = (case m9_queue_dequeue t q m of
      (Return p, m') \<Rightarrow> (if p = NULL then No_item else Item p, m')
    | (Blocks, m') \<Rightarrow> (Must_wait, m') | (_, m') \<Rightarrow> (Failed, m'))"
| "m9_call t q m _ = (Failed, m)"

fun m9_legal :: "addr qop \<Rightarrow> bool" where
  "m9_legal (Enq x) \<longleftrightarrow> x \<noteq> NULL"
| "m9_legal Deq \<longleftrightarrow> True"
| "m9_legal _ \<longleftrightarrow> False"

definition m9_rel :: "addr \<Rightarrow> machine \<Rightarrow> addr fifo \<Rightarrow> bool" where
  "m9_rel q m a \<longleftrightarrow> (\<exists>as. m9_ok m q as \<and> items a = contents m as \<and> \<not> shut a \<and> NULL \<notin> set (items a))"

lemma m9_call_sim:
  assumes rel: "m9_rel q m a" and lg: "m9_legal x" "queue_cost x \<le> avail m" and run: "m9_call t q m x = (r, m')"
  shows "\<exists>a'. fifo_step a x = (r, a') \<and> m9_rel q m' a' \<and> avail m \<le> avail m' + queue_cost x"
proof -
  from rel obtain as where ok: "m9_ok m q as" and a: "items a = contents m as" "\<not> shut a" "NULL \<notin> set (items a)"
    by (auto simp: m9_rel_def)
  show ?thesis
  proof (cases x)
    case (Enq y)
    with lg have y: "y \<noteq> NULL" "0 < avail m" by auto
    obtain r0 m0 where e: "m9_queue_enqueue t q y m = (r0, m0)" by fastforce
    note p = m9_enqueue_ok [OF ok y(2) e]
    with run Enq e have "r = Done" "m' = m0" by auto
    with p a y Enq show ?thesis by (auto simp: m9_rel_def intro!: exI [of _ "as @ [brk m]"])
  next
    case Deq
    obtain r0 m0 where e: "m9_queue_dequeue t q m = (r0, m0)" by fastforce
    show ?thesis
    proof (cases as)
      case Nil
      with m9_dequeue_wait_ok [OF _ e] ok run Deq e a show ?thesis by (auto simp: m9_rel_def)
    next
      case (Cons b bs)
      note p = m9_dequeue_item_ok [OF ok [unfolded Cons] e]
      obtain d ds where d: "contents m (b # bs) = d # ds" by (simp add: contents_def)
      with p a Cons run Deq e show ?thesis by (auto simp: m9_rel_def intro!: exI [of _ bs])
    qed
  qed (use lg in auto)
qed

interpretation m9q: simulation "m9_call t q" fifo_step "m9_rel q" avail queue_cost m9_legal
  for t :: tid and q :: addr
  by unfold_locales (rule m9_call_sim)

section \<open>Properties\<close>

text \<open>
  C11. The M9 queue refines the FIFO specification: every sequence of enqueue and dequeue calls
  answers what the abstract queue answers (a dequeue on an empty queue waits), as long as no NULL
  is enqueued and malloc does not run dry.
\<close>

theorem m9_queue_refines_fifo:
  assumes "m9_rel q m a" and "list_all m9_legal xs"
    and "sum_list (map queue_cost xs) \<le> avail m" and "run_ops (m9_call t q) m xs = (rs, m')"
  shows "\<exists>a'. run_ops fifo_step a xs = (rs, a') \<and> m9_rel q m' a'"
  using assms by (rule m9q.run_sim)

definition m9_one :: machine where
  "m9_one = snd (m9_queue_create (boot 5 (\<lambda>_. 0)))"

lemma m9_one_rel: "m9_rel 2 m9_one empty_fifo"
  by (auto simp: m9_one_def m9_queue_create_def boot_def prog_simps m9_rel_def m9_ok_def empty_fifo_def
      intro!: exI [of _ "[]"])

theorem m9_queue_refines_fifo_witness:
  "\<exists>a'. run_ops fifo_step empty_fifo [Enq 7, Enq 8, Deq, Deq, Deq] =
     (fst (run_ops (m9_call 0 2) m9_one [Enq 7, Enq 8, Deq, Deq, Deq]), a')
   \<and> m9_rel 2 (snd (run_ops (m9_call 0 2) m9_one [Enq 7, Enq 8, Deq, Deq, Deq])) a'"
proof (rule m9_queue_refines_fifo)
  show "sum_list (map queue_cost [Enq 7, Enq 8, Deq, Deq, Deq]) \<le> avail m9_one"
    by (simp add: m9_one_def m9_queue_create_def boot_def prog_simps)
qed (simp_all add: m9_one_rel)

end
