(* ===== verification/M9_Pool.thy ===== *)
theory M9_Pool
  imports M9_Queue
begin

text \<open>
  The rest of the earlier milestone: \<^verbatim>\<open>src/M9/tasks.c\<close>, \<^verbatim>\<open>worker_thread.c\<close>, \<^verbatim>\<open>thread_pool.c\<close> and
  \<^verbatim>\<open>main.c\<close>. The state adds to the machine the objects these files allocate: message buffers,
  \<^verbatim>\<open>struct timespec\<close>s, requests, worker parameters, workers and pools, and the static counter
  \<^verbatim>\<open>msg_count\<close>; \<open>naps\<close> is what was handed to \<^verbatim>\<open>nanosleep\<close>. \<^verbatim>\<open>main.c\<close> calls \<^verbatim>\<open>queue_init\<close>,
  \<^verbatim>\<open>thread_pool_create\<close> and \<^verbatim>\<open>queue_close\<close>, which this directory only declares, if at all; they are
  arguments of \<open>m9_main\<close>.
\<close>

section \<open>State\<close>

record timespec =
  tv_sec :: int
  tv_nsec :: int

datatype m9_work = Write_log | Compute_sum | Delay_task

record m9_request =
  m9_fn :: m9_work
  m9_arg :: addr

record worker_thread_params =
  wp_thread_id :: int
  wp_que :: addr

record m9_worker =
  wk_thread_id :: int
  wk_thread :: tid

record m9_thread_pool =
  next_thread_id :: int
  m9_num_threads :: int
  m9_threads :: "addr list"

record m9 =
  base :: machine
  msgs :: "addr \<rightharpoonup> string"
  tss :: "addr \<rightharpoonup> timespec"
  m9reqs :: "addr \<rightharpoonup> m9_request"
  wparams :: "addr \<rightharpoonup> worker_thread_params"
  m9workers :: "addr \<rightharpoonup> m9_worker"
  m9pools :: "addr \<rightharpoonup> m9_thread_pool"
  msg_count :: int
  naps :: "timespec list"

type_synonym 'a m9prog = "(m9, 'a) cprog"

definition m9_boot :: "nat \<Rightarrow> (nat \<Rightarrow> nat) \<Rightarrow> m9" where
  "m9_boot mem rs = \<lparr>base = boot mem rs, msgs = Map.empty, tss = Map.empty, m9reqs = Map.empty,
     wparams = Map.empty, m9workers = Map.empty, m9pools = Map.empty, msg_count = 1, naps = []\<rparr>"

text \<open>A program of the machine, run on the machine inside the state.\<close>

definition lift :: "'a prog \<Rightarrow> 'a m9prog" where
  "lift p = (\<lambda>s. case p (base s) of (r, m) \<Rightarrow> (r, s\<lparr>base := m\<rparr>))"

definition m9_malloc :: "(((addr \<rightharpoonup> 'o) \<Rightarrow> (addr \<rightharpoonup> 'o)) \<Rightarrow> m9 \<Rightarrow> m9) \<Rightarrow> 'o \<Rightarrow> addr m9prog" where
  "m9_malloc upd x = (\<lambda>s.
     if avail (base s) = 0 then (Return NULL, s)
     else (Return (brk (base s)),
           upd (\<lambda>f. f(brk (base s) \<mapsto> x))
             (s\<lparr>base := (base s)\<lparr>brk := Suc (brk (base s)), avail := avail (base s) - 1\<rparr>\<rparr>)))"

text \<open>\<^verbatim>\<open>snprintf(buf, n, ...)\<close>: at most \<open>n - 1\<close> characters.\<close>

definition snprintf :: "nat \<Rightarrow> string \<Rightarrow> string" where
  "snprintf n s = take (n - 1) s"

section \<open>tasks.c\<close>

definition log_message :: "tid \<Rightarrow> string \<Rightarrow> unit m9prog" where
  "log_message t message = lift (
     sq (pthread_mutex_lock t thread_id_lock)
     (bnd (gets fopen_ok) (\<lambda>f.
      sq (if f then bnd (gets clock) (\<lambda>timebuf.
            modify (\<lambda>m. m\<lparr>taskfile := taskfile m @
              [''['' @ timebuf @ ''] [Thread '' @ show_nat t @ ''] '' @ message @ [nl]]\<rparr>))
          else ret ())
      (sq (pthread_mutex_unlock t thread_id_lock) (ret ())))))"

definition write_log :: "tid \<Rightarrow> addr \<Rightarrow> unit m9prog" where
  "write_log t a =
     bnd (deref msgs a) (\<lambda>msg.
     sq (log_message t msg)
     (free msgs msgs_update a))"

text \<open>\<^verbatim>\<open>for (int i = 0; i < n; i++) sum += i;\<close> with \<^verbatim>\<open>sum\<close> a 64-bit \<^verbatim>\<open>long\<close>.\<close>

fun sum_loop :: "nat \<Rightarrow> int \<Rightarrow> int \<Rightarrow> int" where
  "sum_loop 0 i acc = acc"
| "sum_loop (Suc k) i acc = sum_loop k (i + 1) (i64 (acc + i))"

definition compute_sum :: "tid \<Rightarrow> addr \<Rightarrow> unit m9prog" where
  "compute_sum t a =
     bnd (lift (deref ints a)) (\<lambda>n.
     let acc = sum_loop (nat n) 0 0;
         buf = snprintf 100 (''Sum of numbers < '' @ show_int n @ '' is '' @ show_int acc)
     in sq (log_message t buf)
        (lift (free ints ints_update a)))"

definition delay_task :: "tid \<Rightarrow> addr \<Rightarrow> unit m9prog" where
  "delay_task t a =
     bnd (deref tss a) (\<lambda>ts.
     sq (modify (\<lambda>s. s\<lparr>naps := naps s @ [ts]\<rparr>))
     (let buf = snprintf 100 (''Simulated delay of '' @ show_int (tv_sec ts) @ '' seconds and '' @
                  show_int (tv_nsec ts sdiv 1000000) @ '' milliseconds.'')
      in sq (log_message t buf)
         (free tss tss_update a)))"

definition m9_call_work :: "tid \<Rightarrow> m9_work \<Rightarrow> addr \<Rightarrow> unit m9prog" where
  "m9_call_work t w a = (case w of
      Write_log \<Rightarrow> write_log t a | Compute_sum \<Rightarrow> compute_sum t a | Delay_task \<Rightarrow> delay_task t a)"

section \<open>main.c\<close>

definition random_sleep_time_in_range :: "int \<Rightarrow> int \<Rightarrow> timespec m9prog" where
  "random_sleep_time_in_range min_ms max_ms =
     (let (lo, hi) = (if min_ms > max_ms \<or> min_ms < 0 then (0, 0) else (min_ms, max_ms)) in
      bnd (lift rand) (\<lambda>r.
      if i32 (hi - lo + 1) = 0 then fault DivByZero
      else let millis = i32 (lo + r smod i32 (hi - lo + 1)) in
           ret \<lparr>tv_sec = millis sdiv 1000, tv_nsec = (millis smod 1000) * 1000000\<rparr>))"

definition nap_random :: "unit m9prog" where
  "nap_random =
     bnd (random_sleep_time_in_range 50 500) (\<lambda>sleep_time.
     modify (\<lambda>s. s\<lparr>naps := naps s @ [sleep_time]\<rparr>))"

definition create_request :: "int \<Rightarrow> addr m9prog" where
  "create_request task_type =
     bnd (m9_malloc m9reqs_update \<lparr>m9_fn = Write_log, m9_arg = NULL\<rparr>) (\<lambda>r.
     if task_type = 0 then
       bnd (m9_malloc msgs_update []) (\<lambda>msg.
       bnd (gets msg_count) (\<lambda>c.
       sq (modify (\<lambda>s. s\<lparr>msg_count := i32 (c + 1)\<rparr>))
       (sq (store msgs msgs_update msg (\<lambda>_. snprintf 64 (''Log message '' @ show_int c)))
       (sq (store m9reqs m9reqs_update r (\<lambda>q. q\<lparr>m9_fn := Write_log\<rparr>))
       (sq (store m9reqs m9reqs_update r (\<lambda>q. q\<lparr>m9_arg := msg\<rparr>))
       (ret r))))))
     else if task_type = 1 then
       bnd (lift (malloc ints_update 0)) (\<lambda>val.
       bnd (lift rand) (\<lambda>x.
       sq (lift (store ints ints_update val (\<lambda>_. x smod 1000)))
       (sq (store m9reqs m9reqs_update r (\<lambda>q. q\<lparr>m9_fn := Compute_sum\<rparr>))
       (sq (store m9reqs m9reqs_update r (\<lambda>q. q\<lparr>m9_arg := val\<rparr>))
       (ret r)))))
     else if task_type = 2 then
       bnd (m9_malloc tss_update \<lparr>tv_sec = 0, tv_nsec = 0\<rparr>) (\<lambda>delay.
       bnd (random_sleep_time_in_range 25 250) (\<lambda>ts.
       sq (store tss tss_update delay (\<lambda>_. ts))
       (sq (store m9reqs m9reqs_update r (\<lambda>q. q\<lparr>m9_fn := Delay_task\<rparr>))
       (sq (store m9reqs m9reqs_update r (\<lambda>q. q\<lparr>m9_arg := delay\<rparr>))
       (ret r)))))
     else
       sq (free m9reqs m9reqs_update r)
       (sq (lift (print (Err (''Unknown task type '' @ show_int task_type @ ''.''))))
       (ret NULL)))"

primrec m9_requests :: "addr \<Rightarrow> nat \<Rightarrow> unit m9prog" where
  "m9_requests que 0 = ret ()"
| "m9_requests que (Suc k) =
     bnd (lift rand) (\<lambda>x.
     bnd (create_request (x smod 3)) (\<lambda>req.
     sq (lift (m9_queue_enqueue 0 que req))
     (sq nap_random
     (m9_requests que k))))"

definition m9_main :: "addr m9prog \<Rightarrow> (addr \<Rightarrow> int \<Rightarrow> addr m9prog) \<Rightarrow> (addr \<Rightarrow> unit m9prog) \<Rightarrow>
    (addr \<Rightarrow> unit m9prog) \<Rightarrow> string list \<Rightarrow> int m9prog" where
  "m9_main qinit pool_create qclose pool_destroy argv =
     (if length argv \<noteq> 3 then
        sq (lift (print (Err (''Usage: '' @ argv ! 0 @ '' <num_threads> <num_requests>'' @ [nl])))) (ret 1)
      else
        let num_threads = atoi (argv ! 1); num_requests = atoi (argv ! 2) in
        if num_threads \<le> 0 \<or> num_requests \<le> 0 then
          sq (lift (print (Err (''Both num_threads and num_requests must be positive integers.'' @ [nl])))) (ret 1)
        else
          bnd qinit (\<lambda>que.
          bnd (pool_create que num_threads) (\<lambda>pool.
          sq (m9_requests que (nat num_requests))
          (sq (qclose que)
          (sq (pool_destroy pool)
          (sq (lift (m9_queue_destroy que))
          (ret 0)))))))"

section \<open>worker\_thread.c and thread\_pool.c\<close>

text \<open>\<^verbatim>\<open>MAX_WORKER_THREADS\<close>, the length of the array inside \<^verbatim>\<open>struct thread_pool\<close>.\<close>

definition MAX_WORKER_THREADS :: nat where "MAX_WORKER_THREADS = 20"

definition m9_create_worker_thread :: "addr \<Rightarrow> tid m9prog" where
  "m9_create_worker_thread params = lift (\<lambda>m. (Return (next_tid m), m\<lparr>
     threads := (threads m)(next_tid m \<mapsto> \<lparr>pc = W_start, warg = params\<rparr>), next_tid := Suc (next_tid m)\<rparr>))"

text \<open>
  The loop of \<^verbatim>\<open>do_work\<close>, one round per unit of fuel; it \<open>Blocks\<close> where \<^verbatim>\<open>queue_dequeue\<close> waits, and out
  of fuel as well. The result is the number of requests processed.
\<close>

fun do_work_loop :: "nat \<Rightarrow> tid \<Rightarrow> addr \<Rightarrow> int \<Rightarrow> int m9prog" where
  "do_work_loop 0 t que req_count = (\<lambda>s. (Blocks, s))"
| "do_work_loop (Suc fuel) t que req_count =
     bnd (lift (m9_queue_dequeue t que)) (\<lambda>req.
     if req \<noteq> NULL then
       bnd (deref m9reqs req) (\<lambda>r.
       sq (m9_call_work t (m9_fn r) (m9_arg r))
       (sq (free m9reqs m9reqs_update req)
       (do_work_loop fuel t que (i32 (req_count + 1)))))
     else ret req_count)"

definition do_work :: "nat \<Rightarrow> tid \<Rightarrow> addr \<Rightarrow> unit m9prog" where
  "do_work fuel t params =
     bnd (deref wparams params) (\<lambda>p.
     sq (lift (print (Err (''thread-'' @ show_int (wp_thread_id p) @ '' starting'' @ [nl]))))
     (bnd (do_work_loop fuel t (wp_que p) 0) (\<lambda>req_count.
     lift (print (Err (''thread-'' @ show_int (wp_thread_id p) @ '' exiting. Processed '' @
       show_int req_count @ '' requests.'' @ [nl]))))))"

definition m9_thread_pool_add_one :: "addr \<Rightarrow> addr \<Rightarrow> nat \<Rightarrow> unit m9prog" where
  "m9_thread_pool_add_one pool que i =
     bnd (m9_malloc wparams_update \<lparr>wp_thread_id = 0, wp_que = NULL\<rparr>) (\<lambda>params.
     sq (store wparams wparams_update params (\<lambda>p. p\<lparr>wp_que := que\<rparr>))
     (bnd (deref m9pools pool) (\<lambda>p.
     sq (store wparams wparams_update params (\<lambda>q. q\<lparr>wp_thread_id := next_thread_id p\<rparr>))
     (bnd (m9_malloc m9workers_update \<lparr>wk_thread_id = 0, wk_thread = 0\<rparr>) (\<lambda>w.
     if i \<ge> MAX_WORKER_THREADS then fault OutOfBounds
     else
       sq (store m9pools m9pools_update pool (\<lambda>q. q\<lparr>m9_threads := (m9_threads q)[i := w]\<rparr>))
       (sq (store m9workers m9workers_update w (\<lambda>x. x\<lparr>wk_thread_id := next_thread_id p\<rparr>))
       (bnd (m9_create_worker_thread params) (\<lambda>t.
       sq (store m9workers m9workers_update w (\<lambda>x. x\<lparr>wk_thread := t\<rparr>))
       (store m9pools m9pools_update pool (\<lambda>q. q\<lparr>next_thread_id := i32 (next_thread_id q + 1)\<rparr>))))))))))"

primrec m9_thread_pool_fill :: "addr \<Rightarrow> addr \<Rightarrow> nat \<Rightarrow> nat \<Rightarrow> unit m9prog" where
  "m9_thread_pool_fill pool que i 0 = ret ()"
| "m9_thread_pool_fill pool que i (Suc k) =
     sq (m9_thread_pool_add_one pool que i) (m9_thread_pool_fill pool que (Suc i) k)"

definition m9_thread_pool_init :: "addr \<Rightarrow> int \<Rightarrow> addr m9prog" where
  "m9_thread_pool_init que n =
     bnd (m9_malloc m9pools_update \<lparr>next_thread_id = 0, m9_num_threads = 0, m9_threads = replicate MAX_WORKER_THREADS NULL\<rparr>) (\<lambda>pool.
     if pool = NULL then lift (perror_exit ''thread_pool_init:malloc'')
     else
       sq (store m9pools m9pools_update pool (\<lambda>p. p\<lparr>next_thread_id := 1\<rparr>))
       (sq (store m9pools m9pools_update pool (\<lambda>p. p\<lparr>m9_num_threads := n\<rparr>))
       (sq (m9_thread_pool_fill pool que 0 (nat n))
       (ret pool))))"

primrec m9_thread_pool_join :: "addr \<Rightarrow> nat \<Rightarrow> nat \<Rightarrow> unit m9prog" where
  "m9_thread_pool_join pool i 0 = ret ()"
| "m9_thread_pool_join pool i (Suc k) =
     bnd (deref m9pools pool) (\<lambda>p.
     if i \<ge> MAX_WORKER_THREADS then fault OutOfBounds
     else
       bnd (deref m9workers (m9_threads p ! i)) (\<lambda>w.
       sq (lift (\<lambda>m. case threads m (wk_thread w) of
             None \<Rightarrow> (Return (3::int), m)
           | Some th \<Rightarrow> if pc th = W_done then (Return 0, m) else (Blocks, m)))
       (sq (free m9workers m9workers_update (m9_threads p ! i))
       (m9_thread_pool_join pool (Suc i) k))))"

definition m9_thread_pool_destroy :: "addr \<Rightarrow> unit m9prog" where
  "m9_thread_pool_destroy pool =
     bnd (deref m9pools pool) (\<lambda>p.
     sq (m9_thread_pool_join pool 0 (nat (m9_num_threads p)))
     (free m9pools m9pools_update pool))"

section \<open>How the primitives run\<close>

lemma run_lift [prog_simps]: "p (base s) = (r, m) \<Longrightarrow> lift p s = (r, s\<lparr>base := m\<rparr>)"
  by (simp add: lift_def)

lemma run_m9_malloc [prog_simps]:
  "0 < avail (base s) \<Longrightarrow> m9_malloc upd x s = (Return (brk (base s)),
     upd (\<lambda>f. f(brk (base s) \<mapsto> x))
       (s\<lparr>base := (base s)\<lparr>brk := Suc (brk (base s)), avail := avail (base s) - 1\<rparr>\<rparr>))"
  by (simp add: m9_malloc_def)

lemma m9_upd [prog_simps]:
  "msgs_update (\<lambda>f. f(p := a)) s = s\<lparr>msgs := (msgs s)(p := a)\<rparr>"
  "tss_update (\<lambda>f. f(p := b)) s = s\<lparr>tss := (tss s)(p := b)\<rparr>"
  "m9reqs_update (\<lambda>f. f(p := c)) s = s\<lparr>m9reqs := (m9reqs s)(p := c)\<rparr>"
  "wparams_update (\<lambda>f. f(p := d)) s = s\<lparr>wparams := (wparams s)(p := d)\<rparr>"
  "m9workers_update (\<lambda>f. f(p := e)) s = s\<lparr>m9workers := (m9workers s)(p := e)\<rparr>"
  "m9pools_update (\<lambda>f. f(p := g)) s = s\<lparr>m9pools := (m9pools s)(p := g)\<rparr>"
  by simp_all

lemma log_message_run [prog_simps]:
  assumes "mutexes (base s) thread_id_lock = Some None" and "fopen_ok (base s)"
  shows "log_message t msg s = (Return (), s\<lparr>base := (base s)\<lparr>taskfile := taskfile (base s) @
     [''['' @ clock (base s) @ ''] [Thread '' @ show_nat t @ ''] '' @ msg @ [nl]]\<rparr>\<rparr>)"
  using assms unfolding log_message_def
  by (simp add: prog_simps m9_lock_defs fun_upd_idem)

section \<open>The sum\<close>

lemma sum_loop_value:
  "0 \<le> i \<Longrightarrow> i + int k \<le> INT_MAX \<Longrightarrow> 2 * acc = i * (i - 1) \<Longrightarrow>
   2 * sum_loop k i acc = (i + int k) * (i + int k - 1)"
proof (induction k arbitrary: i acc)
  case (Suc k)
  have "i * (i + 1) \<le> 2147483647 * 2147483648"
    by (rule mult_mono) (use Suc.prems in simp_all)
  moreover have "0 \<le> i * (i + 1)" using Suc.prems by simp
  moreover have "2 * (acc + i) = i * (i + 1)" using Suc.prems(3) by (simp add: algebra_simps)
  ultimately have "2 * (acc + i) \<le> 4611686016279904256" "0 \<le> 2 * (acc + i)" by simp_all
  then have "i64 (acc + i) = acc + i" by (intro i64_id) simp_all
  with Suc.IH [of "i + 1" "acc + i"] Suc.prems show ?case by (simp add: algebra_simps)
qed simp

lemma sum_loop_closed: "0 \<le> n \<Longrightarrow> n \<le> INT_MAX \<Longrightarrow> sum_loop (nat n) 0 0 = n * (n - 1) div 2"
  using sum_loop_value [of 0 "nat n" 0] by simp

lemma show_int_length: "0 \<le> x \<Longrightarrow> x < 10 ^ Suc d \<Longrightarrow> length (show_int x) \<le> Suc d"
  using length_show_nat [of "nat x" d] by (simp add: show_int_def nat_less_iff)

lemma sum_message_fits:
  assumes "0 \<le> n" "n \<le> INT_MAX"
  shows "snprintf 100 (''Sum of numbers < '' @ show_int n @ '' is '' @ show_int (n * (n - 1) div 2)) =
    ''Sum of numbers < '' @ show_int n @ '' is '' @ show_int (n * (n - 1) div 2)"
proof -
  have "n * (n - 1) \<le> 2147483647 * 2147483647"
    by (cases "n = 0") (simp, rule mult_mono, use assms in simp_all)
  moreover have "0 \<le> n * (n - 1)" using assms by (cases "n = 0") auto
  ultimately have "0 \<le> n * (n - 1) div 2" "n * (n - 1) div 2 < 10 ^ Suc 19" by auto
  from show_int_length [OF this] show_int_length [of n 9] assms show ?thesis by (simp add: snprintf_def)
qed

lemma ms_split: "(x::int) div 1000 * 1000000000 + x mod 1000 * 1000000 = x * 1000000"
  using div_mult_mod_eq [of x 1000] by linarith

section \<open>Properties\<close>

text \<open>
  C12. \<^verbatim>\<open>compute_sum\<close> logs the right sum: for every argument n from 0 to INT_MAX the loop adds up
  to n (n - 1) / 2 without overflowing its \<^verbatim>\<open>long\<close>, the message fits its 100-byte buffer and is
  appended to the log once, the argument is freed and the log mutex is free again.
\<close>

theorem compute_sum_logs_sum:
  assumes "a \<noteq> NULL" and "ints (base s) a = Some n" and "0 \<le> n" and "n \<le> INT_MAX"
    and "mutexes (base s) thread_id_lock = Some None" and "fopen_ok (base s)"
  shows "compute_sum t a s = (Return (), s\<lparr>base := (base s)\<lparr>
     taskfile := taskfile (base s) @ [''['' @ clock (base s) @ ''] [Thread '' @ show_nat t @ ''] '' @
       ''Sum of numbers < '' @ show_int n @ '' is '' @ show_int (n * (n - 1) div 2) @ [nl]],
     ints := (ints (base s))(a := None)\<rparr>\<rparr>)"
  using assms sum_message_fits [OF assms(3,4)] unfolding compute_sum_def
  by (simp add: prog_simps sum_loop_closed)

definition m9_sum_state :: m9 where
  "m9_sum_state = (m9_boot 0 (\<lambda>_. 0))\<lparr>base := (boot 0 (\<lambda>_. 0))\<lparr>ints := [9 \<mapsto> 2147483647]\<rparr>\<rparr>"

theorem compute_sum_logs_sum_witness:
  "compute_sum 5 9 m9_sum_state = (Return (), m9_sum_state\<lparr>base := (base m9_sum_state)\<lparr>
     taskfile := taskfile (base m9_sum_state) @ [''['' @ clock (base m9_sum_state) @ ''] [Thread '' @ show_nat 5 @ ''] '' @
       ''Sum of numbers < '' @ show_int 2147483647 @ '' is '' @ show_int (2147483647 * (2147483647 - 1) div 2) @ [nl]],
     ints := (ints (base m9_sum_state))(9 := None)\<rparr>\<rparr>)"
  by (rule compute_sum_logs_sum) (simp_all add: m9_sum_state_def m9_boot_def boot_def)

text \<open>
  C13. \<^verbatim>\<open>random_sleep_time_in_range\<close> gives a time of at least min and at most max milliseconds, both
  inclusive as its comment says, in a normalised \<^verbatim>\<open>struct timespec\<close> (0 <= tv_nsec < 10^9), for every
  valid range of less than INT_MAX milliseconds.
\<close>

theorem random_sleep_in_range:
  assumes "0 \<le> lo" "lo \<le> hi" "hi \<le> INT_MAX" "hi - lo < INT_MAX"
  shows "\<exists>ts s'. random_sleep_time_in_range lo hi s = (Return ts, s') \<and>
    0 \<le> tv_sec ts \<and> 0 \<le> tv_nsec ts \<and> tv_nsec ts < 1000000000 \<and>
    (\<exists>ms. lo \<le> ms \<and> ms \<le> hi \<and> tv_sec ts * 1000000000 + tv_nsec ts = ms * 1000000)"
proof -
  obtain r m where r: "rand (base s) = (Return (int r), m)" by (simp add: rand_def)
  have w: "i32 (hi - lo + 1) = hi - lo + 1" using assms by (intro i32_id) auto
  let ?d = "int r smod (hi - lo + 1)"
  have d: "0 \<le> ?d" "?d < hi - lo + 1" using assms smod_nonneg [of "int r" "hi - lo + 1"] pos_mod_bound [of "hi - lo + 1" "int r"] by simp_all
  then have ms: "lo \<le> lo + ?d" "lo + ?d \<le> hi" by simp_all
  then have i: "i32 (lo + ?d) = lo + ?d" using assms by (intro i32_id) auto
  let ?ms = "lo + ?d"
  let ?ts = "\<lparr>tv_sec = ?ms sdiv 1000, tv_nsec = (?ms smod 1000) * 1000000\<rparr>"
  have run: "random_sleep_time_in_range lo hi s = (Return ?ts, s\<lparr>base := m\<rparr>)"
    using assms r w i by (simp add: random_sleep_time_in_range_def prog_simps Let_def)
  have sp: "?ms sdiv 1000 = ?ms div 1000" "?ms smod 1000 = ?ms mod 1000"
    using ms assms by (simp_all add: sdiv_nonneg smod_nonneg)
  have "?ms div 1000 * 1000000000 + ?ms mod 1000 * 1000000 = ?ms * 1000000" by (rule ms_split)
  moreover have "0 \<le> ?ms div 1000" "0 \<le> ?ms mod 1000" "?ms mod 1000 < 1000" using ms assms by simp_all
  ultimately show ?thesis using run ms sp by (intro exI [of _ ?ts] exI [of _ "s\<lparr>base := m\<rparr>"] conjI exI [of _ ?ms]) simp_all
qed

theorem random_sleep_in_range_witness:
  "\<exists>ts s'. random_sleep_time_in_range 50 500 (m9_boot 0 (\<lambda>_. 7)) = (Return ts, s') \<and>
    0 \<le> tv_sec ts \<and> 0 \<le> tv_nsec ts \<and> tv_nsec ts < 1000000000 \<and>
    (\<exists>ms. 50 \<le> ms \<and> ms \<le> 500 \<and> tv_sec ts * 1000000000 + tv_nsec ts = ms * 1000000)"
  by (rule random_sleep_in_range) simp_all

section \<open>Requests\<close>

text \<open>Fresh addresses are unused in every heap of the state, and the log can be written.\<close>

definition m9_inv :: "m9 \<Rightarrow> bool" where
  "m9_inv s \<longleftrightarrow> 0 < brk (base s) \<and> mutexes (base s) thread_id_lock = Some None \<and> fopen_ok (base s) \<and>
     (\<forall>p \<ge> brk (base s). msgs s p = None \<and> tss s p = None \<and> m9reqs s p = None \<and> ints (base s) p = None)"

lemma random_sleep_cases:
  "\<exists>ts. random_sleep_time_in_range 25 250 s = (Return ts, s\<lparr>base := (base s)\<lparr>rpos := Suc (rpos (base s))\<rparr>\<rparr>)"
  by (simp add: random_sleep_time_in_range_def prog_simps Let_def i32_def)

text \<open>
  C14. Requests round trip: with memory for two objects, \<^verbatim>\<open>create_request\<close> of each of the three task
  types gives a live request, and calling its work function on its argument returns, writes
  exactly one line to the log and frees the argument, so that together they leave no object
  behind but the request itself, which the worker frees.
\<close>

theorem request_round_trip:
  assumes inv: "m9_inv s" and av: "2 \<le> avail (base s)" and k: "0 \<le> k" "k < 3"
  shows "\<exists>r rq s1 s2 line. create_request k s = (Return r, s1) \<and> r \<noteq> NULL \<and> m9reqs s1 r = Some rq \<and>
    m9_call_work t (m9_fn rq) (m9_arg rq) s1 = (Return (), s2) \<and>
    taskfile (base s2) = taskfile (base s) @ [line] \<and> msgs s2 = msgs s \<and> tss s2 = tss s \<and>
    ints (base s2) = ints (base s) \<and> m9reqs s2 = (m9reqs s)(r \<mapsto> rq)"
proof -
  from inv have b: "0 < brk (base s)" "mutexes (base s) (Suc 0) = Some None" "fopen_ok (base s)"
    "msgs s (Suc (brk (base s))) = None" "tss s (Suc (brk (base s))) = None" "ints (base s) (Suc (brk (base s))) = None"
    by (auto simp: m9_inv_def)
  from k consider "k = 0" | "k = 1" | "k = 2" by linarith
  then show ?thesis
  proof cases
    case 1
    with b av show ?thesis
      by (simp add: create_request_def prog_simps m9_call_work_def write_log_def fun_upd_idem)
  next
    case 2
    with b av show ?thesis
      by (simp add: create_request_def prog_simps m9_call_work_def compute_sum_def Let_def fun_upd_idem)
  next
    case 3
    from random_sleep_cases obtain sl where sl: "\<And>s. random_sleep_time_in_range 25 250 s =
      (Return (sl s), s\<lparr>base := (base s)\<lparr>rpos := Suc (rpos (base s))\<rparr>\<rparr>)" by metis
    from 3 b av show ?thesis
      by (simp add: create_request_def prog_simps m9_call_work_def delay_task_def Let_def fun_upd_idem sl)
  qed
qed

theorem request_round_trip_witness:
  "\<exists>r rq s1 s2 line. create_request 1 (m9_boot 2 (\<lambda>_. 5)) = (Return r, s1) \<and> r \<noteq> NULL \<and> m9reqs s1 r = Some rq \<and>
    m9_call_work 3 (m9_fn rq) (m9_arg rq) s1 = (Return (), s2) \<and>
    taskfile (base s2) = taskfile (base (m9_boot 2 (\<lambda>_. 5))) @ [line] \<and> msgs s2 = msgs (m9_boot 2 (\<lambda>_. 5)) \<and>
    tss s2 = tss (m9_boot 2 (\<lambda>_. 5)) \<and> ints (base s2) = ints (base (m9_boot 2 (\<lambda>_. 5))) \<and>
    m9reqs s2 = (m9reqs (m9_boot 2 (\<lambda>_. 5)))(r \<mapsto> rq)"
  by (rule request_round_trip) (simp_all add: m9_inv_def m9_boot_def boot_def)

section \<open>The pool\<close>

lemma m9_add_one_run:
  assumes "m9pools s pool = Some p" "pool \<noteq> NULL" "i < MAX_WORKER_THREADS" "2 \<le> avail (base s)" "0 < brk (base s)"
  shows "\<exists>s'. m9_thread_pool_add_one pool que i s = (Return (), s') \<and>
    m9pools s' = (m9pools s)(pool \<mapsto> p\<lparr>m9_threads := (m9_threads p)[i := Suc (brk (base s))], next_thread_id := i32 (next_thread_id p + 1)\<rparr>) \<and>
    m9workers s' = (m9workers s)(Suc (brk (base s)) \<mapsto> \<lparr>wk_thread_id = next_thread_id p, wk_thread = next_tid (base s)\<rparr>) \<and>
    avail (base s') = avail (base s) - 2 \<and> brk (base s') = Suc (Suc (brk (base s))) \<and> next_tid (base s') = Suc (next_tid (base s))"
  using assms unfolding m9_thread_pool_add_one_def m9_create_worker_thread_def
  by (auto simp: prog_simps)

text \<open>What the pool holds after \<open>i\<close> rounds: worker \<open>j\<close> of them has the number \<open>j + 1\<close>.\<close>

definition m9_pool_ok :: "m9 \<Rightarrow> addr \<Rightarrow> nat \<Rightarrow> bool" where
  "m9_pool_ok s pool i \<longleftrightarrow> 0 < brk (base s) \<and> pool \<noteq> NULL \<and> (case m9pools s pool of None \<Rightarrow> False
     | Some p \<Rightarrow> next_thread_id p = int i + 1 \<and> length (m9_threads p) = MAX_WORKER_THREADS \<and>
         (\<forall>j < i. m9_threads p ! j < brk (base s) \<and>
            map_option wk_thread_id (m9workers s (m9_threads p ! j)) = Some (int j + 1)))"

lemma m9_add_one_ok:
  assumes ok: "m9_pool_ok s pool i" and i: "i < MAX_WORKER_THREADS" and av: "2 \<le> avail (base s)"
  shows "\<exists>s'. m9_thread_pool_add_one pool que i s = (Return (), s') \<and> m9_pool_ok s' pool (Suc i) \<and> avail (base s') = avail (base s) - 2"
proof -
  from ok obtain p where p: "m9pools s pool = Some p" "pool \<noteq> NULL" "0 < brk (base s)" "next_thread_id p = int i + 1"
    "length (m9_threads p) = MAX_WORKER_THREADS"
    "\<And>j. j < i \<Longrightarrow> m9_threads p ! j < brk (base s) \<and> map_option wk_thread_id (m9workers s (m9_threads p ! j)) = Some (int j + 1)"
    by (auto simp: m9_pool_ok_def split: option.splits)
  from m9_add_one_run [OF p(1,2) i av p(3)] obtain s' where
    s': "m9_thread_pool_add_one pool que i s = (Return (), s')"
      "m9pools s' = (m9pools s)(pool \<mapsto> p\<lparr>m9_threads := (m9_threads p)[i := Suc (brk (base s))], next_thread_id := i32 (next_thread_id p + 1)\<rparr>)"
      "m9workers s' = (m9workers s)(Suc (brk (base s)) \<mapsto> \<lparr>wk_thread_id = next_thread_id p, wk_thread = next_tid (base s)\<rparr>)"
      "avail (base s') = avail (base s) - 2" "brk (base s') = Suc (Suc (brk (base s)))" by blast
  have n: "i32 (next_thread_id p + 1) = int (Suc i) + 1" using i p(4) by (simp add: i32_id MAX_WORKER_THREADS_def)
  have "m9_pool_ok s' pool (Suc i)"
    unfolding m9_pool_ok_def using s' n p i
    by (fastforce simp: nth_list_update less_Suc_eq)
  with s' show ?thesis by blast
qed

lemma m9_fill_ok:
  "m9_pool_ok s pool i \<Longrightarrow> i + k \<le> MAX_WORKER_THREADS \<Longrightarrow> 2 * k \<le> avail (base s) \<Longrightarrow>
   \<exists>s'. m9_thread_pool_fill pool que i k s = (Return (), s') \<and> m9_pool_ok s' pool (i + k) \<and> avail (base s') = avail (base s) - 2 * k"
proof (induction k arbitrary: s i)
  case (Suc k)
  then obtain s1 where s1: "m9_thread_pool_add_one pool que i s = (Return (), s1)" "m9_pool_ok s1 pool (Suc i)"
    "avail (base s1) = avail (base s) - 2" using m9_add_one_ok [of s pool i que] by auto
  with Suc.IH [of s1 "Suc i"] Suc.prems show ?case by (auto simp: prog_simps)
qed (simp add: prog_simps)

lemma m9_fill_append:
  "m9_thread_pool_fill pool que i (a + b) = sq (m9_thread_pool_fill pool que i a) (m9_thread_pool_fill pool que (i + a) b)"
proof (induction a arbitrary: i)
  case 0
  show ?case by (simp add: fun_eq_iff prog_simps)
qed (simp add: bnd_assoc)

lemma m9_init_start:
  assumes "1 \<le> avail (base s)" "0 < brk (base s)"
  shows "\<exists>s1. m9_thread_pool_init que n s = sq (m9_thread_pool_fill (brk (base s)) que 0 (nat n)) (ret (brk (base s))) s1 \<and>
    m9_pool_ok s1 (brk (base s)) 0 \<and> avail (base s1) = avail (base s) - 1"
  using assms unfolding m9_thread_pool_init_def m9_pool_ok_def
  by (auto simp: prog_simps MAX_WORKER_THREADS_def)

text \<open>
  C15. The pool of milestone 9 holds at most 20 workers: \<^verbatim>\<open>thread_pool_init\<close> with up to
  \<^verbatim>\<open>MAX_WORKER_THREADS\<close> threads returns a pool whose workers are numbered from 1, but the number,
  which \<^verbatim>\<open>main\<close> takes from the command line, is nowhere compared with that limit: with more
  threads it writes past the end of the array.
\<close>

theorem m9_pool_limit:
  assumes "0 < brk (base s)" and "2 * nat n + 1 \<le> avail (base s)"
  shows "if nat n \<le> MAX_WORKER_THREADS
    then \<exists>pool s'. m9_thread_pool_init que n s = (Return pool, s') \<and> m9_pool_ok s' pool (nat n)
    else \<exists>s'. m9_thread_pool_init que n s = (Faulted OutOfBounds, s')"
proof -
  let ?p = "brk (base s)"
  have "1 \<le> avail (base s)" using assms(2) by simp
  from m9_init_start [OF this assms(1), of que n] obtain s1 where
    s1: "m9_thread_pool_init que n s = sq (m9_thread_pool_fill ?p que 0 (nat n)) (ret ?p) s1"
      "m9_pool_ok s1 ?p 0" "avail (base s1) = avail (base s) - 1" by blast
  show ?thesis
  proof (cases "nat n \<le> MAX_WORKER_THREADS")
    case True
    from s1(3) assms(2) have "2 * nat n \<le> avail (base s1)" by simp
    with m9_fill_ok [OF s1(2), of "nat n" que] True obtain s2 where
      "m9_thread_pool_fill ?p que 0 (nat n) s1 = (Return (), s2)" "m9_pool_ok s2 ?p (nat n)" by auto
    with s1(1) True show ?thesis by (simp add: prog_simps)
  next
    case False
    then obtain k where k: "nat n = MAX_WORKER_THREADS + Suc k" by (metis add_Suc_right less_imp_Suc_add not_le)
    from s1(3) assms(2) k have "2 * MAX_WORKER_THREADS \<le> avail (base s1)" by simp
    with m9_fill_ok [OF s1(2), of MAX_WORKER_THREADS que] obtain s2 where
      s2: "m9_thread_pool_fill ?p que 0 MAX_WORKER_THREADS s1 = (Return (), s2)" "m9_pool_ok s2 ?p MAX_WORKER_THREADS"
        "avail (base s2) = avail (base s1) - 2 * MAX_WORKER_THREADS" by auto
    have "\<exists>s3. m9_thread_pool_add_one ?p que MAX_WORKER_THREADS s2 = (Faulted OutOfBounds, s3)"
      using s2(2,3) s1(3) assms(2) k unfolding m9_thread_pool_add_one_def m9_pool_ok_def
      by (auto simp: prog_simps split: option.splits)
    with s2(1) have "\<exists>s3. m9_thread_pool_fill ?p que 0 (nat n) s1 = (Faulted OutOfBounds, s3)"
      unfolding k m9_fill_append by (auto simp: prog_simps)
    with s1(1) False show ?thesis by (auto simp: prog_simps)
  qed
qed

theorem m9_pool_limit_witness:
  "if nat 21 \<le> MAX_WORKER_THREADS
   then \<exists>pool s'. m9_thread_pool_init 7 21 (m9_boot 99 (\<lambda>_. 0)) = (Return pool, s') \<and> m9_pool_ok s' pool (nat 21)
   else \<exists>s'. m9_thread_pool_init 7 21 (m9_boot 99 (\<lambda>_. 0)) = (Faulted OutOfBounds, s')"
  by (rule m9_pool_limit) (simp_all add: m9_boot_def boot_def)

section \<open>The workers\<close>

text \<open>What a task leaves of the part of the machine the queue lives in.\<close>

definition same_queues :: "machine \<Rightarrow> machine \<Rightarrow> bool" where
  "same_queues m m' \<longleftrightarrow> nodes m' = nodes m \<and> queues m' = queues m \<and> conds m' = conds m \<and> brk m' = brk m \<and>
     (\<forall>x. mutexes m x = Some None \<longrightarrow> mutexes m' x = Some None)"

lemma same_queues_ok: "same_queues m m' \<Longrightarrow> m9_ok m q as \<Longrightarrow> m9_ok m' q as \<and> contents m' as = contents m as"
  by (auto simp: same_queues_def m9_ok_def contents_def split: option.splits)

lemma log_message_same: "log_message t msg s = (Return (), s') \<Longrightarrow> same_queues (base s) (base s')"
  by (auto simp: log_message_def lift_def bnd_def gets_def modify_def ret_def m9_lock_defs same_queues_def
      split: option.splits if_splits prod.splits outcome.splits)

lemma free_base: "free sel upd p s = (r, s') \<Longrightarrow> (\<And>f. base (upd f s) = base s) \<Longrightarrow> base s' = base s"
  by (auto simp: free_def split: if_splits option.splits)

lemma m9_call_work_same:
  assumes "m9_call_work t w a s = (Return (), s')"
  shows "same_queues (base s) (base s')"
proof (cases w)
  case Write_log
  with assms obtain msg s1 where s1: "log_message t msg s = (Return (), s1)" "free msgs msgs_update a s1 = (Return (), s')"
    by (auto simp: m9_call_work_def write_log_def bnd_Return_conv deref_def split: if_splits option.splits)
  from free_base [OF s1(2)] log_message_same [OF s1(1)] show ?thesis by simp
next
  case Compute_sum
  with assms obtain msg s1 where s1: "log_message t msg s = (Return (), s1)" "lift (free ints ints_update a) s1 = (Return (), s')"
    by (auto simp: m9_call_work_def compute_sum_def Let_def lift_def bnd_Return_conv deref_def split: if_splits option.splits)
  then have "same_queues (base s1) (base s')"
    by (auto simp: lift_def free_def same_queues_def split: if_splits option.splits prod.splits)
  with log_message_same [OF s1(1)] show ?thesis by (simp add: same_queues_def)
next
  case Delay_task
  with assms obtain ts msg s1 where s1: "log_message t msg (s\<lparr>naps := naps s @ [ts]\<rparr>) = (Return (), s1)" "free tss tss_update a s1 = (Return (), s')"
    by (auto simp: m9_call_work_def delay_task_def Let_def bnd_Return_conv modify_def deref_def split: if_splits option.splits)
  from free_base [OF s1(2)] log_message_same [OF s1(1)] show ?thesis by simp
qed

lemma do_work_loop_no_return:
  "m9_ok (base s) q as \<Longrightarrow> NULL \<notin> set (contents (base s) as) \<Longrightarrow> do_work_loop fuel t q c s \<noteq> (Return n, s')"
proof (induction fuel arbitrary: s as c)
  case (Suc fuel)
  obtain r m where d: "m9_queue_dequeue t q (base s) = (r, m)" by fastforce
  show ?case
  proof (cases as)
    case Nil
    with Suc.prems m9_dequeue_wait_run [of "base s" q t] show ?thesis by (simp add: prog_simps)
  next
    case (Cons a bs)
    note p = m9_dequeue_item_ok [OF Suc.prems(1) [unfolded Cons] d]
    let ?x = "hd (contents (base s) (a # bs))" let ?s1 = "s\<lparr>base := m\<rparr>"
    have x: "?x \<noteq> NULL" using Suc.prems(2) Cons by (simp add: contents_Cons)
    have rest: "m9_ok (base ?s1) q bs" "NULL \<notin> set (contents (base ?s1) bs)"
      using p(2,3) Suc.prems(2) Cons by (simp_all add: contents_Cons)
    show ?thesis
    proof
      assume "do_work_loop (Suc fuel) t q c s = (Return n, s')"
      with d p(1) x have "\<exists>(rq :: m9_request) s2 s3. m9_call_work t (m9_fn rq) (m9_arg rq) ?s1 = (Return (), s2) \<and>
        free m9reqs m9reqs_update ?x s2 = (Return (), s3) \<and> do_work_loop fuel t q (i32 (c + 1)) s3 = (Return n, s')"
        by (auto simp: prog_simps bnd_Return_conv deref_def split: if_splits option.splits)
      then obtain rq :: m9_request and s2 s3 where w: "m9_call_work t (m9_fn rq) (m9_arg rq) ?s1 = (Return (), s2)"
        "free m9reqs m9reqs_update ?x s2 = (Return (), s3)" "do_work_loop fuel t q (i32 (c + 1)) s3 = (Return n, s')" by blast
      have e: "base s3 = base s2" by (rule free_base [OF w(2)]) simp
      from same_queues_ok [OF m9_call_work_same [OF w(1)] rest(1)] rest(2) e
      have "m9_ok (base s3) q bs" "NULL \<notin> set (contents (base s3) bs)" by simp_all
      from Suc.IH [OF this] w(3) show False by blast
    qed
  qed
qed simp



end
