(* ===== verification/Http_Proxy.thy ===== *)
theory Http_Proxy
  imports C_Prog
begin

text \<open>
  The request handler of the proxy server, \<^verbatim>\<open>src/proxy_server/http_proxy.c\<close>. The state holds what
  the network will deliver: for each socket the chunks \<open>recv\<close> returns (\<open>None\<close> for an error; the end
  of the list is the end of the stream), whether sends on it succeed, and what \<^verbatim>\<open>getaddrinfo\<close>
  answers: per address the descriptor \<^verbatim>\<open>socket\<close> gives (-1 for none) and whether \<^verbatim>\<open>connect\<close> succeeds.
  It records what was sent, which sockets were opened and closed and what was printed.

  C strings are the characters before the first NUL. A \<^verbatim>\<open>%s\<close> that scans more than its array holds
  is a fault (\<open>OutOfBounds\<close>), reading an array \<^verbatim>\<open>sscanf\<close> did not fill is one too (\<open>Uninitialised\<close>).
\<close>

section \<open>State\<close>

record net =
  incoming :: "int \<Rightarrow> string option list"
  send_ok :: "int \<Rightarrow> bool"
  resolver :: "string \<Rightarrow> string \<Rightarrow> (int \<times> bool) list option"
  sent_data :: "(int \<times> string) list"
  opened :: "int list"
  closed_fds :: "int list"
  fd_args :: "addr \<rightharpoonup> int"
  out :: "io list"

type_synonym 'a nprog = "(net, 'a) cprog"

abbreviation (input) BUFFER_SIZE :: nat where "BUFFER_SIZE \<equiv> 4096"

definition nprint :: "io \<Rightarrow> unit nprog" where
  "nprint e = modify (\<lambda>s. s\<lparr>out := out s @ [e]\<rparr>)"

text \<open>\<^verbatim>\<open>recv(fd, buf, n, 0)\<close>: at most \<open>n\<close> bytes of the next chunk, the rest stays in the stream.\<close>

definition recv :: "int \<Rightarrow> nat \<Rightarrow> string option nprog" where
  "recv fd n = (\<lambda>s. case incoming s fd of
      [] \<Rightarrow> (Return (Some []), s)
    | None # rest \<Rightarrow> (Return None, s\<lparr>incoming := (incoming s)(fd := rest)\<rparr>)
    | Some d # rest \<Rightarrow>
        if length d \<le> n then (Return (Some d), s\<lparr>incoming := (incoming s)(fd := rest)\<rparr>)
        else (Return (Some (take n d)), s\<lparr>incoming := (incoming s)(fd := Some (drop n d) # rest)\<rparr>))"

definition send :: "int \<Rightarrow> string \<Rightarrow> bool nprog" where
  "send fd d = (\<lambda>s. if send_ok s fd then (Return True, s\<lparr>sent_data := sent_data s @ [(fd, d)]\<rparr>) else (Return False, s))"

definition close :: "int \<Rightarrow> unit nprog" where
  "close fd = modify (\<lambda>s. s\<lparr>closed_fds := closed_fds s @ [fd]\<rparr>)"

section \<open>C strings\<close>

definition cstr :: "string \<Rightarrow> string" where
  "cstr s = takeWhile (\<lambda>c. c \<noteq> nul) s"

text \<open>\<^verbatim>\<open>sscanf(s, "%s %s ...")\<close>: the blank-separated words, at most \<open>k\<close>.\<close>

fun scan_words :: "nat \<Rightarrow> string \<Rightarrow> string list" where
  "scan_words 0 s = []"
| "scan_words (Suc k) s =
     (let r = dropWhile isspace s in
      if r = [] then []
      else takeWhile (\<lambda>c. \<not> isspace c) r # scan_words k (dropWhile (\<lambda>c. \<not> isspace c) r))"

text \<open>
  \<^verbatim>\<open>sscanf(buffer, "%s %s %s", meth, url, protocol)\<close> with arrays of 10, 1024 and 10 bytes: the
  words scanned, or a fault where one does not fit its array.
\<close>

definition scan_request_line :: "string \<Rightarrow> string list nprog" where
  "scan_request_line buffer =
     (let ws = scan_words 3 buffer in
      if list_all2 (\<lambda>w n. length w < n) ws (take (length ws) [10, 1024, 10]) then ret ws else fault OutOfBounds)"

definition word_of :: "string list \<Rightarrow> nat \<Rightarrow> string nprog" where
  "word_of ws i = (if i < length ws then ret (ws ! i) else fault Uninitialised)"

text \<open>\<^verbatim>\<open>strstr(s, "\r\n")\<close>, the text from the first line end on.\<close>

fun find_crlf :: "string \<Rightarrow> string option" where
  "find_crlf (a # b # s) = (if a = cr \<and> b = nl then Some (a # b # s) else find_crlf (b # s))"
| "find_crlf _ = None"

section \<open>The handler\<close>

definition receive_client_request :: "int \<Rightarrow> string option nprog" where
  "receive_client_request client_socket =
     bnd (recv client_socket (BUFFER_SIZE - 1)) (\<lambda>r.
     case r of
       None \<Rightarrow> sq (nprint (Err ''Failed to receive data from client'')) (ret None)
     | Some d \<Rightarrow>
         if d = [] then sq (nprint (Err ''Failed to receive data from client'')) (ret None)
         else sq (nprint (Out (''Request received from client:'' @ [nl] @ cstr d @ [nl]))) (ret (Some (cstr d))))"

text \<open>
  \<^verbatim>\<open>sscanf(url + 7, "%255[^:/]:%d", hostname, port)\<close>: the host and, when a number follows a colon,
  the port.
\<close>

definition scan_host_port :: "string \<Rightarrow> (string \<times> int option) option" where
  "scan_host_port s =
     (let h = take 255 (takeWhile (\<lambda>c. c \<noteq> CHR '':'' \<and> c \<noteq> CHR ''/'') s); rest = drop (length h) s in
      if h = [] then None
      else case rest of
        [] \<Rightarrow> Some (h, None)
      | c # r \<Rightarrow> if c \<noteq> CHR '':'' then Some (h, None)
                 else let (v, e) = strtol10 r in if e = r then Some (h, None) else Some (h, Some (i32 v)))"

definition scan_host :: "string \<Rightarrow> string option" where
  "scan_host s = (let h = take 255 (takeWhile (\<lambda>c. c \<noteq> CHR ''/'') s) in if h = [] then None else Some h)"

definition parse_http_request :: "string \<Rightarrow> (string \<times> int) option nprog" where
  "parse_http_request buffer =
     bnd (scan_request_line buffer) (\<lambda>ws.
     bnd (word_of ws 1) (\<lambda>url.
     if strncmp_eq url ''http://'' 7 then
       (case scan_host_port (drop 7 url) of
          Some (h, Some p) \<Rightarrow>
            sq (nprint (Out (''Hostname: '' @ h @ '', Port: '' @ show_int p @ [nl]))) (ret (Some (h, p)))
        | _ \<Rightarrow> (case scan_host (drop 7 url) of
            Some h \<Rightarrow> sq (nprint (Out (''Hostname: '' @ h @ '', Port: '' @ show_int 80 @ '' (default)'' @ [nl]))) (ret (Some (h, 80)))
          | None \<Rightarrow> sq (nprint (Err ''Failed to parse hostname'')) (ret None)))
     else if strncmp_eq url ''https://'' 8 then
       sq (nprint (Err ''Only HTTP requests supported at this stage'')) (ret None)
     else
       sq (nprint (Err (''Unexpected URL '' @ [CHR 0x27] @ url @ [CHR 0x27, nl])))
       (sq (nprint (Err (''Proxy requires absolute URL to target server.'' @ [nl])))
       (ret None))))"

text \<open>The loop over the addresses \<^verbatim>\<open>getaddrinfo\<close> found.\<close>

fun try_connect :: "(int \<times> bool) list \<Rightarrow> int option nprog" where
  "try_connect [] = ret None"
| "try_connect ((fd, ok) # rest) =
     (if fd = -1 then try_connect rest
      else sq (modify (\<lambda>s. s\<lparr>opened := opened s @ [fd]\<rparr>))
           (if ok then ret (Some fd) else sq (close fd) (try_connect rest)))"

definition connect_to_target_server :: "string \<Rightarrow> int \<Rightarrow> int nprog" where
  "connect_to_target_server hostname port =
     bnd (gets resolver) (\<lambda>getaddrinfo.
     case getaddrinfo hostname (take 5 (show_int port)) of
       None \<Rightarrow> sq (nprint (Err ''getaddrinfo failed'')) (ret (-1))
     | Some res \<Rightarrow>
         bnd (try_connect res) (\<lambda>p.
         case p of
           None \<Rightarrow> sq (nprint (Err (''Failed to connect to target server'' @ [nl]))) (ret (-1))
         | Some sockfd \<Rightarrow> ret sockfd))"

text \<open>The request line with the path in place of the URL, and the rest of the buffer behind it.\<close>

definition modified_request :: "string \<Rightarrow> string \<Rightarrow> string \<Rightarrow> string \<Rightarrow> string" where
  "modified_request meth path protocol buffer =
     (let first = take (BUFFER_SIZE - 1) (meth @ '' '' @ path @ '' '' @ protocol @ [cr, nl]) in
      case find_crlf buffer of
        None \<Rightarrow> first
      | Some headers \<Rightarrow> first @ take (BUFFER_SIZE - length first - 1) (drop 2 headers))"

definition url_path :: "string \<Rightarrow> string" where
  "url_path url =
     (let path_start = dropWhile (\<lambda>c. c \<noteq> CHR ''/'') (drop 7 url)
      in if path_start = [] then ''/'' else take 1023 path_start)"

definition forward_request :: "int \<Rightarrow> string \<Rightarrow> unit nprog" where
  "forward_request target_socket buffer =
     bnd (scan_request_line buffer) (\<lambda>ws.
     bnd (word_of ws 1) (\<lambda>url.
     if strncmp_eq url ''http://'' 7 then
       bnd (word_of ws 0) (\<lambda>meth.
       bnd (word_of ws 2) (\<lambda>protocol.
       sq (nprint (Out (modified_request meth (url_path url) protocol buffer @ [nl])))
       (bnd (send target_socket (modified_request meth (url_path url) protocol buffer)) (\<lambda>bytes_sent.
        if bytes_sent then ret () else nprint (Err ''Send to target server failed'')))))
     else nprint (Err ''Invalid HTTP request URL'')))"

text \<open>
  The copying loop of \<^verbatim>\<open>forward_response\<close>, with fuel: every round takes one chunk, or 4096 bytes of
  one, out of the stream (\<open>forward_response_run\<close> says how much is enough). Out of fuel is \<open>Blocks\<close>.
  The result is the last value of \<^verbatim>\<open>bytes_received\<close>: whether \<^verbatim>\<open>recv\<close> failed.
\<close>

fun forward_loop :: "nat \<Rightarrow> int \<Rightarrow> int \<Rightarrow> bool nprog" where
  "forward_loop 0 target client = (\<lambda>s. (Blocks, s))"
| "forward_loop (Suc fuel) target client =
     bnd (recv target BUFFER_SIZE) (\<lambda>r.
     case r of
       None \<Rightarrow> ret True
     | Some d \<Rightarrow>
         if d = [] then ret False
         else bnd (send client d) (\<lambda>bytes_sent.
              if bytes_sent then forward_loop fuel target client
              else sq (nprint (Err ''Send to client failed'')) (ret False)))"

definition forward_response :: "nat \<Rightarrow> int \<Rightarrow> int \<Rightarrow> unit nprog" where
  "forward_response fuel target_socket client_socket =
     bnd (forward_loop fuel target_socket client_socket) (\<lambda>failed.
     if failed then nprint (Err ''Receive from target server failed'') else ret ())"

definition handle_client_request :: "nat \<Rightarrow> int \<Rightarrow> unit nprog" where
  "handle_client_request fuel client_socket =
     bnd (receive_client_request client_socket) (\<lambda>b.
     case b of
       None \<Rightarrow> ret ()
     | Some buffer \<Rightarrow>
         bnd (parse_http_request buffer) (\<lambda>t.
         case t of
           None \<Rightarrow> ret ()
         | Some (hostname, port) \<Rightarrow>
             bnd (connect_to_target_server hostname port) (\<lambda>target_socket.
             if target_socket < 0 then ret ()
             else
               sq (forward_request target_socket buffer)
               (sq (forward_response fuel target_socket client_socket)
               (sq (close target_socket)
               (sq (close client_socket)
               (nprint (Out (''Request completed successfully.'' @ [nl])))))))))"

definition handle_client_request_thread :: "nat \<Rightarrow> addr \<Rightarrow> unit nprog" where
  "handle_client_request_thread fuel a =
     bnd (deref fd_args a) (\<lambda>client_socket.
     sq (free fd_args fd_args_update a)
     (handle_client_request fuel client_socket))"

section \<open>How the primitives run\<close>

lemma run_nprint [prog_simps]: "nprint e s = (Return (), s\<lparr>out := out s @ [e]\<rparr>)"
  by (simp add: nprint_def modify_def)

lemma run_send [prog_simps]: "send_ok s fd \<Longrightarrow> send fd d s = (Return True, s\<lparr>sent_data := sent_data s @ [(fd, d)]\<rparr>)"
  by (simp add: send_def)

lemma run_send_fails [prog_simps]: "\<not> send_ok s fd \<Longrightarrow> send fd d s = (Return False, s)"
  by (simp add: send_def)

lemma run_close [prog_simps]: "close fd s = (Return (), s\<lparr>closed_fds := closed_fds s @ [fd]\<rparr>)"
  by (simp add: close_def modify_def)

section \<open>Scanning\<close>

text \<open>A word: characters none of which is blank.\<close>

definition is_word :: "string \<Rightarrow> bool" where
  "is_word w \<longleftrightarrow> w \<noteq> [] \<and> (\<forall>c \<in> set w. \<not> isspace c)"

lemma isspace_blank [simp]: "isspace (CHR '' '')" "isspace cr" "isspace nl"
  by (simp_all add: isspace_def)

lemma scan_words_word:
  assumes "is_word w" "r = [] \<or> isspace (hd r)"
  shows "scan_words (Suc k) (w @ r) = w # scan_words k r"
proof -
  from assms(1) obtain c cs where w: "w = c # cs" "\<not> isspace c" by (cases w) (auto simp: is_word_def)
  have "takeWhile (\<lambda>c. \<not> isspace c) (w @ r) = w" "dropWhile (\<lambda>c. \<not> isspace c) (w @ r) = r"
    using assms by (cases r; auto simp: is_word_def takeWhile_append dropWhile_append)+
  with w show ?thesis by simp
qed

lemma scan_words_blank [simp]: "isspace c \<Longrightarrow> scan_words k (c # s) = scan_words k s"
  by (cases k) auto

text \<open>A request: meth, URL and protocol, a line end and the header lines.\<close>

definition request_text :: "string \<Rightarrow> string \<Rightarrow> string \<Rightarrow> string \<Rightarrow> string" where
  "request_text meth url protocol headers = meth @ '' '' @ url @ '' '' @ protocol @ [cr, nl] @ headers"

lemma scan_request_text:
  assumes "is_word meth" "is_word url" "is_word protocol"
  shows "scan_words 3 (request_text meth url protocol headers) = [meth, url, protocol]"
proof -
  have "scan_words (Suc (Suc (Suc 0))) (meth @ CHR '' '' # url @ CHR '' '' # protocol @ [cr, nl] @ headers) = [meth, url, protocol]"
    using assms by (simp add: scan_words_word del: scan_words.simps(2))
  then show ?thesis by (simp add: request_text_def numeral_3_eq_3)
qed

lemma scan_request_line_run:
  assumes "is_word meth" "is_word url" "is_word protocol"
    and "length meth < 10" "length url < 1024" "length protocol < 10"
  shows "scan_request_line (request_text meth url protocol headers) s = (Return [meth, url, protocol], s)"
  using assms by (simp add: scan_request_line_def scan_request_text prog_simps)

lemma find_crlf_skip: "cr \<notin> set s \<Longrightarrow> find_crlf (s @ [cr, nl] @ h) = Some ([cr, nl] @ h)"
  by (induction s rule: find_crlf.induct) auto

lemma word_no_cr: "is_word w \<Longrightarrow> cr \<notin> set w"
  by (auto simp: is_word_def isspace_def)

lemma find_crlf_request:
  assumes "is_word meth" "is_word url" "is_word protocol"
  shows "find_crlf (request_text meth url protocol headers) = Some ([cr, nl] @ headers)"
  using find_crlf_skip [of "meth @ '' '' @ url @ '' '' @ protocol" headers] assms
  by (simp add: request_text_def word_no_cr)

section \<open>Parsing\<close>

definition is_host :: "string \<Rightarrow> bool" where
  "is_host h \<longleftrightarrow> h \<noteq> [] \<and> length h \<le> 255 \<and> (\<forall>c \<in> set h. c \<noteq> CHR '':'' \<and> c \<noteq> CHR ''/'' \<and> \<not> isspace c)"

text \<open>The part after the host: nothing, or a path.\<close>

definition is_path :: "string \<Rightarrow> bool" where
  "is_path p \<longleftrightarrow> (p = [] \<or> hd p = CHR ''/'') \<and> (\<forall>c \<in> set p. \<not> isspace c)"

lemma scan_host_run: "is_host h \<Longrightarrow> is_path p \<Longrightarrow> scan_host (h @ p) = Some h"
proof -
  assume h: "is_host h" and p: "is_path p"
  have "takeWhile (\<lambda>c. c \<noteq> CHR ''/'') (h @ p) = h @ takeWhile (\<lambda>c. c \<noteq> CHR ''/'') p"
    using h by (intro takeWhile_append2) (auto simp: is_host_def)
  moreover have "takeWhile (\<lambda>c. c \<noteq> CHR ''/'') p = []" using p by (cases p) (auto simp: is_path_def)
  ultimately have "takeWhile (\<lambda>c. c \<noteq> CHR ''/'') (h @ p) = h" by simp
  moreover have "take 255 h = h" "h \<noteq> []" using h by (auto simp: is_host_def)
  ultimately show ?thesis unfolding scan_host_def Let_def by simp
qed

lemma host_prefix:
  assumes "is_host h" "r = [] \<or> hd r = CHR '':'' \<or> hd r = CHR ''/''"
  shows "takeWhile (\<lambda>c. c \<noteq> CHR '':'' \<and> c \<noteq> CHR ''/'') (h @ r) = h"
  using assms by (cases r) (auto simp: is_host_def takeWhile_append)

lemma scan_host_port_none: "is_host h \<Longrightarrow> is_path p \<Longrightarrow> scan_host_port (h @ p) = Some (h, None)"
proof -
  assume h: "is_host h" and p: "is_path p"
  have e: "takeWhile (\<lambda>c. c \<noteq> CHR '':'' \<and> c \<noteq> CHR ''/'') (h @ p) = h" using p h by (intro host_prefix) (auto simp: is_path_def)
  have t: "take 255 h = h" "h \<noteq> []" using h by (auto simp: is_host_def)
  show ?thesis using p t(2) unfolding scan_host_port_def Let_def e t(1) by (cases p) (simp_all add: is_path_def)
qed

lemma path_not_digit: "is_path p \<Longrightarrow> p = [] \<or> \<not> isdigit (hd p)"
  by (auto simp: is_path_def isdigit_def)

lemma scan_host_port_run:
  assumes "is_host h" "is_path p" "INT_MIN \<le> port" "port \<le> INT_MAX"
  shows "scan_host_port (h @ CHR '':'' # show_int port @ p) = Some (h, Some port)"
proof -
  have s: "strtol10 (show_int port @ p) = (port, p)"
    by (rule strtol10_show_int) (use assms path_not_digit [of p] in auto)
  have "p \<noteq> show_int port @ p" by (simp add: show_int_def)
  moreover have "takeWhile (\<lambda>c. c \<noteq> CHR '':'' \<and> c \<noteq> CHR ''/'') (h @ CHR '':'' # show_int port @ p) = h"
    using assms(1) by (intro host_prefix) simp_all
  moreover have "take 255 h = h" "h \<noteq> []" using assms(1) by (auto simp: is_host_def)
  ultimately show ?thesis using s assms(3,4) unfolding scan_host_port_def Let_def by (simp add: i32_id)
qed

lemma isdigit_not_space2: "c \<in> set (show_int x) \<Longrightarrow> \<not> isspace c"
  using show_nat_digits isdigit_not_space by (fastforce simp: show_int_def isspace_def split: if_splits)

section \<open>Properties of the handler\<close>

text \<open>
  C17. Parsing an absolute URL: for a request line whose words fit their arrays, with the URL
  \<^verbatim>\<open>http://host/path\<close> or \<^verbatim>\<open>http://host:port/path\<close>, \<^verbatim>\<open>parse_http_request\<close> finds exactly the host, and
  the port given or 80.
\<close>

theorem parse_http_request_finds_host:
  assumes "is_word meth" "is_word protocol" "length meth < 10" "length protocol < 10" "is_host h" "is_path p"
    and port: "case port of None \<Rightarrow> True | Some n \<Rightarrow> INT_MIN \<le> n \<and> n \<le> INT_MAX"
    and url: "url = ''http://'' @ h @ (case port of None \<Rightarrow> [] | Some n \<Rightarrow> CHR '':'' # show_int n) @ p" "length url < 1024"
  shows "\<exists>s'. parse_http_request (request_text meth url protocol headers) s =
    (Return (Some (h, case port of None \<Rightarrow> 80 | Some n \<Rightarrow> n)), s')"
proof -
  have w: "is_word url"
    using assms(5,6) url(1) isdigit_not_space2 by (auto simp: is_word_def is_host_def is_path_def isspace_def split: option.splits)
  note sc = scan_request_line_run [OF assms(1) w assms(2,3) url(2) assms(4)]
  show ?thesis
  proof (cases port)
    case None
    with sc url(1) scan_host_port_none [OF assms(5,6)] scan_host_run [OF assms(5,6)] show ?thesis
      by (simp add: parse_http_request_def prog_simps word_of_def strncmp_eq_def)
  next
    case (Some n)
    with sc url(1) scan_host_port_run [OF assms(5,6), of n] port show ?thesis
      by (simp add: parse_http_request_def prog_simps word_of_def strncmp_eq_def)
  qed
qed

text \<open>A network on which nothing arrives and everything else fails.\<close>

definition net0 :: net where
  "net0 = \<lparr>incoming = (\<lambda>_. []), send_ok = (\<lambda>_. False), resolver = (\<lambda>_ _. None), sent_data = [], opened = [],
     closed_fds = [], fd_args = Map.empty, out = []\<rparr>"

lemma sample_request: "is_word ''GET''" "is_word ''HTTP/1.1''" "is_host ''a.org''" "is_path ''/x''" "show_int 8080 = ''8080''"
  by (simp_all add: is_word_def is_host_def is_path_def isspace_def show_eval)

theorem parse_http_request_finds_host_witness:
  "\<exists>s'. parse_http_request (request_text ''GET'' ''http://a.org:8080/x'' ''HTTP/1.1'' []) net0 =
     (Return (Some (''a.org'', case Some 8080 of None \<Rightarrow> 80 | Some n \<Rightarrow> n)), s')"
  by (rule parse_http_request_finds_host [where p = "''/x''"]) (simp_all add: sample_request)

text \<open>
  C18. The rewritten request: for a request with the URL \<^verbatim>\<open>http://authority/path\<close> that fits the
  buffers, the target server is sent exactly the same request with the URL replaced by its path
  (\<^verbatim>\<open>/\<close> when there is none), the header lines unchanged.
\<close>

theorem forward_request_rewrites:
  assumes "is_word meth" "is_word protocol" "length meth < 10" "length protocol < 10" "is_path p"
    and auth: "is_word h" "CHR ''/'' \<notin> set h" and url: "url = ''http://'' @ h @ p" "length url < 1024"
    and fits: "length meth + length p + length protocol + length headers < 4090" and ok: "send_ok s fd"
  shows "\<exists>s'. forward_request fd (request_text meth url protocol headers) s = (Return (), s') \<and>
    sent_data s' = sent_data s @ [(fd, request_text meth (if p = [] then ''/'' else p) protocol headers)]"
proof -
  have w: "is_word url" using assms(5) auth url(1) by (auto simp: is_word_def is_path_def isspace_def)
  note sc = scan_request_line_run [OF assms(1) w assms(2,3) url(2) assms(4)]
  have "dropWhile (\<lambda>c. c \<noteq> CHR ''/'') (h @ p) = dropWhile (\<lambda>c. c \<noteq> CHR ''/'') p"
    using auth(2) by (intro dropWhile_append2) auto
  also have "\<dots> = p" using assms(5) by (cases p) (auto simp: is_path_def)
  finally have d: "dropWhile (\<lambda>c. c \<noteq> CHR ''/'') (drop 7 url) = p" using url(1) by simp
  have u: "url_path url = (if p = [] then ''/'' else p)" using url(2) unfolding url_path_def d by (simp add: url(1))
  let ?p = "if p = [] then ''/'' else p"
  have "length (meth @ '' '' @ ?p @ '' '' @ protocol @ [cr, nl]) + length headers \<le> 4095" using fits by simp
  then have m: "modified_request meth ?p protocol (request_text meth url protocol headers) = request_text meth ?p protocol headers"
    unfolding modified_request_def find_crlf_request [OF assms(1) w assms(2)] by (simp add: request_text_def)
  have "strncmp_eq url ''http://'' 7" by (simp add: strncmp_eq_def url(1))
  with sc ok show ?thesis unfolding forward_request_def
    by (simp add: prog_simps word_of_def u m del: if_split)
qed

definition net1 :: net where
  "net1 = net0\<lparr>send_ok := (\<lambda>_. True)\<rparr>"

theorem forward_request_rewrites_witness:
  "\<exists>s'. forward_request 5 (request_text ''GET'' ''http://a.org/x'' ''HTTP/1.1'' ''Host: a.org'') net1 = (Return (), s') \<and>
    sent_data s' = sent_data net1 @ [(5, request_text ''GET'' (if ''/x'' = [] then ''/'' else ''/x'') ''HTTP/1.1'' ''Host: a.org'')]"
  by (rule forward_request_rewrites [where h = "''a.org''"])
     (simp_all add: sample_request net1_def is_word_def isspace_def)

text \<open>
  C19. What the handler sends to the target server never exceeds its 4096-byte buffer, whatever the
  client sent: at most one message, of at most 4095 bytes.
\<close>

theorem forward_request_bounded:
  assumes "forward_request fd buffer s = (r, s')"
  shows "sent_data s' = sent_data s \<or> (\<exists>d. sent_data s' = sent_data s @ [(fd, d)] \<and> length d \<le> BUFFER_SIZE - 1)"
proof (cases "scan_request_line buffer s")
  case (Pair r0 s0)
  then have s0: "s0 = s" by (auto simp: scan_request_line_def prog_simps Let_def split: if_splits)
  show ?thesis
  proof (cases r0)
    case (Return ws)
    have m: "length (modified_request a b c buffer) \<le> 4095" for a b c
      unfolding modified_request_def Let_def by (auto split: option.split)
    from assms Pair s0 Return have "bnd (word_of ws 1) (\<lambda>url.
     if strncmp_eq url ''http://'' 7 then
       bnd (word_of ws 0) (\<lambda>meth.
       bnd (word_of ws 2) (\<lambda>protocol.
       sq (nprint (Out (modified_request meth (url_path url) protocol buffer @ [nl])))
       (bnd (send fd (modified_request meth (url_path url) protocol buffer)) (\<lambda>bytes_sent.
        if bytes_sent then ret () else nprint (Err ''Send to target server failed'')))))
     else nprint (Err ''Invalid HTTP request URL'')) s = (r, s')" by (simp add: forward_request_def prog_simps)
    with m show ?thesis
      by (auto simp: bnd_def word_of_def ret_def fault_def nprint_def modify_def send_def split: if_splits)
  qed (use assms Pair s0 in \<open>auto simp: forward_request_def prog_simps\<close>)
qed

theorem forward_request_bounded_witness:
  "sent_data (snd (forward_request 5 (request_text ''GET'' ''http://a.org/x'' ''HTTP/1.1'' []) net1)) = sent_data net1 \<or>
   (\<exists>d. sent_data (snd (forward_request 5 (request_text ''GET'' ''http://a.org/x'' ''HTTP/1.1'' []) net1)) = sent_data net1 @ [(5, d)] \<and>
        length d \<le> BUFFER_SIZE - 1)"
  by (rule forward_request_bounded [where r = "fst (forward_request 5 (request_text ''GET'' ''http://a.org/x'' ''HTTP/1.1'' []) net1)"]) simp

text \<open>
  C20. Where the parser is unsafe: \<^verbatim>\<open>parse_http_request\<close> goes wrong exactly when a word of the request
  line does not fit its array (10, 1024 and 10 bytes; the \<^verbatim>\<open>%s\<close> conversions have no width), or when
  there are fewer than two words; in every other case it returns.
\<close>

theorem parse_http_request_faults:
  "(\<exists>e s'. parse_http_request buffer s = (Faulted e, s')) \<longleftrightarrow>
     (\<exists>i < length (scan_words 3 buffer). [10, 1024, 10] ! i \<le> length (scan_words 3 buffer ! i)) \<or>
     length (scan_words 3 buffer) < 2"
proof -
  have le: "length (scan_words k b) \<le> k" for k b by (induction k b rule: scan_words.induct) (auto simp: Let_def)
  let ?ws = "scan_words 3 buffer"
  have l3: "length ?ws \<le> 3" by (rule le)
  have a: "list_all2 (\<lambda>w n. length w < n) ?ws (take (length ?ws) [10, 1024, 10]) \<longleftrightarrow>
    \<not> (\<exists>i < length ?ws. [10, 1024, 10] ! i \<le> length (?ws ! i))"
    using l3 by (auto simp: list_all2_conv_all_nth min_def not_le)
  have fine: "\<exists>r s'. parse_http_request buffer s = (Return r, s')"
    if "list_all2 (\<lambda>w n. length w < n) ?ws (take (length ?ws) [10, 1024, 10])" "2 \<le> length ?ws"
    using that unfolding parse_http_request_def scan_request_line_def
    by (auto simp: prog_simps word_of_def Let_def split: option.splits)
  show ?thesis
  proof (cases "list_all2 (\<lambda>w n. length w < n) ?ws (take (length ?ws) [10, 1024, 10])")
    case False
    then show ?thesis unfolding a by (simp add: parse_http_request_def scan_request_line_def prog_simps a)
  next
    case True
    show ?thesis
    proof (cases "2 \<le> length ?ws")
      case True2: True
      from fine [OF True True2] True True2 show ?thesis unfolding a by auto
    next
      case False
      with True show ?thesis
        by (auto simp: parse_http_request_def scan_request_line_def prog_simps word_of_def Let_def)
    qed
  qed
qed

section \<open>Forwarding the response\<close>

text \<open>The bytes of a list of chunks, and how many rounds copying them takes at most.\<close>

definition chunk_bytes :: "string option list \<Rightarrow> string" where
  "chunk_bytes cs = concat (map (\<lambda>c. case c of None \<Rightarrow> [] | Some d \<Rightarrow> d) cs)"

definition to_client :: "int \<Rightarrow> (int \<times> string) list \<Rightarrow> string" where
  "to_client fd xs = concat (map snd (filter (\<lambda>p. fst p = fd) xs))"

lemma to_client_append: "to_client fd (xs @ [(fd, d)]) = to_client fd xs @ d"
  by (simp add: to_client_def)

definition rounds :: "string option list \<Rightarrow> nat" where
  "rounds cs = length (chunk_bytes cs) + length cs + 1"

lemma recv_more:
  assumes "incoming s fd = Some d # rest" "d \<noteq> []"
  shows "\<exists>x s1 cs. recv fd BUFFER_SIZE s = (Return (Some x), s1) \<and> x \<noteq> [] \<and> incoming s1 fd = cs \<and>
    x @ chunk_bytes cs = chunk_bytes (Some d # rest) \<and> rounds cs < rounds (Some d # rest) \<and>
    (\<forall>c \<in> set cs. \<exists>e. c = Some e \<and> e \<noteq> []) = (\<forall>c \<in> set rest. \<exists>e. c = Some e \<and> e \<noteq> []) \<and>
    send_ok s1 = send_ok s \<and> sent_data s1 = sent_data s"
proof (cases "length d \<le> 4096")
  case True
  with assms show ?thesis
    by (intro exI [of _ d] exI [of _ "s\<lparr>incoming := (incoming s)(fd := rest)\<rparr>"] exI [of _ rest])
       (auto simp: recv_def chunk_bytes_def rounds_def)
next
  case False
  with assms show ?thesis
    by (intro exI [of _ "take 4096 d"] exI [of _ "s\<lparr>incoming := (incoming s)(fd := Some (drop 4096 d) # rest)\<rparr>"]
        exI [of _ "Some (drop 4096 d) # rest"])
       (auto simp: recv_def chunk_bytes_def rounds_def)
qed

lemma forward_loop_run:
  "incoming s target = cs \<Longrightarrow> (\<forall>c \<in> set cs. \<exists>e. c = Some e \<and> e \<noteq> []) \<Longrightarrow> send_ok s client \<Longrightarrow> rounds cs \<le> fuel \<Longrightarrow>
   \<exists>s'. forward_loop fuel target client s = (Return False, s') \<and>
     to_client client (sent_data s') = to_client client (sent_data s) @ chunk_bytes cs"
proof (induction fuel arbitrary: s cs)
  case 0
  then show ?case by (simp add: rounds_def)
next
  case (Suc fuel)
  show ?case
  proof (cases cs)
    case Nil
    with Suc.prems(1) show ?thesis by (simp add: recv_def prog_simps chunk_bytes_def bnd_def ret_def)
  next
    case (Cons c rest)
    with Suc.prems(2) obtain d where d: "c = Some d" "d \<noteq> []" by auto
    from recv_more [of s target d rest] Suc.prems(1) Cons d obtain x s1 cs1 where
      x: "recv target BUFFER_SIZE s = (Return (Some x), s1)" "x \<noteq> []" "incoming s1 target = cs1"
        "x @ chunk_bytes cs1 = chunk_bytes (Some d # rest)" "rounds cs1 < rounds (Some d # rest)"
        "(\<forall>c \<in> set cs1. \<exists>e. c = Some e \<and> e \<noteq> []) = (\<forall>c \<in> set rest. \<exists>e. c = Some e \<and> e \<noteq> [])"
        "send_ok s1 = send_ok s" "sent_data s1 = sent_data s" by blast
    let ?s2 = "s1\<lparr>sent_data := sent_data s1 @ [(client, x)]\<rparr>"
    have step: "forward_loop (Suc fuel) target client s = forward_loop fuel target client ?s2"
      using x Suc.prems(3) by (simp add: prog_simps)
    have "\<exists>s'. forward_loop fuel target client ?s2 = (Return False, s') \<and>
      to_client client (sent_data s') = to_client client (sent_data ?s2) @ chunk_bytes cs1"
      by (rule Suc.IH) (use x Suc.prems Cons d in auto)
    with step x(4,8) Cons d show ?thesis by (auto simp: to_client_append)
  qed
qed



section \<open>Sockets\<close>

lemma try_connect_run:
  "\<exists>r s'. try_connect xs s = (Return r, s') \<and>
     (\<exists>l. closed_fds s' = closed_fds s @ l \<and> opened s' = opened s @ l @ (case r of None \<Rightarrow> [] | Some fd \<Rightarrow> [fd]))"
proof (induction xs arbitrary: s)
  case (Cons x rest)
  obtain fd ok where x: "x = (fd, ok)" by fastforce
  show ?case
  proof (cases "fd = -1 \<or> ok")
    case True
    with Cons.IH [of s] x show ?thesis by (auto simp: prog_simps)
  next
    case False
    let ?s = "s\<lparr>opened := opened s @ [fd], closed_fds := closed_fds s @ [fd]\<rparr>"
    obtain r s' l where ih: "try_connect rest ?s = (Return r, s')" "closed_fds s' = closed_fds ?s @ l"
      "opened s' = opened ?s @ l @ (case r of None \<Rightarrow> [] | Some fd \<Rightarrow> [fd])" using Cons.IH [of ?s] by blast
    have "try_connect (x # rest) s = (Return r, s')" using False x ih(1) by (simp add: prog_simps)
    with ih(2,3) show ?thesis by (intro exI [of _ r] exI [of _ s'] conjI exI [of _ "fd # l"]) simp_all
  qed
qed (simp add: prog_simps)

text \<open>
  C22. No socket is leaked while connecting: of the sockets \<^verbatim>\<open>connect_to_target_server\<close> opened, all
  but the connected one, which it returns, have been closed when it returns; after a failure (-1)
  all of them.
\<close>

theorem connect_closes_others:
  "\<exists>r s' l. connect_to_target_server hostname port s = (Return r, s') \<and> closed_fds s' = closed_fds s @ l \<and>
     (opened s' = opened s @ l \<and> r = -1 \<or> opened s' = opened s @ l @ [r])"
proof (cases "resolver s hostname (take 5 (show_int port))")
  case None
  then show ?thesis by (simp add: connect_to_target_server_def prog_simps)
next
  case (Some res)
  from try_connect_run [of res s] obtain r s' l where t: "try_connect res s = (Return r, s')" "closed_fds s' = closed_fds s @ l"
    "opened s' = opened s @ l @ (case r of None \<Rightarrow> [] | Some fd \<Rightarrow> [fd])" by blast
  show ?thesis
  proof (cases r)
    case None
    with Some t show ?thesis by (auto simp: connect_to_target_server_def prog_simps)
  next
    case (Some fd)
    with t \<open>resolver s hostname _ = Some res\<close> show ?thesis by (auto simp: connect_to_target_server_def prog_simps)
  qed
qed

text \<open>
  C23. The client's socket is leaked on failure: when the request is not an absolute \<^verbatim>\<open>http://\<close> URL the
  handler returns without closing the client's socket, and without answering the client.
\<close>

theorem rejected_client_not_closed:
  assumes "incoming s fd = Some d # rest" "d \<noteq> []" "length d < BUFFER_SIZE"
    and "scan_words 3 (cstr d) = [meth, url, protocol]" "length meth < 10" "length url < 1024" "length protocol < 10"
    and "\<not> strncmp_eq url ''http://'' 7"
  shows "\<exists>s'. handle_client_request fuel fd s = (Return (), s') \<and> closed_fds s' = closed_fds s \<and> sent_data s' = sent_data s"
proof -
  let ?s = "s\<lparr>incoming := (incoming s)(fd := rest), out := out s @ [Out (''Request received from client:'' @ [nl] @ cstr d @ [nl])]\<rparr>"
  have r: "receive_client_request fd s = (Return (Some (cstr d)), ?s)"
    using assms(1-3) by (simp add: receive_client_request_def recv_def bnd_def nprint_def modify_def ret_def)
  have "scan_request_line (cstr d) ?s = (Return [meth, url, protocol], ?s)"
    using assms by (simp add: scan_request_line_def prog_simps)
  then have "\<exists>s'. parse_http_request (cstr d) ?s = (Return None, s') \<and> closed_fds s' = closed_fds s \<and> sent_data s' = sent_data s"
    using assms(8) by (auto simp: parse_http_request_def word_of_def bnd_def nprint_def modify_def ret_def)
  with r show ?thesis by (auto simp: handle_client_request_def bnd_def ret_def)
qed

definition bad_client :: net where
  "bad_client = net1\<lparr>incoming := (\<lambda>_. [Some ''GET /x HTTP/1.1''])\<rparr>"

theorem rejected_client_not_closed_witness:
  "\<exists>s'. handle_client_request 9 4 bad_client = (Return (), s') \<and> closed_fds s' = closed_fds bad_client \<and>
     sent_data s' = sent_data bad_client"
  by (rule rejected_client_not_closed [where d = "''GET /x HTTP/1.1''" and meth = "''GET''" and url = "''/x''" and protocol = "''HTTP/1.1''"])
     (simp_all add: bad_client_def net1_def cstr_def numeral_3_eq_3 isspace_def strncmp_eq_def)

end
