(* ===== verification/Future_Value.thy ===== *)
theory Future_Value
  imports C_Prelude Complex_Main
begin

text \<open>
  The investment calculator, \<^verbatim>\<open>src/M2/future_value.c\<close>. A \<^verbatim>\<open>double\<close> is a real number and every
  floating-point operation is the exact one followed by \<open>rnd\<close>, the rounding of the machine, which
  is an argument of the definitions: \<open>\<lambda>x. x\<close> is exact arithmetic. The definitions follow the C
  functions; \<open>calculate_future_value\<close> gives \<open>None\<close> where the C code would leave its array.
\<close>

section \<open>Reading the arguments\<close>

abbreviation (input) MAX_YEARS :: nat where "MAX_YEARS \<equiv> 50"

text \<open>\<^verbatim>\<open>isdigit\<close>, a dot or a minus sign in every place.\<close>

definition is_valid_number :: "string \<Rightarrow> bool" where
  "is_valid_number str \<longleftrightarrow> str \<noteq> [] \<and> list_all (\<lambda>c. isdigit c \<or> c = CHR ''.'' \<or> c = CHR ''-'') str"

text \<open>
  \<^verbatim>\<open>strtod\<close> on a string of digits, dots and minus signs: an optional sign, digits with at most one
  dot, at least one digit; the value and what follows it. With no number the result is 0 and the
  whole string.
\<close>

definition strtod :: "(real \<Rightarrow> real) \<Rightarrow> string \<Rightarrow> real \<times> string" where
  "strtod rnd s =
     (let (neg, r) = split_sign s;
          ip = takeWhile isdigit r;
          r1 = dropWhile isdigit r;
          (fp, r2) = (case r1 of
              [] \<Rightarrow> ([], [])
            | c # cs \<Rightarrow> if c = CHR ''.'' then (takeWhile isdigit cs, dropWhile isdigit cs) else ([], r1))
      in if ip = [] \<and> fp = [] then (0, s)
         else let v = real (digits_val 0 (ip @ fp)) / 10 ^ length fp
              in (rnd (if neg then - v else v), r2))"

type_synonym plan = "real \<times> real \<times> int"

definition parse_input :: "(real \<Rightarrow> real) \<Rightarrow> string list \<Rightarrow> string + plan" where
  "parse_input rnd argv =
     (if length argv \<noteq> 4 then
        Inl (''Usage: ./future_value <monthly-investment> <annual-interest-rate> <number-of-years>'' @ [nl])
      else if \<not> is_valid_number (argv ! 1) then Inl (''Error: Invalid input for monthly investment.'' @ [nl])
      else
        let (monthly_investment, endptr) = strtod rnd (argv ! 1) in
        if endptr \<noteq> [] \<or> monthly_investment < 1 \<or> monthly_investment > 1000
        then Inl (''Error: Invalid input for monthly investment.'' @ [nl])
        else if \<not> is_valid_number (argv ! 2) then Inl (''Error: Invalid input for annual interest rate.'' @ [nl])
        else
          let (annual_interest_rate, endptr) = strtod rnd (argv ! 2) in
          if endptr \<noteq> [] \<or> annual_interest_rate < 1 \<or> annual_interest_rate > 15
          then Inl (''Error: Invalid input for annual interest rate.'' @ [nl])
          else if \<not> is_valid_number (argv ! 3) then Inl (''Error: Invalid input for number of years.'' @ [nl])
          else
            let (l, endptr) = strtol10 (argv ! 3); years = i32 l in
            if endptr \<noteq> [] \<or> years < 1 \<or> years > 50
            then Inl (''Error: Invalid input for number of years.'' @ [nl])
            else Inr (monthly_investment, annual_interest_rate, years))"

section \<open>The calculation\<close>

text \<open>
  The loop over the months: \<open>k\<close> rounds are left, \<open>i\<close> is the counter; \<open>results\<close> holds a pair per
  year, the interest so far and the value.
\<close>

fun fv_loop :: "(real \<Rightarrow> real) \<Rightarrow> real \<Rightarrow> real \<Rightarrow> nat \<Rightarrow> nat \<Rightarrow> real \<Rightarrow> (real \<times> real) list \<Rightarrow> (real \<times> real) list option" where
  "fv_loop rnd mi rate 0 i future_value results = Some results"
| "fv_loop rnd mi rate (Suc k) i future_value results =
     (let fv1 = rnd (future_value + mi);
          monthly_interest_amount = rnd (fv1 * rate);
          fv2 = rnd (fv1 + monthly_interest_amount)
      in if (i + 1) mod 12 = 0 then
           let year = (i + 1) div 12 in
           if year - 1 < length results then
             fv_loop rnd mi rate k (i + 1) fv2
               (results[year - 1 := (rnd (fv2 - rnd (rnd (mi * 12) * real year)), fv2)])
           else None
         else fv_loop rnd mi rate k (i + 1) fv2 results)"

definition calculate_future_value :: "(real \<Rightarrow> real) \<Rightarrow> real \<Rightarrow> real \<Rightarrow> int \<Rightarrow> (real \<times> real) list \<Rightarrow> (real \<times> real) list option" where
  "calculate_future_value rnd monthly_investment annual_interest_rate years results =
     (let monthly_interest_rate = rnd (rnd (annual_interest_rate / 12) / 100)
      in fv_loop rnd monthly_investment monthly_interest_rate (nat (years * 12)) 0 0 results)"

section \<open>Printing\<close>

text \<open>\<^verbatim>\<open>%.2f\<close>: rounded to hundredths, a tie to the even neighbour.\<close>

definition round_half_even :: "real \<Rightarrow> int" where
  "round_half_even x =
     (let n = \<lfloor>x\<rfloor>; d = x - of_int n in
      if d < 1 / 2 then n else if d > 1 / 2 then n + 1 else if even n then n else n + 1)"

definition show_f2 :: "real \<Rightarrow> string" where
  "show_f2 x =
     (let n = nat (round_half_even (100 * \<bar>x\<bar>)) in
      (if x < 0 then ''-'' else []) @ show_nat (n div 100) @ ''.'' @ pad (CHR ''0'') 2 (show_nat (n mod 100)))"

definition result_line :: "nat \<Rightarrow> real \<times> real \<Rightarrow> string" where
  "result_line i r = pad (CHR '' '') 4 (show_nat (i + 1)) @ ''   '' @ pad (CHR '' '') 15 (show_f2 (fst r)) @ ''   '' @
     pad (CHR '' '') 10 (show_f2 (snd r)) @ [nl]"

definition display_results :: "real \<Rightarrow> real \<Rightarrow> int \<Rightarrow> (real \<times> real) list \<Rightarrow> string list option" where
  "display_results monthly_investment annual_interest_rate years results =
     (if years < 1 \<or> int (length results) < years then None
      else Some ([
        ''Monthly Investment: '' @ show_f2 monthly_investment @ [nl],
        ''Yearly Interest Rate: '' @ show_f2 annual_interest_rate @ ''%'' @ [nl],
        ''Years: '' @ show_int years @ [nl],
        [nl] @ ''Future value after '' @ show_int years @ '' years is $'' @ show_f2 (snd (results ! nat (years - 1))) @ [nl],
        [nl] @ ''Year   Accum Interest    Value'' @ [nl],
        ''====   ==============    =========='' @ [nl]]
        @ map (\<lambda>i. result_line i (results ! i)) [0..<nat years]))"

text \<open>The exit status and what is printed on stderr and stdout.\<close>

definition fv_main :: "(real \<Rightarrow> real) \<Rightarrow> string list \<Rightarrow> (int \<times> string list \<times> string list) option" where
  "fv_main rnd argv = (case parse_input rnd argv of
      Inl e \<Rightarrow> Some (1, [e], [])
    | Inr (m, r, y) \<Rightarrow>
        (case calculate_future_value rnd m r y (replicate MAX_YEARS (0, 0)) of
           None \<Rightarrow> None
         | Some results \<Rightarrow> (case display_results m r y results of
              None \<Rightarrow> None
            | Some ls \<Rightarrow> Some (0, [], ls))))"

section \<open>The arguments accepted\<close>

lemma parse_input_range:
  "parse_input rnd argv = Inr (m, r, y) \<Longrightarrow> 1 \<le> m \<and> m \<le> 1000 \<and> 1 \<le> r \<and> r \<le> 15 \<and> 1 \<le> y \<and> y \<le> 50"
  by (auto simp: parse_input_def Let_def split: if_splits prod.splits)

section \<open>The loop\<close>

lemma fv_loop_length:
  "i + k \<le> 12 * length results \<Longrightarrow>
   \<exists>rs. fv_loop rnd mi rate k i fv results = Some rs \<and> length rs = length results"
proof (induction k arbitrary: i fv results)
  case (Suc k)
  then have "(i + 1) div 12 - 1 < length results" if "(i + 1) mod 12 = 0" using that by auto
  moreover have "\<exists>rs. fv_loop rnd mi rate k (Suc i) v rs0 = Some rs \<and> length rs = length results" if "length rs0 = length results" for v rs0
    using Suc.IH [of "Suc i" rs0 v] Suc.prems that by simp
  ultimately show ?case by (simp add: Let_def)
qed simp

text \<open>
  The value after \<open>n\<close> months at the exact monthly rate \<open>q\<close>: each of \<open>n\<close> payments, made at the
  beginning of its month, has borne interest since.
\<close>

definition annuity :: "real \<Rightarrow> real \<Rightarrow> nat \<Rightarrow> real" where
  "annuity mi q n = mi * (\<Sum>j<n. (1 + q) ^ (j + 1))"

lemma annuity_Suc: "annuity mi q (Suc n) = (annuity mi q n + mi) * (1 + q)"
proof -
  have "(\<Sum>j<Suc n. (1 + q) ^ (j + 1)) = (1 + q) + (\<Sum>j<n. (1 + q) ^ (j + 2))"
    by (subst sum.lessThan_Suc_shift) simp
  also have "(\<Sum>j<n. (1 + q) ^ (j + 2)) = (1 + q) * (\<Sum>j<n. (1 + q) ^ (j + 1))"
    by (simp add: sum_distrib_left mult.commute)
  finally show ?thesis by (simp add: annuity_def algebra_simps)
qed

lemma annuity_closed: "q \<noteq> 0 \<Longrightarrow> annuity mi q n = mi * (1 + q) * ((1 + q) ^ n - 1) / q"
  by (induction n) (auto simp: annuity_Suc field_simps, simp add: annuity_def)

lemma fv_loop_exact:
  assumes "i + k \<le> 12 * length results" "fv_loop (\<lambda>x. x) mi q k i (annuity mi q i) results = Some rs"
  shows "\<forall>y < length results. rs ! y = (if 12 * (y + 1) \<le> i + k \<and> i < 12 * (y + 1)
           then (annuity mi q (12 * (y + 1)) - mi * 12 * real (y + 1), annuity mi q (12 * (y + 1))) else results ! y)"
  using assms
proof (induction k arbitrary: i results)
  case (Suc k)
  have fv: "annuity mi q i + mi + (annuity mi q i + mi) * q = annuity mi q (Suc i)" by (simp add: annuity_Suc algebra_simps)
  show ?case
  proof (cases "(i + 1) mod 12 = 0")
    case False
    with Suc.prems(2) have "fv_loop (\<lambda>x. x) mi q k (Suc i) (annuity mi q (Suc i)) results = Some rs" by (simp add: fv Let_def)
    from Suc.IH [OF _ this] Suc.prems(1) have ih: "\<forall>y<length results. rs ! y = (if 12 * (y + 1) \<le> Suc i + k \<and> Suc i < 12 * (y + 1)
           then (annuity mi q (12 * (y + 1)) - mi * 12 * real (y + 1), annuity mi q (12 * (y + 1))) else results ! y)" by simp
    have "i < 12 * (y + 1) \<longleftrightarrow> Suc i < 12 * (y + 1)" for y
    proof -
      have "Suc i \<noteq> 12 * (y + 1)" using False by (metis Suc_eq_plus1 mod_mult_self1_is_0)
      then show ?thesis by linarith
    qed
    with ih show ?thesis by simp
  next
    case True
    then obtain y0 where y0: "Suc i = 12 * (y0 + 1)" by (metis Suc_eq_plus1 mod_0_imp_dvd dvdE mult_is_0 nat.distinct(1) not0_implies_Suc)
    let ?r = "(annuity mi q (Suc i) - mi * 12 * real (y0 + 1), annuity mi q (Suc i))"
    have d: "Suc i div 12 = Suc y0" using y0 by simp
    have len: "y0 < length results" using Suc.prems(1) y0 by simp
    from Suc.prems(2) True have e: "fv_loop (\<lambda>x. x) mi q k (Suc i) (annuity mi q (Suc i)) (results[y0 := ?r]) = Some rs"
      by (simp add: fv Let_def d len del: mult_Suc_right split: if_splits)
    from Suc.IH [OF _ e] Suc.prems(1) have ih: "\<forall>y<length results. rs ! y = (if 12 * (y + 1) \<le> Suc i + k \<and> Suc i < 12 * (y + 1)
           then (annuity mi q (12 * (y + 1)) - mi * 12 * real (y + 1), annuity mi q (12 * (y + 1))) else results[y0 := ?r] ! y)" by simp
    show ?thesis
    proof (intro allI impI)
      fix y assume y: "y < length results"
      show "rs ! y = (if 12 * (y + 1) \<le> i + Suc k \<and> i < 12 * (y + 1)
        then (annuity mi q (12 * (y + 1)) - mi * 12 * real (y + 1), annuity mi q (12 * (y + 1))) else results ! y)"
      proof (cases "y = y0")
        case True
        with ih y len y0 show ?thesis by simp
      next
        case False
        with y0 have "i < 12 * (y + 1) \<longleftrightarrow> Suc i < 12 * (y + 1)" by auto
        with ih y False show ?thesis by simp
      qed
    qed
  qed
qed auto

section \<open>Properties\<close>

text \<open>
  C24. The calculation is right: for a positive rate and up to 50 years, in exact arithmetic, entry
  y of the result table holds the value after 12 (y + 1) months, m (1 + q) ((1 + q)^n - 1) / q with
  q the annual rate divided by 1200, and the interest, that value less the payments made.
\<close>

theorem future_value_exact:
  assumes "0 < r" and "1 \<le> years" "years \<le> 50"
  shows "\<exists>rs. calculate_future_value (\<lambda>x. x) m r years (replicate MAX_YEARS (0, 0)) = Some rs \<and>
    (\<forall>y < nat years. let n = 12 * (y + 1); q = r / 1200; v = m * (1 + q) * ((1 + q) ^ n - 1) / q
       in rs ! y = (v - m * 12 * real (y + 1), v))"
proof -
  let ?q = "r / 1200" let ?k = "nat (years * 12)"
  have q: "r / 12 / 100 = ?q" "?q \<noteq> 0" using assms(1) by simp_all
  have k: "?k = 12 * nat years" using assms by (simp add: nat_mult_distrib)
  have "0 + ?k \<le> 12 * length (replicate MAX_YEARS (0 :: real, 0 :: real))" using assms k by simp
  from fv_loop_length [OF this, of "\<lambda>x. x" m ?q 0] obtain rs where rs: "fv_loop (\<lambda>x. x) m ?q ?k 0 0 (replicate MAX_YEARS (0, 0)) = Some rs" by blast
  have "fv_loop (\<lambda>x. x) m ?q ?k 0 (annuity m ?q 0) (replicate MAX_YEARS (0, 0)) = Some rs"
    using rs by (simp add: annuity_def)
  from fv_loop_exact [OF _ this] assms k have "rs ! y = (annuity m ?q (12 * (y + 1)) - m * 12 * real (y + 1), annuity m ?q (12 * (y + 1)))"
    if "y < nat years" for y using that by simp
  with rs q show ?thesis by (auto simp: calculate_future_value_def Let_def annuity_closed)
qed

theorem future_value_exact_witness:
  "\<exists>rs. calculate_future_value (\<lambda>x. x) 100 12 2 (replicate MAX_YEARS (0, 0)) = Some rs \<and>
    (\<forall>y < nat 2. let n = 12 * (y + 1); q = 12 / 1200; v = 100 * (1 + q) * ((1 + q) ^ n - 1) / q
       in rs ! y = (v - 100 * 12 * real (y + 1), v))"
  by (rule future_value_exact) simp_all

text \<open>
  The program is safe for every command line and every rounding: it never indexes its table out
  of range, and it ends with status 0 and one line per year after the six heading lines, or with
  status 1 and exactly one error message.
\<close>

theorem fv_main_total:
  "\<exists>status errs ls. fv_main rnd argv = Some (status, errs, ls) \<and>
     (status = 0 \<and> errs = [] \<and> 7 \<le> length ls \<and> length ls \<le> 56 \<or> status = 1 \<and> length errs = 1 \<and> ls = [])"
proof (cases "parse_input rnd argv")
  case (Inl e)
  then show ?thesis by (simp add: fv_main_def)
next
  case (Inr p)
  obtain m r y where p: "p = (m, r, y)" by (cases p)
  with Inr have y: "1 \<le> y" "y \<le> 50" using parse_input_range [of rnd argv m r y] by auto
  have "0 + nat (y * 12) \<le> 12 * length (replicate MAX_YEARS (0 :: real, 0 :: real))" using y by simp
  from fv_loop_length [OF this, of rnd m "rnd (rnd (r / 12) / 100)" 0] obtain rs where "calculate_future_value rnd m r y (replicate MAX_YEARS (0, 0)) = Some rs" "length rs = 50"
    by (auto simp: calculate_future_value_def Let_def)
  moreover have "1 \<le> nat y" "nat y \<le> 50" using y by linarith+
  ultimately show ?thesis using Inr p y by (simp add: fv_main_def display_results_def)
qed

end
