(* ===== verification/System_Info.thy ===== *)
theory System_Info
  imports C_Prog Future_Value
begin

text \<open>
  The system information printer, \<^verbatim>\<open>src/M5/system_info.c\<close>. The state gives the contents of the files
  under \<^verbatim>\<open>/proc\<close> (\<open>None\<close> for one that cannot be opened) and collects the output. Reading a buffer or
  a variable that a failed \<^verbatim>\<open>fgets\<close> or \<^verbatim>\<open>sscanf\<close> left unset is a fault (\<open>Uninitialised\<close>). The \<^verbatim>\<open>float\<close>
  arithmetic of the uptime is exact arithmetic followed by \<open>rnd\<close>; \<^verbatim>\<open>%f\<close> reads a decimal number, the
  form the kernel writes.
\<close>

section \<open>State and the C library\<close>

record sysinfo =
  proc :: "string \<Rightarrow> string option"
  sout :: "io list"

type_synonym 'a sprog = "(sysinfo, 'a) cprog"

definition say :: "io \<Rightarrow> unit sprog" where
  "say e = modify (\<lambda>s. s\<lparr>sout := sout s @ [e]\<rparr>)"

text \<open>\<^verbatim>\<open>fopen\<close>, or \<^verbatim>\<open>perror\<close> and \<^verbatim>\<open>exit(1)\<close>.\<close>

definition open_or_exit :: "string \<Rightarrow> string \<Rightarrow> string sprog" where
  "open_or_exit path msg =
     bnd (gets (\<lambda>s. proc s path)) (\<lambda>f.
     case f of None \<Rightarrow> sq (say (Err msg)) (exit_with 1) | Some c \<Rightarrow> ret c)"

text \<open>\<^verbatim>\<open>sscanf\<close> pieces: a literal, and \<^verbatim>\<open>%ld\<close>; both give what follows.\<close>

definition scan_lit :: "string \<Rightarrow> string \<Rightarrow> string option" where
  "scan_lit l s = (if take (length l) s = l then Some (drop (length l) s) else None)"

definition scan_ld :: "string \<Rightarrow> (int \<times> string) option" where
  "scan_ld s = (let (v, r) = strtol10 s in if r = s then None else Some (v, r))"

definition the_init :: "'a option \<Rightarrow> 'a sprog" where
  "the_init x = (case x of None \<Rightarrow> fault Uninitialised | Some v \<Rightarrow> ret v)"

section \<open>The program\<close>

definition first_line :: "string \<Rightarrow> string sprog" where
  "first_line c = (case fgets 256 c of None \<Rightarrow> fault Uninitialised | Some (l, _) \<Rightarrow> ret l)"

definition get_host_name :: "unit sprog" where
  "get_host_name =
     bnd (open_or_exit ''/proc/sys/kernel/hostname'' ''Failed to read host name'') (\<lambda>file.
     bnd (first_line file) (\<lambda>host_name.
     say (Out (''Current Host Name:           '' @ host_name))))"

text \<open>\<^verbatim>\<open>line + k\<close> as a string: behind the terminator there is nothing the program has set.\<close>

definition tail_from :: "nat \<Rightarrow> string \<Rightarrow> string sprog" where
  "tail_from k line = (if length line < k then fault Uninitialised else ret (drop k line))"

function cpu_lines :: "string \<Rightarrow> unit sprog" where
  "cpu_lines file = (case fgets 256 file of
      None \<Rightarrow> ret ()
    | Some (line, rest) \<Rightarrow>
        sq (if strncmp_eq line ''model name'' 10
            then bnd (tail_from 13 line) (\<lambda>t. say (Out (''CPU Model:                   '' @ t)))
            else ret ())
        (if strncmp_eq line ''processor'' 9
         then bnd (tail_from 11 line) (\<lambda>t. say (Out (''CPU Cores:                   '' @ show_int (atoi t) @ [nl])))
         else cpu_lines rest))"
  by pat_completeness auto
termination
  by (relation "measure length") (auto dest: fgets_shorter [of 254, simplified])

definition get_cpu_info :: "unit sprog" where
  "get_cpu_info = bnd (open_or_exit ''/proc/cpuinfo'' ''Failed to read CPU info'') cpu_lines"

definition get_kernel_version :: "unit sprog" where
  "get_kernel_version =
     bnd (open_or_exit ''/proc/version'' ''Failed to read kernel version'') (\<lambda>file.
     bnd (first_line file) (\<lambda>version.
     say (Out (''Kernel Version               '' @ version))))"

text \<open>Conversion of a floating-point number to \<^verbatim>\<open>int\<close>: towards zero.\<close>

definition trunc :: "real \<Rightarrow> int" where
  "trunc x = (if 0 \<le> x then \<lfloor>x\<rfloor> else \<lceil>x\<rceil>)"

definition uptime_fields :: "(real \<Rightarrow> real) \<Rightarrow> real \<Rightarrow> int \<times> int \<times> int \<times> int" where
  "uptime_fields rnd u =
     (let days = trunc (rnd (u / 86400));
          hours = trunc (rnd (rnd (u - rnd (of_int (days * 24 * 3600))) / 3600));
          minutes = trunc (rnd (rnd (rnd (u - rnd (of_int (days * 24 * 3600))) - rnd (of_int (hours * 3600))) / 60));
          seconds = trunc (rnd (rnd (rnd (u - rnd (of_int (days * 24 * 3600))) - rnd (of_int (hours * 3600))) -
                      rnd (of_int (minutes * 60))))
      in (days, hours, minutes, seconds))"

definition get_uptime :: "(real \<Rightarrow> real) \<Rightarrow> unit sprog" where
  "get_uptime rnd =
     bnd (open_or_exit ''/proc/uptime'' ''Failed to read uptime'') (\<lambda>file.
     let t = dropWhile isspace file; (u, r) = strtod rnd t in
     if r = t then fault Uninitialised
     else let (days, hours, minutes, seconds) = uptime_fields rnd u in
       say (Out (''Uptime:                      '' @ show_int days @ '':'' @ pad (CHR ''0'') 2 (show_int hours) @ '':'' @
         pad (CHR ''0'') 2 (show_int minutes) @ '':'' @ pad (CHR ''0'') 2 (show_int seconds) @ [nl])))"

text \<open>\<^verbatim>\<open>sscanf(line, "cpu  %ld %*d %ld %ld", ...)\<close>: the values assigned before the first mismatch.\<close>

definition scan_cpu :: "string \<Rightarrow> int option \<times> int option \<times> int option" where
  "scan_cpu line = (case scan_lit ''cpu'' line of None \<Rightarrow> (None, None, None)
     | Some s1 \<Rightarrow> (case scan_ld s1 of None \<Rightarrow> (None, None, None)
       | Some (user, s2) \<Rightarrow> (case scan_ld s2 of None \<Rightarrow> (Some user, None, None)
         | Some (_, s3) \<Rightarrow> (case scan_ld s3 of None \<Rightarrow> (Some user, None, None)
           | Some (system, s4) \<Rightarrow> (case scan_ld s4 of None \<Rightarrow> (Some user, Some system, None)
             | Some (idle, _) \<Rightarrow> (Some user, Some system, Some idle))))))"

definition get_cpu_usage :: "unit sprog" where
  "get_cpu_usage =
     bnd (open_or_exit ''/proc/stat'' ''Failed to read CPU usage'') (\<lambda>file.
     bnd (first_line file) (\<lambda>line.
     let (user, system, idle) = scan_cpu line in
     bnd (the_init user) (\<lambda>u.
     sq (say (Out (''Time Spent in User Mode:     '' @ show_int u @ '' ms'' @ [nl])))
     (bnd (the_init system) (\<lambda>sy.
     sq (say (Out (''Time Spent in System Mode:   '' @ show_int sy @ '' ms'' @ [nl])))
     (bnd (the_init idle) (\<lambda>i.
     say (Out (''Time Spent in Idle Mode:     '' @ show_int i @ '' ms'' @ [nl])))))))))"

definition scan_mem :: "string \<Rightarrow> string \<Rightarrow> int option \<Rightarrow> int option" where
  "scan_mem key line old = (if strncmp_eq line key (length key)
     then (case scan_lit (key @ '':'') line of None \<Rightarrow> old
       | Some s \<Rightarrow> (case scan_ld s of None \<Rightarrow> old | Some (v, _) \<Rightarrow> Some v))
     else old)"

function mem_lines :: "string \<Rightarrow> int option \<Rightarrow> int option \<Rightarrow> int option \<times> int option" where
  "mem_lines file mem_total mem_free = (case fgets 256 file of
      None \<Rightarrow> (mem_total, mem_free)
    | Some (line, rest) \<Rightarrow> mem_lines rest (scan_mem ''MemTotal'' line mem_total) (scan_mem ''MemFree'' line mem_free))"
  by pat_completeness auto
termination
  by (relation "measure (\<lambda>(f, _, _). length f)") (auto dest: fgets_shorter [of 254, simplified])

definition get_memory_info :: "unit sprog" where
  "get_memory_info =
     bnd (open_or_exit ''/proc/meminfo'' ''Failed to read memory info'') (\<lambda>file.
     let (mem_total, mem_free) = mem_lines file None None in
     bnd (the_init mem_total) (\<lambda>t.
     sq (say (Out (''Memory Configured:           '' @ show_int t @ '' kB'' @ [nl])))
     (bnd (the_init mem_free) (\<lambda>f.
     say (Out (''Memory Available:            '' @ show_int f @ '' kB'' @ [nl]))))))"

definition system_info_main :: "(real \<Rightarrow> real) \<Rightarrow> int sprog" where
  "system_info_main rnd =
     (let rule = replicate 76 (CHR ''-'') @ [nl] in
      sq (say (Out rule))
      (sq (say (Out (''                             System Information'' @ [nl])))
      (sq (say (Out rule))
      (sq get_host_name
      (sq get_cpu_info
      (sq get_kernel_version
      (sq (get_uptime rnd)
      (sq get_cpu_usage
      (sq get_memory_info
      (sq (say (Out rule))
      (ret 0)))))))))))"

section \<open>What it prints\<close>

lemma trunc_div:
  assumes "0 \<le> u" and "0 < k"
  shows "trunc (u / real_of_int k) = \<lfloor>u\<rfloor> div k"
  using assms by (simp add: trunc_def floor_divide_real_eq_div)

lemma mixed_radix:
  "(n::int) = q1 * 86400 + a \<Longrightarrow> a = q2 * 3600 + b \<Longrightarrow> b = q3 * 60 + c \<Longrightarrow>
   ((q1 * 24 + q2) * 60 + q3) * 60 + c = n"
  by simp

lemma div_digit:
  assumes "0 < k" and "0 \<le> a" and "a < k * (b::int)"
  shows "0 \<le> a div k \<and> a div k < b"
proof -
  have "k * (a div k) \<le> a" using assms(1) minus_mod_eq_mult_div [of a k] pos_mod_sign [of k a] by linarith
  with assms(3) have "k * (a div k) < k * b" by linarith
  with assms show ?thesis by (simp add: pos_imp_zdiv_nonneg_iff)
qed

text \<open>
  In exact arithmetic the four numbers of the uptime line are its mixed-radix form: hours are
  below 24, minutes and seconds below 60, and together they are the whole seconds of the uptime.
\<close>

theorem uptime_fields_exact:
  assumes "0 \<le> u" and "uptime_fields (\<lambda>x. x) u = (d, h, mi, s)"
  shows "0 \<le> d \<and> 0 \<le> h \<and> h < 24 \<and> 0 \<le> mi \<and> mi < 60 \<and> 0 \<le> s \<and> s < 60 \<and>
    ((d * 24 + h) * 60 + mi) * 60 + s = \<lfloor>u\<rfloor>"
proof -
  let ?n = "\<lfloor>u\<rfloor>"
  have n: "0 \<le> ?n" using assms(1) by simp
  have d: "d = ?n div 86400"
    using assms trunc_div [of u 86400] by (simp add: uptime_fields_def Let_def)
  define u2 where "u2 = u - of_int (d * 24 * 3600)"
  have u2: "\<lfloor>u2\<rfloor> = ?n mod 86400"
    using floor_diff_of_int [of u "d * 24 * 3600"] minus_div_mult_eq_mod [of ?n 86400] by (simp add: u2_def d)
  then have p2: "0 \<le> u2" by (metis Euclidean_Rings.pos_mod_sign zero_le_floor zero_less_numeral)
  have h0: "h = trunc (u2 / 3600)" using assms(2) by (auto simp: uptime_fields_def Let_def u2_def)
  have h: "h = ?n mod 86400 div 3600"
    using h0 trunc_div [OF p2, of 3600] u2 by simp
  define u3 where "u3 = u2 - of_int (h * 3600)"
  have u3: "\<lfloor>u3\<rfloor> = ?n mod 86400 mod 3600"
    using floor_diff_of_int [of u2 "h * 3600"] minus_div_mult_eq_mod [of "?n mod 86400" 3600] by (simp add: u3_def h u2)
  then have p3: "0 \<le> u3" by (metis Euclidean_Rings.pos_mod_sign zero_le_floor zero_less_numeral)
  have mi: "mi = ?n mod 86400 mod 3600 div 60"
    using assms(2) trunc_div [OF p3, of 60] u3 by (auto simp: uptime_fields_def Let_def u2_def u3_def)
  have s0: "s = trunc (u3 - of_int (mi * 60))"
    using assms(2) by (auto simp: uptime_fields_def Let_def u2_def u3_def)
  have "\<lfloor>u3 - of_int (mi * 60)\<rfloor> = ?n mod 86400 mod 3600 mod 60"
    using floor_diff_of_int [of u3 "mi * 60"] minus_div_mult_eq_mod [of "?n mod 86400 mod 3600" 60] by (simp add: mi u3)
  moreover from this have "0 \<le> u3 - of_int (mi * 60)"
    by (metis Euclidean_Rings.pos_mod_sign zero_le_floor zero_less_numeral)
  ultimately have s: "s = ?n mod 86400 mod 3600 mod 60" using s0 by (simp add: trunc_def)
  let ?a = "?n mod 86400" and ?b = "?n mod 86400 mod 3600"
  have "?n = ?n div 86400 * 86400 + ?a" "?a = ?a div 3600 * 3600 + ?b" "?b = ?b div 60 * 60 + ?b mod 60"
    by (rule div_mult_mod_eq [symmetric])+
  then have sum_eq: "((d * 24 + h) * 60 + mi) * 60 + s = ?n" unfolding d h mi s by (rule mixed_radix)
  have "0 \<le> d" unfolding d using n by (simp add: pos_imp_zdiv_nonneg_iff)
  moreover have "0 \<le> h \<and> h < 24" unfolding h by (rule div_digit) simp_all
  moreover have "0 \<le> mi \<and> mi < 60" unfolding mi by (rule div_digit) simp_all
  moreover have "0 \<le> s \<and> s < 60" unfolding s by simp
  ultimately show ?thesis using sum_eq by blast
qed

theorem uptime_fields_exact_witness:
  "uptime_fields (\<lambda>x. x) 90061 = (1, 1, 1, 1) \<and> ((1 * 24 + 1) * 60 + 1) * 60 + 1 = (90061::int)"
proof -
  have e: "uptime_fields (\<lambda>x. x) 90061 = (1, 1, 1, 1)"
    by (simp add: uptime_fields_def trunc_def Let_def)
  from uptime_fields_exact [OF _ this] e show ?thesis by simp
qed

text \<open>
  On a file that begins, as the kernel's does, with the line of processor \<open>n\<close>, the CPU report
  is the single line \<open>CPU Cores: n\<close>: the index of the first processor, whatever the file says about
  cores and models further down.
\<close>

theorem get_cpu_info_first_processor:
  assumes f: "proc s ''/proc/cpuinfo'' = Some (''processor'' @ CHR 0x09 # '': '' @ show_int (int n) @ nl # rest)"
    and n: "n < 10 ^ 9"
  shows "get_cpu_info s =
    (Return (), s\<lparr>sout := sout s @ [Out (''CPU Cores:                   '' @ show_int (int n) @ [nl])]\<rparr>)"
proof -
  let ?line = "''processor'' @ CHR 0x09 # '': '' @ show_int (int n) @ [nl]"
  have nn: "nl \<notin> set (show_nat n)" using show_nat_digits [of n] by (auto simp: isdigit_def)
  have len: "length (show_nat n) \<le> 9" using length_show_nat [of n 8] n by simp
  have "takeWhile (\<lambda>c. c \<noteq> nl) (show_nat n @ nl # rest) = show_nat n"
    using nn by (auto simp: takeWhile_append)
  then have g: "fgets 256 (''processor'' @ CHR 0x09 # '': '' @ show_int (int n) @ nl # rest) = Some (?line, rest)"
    using len by (simp add: fgets_def upto_nl_def show_int_def)
  have sp: "dropWhile isspace (CHR '' '' # show_nat n @ [nl]) = dropWhile isspace (show_nat n @ [nl])"
    by (simp add: isspace_def)
  have "strtol10 (CHR '' '' # show_nat n @ [nl]) = (int n, [nl])"
    using n strtol10_show_nat [of n "[nl]"] unfolding strtol10_def sp
    by (simp add: isdigit_def split_sign_show_nat split: if_splits)
  then have "atoi (drop 11 ?line) = int n"
    using n by (simp add: atoi_def show_int_def i32_id)
  then show ?thesis using f
    by (simp add: get_cpu_info_def open_or_exit_def prog_simps g [simplified] cpu_lines.simps [of "_ # _"] strncmp_eq_def tail_from_def say_def)
qed

theorem get_cpu_info_first_processor_witness:
  "get_cpu_info \<lparr>proc = [''/proc/cpuinfo'' \<mapsto> ''processor'' @ CHR 0x09 # '': 0'' @ [nl] @ ''model name'' @ CHR 0x09 # '': X'' @ [nl]], sout = []\<rparr> =
   (Return (), \<lparr>proc = [''/proc/cpuinfo'' \<mapsto> ''processor'' @ CHR 0x09 # '': 0'' @ [nl] @ ''model name'' @ CHR 0x09 # '': X'' @ [nl]],
      sout = [Out (''CPU Cores:                   0'' @ [nl])]\<rparr>)"
  using get_cpu_info_first_processor [of _ 0]
  by (simp add: show_eval)

end
