(* ===== verification/Proxy_Main.thy ===== *)
theory Proxy_Main
  imports Http_Proxy
begin

text \<open>
  The main program of the proxy, \<^verbatim>\<open>src/proxy_server/main.c\<close>. It links against \<^verbatim>\<open>librequest.a\<close>, of which the
  repository has the headers and a binary: the library is the argument \<open>lib\<close> of the definitions, its state an
  arbitrary type, and the properties name what they use of the documented behaviour.

  What the system does is in the state: the outcome of \<^verbatim>\<open>socket\<close>, \<^verbatim>\<open>bind\<close> and \<^verbatim>\<open>listen\<close>, and for every round of
  the accept loop whether SIGINT arrived before its test, which \<^verbatim>\<open>malloc\<close> succeeded and what \<^verbatim>\<open>accept\<close> returned.
\<close>

section \<open>State\<close>

record 'l reqlib =
  lib_queue_init :: "'l \<Rightarrow> 'l"
  lib_thread_pool_init :: "int \<Rightarrow> 'l \<Rightarrow> 'l"
  lib_queue_enqueue :: "addr \<Rightarrow> 'l \<Rightarrow> 'l"
  lib_thread_pool_destroy :: "'l \<Rightarrow> 'l"
  lib_queue_destroy :: "'l \<Rightarrow> 'l"

text \<open>One round: \<open>acc\<close> is \<open>None\<close> when the signal interrupts \<^verbatim>\<open>accept\<close>, else its result (-1 is an error).\<close>

record iteration =
  sig_head :: bool
  mem_socket :: bool
  acc :: "int option"
  mem_request :: bool

datatype preq_fn = Handle_client_request_thread

record 'l proxy =
  plib :: 'l
  cells :: "addr \<rightharpoonup> int"
  preqs :: "addr \<rightharpoonup> preq_fn \<times> addr"
  pbrk :: addr
  shutdown_requested :: bool
  server_socket :: int
  sys_results :: "int \<times> int \<times> int"
  fds_closed :: "int list"
  pout :: "io list"

type_synonym ('l, 'a) pprog = "('l proxy, 'a) cprog"

definition pprint :: "io \<Rightarrow> ('l, unit) pprog" where
  "pprint e = modify (\<lambda>s. s\<lparr>pout := pout s @ [e]\<rparr>)"

definition pclose :: "int \<Rightarrow> ('l, unit) pprog" where
  "pclose fd = modify (\<lambda>s. s\<lparr>fds_closed := fds_closed s @ [fd]\<rparr>)"

text \<open>\<^verbatim>\<open>malloc\<close> of an object: \<open>NULL\<close> when there is no memory.\<close>

definition malloc_cell :: "bool \<Rightarrow> ('l, addr) pprog" where
  "malloc_cell ok = (\<lambda>s. if ok then (Return (pbrk s), s\<lparr>pbrk := Suc (pbrk s)\<rparr>) else (Return NULL, s))"

section \<open>The program\<close>

definition sigint_handler :: "('l, unit) pprog" where
  "sigint_handler =
     sq (modify (\<lambda>s. s\<lparr>shutdown_requested := True\<rparr>))
     (sq (bnd (gets server_socket) pclose)
     (pprint (Out ([nl] @ ''SIGINT received. Server shutting down gracefully...'' @ [nl]))))"

text \<open>\<^verbatim>\<open>accept\<close>: the handler runs if the signal arrives meanwhile, and the call returns -1.\<close>

definition accept :: "int option \<Rightarrow> ('l, int) pprog" where
  "accept a = (case a of None \<Rightarrow> sq sigint_handler (ret (-1)) | Some fd \<Rightarrow> ret fd)"

fun accept_loop :: "'l reqlib \<Rightarrow> iteration list \<Rightarrow> ('l, unit) pprog" where
  "accept_loop lib [] = (\<lambda>s. (Blocks, s))"
| "accept_loop lib (e # es) =
     sq (if sig_head e then sigint_handler else ret ())
     (bnd (gets shutdown_requested) (\<lambda>stop.
     if stop then ret () else
     bnd (malloc_cell (mem_socket e)) (\<lambda>client_socket.
     if client_socket = NULL then accept_loop lib es else
     bnd (accept (acc e)) (\<lambda>fd.
     sq (modify (\<lambda>s. s\<lparr>cells := (cells s)(client_socket \<mapsto> fd)\<rparr>))
     (if fd = -1 then
        sq (modify (\<lambda>s. s\<lparr>cells := (cells s)(client_socket := None)\<rparr>))
        (bnd (gets shutdown_requested) (\<lambda>stop.
        if stop then ret () else sq (pprint (Err ''accept'')) (accept_loop lib es)))
      else
      bnd (malloc_cell (mem_request e)) (\<lambda>request.
      if request = NULL then
        sq (modify (\<lambda>s. s\<lparr>cells := (cells s)(client_socket := None)\<rparr>)) (accept_loop lib es)
      else
      sq (modify (\<lambda>s. s\<lparr>preqs := (preqs s)(request \<mapsto> (Handle_client_request_thread, client_socket))\<rparr>))
      (sq (modify (\<lambda>s. s\<lparr>plib := lib_queue_enqueue lib request (plib s)\<rparr>))
      (accept_loop lib es))))))))"

definition fail_setup :: "string \<Rightarrow> bool \<Rightarrow> ('l, unit) pprog" where
  "fail_setup msg close_it =
     sq (pprint (Err msg))
     (sq (if close_it then bnd (gets server_socket) pclose else ret ())
     (exit_with EXIT_FAILURE))"

definition proxy_main :: "'l reqlib \<Rightarrow> string list \<Rightarrow> iteration list \<Rightarrow> ('l, int) pprog" where
  "proxy_main lib argv es =
     (let num_threads = (if length argv = 2 then atoi (argv ! 1) else 2) in
      sq (modify (\<lambda>s. s\<lparr>plib := lib_queue_init lib (plib s)\<rparr>))
      (sq (modify (\<lambda>s. s\<lparr>plib := lib_thread_pool_init lib num_threads (plib s)\<rparr>))
      (bnd (gets sys_results) (\<lambda>(sock, bind_r, listen_r).
      sq (modify (\<lambda>s. s\<lparr>server_socket := sock\<rparr>))
      (sq (if sock = -1 then fail_setup ''socket'' False else ret ())
      (sq (if bind_r = -1 then fail_setup ''bind'' True else ret ())
      (sq (if listen_r = -1 then fail_setup ''listen'' True else ret ())
      (sq (pprint (Out (''Proxy server listening on port '' @ show_int 8080 @ [nl])))
      (sq (accept_loop lib es)
      (sq (modify (\<lambda>s. s\<lparr>plib := lib_thread_pool_destroy lib (plib s)\<rparr>))
      (sq (modify (\<lambda>s. s\<lparr>plib := lib_queue_destroy lib (plib s)\<rparr>))
      (sq (bnd (gets server_socket) pclose)
      (ret EXIT_SUCCESS)))))))))))))"

section \<open>Where the clients go\<close>

text \<open>The connections of the rounds up to the first that stops, as far as there was memory for them.\<close>

fun accepted :: "iteration list \<Rightarrow> int list" where
  "accepted [] = []"
| "accepted (e # es) =
     (if sig_head e \<or> mem_socket e \<and> acc e = None then []
      else if mem_socket e \<and> mem_request e \<and> acc e \<noteq> Some (-1) then the (acc e) # accepted es
      else accepted es)"

text \<open>A request on the queue that stands for the connection \<open>fd\<close>, and what the loop keeps.\<close>

definition stands_for :: "'l proxy \<Rightarrow> addr \<Rightarrow> int \<Rightarrow> bool" where
  "stands_for s r fd \<longleftrightarrow> (\<exists>a. preqs s r = Some (Handle_client_request_thread, a) \<and> cells s a = Some fd \<and> r < pbrk s \<and> a < pbrk s)"

lemma stands_for_keep:
  "stands_for s r fd \<Longrightarrow> (\<And>a. a < pbrk s \<Longrightarrow> preqs s' a = preqs s a \<and> cells s' a = cells s a) \<Longrightarrow> pbrk s \<le> pbrk s' \<Longrightarrow>
   stands_for s' r fd"
  unfolding stands_for_def by (metis order_less_le_trans)

definition grows :: "'l proxy \<Rightarrow> 'l proxy \<Rightarrow> bool" where
  "grows s s' \<longleftrightarrow> pbrk s \<le> pbrk s' \<and> server_socket s' = server_socket s \<and>
     (\<forall>a < pbrk s. preqs s' a = preqs s a \<and> cells s' a = cells s a) \<and>
     (\<exists>k. fds_closed s' = fds_closed s @ replicate k (server_socket s))"

lemma grows_refl [simp]: "grows s s"
  by (auto simp: grows_def intro: exI [of _ 0])

lemma grows_trans: "grows s s' \<Longrightarrow> grows s' s'' \<Longrightarrow> grows s s''"
  unfolding grows_def by (auto simp: replicate_add [symmetric])

lemma sigint_handler_run:
  "sigint_handler s = (Return (), s\<lparr>shutdown_requested := True, fds_closed := fds_closed s @ [server_socket s],
     pout := pout s @ [Out ([nl] @ ''SIGINT received. Server shutting down gracefully...'' @ [nl])]\<rparr>)"
  by (simp add: sigint_handler_def pclose_def pprint_def prog_simps)

lemma grows_handler: "grows s (snd (sigint_handler s))"
  by (auto simp: sigint_handler_run grows_def intro: exI [of _ 1])

text \<open>One round is followed by the rest of the loop: \<open>new\<close> are the requests it put on the queue.\<close>

definition loop_result :: "('l \<Rightarrow> addr list) \<Rightarrow> 'l proxy \<Rightarrow> 'l proxy \<Rightarrow> int list \<Rightarrow> bool" where
  "loop_result items s s' cs \<longleftrightarrow> grows s s' \<and>
     (\<exists>rs. items (plib s') = items (plib s) @ rs \<and> list_all2 (stands_for s') rs cs)"

lemma loop_result_step:
  "grows s s1 \<Longrightarrow> plib s1 = plib s \<Longrightarrow> loop_result items s1 s' cs \<Longrightarrow> loop_result items s s' cs"
  unfolding loop_result_def using grows_trans by fastforce

lemma loop_result_enqueue:
  assumes "grows s s1" and "items (plib s1) = items (plib s) @ [r]" and "stands_for s1 r fd" and "loop_result items s1 s' cs"
  shows "loop_result items s s' (fd # cs)"
proof -
  from assms(4) obtain rs where rs: "grows s1 s'" "items (plib s') = items (plib s1) @ rs" "list_all2 (stands_for s') rs cs"
    by (auto simp: loop_result_def)
  have "stands_for s' r fd" using rs(1) by (intro stands_for_keep [OF assms(3)]) (auto simp: grows_def)
  with rs assms(2) have "items (plib s') = items (plib s) @ (r # rs)" "list_all2 (stands_for s') (r # rs) (fd # cs)" by simp_all
  with grows_trans [OF assms(1) rs(1)] show ?thesis unfolding loop_result_def by blast
qed

lemma accept_loop_result:
  assumes enq: "\<And>r l. items (lib_queue_enqueue lib r l) = items l @ [r]"
  shows "accept_loop lib es s = (Return (), s') \<Longrightarrow> 0 < pbrk s \<Longrightarrow> \<not> shutdown_requested s \<Longrightarrow>
    loop_result items s s' (accepted es)"
proof (induction es arbitrary: s)
  case (Cons e es)
  note IH = Cons.IH and run = Cons.prems(1)
  from Cons.prems have b: "pbrk s \<noteq> 0" "\<not> shutdown_requested s" by simp_all
  show ?case
  proof (cases "sig_head e")
    case True
    with run b have "s' = snd (sigint_handler s)" by (simp add: sigint_handler_run prog_simps)
    with True grows_handler [of s] show ?thesis by (simp add: loop_result_def sigint_handler_run)
  next
    case False
    show ?thesis
    proof (cases "mem_socket e")
      case F: False
      with run False b have "accept_loop lib es s = (Return (), s')" by (simp add: malloc_cell_def prog_simps)
      from IH [OF this] b False F show ?thesis by simp
    next
      case mem: True
      let ?s1 = "s\<lparr>pbrk := Suc (pbrk s)\<rparr>"
      show ?thesis
      proof (cases "acc e")
        case None
        with run False mem b have "s' = (snd (sigint_handler ?s1))\<lparr>cells := (cells s)(pbrk s := None)\<rparr>"
          by (simp add: malloc_cell_def accept_def sigint_handler_run prog_simps)
        with None mem show ?thesis by (auto simp: loop_result_def grows_def sigint_handler_run intro: exI [of _ 1])
      next
        case (Some fd)
        show ?thesis
        proof (cases "fd = -1")
          case True
          let ?s2 = "?s1\<lparr>cells := (cells s)(pbrk s := None), pout := pout s @ [Err ''accept'']\<rparr>"
          from run False mem b Some True have "accept_loop lib es ?s2 = (Return (), s')"
            by (simp add: malloc_cell_def accept_def pprint_def prog_simps)
          from loop_result_step [OF _ _ IH [OF this], of s] b Some True False mem show ?thesis
            by (auto simp: grows_def intro: exI [of _ 0])
        next
          case fd: False
          show ?thesis
          proof (cases "mem_request e")
            case F: False
            let ?s2 = "?s1\<lparr>cells := (cells s)(pbrk s := None)\<rparr>"
            from run False mem b Some fd F have "accept_loop lib es ?s2 = (Return (), s')"
              by (simp add: malloc_cell_def accept_def prog_simps)
            from loop_result_step [OF _ _ IH [OF this], of s] b Some False mem F show ?thesis
              by (auto simp: grows_def intro: exI [of _ 0])
          next
            case T: True
            let ?r = "Suc (pbrk s)"
            let ?s2 = "s\<lparr>cells := (cells s)(pbrk s \<mapsto> fd), pbrk := Suc ?r,
              preqs := (preqs s)(?r \<mapsto> (Handle_client_request_thread, pbrk s)), plib := lib_queue_enqueue lib ?r (plib s)\<rparr>"
            from run False mem b Some fd T have "accept_loop lib es ?s2 = (Return (), s')"
              by (simp add: malloc_cell_def accept_def prog_simps)
            from IH [OF this] b have "loop_result items ?s2 s' (accepted es)" by simp
            moreover have "grows s ?s2" by (auto simp: grows_def intro: exI [of _ 0])
            ultimately show ?thesis using loop_result_enqueue [of s ?s2 items ?r fd s' "accepted es"] enq Some False mem T fd
              by (simp add: stands_for_def)
          qed
        qed
      qed
    qed
  qed
qed simp


text \<open>The library as a list of requests; two clients, an out-of-memory round and the signal.\<close>

definition list_lib :: "addr list reqlib" where
  "list_lib = \<lparr>lib_queue_init = (\<lambda>_. []), lib_thread_pool_init = (\<lambda>_ l. l), lib_queue_enqueue = (\<lambda>r l. l @ [r]),
     lib_thread_pool_destroy = (\<lambda>l. l), lib_queue_destroy = (\<lambda>_. [])\<rparr>"

definition proxy0 :: "addr list proxy" where
  "proxy0 = \<lparr>plib = [], cells = Map.empty, preqs = Map.empty, pbrk = 1, shutdown_requested = False, server_socket = 0,
     sys_results = (3, 0, 0), fds_closed = [], pout = []\<rparr>"

definition two_clients :: "iteration list" where
  "two_clients = [\<lparr>sig_head = False, mem_socket = True, acc = Some 4, mem_request = True\<rparr>,
     \<lparr>sig_head = False, mem_socket = True, acc = Some 5, mem_request = False\<rparr>,
     \<lparr>sig_head = False, mem_socket = True, acc = Some 6, mem_request = True\<rparr>,
     \<lparr>sig_head = False, mem_socket = True, acc = None, mem_request = True\<rparr>]"


end
