(* ===== verification/Book_Common.thy ===== *)
theory Book_Common
  imports C_Prog
begin

text \<open>
  The code all programs under \<^verbatim>\<open>src/booksrc\<close> share: \<^verbatim>\<open>common.c\<close> and the macros of \<^verbatim>\<open>common.h\<close>. The programs run
  on extensions of the record \<open>bk\<close>: what was written to stdout and stderr, the text of \<^verbatim>\<open>errno\<close> (\<open>None\<close> when it is
  0), the outcomes of the coming \<^verbatim>\<open>malloc\<close> calls (a success once the list is used up) and the flag \<^verbatim>\<open>gVerbose\<close> of
  the program.
\<close>

section \<open>State\<close>

record bk =
  bout :: "io list"
  berrno :: "string option"
  bmem :: "bool list"
  gVerbose :: bool

type_synonym ('x, 'a) bprog = "('x bk_scheme, 'a) cprog"

definition printf :: "string \<Rightarrow> ('x, unit) bprog" where
  "printf msg = modify (\<lambda>s. s\<lparr>bout := bout s @ [Out msg]\<rparr>)"

definition eprintf :: "string \<Rightarrow> ('x, unit) bprog" where
  "eprintf msg = modify (\<lambda>s. s\<lparr>bout := bout s @ [Err msg]\<rparr>)"

text \<open>Whether the next \<^verbatim>\<open>malloc\<close> gives memory.\<close>

definition malloc_ok :: "('x, bool) bprog" where
  "malloc_ok = (\<lambda>s. case bmem s of [] \<Rightarrow> (Return True, s) | b # bs \<Rightarrow> (Return b, s\<lparr>bmem := bs\<rparr>))"

section \<open>Errors: common.c and common.h\<close>

text \<open>\<^verbatim>\<open>vsnprintf(s, 511, ...)\<close> keeps 510 characters. Without memory nothing is printed and nothing ends.\<close>

definition handle_err :: "int \<Rightarrow> string \<Rightarrow> ('x, int) bprog" where
  "handle_err fatal msg =
     bnd malloc_ok (\<lambda>ok.
     if \<not> ok then ret (-1)
     else
       sq (eprintf (take 510 msg))
       (sq (bnd (gets berrno) (\<lambda>e.
          case e of None \<Rightarrow> ret () | Some txt \<Rightarrow> sq (eprintf ''  '') (eprintf (''kernel says: '' @ txt @ [nl]))))
       (if fatal = 0 then ret 0 else exit_with fatal)))"

text \<open>The place a message names: \<^verbatim>\<open>__FILE__\<close>, \<^verbatim>\<open>__func__\<close>, \<^verbatim>\<open>__LINE__\<close>.\<close>

definition place :: "string \<Rightarrow> string \<Rightarrow> nat \<Rightarrow> string" where
  "place file fn line = file @ '':'' @ fn @ '':'' @ show_nat line @ '': ''"

definition WARN :: "string \<Rightarrow> string \<Rightarrow> ('x, unit) bprog" where
  "WARN loc msg = sq (handle_err 0 (''!WARNING! '' @ loc @ msg)) (ret ())"

definition FATAL :: "string \<Rightarrow> string \<Rightarrow> ('x, unit) bprog" where
  "FATAL loc msg = sq (handle_err EXIT_FAILURE (''FATAL:'' @ loc @ msg)) (ret ())"

definition VPRINT :: "string \<Rightarrow> string \<Rightarrow> ('x, unit) bprog" where
  "VPRINT loc msg = bnd (gets gVerbose) (\<lambda>v. if v then printf (loc @ msg) else ret ())"

definition beep :: "int \<Rightarrow> ('x, unit) bprog" where
  "beep what = printf [char_of (nat (what mod 256))]"

text \<open>The inner loops only burn time.\<close>

fun DELAY_LOOP :: "int \<Rightarrow> nat \<Rightarrow> ('x, unit) bprog" where
  "DELAY_LOOP val 0 = ret ()"
| "DELAY_LOOP val (Suc loop_count) = sq (beep val) (DELAY_LOOP val loop_count)"

section \<open>Time\<close>

type_synonym timespec = "int \<times> int"

definition timerspecsub :: "timespec \<Rightarrow> timespec \<Rightarrow> timespec" where
  "timerspecsub a b =
     (let tv_sec = fst a - fst b; tv_nsec = snd a - snd b in
      if tv_nsec < 0 then (tv_sec - 1, tv_nsec + 1000000000) else (tv_sec, tv_nsec))"

text \<open>
  What \<^verbatim>\<open>nanosleep\<close> does each time: it is interrupted and reports the time left, or fails otherwise; with no entry
  left it sleeps to the end. \<open>r_sleep\<close> gives its result and the requests it made.
\<close>

datatype nap = Interrupted timespec | Nap_error

fun r_sleep_loop :: "nap list \<Rightarrow> timespec \<Rightarrow> int \<times> timespec list" where
  "r_sleep_loop [] req = (0, [req])"
| "r_sleep_loop (Interrupted rem # ns) req = (let (r, l) = r_sleep_loop ns rem in (r, req # l))"
| "r_sleep_loop (Nap_error # ns) req = (-1, [req])"

definition r_sleep :: "nap list \<Rightarrow> int \<Rightarrow> int \<Rightarrow> int \<times> timespec list" where
  "r_sleep ns sec nsec = r_sleep_loop ns (sec, nsec)"

section \<open>Signals\<close>

text \<open>The mask is a set of signal numbers, \<open>None\<close> when it cannot be read.\<close>

definition show_blocked_signals :: "(nat \<Rightarrow> bool) option \<Rightarrow> ('x, int) bprog" where
  "show_blocked_signals oldset = (case oldset of None \<Rightarrow> ret (-1)
     | Some blk \<Rightarrow>
         sq (printf ''[SigBlk: '')
         (sq (foldr (\<lambda>i p. sq (if blk i then printf (show_nat i @ '' '') else ret ()) p) [1..<65] (ret ()))
         (sq (printf ((if \<exists>i \<in> set [1..<65]. blk i then '']'' else ''-none-]'') @ [nl]))
         (ret 0))))"

section \<open>Lemmas\<close>

lemma run_printf [prog_simps]: "printf msg s = (Return (), s\<lparr>bout := bout s @ [Out msg]\<rparr>)"
  by (simp add: printf_def prog_simps)

lemma run_eprintf [prog_simps]: "eprintf msg s = (Return (), s\<lparr>bout := bout s @ [Err msg]\<rparr>)"
  by (simp add: eprintf_def prog_simps)

lemma run_VPRINT [prog_simps]:
  "VPRINT loc msg s = (Return (), if gVerbose s then s\<lparr>bout := bout s @ [Out (loc @ msg)]\<rparr> else s)"
  by (simp add: VPRINT_def prog_simps)

lemma run_bk_malloc [prog_simps]:
  "malloc_ok s = (Return (bmem s = [] \<or> hd (bmem s)), s\<lparr>bmem := tl (bmem s)\<rparr>)"
  by (cases "bmem s") (simp_all add: malloc_ok_def)

text \<open>A message changes nothing but the output and the memory outcomes, and a warning always returns.\<close>

lemma WARN_run: "\<exists>l. WARN loc msg s = (Return (), s\<lparr>bmem := tl (bmem s), bout := bout s @ l\<rparr>)"
  by (cases "bmem s = [] \<or> hd (bmem s)"; cases "berrno s")
    (auto simp: WARN_def handle_err_def prog_simps intro: exI [of _ "[]"])

lemma FATAL_run:
  "\<exists>l. FATAL loc msg s =
     (if bmem s = [] \<or> hd (bmem s) then Exited EXIT_FAILURE else Return (), s\<lparr>bmem := tl (bmem s), bout := bout s @ l\<rparr>)"
  by (cases "bmem s = [] \<or> hd (bmem s)"; cases "berrno s")
    (auto simp: FATAL_def handle_err_def prog_simps intro: exI [of _ "[]"])

end
