(* ===== verification/File_Copy.thy ===== *)
theory File_Copy
  imports Book_Common
begin

text \<open>
  The file copy programs \<^verbatim>\<open>src/booksrc/A_fileio/simpcp1.c\<close> and \<^verbatim>\<open>simpcp2.c\<close>. The state holds the bytes of the source
  and of the destination, the two file offsets and the kernel's answers to the coming \<^verbatim>\<open>read\<close> and \<^verbatim>\<open>write\<close> calls:
  a negative one is an error, another bounds the number of bytes moved by that call (at least one byte moves unless
  the file is at its end); when the answers are used up a call moves all it can. A buffer is the list of its bytes.
\<close>

section \<open>State and system calls\<close>

record copy = bk +
  src :: string
  dst :: string
  rp :: nat
  wp :: nat
  answers :: "int list"
  blksize :: nat
  stat_ok :: bool
  open_r :: int
  open_w :: int
  fill :: char
  shut :: "int list"

type_synonym 'a cpprog = "(copy, 'a) cprog"

definition answer :: "nat \<Rightarrow> int cpprog" where
  "answer n = (\<lambda>s. case answers s of [] \<Rightarrow> (Return (int n), s) | a # as \<Rightarrow> (Return (min (max a (-1)) (int n)), s\<lparr>answers := as\<rparr>))"

text \<open>Bytes put into a file at an offset; a gap is filled with zeros.\<close>

definition overwrite :: "nat \<Rightarrow> string \<Rightarrow> string \<Rightarrow> string" where
  "overwrite pos d f = (if d = [] then f
     else take pos f @ replicate (pos - length f) (CHR 0x00) @ d @ drop (pos + length d) f)"

text \<open>\<^verbatim>\<open>read(fd_src, buf, n)\<close>: the result and the buffer afterwards.\<close>

definition sys_read :: "string \<Rightarrow> nat \<Rightarrow> (int \<times> string) cpprog" where
  "sys_read buf n =
     (if n > length buf then fault OutOfBounds else
      bnd (answer n) (\<lambda>a.
      if a < 0 then ret (-1, buf)
      else bnd (gets (\<lambda>s. take (if n = 0 then 0 else max 1 (nat a)) (drop (rp s) (src s)))) (\<lambda>d.
        sq (modify (\<lambda>s. s\<lparr>rp := rp s + length d\<rparr>))
        (ret (int (length d), d @ drop (length d) buf)))))"

text \<open>\<^verbatim>\<open>write(fd_dest, buf, n)\<close>.\<close>

definition sys_write :: "string \<Rightarrow> nat \<Rightarrow> int cpprog" where
  "sys_write buf n =
     (if n > length buf then fault OutOfBounds else
      bnd (answer n) (\<lambda>a.
      if a < 0 then ret (-1)
      else let d = take (if n = 0 then 0 else max 1 (nat a)) buf in
        sq (modify (\<lambda>s. s\<lparr>dst := overwrite (wp s) d (dst s), wp := wp s + length d\<rparr>))
        (ret (int (length d)))))"

section \<open>simpcp2.c: fd_read and fd_write\<close>

text \<open>
  Both call the system again with the same buffer and the same count until the sum reaches \<open>n\<close>. Every round moves a
  byte, so \<open>n\<close> rounds are enough (\<open>Blocks\<close> marks the end of the fuel).
\<close>

fun fd_read_loop :: "nat \<Rightarrow> string \<Rightarrow> nat \<Rightarrow> nat \<Rightarrow> (int \<times> string) cpprog" where
  "fd_read_loop 0 dbuf n tr = (\<lambda>s. (Blocks, s))"
| "fd_read_loop (Suc k) dbuf n tr =
     bnd (sys_read dbuf n) (\<lambda>(rd, dbuf).
     if rd < 0 then ret (-1, dbuf)
     else if rd = 0 then ret (int tr, dbuf)
     else let tr = tr + nat rd in
       if tr < n then fd_read_loop k dbuf n tr else ret (int tr, dbuf))"

definition fd_read :: "string \<Rightarrow> nat \<Rightarrow> (int \<times> string) cpprog" where
  "fd_read dbuf n = fd_read_loop (Suc n) dbuf n 0"

fun fd_write_loop :: "nat \<Rightarrow> string \<Rightarrow> nat \<Rightarrow> nat \<Rightarrow> int cpprog" where
  "fd_write_loop 0 sbuf n tw = (\<lambda>s. (Blocks, s))"
| "fd_write_loop (Suc k) sbuf n tw =
     bnd (sys_write sbuf n) (\<lambda>wr.
     if wr < 0 then ret (-1)
     else let tw = tw + nat wr in
       if tw < n then fd_write_loop k sbuf n tw else ret (int tw))"

definition fd_write :: "string \<Rightarrow> nat \<Rightarrow> int cpprog" where
  "fd_write sbuf n = fd_write_loop (Suc n) sbuf n 0"

section \<open>docopy\<close>

text \<open>
  The two programs have the same \<^verbatim>\<open>docopy\<close> but for the calls that read and write; \<open>file\<close> and \<open>base\<close> give the place in
  the messages, the line of the function's head.
\<close>

definition pad6 :: "int \<Rightarrow> string" where "pad6 x = pad (CHR ''0'') 6 (show_int x)"
definition pad9 :: "int \<Rightarrow> string" where "pad9 x = pad (CHR '' '') 9 (show_int x)"

fun docopy_loop :: "string \<Rightarrow> nat \<Rightarrow> (string \<Rightarrow> nat \<Rightarrow> (int \<times> string) cpprog) \<Rightarrow> (string \<Rightarrow> nat \<Rightarrow> int cpprog) \<Rightarrow>
    nat \<Rightarrow> string \<Rightarrow> nat \<Rightarrow> int \<Rightarrow> int cpprog" where
  "docopy_loop file base rdf wrf 0 buf n loop = (\<lambda>s. (Blocks, s))"
| "docopy_loop file base rdf wrf (Suc k) buf n loop =
     bnd (rdf buf n) (\<lambda>(nr, buf).
     sq (VPRINT (place file ''docopy'' (base + 28)) (pad6 loop @ '': read '' @ pad9 nr @ '' ''))
     (if nr < 0 then
        sq (WARN (place file ''docopy'' (base + 30)) (''read on src failed'' @ [nl])) (ret (-3))
      else if nr = 0 then ret 0
      else
        bnd (wrf buf (nat nr)) (\<lambda>nw.
        sq (VPRINT (place file ''docopy'' (base + 37)) (''wrote '' @ pad9 nw @ [nl]))
        (if nw < 0 then
           sq (WARN (place file ''docopy'' (base + 39)) (''write on dest failed'' @ [nl])) (ret (-4))
         else docopy_loop file base rdf wrf k buf n (loop + 1)))))"

definition docopy_with :: "string \<Rightarrow> nat \<Rightarrow> (string \<Rightarrow> nat \<Rightarrow> (int \<times> string) cpprog) \<Rightarrow> (string \<Rightarrow> nat \<Rightarrow> int cpprog) \<Rightarrow>
    string \<Rightarrow> int cpprog" where
  "docopy_with file base rdf wrf path =
     bnd (gets stat_ok) (\<lambda>ok.
     if \<not> ok then
       sq (WARN (place file ''docopy'' (base + 10)) (''stat on '' @ path @ '' failed'' @ [nl])) (ret (-1))
     else
       bnd (gets blksize) (\<lambda>n.
       bnd (gets (\<lambda>s. length (src s))) (\<lambda>st_size.
       sq (VPRINT (place file ''docopy'' (base + 13))
            (path @ '': size='' @ show_nat st_size @ '' Block size for filesystem I/O = '' @ show_nat n @ '' bytes'' @ [nl]))
       (bnd malloc_ok (\<lambda>ok.
       if \<not> ok then
         sq (WARN (place file ''docopy'' (base + 19)) (''malloc ('' @ show_nat n @ '') failed!'' @ [nl])) (ret (-2))
       else
         sq (bnd (gets gVerbose) (\<lambda>v. if v \<and> n = 0 then fault DivByZero else ret ()))
         (sq (VPRINT (place file ''docopy'' (base + 23))
              (''Expected # loop iterations: '' @ show_nat (st_size div n) @ '' [+1 for rem '' @ show_nat (st_size mod n) @ '' bytes]'' @ [nl, nl]))
         (bnd (gets fill) (\<lambda>c.
         bnd (gets (\<lambda>s. Suc (length (src s) - rp s))) (\<lambda>fuel.
         docopy_loop file base rdf wrf fuel (replicate n c) n 1)))))))))"

definition docopy1 :: "string \<Rightarrow> int cpprog" where
  "docopy1 = docopy_with ''simpcp1.c'' 37 sys_read sys_write"

definition docopy2 :: "string \<Rightarrow> int cpprog" where
  "docopy2 = docopy_with ''simpcp2.c'' 81 fd_read fd_write"

section \<open>main\<close>

definition close_fd :: "int \<Rightarrow> unit cpprog" where
  "close_fd fd = modify (\<lambda>s. s\<lparr>shut := shut s @ [fd]\<rparr>)"

definition usage :: "string \<Rightarrow> string \<Rightarrow> 'a cpprog" where
  "usage prog extra =
     sq (eprintf (''Usage: '' @ prog @ '' source-file destination-file'' @ extra @ '' [1 for verbose-mode]'' @ [nl]))
     (exit_with EXIT_FAILURE)"

definition simpcp1_main :: "string list \<Rightarrow> 'a cpprog" where
  "simpcp1_main argv =
     (if length argv < 3 then usage (argv ! 0) [] else
      let p = place ''simpcp1.c'' ''main'' in
      sq (if length argv = 4 \<and> argv ! 3 = ''1'' then modify (\<lambda>s. s\<lparr>gVerbose := True\<rparr>) else ret ())
      (bnd (gets open_r) (\<lambda>fdr.
      sq (if fdr < 0 then FATAL (p 102) (''open on source file \"'' @ argv ! 1 @ ''\" failed, aborting.'' @ [nl]) else ret ())
      (bnd (gets open_w) (\<lambda>fdw.
      sq (if fdw < 0 then FATAL (p 109) (''open on destination file \"'' @ argv ! 2 @ ''\" failed, aborting.'' @ [nl]) else ret ())
      (bnd (docopy1 (argv ! 1)) (\<lambda>r.
      sq (if r < 0 then
            sq (close_fd fdr) (sq (close_fd fdw) (FATAL (p 115) (''docopy() failed: (stat='' @ show_int r @ '')'' @ [nl])))
          else ret ())
      (sq (bnd (gets gVerbose) (\<lambda>v. if v then printf [nl] else ret ()))
      (sq (close_fd fdr) (sq (close_fd fdw) (exit_with EXIT_SUCCESS)))))))))))"

text \<open>Octal, for the mode.\<close>

fun show_oct :: "nat \<Rightarrow> string" where
  "show_oct n = (if n < 8 then [digit_char n] else show_oct (n div 8) @ [digit_char (n mod 8)])"

declare show_oct.simps [simp del]

text \<open>The mode of the source file is an argument; the mode of the new file is it, within \<^verbatim>\<open>ACCESSPERMS\<close> (0777).\<close>

definition simpcp2_main :: "nat \<Rightarrow> string list \<Rightarrow> 'a cpprog" where
  "simpcp2_main st_mode argv =
     (if length argv < 3 then usage (argv ! 0) [] else
      let p = place ''simpcp2.c'' ''main'' in
      sq (if length argv = 4 \<and> argv ! 3 = ''1'' then modify (\<lambda>s. s\<lparr>gVerbose := True\<rparr>) else ret ())
      (bnd (gets open_r) (\<lambda>fdr.
      sq (if fdr < 0 then FATAL (p 147) (''open on source file \"'' @ argv ! 1 @ ''\" failed, aborting.'' @ [nl]) else ret ())
      (bnd (gets stat_ok) (\<lambda>ok.
      sq (if \<not> ok then FATAL (p 152) (''stat on '' @ argv ! 1 @ '' failed'' @ [nl]) else ret ())
      (sq (VPRINT (p 153) (argv ! 1 @ '' mode='' @ show_oct (st_mode mod 512) @ '' (octal)'' @ [nl]))
      (bnd (gets open_w) (\<lambda>fdw.
      sq (if fdw < 0 then FATAL (p 159) (''open on destination file \"'' @ argv ! 2 @ ''\" failed, aborting.'' @ [nl]) else ret ())
      (bnd (docopy2 (argv ! 1)) (\<lambda>r.
      sq (if r < 0 then
            sq (close_fd fdr) (sq (close_fd fdw) (FATAL (p 165) (''docopy() failed: (stat='' @ show_int r @ '')'' @ [nl])))
          else ret ())
      (sq (bnd (gets gVerbose) (\<lambda>v. if v then printf [nl] else ret ()))
      (sq (close_fd fdr) (sq (close_fd fdw) (exit_with EXIT_SUCCESS))))))))))))))"

text \<open>When the file can be examined and there is memory, \<^verbatim>\<open>docopy\<close> reaches its loop.\<close>

lemma docopy_enters:
  assumes "stat_ok s" "0 < blksize s" "rp s = 0" "bmem s = []"
  shows "\<exists>s1. docopy_with file base rdf wrf path s =
      docopy_loop file base rdf wrf (Suc (length (src s))) (replicate (blksize s) (fill s)) (blksize s) 1 s1 \<and>
    src s1 = src s \<and> dst s1 = dst s \<and> rp s1 = rp s \<and> wp s1 = wp s \<and> answers s1 = answers s \<and> gVerbose s1 = gVerbose s"
  using assms by (cases "gVerbose s")
    (simp add: docopy_with_def prog_simps del: docopy_loop.simps, rule exI, rule conjI, rule refl, simp)+

section \<open>What a pair of transfer functions has to do\<close>

text \<open>
  The copy loop relies on this of its read and write: from \<open>fair\<close> answers a read gives the next bytes of the source,
  none only at its end, and leaves answers from which a write of \<open>k\<close> bytes is complete (\<open>ready\<close>).
\<close>

locale transfer =
  fixes rdf :: "string \<Rightarrow> nat \<Rightarrow> (int \<times> string) cpprog" and wrf :: "string \<Rightarrow> nat \<Rightarrow> int cpprog"
    and fair :: "int list \<Rightarrow> bool" and ready :: "int list \<Rightarrow> nat \<Rightarrow> bool"
  assumes reads: "fair (answers s) \<Longrightarrow> length buf = n \<Longrightarrow> 0 < n \<Longrightarrow>
      \<exists>d as. rdf buf n s = (Return (int (length d), d @ drop (length d) buf), s\<lparr>rp := rp s + length d, answers := as\<rparr>) \<and>
        d = take (length d) (drop (rp s) (src s)) \<and> length d \<le> n \<and> (d = [] \<longrightarrow> length (src s) \<le> rp s) \<and> ready as (length d)"
    and writes: "ready (answers s) k \<Longrightarrow> 0 < k \<Longrightarrow> k \<le> length buf \<Longrightarrow>
      \<exists>as. wrf buf k s = (Return (int k), s\<lparr>dst := overwrite (wp s) (take k buf) (dst s), wp := wp s + k, answers := as\<rparr>) \<and> fair as"
begin

lemma loop_copies:
  "fair (answers s) \<Longrightarrow> length buf = n \<Longrightarrow> 0 < n \<Longrightarrow> wp s = rp s \<Longrightarrow> rp s \<le> length (src s) \<Longrightarrow>
   dst s = take (rp s) (src s) @ drop (rp s) f \<Longrightarrow> length (src s) - rp s < fuel \<Longrightarrow>
   \<exists>s'. docopy_loop file base rdf wrf fuel buf n i s = (Return 0, s') \<and> dst s' = src s @ drop (length (src s)) f \<and>
     gVerbose s' = gVerbose s"
proof (induction fuel arbitrary: s buf i)
  case (Suc fuel)
  let ?k = "rp s"
  from reads [OF Suc.prems(1-3)] obtain d as where
    r: "rdf buf n s = (Return (int (length d), d @ drop (length d) buf), s\<lparr>rp := ?k + length d, answers := as\<rparr>)"
      "d = take (length d) (drop ?k (src s))" "length d \<le> n" "d = [] \<longrightarrow> length (src s) \<le> ?k" "ready as (length d)" by blast
  show ?case
  proof (cases "d = []")
    case True
    with r(4) Suc.prems(5) have "?k = length (src s)" by simp
    with Suc.prems(6) r(1) True show ?thesis by (simp add: prog_simps)
  next
    case False
    define b' where "b' = d @ drop (length d) buf"
    define s1 where "s1 = (s\<lparr>rp := ?k + length d, answers := as\<rparr>)\<lparr>bout := bout s @ (if gVerbose s
        then [Out (place file ''docopy'' (base + 28) @ pad6 i @ '': read '' @ pad9 (int (length d)) @ '' '')] else [])\<rparr>"
    have w1: "ready (answers s1) (length d)" "0 < length d" "length d \<le> length b'" "take (length d) b' = d"
      using r False by (simp_all add: s1_def b'_def)
    from writes [OF w1(1-3)] w1(4) obtain bs where
      w: "wrf b' (length d) s1 = (Return (int (length d)), s1\<lparr>dst := overwrite (wp s) d (dst s), wp := wp s + length d, answers := bs\<rparr>)" "fair bs"
      by (auto simp: s1_def)
    define s2 where "s2 = (s1\<lparr>dst := overwrite (wp s) d (dst s), wp := wp s + length d, answers := bs\<rparr>)
      \<lparr>bout := bout s1 @ (if gVerbose s then [Out (place file ''docopy'' (base + 37) @ ''wrote '' @ pad9 (int (length d)) @ [nl])] else [])\<rparr>"
    have fits: "?k + length d \<le> length (src s)" using r(2) Suc.prems(5)
      by (metis add.commute add_le_mono1 le_add_diff_inverse2 length_drop length_take min.cobounded1)
    then have "take (?k + length d) (src s) = take ?k (src s) @ d" using r(2) by (simp add: take_add)
    with fits have d2: "dst s2 = take (rp s2) (src s2) @ drop (rp s2) f"
      using Suc.prems False by (simp add: s2_def s1_def overwrite_def add.commute)
    have "\<exists>s'. docopy_loop file base rdf wrf fuel b' n (i + 1) s2 = (Return 0, s') \<and> dst s' = src s2 @ drop (length (src s2)) f \<and>
        gVerbose s' = gVerbose s2"
    proof (rule Suc.IH)
      show "dst s2 = take (rp s2) (src s2) @ drop (rp s2) f" by (rule d2)
      have "length (src s) - (?k + length d) < fuel" using Suc.prems(7) w1(2) fits by linarith
      then show "length (src s2) - rp s2 < fuel" by (simp add: s2_def s1_def)
      show "rp s2 \<le> length (src s2)" using fits by (simp add: s2_def s1_def)
    qed (use Suc.prems(2,3,4) r(3) w(2) in \<open>simp_all add: s2_def s1_def b'_def\<close>)
    then show ?thesis using r(1) w(1) False
      by (cases "gVerbose s") (simp_all add: prog_simps b'_def [symmetric] s1_def s2_def)
  qed
qed simp

lemma docopy_copies:
  assumes "stat_ok s" "0 < blksize s" "rp s = 0" "wp s = 0" "bmem s = []" "fair (answers s)"
  shows "\<exists>s'. docopy_with file base rdf wrf path s = (Return 0, s') \<and> dst s' = src s @ drop (length (src s)) (dst s) \<and>
    gVerbose s' = gVerbose s"
proof -
  from docopy_enters [OF assms(1-3,5)] obtain s1 where e: "docopy_with file base rdf wrf path s =
      docopy_loop file base rdf wrf (Suc (length (src s))) (replicate (blksize s) (fill s)) (blksize s) 1 s1"
    and s1: "src s1 = src s" "dst s1 = dst s" "rp s1 = rp s" "wp s1 = wp s" "answers s1 = answers s" "gVerbose s1 = gVerbose s"
    by metis
  have "\<exists>s'. docopy_loop file base rdf wrf (Suc (length (src s))) (replicate (blksize s) (fill s)) (blksize s) 1 s1 = (Return 0, s') \<and>
      dst s' = src s1 @ drop (length (src s1)) (dst s) \<and> gVerbose s' = gVerbose s1"
    by (rule loop_copies) (use assms s1 in simp_all)
  with e s1 show ?thesis by simp
qed

end

section \<open>The two pairs\<close>

lemma run_answer:
  "answer n s = (Return (if answers s = [] then int n else min (max (hd (answers s)) (-1)) (int n)), s\<lparr>answers := tl (answers s)\<rparr>)"
  by (cases "answers s") (simp_all add: answer_def)

lemma sys_read_run:
  assumes "answers s = [] \<or> 0 \<le> hd (answers s)" and "n = length buf" "0 < n"
  shows "\<exists>d. sys_read buf n s =
      (Return (int (length d), d @ drop (length d) buf), s\<lparr>rp := rp s + length d, answers := tl (answers s)\<rparr>) \<and>
    d = take (length d) (drop (rp s) (src s)) \<and> length d \<le> n \<and> (d = [] \<longrightarrow> length (src s) \<le> rp s) \<and>
    (answers s \<noteq> [] \<longrightarrow> int (length d) \<le> max 1 (hd (answers s))) \<and>
    (answers s = [] \<longrightarrow> d = take n (drop (rp s) (src s)))"
proof -
  define a where "a = (if answers s = [] then int n else min (max (hd (answers s)) (-1)) (int n))"
  define k where "k = max 1 (nat a)"
  define d where "d = take k (drop (rp s) (src s))"
  have a: "0 \<le> a" "a \<le> int n" using assms(1) by (auto simp: a_def)
  have k: "0 < k" "k \<le> n" using a assms(3) by (auto simp: k_def)
  have nb: "\<not> length buf < n" using assms(2) by simp
  have ans: "answer n s = (Return a, s\<lparr>answers := tl (answers s)\<rparr>)" by (simp add: run_answer a_def)
  have run: "sys_read buf n s =
      (Return (int (length d), d @ drop (length d) buf), s\<lparr>rp := rp s + length d, answers := tl (answers s)\<rparr>)"
    using assms(3) a(1) nb by (simp add: sys_read_def ans prog_simps d_def k_def)
  have "d = take (length d) (drop (rp s) (src s))" by (simp only: d_def take_length_take)
  moreover have "length d \<le> n" "d = [] \<longrightarrow> length (src s) \<le> rp s"
    using k by (auto simp: d_def)
  moreover have "answers s \<noteq> [] \<longrightarrow> int (length d) \<le> max 1 (hd (answers s))"
    using assms(1) by (auto simp: d_def k_def a_def)
  moreover have "answers s = [] \<longrightarrow> d = take n (drop (rp s) (src s))"
    using assms(3) by (auto simp: d_def k_def a_def max_def)
  ultimately show ?thesis using run by blast
qed

lemma sys_write_run:
  assumes "answers s = [] \<or> int k \<le> hd (answers s)" and "0 < k" "k \<le> length buf"
  shows "sys_write buf k s = (Return (int k), s\<lparr>dst := overwrite (wp s) (take k buf) (dst s), wp := wp s + k, answers := tl (answers s)\<rparr>)"
proof -
  define a where "a = (if answers s = [] then int k else min (max (hd (answers s)) (-1)) (int k))"
  have a: "a = int k" using assms(1,2) by (auto simp: a_def)
  show ?thesis using assms(2,3)
    by (simp add: sys_write_def run_answer prog_simps Let_def a_def [symmetric] a max_absorb2 Suc_le_eq)
qed

text \<open>Answers under which simpcp1 works: a read may be short, the write that follows it is not.\<close>

fun fair_pairs :: "int list \<Rightarrow> bool" where
  "fair_pairs [] \<longleftrightarrow> True"
| "fair_pairs [r] \<longleftrightarrow> 0 \<le> r"
| "fair_pairs (r # w # as) \<longleftrightarrow> 0 \<le> r \<and> max 1 r \<le> w \<and> fair_pairs as"

definition fair_write :: "int list \<Rightarrow> nat \<Rightarrow> bool" where
  "fair_write as k \<longleftrightarrow> as = [] \<or> int k \<le> hd as \<and> fair_pairs (tl as)"

interpretation cp1: transfer sys_read sys_write fair_pairs fair_write
proof
  fix s :: copy and buf :: string and n
  assume f: "fair_pairs (answers s)" and n: "length buf = n" "0 < n"
  then have "answers s = [] \<or> 0 \<le> hd (answers s)" by (cases "answers s" rule: fair_pairs.cases) auto
  from sys_read_run [OF this n(1) [symmetric] n(2)] obtain d where
    d: "sys_read buf n s = (Return (int (length d), d @ drop (length d) buf), s\<lparr>rp := rp s + length d, answers := tl (answers s)\<rparr>)"
      "d = take (length d) (drop (rp s) (src s))" "length d \<le> n" "d = [] \<longrightarrow> length (src s) \<le> rp s"
      "answers s \<noteq> [] \<longrightarrow> int (length d) \<le> max 1 (hd (answers s))" by blast
  have "fair_write (tl (answers s)) (length d)"
    using f d(5) by (cases "answers s" rule: fair_pairs.cases) (auto simp: fair_write_def)
  with d(1-4) show "\<exists>d as. sys_read buf n s =
      (Return (int (length d), d @ drop (length d) buf), s\<lparr>rp := rp s + length d, answers := as\<rparr>) \<and>
    d = take (length d) (drop (rp s) (src s)) \<and> length d \<le> n \<and> (d = [] \<longrightarrow> length (src s) \<le> rp s) \<and> fair_write as (length d)"
    by blast
next
  fix s :: copy and k and buf :: string
  assume "fair_write (answers s) k" "0 < k" "k \<le> length buf"
  then show "\<exists>as. sys_write buf k s =
      (Return (int k), s\<lparr>dst := overwrite (wp s) (take k buf) (dst s), wp := wp s + k, answers := as\<rparr>) \<and> fair_pairs as"
    by (auto simp: fair_write_def sys_write_run)
qed

lemma fd_read_run:
  assumes "answers s = []" and "length buf = n" "0 < n"
  shows "\<exists>d. fd_read buf n s = (Return (int (length d), d @ drop (length d) buf), s\<lparr>rp := rp s + length d\<rparr>) \<and>
    d = take n (drop (rp s) (src s))"
proof -
  define d where "d = take n (drop (rp s) (src s))"
  have one: "sys_read b n t = (Return (int (length e), e @ drop (length e) b), t\<lparr>rp := rp t + length e\<rparr>)"
    if "answers t = []" "length b = n" "e = take n (drop (rp t) (src t))" for b t e
  proof -
    have "t\<lparr>answers := []\<rparr> = t" using that(1) by simp
    with that sys_read_run [of t n b] assms(3) show ?thesis by (auto simp: update_convs)
  qed
  show ?thesis
  proof (cases "d = [] \<or> length d = n")
    case True
    then show ?thesis using one [OF assms(1,2) d_def] assms
      by (auto simp: fd_read_def prog_simps Let_def d_def [symmetric])
  next
    case False
    let ?s = "s\<lparr>rp := rp s + length d\<rparr>" and ?b = "d @ drop (length d) buf"
    have l: "0 < length d" "length d < n" using False by (auto simp: d_def)
    then have "rp s + length d = length (src s)" by (auto simp: d_def)
    then have "[] = take n (drop (rp ?s) (src ?s))" by simp
    from one [OF _ _ this, of ?b] assms have two: "sys_read ?b n ?s = (Return (0, ?b), ?s)"
      using l by simp
    obtain j where n: "n = Suc j" using assms(3) by (cases n) auto
    have "fd_read buf n s = (Return (int (length d), ?b), ?s)"
      using one [OF assms(1,2) d_def] two l unfolding fd_read_def n by (simp add: prog_simps Let_def)
    then show ?thesis using d_def by blast
  qed
qed

lemma fd_write_run:
  assumes "answers s = []" and "0 < k" "k \<le> length buf"
  shows "fd_write buf k s = (Return (int k), s\<lparr>dst := overwrite (wp s) (take k buf) (dst s), wp := wp s + k\<rparr>)"
proof -
  have "s\<lparr>dst := overwrite (wp s) (take k buf) (dst s), wp := wp s + k, answers := []\<rparr> =
      s\<lparr>dst := overwrite (wp s) (take k buf) (dst s), wp := wp s + k\<rparr>" using assms(1) by simp
  with sys_write_run [of s k buf] assms show ?thesis by (simp add: fd_write_def prog_simps Let_def)
qed

interpretation cp2: transfer fd_read fd_write "\<lambda>as. as = []" "\<lambda>as _. as = []"
proof
  fix s :: copy and buf :: string and n
  assume f: "answers s = []" and n: "length buf = n" "0 < n"
  from fd_read_run [OF f n] obtain d where
    "fd_read buf n s = (Return (int (length d), d @ drop (length d) buf), s\<lparr>rp := rp s + length d\<rparr>)"
    and d: "d = take n (drop (rp s) (src s))" by blast
  moreover have "s\<lparr>rp := rp s + length d\<rparr> = s\<lparr>rp := rp s + length d, answers := []\<rparr>" using f by simp
  moreover have "d = take (length d) (drop (rp s) (src s))" by (simp only: d take_length_take)
  moreover have "length d \<le> n" "d = [] \<longrightarrow> length (src s) \<le> rp s"
    using d n by auto
  ultimately show "\<exists>d as. fd_read buf n s =
      (Return (int (length d), d @ drop (length d) buf), s\<lparr>rp := rp s + length d, answers := as\<rparr>) \<and>
    d = take (length d) (drop (rp s) (src s)) \<and> length d \<le> n \<and> (d = [] \<longrightarrow> length (src s) \<le> rp s) \<and> as = []" by metis
next
  fix s :: copy and k and buf :: string
  assume "answers s = []" "0 < k" "k \<le> length buf"
  then show "\<exists>as. fd_write buf k s =
      (Return (int k), s\<lparr>dst := overwrite (wp s) (take k buf) (dst s), wp := wp s + k, answers := as\<rparr>) \<and> as = []"
    by (simp add: fd_write_run)
qed

section \<open>The copies\<close>

text \<open>Both files can be opened and nothing was read or written yet.\<close>

definition fresh :: "copy \<Rightarrow> bool" where
  "fresh s \<longleftrightarrow> stat_ok s \<and> 0 < blksize s \<and> rp s = 0 \<and> wp s = 0 \<and> bmem s = [] \<and> 0 \<le> open_r s \<and> 0 \<le> open_w s"

text \<open>
  C29. simpcp1 exits with status 0 and has written the source over the beginning of the destination, as long as no
  write is cut short; reads may be. What an existing longer destination had behind that stays.
\<close>

theorem simpcp1_copies:
  assumes "fresh s" and "fair_pairs (answers s)"
  shows "\<exists>s'. simpcp1_main [prog, from, to] s = (Exited EXIT_SUCCESS :: 'a outcome, s') \<and> dst s' = src s @ drop (length (src s)) (dst s)"
proof -
  from assms cp1.docopy_copies [of s "''simpcp1.c''" 37 "from"] obtain s1 where
    "docopy1 from s = (Return 0, s1)" "dst s1 = src s @ drop (length (src s)) (dst s)"
    by (auto simp: fresh_def docopy1_def)
  with assms(1) show ?thesis by (cases "gVerbose s1") (simp_all add: fresh_def simpcp1_main_def prog_simps close_fd_def Let_def)
qed

text \<open>A file of five bytes, blocks of four, an old destination of seven.\<close>

definition copy0 :: "int list \<Rightarrow> copy" where
  "copy0 as = \<lparr>bout = [], berrno = None, bmem = [], gVerbose = False, src = ''hello'', dst = ''1234567'', rp = 0, wp = 0,
     answers = as, blksize = 4, stat_ok = True, open_r = 3, open_w = 4, fill = CHR ''?'', shut = []\<rparr>"

theorem simpcp1_copies_witness:
  "fresh (copy0 [2, 4]) \<and> (\<exists>s'. simpcp1_main [''simpcp1'', ''a'', ''b''] (copy0 [2, 4]) = (Exited 0 :: int outcome, s') \<and> dst s' = ''hello67'')"
proof -
  have f: "fresh (copy0 [2, 4])" by (simp add: fresh_def copy0_def)
  with simpcp1_copies [of "copy0 [2, 4]" "''simpcp1''" "''a''" "''b''"] show ?thesis by (simp add: copy0_def)
qed

text \<open>
  C30. When the kernel completes every transfer, simpcp2's \<^verbatim>\<open>docopy\<close>, with its read and write wrappers, leaves the same
  destination and returns the same value as simpcp1's.
\<close>

theorem docopy_equivalent:
  assumes "fresh s" and "answers s = []"
  shows "\<exists>s1 s2. docopy1 path s = (Return 0, s1) \<and> docopy2 path s = (Return 0, s2) \<and> dst s1 = dst s2"
proof -
  have f: "stat_ok s" "0 < blksize s" "rp s = 0" "wp s = 0" "bmem s = []" using assms(1) by (simp_all add: fresh_def)
  from assms(2) have p: "fair_pairs (answers s)" by simp
  from cp1.docopy_copies [OF f p] cp2.docopy_copies [OF f assms(2)] show ?thesis
    unfolding docopy1_def docopy2_def by metis
qed

theorem docopy_equivalent_witness:
  "fresh (copy0 []) \<and> (\<exists>s1 s2. docopy1 ''a'' (copy0 []) = (Return 0, s1) \<and> docopy2 ''a'' (copy0 []) = (Return 0, s2) \<and> dst s1 = dst s2)"
proof -
  have f: "fresh (copy0 [])" by (simp add: fresh_def copy0_def)
  with docopy_equivalent [of "copy0 []" "''a''"] show ?thesis by (simp add: copy0_def)
qed

text \<open>The wrapper after a short read: it has asked for \<open>n\<close> bytes again and counts both.\<close>

lemma fd_read_short:
  assumes a: "answers s = [int k]" and k: "0 < k" "k < n" "length buf = n" and r: "rp s + k + n \<le> length (src s)"
  shows "\<exists>b s'. fd_read buf n s = (Return (int (k + n), b), s') \<and> length b = n \<and> gVerbose s' = gVerbose s"
proof -
  define d where "d = take k (drop (rp s) (src s))"
  define s1 where "s1 = s\<lparr>rp := rp s + k, answers := []\<rparr>"
  define b where "b = d @ drop k buf"
  have ld: "length d = k" using r by (simp add: d_def)
  have 1: "sys_read buf n s = (Return (int k, b), s1)"
    using a k ld by (simp add: sys_read_def answer_def prog_simps d_def [symmetric] s1_def b_def max_absorb2 Suc_le_eq)
  have lb: "length b = n" using ld k by (simp add: b_def)
  have "\<exists>e s2. sys_read b n s1 = (Return (int n, e), s2) \<and> length e = n \<and> gVerbose s2 = gVerbose s"
    using k lb r by (simp add: sys_read_def answer_def prog_simps s1_def max_absorb2 Suc_le_eq)
  then obtain e s2 where 2: "sys_read b n s1 = (Return (int n, e), s2)" "length e = n" "gVerbose s2 = gVerbose s" by blast
  obtain j where n: "n = Suc j" using k by (cases n) auto
  have "fd_read buf n s = (Return (int (k + n), e), s2)"
    using 1 2 k unfolding fd_read_def n by (simp add: prog_simps Let_def nat_add_distrib)
  with 2 show ?thesis by blast
qed

text \<open>
  One read that the kernel cuts short makes simpcp2 go wrong: the wrapper reads a whole block again over the
  beginning of the buffer and returns the sum of the two counts, more than the buffer holds, and the write that
  follows leaves the buffer.
\<close>

theorem docopy2_short_read:
  assumes "fresh s" and "answers s = [int k]" and "0 < k" "k < blksize s" and "k + blksize s \<le> length (src s)"
  shows "\<exists>s'. docopy2 path s = (Faulted OutOfBounds, s')"
proof -
  let ?n = "blksize s"
  from assms(1) docopy_enters [of s "''simpcp2.c''" 81 fd_read fd_write path] obtain s1 where
    e: "docopy2 path s = docopy_loop ''simpcp2.c'' 81 fd_read fd_write (Suc (length (src s))) (replicate ?n (fill s)) ?n 1 s1"
    and s1: "src s1 = src s" "rp s1 = 0" "answers s1 = answers s"
    by (auto simp: docopy2_def fresh_def)
  have "\<exists>b s'. fd_read (replicate ?n (fill s)) ?n s1 = (Return (int (k + ?n), b), s') \<and> length b = ?n \<and> gVerbose s' = gVerbose s1"
    using assms s1 by (intro fd_read_short) auto
  then obtain b s2 where "fd_read (replicate ?n (fill s)) ?n s1 = (Return (int (k + ?n), b), s2)" and b: "length b = ?n" by blast
  moreover have "fd_write b (k + ?n) t = (Faulted OutOfBounds, t)" for t
    using assms(3) b by (simp add: fd_write_def sys_write_def prog_simps)
  ultimately show ?thesis unfolding e using assms(3) by (simp add: prog_simps nat_add_distrib)
qed

theorem docopy2_short_read_witness:
  "\<exists>s'. docopy2 ''a'' (copy0 [1]) = (Faulted OutOfBounds, s')"
  using docopy2_short_read [of "copy0 [1]" 1] by (simp add: copy0_def fresh_def)

end
