(* ===== verification/Mt_Copy.thy ===== *)
theory Mt_Copy
  imports File_Copy
begin

text \<open>
  The multithreaded copy, \<^verbatim>\<open>src/booksrc/solutions_to_assgn/ch18/mt_copy.c\<close>. The state is that of the other copy
  programs; \<^verbatim>\<open>pread\<close> and \<^verbatim>\<open>pwrite\<close> take an offset. \<open>spawn_rets\<close> and \<open>join_rets\<close> are the results of the coming
  \<^verbatim>\<open>pthread_create\<close> and \<^verbatim>\<open>pthread_join\<close> calls, 0 when used up. A worker has two pieces, its share and the rest of the
  file; the source is only read and a \<^verbatim>\<open>pwrite\<close> is one step, so the interleavings of the pieces are those of the
  program. A schedule names the worker that runs its next piece; the join loop waits for what is left.
\<close>

section \<open>State and system calls\<close>

record mtcopy = copy +
  spawn_rets :: "int list"
  join_rets :: "int list"

type_synonym 'a mtprog = "(mtcopy, 'a) cprog"

record stToThread =
  thrdnum :: nat
  thrdtotal :: nat
  fd_src :: int
  fd_dest :: int
  start_offset :: nat
  len :: nat
  rem :: nat

definition next_answer :: "nat \<Rightarrow> int mtprog" where
  "next_answer n = (\<lambda>s. case answers s of [] \<Rightarrow> (Return (int n), s)
     | a # as \<Rightarrow> (Return (min (max a (-1)) (int n)), s\<lparr>answers := as\<rparr>))"

definition pread :: "string \<Rightarrow> nat \<Rightarrow> nat \<Rightarrow> (int \<times> string) mtprog" where
  "pread buf n off =
     (if n > length buf then fault OutOfBounds else
      bnd (next_answer n) (\<lambda>a.
      if a < 0 then ret (-1, buf)
      else bnd (gets (\<lambda>s. take (if n = 0 then 0 else max 1 (nat a)) (drop off (src s)))) (\<lambda>d.
        ret (int (length d), d @ drop (length d) buf))))"

definition pwrite :: "string \<Rightarrow> nat \<Rightarrow> nat \<Rightarrow> int mtprog" where
  "pwrite buf n off =
     (if n > length buf then fault OutOfBounds else
      bnd (next_answer n) (\<lambda>a.
      if a < 0 then ret (-1)
      else let d = take (if n = 0 then 0 else max 1 (nat a)) buf in
        sq (modify (\<lambda>s. s\<lparr>dst := overwrite off d (dst s)\<rparr>))
        (ret (int (length d)))))"

section \<open>The program\<close>

fun mt_fd_read_loop :: "nat \<Rightarrow> string \<Rightarrow> nat \<Rightarrow> nat \<Rightarrow> nat \<Rightarrow> (int \<times> string) mtprog" where
  "mt_fd_read_loop 0 dbuf n off tr = (\<lambda>s. (Blocks, s))"
| "mt_fd_read_loop (Suc k) dbuf n off tr =
     bnd (pread dbuf n off) (\<lambda>(rd, dbuf).
     if rd < 0 then ret (-1, dbuf)
     else if rd = 0 then ret (int tr, dbuf)
     else let tr = tr + nat rd in
       if tr < n then mt_fd_read_loop k dbuf n off tr else ret (int tr, dbuf))"

definition mt_fd_read :: "string \<Rightarrow> nat \<Rightarrow> nat \<Rightarrow> (int \<times> string) mtprog" where
  "mt_fd_read dbuf n off = mt_fd_read_loop (Suc n) dbuf n off 0"

fun mt_fd_write_loop :: "nat \<Rightarrow> string \<Rightarrow> nat \<Rightarrow> nat \<Rightarrow> nat \<Rightarrow> int mtprog" where
  "mt_fd_write_loop 0 sbuf n off tw = (\<lambda>s. (Blocks, s))"
| "mt_fd_write_loop (Suc k) sbuf n off tw =
     bnd (pwrite sbuf n off) (\<lambda>wr.
     if wr < 0 then ret (-1)
     else let tw = tw + nat wr in
       if tw < n then mt_fd_write_loop k sbuf n off tw else ret (int tw))"

definition mt_fd_write :: "string \<Rightarrow> nat \<Rightarrow> nat \<Rightarrow> int mtprog" where
  "mt_fd_write sbuf n off = mt_fd_write_loop (Suc n) sbuf n off 0"

definition mtloc :: "string \<Rightarrow> nat \<Rightarrow> string" where
  "mtloc = place ''mt_copy.c''"

definition do_mt_copy_part :: "nat \<Rightarrow> nat \<Rightarrow> int mtprog" where
  "do_mt_copy_part off n =
     (let p = mtloc ''__do_mt_copy'' in
      sq (VPRINT (p 154) ([nl] @ ''*** start off:len :: {'' @ show_nat off @ '':'' @ show_nat n @ ''} ***'' @ [nl]))
      (bnd malloc_ok (\<lambda>ok.
      if \<not> ok then sq (WARN (p 162) (''malloc ('' @ show_nat n @ '') failed!'' @ [nl])) (ret (-2))
      else
      bnd (gets fill) (\<lambda>c.
      bnd (mt_fd_read (replicate n c) n off) (\<lambda>(nr, buf).
      sq (VPRINT (p 167) ('' read '' @ pad9 nr @ '' ''))
      (if nr < 0 then sq (WARN (p 169) (''read on src file failed'' @ [nl])) (ret (-3))
      else if nr = 0 then ret 0
      else
      bnd (mt_fd_write buf (nat nr) off) (\<lambda>nw.
      sq (VPRINT (p 176) (''wrote '' @ pad9 nw @ [nl]))
      (if nw < 0 then sq (WARN (p 178) (''write on dest file failed'' @ [nl])) (ret (-4))
      else ret 0))))))))"

text \<open>The two pieces of a worker.\<close>

datatype piece = Share | Rest

fun worker :: "stToThread \<Rightarrow> piece \<Rightarrow> unit mtprog" where
  "worker t Share =
     sq (VPRINT (mtloc ''worker'' 205) (''worker():thrd #'' @ show_nat (thrdnum t) @ '': copy from offset '' @
          show_nat (start_offset t) @ '' for '' @ show_nat (len t) @ '' bytes (rem='' @ show_nat (rem t) @ '')'' @ [nl]))
     (sq (do_mt_copy_part (start_offset t) (len t)) (ret ()))"
| "worker t Rest =
     (if rem t \<noteq> 0 \<and> thrdnum t = thrdtotal t - 1 then
        sq (VPRINT (mtloc ''worker'' 219) ('' @@@ last thrd #'' @ show_nat (thrdnum t) @ '', rem = '' @ show_nat (rem t) @ '' bytes'' @ [nl]))
        (sq (do_mt_copy_part (start_offset t + len t) (rem t)) (ret ()))
      else ret ())"

text \<open>The creation loop: \<open>k\<close> threads are still to be created.\<close>

definition next_ret :: "(mtcopy \<Rightarrow> int list) \<Rightarrow> ((int list \<Rightarrow> int list) \<Rightarrow> mtcopy \<Rightarrow> mtcopy) \<Rightarrow> int mtprog" where
  "next_ret sel upd = (\<lambda>s. case sel s of [] \<Rightarrow> (Return 0, s) | r # rs \<Rightarrow> (Return r, upd (\<lambda>_. rs) s))"

fun create_loop :: "nat \<Rightarrow> nat \<Rightarrow> nat \<Rightarrow> int \<Rightarrow> int \<Rightarrow> nat \<Rightarrow> (stToThread \<times> piece list) list mtprog" where
  "create_loop 0 i numthrds fr fw fsize = ret []"
| "create_loop (Suc k) i numthrds fr fw fsize =
     bnd malloc_ok (\<lambda>ok.
     sq (if \<not> ok then FATAL (mtloc ''do_mt_copy'' 254) (''calloc stToThread['' @ show_nat i @ ''] failed!'' @ [nl]) else ret ())
     (if \<not> ok then fault NullDeref else
     let t = \<lparr>thrdnum = i, thrdtotal = numthrds, fd_src = fr, fd_dest = fw,
              start_offset = i * (fsize div numthrds), len = fsize div numthrds, rem = fsize mod numthrds\<rparr> in
     bnd (next_ret spawn_rets spawn_rets_update) (\<lambda>r.
     sq (if r \<noteq> 0 then FATAL (mtloc ''do_mt_copy'' 284) (''['' @ show_nat i @ ''] pthread_create() failed! ['' @ show_int r @ '']'' @ [nl]) else ret ())
     (sq (VPRINT (mtloc ''do_mt_copy'' 285) (''Thread #'' @ show_nat i @ '' successfully created'' @ [nl]))
     (bnd (create_loop k (Suc i) numthrds fr fw fsize) (\<lambda>ts.
     ret ((t, if r = 0 then [Share, Rest] else []) # ts)))))))"

text \<open>The workers run as the schedule says, then the join loop waits for each in turn.\<close>

fun run_pieces :: "stToThread \<Rightarrow> piece list \<Rightarrow> unit mtprog" where
  "run_pieces t [] = ret ()"
| "run_pieces t (x # xs) = sq (worker t x) (run_pieces t xs)"

fun run_schedule :: "nat list \<Rightarrow> (stToThread \<times> piece list) list \<Rightarrow> (stToThread \<times> piece list) list mtprog" where
  "run_schedule [] ts = ret ts"
| "run_schedule (i # is) ts =
     (if i < length ts then
        case ts ! i of
          (t, []) \<Rightarrow> run_schedule is ts
        | (t, x # xs) \<Rightarrow> sq (worker t x) (run_schedule is (ts[i := (t, xs)]))
      else run_schedule is ts)"

fun join_loop :: "nat \<Rightarrow> (stToThread \<times> piece list) list \<Rightarrow> unit mtprog" where
  "join_loop i [] = ret ()"
| "join_loop i ((t, xs) # ts) =
     sq (run_pieces t xs)
     (bnd (next_ret join_rets join_rets_update) (\<lambda>r.
     sq (if r \<noteq> 0 then WARN (mtloc ''do_mt_copy'' 305) (''['' @ show_nat i @ ''] pthread_join() failed! ['' @ show_int r @ '']'' @ [nl])
         else VPRINT (mtloc ''do_mt_copy'' 307) ('' Thread #'' @ show_nat i @ '' successfully joined; it terminated with status=0'' @ [nl]))
     (join_loop (Suc i) ts)))"

definition do_mt_copy :: "nat list \<Rightarrow> nat \<Rightarrow> int \<Rightarrow> int \<Rightarrow> nat \<Rightarrow> int mtprog" where
  "do_mt_copy sched numthrds fr fw fsize =
     bnd (create_loop numthrds 0 numthrds fr fw fsize) (\<lambda>ts.
     bnd (run_schedule sched ts) (\<lambda>ts.
     sq (join_loop 0 ts) (ret 0)))"

definition mt_close :: "int \<Rightarrow> unit mtprog" where
  "mt_close fd = modify (\<lambda>s. s\<lparr>shut := shut s @ [fd]\<rparr>)"

definition mt_copy_main :: "nat list \<Rightarrow> nat \<Rightarrow> string list \<Rightarrow> 'a mtprog" where
  "mt_copy_main sched st_mode argv =
     (let p = mtloc ''main'';
          usage = ''Usage: '' @ argv ! 0 @ '' source-file destination-file number-of-threads [1 for verbose-mode]'' @ [nl] in
      if length argv < 4 then sq (eprintf usage) (exit_with EXIT_FAILURE) else
      let numthrds = atoi (argv ! 3) in
      if numthrds < 2 \<or> numthrds > 5 then
        sq (eprintf usage)
        (sq (eprintf ('' number-of-threads invalid; should be in the range {'' @ show_nat 2 @ '','' @ show_nat 5 @ ''}'' @ [nl]))
        (exit_with EXIT_FAILURE))
      else
      sq (if length argv = 5 \<and> argv ! 4 = ''1'' then modify (\<lambda>s. s\<lparr>gVerbose := True\<rparr>) else ret ())
      (bnd (gets open_r) (\<lambda>fdr.
      sq (if fdr < 0 then FATAL (p 342) (''open on source file \"'' @ argv ! 1 @ ''\" failed, aborting.'' @ [nl]) else ret ())
      (bnd (gets stat_ok) (\<lambda>ok.
      sq (if \<not> ok then FATAL (p 347) (''stat on '' @ argv ! 1 @ '' failed'' @ [nl]) else ret ())
      (bnd (gets (\<lambda>s. length (src s))) (\<lambda>st_size.
      sq (VPRINT (p 348) (''Source file \"'' @ argv ! 1 @ ''\" mode=0'' @ show_oct (st_mode mod 512) @ '' size='' @ show_nat st_size @ '' bytes'' @ [nl]))
      (bnd (gets open_w) (\<lambda>fdw.
      sq (if fdw < 0 then FATAL (p 355) (''open on destination file \"'' @ argv ! 2 @ ''\" failed, aborting.'' @ [nl]) else ret ())
      (sq (VPRINT (p 358) (''# of threads to spawn: '' @ show_int numthrds @ [nl]))
      (bnd (do_mt_copy sched (nat numthrds) fdr fdw st_size) (\<lambda>r.
      sq (if r < 0 then sq (mt_close fdr) (sq (mt_close fdw) (FATAL (p 362) (''docopy() failed: (stat='' @ show_int r @ '')'' @ [nl]))) else ret ())
      (sq (bnd (gets gVerbose) (\<lambda>v. if v then printf [nl] else ret ()))
      (sq (mt_close fdr) (sq (mt_close fdw) (exit_with EXIT_SUCCESS))))))))))))))))"

section \<open>What one piece does\<close>

text \<open>No call fails or is cut short, and the source is \<open>A\<close>.\<close>

definition quiet :: "string \<Rightarrow> mtcopy \<Rightarrow> bool" where
  "quiet A s \<longleftrightarrow> answers s = [] \<and> bmem s = [] \<and> spawn_rets s = [] \<and> join_rets s = [] \<and> src s = A"

text \<open>The places \<open>S\<close> of the destination have been copied; elsewhere it is as it was.\<close>

definition copied :: "string \<Rightarrow> string \<Rightarrow> nat set \<Rightarrow> string \<Rightarrow> bool" where
  "copied A old S f \<longleftrightarrow> S \<subseteq> {..<length A} \<and> (\<forall>i \<in> S. i < length f \<and> f ! i = A ! i) \<and>
     (\<forall>i. i < length old \<and> i \<notin> S \<longrightarrow> f ! i = old ! i) \<and> length old \<le> length f \<and> length f \<le> max (length old) (length A)"

lemma overwrite_nth:
  assumes "d \<noteq> []"
  shows "length (overwrite p d f) = max (length f) (p + length d)"
    and "p \<le> i \<Longrightarrow> i < p + length d \<Longrightarrow> overwrite p d f ! i = d ! (i - p)"
    and "i < p \<or> p + length d \<le> i \<Longrightarrow> i < length f \<Longrightarrow> overwrite p d f ! i = f ! i"
  using assms by (auto simp: overwrite_def nth_append min_def max_def)

lemma copied_overwrite:
  assumes c: "copied A old S f" and n: "p + n \<le> length A"
  shows "copied A old (S \<union> {p..<p + n}) (overwrite p (take n (drop p A)) f)"
proof (cases "n = 0")
  case True
  with c show ?thesis by (simp add: overwrite_def)
next
  case False
  let ?d = "take n (drop p A)"
  from False n have d: "?d \<noteq> []" "length ?d = n" by auto
  note o = overwrite_nth [OF d(1), unfolded d(2)]
  have e: "overwrite p ?d f ! i = A ! i" if "p \<le> i" "i < p + n" for i
    using o(2) [OF that] that n by simp
  have s: "overwrite p ?d f ! i = A ! i \<and> i < length (overwrite p ?d f)" if "i \<in> S" for i
    using c that e [of i] o(1) o(3) [where i = i and f = f] by (cases "p \<le> i \<and> i < p + n") (auto simp: copied_def)
  have l: "length (overwrite p ?d f) = max (length f) (p + n)" by (rule o(1))
  show ?thesis unfolding copied_def
  proof (intro conjI ballI allI impI)
    fix i assume "i \<in> S \<union> {p..<p + n}"
    with s [of i] e [of i] l show "i < length (overwrite p ?d f)" "overwrite p ?d f ! i = A ! i" by auto
  next
    fix i assume "i < length old \<and> i \<notin> S \<union> {p..<p + n}"
    with c o(3) [where i = i and f = f] show "overwrite p ?d f ! i = old ! i" by (auto simp: copied_def)
  qed (use c n l in \<open>auto simp: copied_def\<close>)
qed

lemma copied_all: "copied A old {..<length A} f \<Longrightarrow> f = A @ drop (length A) old"
  by (rule nth_equalityI) (auto simp: copied_def nth_append max_def split: if_splits)

lemma next_answer_run: "answers s = [] \<Longrightarrow> next_answer n s = (Return (int n), s)"
  by (simp add: next_answer_def)

lemma mt_fd_read_run:
  assumes q: "answers s = []" "length buf = n" "off + n \<le> length (src s)"
  shows "mt_fd_read buf n off s = (Return (int n, take n (drop off (src s))), s)"
  using q by (auto simp: mt_fd_read_def pread_def next_answer_run prog_simps Let_def max_def min_def split: if_splits)

lemma mt_fd_write_run:
  assumes "answers s = []" "length buf = n" "0 < n"
  shows "mt_fd_write buf n off s = (Return (int n), s\<lparr>dst := overwrite off buf (dst s)\<rparr>)"
  using assms by (auto simp: mt_fd_write_def pwrite_def next_answer_run prog_simps Let_def max_def split: if_splits)

lemma part_run:
  assumes q: "quiet A s" and n: "off + n \<le> length A"
  shows "\<exists>s'. do_mt_copy_part off n s = (Return 0, s') \<and> quiet A s' \<and> dst s' = overwrite off (take n (drop off A)) (dst s)"
proof -
  have rd: "mt_fd_read (replicate n c) n off t = (Return (int n, take n (drop off A)), t)" if "answers t = []" "src t = A" for c t
    using that n by (simp add: mt_fd_read_run)
  have wr: "mt_fd_write (take n (drop off A)) n off t =
      (Return (int n), t\<lparr>dst := overwrite off (take n (drop off A)) (dst t)\<rparr>)" if "answers t = []" "n \<noteq> 0" for t
    using that n by (simp add: mt_fd_write_run)
  show ?thesis
  proof (cases "n = 0")
    case True
    with rd have "mt_fd_read [] 0 off t = (Return (0, []), t)" if "answers t = []" "src t = A" for t using that by simp
    with q True show ?thesis
      by (cases "gVerbose s") (simp_all add: do_mt_copy_part_def prog_simps Let_def quiet_def overwrite_def)
  next
    case False
    with q show ?thesis
      by (cases "gVerbose s") (simp_all add: do_mt_copy_part_def prog_simps rd wr Let_def quiet_def)
  qed
qed

section \<open>Every interleaving\<close>

text \<open>The bytes a piece is responsible for, and that a worker's parts lie inside the file.\<close>

fun span :: "stToThread \<Rightarrow> piece \<Rightarrow> nat set" where
  "span t Share = {start_offset t..<start_offset t + len t}"
| "span t Rest = (if rem t \<noteq> 0 \<and> thrdnum t = thrdtotal t - 1
     then {start_offset t + len t..<start_offset t + len t + rem t} else {})"

definition fits :: "string \<Rightarrow> stToThread \<Rightarrow> bool" where
  "fits A t \<longleftrightarrow> start_offset t + len t \<le> length A \<and>
     (thrdnum t = thrdtotal t - 1 \<longrightarrow> start_offset t + len t + rem t \<le> length A)"

definition pending :: "(stToThread \<times> piece list) list \<Rightarrow> nat set" where
  "pending ts = (\<Union>(t, xs) \<in> set ts. \<Union>x \<in> set xs. span t x)"

definition progress :: "string \<Rightarrow> string \<Rightarrow> nat set \<Rightarrow> mtcopy \<Rightarrow> bool" where
  "progress A old S s \<longleftrightarrow> quiet A s \<and> copied A old S (dst s)"

lemma progress_bout [simp]: "progress A old S (s\<lparr>bout := l\<rparr>) = progress A old S s"
  by (simp add: progress_def quiet_def)

lemma part_progress:
  assumes "progress A old S s" "off + n \<le> length A"
  shows "\<exists>s'. do_mt_copy_part off n s = (Return 0, s') \<and> progress A old (S \<union> {off..<off + n}) s'"
proof -
  from assms have "quiet A s" "copied A old S (dst s)" by (simp_all add: progress_def)
  from part_run [OF this(1) assms(2)] copied_overwrite [OF this(2) assms(2)] show ?thesis
    by (auto simp: progress_def)
qed

lemma worker_progress:
  assumes p: "progress A old S s" and f: "fits A t"
  shows "\<exists>s'. worker t x s = (Return (), s') \<and> progress A old (S \<union> span t x) s'"
proof -
  have part: "\<exists>s'. sq (VPRINT l m) (sq (do_mt_copy_part off n) (ret ())) s = (Return (), s') \<and> progress A old (S \<union> {off..<off + n}) s'"
    if "off + n \<le> length A" for l m off n
  proof -
    define s1 where "s1 = (if gVerbose s then s\<lparr>bout := bout s @ [Out (l @ m)]\<rparr> else s)"
    have "progress A old S s1" using p by (simp add: s1_def)
    from part_progress [OF this that] obtain s2 where
      "do_mt_copy_part off n s1 = (Return 0, s2)" "progress A old (S \<union> {off..<off + n}) s2" by blast
    moreover have "VPRINT l m s = (Return (), s1)" by (simp add: run_VPRINT s1_def)
    ultimately show ?thesis by (simp add: run_bnd_Return run_ret)
  qed
  show ?thesis
  proof (cases x)
    case Share
    then show ?thesis using part [of "start_offset t" "len t"] f by (simp add: fits_def)
  next
    case Rest
    show ?thesis
    proof (cases "rem t \<noteq> 0 \<and> thrdnum t = thrdtotal t - 1")
      case True
      then show ?thesis using part [of "start_offset t + len t" "rem t"] f Rest by (simp add: fits_def)
    next
      case False
      then show ?thesis using Rest p by (auto simp: prog_simps)
    qed
  qed
qed

lemma pieces_progress:
  "progress A old S s \<Longrightarrow> fits A t \<Longrightarrow>
   \<exists>s'. run_pieces t xs s = (Return (), s') \<and> progress A old (S \<union> (\<Union>x \<in> set xs. span t x)) s'"
proof (induction xs arbitrary: S s)
  case (Cons x xs)
  from worker_progress [OF Cons.prems, of x] obtain s1 where
    "worker t x s = (Return (), s1)" "progress A old (S \<union> span t x) s1" by blast
  with Cons.IH [OF this(2) Cons.prems(2)] show ?case by (auto simp: prog_simps Un_assoc)
qed (simp add: prog_simps)

lemma pending_upd:
  assumes "i < length ts" "ts ! i = (t, x # xs)"
  shows "pending ts \<subseteq> span t x \<union> pending (ts[i := (t, xs)])"
proof
  fix a assume "a \<in> pending ts"
  then obtain j where j: "j < length ts" "a \<in> (\<Union>x \<in> set (snd (ts ! j)). span (fst (ts ! j)) x)"
    by (fastforce simp: pending_def in_set_conv_nth split: prod.splits)
  show "a \<in> span t x \<union> pending (ts[i := (t, xs)])"
  proof (cases "j = i")
    case True
    have "(t, xs) \<in> set (ts[i := (t, xs)])" using assms(1) by (rule set_update_memI)
    with True j assms show ?thesis by (fastforce simp: pending_def)
  next
    case False
    with j have "ts ! j \<in> set (ts[i := (t, xs)])" by (metis length_list_update nth_list_update_neq nth_mem)
    with j(2) show ?thesis by (fastforce simp: pending_def split: prod.splits)
  qed
qed

lemma schedule_progress:
  "progress A old S s \<Longrightarrow> (\<forall>(t, xs) \<in> set ts. fits A t) \<Longrightarrow>
   \<exists>ts' s' S'. run_schedule is ts s = (Return ts', s') \<and> progress A old S' s' \<and> (\<forall>(t, xs) \<in> set ts'. fits A t) \<and>
     S \<union> pending ts \<subseteq> S' \<union> pending ts'"
proof (induction "is" arbitrary: S s ts)
  case (Cons i "is")
  show ?case
  proof (cases "i < length ts \<and> snd (ts ! i) \<noteq> []")
    case True
    then obtain t x xs where i: "i < length ts" "ts ! i = (t, x # xs)"
      by (metis list.exhaust_sel prod.collapse)
    let ?ts = "ts[i := (t, xs)]"
    have f: "fits A t" using Cons.prems(2) i nth_mem [OF i(1)] by auto
    from worker_progress [OF Cons.prems(1) f, of x] obtain s1 where
      w: "worker t x s = (Return (), s1)" "progress A old (S \<union> span t x) s1" by blast
    have fs: "\<forall>(t, xs) \<in> set ?ts. fits A t"
      using Cons.prems(2) f set_update_subset_insert [of ts i "(t, xs)"] by fastforce
    from Cons.IH [OF w(2) fs] obtain ts' s' S' where
      "run_schedule is ?ts s1 = (Return ts', s')" "progress A old S' s'" "\<forall>(t, xs) \<in> set ts'. fits A t"
      "S \<union> span t x \<union> pending ?ts \<subseteq> S' \<union> pending ts'" by blast
    moreover have "S \<union> pending ts \<subseteq> S \<union> span t x \<union> pending ?ts" using pending_upd [OF i] by blast
    moreover have "run_schedule (i # is) ts s = run_schedule is ?ts s1" using i w(1) by (simp add: prog_simps)
    ultimately show ?thesis by (metis subset_trans)
  next
    case False
    then have "run_schedule (i # is) ts s = run_schedule is ts s" by (auto split: prod.splits list.splits)
    with Cons.IH [OF Cons.prems] show ?thesis by simp
  qed
qed (auto simp: prog_simps)

lemma join_progress:
  "progress A old S s \<Longrightarrow> (\<forall>(t, xs) \<in> set ts. fits A t) \<Longrightarrow>
   \<exists>s'. join_loop i ts s = (Return (), s') \<and> progress A old (S \<union> pending ts) s'"
proof (induction ts arbitrary: S s i)
  case Nil
  then show ?case by (simp add: prog_simps pending_def)
next
  case (Cons tx ts)
  obtain t xs where tx: "tx = (t, xs)" by fastforce
  from Cons.prems tx pieces_progress [of A old S s t xs] obtain s1 where
    s1: "run_pieces t xs s = (Return (), s1)" "progress A old (S \<union> (\<Union>x \<in> set xs. span t x)) s1" by auto
  then have j: "next_ret join_rets join_rets_update s1 = (Return 0, s1)" by (simp add: next_ret_def progress_def quiet_def)
  have u: "S \<union> (\<Union>x \<in> set xs. span t x) \<union> pending ts = S \<union> pending (tx # ts)" by (auto simp: tx pending_def)
  have "\<exists>s'. join_loop (Suc i) ts s2 = (Return (), s') \<and> progress A old (S \<union> pending (tx # ts)) s'"
    if "progress A old (S \<union> (\<Union>x \<in> set xs. span t x)) s2" for s2
    using Cons.IH [OF that, of "Suc i"] Cons.prems(2) u by simp
  with s1 j show ?case unfolding tx by (cases "gVerbose s1") (simp_all add: prog_simps)
qed

definition share :: "nat \<Rightarrow> int \<Rightarrow> int \<Rightarrow> nat \<Rightarrow> nat \<Rightarrow> stToThread" where
  "share N fr fw F i = \<lparr>thrdnum = i, thrdtotal = N, fd_src = fr, fd_dest = fw,
     start_offset = i * (F div N), len = F div N, rem = F mod N\<rparr>"

lemma create_progress:
  "progress A old S s \<Longrightarrow> \<exists>s'. create_loop k i N fr fw F s =
     (Return (map (\<lambda>j. (share N fr fw F j, [Share, Rest])) [i..<i + k]), s') \<and> progress A old S s'"
proof (induction k arbitrary: i s)
  case (Suc k)
  from Suc.prems have e: "malloc_ok s = (Return True, s)" "next_ret spawn_rets spawn_rets_update s = (Return 0, s)"
    by (simp_all add: malloc_ok_def next_ret_def progress_def quiet_def)
  define s1 where "s1 = snd (VPRINT (mtloc ''do_mt_copy'' 285) (''Thread #'' @ show_nat i @ '' successfully created'' @ [nl]) s)"
  have v: "VPRINT (mtloc ''do_mt_copy'' 285) (''Thread #'' @ show_nat i @ '' successfully created'' @ [nl]) s = (Return (), s1)"
    by (simp add: s1_def run_VPRINT)
  have "progress A old S s1" using Suc.prems by (simp add: s1_def run_VPRINT)
  define ts where "ts = map (\<lambda>j. (share N fr fw F j, [Share, Rest])) [Suc i..<Suc i + k]"
  from Suc.IH [OF \<open>progress A old S s1\<close>, of "Suc i"] obtain s2 where
    "create_loop k (Suc i) N fr fw F s1 = (Return ts, s2)" "progress A old S s2" unfolding ts_def by blast
  moreover have "map (\<lambda>j. (share N fr fw F j, [Share, Rest])) [i..<i + Suc k] = (share N fr fw F i, [Share, Rest]) # ts"
    unfolding ts_def by (simp add: upt_conv_Cons del: upt_Suc)
  ultimately show ?case using e v
    by (simp add: run_bnd_Return run_ret Let_def share_def [of N fr fw F i] del: upt_Suc add_Suc_right)
qed (simp add: prog_simps)

text \<open>The shares tile the file.\<close>

lemma shares_fit:
  assumes "i < N" and "F = length A"
  shows "fits A (share N fr fw F i)"
proof -
  let ?q = "F div N"
  have m: "N * ?q + F mod N = F" by simp
  have "Suc i * ?q \<le> N * ?q" using assms(1) by (intro mult_le_mono1) simp
  then have "i * ?q + ?q \<le> N * ?q" by (simp only: mult_Suc add.commute)
  with m have "i * ?q + ?q \<le> F" by linarith
  moreover have "i * ?q + ?q + F mod N \<le> F" if "i = N - 1"
  proof -
    from that assms(1) have "Suc i = N" by simp
    then have "i * ?q + ?q = N * ?q" by (metis add.commute mult_Suc)
    with m show ?thesis by simp
  qed
  ultimately show ?thesis using assms(2) unfolding fits_def share_def by simp
qed

lemma shares_cover:
  assumes "0 < N"
  shows "{..<F} \<subseteq> pending (map (\<lambda>j. (share N fr fw F j, [Share, Rest])) [0..<0 + N])"
proof
  fix a assume a: "a \<in> {..<F}"
  let ?q = "F div N"
  show "a \<in> pending (map (\<lambda>j. (share N fr fw F j, [Share, Rest])) [0..<0 + N])"
  proof (cases "a < N * ?q")
    case True
    then have "?q > 0" by (cases "?q") auto
    from dividend_less_div_times [OF this, of a] have "a \<in> {a div ?q * ?q..<a div ?q * ?q + ?q}" by (simp add: add.commute)
    moreover have "a div ?q < N" using True by (rule less_mult_imp_div_less)
    moreover from calculation(1) have "a \<in> span (share N fr fw F (a div ?q)) Share" by (simp add: share_def)
    ultimately show ?thesis by (auto simp: pending_def intro!: bexI [of _ "a div ?q"] simp del: span.simps)
  next
    case False
    have m: "N * ?q + F mod N = F" by simp
    have q: "(N - 1) * ?q + ?q = N * ?q" using assms by (cases N) auto
    have l: "N * ?q \<le> a" "a < F" using False a by simp_all
    have "a \<in> {N * ?q..<N * ?q + F mod N}" using l m by (simp only: atLeastLessThan_iff)
    moreover have "F mod N \<noteq> 0" using l m by linarith
    ultimately have "a \<in> span (share N fr fw F (N - 1)) Rest" using q assms by (simp add: share_def)
    then show ?thesis using assms by (auto simp: pending_def intro!: bexI [of _ "N - 1"])
  qed
qed

lemma do_mt_copy_copies:
  assumes q: "quiet A s" and N: "0 < N"
  shows "\<exists>s'. do_mt_copy sched N fr fw (length A) s = (Return 0, s') \<and> dst s' = A @ drop (length A) (dst s)"
proof -
  let ?ts = "map (\<lambda>j. (share N fr fw (length A) j, [Share, Rest])) [0..<0 + N]"
  have "progress A (dst s) {} s" using q by (auto simp: progress_def copied_def)
  from create_progress [OF this, of N 0 N fr fw "length A"] obtain s1 where
    c: "create_loop N 0 N fr fw (length A) s = (Return ?ts, s1)" "progress A (dst s) {} s1" by blast
  have "\<forall>(t, xs) \<in> set ?ts. fits A t" using shares_fit by auto
  from schedule_progress [OF c(2) this, of sched] obtain ts s2 S where
    r: "run_schedule sched ?ts s1 = (Return ts, s2)" "progress A (dst s) S s2" "\<forall>(t, xs) \<in> set ts. fits A t"
      "pending ?ts \<subseteq> S \<union> pending ts" by auto
  from join_progress [OF r(2,3), of 0] obtain s3 where
    j: "join_loop 0 ts s2 = (Return (), s3)" "progress A (dst s) (S \<union> pending ts) s3" by blast
  then have "S \<union> pending ts = {..<length A}"
    using subset_trans [OF shares_cover [OF N, of "length A" fr fw] r(4)] by (simp add: progress_def copied_def subset_antisym)
  with j(2) have "dst s3 = A @ drop (length A) (dst s)" by (auto simp: progress_def intro: copied_all)
  with c(1) r(1) j(1) show ?thesis by (simp add: do_mt_copy_def run_bnd_Return run_ret)
qed


definition mtcopy0 :: mtcopy where
  "mtcopy0 = \<lparr>bout = [], berrno = None, bmem = [], gVerbose = False, src = ''hello world'', dst = [], rp = 0, wp = 0,
     answers = [], blksize = 4, stat_ok = True, open_r = 3, open_w = 4, fill = CHR ''?'', shut = [], spawn_rets = [], join_rets = []\<rparr>"


end
