(* ===== verification/Primes.thy ===== *)
theory Primes
  imports Book_Common
begin

text \<open>
  The prime generators: \<^verbatim>\<open>src/booksrc/ch3/rlimit_primes.c\<close> and the threaded \<^verbatim>\<open>mt_primes1.c\<close> and \<^verbatim>\<open>mt_primes2.c\<close> under
  \<^verbatim>\<open>src/booksrc/solutions_to_assgn/ch16\<close>. Every worker of the threaded programs fills its own buffer and prints; a
  schedule says in which order workers run before main waits for those that are left. The buffer and the parameter
  structure of a worker are \<open>None\<close> and not live once freed.
\<close>

section \<open>The test\<close>

text \<open>The loop over \<open>j\<close>, common to the three programs.\<close>

function inner :: "nat \<Rightarrow> nat \<Rightarrow> nat \<Rightarrow> bool" where
  "inner i j lim = (if j < lim then (if i \<noteq> j \<and> i mod j = 0 then False else inner i (Suc j) lim) else True)"
  by pat_completeness auto
termination
  by (relation "measure (\<lambda>(i, j, lim). lim - j)") auto

declare inner.simps [simp del]

definition isprime :: "nat \<Rightarrow> nat \<Rightarrow> bool" where
  "isprime limit i = inner i 2 (limit div 2)"

definition entry :: "nat \<Rightarrow> string" where
  "entry i = pad (CHR '' '') 6 (show_nat i) @ '', ''"

section \<open>rlimit\_primes.c\<close>

record rlim = bk +
  old_limit :: "(int \<times> int) option"

type_synonym 'a rlprog = "(rlim, 'a) cprog"

fun rl_primegen_loop :: "nat \<Rightarrow> nat list \<Rightarrow> nat \<Rightarrow> unit rlprog" where
  "rl_primegen_loop limit [] num = ret ()"
| "rl_primegen_loop limit (i # is) num =
     (if isprime limit i then
        sq (printf (entry i))
        (sq (if Suc num mod 16 = 0 then printf [nl] else ret ())
        (rl_primegen_loop limit is (Suc num)))
      else rl_primegen_loop limit is num)"

definition rl_simple_primegen :: "nat \<Rightarrow> unit rlprog" where
  "rl_simple_primegen limit =
     sq (printf ''  2,  3, '')
     (sq (rl_primegen_loop limit [4..<Suc limit] 2)
     (printf [nl]))"

text \<open>\<^verbatim>\<open>RLIM_INFINITY\<close> prints as -1. A failed \<^verbatim>\<open>prlimit\<close> sets nothing.\<close>

definition setup_cpu_rlimit :: "int \<Rightarrow> unit rlprog" where
  "setup_cpu_rlimit cpulimit =
     bnd (gets old_limit) (\<lambda>old.
     case old of
       None \<Rightarrow> sq (FATAL (place ''rlimit_primes.c'' ''setup_cpu_rlimit'' 75) (''prlimit:cpu failed'' @ [nl])) (fault Uninitialised)
     | Some (soft, hard) \<Rightarrow>
         printf (''CPU rlimit [soft,hard] new: ['' @ show_int cpulimit @ '':'' @ show_int cpulimit @ '']s : old ['' @
           show_int soft @ '':'' @ show_int hard @ '']s (-1 = unlimited)'' @ [nl]))"

definition rlimit_primes_main :: "string list \<Rightarrow> 'a rlprog" where
  "rlimit_primes_main argv =
     (if length argv < 3 then
        sq (eprintf (''Usage: '' @ argv ! 0 @ '' limit-to-generate-primes-upto CPU-time-limit'' @ [nl] @ '' arg1 : max is '' @
             show_nat 10000000 @ [nl] @ '' arg2 : CPU-time-limit:'' @ [nl] @ ''  -2 = don'' @ [CHR 0x27] @ ''t set'' @ [nl] @
             ''  -1 = unlimited'' @ [nl] @ ''   0 = 1s'' @ [nl]))
        (exit_with EXIT_FAILURE)
      else
      let limit = atoi (argv ! 1) in
      if limit \<le> 4 \<or> limit > 10000000 then
        sq (eprintf (argv ! 0 @ '': invalid value ('' @ show_int limit @ ''); pl pass a value within the range [4 - '' @
             show_nat 10000000 @ ''].'' @ [nl]))
        (exit_with EXIT_FAILURE)
      else
      let nsec = (if atoi (argv ! 2) = 0 then 1 else atoi (argv ! 2)) in
      sq (if nsec \<noteq> -2 then setup_cpu_rlimit nsec else ret ())
      (sq (rl_simple_primegen (nat limit))
      (exit_with EXIT_SUCCESS)))"

section \<open>The threaded generators\<close>

record primes = bk +
  iobuf :: "nat \<Rightarrow> string option"
  params :: "nat \<Rightarrow> bool"
  gCanceledThread :: nat
  datafile :: string
  open_fd :: int
  write_ok :: bool
  create_rets :: "int list"

type_synonym 'a prprog = "(primes, 'a) cprog"

definition NTHREADS :: nat where "NTHREADS = 3"
definition MEM_SIZE :: nat where "MEM_SIZE = 100000"

definition prime_range :: "(nat \<times> nat) list" where
  "prime_range = [(1, 5000), (5001, 10000), (20000, 20101)]"

text \<open>The buffer must hold the text and its terminator; leaving it is \<open>None\<close>.\<close>

fun primegen_loop :: "nat \<Rightarrow> nat list \<Rightarrow> nat \<Rightarrow> string \<Rightarrow> (nat \<times> string) option" where
  "primegen_loop limit [] num_primes buf = Some (num_primes, buf)"
| "primegen_loop limit (i # is) num_primes buf =
     (if isprime limit i then
        (if length buf + length (entry i) < MEM_SIZE then primegen_loop limit is (Suc num_primes) (buf @ entry i) else None)
      else primegen_loop limit is num_primes buf)"

text \<open>A failed \<^verbatim>\<open>assert\<close> ends the process (status 134).\<close>

definition simple_primegen :: "nat \<Rightarrow> nat \<Rightarrow> nat \<Rightarrow> nat prprog" where
  "simple_primegen start limit t =
     (if limit < start then exit_with 134 else
      bnd (gets (\<lambda>s. iobuf s t)) (\<lambda>b.
      case b of None \<Rightarrow> fault BadDeref
      | Some buf \<Rightarrow>
          (case primegen_loop limit [start..<Suc limit] 0 buf of None \<Rightarrow> fault OutOfBounds
           | Some (n, buf') \<Rightarrow> sq (modify (\<lambda>s. s\<lparr>iobuf := (iobuf s)(t := Some buf')\<rparr>)) (ret n))))"

definition worker_line :: "nat \<Rightarrow> nat \<Rightarrow> string" where
  "worker_line t n = '' Worker #'' @ pad (CHR '' '') 2 (show_nat t) @ '' : Generate primes from '' @
     pad (CHR '' '') 9 (show_nat (fst (prime_range ! t))) @ '' to '' @ pad (CHR '' '') 9 (show_nat (snd (prime_range ! t))) @ '' : '' @
     pad (CHR '' '') 6 (show_nat n) @ '' primes generated'' @ [nl]"

text \<open>\<^verbatim>\<open>mt_primes1.c\<close>: \<^verbatim>\<open>worker\<close>.\<close>

definition worker1 :: "nat \<Rightarrow> unit prprog" where
  "worker1 t =
     bnd (gets (\<lambda>s. params s t)) (\<lambda>p. if \<not> p then fault BadDeref else
     bnd (simple_primegen (fst (prime_range ! t)) (snd (prime_range ! t)) t) (\<lambda>n.
     printf (worker_line t n)))"

text \<open>\<^verbatim>\<open>mt_primes2.c\<close>: a worker that is canceled runs the cleanup handler instead.\<close>

definition pr_free :: "nat \<Rightarrow> unit prprog" where
  "pr_free t =
     bnd (gets (\<lambda>s. (params s t, iobuf s t))) (\<lambda>(p, b).
     if \<not> p then fault BadDeref else if b = None then fault BadFree else
     modify (\<lambda>s. s\<lparr>iobuf := (iobuf s)(t := None), params := (params s)(t := False)\<rparr>))"

definition cleanup_handler :: "nat \<Rightarrow> unit prprog" where
  "cleanup_handler t =
     sq (modify (\<lambda>s. s\<lparr>gCanceledThread := t\<rparr>))
     (sq (printf (''+++ In cleanup func cleanup_handler (thread #'' @ show_nat t @ '' canceled!) +++'' @ [nl]))
     (pr_free t))"

definition worker2 :: "bool \<Rightarrow> nat \<Rightarrow> unit prprog" where
  "worker2 canceled t =
     bnd (gets (\<lambda>s. params s t)) (\<lambda>p. if \<not> p then fault BadDeref else
     if canceled \<and> t = 2 then cleanup_handler t else
     bnd (simple_primegen (fst (prime_range ! t)) (snd (prime_range ! t)) t) (\<lambda>n.
     sq (printf (take 254 (worker_line t n)))
     (bnd (gets (\<lambda>s. iobuf s t)) (\<lambda>b.
     printf (''len = '' @ show_nat (length (the b)) @ [nl])))))"

fun write_the_primes :: "nat list \<Rightarrow> unit prprog" where
  "write_the_primes [] = ret ()"
| "write_the_primes (i # is) =
     bnd (gets (\<lambda>s. (gCanceledThread s, params s i, iobuf s i, write_ok s))) (\<lambda>(c, p, b, ok).
     if i = c then write_the_primes is
     else if \<not> p then fault BadDeref
     else case b of None \<Rightarrow> fault BadDeref
     | Some t \<Rightarrow>
         sq (if ok then modify (\<lambda>s. s\<lparr>datafile := datafile s @ t\<rparr>)
             else WARN (place ''mt_primes2.c'' ''write_the_primes'' 121)
               (''thread #'' @ show_nat i @ ''; write(2) of iobuf to the data file failed.'' @ [nl]))
         (write_the_primes is))"

text \<open>
  The creation loop, the run of the workers and the join loop of both programs. \<^verbatim>\<open>FATAL\<close> returns when it has no memory
  itself; a missing structure is then dereferenced, a missing buffer fails the assertion in the worker, and a thread
  that was not created leaves its \<^verbatim>\<open>tid\<close> unset.
\<close>

definition next_create :: "int prprog" where
  "next_create = (\<lambda>s. case create_rets s of [] \<Rightarrow> (Return 0, s) | r # rs \<Rightarrow> (Return r, s\<lparr>create_rets := rs\<rparr>))"

fun pr_create :: "(nat \<Rightarrow> string) \<Rightarrow> nat list \<Rightarrow> nat list prprog" where
  "pr_create loc [] = ret []"
| "pr_create loc (i # is) =
     bnd malloc_ok (\<lambda>ok1.
     sq (if \<not> ok1 then FATAL (loc 0) (''calloc stToThread['' @ show_nat i @ ''] failed!'' @ [nl]) else ret ())
     (if \<not> ok1 then fault NullDeref else
     bnd malloc_ok (\<lambda>ok2.
     sq (if \<not> ok2 then sq (FATAL (loc 7) (''calloc MEM_SIZE failed!'' @ [nl])) (exit_with 134) else ret ())
     (sq (modify (\<lambda>s. s\<lparr>params := (params s)(i := True), iobuf := (iobuf s)(i := Some [])\<rparr>))
     (bnd next_create (\<lambda>r.
     sq (if r \<noteq> 0 then sq (FATAL (loc 11) (''pthread_create() failed! ['' @ show_int r @ '']'' @ [nl])) (fault Uninitialised) else ret ())
     (bnd (pr_create loc is) (\<lambda>ts. ret (i # ts)))))))))"

fun pr_schedule :: "(nat \<Rightarrow> unit prprog) \<Rightarrow> nat list \<Rightarrow> nat list \<Rightarrow> nat list prprog" where
  "pr_schedule w [] ts = ret ts"
| "pr_schedule w (i # is) ts =
     (if i \<in> set ts then sq (w i) (pr_schedule w is (remove1 i ts)) else pr_schedule w is ts)"

text \<open>\<open>after\<close> is what main does with a worker it has joined.\<close>

fun pr_join :: "(nat \<Rightarrow> unit prprog) \<Rightarrow> (nat \<Rightarrow> unit prprog) \<Rightarrow> (nat \<Rightarrow> int) \<Rightarrow> nat list \<Rightarrow> nat list \<Rightarrow> unit prprog" where
  "pr_join w after status [] ts = ret ()"
| "pr_join w after status (i # is) ts =
     sq (if i \<in> set ts then w i else ret ())
     (sq (printf ('' Thread #'' @ show_nat i @ '' successfully joined; it terminated with status='' @ show_int (status i) @ [nl]))
     (sq (if status i = -1 then printf (''  : was CANCELED'' @ [nl]) else ret ())
     (sq (after i) (pr_join w after status is (remove1 i ts)))))"

definition mt_primes1_main :: "nat list \<Rightarrow> int prprog" where
  "mt_primes1_main sched =
     bnd (pr_create (\<lambda>k. place ''mt_primes1.c'' ''main'' (127 + k)) [0..<NTHREADS]) (\<lambda>ts.
     bnd (pr_schedule worker1 sched ts) (\<lambda>ts.
     sq (pr_join worker1 pr_free (\<lambda>_. 0) [0..<NTHREADS] ts) (ret 0)))"

text \<open>\<open>hit\<close>: whether the request to cancel the third worker reaches it before it is through.\<close>

definition mt_primes2_main :: "nat list \<Rightarrow> bool \<Rightarrow> string list \<Rightarrow> int prprog" where
  "mt_primes2_main sched hit argv =
     bnd (gets open_fd) (\<lambda>fd.
     sq (if fd < 0 then FATAL (place ''mt_primes2.c'' ''main'' 189) (''Opening data file \"primes.dat\" failed'' @ [nl]) else ret ())
     (bnd (pr_create (\<lambda>k. place ''mt_primes2.c'' ''main'' (199 + (if k = 11 then 13 else k))) [0..<NTHREADS]) (\<lambda>ts.
     let cancel = (length argv \<ge> 2 \<and> atoi (argv ! 1) = 1) in
     sq (if cancel then printf (''main: sending CANCEL REQUEST to worker thread 2 now ...'' @ [nl]) else ret ())
     (bnd (pr_schedule (worker2 (cancel \<and> hit)) sched ts) (\<lambda>ts.
     sq (pr_join (worker2 (cancel \<and> hit)) (\<lambda>_. ret ()) (\<lambda>i. if cancel \<and> hit \<and> i = 2 then -1 else 0) [0..<NTHREADS] ts)
     (sq (write_the_primes [0..<NTHREADS])
     (sq (foldr (\<lambda>i k. sq (bnd (gets gCanceledThread) (\<lambda>c. if i = c then ret () else pr_free i)) k) [0..<NTHREADS] (ret ()))
     (ret 0))))))))"

section \<open>What the test decides\<close>

definition is_prime :: "nat \<Rightarrow> bool" where
  "is_prime p \<longleftrightarrow> 1 < p \<and> (\<forall>d. d dvd p \<longrightarrow> d = 1 \<or> d = p)"

lemma inner_iff: "inner i j lim \<longleftrightarrow> (\<forall>k. j \<le> k \<and> k < lim \<longrightarrow> i = k \<or> i mod k \<noteq> 0)"
proof (induction i j lim rule: inner.induct)
  case (1 i j lim)
  show ?case
  proof (cases "j < lim \<and> \<not> (i \<noteq> j \<and> i mod j = 0)")
    case True
    with 1 have "inner i j lim \<longleftrightarrow> (\<forall>k. Suc j \<le> k \<and> k < lim \<longrightarrow> i = k \<or> i mod k \<noteq> 0)"
      by (subst inner.simps) auto
    with True show ?thesis by (metis Suc_leI le_neq_implies_less nat_less_le Suc_leD)
  next
    case False
    then show ?thesis by (subst inner.simps) auto
  qed
qed

text \<open>A composite number has a divisor whose square does not exceed it.\<close>

lemma small_divisor:
  assumes "1 < i" and "\<not> is_prime i"
  obtains d where "2 \<le> d" "d * d \<le> i" "d dvd i"
proof -
  from assms obtain d where d: "d dvd i" "d \<noteq> 1" "d \<noteq> i" by (auto simp: is_prime_def)
  then obtain e where e: "i = d * e" by blast
  with assms(1) d have de: "2 \<le> d" "2 \<le> e" by (cases d; cases e; cases "d - 1"; cases "e - 1"; auto)+
  show ?thesis
  proof (cases "d \<le> e")
    case True
    with de e d(1) that [of d] show ?thesis by simp
  next
    case False
    with de e that [of e] show ?thesis by simp
  qed
qed

text \<open>
  For limits of at least 6 the bound \<^verbatim>\<open>limit / 2\<close> of the loop is large enough for every divisor that matters.
\<close>

lemma isprime_iff:
  assumes L: "6 \<le> limit" and i: "i \<le> limit"
  shows "isprime limit i \<longleftrightarrow> i = 1 \<or> is_prime i"
proof (cases "i < 2")
  case True
  then consider "i = 0" | "i = 1" by linarith
  then show ?thesis
  proof cases
    case 1
    have "2 < limit div 2" using L by linarith
    with 1 show ?thesis by (auto simp: isprime_def inner_iff is_prime_def)
  qed (auto simp: isprime_def inner_iff)
next
  case False
  show ?thesis
  proof (cases "is_prime i")
    case True
    have "i mod k \<noteq> 0" if "2 \<le> k" "i \<noteq> k" for k
      using True that by (auto simp: is_prime_def mod_eq_0_iff_dvd)
    with True show ?thesis unfolding isprime_def inner_iff by blast
  next
    case F: False
    with small_divisor [of i] False obtain d where d: "2 \<le> d" "d * d \<le> i" "d dvd i" by force
    have "2 * d + 2 \<le> limit"
    proof (cases "d = 2")
      case False
      with d(1) have "3 * d \<le> d * d" by simp
      with d(1) False d(2) i show ?thesis by linarith
    qed (use L in simp)
    then have "d < limit div 2" by linarith
    moreover have "i \<noteq> d" using d(1,2) by (cases d) auto
    ultimately have "\<not> isprime limit i" using d by (auto simp: isprime_def inner_iff mod_eq_0_iff_dvd)
    with F False show ?thesis by auto
  qed
qed

text \<open>With limit 5 the loop has no divisor to try.\<close>

lemma limit_five: "isprime 5 4"
  by (simp add: isprime_def inner.simps)

lemma rl_loop_run:
  "\<exists>out. rl_primegen_loop limit is num s = (Return (), s\<lparr>bout := bout s @ out\<rparr>) \<and>
    filter (\<lambda>e. e \<noteq> Out [nl]) out = map (\<lambda>i. Out (entry i)) (filter (isprime limit) is)"
proof (induction "is" arbitrary: num s)
  case Nil
  show ?case by (auto simp: prog_simps intro: exI [of _ "[]"])
next
  case (Cons i "is")
  show ?case
  proof (cases "isprime limit i")
    case True
    have ne: "Out (entry i) \<noteq> Out [nl]" by (simp add: entry_def pad_def append_eq_Cons_conv)
    let ?l = "Out (entry i) # (if Suc num mod 16 = 0 then [Out [nl]] else [])"
    from Cons.IH [of "Suc num" "s\<lparr>bout := bout s @ ?l\<rparr>"] obtain out where
      "rl_primegen_loop limit is (Suc num) (s\<lparr>bout := bout s @ ?l\<rparr>) = (Return (), s\<lparr>bout := bout s @ ?l @ out\<rparr>)"
      "filter (\<lambda>e. e \<noteq> Out [nl]) out = map (\<lambda>i. Out (entry i)) (filter (isprime limit) is)" by auto
    then show ?thesis using True ne
      by (intro exI [of _ "?l @ out"]) (cases "Suc num mod 16 = 0"; simp add: prog_simps)
  qed (use Cons.IH in simp)
qed

text \<open>
  C33. For every limit of at least 6 the program of chapter 3 prints, after 2 and 3, exactly the primes up to the limit, in
  ascending order (besides the line breaks).
\<close>

theorem rl_prints_primes:
  assumes "6 \<le> limit"
  shows "\<exists>out. rl_simple_primegen limit s = (Return (), s\<lparr>bout := bout s @ [Out ''  2,  3, ''] @ out @ [Out [nl]]\<rparr>) \<and>
    filter (\<lambda>e. e \<noteq> Out [nl]) out = map (\<lambda>i. Out (entry i)) (filter is_prime [4..<Suc limit])"
proof -
  have "filter (isprime limit) [4..<Suc limit] = filter is_prime [4..<Suc limit]"
  proof (rule filter_cong [OF refl])
    fix i assume "i \<in> set [4..<Suc limit]"
    then have "4 \<le> i" "i \<le> limit" by (simp_all del: upt_Suc)
    with isprime_iff [OF assms, of i] show "isprime limit i = is_prime i" by simp
  qed
  moreover obtain out where
    "rl_primegen_loop limit [4..<Suc limit] 2 (s\<lparr>bout := bout s @ [Out ''  2,  3, '']\<rparr>) =
       (Return (), s\<lparr>bout := bout s @ [Out ''  2,  3, ''] @ out\<rparr>)"
    "filter (\<lambda>e. e \<noteq> Out [nl]) out = map (\<lambda>i. Out (entry i)) (filter (isprime limit) [4..<Suc limit])"
    using rl_loop_run [of limit "[4..<Suc limit]" 2 "s\<lparr>bout := bout s @ [Out ''  2,  3, '']\<rparr>"] by auto
  ultimately show ?thesis
    by (intro exI [of _ out]) (simp add: rl_simple_primegen_def prog_simps del: upt_Suc)
qed

definition rlim0 :: rlim where
  "rlim0 = \<lparr>bout = [], berrno = None, bmem = [], gVerbose = False, old_limit = Some (-1, -1)\<rparr>"

theorem rl_prints_primes_witness:
  "\<exists>out. rl_simple_primegen 6 rlim0 = (Return (), rlim0\<lparr>bout := bout rlim0 @ [Out ''  2,  3, ''] @ out @ [Out [nl]]\<rparr>) \<and>
    filter (\<lambda>e. e \<noteq> Out [nl]) out = map (\<lambda>i. Out (entry i)) (filter is_prime [4..<Suc 6])"
  by (rule rl_prints_primes) simp

section \<open>The data file\<close>

text \<open>What a worker puts into its buffer for its range.\<close>

definition primes_text :: "nat \<Rightarrow> nat \<Rightarrow> string" where
  "primes_text a b = concat (map entry (filter (\<lambda>i. i = 1 \<or> is_prime i) [a..<Suc b]))"

lemma length_entry: "i < 10 ^ 6 \<Longrightarrow> length (entry i) = 8"
  using length_show_nat [of i 5] by (simp add: entry_def pad_def)

lemma primegen_loop_run:
  "\<forall>i \<in> set is. i < 10 ^ 6 \<Longrightarrow> length buf + 8 * length is < MEM_SIZE \<Longrightarrow>
   primegen_loop limit is n buf =
     Some (n + length (filter (isprime limit) is), buf @ concat (map entry (filter (isprime limit) is)))"
  by (induction "is" arbitrary: n buf) (auto simp: length_entry)

lemma simple_primegen_run:
  assumes "6 \<le> b" "a \<le> b" "b < 10 ^ 6" "b - a < 12000" and "iobuf s t = Some []"
  shows "\<exists>n. simple_primegen a b t s = (Return n, s\<lparr>iobuf := (iobuf s)(t := Some (primes_text a b))\<rparr>)"
proof -
  have "filter (isprime b) [a..<Suc b] = filter (\<lambda>i. i = 1 \<or> is_prime i) [a..<Suc b]"
  proof (rule filter_cong [OF refl])
    fix i assume "i \<in> set [a..<Suc b]"
    then have "i \<le> b" by (simp del: upt_Suc)
    with isprime_iff [OF assms(1), of i] show "isprime b i = (i = 1 \<or> is_prime i)" by simp
  qed
  then have "primegen_loop b [a..<Suc b] 0 [] = Some (length (filter (isprime b) [a..<Suc b]), primes_text a b)"
    using assms primegen_loop_run [of "[a..<Suc b]" "[]" b 0]
    by (simp add: primes_text_def MEM_SIZE_def del: upt_Suc)
  with assms show ?thesis by (simp add: simple_primegen_def prog_simps del: upt_Suc)
qed

text \<open>The workers \<open>ts\<close> are still to run; those that ran have filled their buffers.\<close>

definition text_of :: "nat \<Rightarrow> string" where
  "text_of t = primes_text (fst (prime_range ! t)) (snd (prime_range ! t))"

definition filled :: "nat list \<Rightarrow> primes \<Rightarrow> bool" where
  "filled ts s \<longleftrightarrow> distinct ts \<and> set ts \<subseteq> {0, 1, 2} \<and> gCanceledThread s = 0 \<and> write_ok s \<and> datafile s = [] \<and>
     (\<forall>t \<in> {0, 1, 2}. params s t \<and> iobuf s t = Some (if t \<in> set ts then [] else text_of t))"

lemma filled_bout [simp]: "filled ts (s\<lparr>bout := l\<rparr>) = filled ts s"
  by (simp add: filled_def)

lemma worker2_fills:
  assumes f: "filled ts s" and t: "t \<in> set ts"
  shows "\<exists>s'. worker2 False t s = (Return (), s') \<and> filled (remove1 t ts) s'"
proof -
  from f t have b: "params s t" "iobuf s t = Some []" and t3: "t = 0 \<or> t = 1 \<or> t = 2" by (auto simp: filled_def)
  let ?r = "prime_range ! t"
  from t3 have "6 \<le> snd ?r" "fst ?r \<le> snd ?r" "snd ?r < 10 ^ 6" "snd ?r - fst ?r < 12000"
    by (auto simp: prime_range_def)
  from simple_primegen_run [OF this b(2)] obtain n where
    "simple_primegen (fst ?r) (snd ?r) t s = (Return n, s\<lparr>iobuf := (iobuf s)(t := Some (text_of t))\<rparr>)"
    by (auto simp: text_of_def)
  moreover have "filled (remove1 t ts) (s\<lparr>iobuf := (iobuf s)(t := Some (text_of t))\<rparr>)"
    using f t by (auto simp: filled_def)
  ultimately show ?thesis using b by (simp add: worker2_def prog_simps)
qed

lemma schedule_fills:
  "filled ts s \<Longrightarrow> \<exists>ts' s'. pr_schedule (worker2 False) is ts s = (Return ts', s') \<and> filled ts' s'"
proof (induction "is" arbitrary: ts s)
  case (Cons i "is")
  show ?case
  proof (cases "i \<in> set ts")
    case True
    from worker2_fills [OF Cons.prems True] obtain s1 where
      "worker2 False i s = (Return (), s1)" "filled (remove1 i ts) s1" by blast
    with Cons.IH [OF this(2)] True show ?thesis by (simp add: prog_simps)
  qed (use Cons in simp)
qed (simp add: prog_simps)

lemma join_fills:
  assumes after: "\<And>i s. after i s = (Return (), s)"
  shows "filled ts s \<Longrightarrow> \<exists>s'. pr_join (worker2 False) after (\<lambda>_. 0) is ts s = (Return (), s') \<and> filled (filter (\<lambda>t. t \<notin> set is) ts) s'"
proof (induction "is" arbitrary: ts s)
  case (Cons i "is")
  have d: "distinct ts" using Cons.prems by (simp add: filled_def)
  have "\<exists>s1. (if i \<in> set ts then worker2 False i else ret ()) s = (Return (), s1) \<and> filled (remove1 i ts) s1"
    using worker2_fills [OF Cons.prems, of i] Cons.prems by (cases "i \<in> set ts") (auto simp: prog_simps remove1_idem)
  then obtain s1 where s1: "(if i \<in> set ts then worker2 False i else ret ()) s = (Return (), s1)" "filled (remove1 i ts) s1" by blast
  have e: "filter (\<lambda>t. t \<notin> set is) (remove1 i ts) = filter (\<lambda>t. t \<notin> set (i # is)) ts"
    using d by (auto simp: distinct_remove1_removeAll removeAll_filter_not_eq intro!: filter_cong)
  have "\<exists>s'. pr_join (worker2 False) after (\<lambda>_. 0) is (remove1 i ts) s2 = (Return (), s') \<and>
      filled (filter (\<lambda>t. t \<notin> set (i # is)) ts) s'" if "filled (remove1 i ts) s2" for s2
    using Cons.IH [OF that] e by simp
  with s1 show ?case by (simp add: run_bnd_Return run_ret run_printf after [of i])
qed (simp add: prog_simps)

text \<open>
  Without a cancellation mt\_primes2 writes the primes of its second and third worker to the data file and never
  those of the first, whose buffer it does not free either: the variable that names the canceled thread is 0, a thread
  number, when no thread was canceled. This holds for every schedule of the workers.
\<close>

theorem mt_primes2_skips_first:
  assumes "bmem s = []" "create_rets s = []" "0 \<le> open_fd s" "write_ok s" "gCanceledThread s = 0" "datafile s = []"
  shows "\<exists>s'. mt_primes2_main sched hit [prog] s = (Return 0, s') \<and>
    datafile s' = primes_text 5001 10000 @ primes_text 20000 20101 \<and> iobuf s' 0 = Some (primes_text 1 5000)"
proof -
  have n: "[0..<NTHREADS] = [0, 1, 2]" by (simp add: NTHREADS_def upt_rec)
  obtain s1 where c: "pr_create (\<lambda>k. place ''mt_primes2.c'' ''main'' (199 + (if k = 11 then 13 else k))) [0, 1, 2] s = (Return [0, 1, 2], s1)"
    and "filled [0, 1, 2] s1"
    using assms by (simp add: prog_eval run_bk_malloc next_create_def filled_def)
  from schedule_fills [OF this(2), of sched] obtain ts s2 where
    sc: "pr_schedule (worker2 False) sched [0, 1, 2] s1 = (Return ts, s2)" "filled ts s2" by blast
  have "filter (\<lambda>t. t \<notin> set [0, 1, 2]) ts = []" using sc(2) by (auto simp: filled_def filter_empty_conv)
  with join_fills [OF _ sc(2), of "\<lambda>_. ret ()" "[0, 1, 2]"] run_ret obtain s3 where
    j: "pr_join (worker2 False) (\<lambda>_. ret ()) (\<lambda>_. 0) [0, 1, 2] ts s2 = (Return (), s3)" and f: "filled [] s3" by metis
  have w: "write_the_primes [0, 1, 2] s3 = (Return (), s3\<lparr>datafile := text_of 1 @ text_of 2\<rparr>)"
    using f by (simp add: filled_def prog_simps)
  have t: "text_of 0 = primes_text 1 5000" "text_of 1 = primes_text 5001 10000" "text_of 2 = primes_text 20000 20101"
    by (simp_all add: text_of_def prime_range_def)
  show ?thesis using assms c sc(1) j w f
    by (simp add: mt_primes2_main_def n prog_simps Let_def pr_free_def filled_def t [simplified]
        del: pr_create.simps pr_schedule.simps pr_join.simps write_the_primes.simps)
qed

definition primes0 :: primes where
  "primes0 = \<lparr>bout = [], berrno = None, bmem = [], gVerbose = False, iobuf = Map.empty, params = (\<lambda>_. False),
     gCanceledThread = 0, datafile = [], open_fd = 3, write_ok = True, create_rets = []\<rparr>"

theorem mt_primes2_skips_first_witness:
  "\<exists>s'. mt_primes2_main [1] False [''mt_primes2''] primes0 = (Return 0, s') \<and>
    datafile s' = primes_text 5001 10000 @ primes_text 20000 20101 \<and> iobuf s' 0 = Some (primes_text 1 5000)"
  by (rule mt_primes2_skips_first) (simp_all add: primes0_def)

end
