(* ===== verification/Simple_Shell.thy ===== *)
theory Simple_Shell
  imports Book_Common
begin

text \<open>
  The three small shells \<^verbatim>\<open>src/booksrc/ch10/simpsh_v1.c\<close>, \<^verbatim>\<open>simpsh_v2.c\<close> and \<^verbatim>\<open>simpsh_v3.c\<close>. The state holds what is
  still to be read from stdin and, per \<^verbatim>\<open>fork\<close>, what the system does: the result of \<^verbatim>\<open>fork\<close>, why \<^verbatim>\<open>execlp\<close> fails if
  it does, and the result and status of the wait (all successes when the list is used up). A child starts as a copy of
  the shell's state; what it prints goes to \<open>child_out\<close> and the commands handed to \<^verbatim>\<open>execlp\<close> to \<open>execs\<close>.
\<close>

section \<open>State\<close>

record child =
  fork_ret :: int
  exec_err :: "string option"
  wait_ret :: "int \<times> nat"

record shell = bk +
  stdin :: string
  kids :: "child list"
  execs :: "string list"
  child_out :: "io list"
  pid :: int

type_synonym 'a shprog = "(shell, 'a) cprog"

datatype ver = V1 | V2 | V3

fun sh_file :: "ver \<Rightarrow> string" where
  "sh_file V1 = ''simpsh_v1.c''"
| "sh_file V2 = ''simpsh_v2.c''"
| "sh_file V3 = ''simpsh_v3.c''"

text \<open>The lines of the messages of \<^verbatim>\<open>do_simpsh\<close>, and the line of the head of \<^verbatim>\<open>interpret_wait\<close>.\<close>

fun sh_lines :: "ver \<Rightarrow> nat list" where
  "sh_lines V1 = [58, 63, 77, 79, 83, 90, 95]"
| "sh_lines V2 = [79, 84, 98, 100, 104, 111, 117]"
| "sh_lines V3 = [80, 85, 99, 101, 105, 112, 122]"

definition sh_loc :: "ver \<Rightarrow> nat \<Rightarrow> string" where
  "sh_loc v k = place (sh_file v) ''do_simpsh'' (sh_lines v ! k)"

definition pad7 :: "int \<Rightarrow> string" where
  "pad7 x = pad (CHR '' '') 7 (show_int x)"

section \<open>Reading the status of a child\<close>

definition WIFEXITED :: "nat \<Rightarrow> bool" where "WIFEXITED s \<longleftrightarrow> s mod 128 = 0"
definition WEXITSTATUS :: "nat \<Rightarrow> nat" where "WEXITSTATUS s = s div 256 mod 256"
definition WTERMSIG :: "nat \<Rightarrow> nat" where "WTERMSIG s = s mod 128"
definition WCOREDUMP :: "nat \<Rightarrow> bool" where "WCOREDUMP s \<longleftrightarrow> s div 128 mod 2 = 1"
definition WIFSTOPPED :: "nat \<Rightarrow> bool" where "WIFSTOPPED s \<longleftrightarrow> s mod 256 = 127"
definition WSTOPSIG :: "nat \<Rightarrow> nat" where "WSTOPSIG s = WEXITSTATUS s"
definition WIFCONTINUED :: "nat \<Rightarrow> bool" where "WIFCONTINUED s \<longleftrightarrow> s = 65535"

text \<open>\<^verbatim>\<open>((signed char) ((s & 0x7f) + 1) >> 1) > 0\<close>\<close>

definition WIFSIGNALED :: "nat \<Rightarrow> bool" where
  "WIFSIGNALED s \<longleftrightarrow> (let c = s mod 128 + 1; sc = (if c \<ge> 128 then int c - 256 else int c) in sc div 2 > 0)"

definition interpret_wait :: "ver \<Rightarrow> int \<Rightarrow> nat \<Rightarrow> unit shprog" where
  "interpret_wait v chld wstatus =
     (let p = (\<lambda>k. place (sh_file v) ''interpret_wait'' ((if v = V2 then 35 else 36) + k)) in
      sq (VPRINT (p 2) (''Child ('' @ pad7 chld @ '') status changed:'' @ [nl]))
      (sq (if WIFEXITED wstatus then
             VPRINT (p 4) ('' normal termination: exit status: '' @ show_nat (WEXITSTATUS wstatus) @ [nl]) else ret ())
      (sq (if WIFSIGNALED wstatus then
             sq (VPRINT (p 7) ('' abnormal termination: killer signal: '' @ show_nat (WTERMSIG wstatus)))
             (if WCOREDUMP wstatus then VPRINT (p 10) ('' : core dumped'' @ [nl]) else VPRINT (p 12) [nl])
           else ret ())
      (sq (if WIFSTOPPED wstatus then VPRINT (p 15) ('' stopped: stop signal: '' @ show_nat (WSTOPSIG wstatus) @ [nl]) else ret ())
      (if WIFCONTINUED wstatus then VPRINT (p 18) ('' (was stopped), resumed (SIGCONT)'' @ [nl]) else ret ())))))"

section \<open>The shell\<close>

text \<open>The last character of what was read is cut off, whatever it is.\<close>

definition getcmd :: "string option shprog" where
  "getcmd =
     sq (printf ''>> '')
     (bnd (gets stdin) (\<lambda>inp.
     case fgets 127 inp of
       None \<Rightarrow> ret None
     | Some (l, rest) \<Rightarrow>
         sq (modify (\<lambda>s. s\<lparr>stdin := rest\<rparr>))
         (let cmdstr = takeWhile (\<lambda>c. c \<noteq> nul) l in
          if cmdstr = [] then fault OutOfBounds else ret (Some (butlast cmdstr)))))"

definition next_kid :: "child shprog" where
  "next_kid = (\<lambda>s. case kids s of
       [] \<Rightarrow> (Return \<lparr>fork_ret = 1000, exec_err = None, wait_ret = (1000, 0)\<rparr>, s)
     | c # cs \<Rightarrow> (Return c, s\<lparr>kids := cs\<rparr>))"

text \<open>The child; a successful \<^verbatim>\<open>execlp\<close> replaces it.\<close>

definition child_code :: "ver \<Rightarrow> int \<Rightarrow> string \<Rightarrow> string option \<Rightarrow> unit shprog" where
  "child_code v cpid cmd e =
     sq (VPRINT (sh_loc v 3) ('' Child process ('' @ pad7 cpid @ '') exec-ing cmd \"'' @ cmd @ ''\" now..'' @ [nl]))
     (case e of None \<Rightarrow> ret ()
      | Some txt \<Rightarrow>
          sq (modify (\<lambda>s. s\<lparr>berrno := Some txt\<rparr>))
          (sq (WARN (sh_loc v 4) (''child: execlp failed'' @ [nl])) (exit_with EXIT_FAILURE)))"

definition fork_child :: "ver \<Rightarrow> int \<Rightarrow> string \<Rightarrow> string option \<Rightarrow> unit shprog" where
  "fork_child v cpid cmd e =
     modify (\<lambda>s. s\<lparr>execs := execs s @ [cmd],
       child_out := child_out s @ drop (length (bout s)) (bout (snd (child_code v cpid cmd e s)))\<rparr>)"

text \<open>
  One line of input is used up per round, so there are enough rounds when \<open>fuel\<close> exceeds the input. \<^verbatim>\<open>FATAL\<close> returns
  when it has no memory; the command buffer was freed before it, except by version 1 after a failed wait.
\<close>

fun do_simpsh_loop :: "ver \<Rightarrow> nat \<Rightarrow> unit shprog" where
  "do_simpsh_loop v 0 = (\<lambda>s. (Blocks, s))"
| "do_simpsh_loop v (Suc fuel) =
     bnd getcmd (\<lambda>r.
     case r of
       None \<Rightarrow> sq (FATAL (sh_loc v 1) (''getcmd(): EOF or failed'' @ [nl])) (fault BadDeref)
     | Some cmd \<Rightarrow>
         if strncmp_eq cmd ''quit'' 4 then ret ()
         else if cmd = [] then do_simpsh_loop v fuel
         else
           bnd next_kid (\<lambda>c.
           if fork_ret c = -1 then sq (FATAL (sh_loc v 2) (''fork failed, aborting!'' @ [nl])) (fault BadDeref)
           else
             sq (fork_child v (fork_ret c) cmd (exec_err c))
             (sq (bnd (gets pid) (\<lambda>me. VPRINT (sh_loc v 5)
                  (''Parent process ('' @ pad7 me @ '') issuing the '' @ (if v = V3 then ''waitpid'' else ''wait'') @ ''...'' @ [nl])))
             (if fst (wait_ret c) < 0 then
                sq (FATAL (sh_loc v 6) (''wait failed, aborting..'' @ [nl]))
                (if v = V1 then do_simpsh_loop v fuel else fault BadDeref)
              else
                sq (bnd (gets gVerbose) (\<lambda>vb. if vb \<and> v \<noteq> V1 then interpret_wait v (fst (wait_ret c)) (snd (wait_ret c)) else ret ()))
                (do_simpsh_loop v fuel)))))"

definition do_simpsh :: "ver \<Rightarrow> unit shprog" where
  "do_simpsh v =
     bnd malloc_ok (\<lambda>ok.
     sq (if \<not> ok then FATAL (sh_loc v 0) (''calloc failed!'' @ [nl]) else ret ())
     (if \<not> ok then fault NullDeref
      else bnd (gets (\<lambda>s. Suc (length (stdin s)))) (do_simpsh_loop v)))"

definition do_simpsh_v1 :: "unit shprog" where "do_simpsh_v1 = do_simpsh V1"
definition do_simpsh_v2 :: "unit shprog" where "do_simpsh_v2 = do_simpsh V2"
definition do_simpsh_v3 :: "unit shprog" where "do_simpsh_v3 = do_simpsh V3"

definition sh_usage :: "ver \<Rightarrow> string \<Rightarrow> unit shprog" where
  "sh_usage v name = printf (''Usage: '' @ name @ '' [-v]|[--help]'' @ [nl] @ '' -v : verbose mode'' @ [nl] @
     (if v = V1 then [] else ''  [TIP: run in verbose mode to see child status change info]'' @ [nl]) @
     '' --help : display this help screen.'' @ [nl])"

definition simpsh_main :: "ver \<Rightarrow> unit shprog \<Rightarrow> nat \<Rightarrow> string list \<Rightarrow> 'a shprog" where
  "simpsh_main v body line argv =
     sq (if length argv \<ge> 2 then
           (if strncmp_eq (argv ! 1) ''--help'' 6 then sq (sh_usage v (argv ! 0)) (exit_with EXIT_SUCCESS)
            else if strncmp_eq (argv ! 1) ''-v'' 2 then modify (\<lambda>s. s\<lparr>gVerbose := True\<rparr>)
            else ret ())
         else ret ())
     (sq body
     (sq (bnd (gets pid) (\<lambda>me. VPRINT (place (sh_file v) ''main'' line) (''Parent process ('' @ pad7 me @ '') exiting...'' @ [nl])))
     (exit_with EXIT_SUCCESS)))"

definition simpsh_v1_main :: "string list \<Rightarrow> 'a shprog" where "simpsh_v1_main = simpsh_main V1 do_simpsh_v1 120"
definition simpsh_v2_main :: "string list \<Rightarrow> 'a shprog" where "simpsh_v2_main = simpsh_main V2 do_simpsh_v2 146"
definition simpsh_v3_main :: "string list \<Rightarrow> 'a shprog" where "simpsh_v3_main = simpsh_main V3 do_simpsh_v3 151"

section \<open>The status\<close>

text \<open>What can happen to a child, and how the kernel encodes it.\<close>

datatype event = Exit_event nat | Killed nat bool | Stopped nat | Continued

fun encode :: "event \<Rightarrow> nat" where
  "encode (Exit_event c) = 256 * c"
| "encode (Killed sig core) = sig + (if core then 128 else 0)"
| "encode (Stopped sig) = 256 * sig + 127"
| "encode Continued = 65535"

fun event_ok :: "event \<Rightarrow> bool" where
  "event_ok (Exit_event c) \<longleftrightarrow> c < 256"
| "event_ok (Killed sig core) \<longleftrightarrow> 1 \<le> sig \<and> sig < 127"
| "event_ok (Stopped sig) \<longleftrightarrow> 1 \<le> sig \<and> sig < 127"
| "event_ok Continued \<longleftrightarrow> True"

fun report :: "(nat \<Rightarrow> string) \<Rightarrow> event \<Rightarrow> io list" where
  "report p (Exit_event c) = [Out (p 4 @ '' normal termination: exit status: '' @ show_nat c @ [nl])]"
| "report p (Killed sig core) = [Out (p 7 @ '' abnormal termination: killer signal: '' @ show_nat sig),
     if core then Out (p 10 @ '' : core dumped'' @ [nl]) else Out (p 12 @ [nl])]"
| "report p (Stopped sig) = [Out (p 15 @ '' stopped: stop signal: '' @ show_nat sig @ [nl])]"
| "report p Continued = [Out (p 18 @ '' (was stopped), resumed (SIGCONT)'' @ [nl])]"

lemmas wait_macros = WIFEXITED_def WEXITSTATUS_def WTERMSIG_def WCOREDUMP_def WIFSTOPPED_def WSTOPSIG_def WIFCONTINUED_def

lemma WIFSIGNALED_iff: "WIFSIGNALED s \<longleftrightarrow> 0 < s mod 128 \<and> s mod 128 < 127"
proof -
  have "s mod 128 < 128" by simp
  then show ?thesis by (auto simp: WIFSIGNALED_def Let_def)
qed

text \<open>The macros on each encoding.\<close>

lemma decode_exit:
  assumes "c < 256"
  shows "WIFEXITED (256 * c) \<and> \<not> WIFSIGNALED (256 * c) \<and> \<not> WIFSTOPPED (256 * c) \<and> \<not> WIFCONTINUED (256 * c) \<and> WEXITSTATUS (256 * c) = c"
proof -
  have "256 * c mod 128 = 0" "256 * c \<noteq> 65535" by presburger+
  with assms show ?thesis unfolding WIFSIGNALED_iff wait_macros by simp
qed

lemma decode_killed:
  fixes k :: bool
  assumes "1 \<le> g" "g < 127"
  defines "s \<equiv> g + (if k then 128 else 0)"
  shows "\<not> WIFEXITED s \<and> WIFSIGNALED s \<and> \<not> WIFSTOPPED s \<and> \<not> WIFCONTINUED s \<and> WTERMSIG s = g \<and> WCOREDUMP s = k"
proof -
  have "s mod 128 = g" "s mod 256 = s" "s div 128 = (if k then 1 else 0)" "s < 65535" using assms by auto
  with assms(1,2) show ?thesis unfolding WIFSIGNALED_iff wait_macros by (auto simp: s_def)
qed

lemma decode_stopped:
  assumes "1 \<le> g" "g < 127"
  defines "s \<equiv> 256 * g + 127"
  shows "\<not> WIFEXITED s \<and> \<not> WIFSIGNALED s \<and> WIFSTOPPED s \<and> \<not> WIFCONTINUED s \<and> WSTOPSIG s = g"
proof -
  have "s mod 128 = 127" "s mod 256 = 127" "s div 256 = g" "s \<noteq> 65535" unfolding s_def by presburger+
  with assms(1,2) show ?thesis unfolding WIFSIGNALED_iff wait_macros by simp
qed

lemma decode_continued: "\<not> WIFEXITED 65535 \<and> \<not> WIFSIGNALED 65535 \<and> \<not> WIFSTOPPED 65535 \<and> WIFCONTINUED 65535"
  unfolding WIFSIGNALED_iff wait_macros by simp

text \<open>
  C35. In verbose mode the shells report a child's change of state as what it was: from the kernel's encoding of an exit,
  a death by a signal (with or without a core dump), a stop or a continuation, \<^verbatim>\<open>interpret_wait\<close> prints exactly that
  event with its number.
\<close>

theorem interpret_wait_decodes:
  assumes "event_ok e" and "gVerbose s"
  shows "interpret_wait v chld (encode e) s = (Return (), s\<lparr>bout := bout s @
     Out (place (sh_file v) ''interpret_wait'' ((if v = V2 then 35 else 36) + 2) @ ''Child ('' @ pad7 chld @ '') status changed:'' @ [nl]) #
     report (\<lambda>k. place (sh_file v) ''interpret_wait'' ((if v = V2 then 35 else 36) + k)) e\<rparr>)"
proof (cases e)
  case (Exit_event c)
  from decode_exit [of c] Exit_event assms show ?thesis by (simp add: interpret_wait_def Let_def prog_simps)
next
  case (Killed g k)
  from decode_killed [of g k] Killed assms show ?thesis by (simp add: interpret_wait_def Let_def prog_simps)
next
  case (Stopped g)
  from decode_stopped [of g] Stopped assms show ?thesis by (simp add: interpret_wait_def Let_def prog_simps)
next
  case Continued
  with decode_continued assms show ?thesis by (simp add: interpret_wait_def Let_def prog_simps)
qed

definition shell0 :: "string \<Rightarrow> shell" where
  "shell0 inp = \<lparr>bout = [], berrno = None, bmem = [], gVerbose = True, stdin = inp, kids = [], execs = [], child_out = [], pid = 7\<rparr>"

theorem interpret_wait_decodes_witness:
  "bout (snd (interpret_wait V3 42 (128 + 11) (shell0 []))) =
     [Out ''simpsh_v3.c:interpret_wait:38: Child (     42) status changed:\<newline>'',
      Out ''simpsh_v3.c:interpret_wait:43:  abnormal termination: killer signal: 11'',
      Out ''simpsh_v3.c:interpret_wait:46:  : core dumped\<newline>'']"
proof -
  have p: "pad7 42 = ''     42''" by code_simp
  from interpret_wait_decodes [of "Killed 11 True" "shell0 []" V3 42] show ?thesis
    by (simp add: shell0_def place_def p show_eval)
qed

section \<open>What the shell runs\<close>

text \<open>A line of the user that is read whole and does not stop the shell.\<close>

definition plain :: "string \<Rightarrow> bool" where
  "plain l \<longleftrightarrow> length l < 126 \<and> nl \<notin> set l \<and> nul \<notin> set l \<and> \<not> strncmp_eq l ''quit'' 4"

text \<open>Every fork and every wait succeeds.\<close>

definition obliging :: "shell \<Rightarrow> bool" where
  "obliging s \<longleftrightarrow> (\<forall>c \<in> set (kids s). fork_ret c \<noteq> -1 \<and> 0 \<le> fst (wait_ret c))"

lemma getcmd_run:
  assumes "stdin s = l @ nl # rest" "length l < 126" "nl \<notin> set l" "nul \<notin> set l"
  shows "getcmd s = (Return (Some l), s\<lparr>bout := bout s @ [Out ''>> ''], stdin := rest\<rparr>)"
proof -
  have "takeWhile (\<lambda>c. c \<noteq> nul) (l @ [nl]) = l @ [nl]" using assms(4) by (auto simp: takeWhile_eq_all_conv)
  with fgets_line [OF assms(3), of 127 rest] assms(1,2) show ?thesis by (simp add: getcmd_def prog_simps Let_def)
qed

lemma run_next_kid:
  assumes "obliging s"
  obtains c cs where "next_kid s = (Return c, s\<lparr>kids := cs\<rparr>)" "fork_ret c \<noteq> -1" "0 \<le> fst (wait_ret c)" "obliging (s\<lparr>kids := cs\<rparr>)"
proof (cases "kids s")
  case Nil
  have "s\<lparr>kids := []\<rparr> = s" using Nil by simp
  with Nil assms show ?thesis by (intro that [of _ "[]"]) (auto simp: next_kid_def obliging_def)
next
  case (Cons c cs)
  with assms show ?thesis by (intro that [of c cs]) (auto simp: next_kid_def obliging_def)
qed

lemma interpret_wait_run: "\<exists>l. interpret_wait v c w s = (Return (), s\<lparr>bout := bout s @ l\<rparr>)"
proof -
  have V: "\<exists>l. VPRINT p m t = (Return (), t\<lparr>bout := bout t @ l\<rparr>)" for p m and t :: shell
    by (auto simp: run_VPRINT intro: exI [of _ "[]"])
  have Q: "\<exists>l. sq a b t = (Return (), t\<lparr>bout := bout t @ l\<rparr>)"
    if "\<And>t. \<exists>l. a t = (Return (), t\<lparr>bout := bout t @ l\<rparr>)" "\<And>t. \<exists>l. b t = (Return (), t\<lparr>bout := bout t @ l\<rparr>)"
    for a b :: "unit shprog" and t
  proof -
    from that(1) [of t] obtain l1 where a: "a t = (Return (), t\<lparr>bout := bout t @ l1\<rparr>)" by blast
    from that(2) [of "t\<lparr>bout := bout t @ l1\<rparr>"] obtain l2 where "b (t\<lparr>bout := bout t @ l1\<rparr>) = (Return (), t\<lparr>bout := bout t @ l1 @ l2\<rparr>)" by auto
    with a show ?thesis by (auto simp: run_bnd_Return)
  qed
  have R: "\<exists>l. ret () t = (Return (), t\<lparr>bout := bout t @ l\<rparr>)" for t :: shell
    by (auto simp: run_ret intro: exI [of _ "[]"])
  have I: "\<exists>l. (if b then a else a') t = (Return (), t\<lparr>bout := bout t @ l\<rparr>)"
    if "\<exists>l. a t = (Return (), t\<lparr>bout := bout t @ l\<rparr>)" "\<exists>l. a' t = (Return (), t\<lparr>bout := bout t @ l\<rparr>)" for b and a a' :: "unit shprog" and t
    using that by simp
  show ?thesis unfolding interpret_wait_def Let_def by (intro Q I V R)
qed

lemma shell_round:
  assumes in_: "stdin s = l @ nl # rest" and l: "plain l" and ob: "obliging s"
  shows "\<exists>s'. do_simpsh_loop v (Suc fuel) s = do_simpsh_loop v fuel s' \<and> stdin s' = rest \<and> obliging s' \<and>
    execs s' = execs s @ (if l = [] then [] else [l])"
proof -
  define s1 where "s1 = s\<lparr>bout := bout s @ [Out ''>> ''], stdin := rest\<rparr>"
  have g: "getcmd s = (Return (Some l), s1)" using getcmd_run [OF in_] l by (simp add: plain_def s1_def)
  have nq: "\<not> strncmp_eq l ''quit'' 4" using l by (simp add: plain_def)
  have ob1: "obliging s1" using ob by (simp add: s1_def obliging_def)
  show ?thesis
  proof (cases "l = []")
    case True
    with g nq ob1 show ?thesis by (intro exI [of _ s1]) (simp add: run_bnd_Return s1_def)
  next
    case False
    obtain c cs where c: "next_kid s1 = (Return c, s1\<lparr>kids := cs\<rparr>)" "fork_ret c \<noteq> -1" "0 \<le> fst (wait_ret c)" "obliging (s1\<lparr>kids := cs\<rparr>)"
      using run_next_kid [OF ob1] by blast
    obtain s2 where f: "fork_child v (fork_ret c) l (exec_err c) (s1\<lparr>kids := cs\<rparr>) = (Return (), s2)"
      and s2: "stdin s2 = rest" "execs s2 = execs s @ [l]" "obliging s2"
      using c(4) by (simp add: fork_child_def run_modify s1_def obliging_def)
    obtain l2 where p: "bnd (gets pid) (\<lambda>me. VPRINT (sh_loc v 5)
         (''Parent process ('' @ pad7 me @ '') issuing the '' @ (if v = V3 then ''waitpid'' else ''wait'') @ ''...'' @ [nl])) s2 =
         (Return (), s2\<lparr>bout := bout s2 @ l2\<rparr>)"
      by (cases "gVerbose s2") (auto simp: run_bnd_Return run_gets run_VPRINT intro: that [of "[]"])
    obtain l3 where i: "bnd (gets gVerbose) (\<lambda>vb. if vb \<and> v \<noteq> V1 then interpret_wait v (fst (wait_ret c)) (snd (wait_ret c)) else ret ())
        (s2\<lparr>bout := bout s2 @ l2\<rparr>) = (Return (), s2\<lparr>bout := bout s2 @ l2 @ l3\<rparr>)"
      using interpret_wait_run [of v "fst (wait_ret c)" "snd (wait_ret c)" "s2\<lparr>bout := bout s2 @ l2\<rparr>"]
      by (cases "gVerbose s2 \<and> v \<noteq> V1") (auto simp: run_bnd_Return run_gets run_ret intro: that [of "[]"])
    have "do_simpsh_loop v (Suc fuel) s = do_simpsh_loop v fuel (s2\<lparr>bout := bout s2 @ l2 @ l3\<rparr>)"
      using g nq False c(1,2,3) f p i by (simp add: run_bnd_Return)
    with s2 False show ?thesis by (intro exI [of _ "s2\<lparr>bout := bout s2 @ l2 @ l3\<rparr>"]) (simp add: obliging_def)
  qed
qed

lemma shell_loop_runs:
  "stdin s = concat (map (\<lambda>l. l @ [nl]) cmds) @ ''quit'' @ nl # rest \<Longrightarrow> \<forall>l \<in> set cmds. plain l \<Longrightarrow> obliging s \<Longrightarrow>
   length (stdin s) \<le> fuel \<Longrightarrow>
   \<exists>s'. do_simpsh_loop v fuel s = (Return (), s') \<and> execs s' = execs s @ filter (\<lambda>l. l \<noteq> []) cmds"
proof (induction cmds arbitrary: s fuel)
  case Nil
  then obtain k where k: "fuel = Suc k" by (cases fuel) auto
  have "getcmd s = (Return (Some ''quit''), s\<lparr>bout := bout s @ [Out ''>> ''], stdin := rest\<rparr>)"
    using Nil.prems(1) by (intro getcmd_run) auto
  then show ?case unfolding k by (simp add: run_bnd_Return run_ret strncmp_eq_def)
next
  case (Cons l cmds)
  let ?r = "concat (map (\<lambda>l. l @ [nl]) cmds) @ ''quit'' @ nl # rest"
  from Cons.prems(1) have in_: "stdin s = l @ nl # ?r" by simp
  obtain k where k: "fuel = Suc k" using Cons.prems(4) in_ by (cases fuel) auto
  from shell_round [OF in_, of v k] Cons.prems(2,3) obtain s' where
    r: "do_simpsh_loop v fuel s = do_simpsh_loop v k s'" "stdin s' = ?r" "obliging s'" "execs s' = execs s @ (if l = [] then [] else [l])"
    unfolding k by auto
  have "length (stdin s') \<le> k" using r(2) in_ Cons.prems(4) k by simp
  from Cons.IH [OF r(2) _ r(3) this] Cons.prems(2) r(1,4) show ?case by (auto split: if_splits)
qed

text \<open>
  C36. Given lines the buffer can hold and then \<open>quit\<close>, every version of the shell hands exactly the non-empty lines, in
  order, to \<^verbatim>\<open>execlp\<close> and returns, as long as the system can fork and wait.
\<close>

theorem shell_runs_commands:
  assumes "stdin s = concat (map (\<lambda>l. l @ [nl]) cmds) @ ''quit'' @ nl # rest" and "\<forall>l \<in> set cmds. plain l"
    and "obliging s" and "bmem s = []"
  shows "\<exists>s'. do_simpsh v s = (Return (), s') \<and> execs s' = execs s @ filter (\<lambda>l. l \<noteq> []) cmds"
proof -
  have "malloc_ok s = (Return True, s)" using assms(4) by (simp add: malloc_ok_def)
  moreover from shell_loop_runs [OF assms(1-3), of "Suc (length (stdin s))" v] have
    "\<exists>s'. do_simpsh_loop v (Suc (length (stdin s))) s = (Return (), s') \<and> execs s' = execs s @ filter (\<lambda>l. l \<noteq> []) cmds" by simp
  ultimately show ?thesis by (simp add: do_simpsh_def run_bnd_Return run_ret run_gets del: do_simpsh_loop.simps)
qed

theorem shell_runs_commands_witness:
  "\<exists>s'. do_simpsh V2 (shell0 ''ls\<newline>\<newline>ps\<newline>quit\<newline>'') = (Return (), s') \<and> execs s' = [''ls'', ''ps'']"
proof -
  have "\<exists>s'. do_simpsh V2 (shell0 ''ls\<newline>\<newline>ps\<newline>quit\<newline>'') = (Return (), s') \<and>
      execs s' = execs (shell0 ''ls\<newline>\<newline>ps\<newline>quit\<newline>'') @ filter (\<lambda>l. l \<noteq> []) [''ls'', [], ''ps'']"
    by (rule shell_runs_commands [where rest = "[]"])
      (simp_all add: shell0_def plain_def obliging_def strncmp_eq_def)
  then show ?thesis by (simp add: shell0_def)
qed

end
