(* ===== verification/Locked_Threads.thy ===== *)
theory Locked_Threads
  imports Book_Common
begin

text \<open>
  Threads that run one critical section each: \<open>n\<close> threads, thread \<open>i\<close> takes the mutex, performs the steps \<open>code i\<close> and
  releases the mutex. A step is one access to what the threads share (a read or a write of a global, a line of output);
  \<open>exec i x s\<close> gives how many of the following steps it skips (an early return) and the new shared state. With
  \<open>locking\<close> off the mutex is left out, as the programs allow. \<open>lm_step\<close> interleaves the threads in every way.
\<close>

section \<open>The machine\<close>

record 's lm =
  shared :: 's
  holder :: "nat option"
  pcs :: "nat \<Rightarrow> nat"

text \<open>Program counters: 0 before the lock, \<open>k\<close> before step \<open>k\<close>, one more before the unlock, two more at the end.\<close>

definition lm_exec :: "bool \<Rightarrow> (nat \<Rightarrow> 'i list) \<Rightarrow> (nat \<Rightarrow> 'i \<Rightarrow> 's \<Rightarrow> nat \<times> 's) \<Rightarrow> nat \<Rightarrow> 's lm \<Rightarrow> 's lm option" where
  "lm_exec locking code exec i m =
     (let p = pcs m i in
      if p = 0 then
        (if \<not> locking then Some (m\<lparr>pcs := (pcs m)(i := 1)\<rparr>)
         else if holder m = None then Some (m\<lparr>holder := Some i, pcs := (pcs m)(i := 1)\<rparr>)
         else None)
      else if p \<le> length (code i) then
        (let (k, s') = exec i (code i ! (p - 1)) (shared m) in
         Some (m\<lparr>shared := s', pcs := (pcs m)(i := p + 1 + k)\<rparr>))
      else if p = length (code i) + 1 then
        Some (m\<lparr>holder := (if locking then None else holder m), pcs := (pcs m)(i := p + 1)\<rparr>)
      else None)"

inductive lm_step :: "bool \<Rightarrow> nat \<Rightarrow> (nat \<Rightarrow> 'i list) \<Rightarrow> (nat \<Rightarrow> 'i \<Rightarrow> 's \<Rightarrow> nat \<times> 's) \<Rightarrow> 's lm \<Rightarrow> 's lm \<Rightarrow> bool"
  for locking n code exec where
  thread_step: "i < n \<Longrightarrow> lm_exec locking code exec i m = Some m' \<Longrightarrow> lm_step locking n code exec m m'"

inductive_cases lm_stepE: "lm_step locking n code exec m m'"

definition lm_start :: "'s \<Rightarrow> 's lm" where
  "lm_start s = \<lparr>shared = s, holder = None, pcs = (\<lambda>_. 0)\<rparr>"

text \<open>A schedule as a list of thread numbers; a thread that cannot move is passed over.\<close>

fun lm_run :: "bool \<Rightarrow> (nat \<Rightarrow> 'i list) \<Rightarrow> (nat \<Rightarrow> 'i \<Rightarrow> 's \<Rightarrow> nat \<times> 's) \<Rightarrow> nat list \<Rightarrow> 's lm \<Rightarrow> 's lm" where
  "lm_run locking code exec [] m = m"
| "lm_run locking code exec (i # is) m =
     lm_run locking code exec is (case lm_exec locking code exec i m of None \<Rightarrow> m | Some m' \<Rightarrow> m')"

text \<open>The rest of a section from step \<open>p\<close> on, and the whole section, run without interruption.\<close>

function rest :: "(nat \<Rightarrow> 'i list) \<Rightarrow> (nat \<Rightarrow> 'i \<Rightarrow> 's \<Rightarrow> nat \<times> 's) \<Rightarrow> nat \<Rightarrow> nat \<Rightarrow> 's \<Rightarrow> 's" where
  "rest code exec i p s =
     (if 1 \<le> p \<and> p \<le> length (code i)
      then rest code exec i (p + 1 + fst (exec i (code i ! (p - 1)) s)) (snd (exec i (code i ! (p - 1)) s))
      else s)"
  by pat_completeness auto
termination
  by (relation "measure (\<lambda>(code, exec, i, p, s). length (code i) + 1 - p)") auto

declare rest.simps [simp del]

definition critical :: "(nat \<Rightarrow> 'i list) \<Rightarrow> (nat \<Rightarrow> 'i \<Rightarrow> 's \<Rightarrow> nat \<times> 's) \<Rightarrow> 's \<Rightarrow> nat \<Rightarrow> 's" where
  "critical code exec s i = rest code exec i 1 s"

lemma rest_step:
  "1 \<le> p \<Longrightarrow> p \<le> length (code i) \<Longrightarrow> exec i (code i ! (p - 1)) s = (k, s') \<Longrightarrow> rest code exec i p s = rest code exec i (p + 1 + k) s'"
  by (subst rest.simps) simp

lemma rest_end: "length (code i) < p \<Longrightarrow> rest code exec i p s = s"
  by (subst rest.simps) simp

text \<open>Where no step skips another, the rest of a section is the run through the rest of its code.\<close>

lemma rest_foldl:
  assumes "\<And>x s. x \<in> set (code i) \<Longrightarrow> fst (exec i x s) = 0"
  shows "1 \<le> p \<Longrightarrow> rest code exec i p s = foldl (\<lambda>s x. snd (exec i x s)) s (drop (p - 1) (code i))"
proof (induction "length (code i) + 1 - p" arbitrary: p s)
  case 0
  then show ?case by (subst rest.simps) auto
next
  case (Suc k)
  then have p: "1 \<le> p" "p \<le> length (code i)" by auto
  let ?x = "code i ! (p - 1)"
  have "?x \<in> set (code i)" using p by (intro nth_mem) linarith
  with assms have "fst (exec i ?x s) = 0" by blast
  then have "rest code exec i p s = rest code exec i (Suc p) (snd (exec i ?x s))"
    using p by (subst rest.simps) simp
  also have "\<dots> = foldl (\<lambda>s x. snd (exec i x s)) (snd (exec i ?x s)) (drop p (code i))"
    using Suc.hyps(1) [of "Suc p"] Suc.hyps(2) by simp
  also have "\<dots> = foldl (\<lambda>s x. snd (exec i x s)) s (drop (p - 1) (code i))"
  proof -
    obtain j where j: "p = Suc j" using p(1) by (cases p) auto
    with p(2) have "drop j (code i) = code i ! j # drop p (code i)" by (simp add: Cons_nth_drop_Suc)
    with j show ?thesis by simp
  qed
  finally show ?case .
qed

section \<open>Locked sections are serial\<close>

text \<open>The only demand on a program: no step skips beyond the end of the section.\<close>

locale sections =
  fixes n :: nat and code :: "nat \<Rightarrow> 'i list" and exec :: "nat \<Rightarrow> 'i \<Rightarrow> 's \<Rightarrow> nat \<times> 's"
  assumes skip_bound: "i < n \<Longrightarrow> k < length (code i) \<Longrightarrow> k + 1 + fst (exec i (code i ! k) s) \<le> length (code i)"
begin

definition at_end :: "'s lm \<Rightarrow> nat \<Rightarrow> bool" where
  "at_end m i \<longleftrightarrow> pcs m i = length (code i) + 2"

definition parked :: "'s lm \<Rightarrow> nat \<Rightarrow> bool" where
  "parked m i \<longleftrightarrow> pcs m i = 0 \<or> at_end m i"

text \<open>\<open>order\<close> lists the threads that are through, in the order in which they held the mutex.\<close>

definition serial :: "'s \<Rightarrow> nat list \<Rightarrow> 's lm \<Rightarrow> bool" where
  "serial s0 order m \<longleftrightarrow> distinct order \<and> set order = {i. i < n \<and> at_end m i} \<and>
     (case holder m of
        None \<Rightarrow> (\<forall>i < n. parked m i) \<and> shared m = foldl (critical code exec) s0 order
      | Some h \<Rightarrow> h < n \<and> 1 \<le> pcs m h \<and> pcs m h \<le> length (code h) + 1 \<and> (\<forall>i < n. i \<noteq> h \<longrightarrow> parked m i) \<and>
          rest code exec h (pcs m h) (shared m) = foldl (critical code exec) s0 (order @ [h]))"

lemma serial_start: "serial s0 [] (lm_start s0)"
  by (auto simp: serial_def lm_start_def parked_def at_end_def)

lemma serial_lock:
  assumes "serial s0 order m" "i < n" "pcs m i = 0" "holder m = None"
  shows "serial s0 order (m\<lparr>holder := Some i, pcs := (pcs m)(i := 1)\<rparr>)"
proof -
  have "{j. j < n \<and> at_end (m\<lparr>holder := Some i, pcs := (pcs m)(i := 1)\<rparr>) j} = {j. j < n \<and> at_end m j}"
    using assms(3) by (auto simp: at_end_def)
  with assms show ?thesis by (auto simp: serial_def parked_def at_end_def critical_def)
qed

lemma serial_op:
  assumes "serial s0 order m" "i < n" "1 \<le> pcs m i" "pcs m i \<le> length (code i)"
    and e: "exec i (code i ! (pcs m i - 1)) (shared m) = (k, s')"
  shows "serial s0 order (m\<lparr>shared := s', pcs := (pcs m)(i := pcs m i + 1 + k)\<rparr>)" (is "serial s0 order ?m")
proof -
  have h: "holder m = Some i"
    using assms(1-4) by (auto simp: serial_def parked_def at_end_def split: option.splits)
  have b: "pcs m i + k \<le> length (code i)"
    using skip_bound [OF assms(2), of "pcs m i - 1" "shared m"] assms(3,4) e by simp
  have "{j. j < n \<and> at_end ?m j} = {j. j < n \<and> at_end m j}"
    using assms(4) b by (auto simp: at_end_def)
  moreover have "rest code exec i (pcs ?m i) (shared ?m) = rest code exec i (pcs m i) (shared m)"
    using rest.simps [of code exec i "pcs m i" "shared m"] assms(3,4) e by simp
  moreover have "\<forall>j < n. j \<noteq> i \<longrightarrow> parked ?m j = parked m j" by (simp add: parked_def at_end_def)
  ultimately show ?thesis using assms(1) h b by (simp add: serial_def)
qed

lemma serial_unlock:
  assumes "serial s0 order m" "i < n" "pcs m i = length (code i) + 1"
  shows "serial s0 (order @ [i]) (m\<lparr>holder := None, pcs := (pcs m)(i := pcs m i + 1)\<rparr>)" (is "serial s0 _ ?m")
proof -
  have h: "holder m = Some i"
    using assms by (auto simp: serial_def parked_def at_end_def split: option.splits)
  have r: "rest code exec i (pcs m i) (shared m) = shared m" using assms(3) by (subst rest.simps) simp
  have e: "{j. j < n \<and> at_end ?m j} = insert i {j. j < n \<and> at_end m j}"
    using assms(2,3) by (auto simp: at_end_def)
  have ni: "i \<notin> {j. j < n \<and> at_end m j}" using assms(3) by (simp add: at_end_def)
  have s: "distinct order" "set order = {j. j < n \<and> at_end m j}" "\<forall>j < n. j \<noteq> i \<longrightarrow> parked m j"
    "shared m = foldl (critical code exec) s0 (order @ [i])"
    using assms(1) h r by (simp_all add: serial_def)
  have "\<forall>j < n. parked ?m j" using s(3) assms(3) by (auto simp: parked_def at_end_def)
  moreover have "distinct (order @ [i])" "set (order @ [i]) = {j. j < n \<and> at_end ?m j}" using s(1,2) ni e by auto
  ultimately show ?thesis using s(4) by (simp add: serial_def)
qed

lemma serial_step:
  assumes "serial s0 order m" "lm_step True n code exec m m'"
  shows "\<exists>order'. serial s0 order' m'"
proof -
  from assms(2) obtain i where i: "i < n" "lm_exec True code exec i m = Some m'" by (rule lm_stepE)
  let ?p = "pcs m i"
  consider "?p = 0" | "1 \<le> ?p" "?p \<le> length (code i)" | "?p = length (code i) + 1" | "length (code i) + 1 < ?p" by linarith
  then show ?thesis
  proof cases
    case 1
    with i serial_lock [OF assms(1) i(1)] show ?thesis by (auto simp: lm_exec_def Let_def split: if_splits)
  next
    case 2
    obtain k s' where e: "exec i (code i ! (?p - 1)) (shared m) = (k, s')" by fastforce
    with i 2 serial_op [OF assms(1) i(1) 2 e] show ?thesis by (auto simp: lm_exec_def Let_def)
  next
    case 3
    with i serial_unlock [OF assms(1) i(1)] show ?thesis by (auto simp: lm_exec_def Let_def split: if_splits)
  next
    case 4
    with i show ?thesis by (simp add: lm_exec_def Let_def)
  qed
qed

lemma serial_reach: "(lm_step True n code exec ^^ k) (lm_start s0) m \<Longrightarrow> \<exists>order. serial s0 order m"
proof (induction k arbitrary: m)
  case 0
  then show ?case using serial_start by auto
next
  case (Suc k)
  then obtain m1 where "(lm_step True n code exec ^^ k) (lm_start s0) m1" "lm_step True n code exec m1 m" by (auto elim: relpowp_Suc_E)
  with Suc.IH [OF this(1)] serial_step show ?case by blast
qed

text \<open>Nobody waits for ever: while a thread is not through, one can move.\<close>

lemma serial_progress:
  assumes "serial s0 order m" "i < n" "\<not> at_end m i"
  shows "\<exists>m'. lm_step True n code exec m m'"
proof (cases "holder m")
  case None
  with assms have "pcs m i = 0" by (auto simp: serial_def parked_def)
  with None have "lm_exec True code exec i m = Some (m\<lparr>holder := Some i, pcs := (pcs m)(i := 1)\<rparr>)"
    by (simp add: lm_exec_def)
  with assms(2) show ?thesis by (blast intro: thread_step)
next
  case (Some h)
  with assms(1) have h: "h < n" "1 \<le> pcs m h" "pcs m h \<le> length (code h) + 1" by (auto simp: serial_def)
  then have "lm_exec True code exec h m \<noteq> None"
    by (cases "pcs m h \<le> length (code h)") (auto simp: lm_exec_def Let_def split: prod.splits)
  with h(1) show ?thesis by (blast intro: thread_step)
qed

lemma serial_end:
  assumes "serial s0 order m" "\<forall>i < n. at_end m i"
  shows "shared m = foldl (critical code exec) s0 order \<and> distinct order \<and> set order = {..<n}"
proof -
  have "holder m = None" using assms by (auto simp: serial_def at_end_def split: option.splits)
  with assms show ?thesis by (auto simp: serial_def)
qed

text \<open>Every step moves a program counter up, so there are at most as many steps as there are places.\<close>

definition places :: "'s lm \<Rightarrow> nat" where
  "places m = (\<Sum>i < n. length (code i) + 2 - pcs m i)"

lemma step_places:
  assumes "lm_step locking n code exec m m'"
  shows "places m' < places m"
proof -
  from assms obtain i where i: "i < n" "lm_exec locking code exec i m = Some m'" by (rule lm_stepE)
  then have "pcs m i < pcs m' i" "pcs m i < length (code i) + 2" "\<And>j. j \<noteq> i \<Longrightarrow> pcs m' j = pcs m j"
    by (auto simp: lm_exec_def Let_def split: if_splits prod.splits)
  then have "length (code i) + 2 - pcs m' i < length (code i) + 2 - pcs m i"
    "\<And>j. length (code j) + 2 - pcs m' j \<le> length (code j) + 2 - pcs m j" by (auto, metis diff_le_mono2 le_eq_less_or_eq)
  then show ?thesis unfolding places_def using i(1) by (intro sum_strict_mono_ex1) auto
qed

lemma steps_bounded: "(lm_step locking n code exec ^^ k) (lm_start s0) m \<Longrightarrow> k + places m \<le> (\<Sum>i < n. length (code i) + 2)"
proof (induction k arbitrary: m)
  case 0
  then show ?case by (auto simp: places_def lm_start_def)
next
  case (Suc k)
  then obtain m1 where "(lm_step locking n code exec ^^ k) (lm_start s0) m1" "lm_step locking n code exec m1 m"
    by (auto elim: relpowp_Suc_E)
  with Suc.IH [OF this(1)] step_places show ?case by fastforce
qed

text \<open>All of it: under the lock every run is finite and can only stop with the sections executed one after another.\<close>

lemma runs_serialise:
  assumes "(lm_step True n code exec ^^ k) (lm_start s0) m"
  shows "k \<le> (\<Sum>i < n. length (code i) + 2)"
    and "(\<exists>m'. lm_step True n code exec m m') \<or>
      (\<exists>order. distinct order \<and> set order = {..<n} \<and> shared m = foldl (critical code exec) s0 order)"
proof -
  show "k \<le> (\<Sum>i < n. length (code i) + 2)" using steps_bounded [OF assms] by simp
  from serial_reach [OF assms] obtain order where o: "serial s0 order m" by blast
  show "(\<exists>m'. lm_step True n code exec m m') \<or>
      (\<exists>order. distinct order \<and> set order = {..<n} \<and> shared m = foldl (critical code exec) s0 order)"
  proof (cases "\<forall>i < n. at_end m i")
    case True
    from serial_end [OF o this] show ?thesis by blast
  qed (use serial_progress [OF o] in blast)
qed

end

text \<open>Two threads can take turns in two ways.\<close>

lemma order_two: "distinct order \<Longrightarrow> set order = {..<2::nat} \<Longrightarrow> order = [0, 1] \<or> order = [1, 0]"
proof -
  assume d: "distinct order" "set order = {..<2}"
  then have "length order = Suc (Suc 0)" using distinct_card [of order] by simp
  then obtain a b where ab: "order = [a, b]" by (auto simp: length_Suc_conv)
  have "{..<2::nat} = {0, 1}" by auto
  with d ab have "{a, b} = {0, 1}" by simp
  with ab show ?thesis unfolding doubleton_eq_iff by blast
qed

end
