(* ===== verification/Bank_Facto.thy ===== *)
theory Bank_Facto
  imports Locked_Threads
begin

text \<open>
  Two programs with a lock that can be switched off: the bank account \<^verbatim>\<open>src/booksrc/solutions_to_assgn/ch15/bankacc.c\<close>
  and the factorials \<^verbatim>\<open>src/booksrc/ch15/facto.c\<close>. The functions are sequences of accesses to the shared variables: \<^verbatim>\<open>x op= e\<close>
  is a read of \<open>x\<close> into the thread's register and a write. \<open>rets\<close> are the results of the coming pthread calls, 0 when
  used up; locking and unlocking a mutex that was initialised does not fail.
\<close>

section \<open>Calls that can fail\<close>

record threaded = bk +
  rets :: "int list"

definition call_ret :: "('x threaded_scheme, int) cprog" where
  "call_ret = (\<lambda>s. case rets s of [] \<Rightarrow> (Return 0, s) | r # rs \<Rightarrow> (Return r, s\<lparr>rets := rs\<rparr>))"

text \<open>\<^verbatim>\<open>if ((ret = f(...))) FATAL("f() failed! [%d]\n", ret);\<close> and the same with \<^verbatim>\<open>WARN\<close>.\<close>

definition or_fatal :: "string \<Rightarrow> string \<Rightarrow> ('x threaded_scheme, unit) cprog" where
  "or_fatal loc f = bnd call_ret (\<lambda>r. if r \<noteq> 0 then FATAL loc (f @ ''() failed! ['' @ show_int r @ '']'' @ [nl]) else ret ())"

definition or_warn :: "string \<Rightarrow> string \<Rightarrow> ('x threaded_scheme, unit) cprog" where
  "or_warn loc f = bnd call_ret (\<lambda>r. if r \<noteq> 0 then WARN loc (f @ ''() failed! ['' @ show_int r @ '']'' @ [nl]) else ret ())"

section \<open>bankacc.c\<close>

record bank = threaded +
  gBalance :: int
  breg :: "nat \<Rightarrow> int"

datatype bank_op = Dep_say int | Load | Add int | Hi_check | Show_balance | Wd_check int | Wd_say int | Sub int

definition gCB_MinCredit :: int where "gCB_MinCredit = 500"
definition gCB_HiBalance :: int where "gCB_HiBalance = 1000000"

definition deposit :: "int \<Rightarrow> bank_op list" where
  "deposit amt = (if amt \<le> 0 then [] else [Dep_say amt, Load, Add amt, Hi_check, Show_balance])"

text \<open>The check skips the rest of the function when the balance would fall too low.\<close>

definition withdraw :: "int \<Rightarrow> bank_op list" where
  "withdraw amt = [Wd_check amt, Wd_say amt, Load, Sub amt, Show_balance]"

definition bsay :: "string \<Rightarrow> bank \<Rightarrow> bank" where
  "bsay msg s = s\<lparr>bout := bout s @ [Out msg]\<rparr>"

definition thrd :: "nat \<Rightarrow> string" where
  "thrd i = '' [thrd#'' @ pad (CHR '' '') 2 (show_nat (i + 1))"

definition pad12 :: "int \<Rightarrow> string" where
  "pad12 x = pad (CHR '' '') 12 (show_int x)"

fun bank_exec :: "nat \<Rightarrow> bank_op \<Rightarrow> bank \<Rightarrow> nat \<times> bank" where
  "bank_exec i (Dep_say amt) s = (0, bsay (thrd i @ '' +] Deposit      : '' @ pad12 amt @ [nl]) s)"
| "bank_exec i Load s = (0, s\<lparr>breg := (breg s)(i := gBalance s)\<rparr>)"
| "bank_exec i (Add amt) s = (0, s\<lparr>gBalance := breg s i + amt\<rparr>)"
| "bank_exec i Hi_check s = (0, if gBalance s \<ge> gCB_HiBalance then bsay (''*** Circuit Breaker *** High Balance'' @ [nl]) s else s)"
| "bank_exec i Show_balance s = (0, bsay (thrd i @ ''] Current Balance: '' @ pad12 (gBalance s) @ [nl]) s)"
| "bank_exec i (Wd_check amt) s =
     (if gBalance s - amt < gCB_MinCredit
      then (4, bsay (''*** Circuit Breaker *** Min Credit hit! Failing withdawal...'' @ [nl]) s) else (0, s))"
| "bank_exec i (Wd_say amt) s = (0, bsay (thrd i @ '' -] Withdrawal   : '' @ pad12 amt @ [nl]) s)"
| "bank_exec i (Sub amt) s = (0, s\<lparr>gBalance := breg s i - amt\<rparr>)"

text \<open>\<^verbatim>\<open>worker\<close>, between \<^verbatim>\<open>LOCK\<close> and \<^verbatim>\<open>UNLOCK\<close>.\<close>

definition bank_worker :: "nat \<Rightarrow> bank_op list" where
  "bank_worker i = (if i = 0 then deposit 3000 @ withdraw 250 else if i = 1 then withdraw 9000 @ deposit 1000 else [])"

definition bank_usage :: "string \<Rightarrow> (bank, unit) cprog" where
  "bank_usage name = eprintf (''Usage: '' @ name @ '' lock-or-not'' @ [nl] @ '' 0 : do Not lock (buggy!)'' @ [nl] @ '' 1 : do lock (correct)'' @ [nl])"

text \<open>The threads run as the schedule says, and then to their ends while main waits for them.\<close>

definition finish :: "nat \<Rightarrow> nat list" where
  "finish k = replicate k 0 @ replicate k 1 @ replicate k 0"

definition bank_main :: "nat list \<Rightarrow> string list \<Rightarrow> (bank, int) cprog" where
  "bank_main sched argv =
     (let p = place ''bankacc.c'' ''main'' in
      if length argv \<noteq> 2 then sq (bank_usage (argv ! 0)) (exit_with EXIT_FAILURE) else
      let a = atoi (argv ! 1); locking = (a = 1) in
      if a \<noteq> 0 \<and> a \<noteq> 1 then sq (bank_usage (argv ! 0)) (exit_with EXIT_FAILURE) else
      sq (printf (''Locking : '' @ (if locking then ''ON'' else ''OFF'') @ [nl]))
      (sq (if locking then or_fatal (p 137) ''pthread_mutex_init'' else ret ())
      (sq (bnd (gets gBalance) (\<lambda>b. printf (''Opening Balance : '' @ pad (CHR '' '') 6 (show_int b) @ [nl])))
      (sq (or_fatal (p 145) ''pthread_create'')
      (sq (or_fatal (p 145) ''pthread_create'')
      (sq (modify (\<lambda>s. shared (lm_run locking bank_worker bank_exec (sched @ finish 12) (lm_start s))))
      (sq (or_warn (p 153) ''pthread_join'')
      (sq (or_warn (p 153) ''pthread_join'')
      (sq (if locking then or_fatal (p 158) ''pthread_mutex_destroy'' else ret ())
      (sq (bnd (gets gBalance) (\<lambda>b. printf (''Closing Balance : '' @ pad (CHR '' '') 6 (show_int b) @ [nl])))
      (ret 0)))))))))))"

section \<open>facto.c\<close>

record facto = threaded +
  gFactorial :: "64 word"
  freg :: "nat \<Rightarrow> 64 word"

datatype facto_op = F_init | F_load | F_mul nat | F_vprint nat | F_show nat

definition factorize :: "nat \<Rightarrow> facto_op list" where
  "factorize num = F_init # concat (map (\<lambda>i. [F_load, F_mul i, F_vprint i]) [1..<Suc num])"

definition pad20 :: "64 word \<Rightarrow> string" where
  "pad20 w = pad (CHR '' '') 20 (show_int (sint w))"

definition fact_line :: "nat \<Rightarrow> nat \<Rightarrow> 64 word \<Rightarrow> string" where
  "fact_line i N w = ''[Thread #'' @ show_nat (i + 1) @ ''] (factorial) '' @ show_nat N @ '' ! = '' @ pad20 w @ [nl]"

fun facto_exec :: "nat \<Rightarrow> facto_op \<Rightarrow> facto \<Rightarrow> nat \<times> facto" where
  "facto_exec i F_init s = (0, s\<lparr>gFactorial := 1\<rparr>)"
| "facto_exec i F_load s = (0, s\<lparr>freg := (freg s)(i := gFactorial s)\<rparr>)"
| "facto_exec i (F_mul k) s = (0, s\<lparr>gFactorial := freg s i * of_nat k\<rparr>)"
| "facto_exec i (F_vprint k) s =
     (0, if gVerbose s then s\<lparr>bout := bout s @ [Out (place ''facto.c'' ''factorize'' 50 @ '' i='' @ pad (CHR '' '') 2 (show_nat k) @
            ''  fact='' @ pad20 (gFactorial s) @ [nl])]\<rparr> else s)"
| "facto_exec i (F_show N) s = (0, s\<lparr>bout := bout s @ [Out (fact_line i N (gFactorial s))]\<rparr>)"

definition facto_N :: "nat \<Rightarrow> nat" where
  "facto_N i = (if i = 0 then 10 else if i = 1 then 12 else 0)"

definition facto_worker :: "nat \<Rightarrow> facto_op list" where
  "facto_worker i = factorize (facto_N i) @ [F_show (facto_N i)]"

definition facto_usage :: "string \<Rightarrow> (facto, unit) cprog" where
  "facto_usage name = eprintf (''Usage: '' @ name @ '' lock-or-not [verbose=[0]|1]'' @ [nl] @ ''Locking mode:'' @ [nl] @
     '' 0 : do Not lock (buggy!)'' @ [nl] @ '' 1 : do lock (correct)'' @ [nl] @
     ''(TIP: turn locking OFF and verbose mode ON to see the issue!)'' @ [nl])"

definition facto_main :: "nat list \<Rightarrow> string list \<Rightarrow> (facto, int) cprog" where
  "facto_main sched argv =
     (let p = place ''facto.c'' ''main'' in
      if length argv < 2 then sq (facto_usage (argv ! 0)) (exit_with EXIT_FAILURE) else
      let a = atoi (argv ! 1); locking = (a = 1) in
      if a \<noteq> 0 \<and> a \<noteq> 1 then sq (facto_usage (argv ! 0)) (exit_with EXIT_FAILURE) else
      let v = (if length argv = 3 then atoi (argv ! 2) else 0) in
      sq (modify (\<lambda>s. s\<lparr>gVerbose := (v \<noteq> 0)\<rparr>))
      (sq (printf (''Locking mode : '' @ (if locking then ''ON'' else ''OFF'') @ [nl] @ ''Verbose mode : '' @ (if v = 1 then ''ON'' else ''OFF'') @ [nl]))
      (sq (if locking then or_fatal (p 136) ''pthread_mutex_init'' else ret ())
      (sq (or_fatal (p 143) ''pthread_create'')
      (sq (or_fatal (p 143) ''pthread_create'')
      (sq (modify (\<lambda>s. shared (lm_run locking facto_worker facto_exec (sched @ finish 41) (lm_start s))))
      (sq (or_warn (p 151) ''pthread_join'')
      (sq (or_warn (p 151) ''pthread_join'')
      (sq (if locking then or_fatal (p 158) ''pthread_mutex_destroy'' else ret ())
      (ret 0))))))))))"

section \<open>Both keep to their sections\<close>

lemma length_bank: "i < 2 \<Longrightarrow> length (bank_worker i) = 10"
  by (cases "i = 0") (auto simp: bank_worker_def deposit_def withdraw_def)

lemma bank_skip: "i < 2 \<Longrightarrow> k < length (bank_worker i) \<Longrightarrow> k + 1 + fst (bank_exec i (bank_worker i ! k) s) \<le> length (bank_worker i)"
proof -
  assume "i < 2" "k < length (bank_worker i)"
  then have "i = 0 \<or> i = 1" "k < 10" by (auto simp: length_bank)
  then have "i = 0 \<or> i = 1" "k = 0 \<or> k = 1 \<or> k = 2 \<or> k = 3 \<or> k = 4 \<or> k = 5 \<or> k = 6 \<or> k = 7 \<or> k = 8 \<or> k = 9" by arith+
  then show ?thesis by (elim disjE) (simp_all add: bank_worker_def deposit_def withdraw_def)
qed

interpretation bk: sections 2 bank_worker bank_exec
  by unfold_locales (rule bank_skip)

lemma facto_no_skip: "fst (facto_exec i x s) = 0"
  by (cases x) simp_all

interpretation fa: sections 2 facto_worker facto_exec
  by unfold_locales (simp add: facto_no_skip)

lemma bank_section0:
  "i = (0::nat) \<Longrightarrow> 0 \<le> gBalance s \<Longrightarrow> gBalance (critical bank_worker bank_exec s i) = gBalance s + 2750"
  by (simp add: critical_def rest_step rest_end bank_worker_def deposit_def withdraw_def gCB_MinCredit_def gCB_HiBalance_def bsay_def)

lemma bank_section1:
  "9500 \<le> gBalance s \<Longrightarrow> gBalance (critical bank_worker bank_exec s 1) = gBalance s - 8000"
  by (simp add: critical_def rest_step rest_end bank_worker_def deposit_def withdraw_def gCB_MinCredit_def gCB_HiBalance_def bsay_def)

section \<open>The closing balance\<close>

text \<open>
  C37. With the lock every run of the bank's two workers, however they are interleaved, has at most 24 steps, never gets
  stuck, and ends with the balance 6750: no deposit or withdrawal is lost.
\<close>

theorem bank_closing_balance:
  assumes "gBalance s = 12000" and "(lm_step True 2 bank_worker bank_exec ^^ k) (lm_start s) m"
  shows "k \<le> 24 \<and> ((\<exists>m'. lm_step True 2 bank_worker bank_exec m m') \<or> gBalance (shared m) = 6750)"
proof -
  have "(\<Sum>i < 2. length (bank_worker i) + 2) = (24::nat)" by (simp add: lessThan_Suc numeral_2_eq_2 length_bank)
  with bk.runs_serialise(1) [OF assms(2)] have "k \<le> 24" by simp
  moreover have "gBalance (shared m) = 6750"
    if o: "distinct order" "set order = {..<2}" "shared m = foldl (critical bank_worker bank_exec) s order" for order
    using order_two [OF o(1,2)] o(3) assms(1) by (elim disjE) (simp_all add: bank_section0 bank_section1 [unfolded One_nat_def])
  ultimately show ?thesis using bk.runs_serialise(2) [OF assms(2)] by blast
qed

definition bank0 :: bank where
  "bank0 = \<lparr>bout = [], berrno = None, bmem = [], gVerbose = False, rets = [], gBalance = 12000, breg = (\<lambda>_. 0)\<rparr>"

theorem bank_closing_balance_witness:
  "gBalance bank0 = 12000 \<and> (\<exists>m'. lm_step True 2 bank_worker bank_exec (lm_start bank0) m')"
proof -
  have "gBalance (shared (lm_start bank0)) \<noteq> 6750" by (simp add: bank0_def lm_start_def)
  with bank_closing_balance [of bank0 0 "lm_start bank0"] show ?thesis by (simp add: bank0_def)
qed

text \<open>Without the lock an update can be lost: both read the opening balance, and the withdrawal's write is overwritten.\<close>

lemma bank_unlocked_race:
  "gBalance (shared (lm_run False bank_worker bank_exec
     [0, 0, 0, 1, 1, 1, 1, 1, 0, 0, 0, 0, 0, 0, 0, 0, 0, 1, 1, 1, 1, 1, 1, 1, 1] (lm_start bank0))) = 15750"
  by (simp add: lm_exec_def lm_start_def bank0_def bank_worker_def deposit_def withdraw_def bsay_def gCB_MinCredit_def gCB_HiBalance_def)

section \<open>The factorials\<close>

definition seq_run :: "nat \<Rightarrow> facto_op list \<Rightarrow> facto \<Rightarrow> facto" where
  "seq_run i ops s = foldl (\<lambda>s x. snd (facto_exec i x s)) s ops"

lemma factorize_run:
  "gFactorial (seq_run i (factorize n) s) = of_nat (fact n) \<and> (\<exists>l. bout (seq_run i (factorize n) s) = bout s @ l)"
proof (induction n)
  case 0
  show ?case by (simp add: seq_run_def factorize_def)
next
  case (Suc n)
  have e: "factorize (Suc n) = factorize n @ [F_load, F_mul (Suc n), F_vprint (Suc n)]" by (simp add: factorize_def)
  show ?case using Suc unfolding e by (auto simp: seq_run_def algebra_simps)
qed

lemma facto_critical:
  "\<exists>l. bout (critical facto_worker facto_exec s i) = bout s @ l @ [Out (fact_line i (facto_N i) (of_nat (fact (facto_N i))))]"
proof -
  have "critical facto_worker facto_exec s i = seq_run i (facto_worker i) s"
    unfolding critical_def seq_run_def by (subst rest_foldl) (simp_all add: facto_no_skip)
  also have "\<dots> = snd (facto_exec i (F_show (facto_N i)) (seq_run i (factorize (facto_N i)) s))"
    by (simp add: facto_worker_def seq_run_def)
  finally show ?thesis using factorize_run [of i "facto_N i" s] by auto
qed

text \<open>
  With the lock every run of the two workers of facto, however they are interleaved, is finite, never gets stuck, and
  when it ends both results have been printed correctly: 10! as 3628800 and 12! as 479001600.
\<close>

theorem facto_prints_factorials:
  assumes "(lm_step True 2 facto_worker facto_exec ^^ k) (lm_start s) m"
  shows "k \<le> 74 \<and> ((\<exists>m'. lm_step True 2 facto_worker facto_exec m m') \<or>
    Out (fact_line 0 10 3628800) \<in> set (bout (shared m)) \<and> Out (fact_line 1 12 479001600) \<in> set (bout (shared m)))"
proof -
  have l: "length (factorize n) = 1 + 3 * n" for n by (induction n) (simp_all add: factorize_def)
  have "(\<Sum>i < 2. length (facto_worker i) + 2) = (74::nat)"
    by (simp add: lessThan_Suc numeral_2_eq_2 facto_worker_def l facto_N_def)
  with fa.runs_serialise(1) [OF assms] have k: "k \<le> 74" by simp
  have f: "of_nat (fact 10) = (3628800 :: 64 word)" "of_nat (fact 12) = (479001600 :: 64 word)" by (simp_all add: fact_numeral)
  have "Out (fact_line 0 10 3628800) \<in> set (bout (shared m)) \<and> Out (fact_line 1 12 479001600) \<in> set (bout (shared m))"
    if o: "distinct order" "set order = {..<2}" "shared m = foldl (critical facto_worker facto_exec) s order" for order
  proof -
    have c: "Out (fact_line i (facto_N i) (of_nat (fact (facto_N i)))) \<in> set (bout (critical facto_worker facto_exec t i))"
      "set (bout t) \<subseteq> set (bout (critical facto_worker facto_exec t i))" for t i
      using facto_critical [of t i] by auto
    have n: "facto_N 0 = 10" "facto_N 1 = 12" by (simp_all add: facto_N_def)
    note c0 = c(1) [of 0, unfolded n f] and c1 = c(1) [of 1, unfolded n f]
    from order_two [OF o(1,2)] show ?thesis
    proof
      assume "order = [0, 1]"
      with o(3) c0 [of s] c1 c(2) [of _ 1] show ?thesis by auto
    next
      assume "order = [1, 0]"
      with o(3) c1 [of s] c0 c(2) [of _ 0] show ?thesis by auto
    qed
  qed
  with k fa.runs_serialise(2) [OF assms] show ?thesis by blast
qed

definition facto0 :: facto where
  "facto0 = \<lparr>bout = [], berrno = None, bmem = [], gVerbose = False, rets = [], gFactorial = 1, freg = (\<lambda>_. 0)\<rparr>"

theorem facto_prints_factorials_witness:
  "\<exists>m'. lm_step True 2 facto_worker facto_exec (lm_start facto0) m'"
proof -
  have "bout (shared (lm_start facto0)) = []" by (simp add: facto0_def lm_start_def)
  with facto_prints_factorials [of 0 facto0 "lm_start facto0"] show ?thesis by simp
qed

end
