(* ===== verification/Sync_Demos.thy ===== *)
theory Sync_Demos
  imports Bank_Facto
begin

text \<open>
  Two synchronisation programs of chapter 15: \<^verbatim>\<open>src/booksrc/ch15/cv_simple.c\<close>, where thread A waits on a condition
  variable for thread B's work, and \<^verbatim>\<open>src/booksrc/ch15/mutex1.c\<close>, three threads that count three globals up. The first
  is cut at its synchronisation calls: one step of a thread is what it does up to the next of them. The second uses the
  single accesses of \<open>Locked_Threads\<close>.
\<close>

section \<open>The mutex macros of common.h\<close>

record mtx = threaded +
  mtx_owner :: "nat option"

definition blocked :: "('s, 'a) cprog" where
  "blocked = (\<lambda>s. (Blocks, s))"

definition MTX_LOCK :: "string \<Rightarrow> nat \<Rightarrow> ('x mtx_scheme, unit) cprog" where
  "MTX_LOCK loc t =
     bnd (gets mtx_owner) (\<lambda>own. if own \<noteq> None then blocked
     else bnd call_ret (\<lambda>r. if r \<noteq> 0 then FATAL loc (''pthread_mutex_lock failed! ['' @ show_int r @ '']'' @ [nl])
     else modify (\<lambda>s. s\<lparr>mtx_owner := Some t\<rparr>)))"

definition MTX_UNLOCK :: "string \<Rightarrow> ('x mtx_scheme, unit) cprog" where
  "MTX_UNLOCK loc =
     bnd call_ret (\<lambda>r. if r \<noteq> 0 then FATAL loc (''pthread_mutex_unlock failed! ['' @ show_int r @ '']'' @ [nl])
     else modify (\<lambda>s. s\<lparr>mtx_owner := None\<rparr>))"

section \<open>cv_simple.c\<close>

text \<open>Where the threads are. \<open>A_waits\<close> is inside \<^verbatim>\<open>pthread_cond_wait\<close>, \<open>A_woken\<close> is on its way out, without the mutex yet.\<close>

datatype apc = A_new | A_lock | A_say | A_wait | A_waits | A_woken | A_check | A_unlock | A_done | A_exit

datatype bpc = B_new | B_work | B_lock | B_set | B_signal | B_unlock | B_exit

record cvs = mtx +
  gWorkDone :: int
  pcA :: apc
  pcB :: bpc
  ended :: "int option"

fun workerB :: "bpc \<Rightarrow> (cvs, bpc) cprog" where
  "workerB B_new = blocked"
| "workerB B_work =
     sq (printf ('' [thread B] : perform the '' @ [CHR 0x27] @ ''work'' @ [CHR 0x27] @ '' now (first sleep(1) :-)) ...'' @ [nl]))
     (sq (DELAY_LOOP 98 72)
     (sq (printf ([nl] @ '' [thread B] : work done, signal thread A to continue ...'' @ [nl]))
     (ret B_lock)))"
| "workerB B_lock = sq (MTX_LOCK (place ''cv_simple.c'' ''workerB'' 48) 1) (ret B_set)"
| "workerB B_set = sq (modify (\<lambda>s. s\<lparr>gWorkDone := 1\<rparr>)) (ret B_signal)"
| "workerB B_signal =
     bnd call_ret (\<lambda>r.
     if r \<noteq> 0 then sq (FATAL (place ''cv_simple.c'' ''workerB'' 52) (''pthread_cond_signal() in thread B failed! ['' @ show_int r @ '']'' @ [nl])) (ret B_unlock)
     else sq (modify (\<lambda>s. if pcA s = A_waits then s\<lparr>pcA := A_woken\<rparr> else s)) (ret B_unlock))"
| "workerB B_unlock = sq (MTX_UNLOCK (place ''cv_simple.c'' ''workerB'' 53)) (ret B_exit)"
| "workerB B_exit = blocked"

text \<open>\<^verbatim>\<open>pthread_cond_wait\<close> fails at once or releases the mutex and waits.\<close>

fun workerA :: "apc \<Rightarrow> (cvs, apc) cprog" where
  "workerA A_new = blocked"
| "workerA A_lock = sq (MTX_LOCK (place ''cv_simple.c'' ''workerA'' 65) 0) (ret A_say)"
| "workerA A_say = sq (printf ('' [thread A] : now waiting on the CV for thread B to finish...'' @ [nl])) (ret A_wait)"
| "workerA A_wait =
     bnd call_ret (\<lambda>r.
     if r \<noteq> 0 then sq (FATAL (place ''cv_simple.c'' ''workerA'' 71) (''pthread_cond_wait() in thread A failed! ['' @ show_int r @ '']'' @ [nl])) (ret A_check)
     else sq (modify (\<lambda>s. s\<lparr>mtx_owner := None\<rparr>)) (ret A_waits))"
| "workerA A_waits = blocked"
| "workerA A_woken = bnd (gets mtx_owner) (\<lambda>own. if own \<noteq> None then blocked else sq (modify (\<lambda>s. s\<lparr>mtx_owner := Some 0\<rparr>)) (ret A_check))"
| "workerA A_check =
     sq (printf ('' [thread A] : recheck the predicate (is the work really done or is it a spurious wakeup?)'' @ [nl]))
     (bnd (gets gWorkDone) (\<lambda>g. if g \<noteq> 0 then ret A_unlock
     else sq (printf ('' [thread A] : SPURIOUS WAKEUP detected !!! (going back to CV waiting)'' @ [nl])) (ret A_say)))"
| "workerA A_unlock = sq (MTX_UNLOCK (place ''cv_simple.c'' ''workerA'' 81)) (ret A_done)"
| "workerA A_done = sq (printf ('' [thread A] : (cv wait done) thread B has completed it'' @ [CHR 0x27] @ ''s work...'' @ [nl])) (ret A_exit)"
| "workerA A_exit = blocked"

text \<open>A move of the process: a step of a thread, or a wakeup nobody signalled. After an exit nothing moves.\<close>

datatype cv_turn = Move_A | Move_B | Spurious

definition land :: "('pc \<Rightarrow> cvs \<Rightarrow> cvs) \<Rightarrow> 'pc outcome \<times> cvs \<Rightarrow> cvs option" where
  "land go r = (case r of (Return pc, s') \<Rightarrow> Some (go pc s') | (Exited n, s') \<Rightarrow> Some (s'\<lparr>ended := Some n\<rparr>) | _ \<Rightarrow> None)"

fun cv_move :: "cv_turn \<Rightarrow> cvs \<Rightarrow> cvs option" where
  "cv_move Move_A s = (if ended s \<noteq> None then None else land (\<lambda>pc s. s\<lparr>pcA := pc\<rparr>) (workerA (pcA s) s))"
| "cv_move Move_B s = (if ended s \<noteq> None then None else land (\<lambda>pc s. s\<lparr>pcB := pc\<rparr>) (workerB (pcB s) s))"
| "cv_move Spurious s = (if ended s = None \<and> pcA s = A_waits then Some (s\<lparr>pcA := A_woken\<rparr>) else None)"

inductive cv_step :: "cv_turn set \<Rightarrow> cvs \<Rightarrow> cvs \<Rightarrow> bool" for allowed where
  cv_step: "mv \<in> allowed \<Longrightarrow> cv_move mv s = Some s' \<Longrightarrow> cv_step allowed s s'"

inductive_cases cv_stepE: "cv_step allowed s s'"

fun cv_run :: "cv_turn list \<Rightarrow> cvs \<Rightarrow> cvs" where
  "cv_run [] s = s"
| "cv_run (mv # mvs) s = cv_run mvs (case cv_move mv s of None \<Rightarrow> s | Some s' \<Rightarrow> s')"

text \<open>
  The threads run by the schedule \<open>sched0\<close> until thread B is created and by \<open>sched\<close> until main joins them; a join of a
  thread that has not ended blocks. \<open>running\<close> gives the exit status when a thread ended the process.
\<close>

definition running :: "cv_turn list \<Rightarrow> (cvs, unit) cprog" where
  "running sched = sq (modify (cv_run sched)) (bnd (gets ended) (\<lambda>e. case e of None \<Rightarrow> ret () | Some n \<Rightarrow> exit_with n))"

definition cv_join :: "nat \<Rightarrow> (cvs \<Rightarrow> bool) \<Rightarrow> (cvs, unit) cprog" where
  "cv_join line over = bnd (gets over) (\<lambda>ok. if ok then or_warn (place ''cv_simple.c'' ''main'' line) ''pthread_join'' else blocked)"

definition cv_main :: "cv_turn list \<Rightarrow> cv_turn list \<Rightarrow> (cvs, int) cprog" where
  "cv_main sched0 sched =
     (let p = place ''cv_simple.c'' ''main'' in
      sq (bnd call_ret (\<lambda>r. if r \<noteq> 0 then FATAL (p 100) (''pthread_condattr_init failed ['' @ show_int r @ ''].'' @ [nl]) else ret ()))
      (sq (bnd call_ret (\<lambda>r. if r \<noteq> 0 then FATAL (p 103) (''pthread_cond_init failed ['' @ show_int r @ ''].'' @ [nl]) else ret ()))
      (bnd call_ret (\<lambda>r1.
      sq (if r1 \<noteq> 0 then FATAL (p 109) (''pthread_create() thread A failed! ['' @ show_int r1 @ '']'' @ [nl]) else modify (\<lambda>s. s\<lparr>pcA := A_lock\<rparr>))
      (sq (running sched0)
      (bnd call_ret (\<lambda>r2.
      sq (if r2 \<noteq> 0 then FATAL (p 112) (''pthread_create() thread B failed! ['' @ show_int r2 @ '']'' @ [nl]) else modify (\<lambda>s. s\<lparr>pcB := B_work\<rparr>))
      (sq (running sched)
      (sq (cv_join 119 (\<lambda>s. pcA s = A_exit))
      (sq (cv_join 119 (\<lambda>s. pcB s = B_exit))
      (exit_with EXIT_SUCCESS)))))))))))"

definition cv_start :: "cvs" where
  "cv_start = \<lparr>bout = [], berrno = None, bmem = [], gVerbose = False, rets = [], mtx_owner = None, gWorkDone = 0,
     pcA = A_new, pcB = B_new, ended = None\<rparr>"


subsection \<open>What holds in every run\<close>

text \<open>
  \<open>cv_quiet\<close>: as long as no call fails, the mutex is with the thread that is between its lock and its unlock, and the
  work is done from thread B's store on.
\<close>

definition holdsA :: "apc \<Rightarrow> bool" where
  "holdsA pc \<longleftrightarrow> pc \<in> {A_say, A_wait, A_check, A_unlock}"

definition holdsB :: "bpc \<Rightarrow> bool" where
  "holdsB pc \<longleftrightarrow> pc \<in> {B_set, B_signal, B_unlock}"

definition cv_quiet :: "cvs \<Rightarrow> bool" where
  "cv_quiet s \<longleftrightarrow> rets s = [] \<and> ended s = None \<and> (holdsA (pcA s) \<longleftrightarrow> mtx_owner s = Some 0) \<and> (holdsB (pcB s) \<longleftrightarrow> mtx_owner s = Some 1) \<and>
     (mtx_owner s \<noteq> None \<longrightarrow> holdsA (pcA s) \<or> holdsB (pcB s)) \<and>
     (gWorkDone s \<noteq> 0 \<longleftrightarrow> pcB s \<in> {B_signal, B_unlock, B_exit}) \<and>
     (pcA s \<in> {A_unlock, A_done, A_exit} \<longrightarrow> gWorkDone s \<noteq> 0)"

lemma run_call_ret: "rets s = [] \<Longrightarrow> call_ret s = (Return 0, s)"
  by (simp add: call_ret_def)

lemma DELAY_LOOP_run: "DELAY_LOOP v n s = (Return (), s\<lparr>bout := bout s @ replicate n (Out [char_of (nat (v mod 256))])\<rparr>)"
  by (induction n arbitrary: s) (simp_all add: prog_simps beep_def)

lemmas cv_eval = prog_eval run_printf run_call_ret MTX_LOCK_def MTX_UNLOCK_def blocked_def land_def

lemma workerB_work: "\<exists>l. workerB B_work s = (Return B_lock, s\<lparr>bout := bout s @ l\<rparr>)"
  by (simp add: prog_eval run_printf DELAY_LOOP_run del: replicate.simps) (rule exI, rule refl)

text \<open>The moves of the two threads while no call fails, output aside.\<close>

definition A_moves :: "apc \<Rightarrow> nat option \<Rightarrow> int \<Rightarrow> apc option" where
  "A_moves a own g = (case a of
     A_lock \<Rightarrow> if own = None then Some A_say else None
   | A_say \<Rightarrow> Some A_wait
   | A_wait \<Rightarrow> Some A_waits
   | A_woken \<Rightarrow> if own = None then Some A_check else None
   | A_check \<Rightarrow> Some (if g \<noteq> 0 then A_unlock else A_say)
   | A_unlock \<Rightarrow> Some A_done
   | A_done \<Rightarrow> Some A_exit
   | _ \<Rightarrow> None)"

definition ownA :: "apc \<Rightarrow> nat option \<Rightarrow> nat option" where
  "ownA pc own = (case pc of A_lock \<Rightarrow> Some 0 | A_woken \<Rightarrow> Some 0 | A_wait \<Rightarrow> None | A_unlock \<Rightarrow> None | _ \<Rightarrow> own)"

lemma move_A:
  assumes "rets s = []" "ended s = None"
  shows "(A_moves (pcA s) (mtx_owner s) (gWorkDone s) = None \<longrightarrow> cv_move Move_A s = None) \<and>
    (\<forall>pc. A_moves (pcA s) (mtx_owner s) (gWorkDone s) = Some pc \<longrightarrow> (\<exists>l. cv_move Move_A s = Some (s\<lparr>bout := bout s @ l, mtx_owner := ownA (pcA s) (mtx_owner s), pcA := pc\<rparr>)))"
  using assms by (cases "pcA s") (auto simp: A_moves_def ownA_def cv_eval intro: exI [of _ "[]"])

definition B_moves :: "bpc \<Rightarrow> nat option \<Rightarrow> bpc option" where
  "B_moves b own = (case b of
     B_work \<Rightarrow> Some B_lock
   | B_lock \<Rightarrow> if own = None then Some B_set else None
   | B_set \<Rightarrow> Some B_signal
   | B_signal \<Rightarrow> Some B_unlock
   | B_unlock \<Rightarrow> Some B_exit
   | _ \<Rightarrow> None)"

definition ownB :: "bpc \<Rightarrow> nat option \<Rightarrow> nat option" where
  "ownB pc own = (case pc of B_lock \<Rightarrow> Some 1 | B_unlock \<Rightarrow> None | _ \<Rightarrow> own)"

definition wake_A :: "bpc \<Rightarrow> apc \<Rightarrow> apc" where
  "wake_A pc a = (if pc = B_signal \<and> a = A_waits then A_woken else a)"

lemma move_B:
  assumes "rets s = []" "ended s = None"
  shows "(B_moves (pcB s) (mtx_owner s) = None \<longrightarrow> cv_move Move_B s = None) \<and>
    (\<forall>pc. B_moves (pcB s) (mtx_owner s) = Some pc \<longrightarrow> (\<exists>l. cv_move Move_B s =
       Some (s\<lparr>bout := bout s @ l, mtx_owner := ownB (pcB s) (mtx_owner s), gWorkDone := (if pcB s = B_set then 1 else gWorkDone s),
         pcA := wake_A (pcB s) (pcA s), pcB := pc\<rparr>)))"
proof (cases "pcB s")
  case B_work
  obtain l where "workerB B_work s = (Return B_lock, s\<lparr>bout := bout s @ l\<rparr>)" using workerB_work by blast
  with B_work assms show ?thesis by (auto simp: B_moves_def ownB_def wake_A_def land_def simp del: workerB.simps intro: exI [of _ l])
qed (use assms in \<open>auto simp: B_moves_def ownB_def wake_A_def cv_eval intro: exI [of _ "[]"]\<close>)

lemma cv_moveE:
  assumes "cv_move mv s = Some s'" "rets s = []" "ended s = None"
  obtains (A) l pc where "A_moves (pcA s) (mtx_owner s) (gWorkDone s) = Some pc" "s' = s\<lparr>bout := bout s @ l, mtx_owner := ownA (pcA s) (mtx_owner s), pcA := pc\<rparr>"
  | (B) l pc where "B_moves (pcB s) (mtx_owner s) = Some pc" "s' = s\<lparr>bout := bout s @ l, mtx_owner := ownB (pcB s) (mtx_owner s),
      gWorkDone := (if pcB s = B_set then 1 else gWorkDone s), pcA := wake_A (pcB s) (pcA s), pcB := pc\<rparr>"
  | (S) "pcA s = A_waits" "s' = s\<lparr>pcA := A_woken\<rparr>"
proof (cases mv)
  case Move_A
  with assms move_A [OF assms(2,3)] that(1) show ?thesis
    by (cases "A_moves (pcA s) (mtx_owner s) (gWorkDone s)") (auto simp del: cv_move.simps)
next
  case Move_B
  with assms move_B [OF assms(2,3)] that(2) show ?thesis
    by (cases "B_moves (pcB s) (mtx_owner s)") (auto simp del: cv_move.simps)
next
  case Spurious
  with assms(1) that(3) show ?thesis by (auto split: if_splits)
qed

lemmas cv_tables = A_moves_def ownA_def B_moves_def ownB_def wake_A_def holdsA_def holdsB_def

lemma cv_move_quiet:
  assumes "cv_quiet s" "cv_move mv s = Some s'"
  shows "cv_quiet s'"
proof -
  have e: "rets s = []" "ended s = None" using assms(1) by (auto simp: cv_quiet_def)
  from assms(2) e show ?thesis
  proof (cases rule: cv_moveE)
    case (A l pc)
    with assms(1) show ?thesis by (cases "pcA s") (auto simp: cv_quiet_def cv_tables split: if_splits)
  next
    case (B l pc)
    with assms(1) show ?thesis by (cases "pcB s") (auto simp: cv_quiet_def cv_tables split: if_splits)
  next
    case S
    with assms(1) show ?thesis by (auto simp: cv_quiet_def cv_tables)
  qed
qed

lemma cv_reach_quiet: "(cv_step allowed)\<^sup>*\<^sup>* s s' \<Longrightarrow> cv_quiet s \<Longrightarrow> cv_quiet s'"
  by (induction rule: rtranclp_induct) (auto elim!: cv_stepE intro: cv_move_quiet)

text \<open>Thread A never goes on before the work is done, whatever spurious wakeups there are.\<close>

lemma cv_A_after_B:
  "(cv_step allowed)\<^sup>*\<^sup>* s s' \<Longrightarrow> cv_quiet s \<Longrightarrow> pcA s' \<in> {A_unlock, A_done, A_exit} \<Longrightarrow> pcB s' \<in> {B_signal, B_unlock, B_exit}"
  using cv_reach_quiet [of allowed s s'] unfolding cv_quiet_def by metis

text \<open>Without spurious wakeups a run can stop in two ways only: both threads are through, or A waits for a signal that is past.\<close>

lemma cv_stuck:
  assumes "cv_quiet s" "pcA s \<noteq> A_new" "pcB s \<noteq> B_new" "\<And>s'. \<not> cv_step {Move_A, Move_B} s s'"
  shows "pcB s = B_exit \<and> (pcA s = A_exit \<or> pcA s = A_waits)"
proof -
  have e: "rets s = []" "ended s = None" using assms(1) by (auto simp: cv_quiet_def)
  have "cv_move mv s = None" if "mv \<in> {Move_A, Move_B}" for mv
    using assms(4) that cv_step [of mv _ s] by (cases "cv_move mv s") blast+
  then have "A_moves (pcA s) (mtx_owner s) (gWorkDone s) = None" "B_moves (pcB s) (mtx_owner s) = None" using move_A [OF e] move_B [OF e] by (auto simp del: cv_move.simps)
  with assms show ?thesis by (cases "pcA s"; cases "pcB s") (auto simp: cv_quiet_def cv_tables split: if_splits)
qed

text \<open>
  \<open>cv_heard\<close>: thread A began to wait before the signal. Then, with or without spurious wakeups, a run that stops has both
  threads through.
\<close>

definition cv_heard :: "cvs \<Rightarrow> bool" where
  "cv_heard s \<longleftrightarrow> cv_quiet s \<and> pcA s \<notin> {A_new, A_lock} \<and> pcB s \<noteq> B_new \<and> (pcB s \<in> {B_unlock, B_exit} \<longrightarrow> pcA s \<notin> {A_say, A_wait, A_waits})"

lemma cv_move_heard:
  assumes "cv_heard s" "cv_move mv s = Some s'"
  shows "cv_heard s'"
proof -
  have q: "cv_quiet s" "cv_quiet s'" using assms cv_move_quiet by (auto simp: cv_heard_def)
  then have e: "rets s = []" "ended s = None" by (auto simp: cv_quiet_def)
  from assms(2) e show ?thesis
  proof (cases rule: cv_moveE)
    case (A l pc)
    with assms(1) q show ?thesis by (cases "pcA s") (auto simp: cv_heard_def cv_quiet_def cv_tables split: if_splits)
  next
    case (B l pc)
    with assms(1) q show ?thesis by (cases "pcB s") (auto simp: cv_heard_def cv_quiet_def cv_tables split: if_splits)
  next
    case S
    with assms(1) q show ?thesis by (auto simp: cv_heard_def)
  qed
qed

lemma cv_reach_heard: "(cv_step allowed)\<^sup>*\<^sup>* s s' \<Longrightarrow> cv_heard s \<Longrightarrow> cv_heard s'"
  by (induction rule: rtranclp_induct) (auto elim!: cv_stepE intro: cv_move_heard)

lemma cv_heard_finishes:
  assumes "(cv_step UNIV)\<^sup>*\<^sup>* s s'" "cv_heard s" "\<And>s''. \<not> cv_step {Move_A, Move_B} s' s''"
  shows "pcA s' = A_exit \<and> pcB s' = B_exit"
  using cv_reach_heard [OF assms(1,2)] cv_stuck [of s'] assms(3) by (auto simp: cv_heard_def)

text \<open>Without its output the process is a machine on four values; main leaves when it brings both threads to their ends.\<close>

definition view :: "cvs \<Rightarrow> nat option \<times> int \<times> apc \<times> bpc" where
  "view s = (mtx_owner s, gWorkDone s, pcA s, pcB s)"

fun view_move :: "cv_turn \<Rightarrow> nat option \<times> int \<times> apc \<times> bpc \<Rightarrow> nat option \<times> int \<times> apc \<times> bpc" where
  "view_move Move_A (own, g, a, b) = (case A_moves a own g of None \<Rightarrow> (own, g, a, b) | Some pc \<Rightarrow> (ownA a own, g, pc, b))"
| "view_move Move_B (own, g, a, b) = (case B_moves b own of None \<Rightarrow> (own, g, a, b)
     | Some pc \<Rightarrow> (ownB b own, if b = B_set then 1 else g, wake_A b a, pc))"
| "view_move Spurious (own, g, a, b) = (own, g, if a = A_waits then A_woken else a, b)"

lemma cv_run_view:
  "rets s = [] \<Longrightarrow> ended s = None \<Longrightarrow>
   rets (cv_run sched s) = [] \<and> ended (cv_run sched s) = None \<and> view (cv_run sched s) = foldl (\<lambda>v mv. view_move mv v) (view s) sched"
proof (induction sched arbitrary: s)
  case (Cons mv sched)
  let ?s = "case cv_move mv s of None \<Rightarrow> s | Some s' \<Rightarrow> s'"
  have "rets ?s = [] \<and> ended ?s = None \<and> view ?s = view_move mv (view s)"
  proof (cases mv)
    case Move_A
    with move_A [OF Cons.prems] Cons.prems show ?thesis
      by (cases "A_moves (pcA s) (mtx_owner s) (gWorkDone s)") (auto simp: view_def simp del: cv_move.simps)
  next
    case Move_B
    with move_B [OF Cons.prems] Cons.prems show ?thesis
      by (cases "B_moves (pcB s) (mtx_owner s)") (auto simp: view_def simp del: cv_move.simps)
  next
    case Spurious
    with Cons.prems show ?thesis by (simp add: view_def)
  qed
  with Cons.IH [of ?s] show ?case by simp
qed simp

definition final_view :: "cv_turn list \<Rightarrow> cv_turn list \<Rightarrow> nat option \<times> int \<times> apc \<times> bpc" where
  "final_view sched0 sched =
     (case foldl (\<lambda>v mv. view_move mv v) (None, 0, A_lock, B_new) sched0 of
        (own, g, a, b) \<Rightarrow> foldl (\<lambda>v mv. view_move mv v) (own, g, a, B_work) sched)"

lemma cv_main_view:
  "fst (cv_main sched0 sched cv_start) =
     (case final_view sched0 sched of (own, g, a, b) \<Rightarrow> if a = A_exit \<and> b = B_exit then Exited EXIT_SUCCESS else Blocks)"
proof -
  let ?s0 = "cv_start\<lparr>pcA := A_lock\<rparr>"
  let ?s1 = "cv_run sched0 ?s0"
  let ?s2 = "cv_run sched (?s1\<lparr>pcB := B_work\<rparr>)"
  have 0: "rets cv_start = []" by (simp add: cv_start_def)
  have 1: "rets ?s1 = []" "ended ?s1 = None" "view ?s1 = foldl (\<lambda>v mv. view_move mv v) (None, 0, A_lock, B_new) sched0"
    using cv_run_view [of ?s0 sched0] by (simp_all add: cv_start_def view_def)
  then have 2: "rets ?s2 = []" "ended ?s2 = None" "view ?s2 = final_view sched0 sched"
    using cv_run_view [of "?s1\<lparr>pcB := B_work\<rparr>" sched] by (auto simp: final_view_def view_def split: prod.splits)
  have "fst (cv_main sched0 sched cv_start) = (if pcA ?s2 = A_exit \<and> pcB ?s2 = B_exit then Exited EXIT_SUCCESS else Blocks)"
    using 1(1,2) 2(1,2) 0 by (simp add: cv_main_def running_def cv_join_def or_warn_def Let_def prog_eval run_call_ret blocked_def)
  with 2(3) show ?thesis by (auto simp: view_def split: prod.splits)
qed

text \<open>
  The order decides. When A waits first, main leaves with success; when B signals first, A waits before it looks at the
  predicate, nothing but a spurious wakeup can move it, and main's join blocks.
\<close>

lemma cv_A_first:
  "fst (cv_main (replicate 3 Move_A) (replicate 5 Move_B @ replicate 4 Move_A) cv_start) = Exited EXIT_SUCCESS"
  unfolding cv_main_view by (simp add: final_view_def numeral_eq_Suc cv_tables)

lemma view_lost: "Spurious \<notin> set sched \<Longrightarrow> foldl (\<lambda>v mv. view_move mv v) (own, g, A_waits, B_exit) sched = (own, g, A_waits, B_exit)"
proof (induction sched)
  case (Cons mv sched)
  then have "view_move mv (own, g, A_waits, B_exit) = (own, g, A_waits, B_exit)" by (cases mv) (auto simp: cv_tables)
  with Cons show ?case by simp
qed simp

lemma cv_B_first:
  "Spurious \<notin> set sched \<Longrightarrow> fst (cv_main [] (replicate 5 Move_B @ replicate 3 Move_A @ sched) cv_start) = Blocks"
  unfolding cv_main_view by (simp add: final_view_def numeral_eq_Suc cv_tables view_lost)

section \<open>mutex1.c\<close>

record mutex1 = threaded +
  gs :: "nat \<Rightarrow> int"
  mreg :: "nat \<Rightarrow> int"
  margs :: "nat \<Rightarrow> int list"

text \<open>\<open>gs\<close> holds \<^verbatim>\<open>g1\<close>, \<^verbatim>\<open>g2\<close>, \<^verbatim>\<open>g3\<close>; \<^verbatim>\<open>g++\<close> is a read and a write; \<^verbatim>\<open>printf\<close> reads its arguments one by one.\<close>

datatype mutex1_op = M_load nat | M_store nat | M_arg nat | M_show

definition two :: "int \<Rightarrow> string" where
  "two x = pad (CHR '' '') 2 (show_int x)"

definition mline :: "nat \<Rightarrow> int list \<Rightarrow> string" where
  "mline i xs = ''[Thread #'' @ show_nat (i + 1) @ ''] '' @ two (xs ! 0) @ ''   '' @ two (xs ! 1) @ ''   '' @ two (xs ! 2) @ [nl]"

fun mutex1_exec :: "nat \<Rightarrow> mutex1_op \<Rightarrow> mutex1 \<Rightarrow> nat \<times> mutex1" where
  "mutex1_exec i (M_load k) s = (0, s\<lparr>mreg := (mreg s)(i := gs s k)\<rparr>)"
| "mutex1_exec i (M_store k) s = (0, s\<lparr>gs := (gs s)(k := mreg s i + 1)\<rparr>)"
| "mutex1_exec i (M_arg k) s = (0, s\<lparr>margs := (margs s)(i := margs s i @ [gs s k])\<rparr>)"
| "mutex1_exec i M_show s = (0, s\<lparr>bout := bout s @ [Out (mline i (margs s i))]\<rparr>)"

definition mutex1_worker :: "nat \<Rightarrow> mutex1_op list" where
  "mutex1_worker i = [M_load 1, M_store 1, M_load 2, M_store 2, M_load 3, M_store 3, M_arg 1, M_arg 2, M_arg 3, M_show]"

definition mutex1_usage :: "string \<Rightarrow> (mutex1, unit) cprog" where
  "mutex1_usage name = eprintf (''Usage: '' @ name @ '' lock-or-not'' @ [nl] @ '' 0 : do Not lock (buggy!)'' @ [nl] @ '' 1 : do lock (correct)'' @ [nl])"

definition finish3 :: "nat list" where
  "finish3 = concat (replicate 3 (replicate 12 0 @ replicate 12 1 @ replicate 12 2))"

definition mutex1_main :: "nat list \<Rightarrow> string list \<Rightarrow> (mutex1, int) cprog" where
  "mutex1_main sched argv =
     (let p = place ''mutex1.c'' ''main'' in
      if length argv \<noteq> 2 then sq (mutex1_usage (argv ! 0)) (exit_with EXIT_FAILURE) else
      let a = atoi (argv ! 1); locking = (a = 1) in
      if a \<noteq> 0 \<and> a \<noteq> 1 then sq (mutex1_usage (argv ! 0)) (exit_with EXIT_FAILURE) else
      sq (if locking then or_fatal (p 89) ''pthread_mutex_init'' else ret ())
      (sq (bnd (gets gs) (\<lambda>g. printf (''At start:   g1   g2   g3'' @ [nl] @ ''            '' @ two (g 1) @ ''   '' @ two (g 2) @ ''   '' @ two (g 3) @ [nl])))
      (sq (or_fatal (p 99) ''pthread_create'')
      (sq (or_fatal (p 99) ''pthread_create'')
      (sq (or_fatal (p 99) ''pthread_create'')
      (sq (modify (\<lambda>s. shared (lm_run locking mutex1_worker mutex1_exec (sched @ finish3) (lm_start s))))
      (sq (or_warn (p 107) ''pthread_join'')
      (sq (or_warn (p 107) ''pthread_join'')
      (sq (or_warn (p 107) ''pthread_join'')
      (sq (if locking then or_fatal (p 114) ''pthread_mutex_destroy'' else ret ())
      (exit_with 0)))))))))))"

lemma mutex1_no_skip: "fst (mutex1_exec i x s) = 0"
  by (cases x) simp_all

interpretation mx: sections 3 mutex1_worker mutex1_exec
  by unfold_locales (simp add: mutex1_no_skip)

text \<open>A section counts each global up by one and prints the three values it leaves.\<close>

lemma mutex1_section:
  fixes s :: mutex1 and i :: nat
  defines "s' \<equiv> critical mutex1_worker mutex1_exec s i"
  shows "gs s' = (gs s)(1 := gs s 1 + 1, 2 := gs s 2 + 1, 3 := gs s 3 + 1)"
    and "margs s' = (margs s)(i := margs s i @ [gs s 1 + 1, gs s 2 + 1, gs s 3 + 1])"
    and "bout s' = bout s @ [Out (mline i (margs s i @ [gs s 1 + 1, gs s 2 + 1, gs s 3 + 1]))]"
  by (simp_all add: s'_def critical_def rest_step rest_end mutex1_worker_def)

lemma mutex1_sections:
  "distinct order \<Longrightarrow> \<forall>i \<in> set order. margs s i = [] \<Longrightarrow> k \<in> {1, 2, 3} \<Longrightarrow>
   gs (foldl (critical mutex1_worker mutex1_exec) s order) k = gs s k + int (length order) \<and>
   bout (foldl (critical mutex1_worker mutex1_exec) s order) =
     bout s @ map (\<lambda>j. Out (mline (order ! j) [gs s 1 + 1 + int j, gs s 2 + 1 + int j, gs s 3 + 1 + int j])) [0..<length order]"
proof (induction order arbitrary: s)
  case (Cons i order)
  let ?s = "critical mutex1_worker mutex1_exec s i"
  have "\<forall>j \<in> set order. margs ?s j = []" using Cons.prems by (auto simp: mutex1_section)
  with Cons have IH: "gs (foldl (critical mutex1_worker mutex1_exec) ?s order) k = gs ?s k + int (length order) \<and>
    bout (foldl (critical mutex1_worker mutex1_exec) ?s order) =
     bout ?s @ map (\<lambda>j. Out (mline (order ! j) [gs ?s 1 + 1 + int j, gs ?s 2 + 1 + int j, gs ?s 3 + 1 + int j])) [0..<length order]"
    by simp
  have m: "map f [0..<Suc n] = f 0 # map (\<lambda>j. f (Suc j)) [0..<n]" for f :: "nat \<Rightarrow> io" and n
    by (simp add: upt_conv_Cons map_Suc_upt [symmetric] del: upt_Suc)
  from IH Cons.prems show ?case by (auto simp: mutex1_section m algebra_simps simp del: upt_Suc)
qed simp

text \<open>
  With the lock every interleaving of the three threads ends, and it prints the values 11, 12, 13 of \<^verbatim>\<open>g1\<close> (and so for
  the others), each line the three globals at one moment.
\<close>

lemma mutex1_locked:
  assumes "(lm_step True 3 mutex1_worker mutex1_exec ^^ k) (lm_start s) m" "\<forall>i < 3. margs s i = []"
  shows "k \<le> 36 \<and> ((\<exists>m'. lm_step True 3 mutex1_worker mutex1_exec m m') \<or>
    (\<exists>order. distinct order \<and> set order = {..<3} \<and> gs (shared m) 1 = gs s 1 + 3 \<and> bout (shared m) =
       bout s @ map (\<lambda>j. Out (mline (order ! j) [gs s 1 + 1 + int j, gs s 2 + 1 + int j, gs s 3 + 1 + int j])) [0..<3]))"
proof -
  have "(\<Sum>i < 3. length (mutex1_worker i) + 2) = 36" by (simp add: mutex1_worker_def)
  with mx.runs_serialise(1) [OF assms(1)] have "k \<le> 36" by simp
  moreover have "\<exists>order. distinct order \<and> set order = {..<3} \<and> gs (shared m) 1 = gs s 1 + 3 \<and> bout (shared m) =
       bout s @ map (\<lambda>j. Out (mline (order ! j) [gs s 1 + 1 + int j, gs s 2 + 1 + int j, gs s 3 + 1 + int j])) [0..<3]"
    if o: "distinct order" "set order = {..<3}" "shared m = foldl (critical mutex1_worker mutex1_exec) s order" for order
  proof -
    have l: "length order = 3" using distinct_card [OF o(1)] o(2) by simp
    have "\<forall>i \<in> set order. margs s i = []" using assms(2) o(2) by auto
    from mutex1_sections [OF o(1) this, of 1] o l show ?thesis by auto
  qed
  ultimately show ?thesis using mx.runs_serialise(2) [OF assms(1)] by blast
qed

text \<open>Without the lock an update can be lost: two threads read \<^verbatim>\<open>g1\<close> before either writes it.\<close>

lemma mutex1_unlocked_loses:
  "\<exists>sched. gs (shared (lm_run False mutex1_worker mutex1_exec (sched @ finish3) (lm_start s))) 1 = gs s 1 + 2"
  by (rule exI [of _ "[0, 0, 1, 1, 0, 1]"])
    (simp add: finish3_def numeral_eq_Suc lm_exec_def lm_start_def mutex1_worker_def)

end
