(* ===== verification/Io_Buffers.thy ===== *)
theory Io_Buffers
  imports Sync_Demos "HOL-Library.Multiset"
begin

text \<open>
  The programs that copy blocks of \<^verbatim>\<open>/dev/urandom\<close> into a file through stdio: \<^verbatim>\<open>src/booksrc/A_fileio/iobuf.c\<close> with one thread
  and one global buffer, and its ports to two threads in \<^verbatim>\<open>src/booksrc/ch16\<close>: \<^verbatim>\<open>mt_iobuf_mtx.c\<close> keeps the global buffer
  and locks each access, \<^verbatim>\<open>mt_iobuf_rfct.c\<close> gives each thread a buffer from the heap, \<^verbatim>\<open>mt_iobuf_tls.c\<close> a thread-local one.
  \<open>blocks\<close> is what the coming reads deliver (nothing when it is used up), \<open>wouts\<close> how the coming writes go (well when it
  is used up), \<open>wrote\<close> the blocks the output stream accepted, \<open>fbuf\<close> the live buffers.
\<close>

section \<open>Streams and buffers\<close>

datatype wr = W_all | W_some nat | W_eof | W_err | W_none

datatype tpc = T_new | T_start | T_rlock | T_read | T_runlock | T_wlock | T_write | T_funlock | T_wunlock | T_free | T_exit

record iob = mtx +
  blocks :: "string list"
  wouts :: "wr list"
  wrote :: "string list"
  weof :: bool
  werr :: bool
  opens :: "bool list"
  wfp :: bool
  rfp :: bool
  fbuf :: "addr \<rightharpoonup> string"
  nextp :: addr
  shown :: "addr \<Rightarrow> string"
  pagesize :: int
  gbuf :: addr
  iobuf :: "nat \<Rightarrow> addr"
  fnr :: "nat \<Rightarrow> nat"
  ti :: "nat \<Rightarrow> int"
  tpcs :: "nat \<Rightarrow> tpc"
  stopped :: "unit outcome option"

definition NREAD :: nat where "NREAD = 512"

text \<open>\<^verbatim>\<open>malloc\<close>: the address, \<^verbatim>\<open>NULL\<close> without memory.\<close>

definition buf_malloc :: "nat \<Rightarrow> (iob, addr) cprog" where
  "buf_malloc n = bnd malloc_ok (\<lambda>ok. if \<not> ok then ret NULL
     else bnd (gets nextp) (\<lambda>p. sq (modify (\<lambda>s. s\<lparr>nextp := p + 1, fbuf := (fbuf s)(p \<mapsto> replicate n nul)\<rparr>)) (ret p)))"

text \<open>\<^verbatim>\<open>fread(p, 1, NREAD, rdstrm)\<close> of thread \<open>t\<close>; the bytes land at the front of the buffer.\<close>

definition fread :: "nat \<Rightarrow> addr \<Rightarrow> (iob, unit) cprog" where
  "fread t p =
     bnd (gets rfp) (\<lambda>ok. if \<not> ok then fault NullDeref else
     bnd (gets blocks) (\<lambda>bs.
     let b = (case bs of [] \<Rightarrow> [] | b # _ \<Rightarrow> take NREAD b) in
     sq (modify (\<lambda>s. s\<lparr>blocks := tl bs, fnr := (fnr s)(t := length b)\<rparr>))
     (if b = [] then ret () else store fbuf fbuf_update p (\<lambda>old. b @ drop (length b) old))))"

text \<open>\<^verbatim>\<open>fwrite(p, 1, fnr, wrstrm)\<close>: whether it is nonzero. Writing no bytes is zero without an error.\<close>

definition fwrite :: "nat \<Rightarrow> addr \<Rightarrow> (iob, bool) cprog" where
  "fwrite t p =
     bnd (gets wfp) (\<lambda>ok. if \<not> ok then fault NullDeref else
     bnd (gets (\<lambda>s. fnr s t)) (\<lambda>n. if n = 0 then ret False else
     bnd (deref fbuf p) (\<lambda>c.
     bnd (gets wouts) (\<lambda>ws.
     let w = (case ws of [] \<Rightarrow> W_all | w # _ \<Rightarrow> w) in
     sq (modify (\<lambda>s. s\<lparr>wouts := tl ws\<rparr>))
     (case w of
        W_all \<Rightarrow> sq (modify (\<lambda>s. s\<lparr>wrote := wrote s @ [take n c]\<rparr>)) (ret True)
      | W_some k \<Rightarrow> sq (modify (\<lambda>s. s\<lparr>wrote := wrote s @ [take (min n (Suc k)) c]\<rparr>)) (ret True)
      | W_eof \<Rightarrow> sq (modify (\<lambda>s. s\<lparr>weof := True\<rparr>)) (ret False)
      | W_err \<Rightarrow> sq (modify (\<lambda>s. s\<lparr>werr := True\<rparr>)) (ret False)
      | W_none \<Rightarrow> ret False)))))"

definition buf_free :: "addr \<Rightarrow> (iob, unit) cprog" where
  "buf_free p = free fbuf fbuf_update p"

definition fopen :: "(bool \<Rightarrow> iob \<Rightarrow> iob) \<Rightarrow> (iob, bool) cprog" where
  "fopen put = bnd (gets opens) (\<lambda>os.
     let ok = (case os of [] \<Rightarrow> True | b # _ \<Rightarrow> b) in sq (modify (\<lambda>s. put ok (s\<lparr>opens := tl os\<rparr>))) (ret ok))"

definition fclose :: "(iob \<Rightarrow> bool) \<Rightarrow> (iob, unit) cprog" where
  "fclose fp = bnd (gets fp) (\<lambda>ok. if ok then ret () else fault NullDeref)"

text \<open>The expected number of system calls, in \<^verbatim>\<open>int\<close>s.\<close>

definition rw_syscalls :: "int \<Rightarrow> int \<Rightarrow> int" where
  "rw_syscalls numio page = (let n = i32 (i32 (int NREAD * numio) sdiv page) in if n \<le> 0 then 1 else n)"

definition rw_line :: "int \<Rightarrow> int \<Rightarrow> string" where
  "rw_line numio page = ''numio='' @ show_int numio @ ''   total rdwr='' @ show_int (u32 (int NREAD * numio)) @
     ''   expected # rw syscalls='' @ show_int (rw_syscalls numio page) @ [nl]"

section \<open>iobuf.c\<close>

text \<open>After a failed write the buffer is freed; unless the stream is at its end or in error the loop goes on with it. \<open>at1\<close> and \<open>at2\<close> are the places its
  messages name.\<close>

fun testit_loop :: "string \<Rightarrow> string \<Rightarrow> nat \<Rightarrow> (iob, unit) cprog" where
  "testit_loop at1 at2 0 = ret ()"
| "testit_loop at1 at2 (Suc k) =
     bnd (gets gbuf) (\<lambda>p.
     sq (fread 0 p)
     (bnd (gets (\<lambda>s. fnr s 0)) (\<lambda>n.
     sq (if n = 0 then FATAL at1 (''fread on /dev/urandom failed'' @ [nl]) else ret ())
     (bnd (fwrite 0 p) (\<lambda>ok.
     if ok then testit_loop at1 at2 k
     else
       sq (buf_free p)
       (bnd (gets weof) (\<lambda>e. if e then ret () else
       bnd (gets werr) (\<lambda>r.
       sq (if r then FATAL at2 (''fwrite on our file failed'' @ [nl]) else ret ())
       (testit_loop at1 at2 k)))))))))"

definition testit :: "int \<Rightarrow> (iob, unit) cprog" where
  "testit numio =
     bnd (gets pagesize) (\<lambda>page.
     sq (VPRINT (place ''iobuf.c'' ''testit'' 40) (rw_line numio page))
     (testit_loop (place ''iobuf.c'' ''testit'' 46) (place ''iobuf.c'' ''testit'' 53) (nat numio)))"

definition rw_usage :: "string \<Rightarrow> (iob, int) cprog" where
  "rw_usage name = sq (eprintf (''Usage: '' @ name @ '' number-of-times-to-rdwr'' @ [nl])) (exit_with EXIT_FAILURE)"

definition rw_banner :: "string \<Rightarrow> int \<Rightarrow> (iob, unit) cprog" where
  "rw_banner name numio = bnd (gets pagesize) (\<lambda>page.
     printf (name @ '': using default stdio IO RW buffers of size '' @ show_int (u32 page) @ '' bytes; # IOs='' @ show_int numio @ [nl]))"

text \<open>\<^verbatim>\<open>gbuf = malloc(NREAD)\<close> and the two \<^verbatim>\<open>fopen\<close>s, each with its message.\<close>

definition alloc_gbuf :: "string \<Rightarrow> (iob, unit) cprog" where
  "alloc_gbuf loc = bnd (buf_malloc NREAD) (\<lambda>p. sq (modify (\<lambda>s. s\<lparr>gbuf := p\<rparr>))
     (if p = NULL then FATAL loc (''malloc '' @ show_nat NREAD @ '' failed!'' @ [nl]) else ret ()))"

definition open_streams :: "string \<Rightarrow> string \<Rightarrow> (iob, unit) cprog" where
  "open_streams loc1 loc2 =
     bnd (fopen (\<lambda>ok s. s\<lparr>wfp := ok\<rparr>)) (\<lambda>ok1.
     sq (if \<not> ok1 then FATAL loc1 (''fopen on /tmp/iobuf_tmp failed'' @ [nl]) else ret ())
     (bnd (fopen (\<lambda>ok s. s\<lparr>rfp := ok\<rparr>)) (\<lambda>ok2.
     if \<not> ok2 then FATAL loc2 (''fopen on /dev/urandom failed'' @ [nl]) else ret ())))"

definition iobuf_main :: "string list \<Rightarrow> (iob, int) cprog" where
  "iobuf_main argv =
     (let p = place ''iobuf.c'' ''main'' in
      if length argv \<noteq> 2 then rw_usage (argv ! 0) else
      let numio = atoi (argv ! 1) in
      if numio \<le> 0 then rw_usage (argv ! 0) else
      sq (rw_banner (argv ! 0) numio)
      (sq (alloc_gbuf (p 80))
      (sq (open_streams (p 85) (p 89))
      (sq (testit numio)
      (sq (fclose rfp)
      (sq (fclose wfp)
      (sq (bnd (gets gbuf) buf_free)
      (exit_with EXIT_SUCCESS))))))))"

section \<open>The programs with two threads\<close>

text \<open>
  One step of a thread goes up to its next call of the mutex or a stream; the streams lock themselves. \<open>again\<close> is the
  loop's \<^verbatim>\<open>i++\<close> and its test.
\<close>

definition again :: "nat \<Rightarrow> int \<Rightarrow> tpc \<Rightarrow> tpc \<Rightarrow> (iob, tpc) cprog" where
  "again t numio loop over = sq (modify (\<lambda>s. s\<lparr>ti := (ti s)(t := ti s t + 1)\<rparr>)) (bnd (gets (\<lambda>s. ti s t)) (\<lambda>i. ret (if i < numio then loop else over)))"

definition enter :: "nat \<Rightarrow> int \<Rightarrow> tpc \<Rightarrow> tpc \<Rightarrow> (iob, tpc) cprog" where
  "enter t numio loop over = sq (modify (\<lambda>s. s\<lparr>ti := (ti s)(t := 0)\<rparr>)) (ret (if 0 < numio then loop else over))"

definition thread_line :: "nat \<Rightarrow> int \<Rightarrow> int \<Rightarrow> string" where
  "thread_line t numio page = ''[Thread #'' @ show_nat t @ '']: '' @ rw_line numio page"

definition read_check :: "string \<Rightarrow> nat \<Rightarrow> (iob, unit) cprog" where
  "read_check loc t = bnd (gets (\<lambda>s. fnr s t)) (\<lambda>n. if n = 0 then FATAL loc (''fread on /dev/urandom failed'' @ [nl]) else ret ())"

fun testit_mt_mtx :: "nat \<Rightarrow> int \<Rightarrow> tpc \<Rightarrow> (iob, tpc) cprog" where
  "testit_mt_mtx t numio T_start =
     bnd (gets pagesize) (\<lambda>page.
     sq (VPRINT (place ''mt_iobuf_mtx.c'' ''testit_mt_mtx'' 49) (thread_line t numio page))
     (bnd (gets (\<lambda>s. shown s (gbuf s))) (\<lambda>g.
     sq (VPRINT (place ''mt_iobuf_mtx.c'' ''testit_mt_mtx'' 55) ('' gbuf = '' @ g @ [nl]))
     (enter t numio T_rlock T_exit))))"
| "testit_mt_mtx t numio T_rlock = sq (MTX_LOCK (place ''mt_iobuf_mtx.c'' ''testit_mt_mtx'' 58) t) (ret T_read)"
| "testit_mt_mtx t numio T_read = bnd (gets gbuf) (\<lambda>p. sq (fread t p) (ret T_runlock))"
| "testit_mt_mtx t numio T_runlock =
     sq (MTX_UNLOCK (place ''mt_iobuf_mtx.c'' ''testit_mt_mtx'' 60))
     (sq (read_check (place ''mt_iobuf_mtx.c'' ''testit_mt_mtx'' 62) t)
     (ret T_wlock))"
| "testit_mt_mtx t numio T_wlock = sq (MTX_LOCK (place ''mt_iobuf_mtx.c'' ''testit_mt_mtx'' 64) t) (ret T_write)"
| "testit_mt_mtx t numio T_write =
     bnd (gets gbuf) (\<lambda>p. bnd (fwrite t p) (\<lambda>ok. if ok then ret T_wunlock else sq (buf_free p) (ret T_funlock)))"
| "testit_mt_mtx t numio T_funlock =
     sq (MTX_UNLOCK (place ''mt_iobuf_mtx.c'' ''testit_mt_mtx'' 67))
     (bnd (gets weof) (\<lambda>e. if e then ret T_exit else
      bnd (gets werr) (\<lambda>r.
      sq (if r then FATAL (place ''mt_iobuf_mtx.c'' ''testit_mt_mtx'' 71) (''fwrite on our file failed'' @ [nl]) else ret ())
      (ret T_wunlock))))"
| "testit_mt_mtx t numio T_wunlock =
     sq (MTX_UNLOCK (place ''mt_iobuf_mtx.c'' ''testit_mt_mtx'' 73)) (again t numio T_rlock T_exit)"
| "testit_mt_mtx t numio _ = blocked"

text \<open>\<^verbatim>\<open>wrapper_testit_mt_refactored\<close> allocates the buffer before and frees it after \<^verbatim>\<open>testit_mt_refactored\<close>.\<close>

fun testit_mt_refactored :: "nat \<Rightarrow> int \<Rightarrow> tpc \<Rightarrow> (iob, tpc) cprog" where
  "testit_mt_refactored t numio T_start =
     bnd (buf_malloc NREAD) (\<lambda>p.
     sq (modify (\<lambda>s. s\<lparr>iobuf := (iobuf s)(t := p)\<rparr>))
     (sq (if p = NULL then FATAL (place ''mt_iobuf_rfct.c'' ''wrapper_testit_mt_refactored'' 85)
            (''thread #'' @ show_nat t @ '': malloc('' @ show_nat NREAD @ '') failed!'' @ [nl]) else ret ())
     (bnd (gets pagesize) (\<lambda>page.
     bnd (gets (\<lambda>s. shown s p)) (\<lambda>g.
     sq (VPRINT (place ''mt_iobuf_rfct.c'' ''testit_mt_refactored'' 49) (thread_line t numio page @ '' iobuf = '' @ g @ [nl]))
     (enter t numio T_read T_free))))))"
| "testit_mt_refactored t numio T_read =
     bnd (gets (\<lambda>s. iobuf s t)) (\<lambda>p.
     sq (fread t p)
     (sq (read_check (place ''mt_iobuf_rfct.c'' ''testit_mt_refactored'' 56) t)
     (ret T_write)))"
| "testit_mt_refactored t numio T_write =
     bnd (gets (\<lambda>s. iobuf s t)) (\<lambda>p.
     bnd (fwrite t p) (\<lambda>ok.
     if ok then again t numio T_read T_free
     else bnd (gets weof) (\<lambda>e. if e then ret T_free else
       bnd (gets werr) (\<lambda>r.
       sq (if r then sq (buf_free p) (FATAL (place ''mt_iobuf_rfct.c'' ''testit_mt_refactored'' 63) (''fwrite on our file failed'' @ [nl])) else ret ())
       (again t numio T_read T_free)))))"
| "testit_mt_refactored t numio T_free = sq (bnd (gets (\<lambda>s. iobuf s t)) buf_free) (ret T_exit)"
| "testit_mt_refactored t numio _ = blocked"

text \<open>The thread-local array is there as long as its thread; it is never freed.\<close>

fun testit_mt_tls :: "nat \<Rightarrow> int \<Rightarrow> tpc \<Rightarrow> (iob, tpc) cprog" where
  "testit_mt_tls t numio T_start =
     bnd (gets nextp) (\<lambda>p.
     sq (modify (\<lambda>s. s\<lparr>nextp := p + 1, fbuf := (fbuf s)(p \<mapsto> replicate NREAD nul), iobuf := (iobuf s)(t := p)\<rparr>))
     (bnd (gets pagesize) (\<lambda>page.
     bnd (gets (\<lambda>s. shown s p)) (\<lambda>g.
     sq (VPRINT (place ''mt_iobuf_tls.c'' ''testit_mt_tls'' 47) (thread_line t numio page @ '' iobuf = '' @ g @ [nl]))
     (enter t numio T_read T_exit)))))"
| "testit_mt_tls t numio T_read =
     bnd (gets (\<lambda>s. iobuf s t)) (\<lambda>p.
     sq (fread t p)
     (sq (read_check (place ''mt_iobuf_tls.c'' ''testit_mt_tls'' 54) t)
     (ret T_write)))"
| "testit_mt_tls t numio T_write =
     bnd (gets (\<lambda>s. iobuf s t)) (\<lambda>p.
     bnd (fwrite t p) (\<lambda>ok.
     if ok then again t numio T_read T_exit
     else bnd (gets weof) (\<lambda>e. if e then ret T_exit else
       bnd (gets werr) (\<lambda>r.
       sq (if r then FATAL (place ''mt_iobuf_tls.c'' ''testit_mt_tls'' 60) (''fwrite on our file failed'' @ [nl]) else ret ())
       (again t numio T_read T_exit)))))"
| "testit_mt_tls t numio _ = blocked"

text \<open>The process: its two threads move in any order until one ends it.\<close>

definition io_move :: "(nat \<Rightarrow> tpc \<Rightarrow> (iob, tpc) cprog) \<Rightarrow> nat \<Rightarrow> iob \<Rightarrow> iob option" where
  "io_move prog t s =
     (if stopped s \<noteq> None then None else
      case prog t (tpcs s t) s of
        (Return pc, s') \<Rightarrow> Some (s'\<lparr>tpcs := (tpcs s')(t := pc)\<rparr>)
      | (Exited n, s') \<Rightarrow> Some (s'\<lparr>stopped := Some (Exited n)\<rparr>)
      | (Faulted e, s') \<Rightarrow> Some (s'\<lparr>stopped := Some (Faulted e)\<rparr>)
      | (Blocks, _) \<Rightarrow> None)"

inductive io_step :: "(nat \<Rightarrow> tpc \<Rightarrow> (iob, tpc) cprog) \<Rightarrow> iob \<Rightarrow> iob \<Rightarrow> bool" for prog where
  io_step: "t < 2 \<Longrightarrow> io_move prog t s = Some s' \<Longrightarrow> io_step prog s s'"

inductive_cases io_stepE: "io_step prog s s'"

fun io_run :: "(nat \<Rightarrow> tpc \<Rightarrow> (iob, tpc) cprog) \<Rightarrow> nat list \<Rightarrow> iob \<Rightarrow> iob" where
  "io_run prog [] s = s"
| "io_run prog (t # ts) s = io_run prog ts (case io_move prog t s of None \<Rightarrow> s | Some s' \<Rightarrow> s')"

definition io_running :: "(nat \<Rightarrow> tpc \<Rightarrow> (iob, tpc) cprog) \<Rightarrow> nat list \<Rightarrow> (iob, unit) cprog" where
  "io_running prog sched = sq (modify (io_run prog sched))
     (bnd (gets stopped) (\<lambda>e. case e of Some (Exited n) \<Rightarrow> exit_with n | Some (Faulted f) \<Rightarrow> fault f | _ \<Rightarrow> ret ()))"

text \<open>
  One main for the three: what differs is the file, the numbers of the lines with a message, the work of a thread and
  the parts about the global buffer and the mutex. The threads run by \<open>sched 0\<close> after the first is created and by
  \<open>sched 1\<close> after the second; joining a thread that has not ended blocks.
\<close>

datatype io_version = Mtx | Rfct | Tls

fun io_file :: "io_version \<Rightarrow> string" where
  "io_file Mtx = ''mt_iobuf_mtx.c''" | "io_file Rfct = ''mt_iobuf_rfct.c''" | "io_file Tls = ''mt_iobuf_tls.c''"

fun io_thread :: "io_version \<Rightarrow> int \<Rightarrow> nat \<Rightarrow> tpc \<Rightarrow> (iob, tpc) cprog" where
  "io_thread Mtx numio t = testit_mt_mtx t numio"
| "io_thread Rfct numio t = testit_mt_refactored t numio"
| "io_thread Tls numio t = testit_mt_tls t numio"

fun io_lines :: "io_version \<Rightarrow> nat list" where
  "io_lines Mtx = [117, 122, 126, 136, 146, 154, 161]"
| "io_lines Rfct = [0, 122, 126, 136, 146, 154, 0]"
| "io_lines Tls = [0, 111, 115, 125, 135, 143, 0]"

definition io_create :: "io_version \<Rightarrow> int \<Rightarrow> (nat \<Rightarrow> nat list) \<Rightarrow> nat \<Rightarrow> (iob, unit) cprog" where
  "io_create v numio sched t =
     (let p = (\<lambda>k. place (io_file v) ''main'' (io_lines v ! k)) in
      bnd malloc_ok (\<lambda>ok.
      sq (if \<not> ok then sq (FATAL (p 3) (''calloc stToThread['' @ show_nat t @ ''] failed!'' @ [nl])) (fault NullDeref) else ret ())
      (bnd call_ret (\<lambda>r.
      sq (if r \<noteq> 0 then FATAL (p 4) (''pthread_create() failed! ['' @ show_int r @ '']'' @ [nl])
          else modify (\<lambda>s. s\<lparr>tpcs := (tpcs s)(t := T_start)\<rparr>))
      (io_running (io_thread v numio) (sched t))))))"

definition io_join :: "io_version \<Rightarrow> nat \<Rightarrow> (iob, unit) cprog" where
  "io_join v t = bnd (gets (\<lambda>s. tpcs s t)) (\<lambda>pc. if pc \<noteq> T_exit then blocked else
     bnd call_ret (\<lambda>r. if r \<noteq> 0 then WARN (place (io_file v) ''main'' (io_lines v ! 5)) (''pthread_join() failed! ['' @ show_int r @ '']'' @ [nl])
     else printf ('' Thread #'' @ show_nat t @ '' successfully joined; it terminated with status=0'' @ [nl])))"

definition mt_iobuf_main :: "io_version \<Rightarrow> (nat \<Rightarrow> nat list) \<Rightarrow> string list \<Rightarrow> (iob, int) cprog" where
  "mt_iobuf_main v sched argv =
     (let p = (\<lambda>k. place (io_file v) ''main'' (io_lines v ! k)) in
      if length argv \<noteq> 2 then rw_usage (argv ! 0) else
      let numio = atoi (argv ! 1) in
      if numio \<le> 0 then rw_usage (argv ! 0) else
      sq (rw_banner (argv ! 0) numio)
      (sq (if v = Mtx then alloc_gbuf (p 0) else ret ())
      (sq (open_streams (p 1) (p 2))
      (sq (io_create v numio sched 0)
      (sq (io_create v numio sched 1)
      (sq (io_join v 0)
      (sq (io_join v 1)
      (sq (if v = Mtx then bnd call_ret (\<lambda>r. if r \<noteq> 0 then FATAL (p 6) (''pthread_mutex_destroy() failed! ['' @ show_int r @ '']'' @ [nl]) else ret ()) else ret ())
      (sq (fclose rfp)
      (sq (fclose wfp)
      (sq (if v = Mtx then bnd (gets gbuf) buf_free else ret ())
      (exit_with 0))))))))))))"

definition mt_iobuf_mtx_main :: "(nat \<Rightarrow> nat list) \<Rightarrow> string list \<Rightarrow> (iob, int) cprog" where
  "mt_iobuf_mtx_main = mt_iobuf_main Mtx"

definition mt_iobuf_rfct_main :: "(nat \<Rightarrow> nat list) \<Rightarrow> string list \<Rightarrow> (iob, int) cprog" where
  "mt_iobuf_rfct_main = mt_iobuf_main Rfct"

definition mt_iobuf_tls_main :: "(nat \<Rightarrow> nat list) \<Rightarrow> string list \<Rightarrow> (iob, int) cprog" where
  "mt_iobuf_tls_main = mt_iobuf_main Tls"

section \<open>How the calls run when nothing fails\<close>

lemma fread_run:
  "rfp s \<Longrightarrow> blocks s = b # bs \<Longrightarrow> b \<noteq> [] \<Longrightarrow> length b \<le> NREAD \<Longrightarrow> p \<noteq> NULL \<Longrightarrow> fbuf s p = Some c \<Longrightarrow>
   fread t p s = (Return (), s\<lparr>blocks := bs, fnr := (fnr s)(t := length b), fbuf := (fbuf s)(p \<mapsto> b @ drop (length b) c)\<rparr>)"
  by (simp add: fread_def prog_eval store_def)

lemma fwrite_run:
  "wfp s \<Longrightarrow> wouts s = [] \<Longrightarrow> fnr s t \<noteq> 0 \<Longrightarrow> p \<noteq> NULL \<Longrightarrow> fbuf s p = Some c \<Longrightarrow>
   fwrite t p s = (Return True, s\<lparr>wrote := wrote s @ [take (fnr s t) c]\<rparr>)"
  by (simp add: fwrite_def prog_eval deref_def)

section \<open>One thread: iobuf.c copies\<close>

definition rw_ready :: "nat \<Rightarrow> iob \<Rightarrow> bool" where
  "rw_ready k s \<longleftrightarrow> rfp s \<and> wfp s \<and> wouts s = [] \<and> gbuf s \<noteq> NULL \<and> (\<exists>c. fbuf s (gbuf s) = Some c) \<and>
     k \<le> length (blocks s) \<and> (\<forall>b \<in> set (take k (blocks s)). b \<noteq> [] \<and> length b \<le> NREAD)"

lemma testit_loop_copies:
  "rw_ready k s \<Longrightarrow> \<exists>s'. testit_loop at1 at2 k s = (Return (), s') \<and> wrote s' = wrote s @ take k (blocks s) \<and> rw_ready 0 s'"
proof (induction k arbitrary: s)
  case 0
  then show ?case by (simp add: prog_eval)
next
  case (Suc k)
  then obtain b bs c where b: "blocks s = b # bs" "b \<noteq> []" "length b \<le> NREAD" "fbuf s (gbuf s) = Some c" and
    s: "rfp s" "wfp s" "wouts s = []" "gbuf s \<noteq> NULL"
    by (cases "blocks s") (auto simp: rw_ready_def)
  let ?s = "s\<lparr>blocks := bs, fnr := (fnr s)(0 := length b), fbuf := (fbuf s)(gbuf s \<mapsto> b @ drop (length b) c), wrote := wrote s @ [b]\<rparr>"
  have "testit_loop at1 at2 (Suc k) s = testit_loop at1 at2 k ?s"
    using b s by (simp add: prog_eval fread_run [OF s(1) b(1-3) s(4) b(4)] fwrite_run)
  moreover have "rw_ready k ?s" using Suc.prems b s by (auto simp: rw_ready_def)
  ultimately show ?case using Suc.IH [of ?s] b by auto
qed

definition io_fresh :: "iob \<Rightarrow> bool" where
  "io_fresh s \<longleftrightarrow> bmem s = [] \<and> rets s = [] \<and> opens s = [] \<and> wouts s = [] \<and> wrote s = [] \<and> nextp s \<noteq> NULL \<and> stopped s = None \<and> mtx_owner s = None \<and>
     \<not> weof s \<and> \<not> werr s \<and> (\<forall>t. tpcs s t = T_new)"

text \<open>What both kinds of main have done before they start to copy.\<close>

lemma rw_opened:
  assumes "io_fresh s"
  shows "\<exists>s1. (\<forall>rest. sq (rw_banner name numio) (sq (if g then alloc_gbuf l0 else ret ()) (sq (open_streams l1 l2) rest)) s = rest s1) \<and>
    io_fresh s1 \<and> blocks s1 = blocks s \<and> rfp s1 \<and> wfp s1 \<and> (g \<longrightarrow> gbuf s1 \<noteq> NULL \<and> (\<exists>c. fbuf s1 (gbuf s1) = Some c))"
proof -
  let ?l = "[Out (name @ '': using default stdio IO RW buffers of size '' @ show_int (u32 (pagesize s)) @ '' bytes; # IOs='' @ show_int numio @ [nl])]"
  let ?s0 = "if g then s\<lparr>nextp := nextp s + 1, fbuf := (fbuf s)(nextp s \<mapsto> replicate NREAD nul), gbuf := nextp s\<rparr> else s"
  let ?s1 = "?s0\<lparr>bout := bout s @ ?l, opens := [], wfp := True, rfp := True\<rparr>"
  have "sq (rw_banner name numio) (sq (if g then alloc_gbuf l0 else ret ()) (sq (open_streams l1 l2) rest)) s = rest ?s1" for rest :: "(iob, 'b) cprog"
    using assms
    apply (cases g)
     apply (simp_all add: rw_banner_def alloc_gbuf_def open_streams_def buf_malloc_def malloc_ok_def fopen_def io_fresh_def prog_eval run_printf)
     apply (rule arg_cong [where f = rest], simp)+
    done
  moreover have "io_fresh ?s1 \<and> blocks ?s1 = blocks s \<and> rfp ?s1 \<and> wfp ?s1 \<and> (g \<longrightarrow> gbuf ?s1 \<noteq> NULL \<and> (\<exists>c. fbuf ?s1 (gbuf ?s1) = Some c))"
    using assms by (cases g) (auto simp: io_fresh_def)
  ultimately show ?thesis by blast
qed

text \<open>With enough blocks the program leaves with success, and its file holds the first \<open>n\<close> of them.\<close>

lemma iobuf_main_copies:
  assumes "io_fresh s" "atoi arg = int n" "0 < n" "n \<le> length (blocks s)" "\<forall>b \<in> set (blocks s). b \<noteq> [] \<and> length b \<le> NREAD"
  shows "\<exists>s'. iobuf_main [name, arg] s = (Exited EXIT_SUCCESS, s') \<and> wrote s' = take n (blocks s)"
proof -
  let ?p = "place ''iobuf.c'' ''main''"
  obtain s1 where s1: "\<And>rest :: (iob, int) cprog. sq (rw_banner name (int n)) (sq (if True then alloc_gbuf (?p 80) else ret ()) (sq (open_streams (?p 85) (?p 89)) rest)) s = rest s1"
    "io_fresh s1" "blocks s1 = blocks s" "rfp s1" "wfp s1" "gbuf s1 \<noteq> NULL" "\<exists>c. fbuf s1 (gbuf s1) = Some c"
    using rw_opened [OF assms(1), of name "int n" True "?p 80" "?p 85" "?p 89"] by blast
  let ?s2 = "snd (VPRINT (place ''iobuf.c'' ''testit'' 40) (rw_line (int n) (pagesize s1)) s1)"
  have "rw_ready n ?s2" using s1 assms(4,5) by (auto simp: rw_ready_def io_fresh_def run_VPRINT dest: in_set_takeD)
  from testit_loop_copies [OF this, of "place ''iobuf.c'' ''testit'' 46" "place ''iobuf.c'' ''testit'' 53"] obtain s' where
    s': "testit_loop (place ''iobuf.c'' ''testit'' 46) (place ''iobuf.c'' ''testit'' 53) n ?s2 = (Return (), s')" "wrote s' = take n (blocks s)" "rw_ready 0 s'"
    using s1(2,3) by (auto simp: run_VPRINT io_fresh_def)
  have t: "testit (int n) s1 = (Return (), s')" using s'(1) by (simp add: testit_def prog_eval run_VPRINT)
  have "iobuf_main [name, arg] s = sq (testit (int n)) (sq (fclose rfp) (sq (fclose wfp) (sq (bnd (gets gbuf) buf_free) (exit_with EXIT_SUCCESS)))) s1"
    using s1(1) assms(2,3) by (simp add: iobuf_main_def Let_def)
  also have "\<dots> = (Exited EXIT_SUCCESS, s'\<lparr>fbuf := (fbuf s')(gbuf s' := None)\<rparr>)"
    using t s'(3) by (auto simp: prog_eval fclose_def buf_free_def free_def rw_ready_def)
  finally show ?thesis using s'(2) by simp
qed

text \<open>After a write that fails at the end of the stream \<^verbatim>\<open>testit\<close> has freed the buffer, and main frees it again.\<close>

lemma testit_eof_frees:
  assumes "rfp s" "wfp s" "wouts s = W_eof # ws" "blocks s = b # bs" "b \<noteq> []" "length b \<le> NREAD" "gbuf s \<noteq> NULL" "fbuf s (gbuf s) = Some c"
  shows "fst (sq (testit_loop at1 at2 (Suc k)) (sq (fclose rfp) (sq (fclose wfp) (bnd (gets gbuf) buf_free))) s) = Faulted BadFree"
  using assms by (simp add: prog_eval fread_run [OF assms(1,4-8)] fwrite_def deref_def buf_free_def free_def fclose_def)

section \<open>A buffer for each thread\<close>

text \<open>\<open>io_ready\<close>: both threads are created, nothing is written, and there are \<open>2 N\<close> blocks to come.\<close>

definition io_ready :: "nat \<Rightarrow> iob \<Rightarrow> bool" where
  "io_ready N s \<longleftrightarrow> stopped s = None \<and> bmem s = [] \<and> rfp s \<and> wfp s \<and> wouts s = [] \<and> wrote s = [] \<and> nextp s \<noteq> NULL \<and>
     tpcs s 0 = T_start \<and> tpcs s 1 = T_start \<and> (\<forall>b \<in> set (blocks s). b \<noteq> [] \<and> length b \<le> NREAD) \<and> 2 * N \<le> length (blocks s)"

text \<open>
  What the two programs with private buffers have in common: \<open>over\<close> is where the loop of \<open>N\<close> rounds leaves to. The laws
  say what each piece does when nothing fails.
\<close>

locale private_io =
  fixes prog :: "nat \<Rightarrow> tpc \<Rightarrow> (iob, tpc) cprog" and over :: tpc and N :: int
  assumes rounds: "0 < N" and over_law: "over = T_free \<or> over = T_exit"
    and start_law: "bmem s = [] \<Longrightarrow> nextp s \<noteq> NULL \<Longrightarrow> \<exists>l. prog t T_start s =
      (Return T_read, s\<lparr>bout := bout s @ l, nextp := nextp s + 1, fbuf := (fbuf s)(nextp s \<mapsto> replicate NREAD nul),
         iobuf := (iobuf s)(t := nextp s), ti := (ti s)(t := 0)\<rparr>)"
    and read_law: "rfp s \<Longrightarrow> blocks s = b # bs \<Longrightarrow> b \<noteq> [] \<Longrightarrow> length b \<le> NREAD \<Longrightarrow> iobuf s t \<noteq> NULL \<Longrightarrow> fbuf s (iobuf s t) = Some c \<Longrightarrow>
      prog t T_read s = (Return T_write, s\<lparr>blocks := bs, fnr := (fnr s)(t := length b), fbuf := (fbuf s)(iobuf s t \<mapsto> b @ drop (length b) c)\<rparr>)"
    and write_law: "wfp s \<Longrightarrow> wouts s = [] \<Longrightarrow> fnr s t \<noteq> 0 \<Longrightarrow> iobuf s t \<noteq> NULL \<Longrightarrow> fbuf s (iobuf s t) = Some c \<Longrightarrow>
      prog t T_write s = (Return (if ti s t + 1 < N then T_read else over),
         s\<lparr>wrote := wrote s @ [take (fnr s t) c], ti := (ti s)(t := ti s t + 1)\<rparr>)"
    and free_law: "over = T_free \<Longrightarrow> iobuf s t \<noteq> NULL \<Longrightarrow> fbuf s (iobuf s t) = Some c \<Longrightarrow>
      prog t T_free s = (Return T_exit, s\<lparr>fbuf := (fbuf s)(iobuf s t := None)\<rparr>)"
    and exit_law: "prog t T_exit s = (Blocks, s)"
begin

definition held :: "iob \<Rightarrow> nat \<Rightarrow> string list" where
  "held s t = (if tpcs s t = T_write then [take (fnr s t) (the (fbuf s (iobuf s t)))] else [])"

definition reads :: "iob \<Rightarrow> nat \<Rightarrow> int" where
  "reads s t = (case tpcs s t of T_start \<Rightarrow> 0 | T_read \<Rightarrow> ti s t | T_write \<Rightarrow> ti s t + 1 | _ \<Rightarrow> N)"

definition owns :: "iob \<Rightarrow> nat \<Rightarrow> bool" where
  "owns s t \<longleftrightarrow> tpcs s t \<in> {T_read, T_write, T_free}"

definition thread_ok :: "iob \<Rightarrow> nat \<Rightarrow> bool" where
  "thread_ok s t \<longleftrightarrow> tpcs s t \<in> {T_start, T_read, T_write, over, T_exit} \<and>
     (owns s t \<longrightarrow> iobuf s t \<noteq> NULL \<and> iobuf s t < nextp s \<and> fbuf s (iobuf s t) \<noteq> None) \<and>
     (tpcs s t \<in> {T_read, T_write} \<longrightarrow> 0 \<le> ti s t \<and> ti s t < N) \<and> (tpcs s t = T_write \<longrightarrow> fnr s t \<noteq> 0)"

definition env_ok :: "string list \<Rightarrow> iob \<Rightarrow> bool" where
  "env_ok bs0 s \<longleftrightarrow> stopped s = None \<and> bmem s = [] \<and> rfp s \<and> wfp s \<and> wouts s = [] \<and> nextp s \<noteq> NULL \<and>
     (\<forall>b \<in> set bs0. b \<noteq> [] \<and> length b \<le> NREAD) \<and> 2 * N \<le> int (length bs0)"

text \<open>\<open>t\<close> is one thread and \<open>u\<close> the other.\<close>

definition io_inv :: "string list \<Rightarrow> nat \<Rightarrow> nat \<Rightarrow> iob \<Rightarrow> bool" where
  "io_inv bs0 t u s \<longleftrightarrow> t \<noteq> u \<and> env_ok bs0 s \<and> thread_ok s t \<and> thread_ok s u \<and> (owns s t \<longrightarrow> owns s u \<longrightarrow> iobuf s t \<noteq> iobuf s u) \<and>
     (\<exists>used. bs0 = used @ blocks s \<and> mset used = mset (wrote s) + mset (held s t) + mset (held s u) \<and> int (length used) = reads s t + reads s u)"

lemma io_inv_swap: "io_inv bs0 t u s \<Longrightarrow> io_inv bs0 u t s"
  by (auto simp: io_inv_def ac_simps)

lemma io_invE:
  assumes "io_inv bs0 t u s"
  obtains used where "t \<noteq> u" "env_ok bs0 s" "thread_ok s t" "thread_ok s u" "owns s t \<Longrightarrow> owns s u \<Longrightarrow> iobuf s t \<noteq> iobuf s u"
    "bs0 = used @ blocks s" "mset used = mset (wrote s) + mset (held s t) + mset (held s u)" "int (length used) = reads s t + reads s u"
  using assms by (auto simp: io_inv_def)

lemma io_invI:
  assumes "t \<noteq> u" "env_ok bs0 s" "thread_ok s t" "thread_ok s u" "owns s t \<Longrightarrow> owns s u \<Longrightarrow> iobuf s t \<noteq> iobuf s u"
    "bs0 = used @ blocks s" "mset used = mset (wrote s) + mset (held s t) + mset (held s u)" "int (length used) = reads s t + reads s u"
  shows "io_inv bs0 t u s"
  using assms by (auto simp: io_inv_def)

text \<open>A step that leaves alone what belongs to \<open>u\<close>.\<close>

definition spares :: "nat \<Rightarrow> iob \<Rightarrow> iob \<Rightarrow> bool" where
  "spares u s s' \<longleftrightarrow> tpcs s' u = tpcs s u \<and> iobuf s' u = iobuf s u \<and> ti s' u = ti s u \<and> fnr s' u = fnr s u \<and> nextp s \<le> nextp s' \<and>
     (owns s u \<longrightarrow> fbuf s' (iobuf s u) = fbuf s (iobuf s u))"

lemma spares_other:
  assumes "spares u s s'"
  shows "thread_ok s u \<Longrightarrow> thread_ok s' u" "held s' u = held s u" "reads s' u = reads s u" "owns s' u = owns s u"
proof -
  show o: "owns s' u = owns s u" using assms by (simp add: spares_def owns_def)
  show "reads s' u = reads s u" using assms by (simp add: spares_def reads_def split: tpc.split)
  show "held s' u = held s u" using assms by (simp add: spares_def held_def owns_def)
  show "thread_ok s' u" if "thread_ok s u" using that assms o by (auto simp: spares_def thread_ok_def)
qed

lemma ready_inv: "io_ready (nat N) s \<Longrightarrow> io_inv (blocks s) 0 1 s"
  using rounds by (simp add: io_ready_def io_inv_def env_ok_def thread_ok_def owns_def held_def reads_def) linarith

lemma reads_bound: "thread_ok s t \<Longrightarrow> reads s t \<le> N"
  using rounds over_law by (auto simp: thread_ok_def reads_def split: tpc.splits)

text \<open>What a thread in good order does, and that it can always do it.\<close>

lemma next_block:
  assumes "io_inv bs0 t u s" "tpcs s t = T_read"
  obtains b bs where "blocks s = b # bs" "b \<noteq> []" "length b \<le> NREAD"
proof -
  from assms(1) obtain used where u: "bs0 = used @ blocks s" "int (length used) = reads s t + reads s u"
    and ok: "env_ok bs0 s" "thread_ok s t" "thread_ok s u" by (rule io_invE)
  have "reads s t < N" using assms(2) ok(2) by (auto simp: thread_ok_def reads_def)
  with reads_bound [OF ok(3)] have "reads s t + reads s u < 2 * N" by simp
  with u ok(1) have "blocks s \<noteq> []" by (auto simp: env_ok_def)
  then obtain b bs where "blocks s = b # bs" by (cases "blocks s") auto
  moreover with u(1) ok(1) have "b \<noteq> [] \<and> length b \<le> NREAD" by (auto simp: env_ok_def)
  ultimately show ?thesis using that by blast
qed

lemma own_buffer:
  assumes "thread_ok s t" "tpcs s t \<in> {T_read, T_write, T_free}"
  obtains c where "iobuf s t \<noteq> NULL" "iobuf s t < nextp s" "fbuf s (iobuf s t) = Some c" "owns s t"
  using assms by (auto simp: thread_ok_def owns_def)

lemma start_inv:
  assumes i: "io_inv bs0 t u s" and t: "tpcs s t = T_start" and m: "io_move prog t s = Some s'"
  shows "io_inv bs0 t u s'"
  using i
proof (rule io_invE)
  fix used
  assume h: "t \<noteq> u" "env_ok bs0 s" "thread_ok s t" "thread_ok s u" "owns s t \<Longrightarrow> owns s u \<Longrightarrow> iobuf s t \<noteq> iobuf s u"
    "bs0 = used @ blocks s" "mset used = mset (wrote s) + mset (held s t) + mset (held s u)" "int (length used) = reads s t + reads s u"
  have e: "bmem s = []" "nextp s \<noteq> NULL" "stopped s = None" using h(2) by (auto simp: env_ok_def)
  obtain l where "prog t T_start s = (Return T_read, s\<lparr>bout := bout s @ l, nextp := nextp s + 1, fbuf := (fbuf s)(nextp s \<mapsto> replicate NREAD nul),
         iobuf := (iobuf s)(t := nextp s), ti := (ti s)(t := 0)\<rparr>)" using start_law [OF e(1,2), of t] by blast
  with m t e have s': "s' = s\<lparr>bout := bout s @ l, nextp := nextp s + 1, fbuf := (fbuf s)(nextp s \<mapsto> replicate NREAD nul),
         iobuf := (iobuf s)(t := nextp s), ti := (ti s)(t := 0), tpcs := (tpcs s)(t := T_read)\<rparr>" by (simp add: io_move_def)
  have sp: "spares u s s'" using h(1,4) by (auto simp: spares_def s' thread_ok_def)
  show ?thesis
  proof (rule io_invI)
    show "env_ok bs0 s'" using h(2) by (simp add: env_ok_def s')
    show "thread_ok s' t" using rounds e(2) by (simp add: thread_ok_def owns_def s')
    show "thread_ok s' u" using spares_other(1) [OF sp h(4)] .
    show "iobuf s' t \<noteq> iobuf s' u" if "owns s' t" "owns s' u"
      using that h(1,4) spares_other(4) [OF sp] by (auto simp: s' thread_ok_def)
    show "mset used = mset (wrote s') + mset (held s' t) + mset (held s' u)" using h(7) t spares_other(2) [OF sp] by (simp add: s' held_def)
    show "int (length used) = reads s' t + reads s' u" using h(8) t spares_other(3) [OF sp] by (simp add: s' reads_def)
  qed (use h in \<open>simp_all add: s'\<close>)
qed

lemma read_inv:
  assumes i: "io_inv bs0 t u s" and t: "tpcs s t = T_read" and m: "io_move prog t s = Some s'"
  shows "io_inv bs0 t u s'"
  using i
proof (rule io_invE)
  fix used
  assume h: "t \<noteq> u" "env_ok bs0 s" "thread_ok s t" "thread_ok s u" "owns s t \<Longrightarrow> owns s u \<Longrightarrow> iobuf s t \<noteq> iobuf s u"
    "bs0 = used @ blocks s" "mset used = mset (wrote s) + mset (held s t) + mset (held s u)" "int (length used) = reads s t + reads s u"
  obtain b bs where b: "blocks s = b # bs" "b \<noteq> []" "length b \<le> NREAD" using next_block [OF i t] by blast
  obtain c where c: "iobuf s t \<noteq> NULL" "iobuf s t < nextp s" "fbuf s (iobuf s t) = Some c" "owns s t" using own_buffer [OF h(3)] t by auto
  have e: "rfp s" "stopped s = None" using h(2) by (auto simp: env_ok_def)
  have s': "s' = s\<lparr>blocks := bs, fnr := (fnr s)(t := length b), fbuf := (fbuf s)(iobuf s t \<mapsto> b @ drop (length b) c), tpcs := (tpcs s)(t := T_write)\<rparr>"
    using m t e read_law [OF e(1) b c(1,3)] by (simp add: io_move_def)
  have sp: "spares u s s'" using h(1,5) c(4) by (auto simp: spares_def s')
  show ?thesis
  proof (rule io_invI [where used = "used @ [b]"])
    show "env_ok bs0 s'" using h(2) by (simp add: env_ok_def s')
    show "thread_ok s' t" using h(3) t b c by (simp add: thread_ok_def owns_def s')
    show "thread_ok s' u" using spares_other(1) [OF sp h(4)] .
    show "iobuf s' t \<noteq> iobuf s' u" if "owns s' t" "owns s' u" using h(5) c(4) that spares_other(4) [OF sp] by (simp add: s')
    show "mset (used @ [b]) = mset (wrote s') + mset (held s' t) + mset (held s' u)"
      using h(7) t b spares_other(2) [OF sp] by (simp add: s' held_def)
    show "int (length (used @ [b])) = reads s' t + reads s' u" using h(8) t spares_other(3) [OF sp] by (simp add: s' reads_def)
  qed (use h b in \<open>simp_all add: s'\<close>)
qed

lemma write_inv:
  assumes i: "io_inv bs0 t u s" and t: "tpcs s t = T_write" and m: "io_move prog t s = Some s'"
  shows "io_inv bs0 t u s'"
  using i
proof (rule io_invE)
  fix used
  assume h: "t \<noteq> u" "env_ok bs0 s" "thread_ok s t" "thread_ok s u" "owns s t \<Longrightarrow> owns s u \<Longrightarrow> iobuf s t \<noteq> iobuf s u"
    "bs0 = used @ blocks s" "mset used = mset (wrote s) + mset (held s t) + mset (held s u)" "int (length used) = reads s t + reads s u"
  obtain c where c: "iobuf s t \<noteq> NULL" "iobuf s t < nextp s" "fbuf s (iobuf s t) = Some c" "owns s t" using own_buffer [OF h(3)] t by auto
  have e: "wfp s" "wouts s = []" "fnr s t \<noteq> 0" "stopped s = None" using h(2,3) t by (auto simp: env_ok_def thread_ok_def)
  let ?pc = "if ti s t + 1 < N then T_read else over"
  have s': "s' = s\<lparr>wrote := wrote s @ [take (fnr s t) c], ti := (ti s)(t := ti s t + 1), tpcs := (tpcs s)(t := ?pc)\<rparr>"
    using m t e write_law [OF e(1-3) c(1,3)] by (simp add: io_move_def)
  have sp: "spares u s s'" using h(1) by (simp add: spares_def s')
  have ti: "0 \<le> ti s t" "ti s t < N" using h(3) t by (auto simp: thread_ok_def)
  have pc: "?pc \<noteq> T_write" "?pc \<noteq> T_start" using over_law by auto
  show ?thesis
  proof (rule io_invI)
    show "env_ok bs0 s'" using h(2) by (simp add: env_ok_def s')
    show "thread_ok s' t" using ti c over_law by (auto simp: thread_ok_def owns_def s')
    show "thread_ok s' u" using spares_other(1) [OF sp h(4)] .
    show "iobuf s' t \<noteq> iobuf s' u" if "owns s' t" "owns s' u" using h(5) c(4) that spares_other(4) [OF sp] by (simp add: s')
    show "mset used = mset (wrote s') + mset (held s' t) + mset (held s' u)"
      using h(7) t c(3) pc spares_other(2) [OF sp] by (simp add: s' held_def)
    show "int (length used) = reads s' t + reads s' u"
      using h(8) t ti over_law spares_other(3) [OF sp] by (auto simp: s' reads_def)
  qed (use h in \<open>simp_all add: s'\<close>)
qed

lemma free_inv:
  assumes i: "io_inv bs0 t u s" and t: "tpcs s t = T_free" and m: "io_move prog t s = Some s'"
  shows "io_inv bs0 t u s'"
  using i
proof (rule io_invE)
  fix used
  assume h: "t \<noteq> u" "env_ok bs0 s" "thread_ok s t" "thread_ok s u" "owns s t \<Longrightarrow> owns s u \<Longrightarrow> iobuf s t \<noteq> iobuf s u"
    "bs0 = used @ blocks s" "mset used = mset (wrote s) + mset (held s t) + mset (held s u)" "int (length used) = reads s t + reads s u"
  obtain c where c: "iobuf s t \<noteq> NULL" "iobuf s t < nextp s" "fbuf s (iobuf s t) = Some c" "owns s t" using own_buffer [OF h(3)] t by auto
  have o: "over = T_free" using h(3) t by (auto simp: thread_ok_def)
  have e: "stopped s = None" using h(2) by (simp add: env_ok_def)
  have s': "s' = s\<lparr>fbuf := (fbuf s)(iobuf s t := None), tpcs := (tpcs s)(t := T_exit)\<rparr>"
    using m t e free_law [OF o c(1,3)] by (simp add: io_move_def)
  have sp: "spares u s s'" using h(1,5) c(4) by (auto simp: spares_def s')
  show ?thesis
  proof (rule io_invI)
    show "env_ok bs0 s'" using h(2) by (simp add: env_ok_def s')
    show "thread_ok s' t" by (simp add: thread_ok_def owns_def s')
    show "thread_ok s' u" using spares_other(1) [OF sp h(4)] .
    show "iobuf s' t \<noteq> iobuf s' u" if "owns s' t" using that by (simp add: owns_def s')
    show "mset used = mset (wrote s') + mset (held s' t) + mset (held s' u)" using h(7) t spares_other(2) [OF sp] by (simp add: s' held_def)
    show "int (length used) = reads s' t + reads s' u" using h(8) t spares_other(3) [OF sp] by (simp add: s' reads_def)
  qed (use h in \<open>simp_all add: s'\<close>)
qed

text \<open>Any step keeps the invariant, and a thread that has not ended can move.\<close>

lemma move_inv:
  assumes "io_inv bs0 t u s" "io_move prog t s = Some s'"
  shows "io_inv bs0 t u s'"
proof -
  have "thread_ok s t" using assms(1) by (rule io_invE)
  then consider "tpcs s t = T_start" | "tpcs s t = T_read" | "tpcs s t = T_write" | "tpcs s t = T_free" | "tpcs s t = T_exit"
    using over_law by (auto simp: thread_ok_def)
  then show ?thesis
  proof cases
    case 5
    with assms(2) show ?thesis by (auto simp: io_move_def exit_law split: if_splits)
  qed (use assms start_inv read_inv write_inv free_inv in blast)+
qed

lemma step_inv:
  assumes "io_inv bs0 0 1 s" "io_step prog s s'"
  shows "io_inv bs0 0 1 s'"
proof -
  from assms(2) obtain t where t: "t < 2" "io_move prog t s = Some s'" by (rule io_stepE)
  then consider "t = 0" | "t = 1" by linarith
  then show ?thesis
  proof cases
    case 1
    with t assms(1) show ?thesis using move_inv by blast
  next
    case 2
    with t assms(1) show ?thesis using move_inv io_inv_swap by blast
  qed
qed

lemma reach_inv: "(io_step prog)\<^sup>*\<^sup>* s s' \<Longrightarrow> io_inv bs0 0 1 s \<Longrightarrow> io_inv bs0 0 1 s'"
  by (induction rule: rtranclp_induct) (blast intro: step_inv)+

lemma can_move:
  assumes i: "io_inv bs0 t u s" and "tpcs s t \<noteq> T_exit"
  shows "io_move prog t s \<noteq> None"
  using i
proof (rule io_invE)
  fix used
  assume h: "env_ok bs0 s" "thread_ok s t"
  consider "tpcs s t = T_start" | "tpcs s t = T_read" | "tpcs s t = T_write" | "tpcs s t = T_free" "over = T_free"
    using h(2) assms(2) over_law by (auto simp: thread_ok_def)
  then show ?thesis
  proof cases
    case 1
    with h start_law [of s t] show ?thesis by (auto simp: io_move_def env_ok_def)
  next
    case 2
    obtain b bs where "blocks s = b # bs" "b \<noteq> []" "length b \<le> NREAD" using next_block [OF i 2] by blast
    with 2 h read_law [of s b bs t] show ?thesis by (auto simp: io_move_def env_ok_def thread_ok_def owns_def)
  next
    case 3
    with h write_law [of s t] show ?thesis by (auto simp: io_move_def env_ok_def thread_ok_def owns_def)
  next
    case 4
    obtain c where "iobuf s t \<noteq> NULL" "fbuf s (iobuf s t) = Some c" using own_buffer [OF h(2)] 4(1) by auto
    from 4(1) h(1) free_law [OF 4(2) this] show ?thesis by (simp add: io_move_def env_ok_def)
  qed
qed

text \<open>Every move brings its thread nearer to its end.\<close>

definition rank_at :: "tpc \<Rightarrow> int \<Rightarrow> int" where
  "rank_at pc i = (case pc of T_start \<Rightarrow> 2 * N + 2 | T_read \<Rightarrow> 2 * (N - i) + 1 | T_write \<Rightarrow> 2 * (N - i) | T_free \<Rightarrow> 1 | _ \<Rightarrow> 0)"

definition rank :: "iob \<Rightarrow> nat \<Rightarrow> int" where
  "rank s t = rank_at (tpcs s t) (ti s t)"

lemma rank_nonneg: "thread_ok s t \<Longrightarrow> 0 \<le> rank s t"
  using rounds by (auto simp: thread_ok_def rank_def rank_at_def split: tpc.splits)

lemma moved_rank:
  assumes "t \<noteq> u" "tpcs s' = (tpcs s)(t := pc) \<and> ti s' = (ti s)(t := i)" "rank_at pc i < rank_at (tpcs s t) (ti s t)"
  shows "rank s' t < rank s t \<and> rank s' u = rank s u"
  using assms by (simp add: rank_def)

lemma move_rank:
  assumes i: "io_inv bs0 t u s" and m: "io_move prog t s = Some s'"
  shows "rank s' t < rank s t \<and> rank s' u = rank s u"
  using i
proof (rule io_invE)
  fix used
  assume h: "t \<noteq> u" "env_ok bs0 s" "thread_ok s t"
  have e: "stopped s = None" "bmem s = []" "nextp s \<noteq> NULL" "rfp s" "wfp s" "wouts s = []" using h(2) by (auto simp: env_ok_def)
  consider "tpcs s t = T_start" | "tpcs s t = T_read" | "tpcs s t = T_write" | "tpcs s t = T_free" "over = T_free" | "tpcs s t = T_exit"
    using h(3) over_law by (auto simp: thread_ok_def)
  then show ?thesis
  proof cases
    case 1
    with m e start_law [of s t] have "tpcs s' = (tpcs s)(t := T_read) \<and> ti s' = (ti s)(t := 0)" by (auto simp: io_move_def)
    from moved_rank [OF h(1) this] 1 show ?thesis by (simp add: rank_at_def)
  next
    case 2
    obtain b bs where "blocks s = b # bs" "b \<noteq> []" "length b \<le> NREAD" using next_block [OF i 2] by blast
    moreover obtain c where "iobuf s t \<noteq> NULL" "fbuf s (iobuf s t) = Some c" using own_buffer [OF h(3)] 2 by auto
    ultimately have "tpcs s' = (tpcs s)(t := T_write) \<and> ti s' = (ti s)(t := ti s t)" using m e 2 read_law [of s b bs t c] by (auto simp: io_move_def)
    from moved_rank [OF h(1) this] 2 show ?thesis by (simp add: rank_at_def)
  next
    case 3
    obtain c where "iobuf s t \<noteq> NULL" "fbuf s (iobuf s t) = Some c" using own_buffer [OF h(3)] 3 by auto
    moreover have n: "fnr s t \<noteq> 0" "ti s t < N" using h(3) 3 by (auto simp: thread_ok_def)
    ultimately have "tpcs s' = (tpcs s)(t := if ti s t + 1 < N then T_read else over) \<and> ti s' = (ti s)(t := ti s t + 1)"
      using m e 3 write_law [of s t c] by (auto simp: io_move_def)
    from moved_rank [OF h(1) this] 3 n(2) over_law show ?thesis by (auto simp: rank_at_def)
  next
    case 4
    obtain c where "iobuf s t \<noteq> NULL" "fbuf s (iobuf s t) = Some c" using own_buffer [OF h(3)] 4 by auto
    with m e 4 free_law [of s t c] have "tpcs s' = (tpcs s)(t := T_exit) \<and> ti s' = (ti s)(t := ti s t)" by (auto simp: io_move_def)
    from moved_rank [OF h(1) this] 4 show ?thesis by (simp add: rank_at_def)
  next
    case 5
    with m show ?thesis by (auto simp: io_move_def exit_law split: if_splits)
  qed
qed

lemma run_bound: "(io_step prog ^^ k) s s' \<Longrightarrow> io_inv bs0 0 1 s \<Longrightarrow> io_inv bs0 0 1 s' \<and> int k + rank s' 0 + rank s' 1 \<le> rank s 0 + rank s 1"
proof (induction k arbitrary: s')
  case (Suc k)
  then obtain s1 where s1: "(io_step prog ^^ k) s s1" "io_step prog s1 s'" by (auto elim: relpowp_Suc_E)
  with Suc have i: "io_inv bs0 0 1 s1" "int k + rank s1 0 + rank s1 1 \<le> rank s 0 + rank s 1" by blast+
  from s1(2) obtain t where t: "t < 2" "io_move prog t s1 = Some s'" by (rule io_stepE)
  then have "t = 0 \<or> t = 1" by linarith
  then have "rank s' 0 + rank s' 1 < rank s1 0 + rank s1 1"
    using t(2) move_rank [OF i(1)] move_rank [OF io_inv_swap [OF i(1)]] by auto
  with i step_inv [OF i(1) s1(2)] show ?case by auto
qed simp

lemma runs_end:
  assumes "io_ready (nat N) s" "(io_step prog ^^ k) s s'"
  shows "int k \<le> 4 * N + 4 \<and> io_inv (blocks s) 0 1 s'"
proof -
  have i: "io_inv (blocks s) 0 1 s'" "int k + rank s' 0 + rank s' 1 \<le> rank s 0 + rank s 1" using run_bound [OF assms(2) ready_inv [OF assms(1)]] by auto
  have "rank s 0 = 2 * N + 2" "rank s 1 = 2 * N + 2" using assms(1) by (simp_all add: io_ready_def rank_def rank_at_def)
  moreover have "0 \<le> rank s' 0" "0 \<le> rank s' 1" using i(1) rank_nonneg by (auto simp: io_inv_def)
  ultimately show ?thesis using i by auto
qed

text \<open>A run that cannot go on has both threads through, and the file holds the first \<open>2 N\<close> blocks, each once.\<close>

lemma stuck_complete:
  assumes "io_inv bs0 0 1 s" "\<And>s'. \<not> io_step prog s s'"
  shows "stopped s = None \<and> (\<forall>t < 2. tpcs s t = T_exit) \<and> mset (wrote s) = mset (take (nat (2 * N)) bs0)"
proof -
  have m: "io_move prog t s = None" if "t < 2" for t using assms(2) io_step [OF that] by (cases "io_move prog t s") auto
  have x: "tpcs s 0 = T_exit" "tpcs s 1 = T_exit"
    using can_move [OF assms(1)] can_move [OF io_inv_swap [OF assms(1)]] m [of 0] m [of 1] by auto
  from assms(1) obtain used where u: "env_ok bs0 s" "bs0 = used @ blocks s" "mset used = mset (wrote s) + mset (held s 0) + mset (held s 1)"
    "int (length used) = reads s 0 + reads s 1" by (rule io_invE)
  from u(4) x have "length used = nat (2 * N)" by (simp add: reads_def)
  with u(2) have "take (nat (2 * N)) bs0 = used" by simp
  with u x show ?thesis by (auto simp: held_def env_ok_def less_2_cases_iff)
qed

end

section \<open>The two programs with private buffers copy every block\<close>

lemmas io_law = enter_def again_def read_check_def buf_free_def free_def prog_eval fread_run fwrite_run

lemma rfct_start:
  "bmem s = [] \<Longrightarrow> nextp s \<noteq> NULL \<Longrightarrow> 0 < N \<Longrightarrow> \<exists>l. testit_mt_refactored t N T_start s =
      (Return T_read, s\<lparr>bout := bout s @ l, nextp := nextp s + 1, fbuf := (fbuf s)(nextp s \<mapsto> replicate NREAD nul),
         iobuf := (iobuf s)(t := nextp s), ti := (ti s)(t := 0)\<rparr>)"
  by (rule exI [of _ "if gVerbose s then [Out (place ''mt_iobuf_rfct.c'' ''testit_mt_refactored'' 49 @ thread_line t N (pagesize s) @ '' iobuf = '' @ shown s (nextp s) @ [nl])] else []"])
    (simp add: buf_malloc_def malloc_ok_def enter_def prog_eval run_VPRINT)

interpretation rf: private_io "\<lambda>t. testit_mt_refactored t (int (Suc n))" T_free "int (Suc n)" for n
proof
  show "bmem s = [] \<Longrightarrow> nextp s \<noteq> NULL \<Longrightarrow> \<exists>l. testit_mt_refactored t (int (Suc n)) T_start s =
      (Return T_read, s\<lparr>bout := bout s @ l, nextp := nextp s + 1, fbuf := (fbuf s)(nextp s \<mapsto> replicate NREAD nul),
         iobuf := (iobuf s)(t := nextp s), ti := (ti s)(t := 0)\<rparr>)" for s t
    by (rule rfct_start) simp_all
qed (simp_all add: io_law blocked_def)

lemma tls_start:
  "0 < N \<Longrightarrow> \<exists>l. testit_mt_tls t N T_start s =
      (Return T_read, s\<lparr>bout := bout s @ l, nextp := nextp s + 1, fbuf := (fbuf s)(nextp s \<mapsto> replicate NREAD nul),
         iobuf := (iobuf s)(t := nextp s), ti := (ti s)(t := 0)\<rparr>)"
  by (rule exI [of _ "if gVerbose s then [Out (place ''mt_iobuf_tls.c'' ''testit_mt_tls'' 47 @ thread_line t N (pagesize s) @ '' iobuf = '' @ shown s (nextp s) @ [nl])] else []"])
    (simp add: buf_malloc_def malloc_ok_def enter_def prog_eval run_VPRINT)

interpretation tl: private_io "\<lambda>t. testit_mt_tls t (int (Suc n))" T_exit "int (Suc n)" for n
proof
  show "\<exists>l. testit_mt_tls t (int (Suc n)) T_start s =
      (Return T_read, s\<lparr>bout := bout s @ l, nextp := nextp s + 1, fbuf := (fbuf s)(nextp s \<mapsto> replicate NREAD nul),
         iobuf := (iobuf s)(t := nextp s), ti := (ti s)(t := 0)\<rparr>)" for s t
    by (rule tls_start) simp
qed (simp_all add: io_law blocked_def)

text \<open>
  C34. In the two ports with private buffers (\<^verbatim>\<open>mt_iobuf_rfct.c\<close> and \<^verbatim>\<open>mt_iobuf_tls.c\<close>), with \<open>N\<close> rounds for each thread and no failing
  call, however the threads are interleaved: a run has at most 4 N + 4 steps, it cannot stop before both threads are through, the
  process does not end early, and the file then holds each of the 2 N blocks read exactly once.
\<close>

theorem mt_iobuf_private_complete:
  assumes "v \<in> {Rfct, Tls}" "io_ready (Suc n) s" "(io_step (io_thread v (int (Suc n))) ^^ k) s s'"
  shows "k \<le> 4 * Suc n + 4 \<and> ((\<exists>s''. io_step (io_thread v (int (Suc n))) s' s'') \<or>
    stopped s' = None \<and> (\<forall>t < 2. tpcs s' t = T_exit) \<and> mset (wrote s') = mset (take (2 * Suc n) (blocks s)))"
proof -
  have f: "io_thread Rfct (int (Suc n)) = (\<lambda>t. testit_mt_refactored t (int (Suc n)))" "io_thread Tls (int (Suc n)) = (\<lambda>t. testit_mt_tls t (int (Suc n)))"
    by (rule ext, simp)+
  have r: "io_ready (nat (int (Suc n))) s" unfolding nat_int by (rule assms(2))
  have n: "nat (2 * int (Suc n)) = 2 * Suc n" "int k \<le> 4 * int (Suc n) + 4 \<longleftrightarrow> k \<le> 4 * Suc n + 4" by auto
  show ?thesis
  proof (cases "v = Rfct")
    case True
    have "(io_step (\<lambda>t. testit_mt_refactored t (int (Suc n))) ^^ k) s s'" using assms(3) True f(1) by metis
    from rf.runs_end [OF r this] rf.stuck_complete [of n "blocks s" s'] show ?thesis unfolding True f(1) n by blast
  next
    case False
    then have v: "v = Tls" using assms(1) by blast
    have "(io_step (\<lambda>t. testit_mt_tls t (int (Suc n))) ^^ k) s s'" using assms(3) v f(2) by metis
    from tl.runs_end [OF r this] tl.stuck_complete [of n "blocks s" s'] show ?thesis unfolding v f(2) n by blast
  qed
qed

definition iob_boot :: iob where
  "iob_boot = \<lparr>bout = [], berrno = None, bmem = [], gVerbose = True, rets = [], mtx_owner = None, blocks = [''one'', ''two''], wouts = [], wrote = [],
     weof = False, werr = False, opens = [], wfp = True, rfp = True, fbuf = Map.empty, nextp = 1, shown = (\<lambda>_. ''0x1''), pagesize = 4096, gbuf = 0,
     iobuf = (\<lambda>_. 0), fnr = (\<lambda>_. 0), ti = (\<lambda>_. 0), tpcs = (\<lambda>_. T_start), stopped = None\<rparr>"

theorem mt_iobuf_private_complete_witness:
  "io_ready 1 iob_boot \<and> (\<exists>s. io_step (io_thread Rfct 1) iob_boot s) \<and> (\<exists>s. io_step (io_thread Tls 1) iob_boot s)"
proof -
  have r: "io_ready (Suc 0) iob_boot" by (simp add: io_ready_def iob_boot_def NREAD_def)
  have z: "(io_step (io_thread v (int (Suc 0))) ^^ 0) iob_boot iob_boot" for v by simp
  have t: "tpcs iob_boot 0 = T_start" by (simp add: iob_boot_def)
  from mt_iobuf_private_complete [OF _ r z, of Rfct] mt_iobuf_private_complete [OF _ r z, of Tls] t r show ?thesis by auto
qed

section \<open>The shared buffer loses blocks\<close>

text \<open>
  \<^verbatim>\<open>mt_iobuf_mtx.c\<close> gives the mutex back between the read and the write: when the second thread reads in between, the first
  block is gone and the second is written twice.
\<close>

definition mtx_says :: "iob \<Rightarrow> nat \<Rightarrow> int \<Rightarrow> io list" where
  "mtx_says s t numio = (if gVerbose s then [Out (place ''mt_iobuf_mtx.c'' ''testit_mt_mtx'' 49 @ thread_line t numio (pagesize s)),
     Out (place ''mt_iobuf_mtx.c'' ''testit_mt_mtx'' 55 @ '' gbuf = '' @ shown s (gbuf s) @ [nl])] else [])"

lemma mtx_start:
  "stopped s = None \<Longrightarrow> tpcs s t = T_start \<Longrightarrow> io_move (io_thread Mtx 1) t s =
   Some (s\<lparr>bout := bout s @ mtx_says s t 1, ti := (ti s)(t := 0), tpcs := (tpcs s)(t := T_rlock)\<rparr>)"
  by (simp add: io_move_def enter_def prog_eval run_VPRINT mtx_says_def)

lemma mtx_rlock:
  "stopped s = None \<Longrightarrow> tpcs s t = T_rlock \<Longrightarrow> mtx_owner s = None \<Longrightarrow> rets s = [] \<Longrightarrow>
   io_move (io_thread Mtx 1) t s = Some (s\<lparr>mtx_owner := Some t, tpcs := (tpcs s)(t := T_read)\<rparr>)"
  by (simp add: io_move_def prog_eval MTX_LOCK_def run_call_ret)

lemma mtx_read:
  "stopped s = None \<Longrightarrow> tpcs s t = T_read \<Longrightarrow> rfp s \<Longrightarrow> blocks s = b # bs \<Longrightarrow> b \<noteq> [] \<Longrightarrow> length b \<le> NREAD \<Longrightarrow> gbuf s \<noteq> NULL \<Longrightarrow> fbuf s (gbuf s) = Some c \<Longrightarrow>
   io_move (io_thread Mtx 1) t s =
     Some (s\<lparr>blocks := bs, fnr := (fnr s)(t := length b), fbuf := (fbuf s)(gbuf s \<mapsto> b @ drop (length b) c), tpcs := (tpcs s)(t := T_runlock)\<rparr>)"
  by (simp add: io_move_def prog_eval fread_run)

lemma mtx_runlock:
  "stopped s = None \<Longrightarrow> tpcs s t = T_runlock \<Longrightarrow> rets s = [] \<Longrightarrow> fnr s t \<noteq> 0 \<Longrightarrow>
   io_move (io_thread Mtx 1) t s = Some (s\<lparr>mtx_owner := None, tpcs := (tpcs s)(t := T_wlock)\<rparr>)"
  by (simp add: io_move_def prog_eval MTX_UNLOCK_def run_call_ret read_check_def)

lemma mtx_wlock:
  "stopped s = None \<Longrightarrow> tpcs s t = T_wlock \<Longrightarrow> mtx_owner s = None \<Longrightarrow> rets s = [] \<Longrightarrow>
   io_move (io_thread Mtx 1) t s = Some (s\<lparr>mtx_owner := Some t, tpcs := (tpcs s)(t := T_write)\<rparr>)"
  by (simp add: io_move_def prog_eval MTX_LOCK_def run_call_ret)

lemma mtx_write:
  "stopped s = None \<Longrightarrow> tpcs s t = T_write \<Longrightarrow> wfp s \<Longrightarrow> wouts s = [] \<Longrightarrow> fnr s t \<noteq> 0 \<Longrightarrow> gbuf s \<noteq> NULL \<Longrightarrow> fbuf s (gbuf s) = Some c \<Longrightarrow>
   io_move (io_thread Mtx 1) t s = Some (s\<lparr>wrote := wrote s @ [take (fnr s t) c], tpcs := (tpcs s)(t := T_wunlock)\<rparr>)"
  by (simp add: io_move_def prog_eval fwrite_run)

lemma mtx_wunlock:
  "stopped s = None \<Longrightarrow> tpcs s t = T_wunlock \<Longrightarrow> rets s = [] \<Longrightarrow> ti s t = 0 \<Longrightarrow>
   io_move (io_thread Mtx 1) t s = Some (s\<lparr>mtx_owner := None, ti := (ti s)(t := 1), tpcs := (tpcs s)(t := T_exit)\<rparr>)"
  by (simp add: io_move_def prog_eval MTX_UNLOCK_def run_call_ret again_def)

lemmas mtx_moves = mtx_start mtx_rlock mtx_read mtx_runlock mtx_wlock mtx_write mtx_wunlock

lemma mt_iobuf_mtx_loses:
  assumes "io_ready 1 s" "blocks s = b1 # b2 # bs" "length b2 = length b1" "rets s = []" "mtx_owner s = None" "gbuf s \<noteq> NULL" "fbuf s (gbuf s) = Some c"
  shows "wrote (io_run (io_thread Mtx 1) ([0, 0, 0, 0] @ [1, 1, 1, 1] @ [0, 0, 0] @ [1, 1, 1]) s) = [b2, b2]"
proof -
  have b: "b1 \<noteq> []" "length b1 \<le> NREAD" "b2 \<noteq> []" "length b2 \<le> NREAD" "length b1 \<le> length (b2 :: string)" using assms by (auto simp: io_ready_def)
  show ?thesis
    using assms b
    by (simp add: io_ready_def mtx_moves del: io_thread.simps)
qed

end
