(* ===== verification/Timers.thy ===== *)
theory Timers
  imports Book_Common
begin

text \<open>
  The programs of chapter 13 that are driven by POSIX timers: the reaction game \<^verbatim>\<open>src/booksrc/ch13/react.c\<close> and the
  interval trainer \<^verbatim>\<open>src/booksrc/ch13/runwalk_timer.c\<close>. Both wait for signals; the signals are the argument of main,
  in the order in which they arrive, and a program whose signals are used up waits for ever (\<open>Blocks\<close>). \<open>sys_ok\<close> says
  which of the coming system calls succeed (all, once used up). The signal handlers are functions on the program's state.
\<close>

section \<open>State\<close>

record timed = bk +
  sys_ok :: "bool list"

definition sys_call :: "('x timed_scheme, bool) cprog" where
  "sys_call = (\<lambda>s. case sys_ok s of [] \<Rightarrow> (Return True, s) | b # bs \<Rightarrow> (Return b, s\<lparr>sys_ok := bs\<rparr>))"

definition sys_or_fatal :: "string \<Rightarrow> string \<Rightarrow> ('x timed_scheme, unit) cprog" where
  "sys_or_fatal loc msg = bnd sys_call (\<lambda>ok. if ok then ret () else FATAL loc msg)"

text \<open>\<open>clocks\<close>: what the coming calls of \<^verbatim>\<open>clock_gettime\<close> give; a failing one leaves the variable as it was.\<close>

record react = timed +
  freq_ms :: int
  itv :: "timespec \<times> timespec"
  gTimerRepeats :: bool
  c_count :: int
  first_time :: bool
  jumped_the_gun :: bool
  tm_start :: timespec
  tm_end :: timespec
  clocks :: "timespec option list"
  overruns :: "int list"
  alarm_set :: nat
  armed :: "(timespec \<times> timespec) list"
  sigmask :: "(nat \<Rightarrow> bool) option"

type_synonym 'a reprog = "(react, 'a) cprog"

definition rloc :: "string \<Rightarrow> nat \<Rightarrow> string" where
  "rloc = place ''react.c''"

definition clock_gettime :: "timespec option reprog" where
  "clock_gettime = (\<lambda>s. case clocks s of [] \<Rightarrow> (Return None, s) | t # ts \<Rightarrow> (Return t, s\<lparr>clocks := ts\<rparr>))"

definition timer_getoverrun :: "int reprog" where
  "timer_getoverrun = (\<lambda>s. case overruns s of [] \<Rightarrow> (Return 0, s) | v # vs \<Rightarrow> (Return v, s\<lparr>overruns := vs\<rparr>))"

section \<open>react.c\<close>

definition timer_handler :: "unit reprog" where
  "timer_handler =
     sq (modify (\<lambda>s. s\<lparr>c_count := c_count s + 1\<rparr>))
     (bnd (gets gVerbose) (\<lambda>v.
     if v then
       sq (eprintf ''.'')
       (bnd timer_getoverrun (\<lambda>ovrun.
       if ovrun = -1 then WARN (rloc ''timer_handler'' 83) ''timer_getoverrun''
       else if ovrun \<noteq> 0 then bnd (gets c_count) (\<lambda>c.
         printf (''    overrun='' @ show_int ovrun @ '' [@count='' @ show_int c @ '']'' @ [nl]))
       else ret ()))
     else ret ()))"

text \<open>\<^verbatim>\<open>round\<close> of the quotient, for a number of nanoseconds that is not negative.\<close>

definition round_ms :: "int \<Rightarrow> int" where
  "round_ms nsec = (nsec + 500000) div 1000000"

definition reaction_line :: "timespec \<Rightarrow> int \<Rightarrow> string" where
  "reaction_line d c = '' Your reaction time is precisely '' @ show_int (fst d) @ ''.'' @ show_int (snd d) @ '' s.ns  [~= '' @
     pad (CHR '' '') 3 (show_int (fst d * 1000 + round_ms (snd d))) @ '' ms, count='' @ show_int c @ '']'' @ [nl]"

definition userpress :: "unit reprog" where
  "userpress =
     bnd clock_gettime (\<lambda>t.
     sq (case t of None \<Rightarrow> FATAL (rloc ''userpress'' 108) (''clock_gettime (tm_end) failed'' @ [nl])
         | Some t \<Rightarrow> modify (\<lambda>s. s\<lparr>tm_end := t\<rparr>))
     (bnd (gets jumped_the_gun) (\<lambda>j.
     sq (if j then sq (printf ([nl] @ '':-/ Whoops, you jumped the gun! Unfair, aborting.'' @ [nl])) (exit_with EXIT_FAILURE) else ret ())
     (bnd (gets (\<lambda>s. (first_time s, c_count s, tm_end s, tm_start s))) (\<lambda>(f, c, te, ts).
     sq (if f then
           sq (if c = 0 then printf ([nl] @ ''***** WOW! ***** Perfect reaction, well done.'' @ [nl])
               else sq (printf ([nl] @ ''*** PRESSED ***'' @ [nl])) (printf (reaction_line (timerspecsub te ts) c)))
           (modify (\<lambda>s. s\<lparr>first_time := False\<rparr>))
         else printf ([nl] @ '' ^C pressed [count='' @ show_int c @ '']'' @ [nl]))
     (sq (modify (\<lambda>s. s\<lparr>c_count := 0\<rparr>))
     (bnd (gets gTimerRepeats) (\<lambda>r. if \<not> r then exit_with EXIT_SUCCESS else ret ()))))))))"

definition arm_timer :: "unit reprog" where
  "arm_timer =
     sq (VPRINT (rloc ''arm_timer'' 146) (''Arming timer now'' @ [nl]))
     (bnd sys_call (\<lambda>ok.
     sq (if ok then modify (\<lambda>s. s\<lparr>armed := armed s @ [itv s]\<rparr>) else FATAL (rloc ''arm_timer'' 148) (''timer_settime failed'' @ [nl]))
     (modify (\<lambda>s. s\<lparr>jumped_the_gun := False\<rparr>))))"

definition startoff :: "unit reprog" where
  "startoff =
     sq arm_timer
     (sq (eprintf ([nl] @ ''*** QUICK! Press ^C !!! ***'' @ [nl]))
     (bnd clock_gettime (\<lambda>t.
     case t of None \<Rightarrow> FATAL (rloc ''startoff'' 167) (''clock_gettime (tm_start) failed'' @ [nl])
     | Some t \<Rightarrow> modify (\<lambda>s. s\<lparr>tm_start := t\<rparr>))))"

definition show_tmval :: "timespec \<times> timespec \<Rightarrow> unit reprog" where
  "show_tmval v = printf (''timer struct ::'' @ [nl] @ '' it_value.tv_sec = '' @ show_int (fst (fst v)) @ '' it_value.tv_nsec = '' @ show_int (snd (fst v)) @ [nl] @
     '' it_interval.tv_sec = '' @ show_int (fst (snd v)) @ '' it_interval.tv_nsec = '' @ show_int (snd (snd v)) @ [nl])"

definition react_init :: "int reprog" where
  "react_init =
     sq (sys_or_fatal (rloc ''init'' 190) (''sigaction SIGRTMIN failed'' @ [nl]))
     (sq (sys_or_fatal (rloc ''init'' 197) (''sigaction SIGINT failed'' @ [nl]))
     (sq (sys_or_fatal (rloc ''init'' 204) (''sigaction SIGALRM failed'' @ [nl]))
     (sq (sys_or_fatal (rloc ''init'' 211) (''timer_create failed'' @ [nl]))
     (bnd (gets freq_ms) (\<lambda>f.
     sq (printf (''Initializing timer to generate SIGRTMIN every '' @ show_int f @ '' ms'' @ [nl]))
     (let t = (i64 (f * 1000000) sdiv 1000000000, i64 (f * 1000000) smod 1000000000) in
     sq (modify (\<lambda>s. s\<lparr>itv := (t, t)\<rparr>))
     (sq (bnd (gets gVerbose) (\<lambda>v. if v then
            sq (show_tmval (t, t))
            (bnd (bnd (gets sigmask) show_blocked_signals) (\<lambda>r.
            if r < 0 then WARN (rloc ''init'' 224) (''sigprocmask -query- failed'' @ [nl]) else ret ()))
          else ret ()))
     (bnd sys_call (\<lambda>ok.
     sq (if ok then ret () else WARN (rloc ''init'' 233) (''prlimit:core to zero failed'' @ [nl]))
     (ret 0))))))))))"

text \<open>\<open>r\<close> is what \<^verbatim>\<open>random()\<close> gives.\<close>

definition random_start :: "nat \<Rightarrow> nat \<Rightarrow> nat \<Rightarrow> unit reprog" where
  "random_start r mn mx = sq (modify (\<lambda>s. s\<lparr>alarm_set := 0\<rparr>)) (modify (\<lambda>s. s\<lparr>alarm_set := r mod mx + mn\<rparr>))"

definition react_help :: "string \<Rightarrow> unit reprog" where
  "react_help name = eprintf (''Usage: '' @ name @ '' <freq-in-millisec> [verbose-mode:[0]|1]'' @ [nl] @
     ''  default: verbosity is off'' @ [nl] @
     ''  f.e.: '' @ name @ '' 100   => timeout every 100 ms, verbosity Off'' @ [nl] @
     ''      : '' @ name @ ''   5 1 => timeout every   5 ms, verbosity On'' @ [nl] @
     [nl] @ ''How fast can you react!?'' @ [nl] @
     ''Once you run this app with the freq-in-millisec parameter,'' @ [nl] @
     ''we shall start a timer anywhere between '' @ show_nat 1 @ '' and '' @ show_nat 5 @ '' seconds of'' @ [nl] @
     ''your starting it. Watch the screen carefully; the moment'' @ [nl] @
     ''the message \"QUICK! Press ^C\" appears, press ^C (Ctrl+c simultaneously)!'' @ [nl] @
     ''Your reaction time is displayed... Have fun!'' @ [nl])"

datatype react_signal = Sigrtmin | Sigalrm | Sigint

fun handle :: "react_signal \<Rightarrow> unit reprog" where
  "handle Sigrtmin = timer_handler"
| "handle Sigalrm = startoff"
| "handle Sigint = userpress"

fun react_loop :: "react_signal list \<Rightarrow> unit reprog" where
  "react_loop [] = (\<lambda>s. (Blocks, s))"
| "react_loop (e # es) = sq (handle e) (react_loop es)"

definition react_main :: "nat \<Rightarrow> react_signal list \<Rightarrow> string list \<Rightarrow> unit reprog" where
  "react_main r es argv =
     (if length argv < 2 then sq (react_help (argv ! 0)) (exit_with EXIT_FAILURE) else
      sq (if length argv = 3 \<and> atoi (argv ! 2) = 1 then modify (\<lambda>s. s\<lparr>gVerbose := True\<rparr>) else ret ())
      (sq (modify (\<lambda>s. s\<lparr>freq_ms := fst (strtol10 (argv ! 1))\<rparr>))
      (bnd (gets freq_ms) (\<lambda>f.
      if f < 1 then sq (react_help (argv ! 0)) (exit_with EXIT_FAILURE) else
      sq react_init
      (bnd (gets gVerbose) (\<lambda>v.
      sq (printf (''[Verbose: '' @ (if v then ''Y'' else ''N'') @ '']'' @ [nl] @ ''We shall start a timer anytime between '' @
            show_nat 1 @ '' and '' @ show_nat 5 @ '' seconds from now...'' @ [nl]))
      (sq (printf ([nl] @ ''GET READY ...'' @ [nl] @ '' [ when the \"QUICK! Press ^C\" message appears, press ^C quickly as you can ]'' @ [nl]))
      (sq (random_start r 1 5)
      (react_loop es)))))))))"

section \<open>runwalk\_timer.c\<close>

datatype phase = RUN | WALK

text \<open>
  \<open>itmr\<close> is the value \<^verbatim>\<open>itmrspec\<close> points to, in seconds; \<open>settimes\<close> the values the timer was armed with; \<open>remaining\<close>
  what the coming calls of \<^verbatim>\<open>timer_gettime\<close> give; \<open>ptr\<close> the printed form of the context's address.
\<close>

record runwalk = timed +
  verbosity :: int
  trun :: int
  twalk :: int
  rw_type :: phase
  itmr :: int
  settimes :: "int list"
  remaining :: "timespec list"
  rw_overrun :: int
  ptr :: string

type_synonym 'a rwprog = "(runwalk, 'a) cprog"

definition wloc :: "string \<Rightarrow> nat \<Rightarrow> string" where
  "wloc = place ''runwalk_timer.c''"

definition BUZZ :: "string \<Rightarrow> unit rwprog" where
  "BUZZ msg = eprintf ([nl] @ ''*** Bzzzz!!! '' @ msg @ '' ***'')"

definition timer_settime :: "bool rwprog" where
  "timer_settime = bnd sys_call (\<lambda>ok. sq (if ok then modify (\<lambda>s. s\<lparr>settimes := settimes s @ [itmr s]\<rparr>) else ret ()) (ret ok))"

definition pad4 :: "int \<Rightarrow> string" where "pad4 x = pad (CHR '' '') 4 (show_int x)"

definition its_time :: "int \<Rightarrow> unit rwprog" where
  "its_time signum =
     bnd (gets (\<lambda>s. s)) (\<lambda>s.
     sq (if verbosity s = 2 then
           printf (''its_time: signal '' @ show_int signum @ ''. runwalk ptr: '' @ ptr s @ '' Type: '' @
             (if rw_type s = WALK then ''Walk'' else ''Run'') @ ''. Overrun: '' @ show_int (rw_overrun s) @ [nl])
         else ret ())
     (sq (modify (\<lambda>s. s\<lparr>itmr := 0\<rparr>))
     (sq (if rw_type s = WALK then
            sq (BUZZ ''  RUN!'') (sq (modify (\<lambda>s. s\<lparr>itmr := trun s\<rparr>)) (printf (''       for '' @ pad4 (trun s) @ ''  seconds'' @ [nl])))
          else
            sq (BUZZ '' WALK!'') (sq (modify (\<lambda>s. s\<lparr>itmr := twalk s\<rparr>)) (printf (''       for '' @ pad4 (twalk s) @ ''  seconds'' @ [nl]))))
     (sq (modify (\<lambda>s. s\<lparr>rw_type := (if rw_type s = WALK then RUN else WALK)\<rparr>))
     (bnd timer_settime (\<lambda>ok. if ok then ret () else FATAL (wloc ''its_time'' 121) ''timer_settime failed''))))))"

definition runwalk_timer_init_and_arm :: "unit rwprog" where
  "runwalk_timer_init_and_arm =
     sq (sys_or_fatal (wloc ''runwalk_timer_init_and_arm'' 139) ''sigaction: SIGRTMIN'')
     (sq (modify (\<lambda>s. s\<lparr>itmr := 0\<rparr>))
     (sq (modify (\<lambda>s. s\<lparr>rw_type := RUN\<rparr>))
     (sq (modify (\<lambda>s. s\<lparr>itmr := trun s\<rparr>))
     (sq (sys_or_fatal (wloc ''runwalk_timer_init_and_arm'' 157) ''timer_create'')
     (bnd timer_settime (\<lambda>ok. if ok then ret () else FATAL (wloc ''runwalk_timer_init_and_arm'' 161) ''timer_settime failed''))))))"

definition bye :: "unit rwprog" where
  "bye = sq (printf ([nl] @ ''+++ Good job, bye! +++'' @ [nl])) (exit_with EXIT_SUCCESS)"

definition help_and_die :: "string list \<Rightarrow> unit rwprog" where
  "help_and_die argv =
     sq (eprintf (''Usage: '' @ argv ! 0 @ '' Run-for[sec] Walk-for[sec] [verbosity-level=0|[1]|2]'' @ [nl] @
          '' Verbosity Level ::  0 = OFF   [1 = LOW]   2 = HIGH'' @ [nl]))
     (exit_with EXIT_FAILURE)"

text \<open>\<^verbatim>\<open>strtoul(s, 0, 0)\<close>: the base from the prefix, the value in 64 bits, and whether it was out of range.\<close>

definition hexval :: "char \<Rightarrow> nat option" where
  "hexval ch = (let n = of_char ch in
     if 48 \<le> n \<and> n \<le> 57 then Some (n - 48) else if 97 \<le> n \<and> n \<le> 102 then Some (n - 87)
     else if 65 \<le> n \<and> n \<le> 70 then Some (n - 55) else None)"

fun base_val :: "nat \<Rightarrow> nat \<Rightarrow> string \<Rightarrow> nat" where
  "base_val b acc [] = acc"
| "base_val b acc (ch # cs) = (case hexval ch of None \<Rightarrow> acc | Some d \<Rightarrow> if d < b then base_val b (b * acc + d) cs else acc)"

definition strtoul0 :: "string \<Rightarrow> nat \<times> bool" where
  "strtoul0 s =
     (let (neg, r) = split_sign (dropWhile isspace s);
          hex = (length r \<ge> 3 \<and> r ! 0 = CHR ''0'' \<and> (r ! 1 = CHR ''x'' \<or> r ! 1 = CHR ''X'') \<and> hexval (r ! 2) \<noteq> None);
          v = (if hex then base_val 16 0 (drop 2 r)
               else if r \<noteq> [] \<and> r ! 0 = CHR ''0'' then base_val 8 0 r else base_val 10 0 r)
      in if v \<ge> 2 ^ 64 then (2 ^ 64 - 1, True)
         else (if neg \<and> v \<noteq> 0 then 2 ^ 64 - v else v, False))"

text \<open>What ends a sleep or a pause: the timer's signal, the second elapsed, or SIGINT.\<close>

datatype rw_event = Expire | Elapsed | Interrupt

definition timer_gettime :: "timespec rwprog" where
  "timer_gettime = (\<lambda>s. case remaining s of [] \<Rightarrow> (Return (0, 0), s) | t # ts \<Rightarrow> (Return t, s\<lparr>remaining := ts\<rparr>))"

fun rw_loop :: "rw_event list \<Rightarrow> unit rwprog" where
  "rw_loop [] = (\<lambda>s. (Blocks, s))"
| "rw_loop (e # es) =
     bnd (gets verbosity) (\<lambda>v.
     sq (if v = 2 then
           bnd sys_call (\<lambda>ok.
           sq (if ok then ret () else FATAL (wloc ''main'' 232) ''timer_gettime failed'')
           (bnd timer_gettime (\<lambda>t. printf (''runwalk: '' @ pad4 (fst t) @ ''.'' @ show_int (snd t sdiv 1000000) @ ''s'' @ [nl]))))
         else if v = 1 then printf ''.''
         else ret ())
     (sq (case e of Expire \<Rightarrow> its_time 34 | Elapsed \<Rightarrow> ret () | Interrupt \<Rightarrow> bye)
     (rw_loop es)))"

definition parse_seconds :: "nat \<Rightarrow> string \<Rightarrow> int rwprog" where
  "parse_seconds line a =
     (let (v, erange) = strtoul0 a in
      sq (if erange then FATAL (wloc ''main'' line) (''Invalid input [strtoul]'' @ [nl]) else ret ())
      (ret (i32 (int v))))"

definition runwalk_main :: "rw_event list \<Rightarrow> string list \<Rightarrow> unit rwprog" where
  "runwalk_main es argv =
     sq (if length argv < 3 then help_and_die argv else ret ())
     (sq (if length argv = 4 then
            sq (modify (\<lambda>s. s\<lparr>verbosity := atoi (argv ! 3)\<rparr>))
            (bnd (gets verbosity) (\<lambda>v. if v < 0 \<or> v > 2 then help_and_die argv else ret ()))
          else ret ())
     (sq (sys_or_fatal (wloc ''main'' 198) ''sigaction: SIGINT'')
     (bnd (parse_seconds 205 (argv ! 1)) (\<lambda>r.
     bnd (parse_seconds 210 (argv ! 2)) (\<lambda>w.
     sq (modify (\<lambda>s. s\<lparr>trun := r, twalk := w\<rparr>))
     (sq (if r \<le> 0 \<or> w \<le> 0 then help_and_die argv else ret ())
     (sq (printf (''************* Run Walk Timer *************'' @ [nl] @ ''                  Ver 1.0'' @ [nl]))
     (bnd malloc_ok (\<lambda>ok.
     sq (if ok then ret () else FATAL (wloc ''main'' 220) ''calloc failed'')
     (if \<not> ok then fault NullDeref else
     sq (printf ([nl] @ ''Get moving... Run for '' @ show_int r @ '' seconds'' @ [nl]))
     (bnd (gets (\<lambda>s. s)) (\<lambda>s.
     sq (if verbosity s = 2 then printf (''trun='' @ pad4 r @ '' twalk='' @ pad4 w @ ''; app ctx ptr = '' @ ptr s @ [nl]) else ret ())
     (sq runwalk_timer_init_and_arm
     (rw_loop es))))))))))))))"

section \<open>The measured time\<close>

definition ns :: "timespec \<Rightarrow> int" where
  "ns t = fst t * 1000000000 + snd t"

definition normal :: "timespec \<Rightarrow> bool" where
  "normal t \<longleftrightarrow> 0 \<le> snd t \<and> snd t < 1000000000"

lemma timerspecsub_exact:
  assumes "normal a" "normal b"
  shows "ns (timerspecsub a b) = ns a - ns b \<and> normal (timerspecsub a b)"
  using assms by (auto simp: timerspecsub_def ns_def normal_def Let_def)

lemma ticks_run:
  "\<not> gVerbose s \<Longrightarrow> react_loop (replicate n Sigrtmin @ es) s = react_loop es (s\<lparr>c_count := c_count s + int n\<rparr>)"
  by (induction n arbitrary: s) (simp_all add: timer_handler_def prog_simps algebra_simps)


definition react0 :: react where
  "react0 = \<lparr>bout = [], berrno = None, bmem = [], gVerbose = False, sys_ok = [], freq_ms = 5, itv = ((0, 5000000), (0, 5000000)),
     gTimerRepeats = False, c_count = 0, first_time = True, jumped_the_gun = True, tm_start = (0, 0), tm_end = (0, 0),
     clocks = [Some (7, 900000000), Some (8, 100000000)], overruns = [], alarm_set = 0, armed = [], sigmask = None\<rparr>"


text \<open>The start comes between 1 and 5 seconds after the program.\<close>

lemma random_start_range: "alarm_set (snd (random_start r 1 5 s)) \<in> {1..5}"
  by (simp add: random_start_def prog_simps)

section \<open>Run and walk in turn\<close>

definition turn :: "runwalk \<Rightarrow> nat \<Rightarrow> int" where
  "turn s k = (if even k then trun s else twalk s)"

text \<open>After \<open>n\<close> expiries the timer was armed \<open>n + 1\<close> times, with the running and the walking time in turn.\<close>

definition in_turn :: "runwalk \<Rightarrow> int list \<Rightarrow> nat \<Rightarrow> runwalk \<Rightarrow> bool" where
  "in_turn s0 old n s \<longleftrightarrow> sys_ok s = [] \<and> trun s = trun s0 \<and> twalk s = twalk s0 \<and>
     rw_type s = (if even n then RUN else WALK) \<and> settimes s = old @ map (turn s0) [0..<Suc n]"

lemma expire_in_turn:
  assumes "in_turn s0 old n s"
  shows "\<exists>s'. its_time 34 s = (Return (), s') \<and> in_turn s0 old (Suc n) s'"
  using assms unfolding its_time_def
  by (cases "verbosity s = 2"; cases "even n")
    (auto simp: in_turn_def prog_simps BUZZ_def timer_settime_def sys_call_def turn_def)

lemma gettime_run: "\<exists>t. timer_gettime s = (Return t, s\<lparr>remaining := tl (remaining s)\<rparr>)"
  by (cases "remaining s") (auto simp: timer_gettime_def)

lemma report_in_turn:
  assumes "in_turn s0 old n s"
  shows "\<exists>s'. rw_loop (e # es) s = sq (case e of Expire \<Rightarrow> its_time 34 | Elapsed \<Rightarrow> ret () | Interrupt \<Rightarrow> bye) (rw_loop es) s' \<and> in_turn s0 old n s'"
proof -
  have sc: "sys_call s = (Return True, s)" using assms by (simp add: in_turn_def sys_call_def)
  consider "verbosity s = 2" | "verbosity s = 1" | "verbosity s \<noteq> 2" "verbosity s \<noteq> 1" by blast
  then show ?thesis
  proof cases
    case 1
    obtain t where g: "timer_gettime s = (Return t, s\<lparr>remaining := tl (remaining s)\<rparr>)" using gettime_run by blast
    let ?s = "s\<lparr>remaining := tl (remaining s), bout := bout s @ [Out (''runwalk: '' @ pad4 (fst t) @ ''.'' @ show_int (snd t sdiv 1000000) @ ''s'' @ [nl])]\<rparr>"
    have "rw_loop (e # es) s = sq (case e of Expire \<Rightarrow> its_time 34 | Elapsed \<Rightarrow> ret () | Interrupt \<Rightarrow> bye) (rw_loop es) ?s"
      using 1 sc g by (simp add: run_bnd_Return run_gets run_ret run_printf)
    moreover have "in_turn s0 old n ?s" using assms by (simp add: in_turn_def)
    ultimately show ?thesis by blast
  next
    case 2
    with assms show ?thesis by (intro exI [of _ "s\<lparr>bout := bout s @ [Out ''.'']\<rparr>"]) (simp add: run_bnd_Return run_gets run_printf in_turn_def)
  next
    case 3
    with assms show ?thesis by (intro exI [of _ s]) (simp add: run_bnd_Return run_gets run_ret)
  qed
qed

lemma loop_in_turn:
  "in_turn s0 old n s \<Longrightarrow> Interrupt \<notin> set es \<Longrightarrow>
   \<exists>s'. rw_loop (es @ [Interrupt]) s = (Exited EXIT_SUCCESS, s') \<and> in_turn s0 old (n + count_list es Expire) s'"
proof (induction es arbitrary: n s)
  case Nil
  from report_in_turn [OF Nil.prems(1), of Interrupt "[]"] obtain s' where
    "rw_loop [Interrupt] s = sq bye (rw_loop []) s'" "in_turn s0 old n s'" by auto
  then show ?case by (simp add: bye_def prog_simps in_turn_def del: rw_loop.simps)
next
  case (Cons e es)
  from report_in_turn [OF Cons.prems(1), of e "es @ [Interrupt]"] obtain s1 where
    r: "rw_loop ((e # es) @ [Interrupt]) s = sq (case e of Expire \<Rightarrow> its_time 34 | Elapsed \<Rightarrow> ret () | Interrupt \<Rightarrow> bye) (rw_loop (es @ [Interrupt])) s1"
      "in_turn s0 old n s1" by auto
  show ?case
  proof (cases e)
    case Expire
    from expire_in_turn [OF r(2)] obtain s2 where "its_time 34 s1 = (Return (), s2)" "in_turn s0 old (Suc n) s2" by blast
    with Cons.IH [OF this(2)] Cons.prems(2) r(1) Expire show ?thesis by (simp add: run_bnd_Return del: rw_loop.simps)
  next
    case Elapsed
    with Cons.IH [OF r(2)] Cons.prems(2) r(1) show ?thesis by (simp add: run_bnd_Return run_ret del: rw_loop.simps)
  qed (use Cons.prems(2) in simp)
qed

text \<open>
  C40. The interval trainer, from its set-up until the user stops it, arms its timer with the running time first and then with
  the walking and the running time in turn, once per expiry, whatever else wakes it; SIGINT ends it with status 0.
\<close>

theorem runwalk_alternates:
  assumes "sys_ok s = []" and "Interrupt \<notin> set es"
  shows "\<exists>s'. sq runwalk_timer_init_and_arm (rw_loop (es @ [Interrupt])) s = (Exited EXIT_SUCCESS, s') \<and>
    settimes s' = settimes s @ map (\<lambda>k. if even k then trun s else twalk s) [0..<Suc (count_list es Expire)]"
proof -
  obtain s1 where i: "runwalk_timer_init_and_arm s = (Return (), s1)" and "in_turn s (settimes s) 0 s1"
    using assms(1) by (simp add: runwalk_timer_init_and_arm_def sys_or_fatal_def sys_call_def timer_settime_def prog_simps in_turn_def turn_def)
  from loop_in_turn [OF this(2) assms(2)] obtain s2 where
    "rw_loop (es @ [Interrupt]) s1 = (Exited EXIT_SUCCESS, s2)" "in_turn s (settimes s) (0 + count_list es Expire) s2" by blast
  with i show ?thesis by (simp add: run_bnd_Return in_turn_def turn_def cong: map_cong)
qed

definition runwalk0 :: runwalk where
  "runwalk0 = \<lparr>bout = [], berrno = None, bmem = [], gVerbose = False, sys_ok = [], verbosity = 1, trun = 9, twalk = 4,
     rw_type = RUN, itmr = 0, settimes = [], remaining = [], rw_overrun = 0, ptr = []\<rparr>"

theorem runwalk_alternates_witness:
  "\<exists>s'. sq runwalk_timer_init_and_arm (rw_loop ([Elapsed, Expire, Expire] @ [Interrupt])) runwalk0 = (Exited 0, s') \<and> settimes s' = [9, 4, 9]"
  using runwalk_alternates [of runwalk0 "[Elapsed, Expire, Expire]"] by (simp add: runwalk0_def del: rw_loop.simps)

end
