(* ===== verification/Mem_Bugs.thy ===== *)
theory Mem_Bugs
  imports Book_Common
begin

text \<open>
  The catalogue of memory errors, \<^verbatim>\<open>src/booksrc/ch5/membugs.c\<close>, on a memory of blocks: a block is the list of its bytes, a
  byte that was never written is \<open>None\<close>, and a block that was freed, or a local array of a function that has returned, is
  gone. A pointer is a block and an offset that may lie outside; every access checks it, so each of the program's
  test cases ends in the fault it is about. \<open>addr_text\<close> is the printed form of an address and \<open>path\<close> the variable
  \<^verbatim>\<open>PATH\<close>; commands run with \<^verbatim>\<open>system\<close> go to \<open>systems\<close>.
\<close>

section \<open>Memory\<close>

record heap = bk +
  blocks :: "nat \<rightharpoonup> char option list"
  fresh_block :: nat
  path :: "string option"
  addr_text :: "nat \<Rightarrow> string"
  systems :: "string list"

type_synonym 'a hprog = "(heap, 'a) cprog"
type_synonym cptr = "(nat \<times> int) option"

definition new_block :: "nat \<Rightarrow> cptr hprog" where
  "new_block n = (\<lambda>s. (Return (Some (fresh_block s, 0)),
     s\<lparr>blocks := (blocks s)(fresh_block s \<mapsto> replicate n None), fresh_block := Suc (fresh_block s)\<rparr>))"

definition h_malloc :: "nat \<Rightarrow> cptr hprog" where
  "h_malloc n = bnd malloc_ok (\<lambda>ok. if ok then new_block n else ret None)"

definition with_block :: "cptr \<Rightarrow> (nat \<Rightarrow> int \<Rightarrow> char option list \<Rightarrow> 'a hprog) \<Rightarrow> 'a hprog" where
  "with_block p f = (case p of None \<Rightarrow> fault NullDeref
     | Some (b, off) \<Rightarrow> bnd (gets (\<lambda>s. blocks s b)) (\<lambda>m. case m of None \<Rightarrow> fault BadDeref | Some xs \<Rightarrow> f b off xs))"

definition shift :: "cptr \<Rightarrow> int \<Rightarrow> cptr" where
  "shift p k = map_option (\<lambda>(b, off). (b, off + k)) p"

definition put :: "cptr \<Rightarrow> char \<Rightarrow> unit hprog" where
  "put p ch = with_block p (\<lambda>b off xs.
     if off < 0 \<or> off \<ge> int (length xs) then fault OutOfBounds
     else modify (\<lambda>s. s\<lparr>blocks := (blocks s)(b \<mapsto> xs[nat off := Some ch])\<rparr>))"

fun put_all :: "cptr \<Rightarrow> string \<Rightarrow> unit hprog" where
  "put_all p [] = ret ()"
| "put_all p (ch # cs) = sq (put p ch) (put_all (shift p 1) cs)"

definition get :: "cptr \<Rightarrow> char hprog" where
  "get p = with_block p (\<lambda>b off xs.
     if off < 0 \<or> off \<ge> int (length xs) then fault OutOfBounds
     else case xs ! nat off of None \<Rightarrow> fault Uninitialised | Some ch \<Rightarrow> ret ch)"

fun scan_str :: "char option list \<Rightarrow> string hprog" where
  "scan_str [] = fault OutOfBounds"
| "scan_str (None # xs) = fault Uninitialised"
| "scan_str (Some ch # xs) = (if ch = nul then ret [] else bnd (scan_str xs) (\<lambda>r. ret (ch # r)))"

text \<open>A string as \<^verbatim>\<open>%s\<close> reads it.\<close>

definition get_str :: "cptr \<Rightarrow> string hprog" where
  "get_str p = with_block p (\<lambda>b off xs. if off < 0 then fault OutOfBounds else scan_str (drop (nat off) xs))"

definition h_memset :: "cptr \<Rightarrow> char \<Rightarrow> nat \<Rightarrow> unit hprog" where
  "h_memset p ch n = put_all p (replicate n ch)"

definition h_strcpy :: "cptr \<Rightarrow> string \<Rightarrow> unit hprog" where
  "h_strcpy p str = put_all p (str @ [nul])"

definition h_strncpy :: "cptr \<Rightarrow> string \<Rightarrow> nat \<Rightarrow> unit hprog" where
  "h_strncpy p str n = put_all p (take n (str @ replicate n nul))"

definition h_free :: "cptr \<Rightarrow> unit hprog" where
  "h_free p = (case p of None \<Rightarrow> ret ()
     | Some (b, off) \<Rightarrow> bnd (gets (\<lambda>s. blocks s b)) (\<lambda>m.
         if m = None \<or> off \<noteq> 0 then fault BadFree else modify (\<lambda>s. s\<lparr>blocks := (blocks s)(b := None)\<rparr>)))"

text \<open>A local array lives until the function returns.\<close>

definition local_array :: "nat \<Rightarrow> (cptr \<Rightarrow> 'a hprog) \<Rightarrow> 'a hprog" where
  "local_array n body = bnd (new_block n) (\<lambda>p. bnd (body p) (\<lambda>r. sq (h_free p) (ret r)))"

definition show_addr :: "cptr \<Rightarrow> string hprog" where
  "show_addr p = (case p of None \<Rightarrow> ret ''(nil)'' | Some (b, _) \<Rightarrow> gets (\<lambda>s. addr_text s b))"

definition h_system :: "string \<Rightarrow> unit hprog" where
  "h_system cmd = modify (\<lambda>s. s\<lparr>systems := systems s @ [cmd]\<rparr>)"

section \<open>The test cases\<close>

abbreviation (input) "PATH_MAX \<equiv> (4096::nat)"

definition BLK_1MB :: nat where "BLK_1MB = 1024 * 1024"

definition mloc :: "string \<Rightarrow> nat \<Rightarrow> string" where
  "mloc = place ''membugs.c''"

text \<open>The check tests the address of the variable, never its value.\<close>

definition silly_getpath :: "cptr hprog" where
  "silly_getpath =
     bnd (h_malloc PATH_MAX) (\<lambda>p.
     bnd (gets path) (\<lambda>e.
     case e of None \<Rightarrow> fault NullDeref
     | Some v \<Rightarrow>
         sq (h_strcpy p v)
         (sq (if p = None then WARN (mloc ''silly_getpath'' 51) (''getenv failed'' @ [nl]) else ret ())
         (ret p))))"

definition leakage_case3 :: "int \<Rightarrow> unit hprog" where
  "leakage_case3 cond =
     sq (printf ([nl] @ ''## Leakage test: case 3: \"lib\" API: runtime cond = '' @ show_int cond @ [nl]))
     (bnd silly_getpath (\<lambda>mypath.
     bnd (get_str mypath) (\<lambda>str.
     sq (printf (''mypath = '' @ str @ [nl]))
     (if cond \<noteq> 0 then h_free mypath else ret ()))))"

definition amleaky :: "nat \<Rightarrow> unit hprog" where
  "amleaky mem =
     bnd (h_malloc mem) (\<lambda>ptr.
     sq (if ptr = None then FATAL (mloc ''amleaky'' 76) (''malloc('' @ show_nat mem @ '') failed'' @ [nl]) else ret ())
     (h_memset ptr nul mem))"

text \<open>Megabytes with two decimals, a tie to the even neighbour.\<close>

definition show_mb :: "nat \<Rightarrow> string" where
  "show_mb m = (let q = 100 * m div BLK_1MB; r = 100 * m mod BLK_1MB;
       h = (if 2 * r > BLK_1MB \<or> 2 * r = BLK_1MB \<and> odd q then q + 1 else q)
     in show_nat (h div 100) @ ''.'' @ pad (CHR ''0'') 2 (show_nat (h mod 100)))"

fun leak_loop :: "nat \<Rightarrow> nat \<Rightarrow> nat \<Rightarrow> unit hprog" where
  "leak_loop 0 i sz = ret ()"
| "leak_loop (Suc k) i sz =
     sq (if i mod 10000 = 0 then printf (''leakage_case2():'' @ pad (CHR '' '') 6 (show_nat i) @ '':malloc('' @ show_nat sz @ '')'' @ [nl]) else ret ())
     (sq (amleaky sz) (leak_loop k (Suc i) sz))"

definition leakage_case2 :: "nat \<Rightarrow> nat \<Rightarrow> unit hprog" where
  "leakage_case2 sz reps0 =
     (let reps = (if reps0 = 0 then 1 else reps0); mem_leaked = sz * reps; threshold = 3 * BLK_1MB;
          mem = (if mem_leaked \<ge> threshold then h_system ''free|grep \"^Mem:\"'' else ret ()) in
      sq (printf (''leakage_case2(): will now leak a total of '' @ show_nat mem_leaked @ '' bytes ('' @ show_mb mem_leaked @ '' MB) ['' @
            show_nat sz @ '' bytes * '' @ show_nat reps @ '' loops]'' @ [nl]))
      (sq mem
      (sq (leak_loop reps 0 sz)
      (sq mem
      (printf [nl])))))"

definition leakage_case1 :: "nat \<Rightarrow> unit hprog" where
  "leakage_case1 sz =
     sq (printf (''leakage_case1(): will now leak '' @ show_nat sz @ '' bytes ('' @ show_nat (sz div BLK_1MB) @ '' MB)'' @ [nl]))
     (amleaky sz)"

definition book_name :: string where
  "book_name = ''Hands-on Linux Sys Prg''"

text \<open>\<^verbatim>\<open>malloc(-1UL)\<close> never succeeds.\<close>

definition doublefree :: "int \<Rightarrow> unit hprog" where
  "doublefree cond =
     sq (printf (''doublefree(): cond '' @ show_int cond @ [nl]))
     (bnd (h_malloc 512) (\<lambda>ptr.
     sq (if ptr = None then FATAL (mloc ''doublefree'' 132) (''malloc failed'' @ [nl]) else ret ())
     (sq (h_strncpy ptr book_name (length book_name))
     (sq (h_free ptr)
     (if cond \<noteq> 0 then
        sq (eprintf (mloc ''doublefree'' 139 @ ''malloc failed'' @ [nl]))
        (sq (h_free ptr) (exit_with EXIT_FAILURE))
      else ret ())))))"

definition uar :: "cptr hprog" where
  "uar = local_array 32 (\<lambda>name. sq (h_memset name nul 32) (sq (h_strncpy name book_name 22) (ret name)))"

definition uaf :: "unit hprog" where
  "uaf =
     bnd (h_malloc 512) (\<lambda>arr.
     sq (if arr = None then FATAL (mloc ''uaf'' 167) (''malloc arr failed'' @ [nl]) else ret ())
     (sq (h_memset arr (CHR ''a'') 512)
     (sq (put (shift arr 511) nul)
     (bnd (show_addr arr) (\<lambda>a. bnd (get_str arr) (\<lambda>v.
     sq (printf (''uaf():170: arr = '' @ a @ '':'' @ take 32 v @ [nl]))
     (bnd (h_malloc 512) (\<lambda>nxt.
     sq (if nxt = None then
           sq (h_free arr)
           (sq (bnd (get_str arr) (\<lambda>v. eprintf (''Error log: arr='' @ a @ '':val='' @ v @ [nl])))
           (FATAL (mloc ''uaf'' 177) (''malloc next failed'' @ [nl])))
         else ret ())
     (sq (h_free arr)
     (sq (h_strncpy arr book_name (length book_name))
     (bnd (get_str arr) (\<lambda>v.
     sq (printf (''uaf():182: arr = '' @ a @ '':'' @ take 32 v @ [nl]))
     (h_free nxt)))))))))))))"

definition read_underflow :: "int \<Rightarrow> unit hprog" where
  "read_underflow cond =
     sq (printf (''read_underflow(): cond '' @ show_int cond @ [nl]))
     (bnd (h_malloc 25) (\<lambda>orig.
     sq (if orig = None then FATAL (mloc ''read_underflow'' 194) (''malloc failed'' @ [nl]) else ret ())
     (sq (h_strncpy orig ''abcd56789'' 9)
     (bnd (if cond \<noteq> 0 then sq (put (shift orig (-1)) (CHR ''x'')) (ret (shift orig (-1))) else ret orig) (\<lambda>dest.
     bnd (get_str dest) (\<lambda>v.
     sq (printf ('' dest: '' @ v @ [nl]))
     (h_free orig)))))))"

definition read_overflow_dynmem :: "unit hprog" where
  "read_overflow_dynmem =
     bnd (h_malloc 5) (\<lambda>arr.
     sq (if arr = None then FATAL (mloc ''read_overflow_dynmem'' 214) (''malloc failed'' @ [nl]) else ret ())
     (sq (h_memset arr (CHR ''a'') 5)
     (sq (put_all (shift arr 5) ''SecreT'')
     (bnd (get_str arr) (\<lambda>v.
     sq (printf (''arr = '' @ v @ [nl]))
     (bnd (get (shift arr 100)) (\<lambda>x.
     sq (printf (''*(arr+100)='' @ show_nat (of_char x) @ [nl]))
     (bnd (get (shift arr 10000)) (\<lambda>y.
     sq (printf (''*(arr+10000)='' @ show_nat (of_char y) @ [nl]))
     (h_free arr))))))))))"

definition read_overflow_compilemem :: "unit hprog" where
  "read_overflow_compilemem =
     local_array 5 (\<lambda>arr. local_array 8 (\<lambda>tmp.
     sq (h_memset arr (CHR ''a'') 5)
     (sq (h_memset tmp (CHR ''t'') 8)
     (sq (put (shift tmp 7) nul)
     (bnd (get_str arr) (\<lambda>v. printf (''arr = '' @ v @ [nl])))))))"

definition write_underflow :: "unit hprog" where
  "write_underflow =
     bnd (h_malloc 8) (\<lambda>p.
     sq (if p = None then FATAL (mloc ''write_underflow'' 250) (''malloc failed'' @ [nl]) else ret ())
     (sq (h_strncpy (shift p (-1)) ''abcd5678'' 8)
     (h_free p)))"

definition write_overflow_dynmem :: "unit hprog" where
  "write_overflow_dynmem =
     bnd (h_malloc 8) (\<lambda>dest.
     sq (if dest = None then FATAL (mloc ''write_overflow_dynmem'' 264) (''malloc failed'' @ [nl]) else ret ())
     (sq (h_strcpy dest ''abcd56789'')
     (h_free dest)))"

text \<open>An array of \<^verbatim>\<open>int\<close>s, one place per element; the loop runs up to and including 5.\<close>

definition write_overflow_compilemem :: "unit hprog" where
  "write_overflow_compilemem = local_array 5 (\<lambda>arr. put_all arr (replicate 6 (CHR ''d'')))"

definition write_overflow_globalmem :: "cptr \<Rightarrow> unit hprog" where
  "write_overflow_globalmem garr = put_all garr (replicate 6 (CHR ''d''))"

definition uninit_var :: "unit hprog" where
  "uninit_var = local_array 1 (\<lambda>x.
     bnd (get x) (\<lambda>v. if v \<noteq> nul then printf (''true case: x='' @ show_nat (of_char v) @ [nl]) else printf (''false case'' @ [nl])))"

section \<open>main\<close>

definition membugs_usage :: "string \<Rightarrow> unit hprog" where
  "membugs_usage name = eprintf (''Usage: '' @ name @ '' test_case [ -h | --help]'' @ [nl] @
     '' test case  1 : uninitialized var test case'' @ [nl] @
     '' test case  2 : out-of-bounds : write overflow [on compile-time memory]'' @ [nl] @
     '' test case  3 : out-of-bounds : write overflow [on dynamic memory]'' @ [nl] @
     '' test case  4 : out-of-bounds : write underflow'' @ [nl] @
     '' test case  5 : out-of-bounds : read overflow [on compile-time memory]'' @ [nl] @
     '' test case  6 : out-of-bounds : read overflow [on dynamic memory]'' @ [nl] @
     '' test case  7 : out-of-bounds : read underflow'' @ [nl] @
     '' test case  8 : UAF (use-after-free) test case'' @ [nl] @
     '' test case  9 : UAR (use-after-return) test case'' @ [nl] @
     '' test case 10 : double-free test case'' @ [nl] @
     '' test case 11 : memory leak test case 1: simple leak'' @ [nl] @
     '' test case 12 : memory leak test case 2: leak more (in a loop)'' @ [nl] @
     '' test case 13 : memory leak test case 3: \"lib\" API leak'' @ [nl] @
     '' test case 14 : out-of-bounds : write overflow [on global memory] [update]'' @ [nl] @
     ''-h | --help : show this help screen'' @ [nl])"

definition run_case :: "cptr \<Rightarrow> string \<Rightarrow> int \<Rightarrow> unit hprog" where
  "run_case garr name k =
     (if k = 1 then uninit_var
      else if k = 2 then write_overflow_compilemem
      else if k = 3 then write_overflow_dynmem
      else if k = 4 then write_underflow
      else if k = 5 then read_overflow_compilemem
      else if k = 6 then read_overflow_dynmem
      else if k = 7 then sq (read_underflow 0) (read_underflow 1)
      else if k = 8 then uaf
      else if k = 9 then bnd uar (\<lambda>res. bnd (get_str res) (\<lambda>v. printf (''res: '' @ v @ [nl])))
      else if k = 10 then sq (doublefree 0) (doublefree 1)
      else if k = 11 then sq (leakage_case1 32) (leakage_case1 BLK_1MB)
      else if k = 12 then sq (leakage_case2 32 100000) (leakage_case2 BLK_1MB 12)
      else if k = 13 then sq (leakage_case3 0) (leakage_case3 1)
      else if k = 14 then write_overflow_globalmem garr
      else sq (membugs_usage name) (exit_with EXIT_FAILURE))"

definition process_args :: "cptr \<Rightarrow> string list \<Rightarrow> unit hprog" where
  "process_args garr argv =
     sq (if length argv < 2 then sq (membugs_usage (argv ! 0)) (exit_with EXIT_FAILURE) else ret ())
     (sq (if length argv = 2 \<and> (strncmp_eq (argv ! 1) ''-h'' 2 \<or> strncmp_eq (argv ! 1) ''--help'' 6)
          then sq (membugs_usage (argv ! 0)) (exit_with EXIT_SUCCESS) else ret ())
     (if length argv = 2 then run_case garr (argv ! 0) (atoi (argv ! 1)) else ret ()))"

definition membugs_main :: "string list \<Rightarrow> unit hprog" where
  "membugs_main argv =
     bnd (new_block 5) (\<lambda>garr.
     sq (put_all garr (replicate 5 nul))
     (sq (process_args garr argv)
     (exit_with EXIT_SUCCESS)))"

section \<open>What happens\<close>

lemmas memory_ops = h_malloc_def new_block_def with_block_def put_def get_def get_str_def shift_def h_memset_def h_strcpy_def
  h_strncpy_def h_free_def local_array_def

lemma put_all_run:
  "blocks s b = Some xs \<Longrightarrow> 0 \<le> off \<Longrightarrow> nat off + length cs \<le> length xs \<Longrightarrow>
   put_all (Some (b, off)) cs s = (Return (), s\<lparr>blocks := (blocks s)(b \<mapsto> take (nat off) xs @ map Some cs @ drop (nat off + length cs) xs)\<rparr>)"
proof (induction cs arbitrary: s off xs)
  case Nil
  then have "(blocks s)(b \<mapsto> xs) = blocks s" by (simp add: fun_upd_idem)
  then show ?case by (simp add: prog_simps del: fun_upd_apply)
next
  case (Cons ch cs)
  let ?xs = "xs[nat off := Some ch]"
  have n: "nat (off + 1) = Suc (nat off)" using Cons.prems(2) by simp
  have "put (Some (b, off)) ch s = (Return (), s\<lparr>blocks := (blocks s)(b \<mapsto> ?xs)\<rparr>)"
    using Cons.prems by (simp add: put_def with_block_def prog_simps)
  moreover have "put_all (Some (b, off + 1)) cs (s\<lparr>blocks := (blocks s)(b \<mapsto> ?xs)\<rparr>) =
      (Return (), s\<lparr>blocks := (blocks s)(b \<mapsto> take (Suc (nat off)) ?xs @ map Some cs @ drop (Suc (nat off) + length cs) ?xs)\<rparr>)"
    using Cons.IH [of "s\<lparr>blocks := (blocks s)(b \<mapsto> ?xs)\<rparr>" ?xs "off + 1"] Cons.prems n
    by (simp add: fun_upd_upd fun_upd_same del: fun_upd_apply)
  moreover have "take (Suc (nat off)) ?xs = take (nat off) xs @ [Some ch]"
    using Cons.prems by (simp add: take_Suc_conv_app_nth)
  ultimately show ?case by (simp add: shift_def run_bnd_Return del: fun_upd_apply)
qed

lemma put_all_out:
  "blocks s b = Some xs \<Longrightarrow> off < 0 \<or> int (length xs) \<le> off \<Longrightarrow> put_all (Some (b, off)) (ch # cs) s = (Faulted OutOfBounds, s)"
  by (auto simp: put_def with_block_def prog_simps)

text \<open>Each error is a fault, given memory for the blocks the functions ask for.\<close>

lemma uninit_var_faults: "\<exists>s'. uninit_var s = (Faulted Uninitialised, s')"
  by (simp add: uninit_var_def memory_ops prog_simps)

lemma write_overflow_compilemem_faults: "\<exists>s'. write_overflow_compilemem s = (Faulted OutOfBounds, s')"
  by (simp add: write_overflow_compilemem_def memory_ops prog_simps numeral_eq_Suc)

lemma write_overflow_dynmem_faults: "bmem s = [] \<Longrightarrow> \<exists>s'. write_overflow_dynmem s = (Faulted OutOfBounds, s')"
  by (simp add: write_overflow_dynmem_def memory_ops prog_simps numeral_eq_Suc)

lemma write_underflow_faults: "bmem s = [] \<Longrightarrow> \<exists>s'. write_underflow s = (Faulted OutOfBounds, s')"
  by (simp add: write_underflow_def memory_ops prog_simps numeral_eq_Suc)

lemma read_overflow_compilemem_faults: "\<exists>s'. read_overflow_compilemem s = (Faulted OutOfBounds, s')"
  by (simp add: read_overflow_compilemem_def local_array_def new_block_def h_memset_def shift_def put_def get_str_def with_block_def
      put_all_run prog_eval run_printf numeral_eq_Suc del: put_all.simps)

lemma read_overflow_dynmem_faults: "bmem s = [] \<Longrightarrow> \<exists>s'. read_overflow_dynmem s = (Faulted OutOfBounds, s')"
  by (simp add: read_overflow_dynmem_def h_malloc_def new_block_def h_memset_def shift_def put_all_run put_all_out prog_eval run_bk_malloc run_printf del: put_all.simps)

text \<open>Test case 7 goes wrong before its planted bug: the copy has no terminator.\<close>

lemma read_underflow_faults: "bmem s = [] \<Longrightarrow> \<exists>s'. read_underflow 0 s = (Faulted Uninitialised, s')"
  by (simp add: read_underflow_def h_malloc_def new_block_def h_strncpy_def get_str_def with_block_def put_all_run prog_eval
      run_bk_malloc run_printf numeral_eq_Suc del: put_all.simps)

text \<open>The caller of test case 9 gets a pointer to a block that is gone.\<close>

lemma uar_dangles:
  "\<exists>s'. uar s = (Return (Some (fresh_block s, 0)), s') \<and> blocks s' (fresh_block s) = None"
  by (simp add: uar_def book_name_def local_array_def new_block_def h_memset_def h_strncpy_def h_free_def put_all_run prog_eval run_bk_malloc run_printf del: put_all.simps)

text \<open>A freed block is gone: a second free and a write after the first are faults.\<close>

lemma doublefree_faults: "bmem s = [] \<Longrightarrow> \<exists>s'. doublefree 1 s = (Faulted BadFree, s')"
  by (simp add: doublefree_def book_name_def h_malloc_def new_block_def h_strncpy_def put_all_run h_free_def prog_simps del: put_all.simps)

text \<open>Test cases 11 and 12: the block is never freed.\<close>

lemma amleaky_leaks:
  assumes "bmem s = []"
  shows "\<exists>s'. amleaky n s = (Return (), s') \<and> blocks s' (fresh_block s) = Some (replicate n (Some nul)) \<and> bmem s' = []"
  using assms by (simp add: amleaky_def h_malloc_def new_block_def h_memset_def put_all_run prog_simps del: put_all.simps)

end
