(* ===== verification/Scatter_Gather.thy ===== *)
theory Scatter_Gather
  imports File_Copy
begin

text \<open>
  Discontiguous writes, \<^verbatim>\<open>src/booksrc/ch18/sgio_simple.c\<close>: the same file made by three pairs of \<^verbatim>\<open>lseek\<close> and \<^verbatim>\<open>write\<close>, or by one
  \<^verbatim>\<open>writev\<close> of six pieces. \<open>blks\<close> are the live blocks of memory; \<open>data\<close> and \<open>pos\<close> the bytes and the offset of the file. \<open>calls\<close> are
  the kernel's answers to the coming calls on it, as in the copy programs: a negative one is an error, another bounds the number
  of bytes written, and used up they give all that was asked for.
\<close>

section \<open>State, memory and system calls\<close>

record sgio = bk +
  blks :: "addr \<rightharpoonup> string"
  nextb :: addr
  gbufA :: addr
  gbufB :: addr
  gbufC :: addr
  gbuf_hole :: addr
  data :: string
  pos :: nat
  calls :: "int list"
  sg_open :: int

type_synonym 'a sgprog = "(sgio, 'a) cprog"

definition A_HOLE_LEN :: nat where "A_HOLE_LEN = 10"
definition A_LEN :: nat where "A_LEN = 20"
definition B_HOLE_LEN :: nat where "B_HOLE_LEN = 100"
definition B_LEN :: nat where "B_LEN = 30"
definition C_HOLE_LEN :: nat where "C_HOLE_LEN = 20"
definition C_LEN :: nat where "C_LEN = 42"
definition A_START_OFF :: nat where "A_START_OFF = A_HOLE_LEN"
definition B_START_OFF :: nat where "B_START_OFF = A_HOLE_LEN + A_LEN + B_HOLE_LEN"
definition C_START_OFF :: nat where "C_START_OFF = A_HOLE_LEN + A_LEN + B_HOLE_LEN + B_LEN + C_HOLE_LEN"

lemmas sg_lens = A_HOLE_LEN_def A_LEN_def B_HOLE_LEN_def B_LEN_def C_HOLE_LEN_def C_LEN_def A_START_OFF_def B_START_OFF_def C_START_OFF_def

text \<open>\<^verbatim>\<open>malloc\<close>; what is in a new block is not known, the model takes zeros and every block is set before it is read.\<close>

definition sg_malloc :: "nat \<Rightarrow> addr sgprog" where
  "sg_malloc n = bnd malloc_ok (\<lambda>ok. if \<not> ok then ret NULL
     else bnd (gets nextb) (\<lambda>p. sq (modify (\<lambda>s. s\<lparr>nextb := p + 1, blks := (blks s)(p \<mapsto> replicate n nul)\<rparr>)) (ret p)))"

definition sg_free :: "addr \<Rightarrow> unit sgprog" where
  "sg_free p = free blks blks_update p"

definition sg_memset :: "addr \<Rightarrow> char \<Rightarrow> nat \<Rightarrow> unit sgprog" where
  "sg_memset p ch n = bnd (deref blks p) (\<lambda>b. if length b < n then fault OutOfBounds
     else store blks blks_update p (\<lambda>b. replicate n ch @ drop n b))"

definition sg_answer :: "nat \<Rightarrow> int sgprog" where
  "sg_answer n = (\<lambda>s. case calls s of [] \<Rightarrow> (Return (int n), s) | a # as \<Rightarrow> (Return (min (max a (-1)) (int n)), s\<lparr>calls := as\<rparr>))"

definition sg_lseek :: "nat \<Rightarrow> int sgprog" where
  "sg_lseek off = bnd (sg_answer off) (\<lambda>a. if a < 0 then ret (-1) else sq (modify (\<lambda>s. s\<lparr>pos := off\<rparr>)) (ret (int off)))"

text \<open>The kernel takes bytes to the file at its offset.\<close>

definition sg_put :: "string \<Rightarrow> int sgprog" where
  "sg_put d = bnd (sg_answer (length d)) (\<lambda>a. if a < 0 then ret (-1)
     else let e = take (if d = [] then 0 else max 1 (nat a)) d in
       sq (modify (\<lambda>s. s\<lparr>data := overwrite (pos s) e (data s), pos := pos s + length e\<rparr>)) (ret (int (length e))))"

text \<open>The bytes of a buffer; reading more than it has, or a freed one, is undefined.\<close>

definition sg_bytes :: "addr \<Rightarrow> nat \<Rightarrow> string sgprog" where
  "sg_bytes p n = bnd (deref blks p) (\<lambda>b. if length b < n then fault OutOfBounds else ret (take n b))"

text \<open>\<^verbatim>\<open>write\<close> and \<^verbatim>\<open>writev\<close>. A null buffer is an error of the call; \<^verbatim>\<open>writev\<close> writes the pieces before it.\<close>

definition sg_write :: "addr \<Rightarrow> nat \<Rightarrow> int sgprog" where
  "sg_write p n = (if p = NULL then ret (-1) else bnd (sg_bytes p n) sg_put)"

fun gather :: "(addr \<times> nat) list \<Rightarrow> string sgprog" where
  "gather [] = ret []"
| "gather ((p, n) # iov) = (if p = NULL then ret [] else bnd (sg_bytes p n) (\<lambda>d. bnd (gather iov) (\<lambda>r. ret (d @ r))))"

definition sg_writev :: "(addr \<times> nat) list \<Rightarrow> int sgprog" where
  "sg_writev iov = (if iov \<noteq> [] \<and> fst (hd iov) = NULL then ret (-1) else bnd (gather iov) sg_put)"

section \<open>The program\<close>

text \<open>
  \<^verbatim>\<open>setup_buffers_goto\<close>: the labels are the ends of the branches; a pointer that was freed keeps its value.
\<close>

definition setup_buffers_goto :: "int sgprog" where
  "setup_buffers_goto =
     sq (printf (''In setup_buffers_goto()'' @ [nl]))
     (bnd (sg_malloc A_LEN) (\<lambda>a.
      sq (modify (\<lambda>s. s\<lparr>gbufA := a\<rparr>))
      (if a = NULL then ret (-1) else
      sq (sg_memset a (CHR ''A'') A_LEN)
      (bnd (sg_malloc B_LEN) (\<lambda>b.
      sq (modify (\<lambda>s. s\<lparr>gbufB := b\<rparr>))
      (if b = NULL then sq (sg_free a) (ret (-2)) else
      sq (sg_memset b (CHR ''B'') B_LEN)
      (bnd (sg_malloc C_LEN) (\<lambda>c.
      sq (modify (\<lambda>s. s\<lparr>gbufC := c\<rparr>))
      (if c = NULL then sq (sg_free b) (sq (sg_free a) (ret (-3))) else
      sq (sg_memset c (CHR ''C'') C_LEN)
      (bnd (sg_malloc (A_HOLE_LEN + B_HOLE_LEN + C_HOLE_LEN)) (\<lambda>h.
      sq (modify (\<lambda>s. s\<lparr>gbuf_hole := h\<rparr>))
      (if h = NULL then sq (sg_free c) (sq (sg_free b) (sq (sg_free a) (ret (-4)))) else
      sq (sg_memset h nul (A_HOLE_LEN + B_HOLE_LEN + C_HOLE_LEN))
      (ret 0)))))))))))))"

definition sg_loc :: "string \<Rightarrow> nat \<Rightarrow> string" where
  "sg_loc = place ''sgio_simple.c''"

text \<open>One seek and one write, each with its message.\<close>

definition seek_write :: "char \<Rightarrow> nat \<Rightarrow> nat \<Rightarrow> (sgio \<Rightarrow> addr) \<Rightarrow> nat \<Rightarrow> unit sgprog" where
  "seek_write ch line off buf n =
     bnd (sg_lseek off) (\<lambda>r.
     sq (if r < 0 then FATAL (sg_loc ''wr_discontig_the_normal_way'' line) (''lseek '' @ [ch] @ '' failed'' @ [nl]) else ret ())
     (bnd (gets buf) (\<lambda>p.
     bnd (sg_write p n) (\<lambda>r.
     if r < 0 then FATAL (sg_loc ''wr_discontig_the_normal_way'' (line + 2)) (''write '' @ [ch] @ '' failed'' @ [nl]) else ret ()))))"

definition wr_discontig_the_normal_way :: "int sgprog" where
  "wr_discontig_the_normal_way =
     sq (printf (''In wr_discontig_the_normal_way()'' @ [nl]))
     (sq (seek_write (CHR ''A'') 174 A_START_OFF gbufA A_LEN)
     (sq (seek_write (CHR ''B'') 180 B_START_OFF gbufB B_LEN)
     (sq (seek_write (CHR ''C'') 186 C_START_OFF gbufC C_LEN)
     (ret 0))))"

definition sg_iov :: "sgio \<Rightarrow> (addr \<times> nat) list" where
  "sg_iov s = [(gbuf_hole s, A_HOLE_LEN), (gbufA s, A_LEN), (gbuf_hole s, B_HOLE_LEN), (gbufB s, B_LEN), (gbuf_hole s, C_HOLE_LEN), (gbufC s, C_LEN)]"

definition wr_discontig_the_better_SGIO_way :: "int sgprog" where
  "wr_discontig_the_better_SGIO_way =
     sq (printf (''In wr_discontig_the_better_SGIO_way()'' @ [nl]))
     (bnd (gets sg_iov) (\<lambda>iov.
      bnd (sg_writev iov) (\<lambda>r. if r < 0 then ret (-1) else ret 0)))"

definition sg_usage :: "string \<Rightarrow> int sgprog" where
  "sg_usage name = sq (eprintf (''Usage: '' @ name @ '' use-method-option'' @ [nl] @ '' 0 = traditional lseek/write method'' @ [nl] @
     '' 1 = better SG IO method'' @ [nl])) (exit_with EXIT_FAILURE)"

text \<open>\<^verbatim>\<open>unlink\<close> and \<^verbatim>\<open>open\<close> with \<^verbatim>\<open>O_CREAT\<close> start from an empty file; on a descriptor that is not open every call fails.\<close>

definition sg_main :: "string list \<Rightarrow> int sgprog" where
  "sg_main argv =
     (if length argv \<noteq> 2 then sg_usage (argv ! 0) else
      let opt = atoi (argv ! 1) in
      if opt \<noteq> 0 \<and> opt \<noteq> 1 then sg_usage (argv ! 0) else
      bnd setup_buffers_goto (\<lambda>r.
      sq (if r < 0 then FATAL (sg_loc ''main'' 287) (''Buffer setup failed'' @ [nl]) else ret ())
      (bnd (gets sg_open) (\<lambda>fd.
      sq (modify (\<lambda>s. if fd < 0 then s\<lparr>calls := replicate 6 (-1)\<rparr> else s\<lparr>data := [], pos := 0\<rparr>))
      (sq (if fd < 0 then FATAL (sg_loc ''main'' 295) (''open on '' @ argv ! 1 @ '' failed'' @ [nl]) else ret ())
      (sq (if opt = 0 then wr_discontig_the_normal_way else wr_discontig_the_better_SGIO_way)
      (sq (bnd (gets gbufC) sg_free)
      (sq (bnd (gets gbufB) sg_free)
      (sq (bnd (gets gbufA) sg_free)
      (exit_with EXIT_SUCCESS))))))))))"

section \<open>The buffers\<close>

lemma sg_malloc_run:
  "sg_malloc n s = (if bmem s = [] \<or> hd (bmem s)
     then (Return (nextb s), s\<lparr>bmem := tl (bmem s), nextb := nextb s + 1, blks := (blks s)(nextb s \<mapsto> replicate n nul)\<rparr>)
     else (Return NULL, s\<lparr>bmem := tl (bmem s)\<rparr>))"
  by (simp add: sg_malloc_def prog_eval run_bk_malloc)

lemma sg_memset_run:
  "p \<noteq> NULL \<Longrightarrow> blks s p = Some b \<Longrightarrow> length b = n \<Longrightarrow> sg_memset p ch n s = (Return (), s\<lparr>blks := (blks s)(p \<mapsto> replicate n ch)\<rparr>)"
  by (simp add: sg_memset_def prog_eval deref_def store_def)

lemma sg_free_run: "p \<noteq> NULL \<Longrightarrow> blks s p = Some b \<Longrightarrow> sg_free p s = (Return (), s\<lparr>blks := (blks s)(p := None)\<rparr>)"
  by (simp add: sg_free_def free_def)

definition sg_fresh :: "sgio \<Rightarrow> bool" where
  "sg_fresh s \<longleftrightarrow> nextb s \<noteq> NULL \<and> (\<forall>p \<ge> nextb s. blks s p = None)"

text \<open>The four buffers with their contents.\<close>

definition set_up :: "sgio \<Rightarrow> bool" where
  "set_up s \<longleftrightarrow> gbufA s \<noteq> NULL \<and> gbufB s \<noteq> NULL \<and> gbufC s \<noteq> NULL \<and> gbuf_hole s \<noteq> NULL \<and>
     blks s (gbufA s) = Some (replicate A_LEN (CHR ''A'')) \<and> blks s (gbufB s) = Some (replicate B_LEN (CHR ''B'')) \<and>
     blks s (gbufC s) = Some (replicate C_LEN (CHR ''C'')) \<and>
     blks s (gbuf_hole s) = Some (replicate (A_HOLE_LEN + B_HOLE_LEN + C_HOLE_LEN) nul)"

text \<open>However the allocations go: the buffers are set up, or everything is as it was.\<close>

lemma setup_outcome:
  assumes "sg_fresh s"
  shows "\<exists>r s'. setup_buffers_goto s = (Return r, s') \<and> calls s' = calls s \<and> sg_open s' = sg_open s \<and> (bmem s = [] \<longrightarrow> r = 0) \<and>
    (r = 0 \<and> set_up s' \<and> blks s' = (blks s)(gbufA s' \<mapsto> replicate A_LEN (CHR ''A''), gbufB s' \<mapsto> replicate B_LEN (CHR ''B''),
       gbufC s' \<mapsto> replicate C_LEN (CHR ''C''), gbuf_hole s' \<mapsto> replicate (A_HOLE_LEN + B_HOLE_LEN + C_HOLE_LEN) nul) \<and>
       gbufA s' = nextb s \<and> gbufB s' = nextb s + 1 \<and> gbufC s' = nextb s + 2 \<and> gbuf_hole s' = nextb s + 3
     \<or> r \<in> {-1, -2, -3, -4} \<and> blks s' = blks s)"
proof -
  have n: "nextb s \<noteq> NULL" and f: "blks s (nextb s + k) = None" for k using assms by (auto simp: sg_fresh_def)
  have f0: "blks s (nextb s) = None" "blks s (Suc (nextb s)) = None" "blks s (Suc (Suc (nextb s))) = None" "blks s (Suc (Suc (Suc (nextb s)))) = None"
    using f [of 0] f [of 1] f [of 2] f [of 3] by (simp_all add: numeral_eq_Suc)
  show ?thesis
    using n f0
    by (auto simp: setup_buffers_goto_def bnd_def run_printf run_modify run_ret sg_malloc_run sg_memset_run sg_free_run fun_eq_iff set_up_def
        split: if_splits)
qed

section \<open>The two methods write the same file\<close>

definition layout :: string where
  "layout = replicate A_HOLE_LEN nul @ replicate A_LEN (CHR ''A'') @ replicate B_HOLE_LEN nul @ replicate B_LEN (CHR ''B'') @
     replicate C_HOLE_LEN nul @ replicate C_LEN (CHR ''C'')"

lemma sg_write_run:
  "calls s = [] \<Longrightarrow> p \<noteq> NULL \<Longrightarrow> blks s p = Some b \<Longrightarrow> length b = n \<Longrightarrow> 0 < n \<Longrightarrow>
   sg_write p n s = (Return (int n), s\<lparr>data := overwrite (pos s) b (data s), pos := pos s + n\<rparr>)"
  by (auto simp: sg_write_def sg_bytes_def sg_put_def sg_answer_def prog_eval deref_def Let_def)

lemma seek_write_run:
  "calls s = [] \<Longrightarrow> buf s \<noteq> NULL \<Longrightarrow> blks s (buf s) = Some b \<Longrightarrow> length b = n \<Longrightarrow> 0 < n \<Longrightarrow> (\<And>x. buf (s\<lparr>pos := x\<rparr>) = buf s) \<Longrightarrow>
   seek_write ch line off buf n s = (Return (), s\<lparr>data := overwrite off b (data s), pos := off + n\<rparr>)"
  by (simp add: seek_write_def sg_lseek_def sg_answer_def prog_eval sg_write_run)

lemma normal_way_run:
  assumes "set_up s" "calls s = []" "data s = []"
  shows "\<exists>s'. wr_discontig_the_normal_way s = (Return 0, s') \<and> data s' = layout \<and> blks s' = blks s \<and>
    gbufA s' = gbufA s \<and> gbufB s' = gbufB s \<and> gbufC s' = gbufC s"
  using assms
  by (simp add: wr_discontig_the_normal_way_def prog_eval run_printf seek_write_run set_up_def sg_lens overwrite_def layout_def)

lemma better_way_run:
  assumes "set_up s" "calls s = []" "data s = []" "pos s = 0"
  shows "\<exists>s'. wr_discontig_the_better_SGIO_way s = (Return 0, s') \<and> data s' = layout \<and> blks s' = blks s \<and>
    gbufA s' = gbufA s \<and> gbufB s' = gbufB s \<and> gbufC s' = gbufC s"
  using assms
  by (simp add: wr_discontig_the_better_SGIO_way_def sg_iov_def sg_writev_def sg_bytes_def sg_put_def sg_answer_def prog_eval run_printf
      deref_def set_up_def sg_lens overwrite_def layout_def Let_def)

lemma sg_main_run:
  assumes "sg_fresh s" "bmem s = []" "calls s = []" "0 \<le> sg_open s" "atoi arg \<in> {0, 1}"
  shows "\<exists>s'. sg_main [name, arg] s = (Exited EXIT_SUCCESS, s') \<and> data s' = layout \<and>
    blks s' = (blks s)(nextb s + 3 \<mapsto> replicate (A_HOLE_LEN + B_HOLE_LEN + C_HOLE_LEN) nul)"
proof -
  obtain r s1 where s1: "setup_buffers_goto s = (Return r, s1)"
    "r = 0 \<and> set_up s1 \<and> blks s1 = (blks s)(gbufA s1 \<mapsto> replicate A_LEN (CHR ''A''), gbufB s1 \<mapsto> replicate B_LEN (CHR ''B''),
       gbufC s1 \<mapsto> replicate C_LEN (CHR ''C''), gbuf_hole s1 \<mapsto> replicate (A_HOLE_LEN + B_HOLE_LEN + C_HOLE_LEN) nul) \<and>
       gbufA s1 = nextb s \<and> gbufB s1 = nextb s + 1 \<and> gbufC s1 = nextb s + 2 \<and> gbuf_hole s1 = nextb s + 3 \<and> calls s1 = [] \<and> sg_open s1 = sg_open s"
    using setup_outcome [OF assms(1)] assms(2,3) by auto
  let ?s2 = "s1\<lparr>data := [], pos := 0\<rparr>"
  have "set_up ?s2" "calls ?s2 = []" "data ?s2 = []" "pos ?s2 = 0" using s1(2) by (simp_all add: set_up_def)
  then obtain s3 where s3: "(if atoi arg = 0 then wr_discontig_the_normal_way else wr_discontig_the_better_SGIO_way) ?s2 = (Return 0, s3)"
    "data s3 = layout" "blks s3 = blks s1" "gbufA s3 = gbufA s1" "gbufB s3 = gbufB s1" "gbufC s3 = gbufC s1"
    using normal_way_run [of ?s2] better_way_run [of ?s2] by (cases "atoi arg = 0") auto
  have n: "blks s (nextb s) = None" "blks s (nextb s + 1) = None" "blks s (nextb s + 2) = None" "nextb s \<noteq> NULL" using assms(1) by (auto simp: sg_fresh_def)
  have "sg_main [name, arg] s =
    (Exited EXIT_SUCCESS, s3\<lparr>blks := (blks s3)(gbufC s3 := None, gbufB s3 := None, gbufA s3 := None)\<rparr>)"
    using assms(4,5) s1 s3 n
    by (auto simp: sg_main_def Let_def bnd_def run_gets run_modify run_ret run_exit sg_free_run set_up_def)
  moreover have "(blks s3)(gbufC s3 := None, gbufB s3 := None, gbufA s3 := None) =
    (blks s)(nextb s + 3 \<mapsto> replicate (A_HOLE_LEN + B_HOLE_LEN + C_HOLE_LEN) nul)"
    using s1(2) s3(3-6) n by (auto simp: fun_eq_iff)
  ultimately show ?thesis using s3(2) by simp
qed

text \<open>
  C27. The two methods of \<^verbatim>\<open>sgio_simple.c\<close> are equivalent: with memory and no failing call, the program with option 0 and the
  program with option 1 both exit with success and leave the same file, the three buffers at their offsets with zeros in the
  holes. Both free the three buffers and leave \<^verbatim>\<open>gbuf_hole\<close> allocated.
\<close>

theorem sgio_methods_agree:
  assumes "sg_fresh s" "bmem s = []" "calls s = []" "0 \<le> sg_open s"
  shows "\<exists>s0 s1. sg_main [name, ''0''] s = (Exited EXIT_SUCCESS, s0) \<and> sg_main [name, ''1''] s = (Exited EXIT_SUCCESS, s1) \<and>
    data s0 = layout \<and> data s1 = layout \<and> blks s0 = blks s1 \<and>
    blks s1 = (blks s)(nextb s + 3 \<mapsto> replicate (A_HOLE_LEN + B_HOLE_LEN + C_HOLE_LEN) nul)"
proof -
  have "atoi ''0'' = 0" "atoi ''1'' = 1" by code_simp+
  then show ?thesis using sg_main_run [OF assms, of "''0''" name] sg_main_run [OF assms, of "''1''" name] by auto
qed

definition sg_boot :: sgio where
  "sg_boot = \<lparr>bout = [], berrno = None, bmem = [], gVerbose = False, blks = Map.empty, nextb = 1, gbufA = 0, gbufB = 0, gbufC = 0, gbuf_hole = 0,
     data = ''old'', pos = 0, calls = [], sg_open = 3\<rparr>"

theorem sgio_methods_agree_witness:
  "sg_fresh sg_boot \<and> (\<exists>s0 s1. sg_main [''sgio'', ''0''] sg_boot = (Exited 0, s0) \<and> sg_main [''sgio'', ''1''] sg_boot = (Exited 0, s1) \<and> data s0 = data s1)"
proof -
  have b: "sg_fresh sg_boot" "bmem sg_boot = []" "calls sg_boot = []" "0 \<le> sg_open sg_boot" by (simp_all add: sg_fresh_def sg_boot_def)
  from sgio_methods_agree [OF b, of "''sgio''"] b show ?thesis by force
qed

text \<open>
  They differ when calls fail: the first method reports a failing write and exits, the second method's result is ignored by
  main, which exits with success and an empty file.
\<close>

lemma sgio_writev_ignored:
  assumes "sg_fresh s" "bmem s = []" "calls s = -1 # cs" "0 \<le> sg_open s"
  shows "\<exists>s'. sg_main [name, ''1''] s = (Exited EXIT_SUCCESS, s') \<and> data s' = []"
proof -
  obtain s1 where s1: "setup_buffers_goto s = (Return 0, s1)" "set_up s1"
    "gbufA s1 = nextb s" "gbufB s1 = nextb s + 1" "gbufC s1 = nextb s + 2" "calls s1 = -1 # cs" "sg_open s1 = sg_open s"
    using setup_outcome [OF assms(1)] assms(2,3) by auto
  have "atoi ''1'' = 1" by code_simp
  then show ?thesis
    using assms(1,4) s1
    by (auto simp: sg_fresh_def sg_main_def Let_def bnd_def run_gets run_modify run_ret run_exit run_printf sg_free_run set_up_def
        wr_discontig_the_better_SGIO_way_def sg_iov_def sg_writev_def sg_bytes_def sg_put_def sg_answer_def deref_def)
qed

end
