(* ===== verification/Hex_Dump.thy ===== *)
theory Hex_Dump
  imports Book_Common
begin

text \<open>
  The dump of a mapped file, \<^verbatim>\<open>src/booksrc/ch18/mmap_file_simple.c\<close>. A character array is the list of its bytes, written through
  \<open>poke\<close>, which faults outside the array. \<open>mfile\<close> is the file, the other fields are the results of the system calls.
\<close>

section \<open>Arrays and numbers\<close>

text \<open>\<^verbatim>\<open>memcpy(buf + k, xs, length xs)\<close>, and the string a character array holds.\<close>

definition poke :: "nat \<Rightarrow> string \<Rightarrow> string \<Rightarrow> ('x, string) bprog" where
  "poke k xs buf = (if k + length xs \<le> length buf then ret (take k buf @ xs @ drop (k + length xs) buf) else fault OutOfBounds)"

definition c_str :: "string \<Rightarrow> string" where
  "c_str buf = takeWhile (\<lambda>c. c \<noteq> nul) buf"

text \<open>\<^verbatim>\<open>%06d\<close> after a plus sign, and \<^verbatim>\<open>%02x\<close> of a byte.\<close>

definition numeral_text :: "int \<Rightarrow> string" where
  "numeral_text x = ''+'' @ (if x < 0 then ''-'' @ pad (CHR ''0'') 5 (show_int (- x)) else pad (CHR ''0'') 6 (show_int x))"

definition hex_digit :: "nat \<Rightarrow> char" where
  "hex_digit n = ''0123456789abcdef'' ! n"

definition hex2 :: "char \<Rightarrow> string" where
  "hex2 c = (let n = of_char c :: nat in [hex_digit (n div 16), hex_digit (n mod 16)])"

definition ascii_of :: "char \<Rightarrow> char" where
  "ascii_of c = (let n = of_char c :: nat in if n > 31 \<and> n < 127 then c else CHR ''.'')"

section \<open>hex\_dump\<close>

text \<open>The loop: \<open>i\<close> the index in the data, \<open>j\<close> the column; it gives the array and the column at the end.\<close>

fun dump_loop :: "int \<Rightarrow> int \<Rightarrow> nat \<Rightarrow> string \<Rightarrow> string \<Rightarrow> ('x, string \<times> nat) bprog" where
  "dump_loop offset i j buffer [] = ret (buffer, j)"
| "dump_loop offset i j buffer (d # ds) =
     bnd (if j = 16 then
            sq (printf (c_str buffer))
            (bnd (poke 0 (replicate (58 + 16) (CHR '' '')) buffer) (\<lambda>buffer.
             bnd (poke 0 (take 7 (numeral_text (i32 (i + offset)))) buffer) (\<lambda>buffer.
             ret (buffer, 0))))
          else ret (buffer, j)) (\<lambda>(buffer, j).
     bnd (poke (8 + j * 3) (hex2 d) buffer) (\<lambda>buffer.
     bnd (poke (58 + j) [ascii_of d] buffer) (\<lambda>buffer.
     dump_loop offset (i + 1) (j + 1) buffer ds)))"

definition ruler :: string where
  "ruler = ''        +0          +4          +8          +c            0   4   8   c   '' @ [nl]"

text \<open>\<open>data\<close> are the \<^verbatim>\<open>size\<close> bytes the loop reads; \<open>p\<close> is how \<^verbatim>\<open>%p\<close> shows their address.\<close>

definition hex_dump :: "string \<Rightarrow> string \<Rightarrow> int \<Rightarrow> string option \<Rightarrow> int \<Rightarrow> ('x, unit) bprog" where
  "hex_dump data p offset caption verbose =
     (let buffer = replicate 128 nul; temp = numeral_text offset in
      sq (case caption of Some cap \<Rightarrow>
            if verbose \<noteq> 0 then printf (''---------> '' @ cap @ '' <--------- ('' @ show_nat (length data) @ '' bytes from '' @ p @ '')'' @ [nl]) else ret ()
          | None \<Rightarrow> ret ())
      (sq (printf ruler)
      (bnd (poke 0 (replicate (58 + 16) (CHR '' '')) buffer) (\<lambda>buffer.
       bnd (poke (58 + 16) [nl] buffer) (\<lambda>buffer.
       bnd (poke (58 + 17) [nul] buffer) (\<lambda>buffer.
       bnd (poke 0 ''+'' buffer) (\<lambda>buffer.
       bnd (poke 1 (take 6 (drop 1 temp)) buffer) (\<lambda>buffer.
       bnd (dump_loop offset 0 0 buffer data) (\<lambda>(buffer, j).
       if j \<noteq> 0 then printf (c_str buffer) else ret ())))))))))"

section \<open>main\<close>

record mmapped = bk +
  mfile :: string
  m_open :: int
  m_fstat :: bool
  m_mmap :: bool
  m_base :: int
  m_page :: int
  m_shown :: "int \<Rightarrow> string"
  m_msync :: int
  m_munmap :: int

definition atol :: "string \<Rightarrow> int" where
  "atol str = fst (strtol10 str)"

definition mm_loc :: "nat \<Rightarrow> string" where
  "mm_loc = place ''mmap_file_simple.c'' ''main''"

definition check_or_fatal :: "bool \<Rightarrow> nat \<Rightarrow> string \<Rightarrow> (mmapped, unit) cprog" where
  "check_or_fatal ok line msg = (if ok then ret () else FATAL (mm_loc line) msg)"

text \<open>
  The bytes \<^verbatim>\<open>hex_dump(data_src + off, off, len, ...)\<close> reads; the parameters are \<^verbatim>\<open>int\<close>s. Bytes outside the file are not mapped.
\<close>

definition mapped_bytes :: "int \<Rightarrow> int \<Rightarrow> (mmapped, string) cprog" where
  "mapped_bytes off len =
     bnd (gets (\<lambda>s. (mfile s, m_mmap s))) (\<lambda>(f, ok).
     let size = i32 len in
     if size \<le> 0 then ret []
     else if \<not> ok \<or> off < 0 \<or> off + size > int (length f) then fault OutOfBounds
     else ret (take (nat size) (drop (nat off) f)))"

definition mmap_main :: "string list \<Rightarrow> (mmapped, int) cprog" where
  "mmap_main argv =
     (let argc = length argv in
      if argc < 2 \<or> argc > 4 \<or> argc = 3 then
        sq (eprintf (''Usage: '' @ argv ! 0 @ '' source-file [start_offset length]'' @ [nl] @
          '' Either specify Both start_offset and length or don'' @ [CHR 0x27] @ ''t specify either'' @ [nl] @
          '' If specified, both start_offset and length are taken into account'' @ [nl] @
          '' If not, we dump the entire file.'' @ [nl])) (exit_with EXIT_FAILURE)
      else
      bnd (gets (\<lambda>s. s)) (\<lambda>e.
      sq (check_or_fatal (m_open e \<ge> 0) 116 ''open: src file'')
      (sq (check_or_fatal (m_fstat e) 120 (''fstat on src file '' @ argv ! 1 @ '' failed'' @ [nl]))
      (let fsz = int (length (mfile e)) in
      sq (check_or_fatal (fsz \<noteq> 0) 124 (''source-file '' @ argv ! 1 @ '' size 0 bytes, aborting...'' @ [nl]))
      (let len = (if argc = 4 then atol (argv ! 3) else fsz) in
      sq (check_or_fatal (argc = 4 \<longrightarrow> len > 0) 130 (''invalid length '' @ show_int len @ '', aborting...'' @ [nl]))
      (let off = (if argc \<ge> 3 then atol (argv ! 2) else 0) in
      sq (check_or_fatal (argc \<ge> 3 \<longrightarrow> \<not> (off < 0 \<or> i64 (off + len) > fsz)) 136 (''invalid offset or offset/length combination, aborting...'' @ [nl]))
      (sq (check_or_fatal (m_mmap e) 150 (''mmap: to src file '' @ argv ! 1 @ '' failed'' @ [nl]))
      (sq (if m_base e mod m_page e \<noteq> 0 then WARN (mm_loc 153) (''mmap: not aligned to page boundary'' @ [nl]) else ret ())
      (sq (VPRINT (mm_loc 154) (''fsz='' @ show_int fsz @ ''  mmap_base = '' @ m_shown e (m_base e) @ [nl]))
      (bnd (mapped_bytes off len) (\<lambda>d.
      sq (hex_dump d (m_shown e (m_base e + off)) (i32 off) (Some ''Data'') 0)
      (sq (if m_msync e < 0 then WARN (mm_loc 162) (''mysnc failed'' @ [nl]) else ret ())
      (sq (check_or_fatal (m_munmap e \<noteq> -1) 165 (''munmap failed'' @ [nl]))
      (exit_with EXIT_SUCCESS))))))))))))))"

section \<open>What the dump looks like\<close>

text \<open>A line of the dump, written down at once, and the bytes in rows of sixteen.\<close>

definition hex_line :: "int \<Rightarrow> string \<Rightarrow> string" where
  "hex_line off c = take 7 (numeral_text off) @ '' '' @ concat (map (\<lambda>d. hex2 d @ '' '') c) @ replicate (3 * (16 - length c)) (CHR '' '') @ ''  '' @
     map ascii_of c @ replicate (16 - length c) (CHR '' '') @ [nl]"

function rows :: "string \<Rightarrow> string list" where
  "rows xs = (if xs = [] then [] else take 16 xs # rows (drop 16 xs))"
  by pat_completeness auto
termination
  by (relation "measure length") auto

declare rows.simps [simp del]

fun dump_lines :: "int \<Rightarrow> string list \<Rightarrow> string list" where
  "dump_lines off [] = []"
| "dump_lines off (c # cs) = hex_line off c # dump_lines (i32 (off + 16)) cs"

lemma length_numeral_text: "7 \<le> length (numeral_text x)"
  by (simp add: numeral_text_def pad_def) linarith

lemma length_hex2 [simp]: "length (hex2 d) = 2"
  by (simp add: hex2_def Let_def)

lemma length_hexes [simp]: "length (concat (map (\<lambda>d. hex2 d @ '' '') c)) = 3 * length c"
  by (induction c) simp_all

lemma length_hex_line: "length c \<le> 16 \<Longrightarrow> length (hex_line off c) = 75"
  using length_numeral_text [of off] by (simp add: hex_line_def)

lemma poke_app: "length p = k \<Longrightarrow> length m = length xs \<Longrightarrow> poke k xs (p @ m @ q) s = (Return (p @ xs @ q), s)"
  by (simp add: poke_def prog_eval)

text \<open>The array while a line is being filled: the line of the bytes so far, a terminator, and the rest.\<close>

definition line_buf :: "int \<Rightarrow> string \<Rightarrow> string" where
  "line_buf off c = hex_line off c @ replicate 53 nul"

lemma fill_column:
  assumes "length c < 16"
  shows "bnd (poke (8 + length c * 3) (hex2 d) (line_buf off c)) (\<lambda>b. bnd (poke (58 + length c) [ascii_of d] b) f) s = f (line_buf off (c @ [d])) s"
proof -
  let ?P = "take 7 (numeral_text off) @ '' '' @ concat (map (\<lambda>d. hex2 d @ '' '') c)"
  obtain m where m: "16 - length c = Suc m" using assms by (metis Suc_diff_Suc)
  then have m': "16 - length (c @ [d]) = m" by simp
  let ?S = "replicate (3 * m) (CHR '' '')" and ?T = "replicate m (CHR '' '') @ [nl] @ replicate 53 nul"
  have lP: "length ?P = 8 + length c * 3" using length_numeral_text [of off] by simp
  have 1: "line_buf off c = ?P @ ''  '' @ ('' '' @ ?S @ ''  '' @ map ascii_of c @ '' '' @ ?T)"
    unfolding line_buf_def hex_line_def m by (simp add: replicate_add numeral_eq_Suc)
  let ?P2 = "?P @ hex2 d @ '' '' @ ?S @ ''  '' @ map ascii_of c"
  have lP2: "length ?P2 = 58 + length c" using lP m by simp
  have 2: "line_buf off (c @ [d]) = ?P2 @ [ascii_of d] @ ?T" unfolding line_buf_def hex_line_def m' by simp
  have "poke (8 + length c * 3) (hex2 d) (line_buf off c) s = (Return (?P @ hex2 d @ ('' '' @ ?S @ ''  '' @ map ascii_of c @ '' '' @ ?T)), s)"
    unfolding 1 by (rule poke_app [OF lP]) simp
  moreover have "poke (58 + length c) [ascii_of d] (?P2 @ '' '' @ ?T) s = (Return (line_buf off (c @ [d])), s)"
    unfolding 2 by (rule poke_app [OF lP2]) simp
  ultimately show ?thesis by (simp add: bnd_def)
qed

text \<open>No byte of a line is the terminator.\<close>

lemma show_int_no_nul: "nul \<notin> set (show_int x)"
  using show_nat_digits [of "nat x"] show_nat_digits [of "nat (- x)"] by (auto simp: show_int_def isdigit_def)

lemma numeral_no_nul: "nul \<notin> set (numeral_text x)"
  using show_int_no_nul [of x] show_int_no_nul [of "- x"] by (auto simp: numeral_text_def pad_def)

lemma hex_digit_set: "n < 16 \<Longrightarrow> hex_digit n \<in> set ''0123456789abcdef''"
  unfolding hex_digit_def by (rule nth_mem) simp

lemma hex2_digits: "set (hex2 d) \<subseteq> set ''0123456789abcdef''"
proof -
  have "of_char d < (256 :: nat)" by simp
  then have "(of_char d :: nat) div 16 < 16" by (simp add: less_mult_imp_div_less)
  with hex_digit_set [of "of_char d div 16"] hex_digit_set [of "of_char d mod 16"] show ?thesis by (simp add: hex2_def Let_def)
qed

lemma ascii_no_nul: "ascii_of d \<noteq> nul"
  by (auto simp: ascii_of_def Let_def)

lemma hex_line_no_nul: "nul \<notin> set (hex_line off c)"
proof -
  have "nul \<notin> set (hex2 d)" for d using hex2_digits [of d] by auto
  moreover have "nul \<notin> set (take 7 (numeral_text off))" using numeral_no_nul by (meson in_set_takeD)
  moreover have "nul \<notin> set (map ascii_of c)" using ascii_no_nul by fastforce
  ultimately show ?thesis by (auto simp: hex_line_def)
qed

lemma c_str_line: "c_str (line_buf off c) = hex_line off c"
proof -
  have "\<forall>x \<in> set (hex_line off c). x \<noteq> nul" using hex_line_no_nul by metis
  then show ?thesis by (simp add: c_str_def line_buf_def takeWhile_append2)
qed

text \<open>A new line.\<close>

lemma fresh_line:
  assumes "length b = 128" "drop 74 b = [nl] @ replicate 53 nul"
  shows "bnd (poke 0 (replicate 74 (CHR '' '')) b) (\<lambda>b. bnd (poke 0 (take 7 (numeral_text o')) b) f) s = f (line_buf o' []) s"
proof -
  have n: "length (take 7 (numeral_text o')) = 7" using length_numeral_text [of o'] by simp
  have 1: "poke 0 (replicate 74 (CHR '' '')) b s = (Return (replicate 7 (CHR '' '') @ replicate 67 (CHR '' '') @ [nl] @ replicate 53 nul), s)"
    using assms by (simp add: poke_def prog_eval numeral_eq_Suc)
  have 2: "poke 0 (take 7 (numeral_text o')) ([] @ replicate 7 (CHR '' '') @ (replicate 67 (CHR '' '') @ [nl] @ replicate 53 nul)) s =
    (Return ([] @ take 7 (numeral_text o') @ (replicate 67 (CHR '' '') @ [nl] @ replicate 53 nul)), s)"
    by (rule poke_app) (simp_all only: n list.size length_replicate)
  have 3: "line_buf o' [] = take 7 (numeral_text o') @ (replicate 67 (CHR '' '') @ [nl] @ replicate 53 nul)"
    by (simp add: line_buf_def hex_line_def numeral_eq_Suc)
  from 1 2 3 show ?thesis by (simp add: bnd_def)
qed

lemma line_buf_end: "length c \<le> 16 \<Longrightarrow> drop 74 (line_buf off c) = [nl] @ replicate 53 nul \<and> length (line_buf off c) = 128"
proof -
  assume c: "length c \<le> 16"
  then have l: "length (hex_line off c) = 75" by (rule length_hex_line)
  have "\<exists>P. hex_line off c = P @ [nl]" unfolding hex_line_def append_assoc [symmetric] by blast
  then obtain P where P: "hex_line off c = P @ [nl]" by blast
  with l have "length P = 74" by simp
  with P show ?thesis by (simp add: line_buf_def)
qed

section \<open>The loop fills the lines one after another\<close>

lemma i32_i32_add: "i32 (i32 x + y) = i32 (x + y)"
  by (simp add: i32_def mod_simps algebra_simps)

lemma rows_short: "c \<noteq> [] \<Longrightarrow> length c \<le> 16 \<Longrightarrow> rows c = [c]"
  by (subst rows.simps) (simp add: rows.simps)

lemma rows_full: "length c = 16 \<Longrightarrow> rows (c @ ds) = c # rows ds"
  by (subst rows.simps) auto

lemma dump_loop_run:
  assumes "length c \<le> 16" "off = i32 (i - int (length c) + offset)"
  shows "\<exists>pre lo lc. dump_loop offset i (length c) (line_buf off c) ds s = (Return (line_buf lo lc, length lc), s\<lparr>bout := bout s @ map Out pre\<rparr>) \<and>
    length lc \<le> 16 \<and> (if c @ ds = [] then pre = [] \<and> lc = [] else lc \<noteq> [] \<and> dump_lines off (rows (c @ ds)) = pre @ [hex_line lo lc])"
  using assms
proof (induction ds arbitrary: c off i s)
  case Nil
  show ?case
  proof (intro exI conjI)
    show "dump_loop offset i (length c) (line_buf off c) [] s = (Return (line_buf off c, length c), s\<lparr>bout := bout s @ map Out []\<rparr>)" by (simp add: prog_eval)
    show "length c \<le> 16" by fact
    show "if c @ [] = [] then [] = [] \<and> c = [] else c \<noteq> [] \<and> dump_lines off (rows (c @ [])) = [] @ [hex_line off c]"
      using Nil by (simp add: rows_short)
  qed
next
  case (Cons d ds)
  show ?case
  proof (cases "length c = 16")
    case True
    let ?o = "i32 (i + offset)"
    let ?s = "s\<lparr>bout := bout s @ [Out (hex_line off c)]\<rparr>"
    have e: "dump_loop offset i (length c) (line_buf off c) (d # ds) s = dump_loop offset (i + 1) (length [d]) (line_buf ?o [d]) ds ?s"
    proof -
      have "dump_loop offset i (length c) (line_buf off c) (d # ds) s =
        bnd (bnd (poke 0 (replicate 74 (CHR '' '')) (line_buf off c)) (\<lambda>b. bnd (poke 0 (take 7 (numeral_text ?o)) b) (\<lambda>b. ret (b, 0))))
          (\<lambda>(buffer, j). bnd (poke (8 + j * 3) (hex2 d) buffer) (\<lambda>buffer. bnd (poke (58 + j) [ascii_of d] buffer) (\<lambda>buffer.
           dump_loop offset (i + 1) (j + 1) buffer ds))) ?s"
        using True by (simp add: bnd_def run_printf c_str_line)
      also have "\<dots> = bnd (poke (8 + length ([] :: string) * 3) (hex2 d) (line_buf ?o [])) (\<lambda>b. bnd (poke (58 + length ([] :: string)) [ascii_of d] b) (\<lambda>b.
           dump_loop offset (i + 1) 1 b ds)) ?s"
        using fresh_line [of "line_buf off c" ?o "\<lambda>b. ret (b, 0 :: nat)" ?s] line_buf_end [of c off] True by (simp add: bnd_def [of "bnd _ _"] run_ret)
      also have "\<dots> = dump_loop offset (i + 1) 1 (line_buf ?o ([] @ [d])) ds ?s" by (rule fill_column) simp
      finally show ?thesis by simp
    qed
    have o: "i32 (off + 16) = ?o" using Cons.prems(2) True by (simp add: i32_i32_add)
    from Cons.IH [of "[d]" ?o "i + 1" ?s] obtain pre lo lc where
      r: "dump_loop offset (i + 1) (length [d]) (line_buf ?o [d]) ds ?s = (Return (line_buf lo lc, length lc), ?s\<lparr>bout := bout ?s @ map Out pre\<rparr>)"
      "length lc \<le> 16" "lc \<noteq> []" "dump_lines ?o (rows ([d] @ ds)) = pre @ [hex_line lo lc]" by auto
    show ?thesis
      by (rule exI [of _ "hex_line off c # pre"], rule exI [of _ lo], rule exI [of _ lc])
        (use e r o True in \<open>simp add: rows_full\<close>)
  next
    case False
    with Cons.prems have c: "length c < 16" by simp
    have e: "dump_loop offset i (length c) (line_buf off c) (d # ds) s = dump_loop offset (i + 1) (length (c @ [d])) (line_buf off (c @ [d])) ds s"
      using False fill_column [OF c, of d off "\<lambda>b. dump_loop offset (i + 1) (length c + 1) b ds" s]
      by (simp add: bnd_def [of "ret _"] run_ret)
    from Cons.IH [of "c @ [d]" off "i + 1" s] c Cons.prems(2) show ?thesis unfolding e by simp
  qed
qed

section \<open>The dump can be read back\<close>

fun unhex_digit :: "char \<Rightarrow> nat" where
  "unhex_digit c = (if isdigit c then of_char c - 48 else of_char c - 87)"

fun read_pairs :: "string \<Rightarrow> string" where
  "read_pairs (a # b # _ # r) = (if a = CHR '' '' then [] else char_of (16 * unhex_digit a + unhex_digit b) # read_pairs r)"
| "read_pairs _ = []"

text \<open>The bytes of a printed line: the pairs of digits between the offset and the characters.\<close>

definition undump :: "string \<Rightarrow> string" where
  "undump l = read_pairs (take 50 (drop 8 l))"

lemma unhex_hex: "n < 16 \<Longrightarrow> unhex_digit (hex_digit n) = n"
proof -
  have "list_all (\<lambda>n. unhex_digit (hex_digit n) = n) [0..<16]" by code_simp
  then show "n < 16 \<Longrightarrow> unhex_digit (hex_digit n) = n" by (simp add: list_all_iff)
qed

lemma read_hexes: "read_pairs (concat (map (\<lambda>d. hex2 d @ '' '') c) @ CHR '' '' # CHR '' '' # r) = c"
proof (induction c)
  case Nil
  show ?case by (cases r) simp_all
next
  case (Cons d c)
  let ?n = "of_char d :: nat"
  have n: "?n div 16 < 16" using less_mult_imp_div_less [of ?n 16 16] by simp
  have "hex_digit (?n div 16) \<noteq> CHR '' ''" using hex_digit_set [OF n] by auto
  with Cons n show ?case by (simp add: hex2_def Let_def unhex_hex del: unhex_digit.simps)
qed

lemma take_drop_mid: "length xs = a \<Longrightarrow> length ys = b \<Longrightarrow> take b (drop a (xs @ ys @ zs)) = ys"
  by simp

lemma undump_hex_line: "length c \<le> 16 \<Longrightarrow> undump (hex_line off c) = c"
proof -
  assume c: "length c \<le> 16"
  let ?H = "concat (map (\<lambda>d. hex2 d @ '' '') c)"
  let ?k = "3 * (16 - length c)"
  have p: "replicate ?k (CHR '' '') @ ''  '' = CHR '' '' # CHR '' '' # replicate ?k (CHR '' '')"
    by (simp add: replicate_app_Cons_same)
  have "length (take 7 (numeral_text off) @ '' '') = 8" using length_numeral_text [of off] by simp
  moreover have "length (?H @ replicate ?k (CHR '' '') @ ''  '') = 50" using c by simp
  moreover have "hex_line off c = (take 7 (numeral_text off) @ '' '') @ (?H @ replicate ?k (CHR '' '') @ ''  '') @
     (map ascii_of c @ replicate (16 - length c) (CHR '' '') @ [nl])" by (simp add: hex_line_def)
  ultimately have "take 50 (drop 8 (hex_line off c)) = ?H @ replicate ?k (CHR '' '') @ ''  ''" by (simp only: take_drop_mid)
  then show ?thesis unfolding undump_def p by (simp only: read_hexes)
qed

lemma concat_rows: "concat (rows xs) = xs" "\<forall>c \<in> set (rows xs). length c \<le> 16"
  by (induction xs rule: rows.induct, subst rows.simps, simp, subst rows.simps, simp)

lemma undump_dump_lines: "\<forall>c \<in> set cs. length c \<le> 16 \<Longrightarrow> concat (map undump (dump_lines off cs)) = concat cs"
  by (induction off cs rule: dump_lines.induct) (simp_all add: undump_hex_line)

text \<open>The array before the loop.\<close>

lemma first_buffer:
  "bnd (poke 0 (replicate 74 (CHR '' '')) (replicate 128 nul)) (\<lambda>b. bnd (poke 74 [nl] b) (\<lambda>b. bnd (poke 75 [nul] b) (\<lambda>b.
   bnd (poke 0 ''+'' b) (\<lambda>b. bnd (poke 1 (take 6 (drop 1 (numeral_text offset))) b) f)))) s = f (line_buf offset []) s"
proof -
  let ?sp = "\<lambda>n. replicate n (CHR '' '')" and ?z = "replicate 52 nul"
  let ?t = "take 6 (drop 1 (numeral_text offset))"
  have lt: "length ?t = 6" using length_numeral_text [of offset] by simp
  have 1: "poke 0 (?sp 74) (replicate 128 nul) s = (Return (?sp 74 @ [nul] @ nul # ?z), s)"
    using poke_app [of "[]" 0 "replicate 74 nul" "?sp 74" "nul # nul # ?z" s] by (simp add: numeral_eq_Suc)
  have 2: "poke 74 [nl] (?sp 74 @ [nul] @ nul # ?z) s = (Return ((?sp 74 @ [nl]) @ [nul] @ ?z), s)"
    using poke_app [of "?sp 74" 74 "[nul]" "[nl]" "nul # ?z" s] by simp
  have 3: "poke 75 [nul] ((?sp 74 @ [nl]) @ [nul] @ ?z) s = (Return ([] @ '' '' @ (?sp 6 @ ?sp 67 @ nl # nul # ?z)), s)"
    using poke_app [of "?sp 74 @ [nl]" 75 "[nul]" "[nul]" ?z s] by (simp add: numeral_eq_Suc)
  have 4: "poke 0 ''+'' ([] @ '' '' @ (?sp 6 @ ?sp 67 @ nl # nul # ?z)) s = (Return (''+'' @ ?sp 6 @ (?sp 67 @ nl # nul # ?z)), s)"
    using poke_app [of "[]" 0 "'' ''" "''+''" "?sp 6 @ ?sp 67 @ nl # nul # ?z" s] by simp
  have 5: "poke 1 ?t (''+'' @ ?sp 6 @ (?sp 67 @ nl # nul # ?z)) s = (Return (''+'' @ ?t @ (?sp 67 @ nl # nul # ?z)), s)"
    by (rule poke_app) (use lt in simp_all)
  have "''+'' @ ?t = take 7 (numeral_text offset)" by (simp add: numeral_text_def numeral_eq_Suc)
  moreover have "line_buf offset [] = take 7 (numeral_text offset) @ (?sp 67 @ nl # nul # ?z)"
    by (simp add: line_buf_def hex_line_def numeral_eq_Suc)
  ultimately have 6: "''+'' @ ?t @ (?sp 67 @ nl # nul # ?z) = line_buf offset []" by (metis append_assoc)
  show ?thesis by (simp only: bnd_def 1 2 3 4 5 6 prod.case outcome.case)
qed

lemma hex_dump_run:
  assumes "INT_MIN \<le> offset" "offset \<le> INT_MAX"
  shows "hex_dump data p offset caption 0 s = (Return (), s\<lparr>bout := bout s @ Out ruler # map Out (dump_lines offset (rows data))\<rparr>)"
proof -
  let ?s = "s\<lparr>bout := bout s @ [Out ruler]\<rparr>"
  have z: "length ([] :: string) \<le> 16" by simp
  have o: "offset = i32 (0 - int (length ([] :: string)) + offset)" using assms by (simp add: i32_id)
  have "hex_dump data p offset caption 0 s =
    bnd (dump_loop offset 0 0 (line_buf offset []) data) (\<lambda>(buffer, j). if j \<noteq> 0 then printf (c_str buffer) else ret ()) ?s"
    unfolding hex_dump_def Let_def
    by (simp add: bnd_def [of "case_option _ _ _"] bnd_def [of "printf _"] bnd_def [of "ret _"] run_printf run_ret first_buffer [unfolded One_nat_def] option.case_eq_if)
  also obtain pre lo lc where r: "dump_loop offset 0 (length ([] :: string)) (line_buf offset []) data ?s = (Return (line_buf lo lc, length lc), ?s\<lparr>bout := bout ?s @ map Out pre\<rparr>)"
    "if data = [] then pre = [] \<and> lc = [] else lc \<noteq> [] \<and> dump_lines offset (rows data) = pre @ [hex_line lo lc]"
    using dump_loop_run [OF z o, of data ?s, unfolded append_Nil] by blast
  then have "bnd (dump_loop offset 0 0 (line_buf offset []) data) (\<lambda>(buffer, j). if j \<noteq> 0 then printf (c_str buffer) else ret ()) ?s =
    (Return (), s\<lparr>bout := bout s @ Out ruler # map Out (dump_lines offset (rows data))\<rparr>)"
    by (cases "data = []") (auto simp: bnd_def run_printf run_ret c_str_line rows.simps [of "[]"])
  finally show ?thesis .
qed

section \<open>What the program dumps\<close>

lemma atol_show_int: "LONG_MIN \<le> x \<Longrightarrow> x \<le> LONG_MAX \<Longrightarrow> atol (show_int x) = x"
  using strtol10_show_int [of x "[]"] by (simp add: atol_def)

definition all_well :: "mmapped \<Rightarrow> bool" where
  "all_well s \<longleftrightarrow> 0 \<le> m_open s \<and> m_fstat s \<and> m_mmap s \<and> m_base s mod m_page s = 0 \<and> 0 \<le> m_msync s \<and> m_munmap s \<noteq> -1"

lemma mmap_main_run:
  assumes "all_well s" "int (length (mfile s)) \<le> INT_MAX" "0 \<le> off" "0 < len" "off + len \<le> int (length (mfile s))"
  shows "\<exists>s' pre. mmap_main [name, path, show_int off, show_int len] s = (Exited EXIT_SUCCESS, s') \<and>
    bout s' = bout s @ pre @ map Out (dump_lines off (rows (take (nat len) (drop (nat off) (mfile s))))) \<and> length pre \<le> 2"
proof -
  have a: "atol (show_int off) = off" "atol (show_int len) = len" using assms(2-5) by (simp_all add: atol_show_int)
  have i: "i32 len = len" "i32 off = off" "i64 (off + len) = off + len" "INT_MIN \<le> off" "off \<le> INT_MAX"
    using assms(2-5) by (simp_all add: i32_id i64_def)
  have f: "mfile s \<noteq> []" using assms(3-5) by auto
  let ?d = "take (nat len) (drop (nat off) (mfile s))"
  let ?v = "if gVerbose s then [Out (mm_loc 154 @ ''fsz='' @ show_int (int (length (mfile s))) @ ''  mmap_base = '' @ m_shown s (m_base s) @ [nl])] else []"
  have m: "mmap_main [name, path, show_int off, show_int len] s = (Exited EXIT_SUCCESS, s\<lparr>bout := bout s @ (?v @ [Out ruler]) @ map Out (dump_lines off (rows ?d))\<rparr>)"
    using assms a i f
    by (cases "gVerbose s")
      (simp_all add: mmap_main_def Let_def all_well_def check_or_fatal_def mapped_bytes_def bnd_def run_gets run_ret run_exit run_VPRINT hex_dump_run)
  show ?thesis
    by (rule exI, rule exI [of _ "?v @ [Out ruler]"], rule conjI, rule m, simp)
qed

text \<open>
  C25. The dump of \<^verbatim>\<open>mmap_file_simple.c\<close> can be read back: asked for \<open>len\<close> bytes from \<open>off\<close> on, the program prints lines of 75
  characters whose pairs of hexadecimal digits are exactly these bytes of the file, and exits with success; it never writes
  outside its line buffer.
\<close>

theorem mmap_dump_readable:
  assumes "all_well s" "int (length (mfile s)) \<le> INT_MAX" "0 \<le> off" "0 < len" "off + len \<le> int (length (mfile s))"
  shows "\<exists>s' pre ls. mmap_main [name, path, show_int off, show_int len] s = (Exited EXIT_SUCCESS, s') \<and>
    bout s' = bout s @ pre @ map Out ls \<and> length pre \<le> 2 \<and> (\<forall>l \<in> set ls. length l = 75) \<and>
    concat (map undump ls) = take (nat len) (drop (nat off) (mfile s))"
proof -
  let ?d = "take (nat len) (drop (nat off) (mfile s))"
  obtain s' pre where r: "mmap_main [name, path, show_int off, show_int len] s = (Exited EXIT_SUCCESS, s')"
    "bout s' = bout s @ pre @ map Out (dump_lines off (rows ?d))" "length pre \<le> 2" using mmap_main_run [OF assms] by blast
  have "\<forall>c \<in> set cs. length c \<le> 16 \<Longrightarrow> \<forall>l \<in> set (dump_lines off cs). length l = 75" for off cs
    by (induction off cs rule: dump_lines.induct) (simp_all add: length_hex_line)
  then have "\<forall>l \<in> set (dump_lines off (rows ?d)). length l = 75" using concat_rows(2) by blast
  moreover have "concat (map undump (dump_lines off (rows ?d))) = ?d" using undump_dump_lines concat_rows by metis
  ultimately show ?thesis using r by blast
qed

definition mm_boot :: mmapped where
  "mm_boot = \<lparr>bout = [], berrno = None, bmem = [], gVerbose = True, mfile = ''The quick brown fox'', m_open = 3, m_fstat = True, m_mmap = True,
     m_base = 4096, m_page = 4096, m_shown = (\<lambda>_. ''0x1000''), m_msync = 0, m_munmap = 0\<rparr>"

theorem mmap_dump_readable_witness:
  "\<exists>s' pre ls. mmap_main [''mm'', ''f'', show_int 4, show_int 5] mm_boot = (Exited 0, s') \<and> bout s' = pre @ map Out ls \<and> concat (map undump ls) = ''quick''"
proof -
  have "all_well mm_boot" "int (length (mfile mm_boot)) \<le> INT_MAX" "(0::int) \<le> 4" "(0::int) < 5" "4 + 5 \<le> int (length (mfile mm_boot))"
    by (simp_all add: all_well_def mm_boot_def)
  from mmap_dump_readable [OF this, of "''mm''" "''f''"] show ?thesis by (auto simp: mm_boot_def)
qed

text \<open>
  The check of the range adds two \<^verbatim>\<open>long\<close>s: with the largest offset the sum wraps, the check passes, and the program reads outside
  the mapping.
\<close>

lemma mmap_range_wraps:
  assumes "all_well s" "mfile s \<noteq> []" "int (length (mfile s)) \<le> LONG_MAX"
  shows "fst (mmap_main [name, path, show_int LONG_MAX, show_int 1] s) = Faulted OutOfBounds"
proof -
  have "atol (show_int LONG_MAX) = LONG_MAX" "atol (show_int 1) = 1" by (rule atol_show_int; simp)+
  moreover have "i64 (LONG_MAX + 1) = LONG_MIN" "i32 1 = 1" by (simp_all add: i64_def i32_def)
  ultimately show ?thesis
    using assms by (simp add: mmap_main_def Let_def all_well_def check_or_fatal_def mapped_bytes_def bnd_def run_gets run_ret run_fault run_VPRINT)
qed

end
