(* ===== verification/Shared_Mutex.thy ===== *)
theory Shared_Mutex
  imports Sync_Demos Hex_Dump
begin

text \<open>
  The mutex shared between processes, \<^verbatim>\<open>src/booksrc/ch15/pshared_mutex_demo.c\<close>: a thread of the parent (number 0) and the child
  (number 1) each write a signature and a message into a buffer in shared memory, under a mutex in shared memory. Each of the two
  is a list of pieces, cut where the other can come in between; \<open>psh_step\<close> interleaves them in every way. \<open>shm_results\<close> are
  the results of the coming calls on shared memory segments and of \<^verbatim>\<open>wait\<close> (a success when used up), \<open>fork_ok\<close> that of \<^verbatim>\<open>fork\<close>.
\<close>

section \<open>Shared memory\<close>

record psh = mtx +
  gshmbuf :: string
  ppid :: int
  cpid :: int
  shm_results :: "int list"
  shm_shown :: "int \<Rightarrow> string"
  fork_ok :: bool
  once_done :: bool
  ppcs :: "nat \<Rightarrow> nat"
  pended :: "int option"

definition GBUFSIZE :: nat where "GBUFSIZE = 128"

definition overlay :: "nat \<Rightarrow> string \<Rightarrow> string \<Rightarrow> string" where
  "overlay k xs b = take k b @ xs @ drop (k + length xs) b"

text \<open>\<^verbatim>\<open>memset\<close> and \<^verbatim>\<open>snprintf\<close> into the buffer.\<close>

definition shm_put :: "nat \<Rightarrow> string \<Rightarrow> (psh, unit) cprog" where
  "shm_put k xs = bnd (gets gshmbuf) (\<lambda>b. if k + length xs \<le> length b then modify (\<lambda>s. s\<lparr>gshmbuf := overlay k xs b\<rparr>) else fault OutOfBounds)"

definition shm_snprintf :: "nat \<Rightarrow> nat \<Rightarrow> string \<Rightarrow> (psh, unit) cprog" where
  "shm_snprintf k n msg = shm_put k (take (n - 1) msg @ [nul])"

definition shm_call :: "int \<Rightarrow> (psh, int) cprog" where
  "shm_call dflt = (\<lambda>s. case shm_results s of [] \<Rightarrow> (Return dflt, s) | r # rs \<Rightarrow> (Return r, s\<lparr>shm_results := rs\<rparr>))"

definition ps_loc :: "string \<Rightarrow> nat \<Rightarrow> string" where
  "ps_loc = place ''pshared_mutex_demo.c''"

section \<open>Showing the buffer\<close>

definition isprint :: "char \<Rightarrow> bool" where
  "isprint c \<longleftrightarrow> 32 \<le> (of_char c :: nat) \<and> (of_char c :: nat) < 127"

definition print_line :: "string \<Rightarrow> nat \<Rightarrow> nat \<Rightarrow> (psh, unit) cprog" where
  "print_line buf start numbytes =
     (if start + numbytes > length buf then fault OutOfBounds else
      let bs = take numbytes (drop start buf) in
      printf (pad (CHR ''0'') 8 (show_nat start) @ ''  '' @ concat (map (\<lambda>c. hex2 c @ '' '') bs) @ ''          '' @
        map (\<lambda>c. if isprint c then c else CHR ''.'') bs @ [nl]))"

definition showbuf :: "string \<Rightarrow> (psh, unit) cprog" where
  "showbuf buf = foldr (\<lambda>i p. sq (print_line buf (i * 16) 16) p) [0..<GBUFSIZE div 16] (ret ())"

section \<open>The thread and the child\<close>

definition thread_msg :: "psh \<Rightarrow> string" where
  "thread_msg s = ''thread '' @ show_int (ppid s) @ '' here!'' @ [nl]"

definition child_msg :: "psh \<Rightarrow> string" where
  "child_msg s = ''child '' @ show_int (cpid s) @ '' here!'' @ [nl]"

definition ps_worker :: "(psh, unit) cprog list" where
  "ps_worker =
    [sq (bnd (gets ppid) (\<lambda>p. printf (''Worker thread #0 ['' @ show_int p @ ''] running ...'' @ [nl])))
       (printf ('' [thrd 0]: attempting to take the shared mutex lock...'' @ [nl])),
     MTX_LOCK (ps_loc ''worker'' 90) 0,
     printf ('' [thrd 0]: got the (shared) lock!'' @ [nl]),
     shm_put 25 (replicate 5 (CHR ''t'')),
     bnd (gets thread_msg) (shm_snprintf 31 32),
     MTX_UNLOCK (ps_loc ''worker'' 98),
     printf (''#0: work done, exiting now'' @ [nl])]"

text \<open>\<^verbatim>\<open>init_mutex\<close>, and \<^verbatim>\<open>pthread_once\<close>, which calls it the first time and has a result of its own.\<close>

definition or_failed :: "string \<Rightarrow> nat \<Rightarrow> string \<Rightarrow> (psh, unit) cprog" where
  "or_failed fn line what = bnd call_ret (\<lambda>r. if r \<noteq> 0 then FATAL (ps_loc fn line) (what @ '' failed ['' @ show_int r @ '']'' @ [nl]) else ret ())"

definition init_mutex :: "int \<Rightarrow> (psh, unit) cprog" where
  "init_mutex pid =
     sq (printf (''[pthread_once(): calls init_mutex(): from PID '' @ show_int pid @ '']'' @ [nl]))
     (sq (or_failed ''init_mutex'' 145 ''pthread_mutexattr_init'')
     (sq (or_failed ''init_mutex'' 149 ''pthread_mutexattr_setpshared'')
     (sq (or_failed ''init_mutex'' 156 ''pthread_mutex_init'')
     (modify (\<lambda>s. s\<lparr>mtx_owner := None\<rparr>)))))"

definition pthread_once :: "nat \<Rightarrow> (psh \<Rightarrow> int) \<Rightarrow> (psh, unit) cprog" where
  "pthread_once line pid =
     sq (bnd (gets (\<lambda>s. (once_done s, pid s))) (\<lambda>(d, p). if d then ret () else sq (init_mutex p) (modify (\<lambda>s. s\<lparr>once_done := True\<rparr>))))
     (or_failed ''main'' line ''pthread_once'')"

definition ps_child :: "(psh, unit) cprog list" where
  "ps_child =
    [sq (pthread_once 230 cpid)
       (bnd (gets cpid) (\<lambda>p. printf ('' Child['' @ show_int p @ '']: attempting to taking the shared mutex lock...'' @ [nl]))),
     MTX_LOCK (ps_loc ''main'' 234) 1,
     bnd (gets cpid) (\<lambda>p. printf ('' Child['' @ show_int p @ '']: got the (shared) lock!'' @ [nl])),
     shm_put 0 (replicate 5 (CHR ''c'')),
     bnd (gets child_msg) (shm_snprintf 6 32),
     MTX_UNLOCK (ps_loc ''main'' 242)]"

definition ps_code :: "nat \<Rightarrow> (psh, unit) cprog list" where
  "ps_code t = (if t = 0 then ps_worker else ps_child)"

text \<open>
  A move: an exit of the thread ends the parent's process, one of the child only the child. After the parent has ended the
  child can still go on.
\<close>

definition ps_move :: "nat \<Rightarrow> psh \<Rightarrow> psh option" where
  "ps_move t s =
     (if ppcs s t \<ge> length (ps_code t) \<or> t = 0 \<and> pended s \<noteq> None then None else
      case (ps_code t ! ppcs s t) s of
        (Return _, s') \<Rightarrow> Some (s'\<lparr>ppcs := (ppcs s')(t := ppcs s t + 1)\<rparr>)
      | (Exited n, s') \<Rightarrow> Some (if t = 0 then s'\<lparr>pended := Some n\<rparr> else s'\<lparr>ppcs := (ppcs s')(t := length (ps_code t))\<rparr>)
      | _ \<Rightarrow> None)"

inductive ps_step :: "psh \<Rightarrow> psh \<Rightarrow> bool" where
  ps_step: "t < 2 \<Longrightarrow> ps_move t s = Some s' \<Longrightarrow> ps_step s s'"

inductive_cases ps_stepE: "ps_step s s'"

fun ps_run :: "nat list \<Rightarrow> psh \<Rightarrow> psh" where
  "ps_run [] s = s"
| "ps_run (t # ts) s = ps_run ts (case ps_move t s of None \<Rightarrow> s | Some s' \<Rightarrow> s')"

section \<open>main\<close>

text \<open>\<^verbatim>\<open>shmem_setup\<close>: the segment is new, or the one of the key (0), or there is none; attaching it can fail too.\<close>

definition shmem_setup :: "string \<Rightarrow> (psh, int) cprog" where
  "shmem_setup name =
     bnd (shm_call 0) (\<lambda>id.
     bnd (if id < 0 then shm_call 0 else ret id) (\<lambda>id.
     sq (if id < 0 then FATAL (ps_loc ''shmem_setup'' 119) (''shmget failed'' @ [nl]) else ret ())
     (bnd (gets ppid) (\<lambda>p.
     sq (printf (name @ '':'' @ show_int p @ '': shmem segment successfully created / accessed. ID='' @ show_int id @ [nl]))
     (bnd (shm_call 4096) (\<lambda>a.
     sq (if a = -1 then FATAL (ps_loc ''shmem_setup'' 127) (''shmat failed'' @ [nl]) else ret ())
     (bnd (gets shm_shown) (\<lambda>f.
     sq (printf (name @ '':'' @ show_int p @ '': Attached successfully to shmem segment at '' @ f a @ [nl]))
     (ret a)))))))))"

text \<open>The first access to a segment that is not there.\<close>

definition attached :: "nat \<Rightarrow> string \<Rightarrow> int \<Rightarrow> (psh, unit) cprog" where
  "attached line msg a =
     sq (if a = 0 then FATAL (ps_loc ''main'' line) (msg @ [nl]) else ret ())
     (if a = 0 \<or> a = -1 then fault BadDeref else ret ())"

definition ps_running :: "nat list \<Rightarrow> (psh, unit) cprog" where
  "ps_running sched = sq (modify (ps_run sched)) (bnd (gets pended) (\<lambda>e. case e of None \<Rightarrow> ret () | Some n \<Rightarrow> exit_with n))"

definition shm_or :: "(string \<Rightarrow> string \<Rightarrow> (psh, unit) cprog) \<Rightarrow> nat \<Rightarrow> string \<Rightarrow> (psh, unit) cprog" where
  "shm_or report line msg = bnd (shm_call 0) (\<lambda>r. if r < 0 then report (ps_loc ''main'' line) (msg @ [nl]) else ret ())"

text \<open>
  The thread alone runs by \<open>sched0\<close> until the fork, both by \<open>sched\<close> after it. \<^verbatim>\<open>wait\<close> blocks until the child is through, the join until
  the thread is. A fork that fails and is not fatal falls into the child's branch; the process then has no child of its own.
\<close>

definition ps_main :: "nat list \<Rightarrow> nat list \<Rightarrow> string list \<Rightarrow> (psh, int) cprog" where
  "ps_main sched0 sched argv =
     sq (bnd (shmem_setup (argv ! 0)) (attached 179 ''shmem setup 1 failed''))
     (sq (bnd (shmem_setup (argv ! 0)) (attached 191 ''shmem setup 2 failed''))
     (sq (modify (\<lambda>s. s\<lparr>gshmbuf := replicate GBUFSIZE nul, once_done := False\<rparr>))
     (sq (pthread_once 209 ppid)
     (sq (or_failed ''main'' 213 ''pthread_attr_init'')
     (sq (bnd call_ret (\<lambda>r. if r \<noteq> 0 then FATAL (ps_loc ''main'' 219) (''pthread_create() failed! ['' @ show_int r @ '']'' @ [nl])
          else modify (\<lambda>s. s\<lparr>ppcs := (\<lambda>t. if t = 0 then 0 else length (ps_code t))\<rparr>)))
     (sq (ps_running sched0)
     (bnd (gets fork_ok) (\<lambda>ok.
      sq (if \<not> ok then sq (FATAL (ps_loc ''main'' 226) (''fork failed!'' @ [nl])) (modify (\<lambda>s. s\<lparr>cpid := ppid s\<rparr>)) else ret ())
      (sq (modify (\<lambda>s. s\<lparr>ppcs := (ppcs s)(1 := 0)\<rparr>))
      (sq (ps_running sched)
      (bnd (gets (\<lambda>s. ppcs s 1 = length (ps_code 1))) (\<lambda>child_through.
      if \<not> child_through then blocked else
      if \<not> ok then exit_with EXIT_SUCCESS else
      sq (shm_or WARN 247 ''wait failed'')
      (sq (printf (''main: joining (waiting) upon thread #0 ...'' @ [nl]))
      (bnd (gets (\<lambda>s. ppcs s 0 = length (ps_code 0))) (\<lambda>thread_through.
      if \<not> thread_through then blocked else
      sq (bnd call_ret (\<lambda>r. if r \<noteq> 0 then WARN (ps_loc ''main'' 255) (''pthread_join() failed! ['' @ show_int r @ '']'' @ [nl])
          else printf (''Thread #0 successfully joined; it terminated with status=0'' @ [nl])))
      (sq (printf ([nl] @ ''Shared Memory '' @ [CHR 0x27] @ ''comm'' @ [CHR 0x27] @ '' buffer:'' @ [nl]))
      (sq (bnd (gets gshmbuf) showbuf)
      (sq (shm_or WARN 266 ''Shmem segment detach 1 failed'')
      (sq (shm_or FATAL 268 ''Deletion of shmem segment 1 failed'')
      (sq (shm_or WARN 271 ''Shmem segment detach 2 failed'')
      (sq (shm_or FATAL 273 ''Deletion of shmem segment 2 failed'')
      (exit_with 0))))))))))))))))))))))"

section \<open>Writes that do not meet\<close>

lemma length_overlay [simp]: "k + length xs \<le> length b \<Longrightarrow> length (overlay k xs b) = length b"
  by (simp add: overlay_def)

lemma nth_overlay: "k + length xs \<le> length b \<Longrightarrow> i < length b \<Longrightarrow> overlay k xs b ! i = (if k \<le> i \<and> i < k + length xs then xs ! (i - k) else b ! i)"
  by (auto simp: overlay_def nth_append min_def)

lemma overlay_commute:
  assumes "k + length xs \<le> j" "j + length ys \<le> length b"
  shows "overlay k xs (overlay j ys b) = overlay j ys (overlay k xs b)"
  using assms by (intro nth_equalityI) (auto simp: nth_overlay)

text \<open>What each side has written when it is at a place of its list.\<close>

definition thread_wrote :: "nat \<Rightarrow> psh \<Rightarrow> string \<Rightarrow> string" where
  "thread_wrote n s b = (let b1 = (if n > 3 then overlay 25 (replicate 5 (CHR ''t'')) b else b) in
     if n > 4 then overlay 31 (take 31 (thread_msg s) @ [nul]) b1 else b1)"

definition child_wrote :: "nat \<Rightarrow> psh \<Rightarrow> string \<Rightarrow> string" where
  "child_wrote n s b = (let b1 = (if n > 3 then overlay 0 (replicate 5 (CHR ''c'')) b else b) in
     if n > 4 then overlay 6 (take 31 (child_msg s) @ [nul]) b1 else b1)"

definition locked_at :: "nat \<Rightarrow> bool" where
  "locked_at n \<longleftrightarrow> 2 \<le> n \<and> n \<le> 5"

text \<open>
  The state while nothing fails: the mutex is with the one that is between its lock and its unlock, and the buffer holds what
  both have written, the order being of no matter as long as the child's message ends before byte 25.
\<close>

definition psh_ok :: "psh \<Rightarrow> bool" where
  "psh_ok s \<longleftrightarrow> rets s = [] \<and> once_done s \<and> pended s = None \<and> ppcs s 0 \<le> 7 \<and> ppcs s 1 \<le> 6 \<and>
     mtx_owner s = (if locked_at (ppcs s 0) then Some 0 else if locked_at (ppcs s 1) then Some 1 else None) \<and>
     \<not> (locked_at (ppcs s 0) \<and> locked_at (ppcs s 1)) \<and>
     length (child_msg s) \<le> 18 \<and> length (thread_msg s) \<le> 31 \<and>
     gshmbuf s = child_wrote (ppcs s 1) s (thread_wrote (ppcs s 0) s (replicate GBUFSIZE nul))"

lemma lengths: "length ps_worker = 7" "length ps_child = 6"
  by (simp_all add: ps_worker_def ps_child_def)

lemma child_wrote_length [simp]: "length (child_msg s) \<le> 18 \<Longrightarrow> 25 \<le> length b \<Longrightarrow> length (child_wrote n s b) = length b"
  by (simp add: child_wrote_def Let_def)

lemma thread_wrote_length [simp]: "length (thread_msg s) \<le> 31 \<Longrightarrow> 63 \<le> length b \<Longrightarrow> length (thread_wrote n s b) = length b"
  by (simp add: thread_wrote_def Let_def)

lemma child_wrote_commute:
  assumes "length (child_msg s) \<le> 18" "25 \<le> k" "k + length xs \<le> length b"
  shows "overlay k xs (child_wrote n s b) = child_wrote n s (overlay k xs b)"
proof -
  have "overlay k xs (overlay j ys c) = overlay j ys (overlay k xs c)" if "j + length ys \<le> 25" "length c = length b" for j ys c
    using overlay_commute [of j ys k xs c] assms that by simp
  with assms show ?thesis by (simp add: child_wrote_def Let_def)
qed

lemma wrote_cong: "ppid s' = ppid s \<Longrightarrow> thread_wrote n s' = thread_wrote n s" "cpid s' = cpid s \<Longrightarrow> child_wrote n s' = child_wrote n s"
  by (auto simp: thread_wrote_def child_wrote_def thread_msg_def child_msg_def fun_eq_iff Let_def)

lemma buf_length: "psh_ok s \<Longrightarrow> length (gshmbuf s) = 128"
  by (simp add: psh_ok_def GBUFSIZE_def)

text \<open>One move of each side.\<close>

definition thread_write :: "nat \<Rightarrow> psh \<Rightarrow> string \<Rightarrow> string" where
  "thread_write n s b = (if n = 3 then overlay 25 (replicate 5 (CHR ''t'')) b
     else if n = 4 then overlay 31 (take 31 (thread_msg s) @ [nul]) b else b)"

definition child_write :: "nat \<Rightarrow> psh \<Rightarrow> string \<Rightarrow> string" where
  "child_write n s b = (if n = 3 then overlay 0 (replicate 5 (CHR ''c'')) b
     else if n = 4 then overlay 6 (take 31 (child_msg s) @ [nul]) b else b)"

definition moved_owner :: "nat \<Rightarrow> nat \<Rightarrow> nat option \<Rightarrow> nat option" where
  "moved_owner t n own = (if n = 1 then Some t else if n = 5 then None else own)"

lemma less_7: "(n :: nat) < 7 \<Longrightarrow> n = 0 \<or> n = 1 \<or> n = 2 \<or> n = 3 \<or> n = 4 \<or> n = 5 \<or> n = 6"
  by arith

lemmas ps_eval = ps_move_def ps_code_def prog_eval run_printf MTX_LOCK_def MTX_UNLOCK_def run_call_ret blocked_def shm_put_def shm_snprintf_def

lemma thread_move:
  assumes ok: "psh_ok s" and n: "ppcs s 0 = n" "n < 7" and free: "n = 1 \<Longrightarrow> mtx_owner s = None"
  shows "\<exists>l. ps_move 0 s = Some (s\<lparr>bout := bout s @ l, mtx_owner := moved_owner 0 n (mtx_owner s),
    gshmbuf := thread_write n s (gshmbuf s), ppcs := (ppcs s)(0 := n + 1)\<rparr>)"
proof -
  have e: "rets s = []" "pended s = None" "length (gshmbuf s) = 128" "length (thread_msg s) \<le> 31" using ok buf_length by (auto simp: psh_ok_def)
  from less_7 [OF n(2)] n free e show ?thesis
    by (elim disjE) (auto simp: ps_eval ps_worker_def moved_owner_def thread_write_def intro: exI [of _ "[]"])
qed

lemma child_move:
  assumes ok: "psh_ok s" and n: "ppcs s 1 = n" "n < 6" and free: "n = 1 \<Longrightarrow> mtx_owner s = None"
  shows "\<exists>l. ps_move 1 s = Some (s\<lparr>bout := bout s @ l, mtx_owner := moved_owner 1 n (mtx_owner s),
    gshmbuf := child_write n s (gshmbuf s), ppcs := (ppcs s)(1 := n + 1)\<rparr>)"
proof -
  have e: "rets s = []" "length (gshmbuf s) = 128" "length (child_msg s) \<le> 18" "once_done s" using ok buf_length by (auto simp: psh_ok_def)
  from n(2) have "n < 7" by simp
  from less_7 [OF this] n free e show ?thesis
    by (elim disjE) (auto simp: ps_eval ps_child_def pthread_once_def or_failed_def moved_owner_def child_write_def intro: exI [of _ "[]"])
qed

lemma blocked_moves:
  assumes "mtx_owner s \<noteq> None"
  shows "ppcs s 0 = 1 \<Longrightarrow> ps_move 0 s = None" "ppcs s 1 = 1 \<Longrightarrow> ps_move 1 s = None"
  using assms by (auto simp: ps_eval ps_worker_def ps_child_def)

lemma wrote_Suc:
  "thread_wrote (n + 1) s b = thread_write n s (thread_wrote n s b)" "child_wrote (n + 1) s b = child_write n s (child_wrote n s b)"
  by (auto simp: thread_wrote_def thread_write_def child_wrote_def child_write_def Let_def)

lemma thread_write_commute:
  "length (child_msg s) \<le> 18 \<Longrightarrow> length (thread_msg s) \<le> 31 \<Longrightarrow> length b = 128 \<Longrightarrow> thread_write n s (child_wrote m s b) = child_wrote m s (thread_write n s b)"
  by (simp add: thread_write_def child_wrote_commute)

lemma owner_step:
  assumes "own = (if locked_at n then Some t else if locked_at m then Some u else None)" "\<not> (locked_at n \<and> locked_at m)" "n = 1 \<Longrightarrow> own = None"
  shows "moved_owner t n own = (if locked_at (n + 1) then Some t else if locked_at m then Some u else None) \<and> \<not> (locked_at (n + 1) \<and> locked_at m)"
proof -
  consider "n = 0" | "n = 1" | "n = 2 \<or> n = 3 \<or> n = 4" | "n = 5" | "5 < n" by linarith
  then show ?thesis using assms by cases (auto simp: moved_owner_def locked_at_def split: if_splits)
qed

lemma move_ok:
  assumes ok: "psh_ok s" and t: "t < 2" and mv: "ps_move t s = Some s'"
  shows "psh_ok s'"
proof -
  let ?z = "replicate GBUFSIZE nul"
  have ends: "ppcs s 0 = 7 \<Longrightarrow> ps_move 0 s = None" "ppcs s 1 = 6 \<Longrightarrow> ps_move 1 s = None" by (auto simp: ps_move_def ps_code_def lengths)
  have wl: "length (thread_wrote (ppcs s 0) s (replicate GBUFSIZE nul)) = 128" using ok by (simp add: psh_ok_def GBUFSIZE_def)
  have own: "mtx_owner s = (if locked_at (ppcs s 0) then Some 0 else if locked_at (ppcs s 1) then Some 1 else None)"
    "\<not> (locked_at (ppcs s 0) \<and> locked_at (ppcs s 1))" using ok by (auto simp: psh_ok_def)
  have buf: "gshmbuf s = child_wrote (ppcs s 1) s (thread_wrote (ppcs s 0) s ?z)" using ok by (simp add: psh_ok_def)
  have base: "rets s = []" "once_done s" "pended s = None" "ppcs s 0 \<le> 7" "ppcs s 1 \<le> 6" "length (child_msg s) \<le> 18" "length (thread_msg s) \<le> 31"
    using ok by (simp_all add: psh_ok_def)
  consider "t = 0" | "t = 1" using t by linarith
  then show ?thesis
  proof cases
    case 1
    let ?n = "ppcs s 0"
    have n: "?n < 7" using ok ends mv 1 by (auto simp: psh_ok_def le_less)
    have f: "mtx_owner s = None" if "?n = 1" using blocked_moves(1) that mv 1 by (cases "mtx_owner s") auto
    obtain l where s': "s' = s\<lparr>bout := bout s @ l, mtx_owner := moved_owner 0 ?n (mtx_owner s), gshmbuf := thread_write ?n s (gshmbuf s), ppcs := (ppcs s)(0 := ?n + 1)\<rparr>"
      using thread_move [OF ok refl n f] mv 1 by auto
    have pcs: "ppcs s' 1 = ppcs s 1" "ppcs s' 0 = ?n + 1" by (simp_all add: s')
    have same: "thread_wrote k s' = thread_wrote k s" "child_wrote k s' = child_wrote k s" for k by (rule wrote_cong; simp add: s')+
    have "gshmbuf s' = thread_write ?n s (child_wrote (ppcs s 1) s (thread_wrote ?n s ?z))" unfolding buf [symmetric] by (simp add: s')
    also have "\<dots> = child_wrote (ppcs s 1) s (thread_wrote (?n + 1) s ?z)"
      using base(6,7) wl by (simp only: wrote_Suc thread_write_commute)
    also have "\<dots> = child_wrote (ppcs s' 1) s' (thread_wrote (ppcs s' 0) s' ?z)" by (simp only: same pcs)
    finally have g: "gshmbuf s' = child_wrote (ppcs s' 1) s' (thread_wrote (ppcs s' 0) s' ?z)" .
    have "mtx_owner s' = (if locked_at (ppcs s' 0) then Some 0 else if locked_at (ppcs s' 1) then Some 1 else None)" "\<not> (locked_at (ppcs s' 0) \<and> locked_at (ppcs s' 1))"
      using owner_step [OF own f] pcs by (simp_all add: s')
    moreover have "rets s' = []" "once_done s'" "pended s' = None" "ppcs s' 0 \<le> 7" "ppcs s' 1 \<le> 6" "length (child_msg s') \<le> 18" "length (thread_msg s') \<le> 31"
      using base n by (simp_all add: s' child_msg_def thread_msg_def)
    ultimately show ?thesis using g unfolding psh_ok_def by blast
  next
    case 2
    let ?n = "ppcs s 1"
    have own': "mtx_owner s = (if locked_at ?n then Some 1 else if locked_at (ppcs s 0) then Some 0 else None)" "\<not> (locked_at ?n \<and> locked_at (ppcs s 0))"
      using own by auto
    have n: "?n < 6" using ok ends mv 2 by (auto simp: psh_ok_def le_less)
    have f: "mtx_owner s = None" if "?n = 1" using blocked_moves(2) that mv 2 by (cases "mtx_owner s") auto
    obtain l where s': "s' = s\<lparr>bout := bout s @ l, mtx_owner := moved_owner 1 ?n (mtx_owner s), gshmbuf := child_write ?n s (gshmbuf s), ppcs := (ppcs s)(1 := ?n + 1)\<rparr>"
      using child_move [OF ok refl n f] mv 2 by auto
    have pcs: "ppcs s' 0 = ppcs s 0" "ppcs s' 1 = ?n + 1" by (simp_all add: s')
    have same: "thread_wrote k s' = thread_wrote k s" "child_wrote k s' = child_wrote k s" for k by (rule wrote_cong; simp add: s')+
    have "gshmbuf s' = child_wrote (?n + 1) s (thread_wrote (ppcs s 0) s ?z)" unfolding wrote_Suc buf [symmetric] by (simp add: s')
    also have "\<dots> = child_wrote (ppcs s' 1) s' (thread_wrote (ppcs s' 0) s' ?z)" by (simp only: same pcs)
    finally have g: "gshmbuf s' = child_wrote (ppcs s' 1) s' (thread_wrote (ppcs s' 0) s' ?z)" .
    have "mtx_owner s' = (if locked_at (ppcs s' 0) then Some 0 else if locked_at (ppcs s' 1) then Some 1 else None)" "\<not> (locked_at (ppcs s' 0) \<and> locked_at (ppcs s' 1))"
      using owner_step [OF own' f] pcs by (auto simp: s')
    moreover have "rets s' = []" "once_done s'" "pended s' = None" "ppcs s' 0 \<le> 7" "ppcs s' 1 \<le> 6" "length (child_msg s') \<le> 18" "length (thread_msg s') \<le> 31"
      using base n by (simp_all add: s' child_msg_def thread_msg_def)
    ultimately show ?thesis using g unfolding psh_ok_def by blast
  qed
qed

lemma run_ok: "(ps_step ^^ k) s s' \<Longrightarrow> psh_ok s \<Longrightarrow> psh_ok s' \<and> k + ppcs s 0 + ppcs s 1 = ppcs s' 0 + ppcs s' 1 \<and> ppid s' = ppid s \<and> cpid s' = cpid s"
proof (induction k arbitrary: s')
  case (Suc k)
  then obtain s1 where s1: "(ps_step ^^ k) s s1" "ps_step s1 s'" by (auto elim: relpowp_Suc_E)
  with Suc have ok: "psh_ok s1" "k + ppcs s 0 + ppcs s 1 = ppcs s1 0 + ppcs s1 1" "ppid s1 = ppid s" "cpid s1 = cpid s" by auto
  from s1(2) obtain t where t: "t < 2" "ps_move t s1 = Some s'" by (rule ps_stepE)
  have "ppcs s' 0 + ppcs s' 1 = ppcs s1 0 + ppcs s1 1 + 1 \<and> ppid s' = ppid s1 \<and> cpid s' = cpid s1"
  proof (cases "t = 0")
    case True
    have n: "ppcs s1 0 < 7" using t(2) True by (auto simp: ps_move_def ps_code_def lengths split: if_splits)
    have "mtx_owner s1 = None" if "ppcs s1 0 = 1" using blocked_moves(1) [of s1] that t(2) True by (cases "mtx_owner s1") auto
    from thread_move [OF ok(1) refl n this] t(2) True show ?thesis by auto
  next
    case False
    then have t1: "t = 1" using t(1) by simp
    have n: "ppcs s1 1 < 6" using t(2) t1 by (auto simp: ps_move_def ps_code_def lengths split: if_splits)
    have "mtx_owner s1 = None" if "ppcs s1 1 = 1" using blocked_moves(2) [of s1] that t(2) t1 by (cases "mtx_owner s1") auto
    from child_move [OF ok(1) refl n this] t(2) t1 show ?thesis by auto
  qed
  with ok move_ok [OF ok(1) t] show ?case by simp
qed auto

text \<open>Nobody waits for ever.\<close>

lemma stuck_end:
  assumes ok: "psh_ok s" and st: "\<And>s'. \<not> ps_step s s'"
  shows "ppcs s 0 = 7 \<and> ppcs s 1 = 6"
proof -
  have none: "ps_move 0 s = None" "ps_move 1 s = None" using st ps_step [of 0 s] ps_step [of 1 s] by (cases "ps_move 0 s"; cases "ps_move 1 s"; auto)+
  have b: "ppcs s 0 \<le> 7" "ppcs s 1 \<le> 6"
    and own: "mtx_owner s = (if locked_at (ppcs s 0) then Some 0 else if locked_at (ppcs s 1) then Some 1 else None)" using ok by (auto simp: psh_ok_def)
  have t: "ppcs s 0 = 7 \<or> ppcs s 0 = 1 \<and> mtx_owner s \<noteq> None" using thread_move [OF ok refl] none(1) b(1)
    by (cases "ppcs s 0 = 7"; cases "ppcs s 0 = 1 \<and> mtx_owner s \<noteq> None") auto
  have c: "ppcs s 1 = 6 \<or> ppcs s 1 = 1 \<and> mtx_owner s \<noteq> None" using child_move [OF ok refl] none(2) b(2)
    by (cases "ppcs s 1 = 6"; cases "ppcs s 1 = 1 \<and> mtx_owner s \<noteq> None") auto
  from t c own show ?thesis by (auto simp: locked_at_def)
qed

lemma overlay_app: "length p = k \<Longrightarrow> length m = length xs \<Longrightarrow> overlay k xs (p @ m @ q) = p @ xs @ q"
  by (simp add: overlay_def)

text \<open>The buffer when both are through.\<close>

definition shared_text :: "string \<Rightarrow> string \<Rightarrow> string" where
  "shared_text cm tm = ''ccccc'' @ [nul] @ cm @ replicate (19 - length cm) nul @ ''ttttt'' @ [nul] @ tm @ replicate (97 - length tm) nul"

lemma final_buffer:
  assumes "length (child_msg s) \<le> 18" "length (thread_msg s) \<le> 31"
  shows "child_wrote 6 s (thread_wrote 7 s (replicate GBUFSIZE nul)) = shared_text (child_msg s) (thread_msg s)"
proof -
  let ?r = "\<lambda>n. replicate n nul" and ?t = "thread_msg s" and ?c = "child_msg s"
  have 1: "overlay 25 (replicate 5 (CHR ''t'')) (?r 25 @ ?r 5 @ ?r 98) = ?r 25 @ replicate 5 (CHR ''t'') @ ?r 98" by (rule overlay_app) simp_all
  have 2: "overlay 31 (?t @ [nul]) ((?r 25 @ ''ttttt'' @ [nul]) @ ?r (length ?t + 1) @ ?r (96 - length ?t)) = (?r 25 @ ''ttttt'' @ [nul]) @ (?t @ [nul]) @ ?r (96 - length ?t)"
    by (rule overlay_app) simp_all
  let ?T = "''ttttt'' @ [nul] @ ?t @ [nul] @ ?r (96 - length ?t)"
  have 3: "overlay 0 (replicate 5 (CHR ''c'')) ([] @ ?r 5 @ (?r 20 @ ?T)) = [] @ replicate 5 (CHR ''c'') @ (?r 20 @ ?T)" by (rule overlay_app) simp_all
  have 4: "overlay 6 (?c @ [nul]) ((''ccccc'' @ [nul]) @ ?r (length ?c + 1) @ (?r (18 - length ?c) @ ?T)) = (''ccccc'' @ [nul]) @ (?c @ [nul]) @ (?r (18 - length ?c) @ ?T)"
    by (rule overlay_app) simp_all
  have z: "replicate GBUFSIZE nul = ?r 25 @ ?r 5 @ ?r 98" by (simp add: GBUFSIZE_def replicate_add [symmetric])
  have s1: "?r 98 = [nul] @ ?r (length ?t + 1) @ ?r (96 - length ?t)" using assms(2)
    by (simp add: replicate_add [symmetric] replicate_Suc [symmetric] del: replicate_Suc)
  have s2: "?r 25 = ?r 5 @ ?r 20" by (simp add: replicate_add [symmetric])
  have s3: "?r 20 = [nul] @ ?r (length ?c + 1) @ ?r (18 - length ?c)" using assms(1)
    by (simp add: replicate_add [symmetric] replicate_Suc [symmetric] del: replicate_Suc)
  have f: "replicate 5 (CHR ''t'') = ''ttttt''" "replicate 5 (CHR ''c'') = ''ccccc''" by (simp_all add: numeral_eq_Suc)
  have a: "overlay 25 (replicate 5 (CHR ''t'')) (replicate GBUFSIZE nul) = (?r 25 @ ''ttttt'' @ [nul]) @ ?r (length ?t + 1) @ ?r (96 - length ?t)"
    by (subst z, subst 1, simp only: s1 f append_assoc)
  have b: "thread_wrote 7 s (replicate GBUFSIZE nul) = [] @ ?r 5 @ (?r 20 @ ?T)"
    using 2 a s2 assms(2) by (simp add: thread_wrote_def Let_def)
  have c: "overlay 0 (replicate 5 (CHR ''c'')) ([] @ ?r 5 @ (?r 20 @ ?T)) = (''ccccc'' @ [nul]) @ ?r (length ?c + 1) @ (?r (18 - length ?c) @ ?T)"
    by (subst 3, simp only: s3 f append_assoc append_Nil)
  have d: "child_wrote 6 s ([] @ ?r 5 @ (?r 20 @ ?T)) = (''ccccc'' @ [nul]) @ (?c @ [nul]) @ (?r (18 - length ?c) @ ?T)"
    unfolding 4 [symmetric] c [symmetric] using assms(1) by (simp add: child_wrote_def Let_def)
  have e: "[nul] @ ?r (18 - length ?c) = ?r (19 - length ?c)" "[nul] @ ?r (96 - length ?t) = ?r (97 - length ?t)"
    using assms by (simp_all add: replicate_Suc [symmetric] Suc_diff_le del: replicate_Suc)
  show ?thesis unfolding b d shared_text_def e [symmetric] by simp
qed


definition psh_boot :: psh where
  "psh_boot = \<lparr>bout = [], berrno = None, bmem = [], gVerbose = False, rets = [], mtx_owner = None, gshmbuf = replicate GBUFSIZE nul, ppid = 4711, cpid = 4712,
     shm_results = [], shm_shown = (\<lambda>_. ''0x1000''), fork_ok = True, once_done = True, ppcs = (\<lambda>_. 0), pended = None\<rparr>"


text \<open>With a number of six digits the child's message ends on the first byte of the thread's signature, and the order of the two decides.\<close>

lemma show_nat_long: "10 ^ d \<le> n \<Longrightarrow> d < length (show_nat n)"
proof (induction d arbitrary: n)
  case (Suc d)
  then have "10 ^ d \<le> n div 10" "10 \<le> n" by (auto simp: less_eq_div_iff_mult_less_eq) (metis Suc.prems le_trans one_le_numeral one_le_power power_increasing power_one_right le_add1 plus_1_eq_Suc)
  with Suc.IH [of "n div 10"] show ?case by (subst show_nat.simps) simp
qed simp

lemma pshared_overlap:
  assumes "100000 \<le> cpid s" "cpid s < 1000000" "length (thread_msg s) \<le> 31"
  shows "thread_wrote 7 s (child_wrote 6 s (replicate GBUFSIZE nul)) ! 25 \<noteq> child_wrote 6 s (thread_wrote 7 s (replicate GBUFSIZE nul)) ! 25"
proof -
  have "length (show_nat (nat (cpid s))) = 6"
  proof -
    have "100000 \<le> nat (cpid s)" "nat (cpid s) < 1000000" using assms(1,2) by linarith+
    with show_nat_long [of 5 "nat (cpid s)"] length_show_nat [of "nat (cpid s)" 5] show ?thesis by simp
  qed
  then have l: "length (child_msg s) = 19" using assms(1) by (simp add: child_msg_def show_int_def)
  show ?thesis using l assms(3) by (simp add: thread_wrote_def child_wrote_def Let_def nth_overlay GBUFSIZE_def nth_append)
qed

end
