(* ===== verification/Joiners.thy ===== *)
theory Joiners
  imports Bank_Facto "HOL-Library.Multiset"
begin

text \<open>
  Threads that are created, work and are joined: \<^verbatim>\<open>src/booksrc/ch14/pthreads_joiner1.c\<close> and \<^verbatim>\<open>pthreads_joiner2.c\<close> pass a number to each
  thread, \<^verbatim>\<open>pthreads_joiner3.c\<close> and \<^verbatim>\<open>pthreads_joiner4.c\<close> of \<^verbatim>\<open>src/booksrc/solutions_to_assgn/ch14\<close> a structure of its own, and
  \<^verbatim>\<open>pthreads_joiner_BUGGY_3.c\<close> one structure for all. Main is a list of pieces, one for each round of its loops; a worker has a
  piece before and one after its sleep. \<open>jo_step\<close> interleaves them in every way. \<open>rets\<close> are the results of the coming pthread
  and clock calls.
\<close>

section \<open>State\<close>

datatype jver = J1 | J2 | J3 | JB | J4

datatype jarg = Num nat | Ptr addr

text \<open>A worker that is not created yet, before its sleep, in it, and at its end.\<close>

datatype jst = New | Started | Asleep | Ended

record joi = threaded +
  pass :: "addr \<rightharpoonup> nat \<times> int"
  nexta :: addr
  passthis :: "nat \<Rightarrow> addr"
  sleeptm :: int
  join_tmout :: int
  targ :: "nat \<Rightarrow> jarg"
  wst :: "nat \<Rightarrow> jst"
  jpc :: nat
  jstopped :: "unit outcome option"

definition NTHREADS :: nat where "NTHREADS = 3"

fun jfile :: "jver \<Rightarrow> string" where
  "jfile J1 = ''pthreads_joiner1.c''" | "jfile J2 = ''pthreads_joiner2.c''" | "jfile J3 = ''pthreads_joiner3.c''"
| "jfile JB = ''pthreads_joiner_BUGGY_3.c''" | "jfile J4 = ''pthreads_joiner4.c''"

text \<open>The lines of the messages about \<^verbatim>\<open>calloc\<close>, \<^verbatim>\<open>pthread_create\<close> and the join.\<close>

fun jlines :: "jver \<Rightarrow> nat list" where
  "jlines J1 = [0, 57, 66]" | "jlines J2 = [0, 59, 68]" | "jlines J3 = [85, 92, 102]" | "jlines JB = [71, 93, 103]" | "jlines J4 = [87, 94, 112]"

definition jloc :: "jver \<Rightarrow> nat \<Rightarrow> string" where
  "jloc v k = place (jfile v) ''main'' (jlines v ! k)"

section \<open>The worker\<close>

definition will_sleep :: "nat \<Rightarrow> int \<Rightarrow> string" where
  "will_sleep n tm = '' worker #'' @ show_nat n @ '': will sleep for '' @ show_int tm @ ''s now ...'' @ [nl]"

definition work_done :: "nat \<Rightarrow> string" where
  "work_done n = '' worker #'' @ show_nat n @ '': work (eyeroll) done, exiting now'' @ [nl]"

definition arg_line :: "nat \<Rightarrow> int \<Rightarrow> string" where
  "arg_line n tm = ''*********** arg->thrdnum='' @ show_nat n @ '' arg->sleeptm='' @ show_int tm @ [nl]"

text \<open>\<^verbatim>\<open>arg->thrdnum\<close> and \<^verbatim>\<open>arg->sleeptm\<close>, or the number that was passed.\<close>

definition read_arg :: "jarg \<Rightarrow> (joi, nat \<times> int) cprog" where
  "read_arg a = (case a of Num n \<Rightarrow> ret (n, 8) | Ptr p \<Rightarrow> deref pass p)"

fun start_lines :: "jver \<Rightarrow> nat \<Rightarrow> int \<Rightarrow> string list" where
  "start_lines J1 n tm = [will_sleep n tm]"
| "start_lines J2 n tm = [will_sleep n (tm - int n)]"
| "start_lines J3 n tm = [arg_line n tm, will_sleep n (tm - int n)]"
| "start_lines JB n tm = [arg_line n tm, will_sleep n (tm - int n)]"
| "start_lines J4 n tm = [will_sleep n (tm - int n)]"

definition put_lines :: "string list \<Rightarrow> (joi, unit) cprog" where
  "put_lines ls = modify (\<lambda>s. s\<lparr>bout := bout s @ map Out ls\<rparr>)"

definition jworker :: "jver \<Rightarrow> nat \<Rightarrow> (joi, jst) cprog" where
  "jworker v t =
     bnd (gets (\<lambda>s. (wst s t, targ s t))) (\<lambda>(st, a).
     case st of
       Started \<Rightarrow> bnd (read_arg a) (\<lambda>(n, tm). sq (put_lines (start_lines v n tm)) (ret Asleep))
     | Asleep \<Rightarrow> bnd (read_arg a) (\<lambda>(n, tm). sq (put_lines [work_done n]) (ret Ended))
     | _ \<Rightarrow> (\<lambda>s. (Blocks, s)))"

section \<open>main\<close>

text \<open>\<^verbatim>\<open>calloc(1, sizeof(struct passit))\<close>.\<close>

definition calloc_passit :: "(joi, addr) cprog" where
  "calloc_passit = bnd malloc_ok (\<lambda>ok. if \<not> ok then ret NULL
     else bnd (gets nexta) (\<lambda>p. sq (modify (\<lambda>s. s\<lparr>nexta := p + 1, pass := (pass s)(p \<mapsto> (0, 0))\<rparr>)) (ret p)))"

definition free_passit :: "addr \<Rightarrow> (joi, unit) cprog" where
  "free_passit p = free pass pass_update p"

definition set_passit :: "addr \<Rightarrow> nat \<Rightarrow> (joi, unit) cprog" where
  "set_passit p i = bnd (gets sleeptm) (\<lambda>tm. store pass pass_update p (\<lambda>_. (i, tm)))"

definition creating :: "nat \<Rightarrow> string" where
  "creating i = ''main: creating thread #'' @ show_nat i @ '' ...'' @ [nl]"

text \<open>\<^verbatim>\<open>pthread_create\<close>, with what is freed when it fails.\<close>

definition jcreate_thread :: "jver \<Rightarrow> nat \<Rightarrow> jarg \<Rightarrow> (joi, unit) cprog" where
  "jcreate_thread v i a =
     bnd call_ret (\<lambda>r.
     if r \<noteq> 0 then
       sq (case a of Num _ \<Rightarrow> ret () | Ptr p \<Rightarrow> free_passit p)
       (FATAL (jloc v 1) (''pthread_create() failed! ['' @ show_int r @ '']'' @ [nl]))
     else modify (\<lambda>s. s\<lparr>targ := (targ s)(i := a), wst := (wst s)(i := Started)\<rparr>))"

definition jcreate :: "jver \<Rightarrow> nat \<Rightarrow> (joi, unit) cprog" where
  "jcreate v i =
     sq (put_lines [creating i])
     (if v = J1 \<or> v = J2 then jcreate_thread v i (Num i)
      else if v = JB then
        bnd (gets (\<lambda>s. (passthis s 0, sleeptm s))) (\<lambda>(p, tm).
        sq (set_passit p i)
        (sq (put_lines [''*********** passthis->thrdnum='' @ show_nat i @ '' passthis->sleeptm='' @ show_int tm @ [nl]])
        (jcreate_thread v i (Ptr p))))
      else
        bnd calloc_passit (\<lambda>p.
        sq (modify (\<lambda>s. s\<lparr>passthis := (passthis s)(i := p)\<rparr>))
        (sq (if p = NULL then FATAL (jloc v 0) (''calloc '' @ show_nat i @ '' failed!'' @ [nl]) else ret ())
        (sq (set_passit p i)
        (jcreate_thread v i (Ptr p))))))"

definition joining :: "nat \<Rightarrow> string" where
  "joining j = ''main: joining (waiting) upon thread #'' @ show_nat j @ '' ...'' @ [nl]"

definition joining_max :: "nat \<Rightarrow> int \<Rightarrow> string" where
  "joining_max j tm = ''=== '' @ ''main: joining (waiting) upon thread #'' @ show_nat j @ '' [for max '' @ show_int tm @ ''s] ...'' @ [nl]"

definition joined :: "nat \<Rightarrow> string" where
  "joined j = ''Thread #'' @ show_nat j @ '' successfully joined; it terminated with status=0'' @ [nl]"

text \<open>A join that succeeds waits for the thread to end; a timed one can also give up, with 110, \<^verbatim>\<open>ETIMEDOUT\<close>.\<close>

definition await :: "nat \<Rightarrow> (joi, int) cprog" where
  "await j = bnd call_ret (\<lambda>r. bnd (gets (\<lambda>s. wst s j)) (\<lambda>st. if r = 0 \<and> st \<noteq> Ended then (\<lambda>s. (Blocks, s)) else ret r))"

definition join_failed :: "jver \<Rightarrow> int \<Rightarrow> (joi, unit) cprog" where
  "join_failed v r = WARN (jloc v 2) (''pthread_join() failed! ['' @ show_int r @ '']'' @ [nl])"

definition free_arg :: "nat \<Rightarrow> (joi, unit) cprog" where
  "free_arg j = bnd (gets (\<lambda>s. passthis s j)) free_passit"

fun jsay :: "jver \<Rightarrow> nat \<Rightarrow> (joi, unit) cprog" where
  "jsay JB j = ret ()"
| "jsay J4 j =
     bnd (gets join_tmout) (\<lambda>tm.
     sq (put_lines [joining_max j tm])
     (bnd call_ret (\<lambda>c. if c < 0 then FATAL (place (jfile J4) ''main'' 108) (''clock_gettime(2) '' @ show_nat j @ '' failed'' @ [nl]) else ret ())))"
| "jsay v j = put_lines [joining j]"

fun jjoin :: "jver \<Rightarrow> nat \<Rightarrow> (joi, unit) cprog" where
  "jjoin J3 j =
     bnd (await j) (\<lambda>r.
     sq (if r \<noteq> 0 then join_failed J3 r else ret ())
     (sq (put_lines [joined j])
     (free_arg j)))"
| "jjoin JB j = bnd (await j) (\<lambda>r. if r \<noteq> 0 then join_failed JB r else ret ())"
| "jjoin J4 j =
     bnd (await j) (\<lambda>r.
     if r \<noteq> 0 then
       sq (WARN (jloc J4 2) (''*** pthread_timedjoin_np() failed ['' @ show_int r @ ''] ***'' @ [nl]))
       (if r = 110 then eprintf ('' reason: timeout'' @ [nl]) else ret ())
     else sq (put_lines [joined j]) (free_arg j))"
| "jjoin v j = bnd (await j) (\<lambda>r. if r \<noteq> 0 then join_failed v r else put_lines [joined j])"

definition farewell :: string where
  "farewell = [nl] @ ''main: now dying... <Dramatic!> Farewell!'' @ [nl]"

definition jend :: "jver \<Rightarrow> (joi, unit) cprog" where
  "jend v = sq (if v = JB then free_arg 0 else ret ()) (put_lines [farewell])"

definition jmain :: "jver \<Rightarrow> (joi, unit) cprog list" where
  "jmain v = map (jcreate v) [0..<NTHREADS] @ concat (map (\<lambda>j. [jsay v j, jjoin v j]) [0..<NTHREADS]) @ [jend v]"

text \<open>What main does before its loops; \<^verbatim>\<open>JB\<close> allocates its one structure here.\<close>

definition jusage :: "jver \<Rightarrow> string \<Rightarrow> (joi, unit) cprog" where
  "jusage v name = sq (eprintf (''Usage: '' @ name @ (case v of J4 \<Rightarrow> '' num-seconds-to-have-workers-sleep num-seconds-to-join-for-max''
       | JB \<Rightarrow> '' num-seconds-to-wait-for-workers-max'' | _ \<Rightarrow> '' num-seconds-to-have-workers-sleep'') @ [nl] @
     (if v = J3 then ''                               '' else ''                           '') @ ''[Minimum should be '' @ show_nat NTHREADS @ '']'' @ [nl]))
     (exit_with EXIT_FAILURE)"

definition jargs :: "jver \<Rightarrow> string list \<Rightarrow> (joi, unit) cprog" where
  "jargs v argv =
     (if v = J1 \<or> v = J2 then ret ()
      else if length argv \<noteq> (if v = J4 then 3 else 2) then jusage v (argv ! 0)
      else
        let tm = atoi (argv ! 1); jt = (if v = J4 then atoi (argv ! 2) else int NTHREADS) in
        if tm \<le> int NTHREADS - 1 \<or> jt \<le> int NTHREADS - 1 then jusage v (argv ! 0)
        else
          sq (modify (\<lambda>s. s\<lparr>sleeptm := tm, join_tmout := jt\<rparr>))
          (if v = JB then
             bnd calloc_passit (\<lambda>p.
             sq (modify (\<lambda>s. s\<lparr>passthis := (passthis s)(0 := p)\<rparr>))
             (if p = NULL then FATAL (jloc JB 0) (''calloc failed!'' @ [nl]) else ret ()))
           else ret ()))"

text \<open>The programs: the checks of the arguments, the pieces of main and a worker.\<close>

type_synonym jprog = "(string list \<Rightarrow> (joi, unit) cprog) \<times> (joi, unit) cprog list \<times> (nat \<Rightarrow> (joi, jst) cprog)"

definition pthreads_joiner1 :: jprog where "pthreads_joiner1 = (jargs J1, jmain J1, jworker J1)"
definition pthreads_joiner2 :: jprog where "pthreads_joiner2 = (jargs J2, jmain J2, jworker J2)"
definition pthreads_joiner3 :: jprog where "pthreads_joiner3 = (jargs J3, jmain J3, jworker J3)"
definition pthreads_joiner_BUGGY_3 :: jprog where "pthreads_joiner_BUGGY_3 = (jargs JB, jmain JB, jworker JB)"
definition pthreads_joiner4 :: jprog where "pthreads_joiner4 = (jargs J4, jmain J4, jworker J4)"

section \<open>Interleavings\<close>

definition jo_main :: "jver \<Rightarrow> joi \<Rightarrow> joi option" where
  "jo_main v s =
     (if jstopped s \<noteq> None \<or> jpc s \<ge> length (jmain v) then None else
      case (jmain v ! jpc s) s of
        (Return _, s') \<Rightarrow> Some (s'\<lparr>jpc := jpc s + 1\<rparr>)
      | (Exited n, s') \<Rightarrow> Some (s'\<lparr>jstopped := Some (Exited n)\<rparr>)
      | (Faulted e, s') \<Rightarrow> Some (s'\<lparr>jstopped := Some (Faulted e)\<rparr>)
      | (Blocks, _) \<Rightarrow> None)"

definition jo_worker :: "jver \<Rightarrow> nat \<Rightarrow> joi \<Rightarrow> joi option" where
  "jo_worker v t s =
     (if jstopped s \<noteq> None then None else
      case jworker v t s of
        (Return st, s') \<Rightarrow> Some (s'\<lparr>wst := (wst s')(t := st)\<rparr>)
      | (Exited n, s') \<Rightarrow> Some (s'\<lparr>jstopped := Some (Exited n)\<rparr>)
      | (Faulted e, s') \<Rightarrow> Some (s'\<lparr>jstopped := Some (Faulted e)\<rparr>)
      | (Blocks, _) \<Rightarrow> None)"

inductive jo_step :: "jver \<Rightarrow> joi \<Rightarrow> joi \<Rightarrow> bool" for v where
  main_step: "jo_main v s = Some s' \<Longrightarrow> jo_step v s s'"
| worker_step: "t < NTHREADS \<Longrightarrow> jo_worker v t s = Some s' \<Longrightarrow> jo_step v s s'"

inductive_cases jo_stepE: "jo_step v s s'"

section \<open>What main and the workers print\<close>

fun main_lines :: "jver \<Rightarrow> int \<Rightarrow> nat \<Rightarrow> string list" where
  "main_lines v jt k =
     (if k < 3 then [creating k]
      else if k = 9 then [farewell]
      else if even k then (if v = JB then [] else [joined ((k - 4) div 2)])
      else if v = JB then []
      else if v = J4 then [joining_max ((k - 3) div 2) jt]
      else [joining ((k - 3) div 2)])"

fun worker_lines :: "jver \<Rightarrow> int \<Rightarrow> nat \<Rightarrow> jst \<Rightarrow> string list" where
  "worker_lines v tm t Asleep = start_lines v t (if v = J1 \<or> v = J2 then 8 else tm)"
| "worker_lines v tm t Ended = start_lines v t (if v = J1 \<or> v = J2 then 8 else tm) @ [work_done t]"
| "worker_lines v tm t _ = []"

section \<open>Runs of the pieces\<close>

definition ret0 :: "joi \<Rightarrow> int" where
  "ret0 s = (case rets s of [] \<Rightarrow> 0 | r # _ \<Rightarrow> r)"

lemma run_call: "call_ret s = (Return (ret0 s), s\<lparr>rets := tl (rets s)\<rparr>)"
  by (simp add: call_ret_def ret0_def split: list.split)

lemma ret0_simps [simp]:
  "rets s = [] \<Longrightarrow> ret0 s = 0" "ret0 (s\<lparr>bout := b\<rparr>) = ret0 s" "ret0 (s\<lparr>bmem := m\<rparr>) = ret0 s" "ret0 (s\<lparr>pass := h\<rparr>) = ret0 s"
  "ret0 (pass_update g s) = ret0 s" "ret0 (s\<lparr>nexta := n\<rparr>) = ret0 s" "ret0 (s\<lparr>passthis := q\<rparr>) = ret0 s"
  by (simp_all add: ret0_def)

lemma run_put [prog_simps]: "put_lines ls s = (Return (), s\<lparr>bout := bout s @ map Out ls\<rparr>)"
  by (simp add: put_lines_def prog_simps)

lemma main_pieces:
  "length (jmain v) = 10"
  "i < 3 \<Longrightarrow> jmain v ! i = jcreate v i"
  "j < 3 \<Longrightarrow> jmain v ! (2 * j + 3) = jsay v j"
  "j < 3 \<Longrightarrow> jmain v ! (2 * j + 4) = jjoin v j"
  "jmain v ! 9 = jend v"
  by (auto simp: jmain_def NTHREADS_def numeral_eq_Suc less_Suc_eq upt_rec)

lemma main_places:
  fixes k :: nat
  assumes "k < 10"
  obtains (create) "k < 3" | (say) j where "j < 3" "k = 2 * j + 3" | (join) j where "j < 3" "k = 2 * j + 4" | (last) "k = 9"
proof -
  consider "k < 3" | "k = 2 * 0 + 3" | "k = 2 * 0 + 4" | "k = 2 * 1 + 3" | "k = 2 * 1 + 4" | "k = 2 * 2 + 3" | "k = 2 * 2 + (4::nat)" | "k = 9" using assms by linarith
  then show ?thesis by cases (use that in auto)
qed

text \<open>The argument of thread \<open>t\<close> is what main set.\<close>

definition arg_there :: "jver \<Rightarrow> joi \<Rightarrow> nat \<Rightarrow> bool" where
  "arg_there v s t = (if v = J1 \<or> v = J2 then targ s t = Num t
     else targ s t = Ptr (passthis s t) \<and> passthis s t \<noteq> NULL \<and> pass s (passthis s t) = Some (t, sleeptm s))"

definition args_apart :: "jver \<Rightarrow> joi \<Rightarrow> bool" where
  "args_apart v s = (0 < nexta s \<and> (v = J1 \<or> v = J2 \<or> (\<forall>t < 3. t < jpc s \<longrightarrow> passthis s t < nexta s) \<and> inj_on (passthis s) {t. t < 3 \<and> t < jpc s}))"

text \<open>A thread is there once created, and its argument as long as it runs or waits to be joined.\<close>

definition jo_safe :: "jver \<Rightarrow> joi \<Rightarrow> bool" where
  "jo_safe v s = (bmem s = [] \<and> jpc s \<le> 10 \<and> args_apart v s
     \<and> (\<forall>t < 3. wst s t = New \<longleftrightarrow> jpc s \<le> t)
     \<and> (\<forall>t < 3. wst s t \<in> {Started, Asleep} \<or> t < jpc s \<and> jpc s < 2 * t + 5 \<longrightarrow> arg_there v s t))"

lemma worker_read:
  assumes "arg_there v s t"
  shows "read_arg (targ s t) s = (Return (t, if v = J1 \<or> v = J2 then 8 else sleeptm s), s)"
  using assms by (auto simp: arg_there_def read_arg_def prog_simps split: if_splits)

lemma jo_worker_run:
  assumes "jo_safe v s" "t < 3" "jo_worker v t s = Some s'"
  shows "wst s t = Started \<and> s' = s\<lparr>bout := bout s @ map Out (worker_lines v (sleeptm s) t Asleep), wst := (wst s)(t := Asleep)\<rparr>
       \<or> wst s t = Asleep \<and> s' = s\<lparr>bout := bout s @ [Out (work_done t)], wst := (wst s)(t := Ended)\<rparr>"
proof (cases "wst s t")
  case Started
  with assms(1,2) have "arg_there v s t" by (simp add: jo_safe_def)
  from worker_read [OF this] show ?thesis using assms(3) Started by (auto simp: jo_worker_def jworker_def prog_simps split: if_splits)
next
  case Asleep
  with assms(1,2) have "arg_there v s t" by (simp add: jo_safe_def)
  from worker_read [OF this] show ?thesis using assms(3) Asleep by (auto simp: jo_worker_def jworker_def prog_simps split: if_splits)
qed (use assms(3) in \<open>auto simp: jo_worker_def jworker_def prog_simps split: if_splits\<close>)

lemma worker_safe:
  assumes "jo_safe v s" "t < 3" "wst s t \<noteq> New" "st \<noteq> New" "st \<noteq> Started"
    "st = Asleep \<Longrightarrow> wst s t = Started"
  shows "jo_safe v (s\<lparr>bout := b, wst := (wst s)(t := st)\<rparr>)"
  using assms by (auto simp: jo_safe_def args_apart_def arg_there_def)


definition created :: "jver \<Rightarrow> joi \<Rightarrow> joi" where
  "created v s = (let i = jpc s; p = nexta s; s1 = s\<lparr>rets := tl (rets s), bout := bout s @ [Out (creating i)], wst := (wst s)(i := Started)\<rparr> in
     if v = J1 \<or> v = J2 then s1\<lparr>targ := (targ s)(i := Num i)\<rparr>
     else s1\<lparr>nexta := p + 1, passthis := (passthis s)(i := p), pass := (pass s)(p \<mapsto> (i, sleeptm s)), targ := (targ s)(i := Ptr p)\<rparr>)"

lemma created_safe:
  assumes "jo_safe v s" "jpc s < 3"
  shows "jo_safe v ((created v s)\<lparr>jpc := jpc s + 1\<rparr>)"
proof (cases "v = J1 \<or> v = J2")
  case True
  then show ?thesis using assms by (auto simp: jo_safe_def args_apart_def arg_there_def created_def Let_def)
next
  case False
  let ?s = "(created v s)\<lparr>jpc := jpc s + 1\<rparr>"
  have old: "0 < nexta s" "\<And>t. t < 3 \<Longrightarrow> t < jpc s \<Longrightarrow> passthis s t < nexta s" "inj_on (passthis s) {t. t < 3 \<and> t < jpc s}"
    using assms(1) False by (simp_all add: jo_safe_def args_apart_def)
  have set: "{t. t < 3 \<and> t < jpc s + 1} = insert (jpc s) {t. t < 3 \<and> t < jpc s}" using assms(2) by auto
  have new: "nexta s \<notin> passthis s ` {t. t < 3 \<and> t < jpc s}"
  proof
    assume "nexta s \<in> passthis s ` {t. t < 3 \<and> t < jpc s}"
    then obtain t where "t < 3" "t < jpc s" "nexta s = passthis s t" by blast
    with old(2) [of t] show False by simp
  qed
  have "inj_on ((passthis s)(jpc s := nexta s)) (insert (jpc s) {t. t < 3 \<and> t < jpc s})"
    using inj_on_fun_updI [OF old(3) new] new by (auto simp: inj_on_insert)
  moreover have "((passthis s)(jpc s := nexta s)) t < nexta s + 1" if "t < 3" "t < jpc s + 1" for t using old(2) [of t] that by auto
  moreover have f: "nexta ?s = nexta s + 1" "passthis ?s = (passthis s)(jpc s := nexta s)" "jpc ?s = jpc s + 1" "bmem ?s = bmem s"
    "wst ?s = (wst s)(jpc s := Started)" using False by (simp_all add: created_def Let_def)
  ultimately have a: "args_apart v ?s" unfolding args_apart_def f set by simp
  have b: "arg_there v ?s t" if "t < 3" "wst ?s t \<in> {Started, Asleep} \<or> t < jpc ?s \<and> jpc ?s < 2 * t + 5" for t
  proof (cases "t = jpc s")
    case True
    then show ?thesis using False assms(1) by (simp add: arg_there_def created_def Let_def jo_safe_def args_apart_def)
  next
    case other: False
    then have l: "t < jpc s" using that assms by (auto simp: created_def Let_def jo_safe_def split: if_splits)
    then have "arg_there v s t" using that assms(2) assms(1) by (simp add: jo_safe_def)
    moreover have "passthis s t < nexta s" using l that(1) assms(1) False by (simp add: jo_safe_def args_apart_def)
    ultimately show ?thesis using other False by (simp add: arg_there_def created_def Let_def)
  qed
  have c: "wst ?s t = New \<longleftrightarrow> jpc ?s \<le> t" if "t < 3" for t
  proof -
    have "wst s t = New \<longleftrightarrow> jpc s \<le> t" using assms(1) that by (simp add: jo_safe_def)
    then show ?thesis unfolding f by auto
  qed
  have d: "bmem ?s = []" "jpc ?s \<le> 10" using assms unfolding f by (simp_all add: jo_safe_def)
  show ?thesis unfolding jo_safe_def using a b c d by blast
qed

lemma FATAL_exits: "bmem s = [] \<Longrightarrow> fst (FATAL l m s) = Exited EXIT_FAILURE"
  using FATAL_run [of l m s] by auto

lemma jcreate_run:
  assumes "v \<noteq> JB" "bmem s = []" "0 < nexta s"
  shows "jcreate v (jpc s) s = (Return (), created v s) \<or> rets s \<noteq> [] \<and> fst (jcreate v (jpc s) s) = Exited EXIT_FAILURE"
proof (cases "ret0 s = 0")
  case True
  then have "jcreate v (jpc s) s = (Return (), created v s)" using assms
    by (cases v) (simp_all add: jcreate_def jcreate_thread_def created_def Let_def run_call calloc_passit_def set_passit_def prog_simps)
  then show ?thesis by simp
next
  case False
  then have "fst (jcreate v (jpc s) s) = Exited EXIT_FAILURE" using assms
    by (cases v) (simp_all add: jcreate_def jcreate_thread_def run_call calloc_passit_def set_passit_def free_passit_def FATAL_exits prog_simps)
  then show ?thesis using False by auto
qed

lemma jsay_run:
  assumes "v \<noteq> JB" "bmem s = []" "j < 3"
  shows "(\<exists>rs. (rets s = [] \<longrightarrow> rs = []) \<and> jsay v j s = (Return (), s\<lparr>bout := bout s @ map Out (main_lines v (join_tmout s) (2 * j + 3)), rets := rs\<rparr>))
    \<or> rets s \<noteq> [] \<and> fst (jsay v j s) = Exited EXIT_FAILURE"
proof (cases "v = J4 \<and> ret0 s < 0")
  case True
  then have "fst (jsay v j s) = Exited EXIT_FAILURE" using assms(2) by (simp add: run_call FATAL_exits prog_simps)
  moreover have "rets s \<noteq> []" using True by (metis ret0_simps(1) less_irrefl)
  ultimately show ?thesis by simp
next
  case False
  have "jsay v j s = (Return (), s\<lparr>bout := bout s @ map Out (main_lines v (join_tmout s) (2 * j + 3)), rets := if v = J4 then tl (rets s) else rets s\<rparr>)"
    using assms False by (cases v) (simp_all add: run_call prog_simps)
  then show ?thesis by (auto intro!: exI [of _ "if v = J4 then tl (rets s) else rets s"])
qed

text \<open>A join that succeeded frees the argument of the thread, which has ended.\<close>

definition after_join :: "jver \<Rightarrow> nat \<Rightarrow> joi \<Rightarrow> joi" where
  "after_join v j s = s\<lparr>rets := tl (rets s), bout := bout s @ [Out (joined j)],
     pass := if v = J3 \<or> v = J4 then (pass s)(passthis s j := None) else pass s\<rparr>"

lemma await_run: "await j s = (if ret0 s = 0 \<and> wst s j \<noteq> Ended then Blocks else Return (ret0 s), s\<lparr>rets := tl (rets s)\<rparr>)"
  by (simp add: await_def run_call prog_simps)

lemma WARN_returns: "bmem s = [] \<Longrightarrow> \<exists>l. WARN a b s = (Return (), s\<lparr>bout := bout s @ l\<rparr>)" for s :: joi
  using WARN_run [of a b s] by (cases s) auto

lemma jjoin_run:
  assumes "v \<noteq> JB" "bmem s = []" "arg_there v s j" "v = J3 \<longrightarrow> rets s = []"
  shows "fst (jjoin v j s) = Blocks \<and> wst s j \<noteq> Ended \<or> wst s j = Ended \<and> jjoin v j s = (Return (), after_join v j s)
     \<or> rets s \<noteq> [] \<and> (\<exists>l. jjoin v j s = (Return (), s\<lparr>rets := tl (rets s), bout := bout s @ l\<rparr>))"
proof (cases "ret0 s = 0")
  case True
  show ?thesis
  proof (cases "wst s j = Ended")
    case e: True
    then have "jjoin v j s = (Return (), after_join v j s)" using assms True
      by (cases v) (simp_all add: await_run after_join_def free_arg_def free_passit_def arg_there_def prog_simps)
    then show ?thesis using e by simp
  next
    case e: False
    then have "fst (jjoin v j s) = Blocks" using assms True by (cases v) (simp_all add: await_run prog_simps)
    then show ?thesis using e by simp
  qed
next
  case False
  let ?s = "s\<lparr>rets := tl (rets s)\<rparr>"
  have "\<exists>l. WARN a b ?s = (Return (), ?s\<lparr>bout := bout s @ l\<rparr>)" for a b using WARN_returns [of ?s a b] assms(2) by simp
  then obtain w where w: "WARN a b ?s = (Return (), ?s\<lparr>bout := bout s @ w a b\<rparr>)" for a b by metis
  show ?thesis using assms False by (cases v) (auto simp: await_run join_failed_def w prog_simps)
qed

lemma after_join_safe:
  assumes "jo_safe v s" "v \<noteq> JB" "j < 3" "jpc s = 2 * j + 4" "wst s j = Ended"
  shows "jo_safe v ((after_join v j s)\<lparr>jpc := jpc s + 1\<rparr>)"
proof -
  let ?s = "(after_join v j s)\<lparr>jpc := jpc s + 1\<rparr>"
  have f: "jpc ?s = jpc s + 1" "wst ?s = wst s" "bmem ?s = bmem s" "nexta ?s = nexta s" "passthis ?s = passthis s" by (simp_all add: after_join_def)
  have all: "t < jpc s \<longleftrightarrow> t < jpc s + 1" if "t < 3" for t using that assms(4) by auto
  have inj: "v = J3 \<or> v = J4 \<Longrightarrow> inj_on (passthis s) {t. t < 3 \<and> t < jpc s}" using assms(1) by (auto simp: jo_safe_def args_apart_def)
  have b: "arg_there v ?s t" if "t < 3" "wst ?s t \<in> {Started, Asleep} \<or> t < jpc ?s \<and> jpc ?s < 2 * t + 5" for t
  proof -
    have ne: "t \<noteq> j" using that(2) assms(4,5) unfolding f by auto
    moreover have "wst s t \<in> {Started, Asleep} \<or> t < jpc s \<and> jpc s < 2 * t + 5" using that assms(4) unfolding f by auto
    then have "arg_there v s t" using assms(1) that(1) unfolding jo_safe_def by blast
    moreover have "passthis s t \<noteq> passthis s j" if "v = J3 \<or> v = J4"
      using inj_onD [OF inj [OF that], of t j] ne assms(3,4) \<open>t < 3\<close> by auto
    ultimately show ?thesis using assms(2) by (cases v) (auto simp: arg_there_def after_join_def)
  qed
  have "{t. t < 3 \<and> t < jpc s + 1} = {t. t < 3 \<and> t < jpc s}" using all by blast
  then have a: "args_apart v ?s" using assms(1) all unfolding jo_safe_def args_apart_def f by auto
  have c: "wst s t = New \<longleftrightarrow> jpc s + 1 \<le> t" if "t < 3" for t using assms(1,4) that by (auto simp: jo_safe_def)
  have d: "bmem s = []" "jpc s + 1 \<le> 10" using assms(1,3,4) by (simp_all add: jo_safe_def)
  show ?thesis unfolding jo_safe_def using a b unfolding f using c d by blast
qed

lemma other_safe:
  assumes "jo_safe v s" "3 \<le> jpc s" "jpc s < 10"
  shows "jo_safe v (s\<lparr>bout := b, rets := rs, jpc := jpc s + 1\<rparr>)"
proof -
  have "t < jpc s \<longleftrightarrow> t < jpc s + 1" if "t < 3" for t using that assms(2) by auto
  then have "{t. t < 3 \<and> t < jpc s + 1} = {t. t < 3 \<and> t < jpc s}" by blast
  then show ?thesis using assms by (auto simp: jo_safe_def args_apart_def arg_there_def)
qed

text \<open>A step of main in a safe state: the process ends with a message, which needs a call that failed, or main goes on.\<close>

lemma jo_main_step:
  assumes "jo_safe v s" "v \<noteq> JB" "v = J3 \<longrightarrow> rets s = []" "jo_main v s = Some s'"
  shows "jstopped s' = Some (Exited EXIT_FAILURE) \<and> rets s \<noteq> [] \<or>
    jstopped s' = None \<and> jo_safe v s' \<and> (rets s = [] \<longrightarrow> rets s' = [] \<and> bout s' = bout s @ map Out (main_lines v (join_tmout s) (jpc s)))
    \<and> jpc s' = jpc s + 1 \<and> wst s' = (if jpc s < 3 then (wst s)(jpc s := Started) else wst s) \<and> sleeptm s' = sleeptm s \<and> join_tmout s' = join_tmout s"
proof -
  have r: "jstopped s = None" "jpc s < 10" using assms(4) by (auto simp: jo_main_def main_pieces(1) split: if_splits)
  have m: "bmem s = []" "0 < nexta s" using assms(1) by (auto simp: jo_safe_def args_apart_def)
  let ?p = "jmain v ! jpc s"
  have ex: ?thesis if "rets s \<noteq> []" "fst (?p s) = Exited EXIT_FAILURE"
    using that assms(4) r by (cases "?p s") (auto simp: jo_main_def main_pieces(1))
  have go: "s' = s1\<lparr>jpc := jpc s + 1\<rparr>" if "?p s = (Return (), s1)" for s1
    using that assms(4) r by (auto simp: jo_main_def main_pieces(1))
  from r(2) show ?thesis
  proof (cases rule: main_places)
    case create
    then have p: "?p = jcreate v (jpc s)" by (rule main_pieces(2))
    from jcreate_run [OF assms(2) m] show ?thesis
    proof
      assume c: "jcreate v (jpc s) s = (Return (), created v s)"
      have "s' = (created v s)\<lparr>jpc := jpc s + 1\<rparr>" using go c p by simp
      then show ?thesis using created_safe [OF assms(1) create] create r by (simp add: created_def Let_def)
    qed (use ex p in simp)
  next
    case (say j)
    then have p: "?p = jsay v j" using main_pieces(3) by simp
    from jsay_run [OF assms(2) m(1) say(1)] show ?thesis
    proof (elim disjE exE conjE)
      fix rs
      assume c: "rets s = [] \<longrightarrow> rs = []" "jsay v j s = (Return (), s\<lparr>bout := bout s @ map Out (main_lines v (join_tmout s) (2 * j + 3)), rets := rs\<rparr>)"
      have "s' = s\<lparr>bout := bout s @ map Out (main_lines v (join_tmout s) (2 * j + 3)), rets := rs, jpc := jpc s + 1\<rparr>" using go [of "s\<lparr>bout := _, rets := rs\<rparr>"] c(2) p by simp
      then show ?thesis using other_safe [OF assms(1)] say c(1) r by simp
    qed (use ex p in simp)
  next
    case (join j)
    then have p: "?p = jjoin v j" using main_pieces(4) by simp
    have "arg_there v s j" using assms(1) join by (simp add: jo_safe_def)
    from jjoin_run [OF assms(2) m(1) this assms(3)] show ?thesis
    proof (elim disjE exE conjE)
      assume "fst (jjoin v j s) = Blocks"
      then obtain s1 where "?p s = (Blocks, s1)" unfolding p by (cases "jjoin v j s") simp
      then have "jo_main v s = None" using r by (simp add: jo_main_def main_pieces(1))
      then show ?thesis using assms(4) by simp
    next
      assume e: "wst s j = Ended" and c: "jjoin v j s = (Return (), after_join v j s)"
      have s': "s' = (after_join v j s)\<lparr>jpc := jpc s + 1\<rparr>" using go c p by simp
      have "jo_safe v s'" unfolding s' by (rule after_join_safe [OF assms(1,2) join(1,2) e])
      then show ?thesis using join r assms(2) unfolding s' by (simp add: after_join_def)
    next
      fix l
      assume "rets s \<noteq> []" and c: "jjoin v j s = (Return (), s\<lparr>rets := tl (rets s), bout := bout s @ l\<rparr>)"
      then have "s' = s\<lparr>bout := bout s @ l, rets := tl (rets s), jpc := jpc s + 1\<rparr>" using go [of "s\<lparr>rets := _, bout := _\<rparr>"] p by simp
      then show ?thesis using other_safe [OF assms(1)] join r \<open>rets s \<noteq> []\<close> by simp
    qed
  next
    case last
    then have "?p s = (Return (), s\<lparr>bout := bout s @ [Out farewell]\<rparr>)" using main_pieces(5) assms(2) by (simp add: jend_def prog_simps)
    from go [OF this] have "s' = s\<lparr>bout := bout s @ [Out farewell], rets := rets s, jpc := jpc s + 1\<rparr>" by simp
    then show ?thesis using other_safe [OF assms(1), of "rets s" "bout s @ [Out farewell]"] last r by simp
  qed
qed

section \<open>Properties\<close>

text \<open>The number of pieces a worker has run, and a state that is reached when every call succeeds.\<close>

fun jrank :: "jst \<Rightarrow> nat" where
  "jrank Asleep = 1" | "jrank Ended = 2" | "jrank _ = 0"

definition jo_out :: "jver \<Rightarrow> joi \<Rightarrow> nat \<Rightarrow> (nat \<Rightarrow> jst) \<Rightarrow> io multiset" where
  "jo_out v s k w = (\<Sum>i < k. mset (map Out (main_lines v (join_tmout s) i))) + (\<Sum>t < 3. mset (map Out (worker_lines v (sleeptm s) t (w t))))"

definition jo_tidy :: "jver \<Rightarrow> joi \<Rightarrow> nat \<Rightarrow> joi \<Rightarrow> bool" where
  "jo_tidy v s0 k s = (jo_safe v s \<and> jstopped s = None \<and> rets s = [] \<and> sleeptm s = sleeptm s0 \<and> join_tmout s = join_tmout s0
     \<and> k = jpc s + (\<Sum>t < 3. jrank (wst s t)) \<and> mset (bout s) = mset (bout s0) + jo_out v s0 (jpc s) (wst s))"

lemma sum_3: "(\<Sum>t < (3::nat). f t) = f 0 + f 1 + f 2" for f :: "nat \<Rightarrow> 'a :: comm_monoid_add"
  by (simp add: numeral_3_eq_3 numeral_2_eq_2 add.assoc)

lemma lt_3: "t < (3::nat) \<longleftrightarrow> t = 0 \<or> t = 1 \<or> t = 2"
  by auto

lemma tidy_main:
  assumes "jo_tidy v s0 k s" "v \<noteq> JB" "jo_main v s = Some s'"
  shows "jo_tidy v s0 (Suc k) s'"
proof -
  have t: "jo_safe v s" "rets s = []" "sleeptm s = sleeptm s0" "join_tmout s = join_tmout s0" using assms(1) by (simp_all add: jo_tidy_def)
  note m = jo_main_step [OF t(1) assms(2) _ assms(3)]
  have w: "jpc s < 3 \<Longrightarrow> wst s (jpc s) = New" using t(1) by (simp add: jo_safe_def)
  have eq: "jrank (wst s' u) = jrank (wst s u) \<and> worker_lines v x u (wst s' u) = worker_lines v x u (wst s u)" for u x
    using m t(2) w by (auto split: if_splits)
  then have "jo_out v s0 (jpc s) (wst s') = jo_out v s0 (jpc s) (wst s)" by (simp add: jo_out_def)
  then show ?thesis using assms(1) m t eq by (simp add: jo_tidy_def jo_out_def)
qed

lemma tidy_worker:
  assumes "jo_tidy v s0 k s" "t < 3" "jo_worker v t s = Some s'"
  shows "jo_tidy v s0 (Suc k) s'"
proof -
  have y: "jo_safe v s" "rets s = []" "sleeptm s = sleeptm s0" "join_tmout s = join_tmout s0" using assms(1) by (simp_all add: jo_tidy_def)
  from jo_worker_run [OF y(1) assms(2,3)] show ?thesis
  proof (elim disjE conjE)
    assume st: "wst s t = Started" and s': "s' = s\<lparr>bout := bout s @ map Out (worker_lines v (sleeptm s) t Asleep), wst := (wst s)(t := Asleep)\<rparr>"
    have "jo_safe v s'" unfolding s' using worker_safe [OF y(1) assms(2)] st by simp
    then show ?thesis using assms(1,2) st unfolding s' jo_tidy_def jo_out_def sum_3 lt_3 by auto
  next
    assume st: "wst s t = Asleep" and s': "s' = s\<lparr>bout := bout s @ [Out (work_done t)], wst := (wst s)(t := Ended)\<rparr>"
    have "jo_safe v s'" unfolding s' using worker_safe [OF y(1) assms(2), of Ended] st by simp
    then show ?thesis using assms(1,2) st unfolding s' jo_tidy_def jo_out_def sum_3 lt_3 by auto
  qed
qed

lemma tidy_run:
  assumes "(jo_step v ^^ k) s0 s" "jo_tidy v s0 0 s0" "v \<noteq> JB"
  shows "jo_tidy v s0 k s"
  using assms(1)
proof (induction k arbitrary: s)
  case 0
  with assms(2) show ?case by simp
next
  case (Suc k)
  then obtain s1 where s1: "(jo_step v ^^ k) s0 s1" "jo_step v s1 s" by (auto elim: relpowp_Suc_E)
  from Suc.IH [OF s1(1)] have "jo_tidy v s0 k s1" .
  with s1(2) show ?case by (auto elim!: jo_stepE intro: tidy_main [OF _ assms(3)] tidy_worker simp: NTHREADS_def)
qed

lemma tidy_moves:
  assumes "jo_tidy v s0 k s" "v \<noteq> JB" "\<not> (\<exists>s'. jo_step v s s')"
  shows "jpc s = 10 \<and> (\<forall>t < 3. wst s t = Ended)"
proof -
  have y: "jo_safe v s" "rets s = []" "jstopped s = None" "bmem s = []" "0 < nexta s" "jpc s \<le> 10"
    using assms(1) by (auto simp: jo_tidy_def jo_safe_def args_apart_def)
  have w: "wst s t \<in> {New, Ended}" if t: "t < 3" for t
  proof (rule ccontr)
    assume c: "wst s t \<notin> {New, Ended}"
    then have st: "wst s t = Started \<or> wst s t = Asleep" by (cases "wst s t") auto
    then have "arg_there v s t" using y(1) t by (auto simp: jo_safe_def)
    from worker_read [OF this] have "\<exists>s'. jo_worker v t s = Some s'" using st y(3) by (auto simp: jo_worker_def jworker_def prog_simps)
    with assms(3) t show False by (metis NTHREADS_def jo_step.worker_step)
  qed
  have no: "jo_main v s = None" using assms(3) jo_step.main_step by (metis option.exhaust)
  have e: "wst s t = Ended" if "t < 3" "t < jpc s" for t using w [OF that(1)] y(1) that by (auto simp: jo_safe_def)
  have "jpc s = 10"
  proof (rule ccontr)
    assume "jpc s \<noteq> 10"
    then have l: "jpc s < 10" using y(6) by simp
    have "fst ((jmain v ! jpc s) s) = Return ()"
      using l
    proof (cases rule: main_places)
      case create
      then show ?thesis using jcreate_run [OF assms(2) y(4,5)] main_pieces(2) [of "jpc s"] y(2) by simp
    next
      case (say j)
      then show ?thesis using jsay_run [OF assms(2) y(4), of j] main_pieces(3) [of j] y(2) by auto
    next
      case (join j)
      then have "arg_there v s j" using y(1) by (simp add: jo_safe_def)
      from jjoin_run [OF assms(2) y(4) this] join e [of j] show ?thesis using main_pieces(4) [of j] y(2) by simp
    next
      case last
      then show ?thesis using main_pieces(5) assms(2) by (simp add: jend_def prog_simps)
    qed
    then show False using no l y(3) by (cases "(jmain v ! jpc s) s") (auto simp: jo_main_def main_pieces(1))
  qed
  then show ?thesis using e by simp
qed

definition jo_start :: "joi \<Rightarrow> bool" where
  "jo_start s = (jpc s = 0 \<and> wst s = (\<lambda>_. New) \<and> jstopped s = None \<and> bmem s = [] \<and> 0 < nexta s)"

lemma start_safe: "jo_start s \<Longrightarrow> jo_safe v s"
  by (auto simp: jo_start_def jo_safe_def args_apart_def)

text \<open>
  Every thread has an argument of its own, so in every interleaving the threads report their own numbers: the program makes at most
  16 steps, and where none is possible main has joined every thread and printed its farewell, and each line of main and of the workers
  is in the output once.
\<close>

theorem joiner_threads_own_numbers:
  assumes "v \<noteq> JB" "jo_start s" "rets s = []" "(jo_step v ^^ k) s s'"
  shows "k \<le> 16 \<and> jstopped s' = None \<and> ((\<exists>s''. jo_step v s' s'') \<or> jpc s' = length (jmain v) \<and> (\<forall>t < NTHREADS. wst s' t = Ended)
    \<and> mset (bout s') = mset (bout s) + jo_out v s (length (jmain v)) (\<lambda>_. Ended))"
proof -
  have "jo_tidy v s 0 s" using assms(2,3) start_safe [of s v] by (simp add: jo_start_def jo_tidy_def jo_out_def)
  from tidy_run [OF assms(4) this assms(1)] have y: "jo_tidy v s k s'" .
  have "jrank x \<le> 2" for x by (cases x) auto
  from this [of "wst s' 0"] this [of "wst s' 1"] this [of "wst s' 2"] have "k \<le> 16"
    using y unfolding jo_tidy_def jo_safe_def sum_3 by linarith
  moreover have "mset (bout s') = mset (bout s) + jo_out v s 10 (\<lambda>_. Ended)" if "jpc s' = 10" "\<forall>t < 3. wst s' t = Ended"
    using y that by (simp add: jo_tidy_def jo_out_def)
  ultimately show ?thesis using y tidy_moves [OF y assms(1)] unfolding main_pieces(1) NTHREADS_def by (auto simp: jo_tidy_def)
qed

text \<open>Freed only after a join that succeeded, an argument is never used after it was freed, whatever the calls answer.\<close>

lemma joiner4_no_fault:
  assumes "(jo_step J4)\<^sup>*\<^sup>* s s'" "jo_start s"
  shows "jstopped s' = Some (Exited EXIT_FAILURE) \<or> jstopped s' = None \<and> jo_safe J4 s'"
  using assms(1)
proof (induction rule: rtranclp_induct)
  case base
  then show ?case using start_safe assms(2) by (simp add: jo_start_def)
next
  case (step s1 s2)
  have "jstopped s1 = None" using step.hyps(2) by (auto elim!: jo_stepE simp: jo_main_def jo_worker_def split: if_splits)
  with step.IH have y: "jo_safe J4 s1" "jstopped s1 = None" by auto
  from step.hyps(2) show ?case
  proof (cases rule: jo_step.cases)
    case main_step
    then show ?thesis using jo_main_step [OF y(1)] by auto
  next
    case (worker_step t)
    then have "jo_worker J4 t s1 = Some s2" "t < 3" by (simp_all add: NTHREADS_def)
    from jo_worker_run [OF y(1) this(2,1)] show ?thesis using y worker_safe [OF y(1) \<open>t < 3\<close>, of Ended] worker_safe [OF y(1) \<open>t < 3\<close>, of Asleep] by auto
  qed
qed

text \<open>The version that frees after every join: when the join of a thread fails, the thread reads its argument after it was freed.\<close>

lemma joiner3_failed_join:
  assumes "jo_start s" "rets s = [0, 0, 0, e]" "e \<noteq> 0"
  shows "\<exists>s'. (jo_step J3 ^^ 6) s s' \<and> jstopped s' = Some (Faulted BadDeref)"
proof -
  let ?n = "\<lambda>s. (created J3 s)\<lparr>jpc := jpc s + 1\<rparr>"
  have c: "jo_step J3 s (?n s) \<and> jo_safe J3 (?n s) \<and> jstopped (?n s) = None \<and> rets (?n s) = rs \<and> jpc (?n s) = jpc s + 1 \<and> wst (?n s) = (wst s)(jpc s := Started)"
    if "jo_safe J3 s" "jstopped s = None" "jpc s < 3" "rets s = 0 # rs" for s rs
  proof -
    have "bmem s = []" "0 < nexta s" "ret0 s = 0" using that by (auto simp: jo_safe_def args_apart_def ret0_def)
    then have "jcreate J3 (jpc s) s = (Return (), created J3 s)"
      by (simp add: jcreate_def jcreate_thread_def created_def Let_def run_call calloc_passit_def set_passit_def prog_simps)
    then have "jo_main J3 s = Some (?n s)" using that(2,3) by (simp add: jo_main_def main_pieces(1,2))
    then show ?thesis using that created_safe [OF that(1,3)] by (auto intro: jo_step.main_step simp: created_def Let_def)
  qed
  have s0: "jo_safe J3 s" "jstopped s = None" "jpc s = 0" using start_safe [OF assms(1)] assms(1) by (simp_all add: jo_start_def)
  obtain s1 where s1: "jo_step J3 s s1" "jo_safe J3 s1" "jstopped s1 = None" "rets s1 = [0, 0, e]" "jpc s1 = 1" "wst s1 0 = Started" using c [OF s0(1,2) _ assms(2)] s0(3) by auto
  obtain s2 where s2: "jo_step J3 s1 s2" "jo_safe J3 s2" "jstopped s2 = None" "rets s2 = [0, e]" "jpc s2 = 2" "wst s2 0 = Started" using c [OF s1(2,3) _ s1(4)] s1(5,6) by auto
  obtain s3 where s3: "jo_step J3 s2 s3" "jo_safe J3 s3" "jstopped s3 = None" "rets s3 = [e]" "jpc s3 = 3" "wst s3 0 = Started" using c [OF s2(2,3) _ s2(4)] s2(5,6) by auto
  obtain s4 where s4: "jo_main J3 s3 = Some s4" "arg_there J3 s4 0" "bmem s4 = []" "rets s4 = [e]" "jpc s4 = 4" "jstopped s4 = None" "wst s4 0 = Started"
    using s3 main_pieces(3) [of 0 J3] by (simp add: jo_main_def main_pieces(1) prog_simps jo_safe_def arg_there_def)
  let ?t = "s4\<lparr>rets := []\<rparr>"
  obtain w where w: "WARN a b ?t = (Return (), ?t\<lparr>bout := bout s4 @ w a b\<rparr>)" for a b using WARN_returns [of ?t] s4(3) by simp metis
  obtain s5 where s5: "jo_main J3 s4 = Some s5" "targ s5 0 = Ptr (passthis s4 0)" "pass s5 (passthis s4 0) = None" "jstopped s5 = None" "wst s5 0 = Started"
    using s4 assms(3) main_pieces(4) [of 0 J3]
    by (simp add: jo_main_def main_pieces(1) await_run ret0_def join_failed_def w free_arg_def free_passit_def arg_there_def prog_simps)
  obtain s6 where s6: "jo_worker J3 0 s5 = Some s6" "jstopped s6 = Some (Faulted BadDeref)"
    using s5 s4(2) by (simp add: jo_worker_def jworker_def read_arg_def deref_def arg_there_def bnd_def prog_simps)
  have "(jo_step J3 ^^ 6) s s6"
    using s1(1) s2(1) s3(1) jo_step.main_step [OF s4(1)] jo_step.main_step [OF s5(1)] jo_step.worker_step [OF _ s6(1)]
    by (simp add: numeral_eq_Suc NTHREADS_def relcompp_apply) blast
  with s6 show ?thesis by blast
qed

text \<open>One structure for all: main overwrites the number before thread 0 reads it, and thread 0 reports that of thread 1.\<close>

lemma joiner_buggy_number:
  assumes "jo_start s" "rets s = []" "passthis s 0 \<noteq> NULL" "pass s (passthis s 0) \<noteq> None"
  shows "\<exists>s'. (jo_step JB ^^ 3) s s' \<and> wst s' 0 = Asleep \<and> wst s' 1 = Started \<and> last (bout s') = Out (will_sleep 1 (sleeptm s - 1))"
proof -
  obtain x where x: "pass s (passthis s 0) = Some x" using assms(4) by auto
  have p: "jmain JB ! 0 = jcreate JB 0" "jmain JB ! 1 = jcreate JB 1" by (simp_all add: main_pieces)
  obtain s1 where s1: "jo_main JB s = Some s1" "jpc s1 = 1" "rets s1 = []" "bmem s1 = []" "jstopped s1 = None" "passthis s1 = passthis s" "sleeptm s1 = sleeptm s"
    "pass s1 (passthis s 0) = Some (0, sleeptm s)" "targ s1 0 = Ptr (passthis s 0)" "wst s1 0 = Started"
    using assms x p by (simp add: jo_start_def jo_main_def main_pieces(1) jcreate_def jcreate_thread_def set_passit_def run_call prog_simps)
  obtain s2 where s2: "jo_main JB s1 = Some s2" "jstopped s2 = None" "sleeptm s2 = sleeptm s"
    "pass s2 (passthis s 0) = Some (1, sleeptm s)" "targ s2 0 = Ptr (passthis s 0)" "wst s2 0 = Started" "wst s2 1 = Started"
    using assms(3) s1 p by (simp add: jo_main_def main_pieces(1) jcreate_def jcreate_thread_def set_passit_def run_call prog_simps)
  obtain s3 where s3: "jo_worker JB 0 s2 = Some s3" "wst s3 0 = Asleep" "wst s3 1 = Started" "last (bout s3) = Out (will_sleep 1 (sleeptm s - 1))"
    using assms(3) s2 by (simp add: jo_worker_def jworker_def read_arg_def prog_simps)
  have "(jo_step JB ^^ 3) s s3"
    using jo_step.main_step [OF s1(1)] jo_step.main_step [OF s2(1)] jo_step.worker_step [OF _ s3(1)] by (auto simp: numeral_3_eq_3 NTHREADS_def relcompp_apply)
  with s3 show ?thesis by blast
qed

end
