(* ===== verification/Matrix_Mul.thy ===== *)
theory Matrix_Mul
  imports C_Prelude
begin

text \<open>
  Matrix multiplication in sequence and by four threads: \<^verbatim>\<open>prcs_matrixmul.c\<close> and \<^verbatim>\<open>thrd_matrixmul.c\<close> under
  \<^verbatim>\<open>src/booksrc/ch14/speed_multiprcs_vs_multithrd_simple/matrixmul\<close>. A matrix of \<^verbatim>\<open>int\<close> is a function to 32 bit words; one execution
  of the innermost statement is a step, so the threads are interleaved statement by statement. \<^verbatim>\<open>pthread_create\<close>, whose result the
  program does not look at, creates the thread.
\<close>

section \<open>The matrices\<close>

type_synonym matrix = "nat \<Rightarrow> nat \<Rightarrow> 32 word"

definition mat_N :: nat where "mat_N = 1024"
definition NCORES :: nat where "NCORES = 4"

definition set_cell :: "nat \<Rightarrow> nat \<Rightarrow> 32 word \<Rightarrow> matrix \<Rightarrow> matrix" where
  "set_cell i j x m = m(i := (m i)(j := x))"

definition init_ab :: "matrix \<times> matrix" where
  "init_ab = fold (\<lambda>i. fold (\<lambda>j (a, b). (set_cell i j 2 a, set_cell i j 3 b)) [0..<mat_N]) [0..<mat_N] ((\<lambda>_ _. 0), (\<lambda>_ _. 0))"

text \<open>The indices of the innermost statement, and the statement.\<close>

definition mul_step :: "matrix \<Rightarrow> matrix \<Rightarrow> nat \<times> nat \<times> nat \<Rightarrow> matrix \<Rightarrow> matrix" where
  "mul_step a b = (\<lambda>(i, j, k) c. set_cell i j (c i j + a i k * b k j) c)"

definition row_cells :: "nat \<Rightarrow> (nat \<times> nat \<times> nat) list" where
  "row_cells i = concat (map (\<lambda>j. map (\<lambda>k. (i, j, k)) [0..<mat_N]) [0..<mat_N])"

section \<open>prcs\_matrixmul.c\<close>

definition prcs_main :: matrix where
  "prcs_main = (let (a, b) = init_ab in fold (mul_step a b) (concat (map row_cells [0..<mat_N])) (\<lambda>_ _. 0))"

section \<open>thrd\_matrixmul.c\<close>

text \<open>What a thread does that got a pointer to \<^verbatim>\<open>p\<close>.\<close>

definition threadfun :: "nat \<Rightarrow> (nat \<times> nat \<times> nat) list" where
  "threadfun p = concat (map row_cells [p..<p + mat_N div NCORES])"

record mm =
  mat_a :: matrix
  mat_b :: matrix
  mat_c :: matrix
  mm_row :: "nat \<Rightarrow> nat"
  mm_todo :: "nat \<Rightarrow> (nat \<times> nat \<times> nat) list"
  mm_pc :: nat

text \<open>
  Main has initialised \<^verbatim>\<open>a\<close> and \<^verbatim>\<open>b\<close>. Its counter goes through the creations and the joins; a join waits for the end of the thread.
\<close>

definition mm_start :: mm where
  "mm_start = \<lparr>mat_a = fst init_ab, mat_b = snd init_ab, mat_c = (\<lambda>_ _. 0), mm_row = (\<lambda>_. 0), mm_todo = (\<lambda>_. []), mm_pc = 0\<rparr>"

definition mm_create :: "mm \<Rightarrow> mm" where
  "mm_create s = (let i = mm_pc s; p = i * (mat_N div NCORES) in
     s\<lparr>mm_row := (mm_row s)(i := p), mm_todo := (mm_todo s)(i := threadfun p), mm_pc := i + 1\<rparr>)"

inductive mm_step :: "mm \<Rightarrow> mm \<Rightarrow> bool" where
  create: "mm_pc s < NCORES \<Longrightarrow> mm_step s (mm_create s)"
| join: "NCORES \<le> mm_pc s \<Longrightarrow> mm_pc s < 2 * NCORES \<Longrightarrow> mm_todo s (mm_pc s - NCORES) = [] \<Longrightarrow> mm_step s (s\<lparr>mm_pc := mm_pc s + 1\<rparr>)"
| work: "t < NCORES \<Longrightarrow> mm_todo s t = u # us \<Longrightarrow>
    mm_step s (s\<lparr>mat_c := mul_step (mat_a s) (mat_b s) u (mat_c s), mm_todo := (mm_todo s)(t := us)\<rparr>)"

inductive_cases mm_stepE: "mm_step s s'"

section \<open>What a list of statements adds\<close>

definition adds :: "matrix \<Rightarrow> matrix \<Rightarrow> (nat \<times> nat \<times> nat) list \<Rightarrow> matrix" where
  "adds a b us i j = (\<Sum>(i', j', k) \<leftarrow> us. if i' = i \<and> j' = j then a i k * b k j else 0)"

lemma adds_simps [simp]:
  "adds a b [] i j = 0"
  "adds a b (us @ vs) i j = adds a b us i j + adds a b vs i j"
  "adds a b ((x, y, k) # us) i j = (if x = i \<and> y = j then a i k * b k j else 0) + adds a b us i j"
  by (simp_all add: adds_def)

lemma mul_step_adds: "mul_step a b u c i j = c i j + adds a b [u] i j"
  by (cases u) (simp add: mul_step_def set_cell_def)

lemma adds_Cons: "adds a b (u # us) i j = adds a b [u] i j + adds a b us i j"
  by (cases u) simp

lemma fold_adds: "fold (mul_step a b) us c i j = c i j + adds a b us i j"
proof (induction us arbitrary: c)
  case (Cons u us)
  have "fold (mul_step a b) (u # us) c i j = mul_step a b u c i j + adds a b us i j" by (simp only: fold_simps Cons.IH)
  also have "mul_step a b u c i j = c i j + adds a b [u] i j" by (rule mul_step_adds)
  finally show ?case by (simp only: adds_Cons [of a b u us] add.assoc)
qed simp

lemma adds_concat: "adds a b (concat (map f xs)) i j = (\<Sum>x \<leftarrow> xs. adds a b (f x) i j)"
  by (induction xs) simp_all

lemma sum_upt: "(\<Sum>x \<leftarrow> [0..<n]. f x) = (\<Sum>x < n. f x)" for f :: "nat \<Rightarrow> 'a :: comm_monoid_add"
  by (simp add: interv_sum_list_conv_sum_set_nat atLeast0LessThan)

lemma adds_row: "adds a b (row_cells i') i j = (if i' = i \<and> j < mat_N then \<Sum>k < mat_N. a i k * b k j else 0)"
proof -
  have c: "adds a b (map (\<lambda>k. (i', j', k)) [0..<n]) i j = (if i' = i \<and> j' = j then \<Sum>k < n. a i k * b k j else 0)" for j' n
    by (induction n) (simp_all add: add.commute)
  have "adds a b (row_cells i') i j = (\<Sum>j' < mat_N. if i' = i \<and> j' = j then \<Sum>k < mat_N. a i k * b k j else 0)"
    by (simp add: row_cells_def adds_concat sum_upt c)
  also have "\<dots> = (if i' = i \<and> j < mat_N then \<Sum>k < mat_N. a i k * b k j else 0)"
    by (cases "i' = i") (simp_all add: sum.delta')
  finally show ?thesis .
qed

lemma adds_all: "i < mat_N \<Longrightarrow> j < mat_N \<Longrightarrow> adds a b (concat (map row_cells [0..<mat_N])) i j = (\<Sum>k < mat_N. a i k * b k j)"
  by (simp add: adds_concat sum_upt adds_row sum.delta')

text \<open>The four threads together do what the sequential loops do.\<close>

lemma shares: "4 * (mat_N div NCORES) = mat_N"
  by (simp add: mat_N_def NCORES_def)

lemma upt_shares: "[0..<4 * n] = [0..<n] @ [n..<n + n] @ [2 * n..<2 * n + n] @ [3 * n..<3 * n + n]"
proof -
  have "[0..<4 * n] = [0..<n] @ [n..<4 * n]" using upt_add_eq_append [of 0 n "3 * n"] by simp
  moreover have "[n..<4 * n] = [n..<n + n] @ [n + n..<4 * n]" using upt_add_eq_append [of n "n + n" "2 * n"] by simp
  moreover have "[n + n..<4 * n] = [n + n..<3 * n] @ [3 * n..<4 * n]" using upt_add_eq_append [of "n + n" "3 * n" n] by simp
  ultimately have "[0..<4 * n] = [0..<n] @ [n..<n + n] @ [n + n..<3 * n] @ [3 * n..<4 * n]" by metis
  moreover have "2 * n = n + n" "2 * n + n = 3 * n" "3 * n + n = 4 * n" by simp_all
  ultimately show ?thesis by metis
qed

lemma four: "(\<Sum>t < (4::nat). f t) = f 0 + f 1 + f 2 + f 3" for f :: "nat \<Rightarrow> 'a :: comm_monoid_add"
  by (simp add: eval_nat_numeral add.assoc)

lemma threads_cover:
  "(\<Sum>t < NCORES. adds a b (threadfun (t * (mat_N div NCORES))) i j) = adds a b (concat (map row_cells [0..<mat_N])) i j"
proof -
  let ?n = "mat_N div NCORES"
  have "[0..<mat_N] = [0..<?n] @ [?n..<?n + ?n] @ [2 * ?n..<2 * ?n + ?n] @ [3 * ?n..<3 * ?n + ?n]"
    using upt_shares [of ?n] unfolding shares .
  then show ?thesis by (simp add: NCORES_def four threadfun_def add.assoc)
qed

section \<open>Every interleaving\<close>

text \<open>What thread \<open>t\<close> has still to do, created or not.\<close>

definition mm_rest :: "mm \<Rightarrow> nat \<Rightarrow> (nat \<times> nat \<times> nat) list" where
  "mm_rest s t = (if t < mm_pc s then mm_todo s t else threadfun (t * (mat_N div NCORES)))"

definition mm_inv :: "nat \<Rightarrow> mm \<Rightarrow> bool" where
  "mm_inv k s = (mat_a s = fst init_ab \<and> mat_b s = snd init_ab \<and> mm_pc s \<le> 2 * NCORES
     \<and> k + (2 * NCORES - mm_pc s) + (\<Sum>t < NCORES. length (mm_rest s t)) = 2 * NCORES + mat_N ^ 3
     \<and> (\<forall>t. mm_pc s \<le> t \<longrightarrow> mm_todo s t = [])
     \<and> (\<forall>t < NCORES. NCORES + t < mm_pc s \<longrightarrow> mm_todo s t = [])
     \<and> (\<forall>i j. mat_c s i j + (\<Sum>t < NCORES. adds (mat_a s) (mat_b s) (mm_rest s t) i j) = prcs_main i j))"

lemma prcs_main_adds: "prcs_main i j = adds (fst init_ab) (snd init_ab) (concat (map row_cells [0..<mat_N])) i j"
  by (simp add: prcs_main_def fold_adds case_prod_beta)

lemma length_threadfun: "length (threadfun p) = (mat_N div NCORES) * mat_N * mat_N"
  by (simp add: threadfun_def row_cells_def length_concat o_def sum_list_triv mult.assoc)

lemma mm_start_inv: "mm_inv 0 mm_start"
proof -
  have "(\<Sum>t < NCORES. length (mm_rest mm_start t)) = mat_N ^ 3"
    using shares by (simp add: mm_rest_def mm_start_def length_threadfun) (simp add: NCORES_def power3_eq_cube mult.assoc [symmetric])
  then show ?thesis unfolding mm_inv_def prcs_main_adds threads_cover [symmetric] by (simp add: mm_start_def mm_rest_def)
qed

lemma sum_taken:
  fixes f :: "nat \<Rightarrow> 'a :: comm_monoid_add"
  assumes "t < n" "\<And>u. u \<noteq> t \<Longrightarrow> g u = f u" "f t = d + g t"
  shows "(\<Sum>u < n. f u) = d + (\<Sum>u < n. g u)"
proof -
  have "(\<Sum>u < n. f u) = f t + (\<Sum>u \<in> {..<n} - {t}. f u)" using assms(1) by (simp add: sum.remove)
  also have "\<dots> = d + (g t + (\<Sum>u \<in> {..<n} - {t}. g u))" using assms(2,3) by (simp add: add.assoc)
  also have "g t + (\<Sum>u \<in> {..<n} - {t}. g u) = (\<Sum>u < n. g u)" using assms(1) by (simp add: sum.remove)
  finally show ?thesis .
qed

lemma mm_step_inv:
  assumes "mm_step s s'" "mm_inv k s"
  shows "mm_inv (Suc k) s'"
  using assms(1)
proof cases
  case create
  have r: "mm_rest s' = mm_rest s" using create by (auto simp: mm_rest_def mm_create_def Let_def fun_eq_iff less_Suc_eq)
  show ?thesis unfolding mm_inv_def r using assms(2) create by (auto simp: mm_inv_def mm_create_def Let_def)
next
  case join
  have r: "mm_rest s' t = mm_rest s t" if "t < NCORES" for t using join that by (auto simp: mm_rest_def)
  have d: "NCORES + t < mm_pc s + 1 \<Longrightarrow> NCORES + t < mm_pc s \<or> t = mm_pc s - NCORES" for t by auto
  have "(\<Sum>t < NCORES. length (mm_rest s' t)) = (\<Sum>t < NCORES. length (mm_rest s t))"
    "(\<Sum>t < NCORES. adds a b (mm_rest s' t) i j) = (\<Sum>t < NCORES. adds a b (mm_rest s t) i j)" for a b i j by (simp_all add: r)
  moreover have "mm_todo s t = []" if "t < NCORES" "NCORES + t < mm_pc s + 1" for t
    using d [OF that(2)] that(1) assms(2) join(4) by (auto simp: mm_inv_def)
  ultimately show ?thesis using assms(2) join by (auto simp: mm_inv_def)
next
  case (work t u us)
  have t: "t < mm_pc s" using work(2,3) assms(2) by (metis list.distinct(1) mm_inv_def not_le)
  have o: "x \<noteq> t \<Longrightarrow> mm_rest s' x = mm_rest s x" for x using work by (simp add: mm_rest_def)
  have n: "mm_rest s t = u # us" "mm_rest s' t = us" using work t by (simp_all add: mm_rest_def)
  have l: "(\<Sum>x < NCORES. length (mm_rest s x)) = 1 + (\<Sum>x < NCORES. length (mm_rest s' x))"
    using sum_taken [OF work(2), of "\<lambda>x. length (mm_rest s' x)" "\<lambda>x. length (mm_rest s x)" 1] o n by simp
  have a: "(\<Sum>x < NCORES. adds p q (mm_rest s x) i j) = adds p q [u] i j + (\<Sum>x < NCORES. adds p q (mm_rest s' x) i j)" for p q i j
  proof (rule sum_taken [OF work(2)])
    show "adds p q (mm_rest s t) i j = adds p q [u] i j + adds p q (mm_rest s' t) i j" unfolding n by (rule adds_Cons)
  qed (simp add: o)
  have f: "mat_a s' = mat_a s" "mat_b s' = mat_b s" "mm_pc s' = mm_pc s" "mm_todo s' = (mm_todo s)(t := us)" "mat_c s' = mul_step (mat_a s) (mat_b s) u (mat_c s)"
    using work by simp_all
  have c: "mat_c s' i j + (\<Sum>x < NCORES. adds (mat_a s) (mat_b s) (mm_rest s' x) i j) = prcs_main i j" for i j
  proof -
    have "mat_c s i j + (\<Sum>x < NCORES. adds (mat_a s) (mat_b s) (mm_rest s x) i j) = prcs_main i j" using assms(2) unfolding mm_inv_def by blast
    then show ?thesis unfolding a f(5) mul_step_adds by (simp only: add.assoc)
  qed
  have e: "mm_todo s' x = []" if "mm_pc s \<le> x \<or> x < NCORES \<and> NCORES + x < mm_pc s" for x
    using that assms(2) work(3) t unfolding f by (auto simp: mm_inv_def)
  show ?thesis unfolding mm_inv_def unfolding f(1-3) using assms(2) l c e by (auto simp: mm_inv_def)
qed

lemma mm_run_inv: "(mm_step ^^ k) mm_start s \<Longrightarrow> mm_inv k s"
  by (induction k arbitrary: s) (auto simp: mm_start_inv intro: mm_step_inv)

lemma mm_moves:
  assumes "mm_inv k s" "\<not> (\<exists>s'. mm_step s s')"
  shows "mm_pc s = 2 * NCORES \<and> (\<forall>t < NCORES. mm_rest s t = [])"
proof -
  have w: "mm_todo s t = []" if "t < NCORES" for t using that assms(2) by (cases "mm_todo s t") (auto intro: mm_step.work)
  have "\<not> mm_pc s < NCORES" using assms(2) mm_step.create by blast
  moreover have "\<not> mm_pc s < 2 * NCORES" if "NCORES \<le> mm_pc s" using assms(2) mm_step.join [OF that] w [of "mm_pc s - NCORES"] by fastforce
  ultimately show ?thesis using assms(1) w by (auto simp: mm_inv_def mm_rest_def)
qed

text \<open>The entries of \<^verbatim>\<open>a\<close> and \<^verbatim>\<open>b\<close>.\<close>

lemma init_row:
  "fold (\<lambda>j (a, b). (set_cell i j x a, set_cell i j y b)) [0..<n] (a, b) =
     (a(i := (\<lambda>j. if j < n then x else a i j)), b(i := (\<lambda>j. if j < n then y else b i j)))"
  by (induction n) (auto simp: set_cell_def fun_eq_iff less_Suc_eq)

lemma init_rows:
  "fold (\<lambda>i. fold (\<lambda>j (a, b). (set_cell i j x a, set_cell i j y b)) [0..<n]) [0..<m] (a, b) =
     ((\<lambda>i j. if i < m \<and> j < n then x else a i j), (\<lambda>i j. if i < m \<and> j < n then y else b i j))"
  by (induction m) (auto simp: init_row fun_eq_iff less_Suc_eq)

lemma init_ab_cells: "i < mat_N \<Longrightarrow> j < mat_N \<Longrightarrow> fst init_ab i j = 2 \<and> snd init_ab i j = 3"
  by (simp add: init_ab_def init_rows)

lemma prcs_main_value:
  assumes "i < mat_N" "j < mat_N"
  shows "sint (prcs_main i j) = 6144"
proof -
  have "prcs_main i j = (\<Sum>k < mat_N. 2 * 3)"
    unfolding prcs_main_adds adds_all [OF assms] using init_ab_cells assms by (intro sum.cong) auto
  then show ?thesis by (simp add: mat_N_def)
qed



end
