(* ===== verification/Cleanup_Handler.thy ===== *)
theory Cleanup_Handler
  imports Io_Buffers
begin

text \<open>
  Threads that may be cancelled: \<^verbatim>\<open>src/booksrc/ch16/cleanup_hdlr.c\<close>. Its threads are those of \<^verbatim>\<open>mt_iobuf_rfct.c\<close> (theory
  \<open>Io_Buffers\<close>, whose streams and buffers are used here), with a cleanup handler that frees the buffer when the thread is cancelled. A request of
  cancellation acts, or not, at a call that is a cancellation point: the printing, \<^verbatim>\<open>fread\<close>, \<^verbatim>\<open>fwrite\<close>, and the message of
  \<^verbatim>\<open>FATAL\<close>. \<open>cl_step\<close> interleaves main, the two threads and the cancellation in every way.
\<close>

section \<open>State\<close>

text \<open>
  Where a thread is: not created, before its allocation, before the line it prints, before \<^verbatim>\<open>fread\<close>, at the message about it, before
  \<^verbatim>\<open>fwrite\<close>, at the message about it, before \<^verbatim>\<open>pthread_cleanup_pop\<close>, ended, cancelled. The handler is installed from \<open>C_show\<close> to \<open>C_pop\<close>.
\<close>

datatype cpc = C_new | C_start | C_show | C_read | C_rfatal | C_write | C_fatal | C_pop | C_exit | C_canceled

record cln =
  cio :: iob
  cpcs :: "nat \<Rightarrow> cpc"
  creq :: "nat \<Rightarrow> bool"
  cargs :: "nat \<Rightarrow> bool"
  cmain :: nat
  cstop :: "unit outcome option"

definition on_io :: "(iob, 'a) cprog \<Rightarrow> (cln, 'a) cprog" where
  "on_io p = (\<lambda>s. case p (cio s) of (r, i) \<Rightarrow> (r, s\<lparr>cio := i\<rparr>))"

definition cl_at :: "string \<Rightarrow> nat \<Rightarrow> string" where
  "cl_at fn line = place ''cleanup_hdlr.c'' fn line"

section \<open>The threads\<close>

definition cl_again :: "nat \<Rightarrow> int \<Rightarrow> (iob, cpc) cprog" where
  "cl_again t numio = sq (modify (\<lambda>s. s\<lparr>ti := (ti s)(t := ti s t + 1)\<rparr>)) (bnd (gets (\<lambda>s. ti s t)) (\<lambda>i. ret (if i < numio then C_read else C_pop)))"

fun cl_thread :: "nat \<Rightarrow> int \<Rightarrow> cpc \<Rightarrow> (iob, cpc) cprog" where
  "cl_thread t numio C_start =
     bnd (buf_malloc NREAD) (\<lambda>p.
     sq (modify (\<lambda>s. s\<lparr>iobuf := (iobuf s)(t := p)\<rparr>))
     (sq (if p = NULL then FATAL (cl_at ''wrapper_testit_mt_refactored'' 92)
            (''thread #'' @ show_nat t @ '': malloc('' @ show_nat NREAD @ '') failed!'' @ [nl]) else ret ())
     (ret C_show)))"
| "cl_thread t numio C_show =
     bnd (gets (\<lambda>s. (pagesize s, shown s (iobuf s t)))) (\<lambda>(page, g).
     sq (VPRINT (cl_at ''testit_mt_refactored'' 50) (thread_line t numio page @ '' iobuf = '' @ g @ [nl]))
     (sq (modify (\<lambda>s. s\<lparr>ti := (ti s)(t := 0)\<rparr>))
     (ret (if 0 < numio then C_read else C_pop))))"
| "cl_thread t numio C_read =
     bnd (gets (\<lambda>s. iobuf s t)) (\<lambda>p. sq (fread t p) (bnd (gets (\<lambda>s. fnr s t)) (\<lambda>n. ret (if n = 0 then C_rfatal else C_write))))"
| "cl_thread t numio C_rfatal = sq (FATAL (cl_at ''testit_mt_refactored'' 57) (''fread on /dev/urandom failed'' @ [nl])) (ret C_write)"
| "cl_thread t numio C_write =
     bnd (gets (\<lambda>s. iobuf s t)) (\<lambda>p.
     bnd (fwrite t p) (\<lambda>ok.
     if ok then cl_again t numio
     else bnd (gets weof) (\<lambda>e. if e then ret C_pop else
       bnd (gets werr) (\<lambda>r. if r then sq (buf_free p) (ret C_fatal) else cl_again t numio))))"
| "cl_thread t numio C_fatal = sq (FATAL (cl_at ''testit_mt_refactored'' 64) (''fwrite on our file failed'' @ [nl])) (cl_again t numio)"
| "cl_thread t numio C_pop = sq (bnd (gets (\<lambda>s. iobuf s t)) buf_free) (ret C_exit)"
| "cl_thread t numio _ = blocked"

definition cleanup_handler :: "nat \<Rightarrow> (iob, unit) cprog" where
  "cleanup_handler t = bnd (gets (\<lambda>s. (iobuf s t, shown s (iobuf s t)))) (\<lambda>(p, g).
     sq (printf (''+++ In cleanup_handler +++'' @ [nl] @ '' free-ing buffer '' @ g @ [nl]))
     (buf_free p))"

text \<open>The places of a thread that wait at a cancellation point; the handler is installed in all of them.\<close>

definition cancel_point :: "cpc \<Rightarrow> bool" where
  "cancel_point pc = (pc \<in> {C_show, C_read, C_rfatal, C_write, C_fatal})"

section \<open>main\<close>

definition cl_usage :: "string \<Rightarrow> (cln, unit) cprog" where
  "cl_usage name = on_io (sq (eprintf (''Usage: '' @ name @ '' number-of-times-to-rdwr cancel-thread'' @ [nl] @
     '' (2nd param: pass 1 to cancel the first worker thread'' @ [nl] @ ''  0 otherwise).'' @ [nl])) (exit_with EXIT_FAILURE))"

definition cl_begin :: "string list \<Rightarrow> (cln, unit) cprog" where
  "cl_begin argv =
     (if length argv \<noteq> 3 then cl_usage (argv ! 0) else
      let numio = atoi (argv ! 1) in
      if numio \<le> 0 then cl_usage (argv ! 0) else
      on_io (sq (rw_banner (argv ! 0) numio) (open_streams (cl_at ''main'' 147) (cl_at ''main'' 151))))"

definition cl_create :: "nat \<Rightarrow> (cln, unit) cprog" where
  "cl_create t =
     bnd (on_io malloc_ok) (\<lambda>ok.
     sq (if \<not> ok then sq (on_io (FATAL (cl_at ''main'' 161) (''calloc stToThread['' @ show_nat t @ ''] failed!'' @ [nl]))) (fault NullDeref)
         else modify (\<lambda>s. s\<lparr>cargs := (cargs s)(t := True)\<rparr>))
     (bnd (on_io call_ret) (\<lambda>r.
      if r \<noteq> 0 then on_io (FATAL (cl_at ''main'' 171) (''pthread_create() failed! ['' @ show_int r @ '']'' @ [nl]))
      else modify (\<lambda>s. s\<lparr>cpcs := (cpcs s)(t := C_start)\<rparr>))))"

definition cl_cancel :: "bool \<Rightarrow> (cln, unit) cprog" where
  "cl_cancel asked =
     (if \<not> asked then ret () else
      sq (on_io (printf (''main: sending CANCEL REQUEST to worker thread 0 ...'' @ [nl])))
      (bnd (on_io call_ret) (\<lambda>r.
       if r \<noteq> 0 then on_io (FATAL (cl_at ''main'' 181) (''pthread_cancel(thread 0) failed! ['' @ show_int r @ '']'' @ [nl]))
       else modify (\<lambda>s. s\<lparr>creq := (creq s)(0 := True)\<rparr>))))"

text \<open>The status of a cancelled thread is -1, \<^verbatim>\<open>PTHREAD_CANCELED\<close>.\<close>

definition cl_join :: "nat \<Rightarrow> (cln, unit) cprog" where
  "cl_join t =
     bnd (gets (\<lambda>s. cpcs s t)) (\<lambda>pc.
     if pc \<noteq> C_exit \<and> pc \<noteq> C_canceled then blocked else
     sq (bnd (on_io call_ret) (\<lambda>r.
         if r \<noteq> 0 then on_io (WARN (cl_at ''main'' 188) (''pthread_join() failed! ['' @ show_int r @ '']'' @ [nl]))
         else sq (on_io (printf ('' Thread #'' @ show_nat t @ '' successfully joined; it terminated with status='' @
                    show_int (if pc = C_canceled then -1 else 0) @ [nl])))
              (if pc = C_canceled then on_io (printf (''  : was CANCELED'' @ [nl])) else ret ())))
     (modify (\<lambda>s. s\<lparr>cargs := (cargs s)(t := False)\<rparr>)))"

definition cl_main :: "bool \<Rightarrow> (cln, unit) cprog list" where
  "cl_main asked = [cl_create 0, cl_create 1, cl_cancel asked, cl_join 0, cl_join 1, on_io (sq (fclose rfp) (fclose wfp))]"

section \<open>Interleavings\<close>

text \<open>What follows a piece of main, of a thread, and a cancellation.\<close>

definition cl_end :: "('a \<Rightarrow> cln \<Rightarrow> cln) \<Rightarrow> 'a outcome \<times> cln \<Rightarrow> cln option" where
  "cl_end f p = (case p of
      (Return x, s) \<Rightarrow> Some (f x s)
    | (Exited n, s) \<Rightarrow> Some (s\<lparr>cstop := Some (Exited n)\<rparr>)
    | (Faulted e, s) \<Rightarrow> Some (s\<lparr>cstop := Some (Faulted e)\<rparr>)
    | (Blocks, _) \<Rightarrow> None)"

definition cl_move :: "int \<Rightarrow> nat \<Rightarrow> cln \<Rightarrow> cln option" where
  "cl_move numio t s = cl_end (\<lambda>pc s. s\<lparr>cpcs := (cpcs s)(t := pc)\<rparr>) (on_io (cl_thread t numio (cpcs s t)) s)"

definition cl_die :: "nat \<Rightarrow> cln \<Rightarrow> cln option" where
  "cl_die t s = cl_end (\<lambda>_ s. s\<lparr>cpcs := (cpcs s)(t := C_canceled)\<rparr>) (on_io (cleanup_handler t) s)"

definition cl_go :: "bool \<Rightarrow> cln \<Rightarrow> cln option" where
  "cl_go asked s = cl_end (\<lambda>_ s. s\<lparr>cmain := cmain s + 1\<rparr>) ((cl_main asked ! cmain s) s)"

inductive cl_step :: "int \<Rightarrow> bool \<Rightarrow> cln \<Rightarrow> cln \<Rightarrow> bool" for numio asked where
  main: "cstop s = None \<Longrightarrow> cmain s < 6 \<Longrightarrow> cl_go asked s = Some s' \<Longrightarrow> cl_step numio asked s s'"
| thread: "cstop s = None \<Longrightarrow> t < 2 \<Longrightarrow> cl_move numio t s = Some s' \<Longrightarrow> cl_step numio asked s s'"
| cancel: "cstop s = None \<Longrightarrow> t < 2 \<Longrightarrow> creq s t \<Longrightarrow> cancel_point (cpcs s t) \<Longrightarrow> cl_die t s = Some s' \<Longrightarrow> cl_step numio asked s s'"

inductive_cases cl_stepE: "cl_step numio asked s s'"

section \<open>What the calls keep\<close>

text \<open>The calls of main succeed, and no write reports an error.\<close>

definition io_fine :: "iob \<Rightarrow> bool" where
  "io_fine s = (bmem s = [] \<and> rets s = [] \<and> rfp s \<and> wfp s \<and> W_err \<notin> set (wouts s) \<and> \<not> werr s)"

definition io_keeps :: "iob \<Rightarrow> iob \<Rightarrow> bool" where
  "io_keeps s s' = (io_fine s' \<and> dom (fbuf s') = dom (fbuf s) \<and> nextp s' = nextp s \<and> iobuf s' = iobuf s \<and> ti s' = ti s)"

lemma fread_keeps:
  assumes "io_fine s" "p \<noteq> NULL" "p \<in> dom (fbuf s)"
  shows "\<exists>s'. fread t p s = (Return (), s') \<and> io_keeps s s'"
  using assms by (auto simp: fread_def prog_eval store_def io_fine_def io_keeps_def Let_def split: list.splits)

lemma fwrite_keeps:
  assumes "io_fine s" "p \<noteq> NULL" "p \<in> dom (fbuf s)"
  shows "\<exists>r s'. fwrite t p s = (Return r, s') \<and> io_keeps s s'"
proof -
  obtain c where c: "fbuf s p = Some c" using assms(3) by auto
  have w: "w \<in> set (wouts s) \<Longrightarrow> w \<noteq> W_err" for w using assms(1) by (auto simp: io_fine_def)
  show ?thesis
  proof (cases "wouts s")
    case Nil
    then show ?thesis using assms(1,2) c by (auto simp: fwrite_def prog_eval deref_def io_fine_def io_keeps_def)
  next
    case (Cons x xs)
    then show ?thesis using assms(1,2) c w [of x] by (cases x) (auto simp: fwrite_def prog_eval deref_def io_fine_def io_keeps_def)
  qed
qed

section \<open>The invariant\<close>

definition cl_live :: "cpc \<Rightarrow> bool" where
  "cl_live pc = (pc \<in> {C_show, C_read, C_rfatal, C_write, C_pop})"

definition live_threads :: "(nat \<Rightarrow> cpc) \<Rightarrow> nat set" where
  "live_threads w = {t. t < 2 \<and> cl_live (w t)}"

text \<open>The buffers on the heap are those of the threads that have one, each its own.\<close>

definition bufs_ok :: "iob \<Rightarrow> (nat \<Rightarrow> cpc) \<Rightarrow> bool" where
  "bufs_ok i w = (io_fine i \<and> 0 < nextp i \<and> (\<forall>t \<in> live_threads w. 0 < iobuf i t \<and> iobuf i t < nextp i)
     \<and> inj_on (iobuf i) (live_threads w) \<and> dom (fbuf i) = iobuf i ` live_threads w)"

definition pcs_ok :: "int \<Rightarrow> cln \<Rightarrow> bool" where
  "pcs_ok n s = (cmain s \<le> 6 \<and> (\<forall>t < 2. (cpcs s t = C_new \<longleftrightarrow> cmain s \<le> t) \<and> cpcs s t \<noteq> C_fatal
     \<and> (cpcs s t \<in> {C_read, C_rfatal, C_write} \<longrightarrow> 0 \<le> ti (cio s) t \<and> ti (cio s) t < n)
     \<and> (cargs s t \<longleftrightarrow> t < cmain s \<and> cmain s \<le> t + 3)
     \<and> (t + 3 < cmain s \<longrightarrow> cpcs s t \<in> {C_exit, C_canceled})))"

definition cl_inv :: "int \<Rightarrow> cln \<Rightarrow> bool" where
  "cl_inv n s = (bufs_ok (cio s) (cpcs s) \<and> pcs_ok n s)"

fun cl_weight :: "int \<Rightarrow> int \<Rightarrow> cpc \<Rightarrow> nat" where
  "cl_weight n i C_new = 3 * nat n + 4"
| "cl_weight n i C_start = 3 * nat n + 3"
| "cl_weight n i C_show = 3 * nat n + 2"
| "cl_weight n i C_read = 3 * nat (n - i) + 1"
| "cl_weight n i C_rfatal = 3 * nat (n - i)"
| "cl_weight n i C_write = 3 * nat (n - i)"
| "cl_weight n i C_pop = 1"
| "cl_weight n i _ = 0"

definition cl_measure :: "int \<Rightarrow> cln \<Rightarrow> nat" where
  "cl_measure n s = (6 - cmain s) + (\<Sum>t < 2. cl_weight n (ti (cio s) t) (cpcs s t))"

lemma lt_2: "t < (2::nat) \<longleftrightarrow> t = 0 \<or> t = 1"
  by auto

lemma sum_2: "(\<Sum>t < (2::nat). f t) = f 0 + f 1" for f :: "nat \<Rightarrow> nat"
  by (simp add: numeral_2_eq_2)

lemma live_upd: "live_threads (w(t := pc)) = (if t < 2 \<and> cl_live pc then insert t (live_threads w) else live_threads w - {t})"
  by (auto simp: live_threads_def)

text \<open>Three ways to go on: with the buffers as they are, with a new one, without one's own.\<close>

lemma bufs_keep:
  assumes "bufs_ok i w" "io_keeps i i'" "cl_live pc = cl_live (w t)"
  shows "bufs_ok i' (w(t := pc))"
proof -
  have "live_threads (w(t := pc)) = live_threads w" using assms(3) by (auto simp: live_threads_def)
  then show ?thesis using assms(1,2) by (simp add: bufs_ok_def io_keeps_def)
qed

lemma bufs_cong:
  assumes "bufs_ok i w" "io_fine i'" "fbuf i' = fbuf i" "nextp i' = nextp i" "iobuf i' = iobuf i"
  shows "bufs_ok i' w"
  using assms by (simp add: bufs_ok_def)

lemma bufs_alloc:
  assumes "bufs_ok i w" "t < 2" "\<not> cl_live (w t)" "cl_live pc" "io_fine i'" "nextp i' = nextp i + 1" "iobuf i' = (iobuf i)(t := nextp i)"
    "fbuf i' = (fbuf i)(nextp i \<mapsto> c)"
  shows "bufs_ok i' (w(t := pc))"
proof -
  have t: "t \<notin> live_threads w" using assms(3) by (simp add: live_threads_def)
  have l: "live_threads (w(t := pc)) = insert t (live_threads w)" using assms(2,4) by (simp add: live_upd)
  have im: "((iobuf i)(t := x)) ` live_threads w = iobuf i ` live_threads w" for x using t by (auto simp: image_def)
  have old: "\<And>u. u \<in> live_threads w \<Longrightarrow> iobuf i u < nextp i" "inj_on (iobuf i) (live_threads w)" "dom (fbuf i) = iobuf i ` live_threads w"
    using assms(1) by (simp_all add: bufs_ok_def)
  have n: "nextp i \<notin> iobuf i ` live_threads w" using old(1) by (metis imageE less_irrefl)
  have "inj_on ((iobuf i)(t := nextp i)) (insert t (live_threads w))" using inj_on_fun_updI [OF old(2) n] n t by (auto simp: inj_on_insert im)
  moreover have "0 < ((iobuf i)(t := nextp i)) u \<and> ((iobuf i)(t := nextp i)) u < nextp i + 1" if "u \<in> insert t (live_threads w)" for u
    using that assms(1) by (auto simp: bufs_ok_def less_Suc_eq)
  ultimately show ?thesis using assms(5-8) old(3) im [of "nextp i"] unfolding bufs_ok_def l by (auto simp del: fun_upd_apply simp: fun_upd_same)
qed

lemma bufs_free:
  assumes "bufs_ok i w" "t \<in> live_threads w" "\<not> cl_live pc" "io_fine i'" "nextp i' = nextp i" "iobuf i' = iobuf i" "fbuf i' = (fbuf i)(iobuf i t := None)"
  shows "bufs_ok i' (w(t := pc))"
proof -
  have l: "live_threads (w(t := pc)) = live_threads w - {t}" using assms(3) by (simp add: live_upd)
  have inj: "inj_on (iobuf i) (live_threads w)" using assms(1) by (simp add: bufs_ok_def)
  have "iobuf i ` (live_threads w - {t}) = iobuf i ` live_threads w - {iobuf i t}" using inj_on_image_set_diff [OF inj, of "live_threads w" "{t}"] assms(2) by simp
  then show ?thesis using assms(1,4-7) inj_on_subset [OF inj, of "live_threads w - {t}"] unfolding bufs_ok_def l by auto
qed

section \<open>The pieces\<close>

text \<open>How a piece of thread \<open>t\<close> at \<open>pc\<close> may go on.\<close>

definition goes_on :: "nat \<Rightarrow> int \<Rightarrow> (nat \<Rightarrow> cpc) \<Rightarrow> iob \<Rightarrow> cpc \<Rightarrow> iob \<Rightarrow> bool" where
  "goes_on t n w i pc i' = (bufs_ok i' (w(t := pc)) \<and> pc \<noteq> C_new \<and> pc \<noteq> C_fatal \<and> (pc \<in> {C_read, C_rfatal, C_write} \<longrightarrow> 0 \<le> ti i' t \<and> ti i' t < n)
     \<and> (\<forall>u. u \<noteq> t \<longrightarrow> ti i' u = ti i u) \<and> cl_weight n (ti i' t) pc < cl_weight n (ti i t) (w t))"

lemma live_buf:
  assumes "bufs_ok i w" "t < 2" "cl_live (w t)"
  shows "t \<in> live_threads w" "iobuf i t \<noteq> NULL" "iobuf i t \<in> dom (fbuf i)" "io_fine i"
proof -
  show t: "t \<in> live_threads w" using assms(2,3) by (simp add: live_threads_def)
  show "iobuf i t \<noteq> NULL" "iobuf i t \<in> dom (fbuf i)" "io_fine i" using assms(1) t unfolding bufs_ok_def by auto
qed

lemma free_runs: "p \<noteq> NULL \<Longrightarrow> p \<in> dom (fbuf i) \<Longrightarrow> buf_free p i = (Return (), i\<lparr>fbuf := (fbuf i)(p := None)\<rparr>)"
  by (auto simp: buf_free_def free_def)

lemma start_piece:
  assumes "bufs_ok i w" "t < 2" "w t = C_start"
  shows "\<exists>i'. cl_thread t n C_start i = (Return C_show, i') \<and> goes_on t n w i C_show i'"
proof -
  let ?i = "i\<lparr>nextp := nextp i + 1, fbuf := (fbuf i)(nextp i \<mapsto> replicate NREAD nul), iobuf := (iobuf i)(t := nextp i)\<rparr>"
  have m: "bmem i = []" "0 < nextp i" using assms(1) by (simp_all add: bufs_ok_def io_fine_def)
  have r: "cl_thread t n C_start i = (Return C_show, ?i)" using m by (simp add: buf_malloc_def prog_simps)
  have "bufs_ok ?i (w(t := C_show))"
    using bufs_alloc [OF assms(1,2), of C_show ?i "replicate NREAD nul"] assms(1,3) by (simp add: cl_live_def bufs_ok_def io_fine_def)
  then show ?thesis using r assms(3) by (simp add: goes_on_def)
qed

lemma show_piece:
  assumes "bufs_ok i w" "t < 2" "w t = C_show"
  shows "\<exists>pc i'. cl_thread t n C_show i = (Return pc, i') \<and> goes_on t n w i pc i'"
proof -
  let ?pc = "if 0 < n then C_read else C_pop"
  obtain i' where r: "cl_thread t n C_show i = (Return ?pc, i')" "ti i' = (ti i)(t := 0)" "io_fine i'" "fbuf i' = fbuf i" "nextp i' = nextp i" "iobuf i' = iobuf i"
    using assms(1) by (simp add: prog_simps bufs_ok_def io_fine_def)
  have "bufs_ok i (w(t := ?pc))" using assms(1,3) bufs_keep [of i w i ?pc t] by (simp add: cl_live_def io_keeps_def bufs_ok_def)
  from bufs_cong [OF this r(3-6)] show ?thesis using r(1,2) assms(3) by (auto simp: goes_on_def)
qed

lemma read_piece:
  assumes "bufs_ok i w" "t < 2" "w t = C_read" "0 \<le> ti i t" "ti i t < n"
  shows "\<exists>pc i'. cl_thread t n C_read i = (Return pc, i') \<and> goes_on t n w i pc i'"
proof -
  have "cl_live (w t)" using assms(3) by (simp add: cl_live_def)
  note b = live_buf [OF assms(1,2) this]
  from fread_keeps [OF b(4,2,3)] obtain i' where i': "fread t (iobuf i t) i = (Return (), i')" "io_keeps i i'" by blast
  let ?pc = "if fnr i' t = 0 then C_rfatal else C_write"
  have "bufs_ok i' (w(t := ?pc))" using bufs_keep [OF assms(1) i'(2), of ?pc t] assms(3) by (simp add: cl_live_def)
  moreover have "cl_thread t n C_read i = (Return ?pc, i')" using i'(1) by (simp add: prog_simps)
  ultimately show ?thesis using assms(3-5) i'(2) by (auto simp: goes_on_def io_keeps_def)
qed

lemma again_goes:
  assumes "bufs_ok i w" "io_keeps i i'" "w t = C_write" "0 \<le> ti i t" "ti i t < n"
  shows "\<exists>pc i''. cl_again t n i' = (Return pc, i'') \<and> goes_on t n w i pc i''"
proof -
  let ?pc = "if ti i t + 1 < n then C_read else C_pop"
  let ?i = "i'\<lparr>ti := (ti i')(t := ti i' t + 1)\<rparr>"
  have k: "ti i' = ti i" "io_fine i'" using assms(2) by (simp_all add: io_keeps_def)
  have "bufs_ok i' (w(t := ?pc))" using bufs_keep [OF assms(1,2), of ?pc t] assms(3) by (simp add: cl_live_def)
  then have "bufs_ok ?i (w(t := ?pc))" by (rule bufs_cong) (use k in \<open>simp_all add: io_fine_def\<close>)
  moreover have "cl_again t n i' = (Return ?pc, ?i)" using k by (simp add: cl_again_def prog_simps)
  ultimately show ?thesis using assms(3-5) k by (auto simp: goes_on_def nat_diff_distrib)
qed

lemma write_piece:
  assumes "bufs_ok i w" "t < 2" "w t = C_write" "0 \<le> ti i t" "ti i t < n"
  shows "\<exists>pc i'. cl_thread t n C_write i = (Return pc, i') \<and> goes_on t n w i pc i'"
proof -
  have "cl_live (w t)" using assms(3) by (simp add: cl_live_def)
  note b = live_buf [OF assms(1,2) this]
  from fwrite_keeps [OF b(4,2,3)] obtain r i' where i': "fwrite t (iobuf i t) i = (Return r, i')" "io_keeps i i'" by blast
  show ?thesis
  proof (cases "\<not> r \<and> weof i'")
    case True
    have "bufs_ok i' (w(t := C_pop))" using bufs_keep [OF assms(1) i'(2), of C_pop t] assms(3) by (simp add: cl_live_def)
    moreover have "cl_thread t n C_write i = (Return C_pop, i')" using i'(1) True by (auto simp: prog_eval)
    ultimately show ?thesis using assms(3-5) i'(2) by (auto simp: goes_on_def io_keeps_def)
  next
    case False
    have "\<not> werr i'" using i'(2) by (simp add: io_keeps_def io_fine_def)
    then have "cl_thread t n C_write i = cl_again t n i'" using i'(1) False by (auto simp: prog_eval)
    then show ?thesis using again_goes [OF assms(1) i'(2) assms(3-5)] by simp
  qed
qed

lemma pop_piece:
  assumes "bufs_ok i w" "t < 2" "w t = C_pop"
  shows "\<exists>i'. cl_thread t n C_pop i = (Return C_exit, i') \<and> goes_on t n w i C_exit i'"
proof -
  have "cl_live (w t)" using assms(3) by (simp add: cl_live_def)
  note b = live_buf [OF assms(1,2) this]
  let ?i = "i\<lparr>fbuf := (fbuf i)(iobuf i t := None)\<rparr>"
  have "bufs_ok ?i (w(t := C_exit))" using bufs_free [OF assms(1) b(1), of C_exit ?i] b(4) by (simp add: cl_live_def io_fine_def)
  moreover have "cl_thread t n C_pop i = (Return C_exit, ?i)" using free_runs [OF b(2,3)] by (simp add: prog_simps)
  ultimately show ?thesis using assms(3) by (simp add: goes_on_def)
qed

text \<open>The handler frees the buffer of a thread that is cancelled, at whatever point that happens.\<close>

lemma handler_piece:
  assumes "bufs_ok i w" "t < 2" "cancel_point (w t)" "w t \<noteq> C_fatal" "w t \<in> {C_read, C_rfatal, C_write} \<longrightarrow> ti i t < n"
  shows "\<exists>i'. cleanup_handler t i = (Return (), i') \<and> goes_on t n w i C_canceled i'"
proof -
  have l: "cl_live (w t)" using assms(3,4) by (auto simp: cl_live_def cancel_point_def)
  note b = live_buf [OF assms(1,2) l]
  let ?g = "''+++ In cleanup_handler +++'' @ [nl] @ '' free-ing buffer '' @ shown i (iobuf i t) @ [nl]"
  let ?i = "i\<lparr>bout := bout i @ [Out ?g], fbuf := (fbuf i)(iobuf i t := None)\<rparr>"
  have "bufs_ok ?i (w(t := C_canceled))" using bufs_free [OF assms(1) b(1), of C_canceled ?i] b(4) by (simp add: cl_live_def io_fine_def)
  moreover have "cleanup_handler t i = (Return (), ?i)" using free_runs [of "iobuf i t" "i\<lparr>bout := bout i @ [Out ?g]\<rparr>"] b(2,3)
    by (simp add: cleanup_handler_def prog_simps)
  moreover have "0 < cl_weight n (ti i t) (w t)" using assms(3-5) by (auto simp: cancel_point_def)
  ultimately show ?thesis by (simp add: goes_on_def)
qed

section \<open>The steps\<close>

definition cl_fine :: "int \<Rightarrow> cln \<Rightarrow> cln \<Rightarrow> bool" where
  "cl_fine n s s' = (cstop s' = None \<and> cl_inv n s' \<and> cl_measure n s' < cl_measure n s \<or> cstop s' = Some (Exited EXIT_FAILURE) \<and> 0 < cl_measure n s)"

lemma goes_on_fine:
  assumes "cl_inv n s" "cstop s = None" "t < 2" "goes_on t n (cpcs s) (cio s) pc i" "t < cmain s"
    "t + 3 < cmain s \<longrightarrow> pc \<in> {C_exit, C_canceled}"
  shows "cl_fine n s (s\<lparr>cio := i, cpcs := (cpcs s)(t := pc)\<rparr>)"
proof -
  let ?s = "s\<lparr>cio := i, cpcs := (cpcs s)(t := pc)\<rparr>"
  have "bufs_ok (cio ?s) (cpcs ?s)" using assms(4) by (simp add: goes_on_def)
  moreover have "pcs_ok n ?s" using assms by (auto simp: cl_inv_def pcs_ok_def goes_on_def)
  moreover have "cl_measure n ?s < cl_measure n s" using assms(3,4) unfolding cl_measure_def sum_2 lt_2 by (auto simp: goes_on_def)
  ultimately show ?thesis using assms(2) by (simp add: cl_fine_def cl_inv_def)
qed

lemma cl_move_fine:
  assumes "cl_inv n s" "cstop s = None" "t < 2" "cl_move n t s = Some s'"
  shows "cl_fine n s s'"
proof -
  have b: "bufs_ok (cio s) (cpcs s)" and p: "pcs_ok n s" using assms(1) by (simp_all add: cl_inv_def)
  have l: "0 \<le> ti (cio s) t \<and> ti (cio s) t < n" if "cpcs s t \<in> {C_read, C_rfatal, C_write}" using p assms(3) that by (auto simp: pcs_ok_def)
  have go: ?thesis if "\<exists>pc i'. cl_thread t n (cpcs s t) (cio s) = (Return pc, i') \<and> goes_on t n (cpcs s) (cio s) pc i'" "cpcs s t \<notin> {C_new, C_exit, C_canceled}"
  proof -
    from that(1) obtain pc i' where r: "cl_thread t n (cpcs s t) (cio s) = (Return pc, i')" "goes_on t n (cpcs s) (cio s) pc i'" by blast
    have "s' = s\<lparr>cio := i', cpcs := (cpcs s)(t := pc)\<rparr>" using assms(4) r(1) by (simp add: cl_move_def cl_end_def on_io_def)
    moreover have "t < cmain s" "\<not> t + 3 < cmain s" using p assms(3) that(2) by (auto simp: pcs_ok_def)
    ultimately show ?thesis using goes_on_fine [OF assms(1-3) r(2)] by simp
  qed
  have no: ?thesis if "cpcs s t \<in> {C_new, C_exit, C_canceled}" using that assms(4) by (auto simp: cl_move_def cl_end_def on_io_def blocked_def)
  show ?thesis
  proof (cases "cpcs s t")
    case C_start then show ?thesis using go start_piece [OF b assms(3)] by fastforce
  next
    case C_show then show ?thesis using go show_piece [OF b assms(3)] by fastforce
  next
    case C_read then show ?thesis using go read_piece [OF b assms(3)] l by fastforce
  next
    case C_write then show ?thesis using go write_piece [OF b assms(3)] l by fastforce
  next
    case C_pop then show ?thesis using go pop_piece [OF b assms(3)] by fastforce
  next
    case C_rfatal
    have "bmem (cio s) = []" using b by (simp add: bufs_ok_def io_fine_def)
    then obtain l where "FATAL a m (cio s) = (Exited EXIT_FAILURE, (cio s)\<lparr>bmem := [], bout := bout (cio s) @ l a m\<rparr>)" for a m
      using FATAL_run [of _ _ "cio s"] by simp metis
    then have "cstop s' = Some (Exited EXIT_FAILURE)" using assms(4) C_rfatal by (auto simp: cl_move_def cl_end_def on_io_def prog_eval)
    moreover have "0 < cl_measure n s" using l C_rfatal assms(3) unfolding cl_measure_def sum_2 lt_2 by auto
    ultimately show ?thesis by (simp add: cl_fine_def)
  next
    case C_fatal then show ?thesis using p assms(3) by (simp add: pcs_ok_def)
  qed (use no in auto)
qed

lemma cl_die_fine:
  assumes "cl_inv n s" "cstop s = None" "t < 2" "cancel_point (cpcs s t)" "cl_die t s = Some s'"
  shows "cl_fine n s s'"
proof -
  have b: "bufs_ok (cio s) (cpcs s)" and p: "pcs_ok n s" using assms(1) by (simp_all add: cl_inv_def)
  have "cpcs s t \<noteq> C_fatal" "cpcs s t \<in> {C_read, C_rfatal, C_write} \<longrightarrow> ti (cio s) t < n" using p assms(3) by (auto simp: pcs_ok_def)
  from handler_piece [OF b assms(3,4) this] obtain i' where r: "cleanup_handler t (cio s) = (Return (), i')" "goes_on t n (cpcs s) (cio s) C_canceled i'" by blast
  have "s' = s\<lparr>cio := i', cpcs := (cpcs s)(t := C_canceled)\<rparr>" using assms(5) r(1) by (simp add: cl_die_def cl_end_def on_io_def)
  moreover have "t < cmain s" using p assms(3,4) by (auto simp: pcs_ok_def cancel_point_def)
  ultimately show ?thesis using goes_on_fine [OF assms(1-3) r(2)] by simp
qed

text \<open>Main only prints, except that a creation starts a thread and the request is noted.\<close>

lemma main_fine:
  assumes "cl_inv n s" "cstop s = None" "cmain s < 6"
    "cstop s' = None" "cmain s' = cmain s + 1" "io_fine (cio s')" "fbuf (cio s') = fbuf (cio s)" "nextp (cio s') = nextp (cio s)"
    "iobuf (cio s') = iobuf (cio s)" "ti (cio s') = ti (cio s)"
    "cpcs s' = (if cmain s < 2 then (cpcs s)(cmain s := C_start) else cpcs s)"
    "\<And>t. t < 2 \<Longrightarrow> cargs s' t = (if t = cmain s then True else if cmain s = t + 3 then False else cargs s t)"
    "\<And>t. t < 2 \<Longrightarrow> cmain s = t + 3 \<Longrightarrow> cpcs s t \<in> {C_exit, C_canceled}"
  shows "cl_fine n s s'"
proof -
  have b: "bufs_ok (cio s) (cpcs s)" and p: "pcs_ok n s" using assms(1) by (simp_all add: cl_inv_def)
  have new: "cpcs s t = C_new \<longleftrightarrow> cmain s \<le> t" if "t < 2" for t using p that by (simp add: pcs_ok_def)
  have k: "io_keeps (cio s) (cio s)" using b by (simp add: bufs_ok_def io_keeps_def)
  have "bufs_ok (cio s) (cpcs s')" using bufs_keep [OF b k, of C_start "cmain s"] new [of "cmain s"] b unfolding assms(11) by (auto simp: cl_live_def)
  from bufs_cong [OF this assms(6-9)] have bs: "bufs_ok (cio s') (cpcs s')" .
  have pt: "cpcs s' t = (if t = cmain s then C_start else cpcs s t)" if "t < 2" for t using that unfolding assms(11) by auto
  have "(cpcs s' t = C_new \<longleftrightarrow> cmain s' \<le> t) \<and> cpcs s' t \<noteq> C_fatal
     \<and> (cpcs s' t \<in> {C_read, C_rfatal, C_write} \<longrightarrow> 0 \<le> ti (cio s') t \<and> ti (cio s') t < n)
     \<and> (cargs s' t \<longleftrightarrow> t < cmain s' \<and> cmain s' \<le> t + 3)
     \<and> (t + 3 < cmain s' \<longrightarrow> cpcs s' t \<in> {C_exit, C_canceled})" if t: "t < 2" for t
  proof -
    have o: "(cpcs s t = C_new \<longleftrightarrow> cmain s \<le> t)" "cpcs s t \<noteq> C_fatal"
     "(cpcs s t \<in> {C_read, C_rfatal, C_write} \<longrightarrow> 0 \<le> ti (cio s) t \<and> ti (cio s) t < n)"
     "(cargs s t \<longleftrightarrow> t < cmain s \<and> cmain s \<le> t + 3)"
     "(t + 3 < cmain s \<longrightarrow> cpcs s t \<in> {C_exit, C_canceled})" using p t unfolding pcs_ok_def by blast+
    show ?thesis using o assms(13) [OF t] unfolding pt [OF t] assms(5,10) assms(12) [OF t] by (cases "t = cmain s") (auto simp: less_Suc_eq)
  qed
  then have "pcs_ok n s'" using assms(3,5) unfolding pcs_ok_def by simp
  moreover have "cl_weight n (ti (cio s') t) (cpcs s' t) \<le> cl_weight n (ti (cio s) t) (cpcs s t)" if "t < 2" for t
    using new [OF that] unfolding pt [OF that] assms(10) by auto
  then have "(\<Sum>t < 2. cl_weight n (ti (cio s') t) (cpcs s' t)) \<le> (\<Sum>t < 2. cl_weight n (ti (cio s) t) (cpcs s t))" by (intro sum_mono) simp
  then have "cl_measure n s' < cl_measure n s" using assms(3,5) by (simp add: cl_measure_def)
  ultimately show ?thesis using bs assms(4) by (simp add: cl_fine_def cl_inv_def)
qed

lemma on_io_run: "p (cio s) = (r, i) \<Longrightarrow> on_io p s = (r, s\<lparr>cio := i\<rparr>)"
  by (simp add: on_io_def)

lemma cl_create_run:
  assumes "io_fine (cio s)"
  shows "cl_create t s = (Return (), s\<lparr>cargs := (cargs s)(t := True), cpcs := (cpcs s)(t := C_start)\<rparr>)"
  using assms by (simp add: cl_create_def on_io_def prog_simps run_call_ret io_fine_def)

lemma cl_cancel_run:
  assumes "io_fine (cio s)"
  shows "\<exists>b q. cl_cancel asked s = (Return (), s\<lparr>cio := (cio s)\<lparr>bout := b\<rparr>, creq := q\<rparr>)"
proof (cases asked)
  case False
  then have "cl_cancel asked s = (Return (), s\<lparr>cio := (cio s)\<lparr>bout := bout (cio s)\<rparr>, creq := creq s\<rparr>)" by (simp add: cl_cancel_def prog_simps)
  then show ?thesis by blast
next
  case True
  then show ?thesis using assms by (auto simp: cl_cancel_def on_io_def prog_simps run_call_ret io_fine_def)
qed

lemma cl_join_run:
  assumes "io_fine (cio s)"
  shows "if cpcs s t \<in> {C_exit, C_canceled} then \<exists>b. cl_join t s = (Return (), s\<lparr>cio := (cio s)\<lparr>bout := b\<rparr>, cargs := (cargs s)(t := False)\<rparr>)
    else fst (cl_join t s) = Blocks"
  using assms by (auto simp: cl_join_def on_io_def prog_simps run_call_ret io_fine_def blocked_def)

lemma cl_go_fine:
  assumes "cl_inv n s" "cstop s = None" "cmain s < 6"
  shows "(cmain s \<in> {3, 4} \<longrightarrow> cpcs s (cmain s - 3) \<in> {C_exit, C_canceled}) \<longleftrightarrow> cl_go asked s \<noteq> None"
    and "cl_go asked s = Some s' \<Longrightarrow> cl_fine n s s'"
proof -
  have f: "io_fine (cio s)" using assms(1) by (simp add: cl_inv_def bufs_ok_def)
  note m = main_fine [OF assms]
  have "((cmain s \<in> {3, 4} \<longrightarrow> cpcs s (cmain s - 3) \<in> {C_exit, C_canceled}) \<longleftrightarrow> cl_go asked s \<noteq> None) \<and> (cl_go asked s = Some s' \<longrightarrow> cl_fine n s s')"
  proof -
    consider "cmain s = 0 \<or> cmain s = 1" | "cmain s = 2" | "cmain s = 3 \<or> cmain s = 4" | "cmain s = 5" using assms(3) by linarith
    then show ?thesis
    proof cases
      case 1
      then have g: "cl_go asked s = Some (s\<lparr>cpcs := (cpcs s)(cmain s := C_start), cargs := (cargs s)(cmain s := True), cmain := cmain s + 1\<rparr>)"
        by (auto simp: cl_go_def cl_main_def cl_end_def cl_create_run [OF f])
      have "cl_fine n s (s\<lparr>cpcs := (cpcs s)(cmain s := C_start), cargs := (cargs s)(cmain s := True), cmain := cmain s + 1\<rparr>)"
        by (rule m) (use 1 assms(2) f in auto)
      then show ?thesis using 1 g by auto
    next
      case 2
      obtain b q where c: "cl_cancel asked s = (Return (), s\<lparr>cio := (cio s)\<lparr>bout := b\<rparr>, creq := q\<rparr>)" using cl_cancel_run [OF f] by blast
      have g: "cl_go asked s = Some (s\<lparr>cio := (cio s)\<lparr>bout := b\<rparr>, creq := q, cmain := cmain s + 1\<rparr>)"
        using 2 c by (simp add: cl_go_def cl_main_def cl_end_def)
      have "cl_fine n s (s\<lparr>cio := (cio s)\<lparr>bout := b\<rparr>, creq := q, cmain := cmain s + 1\<rparr>)" by (rule m) (use 2 assms(2) f in \<open>auto simp: io_fine_def\<close>)
      then show ?thesis using 2 g by auto
    next
      case 3
      then have j: "cl_main asked ! cmain s = cl_join (cmain s - 3)" by (auto simp: cl_main_def)
      show ?thesis
      proof (cases "cpcs s (cmain s - 3) \<in> {C_exit, C_canceled}")
        case True
        then obtain b where c: "cl_join (cmain s - 3) s = (Return (), s\<lparr>cio := (cio s)\<lparr>bout := b\<rparr>, cargs := (cargs s)(cmain s - 3 := False)\<rparr>)"
          using cl_join_run [OF f, of "cmain s - 3"] by auto
        have g: "cl_go asked s = Some (s\<lparr>cio := (cio s)\<lparr>bout := b\<rparr>, cargs := (cargs s)(cmain s - 3 := False), cmain := cmain s + 1\<rparr>)"
          using j c by (simp add: cl_go_def cl_end_def)
        have "cl_fine n s (s\<lparr>cio := (cio s)\<lparr>bout := b\<rparr>, cargs := (cargs s)(cmain s - 3 := False), cmain := cmain s + 1\<rparr>)"
          by (rule m) (use 3 True assms(2) f in \<open>auto simp: io_fine_def\<close>)
        then show ?thesis using 3 g True by auto
      next
        case False
        then have "fst (cl_join (cmain s - 3) s) = Blocks" using cl_join_run [OF f, of "cmain s - 3"] by simp
        then have "cl_go asked s = None" using j by (cases "cl_join (cmain s - 3) s") (simp add: cl_go_def cl_end_def)
        then show ?thesis using 3 False by auto
      qed
    next
      case 4
      have g: "cl_go asked s = Some (s\<lparr>cmain := cmain s + 1\<rparr>)"
        using f 4 by (simp add: cl_go_def cl_main_def cl_end_def on_io_def fclose_def prog_simps io_fine_def)
      have "cl_fine n s (s\<lparr>cmain := cmain s + 1\<rparr>)" by (rule m) (use 4 assms(2) f in auto)
      then show ?thesis using 4 g by auto
    qed
  qed
  then show "(cmain s \<in> {3, 4} \<longrightarrow> cpcs s (cmain s - 3) \<in> {C_exit, C_canceled}) \<longleftrightarrow> cl_go asked s \<noteq> None" "cl_go asked s = Some s' \<Longrightarrow> cl_fine n s s'" by blast+
qed

lemma cl_step_fine:
  assumes "cl_step n asked s s'" "cl_inv n s"
  shows "cl_fine n s s'"
  using assms(1)
proof cases
  case main
  then show ?thesis using cl_go_fine(2) [OF assms(2)] by blast
next
  case (thread t)
  then show ?thesis using cl_move_fine [OF assms(2)] by blast
next
  case (cancel t)
  then show ?thesis using cl_die_fine [OF assms(2)] by blast
qed

lemma cl_move_some:
  assumes "cl_inv n s" "t < 2" "cpcs s t \<notin> {C_new, C_exit, C_canceled}"
  shows "\<exists>s'. cl_move n t s = Some s'"
proof -
  have b: "bufs_ok (cio s) (cpcs s)" and p: "pcs_ok n s" using assms(1) by (simp_all add: cl_inv_def)
  have l: "0 \<le> ti (cio s) t" "ti (cio s) t < n" if "cpcs s t \<in> {C_read, C_rfatal, C_write}" using p assms(2) that by (auto simp: pcs_ok_def)
  have "fst (cl_thread t n (cpcs s t) (cio s)) \<noteq> Blocks"
  proof (cases "cpcs s t")
    case C_start then show ?thesis using start_piece [OF b assms(2), of n] by fastforce
  next
    case C_show then show ?thesis using show_piece [OF b assms(2), of n] by fastforce
  next
    case C_read then show ?thesis using read_piece [OF b assms(2), of n] l by fastforce
  next
    case C_write then show ?thesis using write_piece [OF b assms(2), of n] l by fastforce
  next
    case C_pop then show ?thesis using pop_piece [OF b assms(2), of n] by fastforce
  next
    case C_rfatal
    obtain l where "FATAL (cl_at ''testit_mt_refactored'' 57) (''fread on /dev/urandom failed'' @ [nl]) (cio s) =
      (Exited EXIT_FAILURE, (cio s)\<lparr>bmem := [], bout := bout (cio s) @ l\<rparr>)"
      using FATAL_run [of "cl_at ''testit_mt_refactored'' 57" "''fread on /dev/urandom failed'' @ [nl]" "cio s"] b by (auto simp: bufs_ok_def io_fine_def)
    then show ?thesis using C_rfatal by (simp add: prog_eval)
  next
    case C_fatal then show ?thesis using p assms(2) by (simp add: pcs_ok_def)
  qed (use assms(3) in auto)
  then show ?thesis by (cases "cl_thread t n (cpcs s t) (cio s)") (auto simp: cl_move_def cl_end_def on_io_def split: outcome.splits)
qed

lemma cl_stuck:
  assumes "cl_inv n s" "cstop s = None" "\<not> (\<exists>s'. cl_step n asked s s')"
  shows "cmain s = 6"
proof (rule ccontr)
  assume "cmain s \<noteq> 6"
  then have c: "cmain s < 6" using assms(1) by (simp add: cl_inv_def pcs_ok_def)
  have "cl_go asked s = None" using assms(2,3) c cl_step.main by (metis option.exhaust)
  then have j: "cmain s \<in> {3, 4}" "cpcs s (cmain s - 3) \<notin> {C_exit, C_canceled}" using cl_go_fine(1) [OF assms(1,2) c, of asked] by blast+
  have t: "cmain s - 3 < 2" using j(1) by auto
  have "cpcs s (cmain s - 3) \<noteq> C_new" using assms(1) t j(1) unfolding cl_inv_def pcs_ok_def by auto
  with cl_move_some [OF assms(1) t] j(2) obtain s' where "cl_move n (cmain s - 3) s = Some s'" by auto
  with assms(2,3) t show False by (metis cl_step.thread)
qed

lemma cl_run:
  assumes "(cl_step n asked ^^ k) s0 s" "cl_inv n s0" "cstop s0 = None"
  shows "cstop s = None \<and> cl_inv n s \<and> k + cl_measure n s \<le> cl_measure n s0 \<or> cstop s = Some (Exited EXIT_FAILURE) \<and> k \<le> cl_measure n s0"
  using assms(1)
proof (induction k arbitrary: s)
  case 0
  then show ?case using assms(2,3) by simp
next
  case (Suc k)
  then obtain s1 where s1: "(cl_step n asked ^^ k) s0 s1" "cl_step n asked s1 s" by (auto elim: relpowp_Suc_E)
  have "cstop s1 = None" using s1(2) by (auto elim: cl_stepE)
  with Suc.IH [OF s1(1)] have i: "cl_inv n s1" "k + cl_measure n s1 \<le> cl_measure n s0" by auto
  from cl_step_fine [OF s1(2) i(1)] i(2) show ?case by (auto simp: cl_fine_def)
qed

section \<open>Properties\<close>

definition cl_ready :: "cln \<Rightarrow> bool" where
  "cl_ready s = (cmain s = 0 \<and> cpcs s = (\<lambda>_. C_new) \<and> cargs s = (\<lambda>_. False) \<and> cstop s = None \<and> io_fine (cio s) \<and> 0 < nextp (cio s) \<and> fbuf (cio s) = Map.empty)"


definition cl_boot :: cln where
  "cl_boot = \<lparr>cio = \<lparr>bout = [], berrno = None, bmem = [], gVerbose = True, rets = [], mtx_owner = None, blocks = [''abc'', ''de''], wouts = [], wrote = [],
     weof = False, werr = False, opens = [], wfp = True, rfp = True, fbuf = Map.empty, nextp = 1, shown = (\<lambda>_. ''0x1000''), pagesize = 4096, gbuf = 0,
     iobuf = (\<lambda>_. 0), fnr = (\<lambda>_. 0), ti = (\<lambda>_. 0), tpcs = (\<lambda>_. T_new), stopped = None\<rparr>,
     cpcs = (\<lambda>_. C_new), creq = (\<lambda>_. False), cargs = (\<lambda>_. False), cmain = 0, cstop = None\<rparr>"


text \<open>A write error: the buffer is freed with its handler still installed, and a cancellation that acts in the message frees it again.\<close>

lemma cleanup_double_free:
  assumes "cstop s = None" "t < 2" "cpcs s t = C_write" "creq s t" "wfp (cio s)" "fnr (cio s) t \<noteq> 0" "wouts (cio s) = W_err # ws" "\<not> weof (cio s)"
    "iobuf (cio s) t \<noteq> NULL" "fbuf (cio s) (iobuf (cio s) t) = Some c"
  shows "\<exists>s'. (cl_step n asked ^^ 2) s s' \<and> cstop s' = Some (Faulted BadFree)"
proof -
  obtain s1 where s1: "cl_move n t s = Some s1" "cstop s1 = None" "cpcs s1 t = C_fatal" "creq s1 t" "iobuf (cio s1) t \<noteq> NULL" "fbuf (cio s1) (iobuf (cio s1) t) = None"
    using assms by (simp add: cl_move_def cl_end_def on_io_def fwrite_def deref_def buf_free_def free_def prog_eval)
  obtain s2 where s2: "cl_die t s1 = Some s2" "cstop s2 = Some (Faulted BadFree)"
    using s1 by (simp add: cl_die_def cl_end_def on_io_def cleanup_handler_def buf_free_def free_def printf_def prog_eval)
  have "cl_step n asked s s1" using assms(1,2) s1(1) by (rule cl_step.thread)
  moreover have "cl_step n asked s1 s2" using s1(2) assms(2) s1(4) _ s2(1) by (rule cl_step.cancel) (simp add: s1(3) cancel_point_def)
  ultimately have "(cl_step n asked ^^ 2) s s2" by (auto simp: numeral_2_eq_2)
  with s2(2) show ?thesis by blast
qed

end
