(* ===== verification/Signal_Setup.thy ===== *)
theory Signal_Setup
  imports Bank_Facto
begin

text \<open>
  Signals in programs with threads: \<^verbatim>\<open>src/booksrc/ch16/pthreads_app_template.c\<close> and \<^verbatim>\<open>src/booksrc/ch16/tsig.c\<close>. Main blocks the signals,
  a thread of its own waits for them, and the template installs a handler on an alternate stack for the signals of a fault. The
  state has the mask, the actions, the signals that are pending, the alternate stack and how the process died; \<open>rets\<close> are the
  results of the coming calls and \<open>sigwaits\<close> what the coming \<^verbatim>\<open>sigwait\<close> calls return and deliver.
\<close>

section \<open>State\<close>

datatype hname = H_fatal_sigs_handler | H_myfault | H_sighdlr | H_fatal_sig_handler

record sigact =
  sa_fn :: hname
  SA_RESTART :: bool
  SA_SIGINFO :: bool
  SA_ONSTACK :: bool
  SA_NODEFER :: bool
  sa_mask :: "nat \<Rightarrow> bool"

record sgn = threaded +
  sigmask :: "nat \<Rightarrow> bool"
  actions :: "nat \<rightharpoonup> sigact"
  pending :: "nat \<Rightarrow> bool"
  altstack :: "nat option"
  shown_stk :: string
  errnum :: int
  sigwaits :: "(int \<times> nat) list"
  signal_handled :: int
  handled :: nat
  pid :: int
  died :: "nat option"

abbreviation (input) SIGINT :: nat where "SIGINT \<equiv> 2"
abbreviation (input) SIGQUIT :: nat where "SIGQUIT \<equiv> 3"
abbreviation (input) SIGILL :: nat where "SIGILL \<equiv> 4"
abbreviation (input) SIGABRT :: nat where "SIGABRT \<equiv> 6"
abbreviation (input) SIGBUS :: nat where "SIGBUS \<equiv> 7"
abbreviation (input) SIGFPE :: nat where "SIGFPE \<equiv> 8"
abbreviation (input) SIGKILL :: nat where "SIGKILL \<equiv> 9"
abbreviation (input) SIGUSR1 :: nat where "SIGUSR1 \<equiv> 10"
abbreviation (input) SIGSEGV :: nat where "SIGSEGV \<equiv> 11"
abbreviation (input) SIGUSR2 :: nat where "SIGUSR2 \<equiv> 12"
abbreviation (input) SIGSTOP :: nat where "SIGSTOP \<equiv> 19"
abbreviation (input) SIGIO :: nat where "SIGIO \<equiv> 29"

text \<open>\<^verbatim>\<open>perror\<close>, and a call that ends the process with it when it fails.\<close>

definition sperror :: "string \<Rightarrow> ('x, unit) bprog" where
  "sperror msg = bnd (gets berrno) (\<lambda>e. eprintf (msg @ '': '' @ (case e of None \<Rightarrow> ''Success'' | Some txt \<Rightarrow> txt) @ [nl]))"

definition or_perror :: "(int \<Rightarrow> bool) \<Rightarrow> string \<Rightarrow> ('x threaded_scheme, unit) cprog" where
  "or_perror bad msg = bnd call_ret (\<lambda>r. if bad r then sq (sperror msg) (exit_with 1) else ret ())"

text \<open>\<^verbatim>\<open>pthread_sigmask(SIG_BLOCK, &set, NULL)\<close>, which leaves \<^verbatim>\<open>SIGKILL\<close> and \<^verbatim>\<open>SIGSTOP\<close> alone.\<close>

definition block_signals :: "(nat \<Rightarrow> bool) \<Rightarrow> ('x sgn_scheme, unit) cprog" where
  "block_signals sg = modify (\<lambda>s. s\<lparr>sigmask := (\<lambda>x. sigmask s x \<or> sg x \<and> x \<noteq> SIGKILL \<and> x \<noteq> SIGSTOP)\<rparr>)"

definition set_action :: "nat \<Rightarrow> sigact option \<Rightarrow> ('x sgn_scheme, unit) cprog" where
  "set_action sig act = modify (\<lambda>s. s\<lparr>actions := (actions s)(sig := act)\<rparr>)"

text \<open>
  \<^verbatim>\<open>raise\<close> of a signal whose action is the default one, death: it stays pending while it is blocked. A process that dies of a signal ends with
  128 and its number, as a shell shows it.
\<close>

definition raise_default :: "nat \<Rightarrow> ('x sgn_scheme, unit) cprog" where
  "raise_default sig = bnd (gets (\<lambda>s. sigmask s sig)) (\<lambda>b.
     if b then modify (\<lambda>s. s\<lparr>pending := (pending s)(sig := True)\<rparr>)
     else sq (modify (\<lambda>s. s\<lparr>died := Some sig\<rparr>)) (exit_with (128 + int sig)))"

text \<open>The kernel runs a handler with its signal blocked, unless \<^verbatim>\<open>SA_NODEFER\<close>, and the signals of its mask.\<close>

definition run_handler :: "nat \<Rightarrow> sigact \<Rightarrow> ('x sgn_scheme, unit) cprog \<Rightarrow> ('x sgn_scheme, unit) cprog" where
  "run_handler sig act body =
     bnd (gets sigmask) (\<lambda>old.
     sq (modify (\<lambda>s. s\<lparr>sigmask := (\<lambda>x. old x \<or> sa_mask act x \<or> x = sig \<and> \<not> SA_NODEFER act)\<rparr>))
     (sq body
     (sq (modify (\<lambda>s. s\<lparr>sigmask := old\<rparr>))
     (bnd (gets (\<lambda>s. pending s sig \<and> \<not> old sig \<and> actions s sig = None)) (\<lambda>p.
      if p then sq (modify (\<lambda>s. s\<lparr>pending := (pending s)(sig := False)\<rparr>)) (raise_default sig) else ret ())))))"

section \<open>pthreads\_app\_template.c\<close>

definition app_lock :: "string \<Rightarrow> bool \<Rightarrow> (sgn, unit) cprog" where
  "app_lock what fatal = bnd call_ret (\<lambda>err.
     if err = 0 then ret ()
     else bnd (gets berrno) (\<lambda>e.
       sq (eprintf (''pthread_mutex_'' @ what @ '' failed! : '' @ (case e of None \<Rightarrow> ''Success'' | Some txt \<Rightarrow> txt) @ [nl]))
       (if fatal then sq (eprintf (''Aborting now...'' @ [nl])) (exit_with 1)
        else eprintf (''*WARNING* pthread_mutex_'' @ what @ '' failed!'' @ [nl]))))"

text \<open>One round of the thread that waits for signals, each branch of its switch storing the number; without another signal it waits on.\<close>

definition app_caught :: "nat \<Rightarrow> (sgn, unit) cprog" where
  "app_caught sig =
     sq (app_lock ''lock'' True)
     (sq (modify (\<lambda>s. s\<lparr>signal_handled := int sig\<rparr>))
     (sq (app_lock ''unlock'' True)
     (printf (''!!! signal_handler(): caught signal #'' @ show_nat sig @ '' !!!'' @ [nl]))))"

fun app_signal_loop :: "(int \<times> nat) list \<Rightarrow> (sgn, unit) cprog" where
  "app_signal_loop [] = sq (or_perror (\<lambda>r. r = -1) ''signal_handler: sigfillset failed'') (\<lambda>s. (Blocks, s))"
| "app_signal_loop ((r, sig) # ws) =
     sq (or_perror (\<lambda>r. r = -1) ''signal_handler: sigfillset failed'')
     (sq (if r < 0 then sq (sperror ''signal_handler: sigwait failed'') (exit_with 1) else ret ())
     (sq (app_caught sig)
     (app_signal_loop ws)))"

definition alive_line :: string where
  "alive_line = ''Dedicated signal_handler() thread alive..'' @ [nl]"

definition app_signal_handler :: "(sgn, unit) cprog" where
  "app_signal_handler = sq (printf alive_line) (bnd (gets sigwaits) app_signal_loop)"

text \<open>The text for \<^verbatim>\<open>si_code\<close>; two cases of the switch have no \<^verbatim>\<open>break\<close>.\<close>

definition si_cause :: "int \<Rightarrow> string list" where
  "si_cause code = (if code = 0 then [''user'' @ [nl]] else if code = 128 then [''kernel'' @ [nl]] else if code = -1 then [''queue'' @ [nl]]
     else if code = -2 then [''timer'' @ [nl]] else if code = -3 then [''mesgq'' @ [nl]] else if code = -4 then [''async io'' @ [nl]]
     else if code = -5 then [''sigio'' @ [nl]] else if code = -6 then [''t[g]kill'' @ [nl]]
     else if code = 1 then [''SEGV_MAPERR: address not mapped to object'' @ [nl]]
     else if code = 2 then [''SEGV_ACCERR: invalid permissions for mapped object'' @ [nl]]
     else (if code = 3 then [''SEGV_BNDERR: failed address bound checks'' @ [nl]] else [])
       @ (if code = 3 \<or> code = 4 then [''SEGV_PKUERR: access denied by memory-protection keys'' @ [nl]] else []) @ [''-none-'' @ [nl]])"

definition say_all :: "(string \<Rightarrow> io) \<Rightarrow> string list \<Rightarrow> ('x, unit) bprog" where
  "say_all f ls = modify (\<lambda>s. s\<lparr>bout := bout s @ map f ls\<rparr>)"

text \<open>\<^verbatim>\<open>signal\<close> fails only for a number that is no signal.\<close>

definition fatal_sigs_handler :: "nat \<Rightarrow> int \<Rightarrow> int \<Rightarrow> string \<Rightarrow> (sgn, unit) cprog" where
  "fatal_sigs_handler signum si_errno si_code si_addr =
     sq (modify (\<lambda>s. s\<lparr>handled := handled s + 1\<rparr>))
     (bnd (gets (\<lambda>s. (handled s, pid s))) (\<lambda>(c, p).
     sq (printf ([nl] @ ''*** fatal_sigs_handler(): ['' @ show_nat c @ ''] PID '' @ show_int p))
     (sq (printf ([CHR 0x09] @ ''received signal '' @ show_nat signum @ ''. errno='' @ show_int si_errno @ [nl] @
            '' Cause/Origin: (si_code='' @ show_int si_code @ ''): ''))
     (sq (say_all Out (si_cause si_code))
     (sq (printf ('' Faulting addr='' @ si_addr @ [nl]))
     (sq (set_action SIGSEGV None)
     (sq (bnd call_ret (\<lambda>r. if r \<noteq> 0 then eprintf ''raise SIGSEGV failed'' else raise_default SIGSEGV))
     (exit_with 1))))))))"

text \<open>It returns 0, or the negated error number.\<close>

definition setup_altsigstack :: "nat \<Rightarrow> (sgn, int) cprog" where
  "setup_altsigstack stack_sz =
     sq (printf (''Alt signal stack size = '' @ show_nat stack_sz @ '' bytes'' @ [nl]))
     (bnd malloc_ok (\<lambda>ok.
      if \<not> ok then sq (printf (''malloc('' @ show_nat stack_sz @ '') for alt sig stack failed'' @ [nl])) (ret (-12)) else
      bnd call_ret (\<lambda>r.
      if r = -1 then sq (printf (''sigaltstack for size '' @ show_nat stack_sz @ '' failed!'' @ [nl])) (bnd (gets errnum) (\<lambda>e. ret (- e)))
      else
        sq (modify (\<lambda>s. s\<lparr>altstack := Some stack_sz\<rparr>))
        (bnd (gets shown_stk) (\<lambda>p.
        sq (printf (''Alt signal stack uva (user virt addr) = '' @ p @ [nl]))
        (ret 0))))))"

definition fatal_act :: sigact where
  "fatal_act = \<lparr>sa_fn = H_fatal_sigs_handler, SA_RESTART = True, SA_SIGINFO = True, SA_ONSTACK = True, SA_NODEFER = False, sa_mask = (\<lambda>_. False)\<rparr>"

definition app_sigaction :: "nat \<Rightarrow> (sgn, unit) cprog" where
  "app_sigaction sig = sq (or_perror (\<lambda>r. r = -1) ''sigaction'') (set_action sig (Some fatal_act))"

definition init_signal_handling_for_mt :: "(sgn, unit) cprog" where
  "init_signal_handling_for_mt =
     (let sigset = (\<lambda>_. True)(SIGSEGV := False, SIGBUS := False, SIGABRT := False, SIGFPE := False, SIGILL := False) in
      sq (or_perror (\<lambda>r. r < 0) ''sigfillset'')
      (sq (or_perror (\<lambda>r. r < 0) ''sigdelset'')
      (sq (or_perror (\<lambda>r. r < 0) ''sigdelset'')
      (sq (or_perror (\<lambda>r. r < 0) ''sigdelset'')
      (sq (or_perror (\<lambda>r. r < 0) ''sigdelset'')
      (sq (or_perror (\<lambda>r. r < 0) ''sigdelset'')
      (sq (or_perror (\<lambda>r. r \<noteq> 0) ''main: pthread_sigmask failed'')
      (sq (block_signals sigset)
      (bnd (setup_altsigstack (10 * 1024 * 1024)) (\<lambda>r.
      sq (if r < 0 then sq (eprintf (''setting up alt sig stack failed'' @ [nl])) (exit_with 1) else ret ())
      (sq (app_sigaction SIGSEGV)
      (sq (app_sigaction SIGBUS)
      (sq (app_sigaction SIGABRT)
      (sq (app_sigaction SIGFPE)
      (app_sigaction SIGILL)))))))))))))))"

text \<open>
  The workers do nothing and print nothing; \<^verbatim>\<open>tid\<close>s and arguments are left out but for their outcomes. The thread that waits for signals is
  run where main waits for it.
\<close>

definition app_at :: "nat \<Rightarrow> string" where
  "app_at line = place ''pthreads_app_template.c'' ''main'' line"

definition app_create :: "nat \<Rightarrow> (sgn, unit) cprog" where
  "app_create i =
     bnd malloc_ok (\<lambda>ok.
     sq (if \<not> ok then sq (FATAL (app_at 438) (''calloc stToThread['' @ show_nat i @ ''] failed!'' @ [nl])) (fault NullDeref) else ret ())
     (bnd call_ret (\<lambda>r.
     sq (if r \<noteq> 0 then FATAL (app_at 446) (''['' @ show_nat i @ ''] pthread_create() failed! ['' @ show_int r @ '']'' @ [nl]) else ret ())
     (printf (''Thread #'' @ show_nat i @ '' successfully created'' @ [nl])))))"

definition app_join :: "nat \<Rightarrow> (sgn, unit) cprog" where
  "app_join i = bnd call_ret (\<lambda>r.
     if r \<noteq> 0 then WARN (app_at 467) (''['' @ show_nat i @ ''] pthread_join() failed! ['' @ show_int r @ '']'' @ [nl])
     else printf ('' Thread #'' @ show_nat i @ '' successfully joined; it terminated with status=0'' @ [nl]))"

definition app_main :: "string list \<Rightarrow> (sgn, unit) cprog" where
  "app_main argv =
     sq init_signal_handling_for_mt
     (sq (printf (''Set pthread stack size to 8 MB'' @ [nl]))
     (sq (bnd call_ret (\<lambda>r. if r \<noteq> 0 then sq (eprintf (''pthread setstacksize failed ['' @ show_int r @ '']'' @ [nl])) (exit_with EXIT_FAILURE) else ret ()))
     (sq (bnd call_ret (\<lambda>r. if r \<noteq> 0 then sq (eprintf (argv ! 0 @ '': signal handler thread creation failure..'' @ [nl]))
            (sq (sperror ''main: pthread_create'') (exit_with 1)) else ret ()))
     (sq (app_create 1) (sq (app_create 2)
     (sq (app_join 1) (sq (app_join 2)
     (sq app_signal_handler
     (bnd call_ret (\<lambda>r. if r \<noteq> 0 then WARN (app_at 478) (''[0] pthread_join() failed! ['' @ show_int r @ '']'' @ [nl]) else ret ()))))))))))"

section \<open>tsig.c\<close>

definition pad_num :: "nat \<Rightarrow> string" where
  "pad_num n = pad (CHR '' '') 2 (show_nat n)"

definition tsig_line :: "nat \<Rightarrow> string" where
  "tsig_line sig = (if sig = SIGINT \<or> sig = SIGQUIT \<or> sig = SIGIO then ''+++ signal_handler(): caught signal #'' @ show_nat sig @ '' +++'' @ [nl]
     else ''*** signal_handler(): caught signal #'' @ pad_num sig @ '' [unhandled] ***'' @ [nl])"

definition tsig_at :: "string \<Rightarrow> nat \<Rightarrow> string" where
  "tsig_at fn line = place ''tsig.c'' fn line"

definition tsig_check :: "nat \<Rightarrow> string \<Rightarrow> bool \<Rightarrow> (sgn, unit) cprog" where
  "tsig_check line msg bad = (if bad then FATAL (tsig_at ''signal_handler'' line) msg else ret ())"

fun tsig_signal_loop :: "(int \<times> nat) list \<Rightarrow> (sgn, unit) cprog" where
  "tsig_signal_loop [] = sq (bnd call_ret (\<lambda>r. tsig_check 45 ''sigfillset failed'' (r = -1))) (\<lambda>s. (Blocks, s))"
| "tsig_signal_loop ((r, sig) # ws) =
     sq (bnd call_ret (\<lambda>r. tsig_check 45 ''sigfillset failed'' (r = -1)))
     (sq (tsig_check 47 ''sigwait failed'' (r < 0))
     (sq (printf (tsig_line sig))
     (tsig_signal_loop ws)))"

definition tsig_signal_handler :: "(sgn, unit) cprog" where
  "tsig_signal_handler = sq (printf alive_line) (bnd (gets sigwaits) tsig_signal_loop)"

definition tsig_work :: "nat \<Rightarrow> (sgn, unit) cprog" where
  "tsig_work this =
     bnd (gets pid) (\<lambda>p.
     sq (printf ('' [Thread #'' @ show_nat this @ ''] PID '' @ show_int p @ '' running ...'' @ [nl]))
     (sq (if this = 1 then DELAY_LOOP 49 200 else if this = 2 then DELAY_LOOP 50 200 else ret ())
     (printf ([nl] @ ''---------------------------------------'' @ [nl]))))"

definition tsig_create :: "nat \<Rightarrow> nat \<Rightarrow> (sgn, unit) cprog" where
  "tsig_create line t = bnd call_ret (\<lambda>r.
     if r \<noteq> 0 then FATAL (tsig_at ''main'' line) (''pthread_create '' @ show_nat t @ '' failed ['' @ show_int r @ '']'' @ [nl]) else ret ())"

text \<open>Main then pauses for ever; the code after its loop is not reached. The order in which the threads run is that of their creation.\<close>

definition tsig_main :: "(sgn, unit) cprog" where
  "tsig_main =
     sq (bnd call_ret (\<lambda>r. if r \<noteq> 0 then FATAL (tsig_at ''main'' 118) ''main: pthread_sigmask failed'' else block_signals (\<lambda>_. True)))
     (sq (tsig_create 126 0) (sq (tsig_create 132 1) (sq (tsig_create 132 2)
     (sq (tsig_work 1) (sq (tsig_work 2)
     tsig_signal_handler)))))"

section \<open>Lemmas\<close>

lemma call_ok: "rets s = [] \<Longrightarrow> call_ret s = (Return 0, s)" for s :: sgn
  by (simp add: call_ret_def)

lemma run_say_all [prog_simps]: "say_all f ls s = (Return (), s\<lparr>bout := bout s @ map f ls\<rparr>)"
  by (simp add: say_all_def prog_simps)

lemmas sgn_calls = or_perror_def call_ok block_signals_def set_action_def app_sigaction_def setup_altsigstack_def

text \<open>
  When every call succeeds the template ends its set-up with exactly the five signals of a fault, and those that cannot be blocked, open
  (what was blocked before stays blocked), and these five, and no other, handled on an alternate stack of 10 MB.
\<close>

definition fault_sigs :: "nat set" where
  "fault_sigs = {SIGSEGV, SIGBUS, SIGABRT, SIGFPE, SIGILL}"

lemma template_signals:
  assumes "rets s = []" "bmem s = []" "actions s = Map.empty"
  shows "\<exists>s'. init_signal_handling_for_mt s = (Return (), s')
    \<and> (\<forall>x. sigmask s' x \<longleftrightarrow> sigmask s x \<or> x \<notin> fault_sigs \<and> x \<noteq> SIGKILL \<and> x \<noteq> SIGSTOP)
    \<and> (\<forall>x. actions s' x = (if x \<in> fault_sigs then Some fatal_act else None)) \<and> SA_ONSTACK fatal_act \<and> altstack s' = Some 10485760"
  using assms by (auto simp: init_signal_handling_for_mt_def Let_def sgn_calls prog_simps fault_sigs_def fatal_act_def)

text \<open>Any call of the set-up that fails ends the process with status 1.\<close>

lemma template_setup_fails:
  assumes "rets s = replicate k 0 @ [-1]" "k < 13" "bmem s = []" "0 < errnum s"
  shows "fst (init_signal_handling_for_mt s) = Exited 1"
proof -
  have "rets s = [-1] \<or> rets s = [0, -1] \<or> rets s = [0, 0, -1] \<or> rets s = [0, 0, 0, -1] \<or> rets s = [0, 0, 0, 0, -1] \<or> rets s = [0, 0, 0, 0, 0, -1] \<or> rets s = [0, 0, 0, 0, 0, 0, -1] \<or> rets s = [0, 0, 0, 0, 0, 0, 0, -1] \<or> rets s = [0, 0, 0, 0, 0, 0, 0, 0, -1] \<or> rets s = [0, 0, 0, 0, 0, 0, 0, 0, 0, -1] \<or> rets s = [0, 0, 0, 0, 0, 0, 0, 0, 0, 0, -1] \<or> rets s = [0, 0, 0, 0, 0, 0, 0, 0, 0, 0, 0, -1] \<or> rets s = [0, 0, 0, 0, 0, 0, 0, 0, 0, 0, 0, 0, -1]"
    using assms(1,2) by (auto simp: eval_nat_numeral less_Suc_eq)
  then show ?thesis using assms(3,4)
    by (elim disjE) (simp_all add: init_signal_handling_for_mt_def or_perror_def call_ret_def block_signals_def set_action_def app_sigaction_def
      setup_altsigstack_def sperror_def prog_simps)
qed

text \<open>
  The thread of the template: it never returns and never ends the process as long as \<^verbatim>\<open>sigwait\<close> returns no negative number, and it never
  does, since an error is a positive number; so the test of its result never fails. Each signal is announced in turn, and the last is stored.
\<close>

definition caught_line :: "nat \<Rightarrow> string" where
  "caught_line sig = ''!!! signal_handler(): caught signal #'' @ show_nat sig @ '' !!!'' @ [nl]"

lemma app_signal_loop_run:
  assumes "rets s = []" "\<forall>w \<in> set ws. 0 \<le> fst w"
  shows "app_signal_loop ws s = (Blocks, s\<lparr>bout := bout s @ map (\<lambda>w. Out (caught_line (snd w))) ws,
    signal_handled := (if ws = [] then signal_handled s else int (snd (last ws)))\<rparr>)"
  using assms
proof (induction ws arbitrary: s)
  case Nil
  then show ?case by (simp add: or_perror_def call_ok prog_simps)
next
  case (Cons w ws)
  let ?s = "s\<lparr>signal_handled := int (snd w), bout := bout s @ [Out (caught_line (snd w))]\<rparr>"
  have "app_signal_loop (w # ws) s = app_signal_loop ws ?s"
    using Cons.prems by (cases w) (simp add: or_perror_def call_ok app_caught_def app_lock_def caught_line_def prog_simps)
  also have "\<dots> = (Blocks, ?s\<lparr>bout := bout ?s @ map (\<lambda>w. Out (caught_line (snd w))) ws, signal_handled := (if ws = [] then signal_handled ?s else int (snd (last ws)))\<rparr>)"
    using Cons.prems by (intro Cons.IH) auto
  finally show ?case by simp
qed

text \<open>So main never comes back from its last join.\<close>

lemma template_never_ends:
  assumes "rets s = []" "bmem s = []" "\<forall>w \<in> set (sigwaits s). 0 \<le> fst w"
  shows "\<exists>s'. app_main argv s = (Blocks, s')"
proof -
  have "\<exists>s1. app_main argv s = bnd app_signal_handler (\<lambda>_. bnd call_ret (\<lambda>r. if r \<noteq> 0 then WARN (app_at 478) (''[0] pthread_join() failed! ['' @ show_int r @ '']'' @ [nl]) else ret ())) s1
    \<and> rets s1 = [] \<and> sigwaits s1 = sigwaits s"
    using assms(1,2) by (simp add: app_main_def init_signal_handling_for_mt_def Let_def sgn_calls app_create_def app_join_def prog_simps) (rule exI, rule conjI, rule refl, simp)
  then obtain s1 where s1: "app_main argv s = bnd app_signal_handler (\<lambda>_. bnd call_ret (\<lambda>r. if r \<noteq> 0 then WARN (app_at 478) (''[0] pthread_join() failed! ['' @ show_int r @ '']'' @ [nl]) else ret ())) s1"
    "rets s1 = []" "sigwaits s1 = sigwaits s" by blast
  have "fst (app_signal_handler s1) = Blocks"
    using app_signal_loop_run [of "s1\<lparr>bout := bout s1 @ [Out alive_line]\<rparr>" "sigwaits s1"] s1(2,3) assms(3) by (simp add: app_signal_handler_def prog_simps)
  then show ?thesis using s1(1) by (cases "app_signal_handler s1") (simp add: bnd_def)
qed

text \<open>
  The handler of the template means to die of \<^verbatim>\<open>SIGSEGV\<close>, so that the kernel dumps the memory. For \<^verbatim>\<open>SIGSEGV\<close> itself that signal is
  blocked while the handler runs, so the handler goes on and the process exits with status 1; for the other signals it does die.
\<close>

lemma fatal_handler_end:
  assumes "rets s = []" "\<not> sigmask s SIGSEGV" "sig \<in> fault_sigs"
  shows "\<exists>s'. run_handler sig fatal_act (fatal_sigs_handler sig e c a) s = (Exited (if sig = SIGSEGV then 1 else 139), s') \<and>
    died s' = (if sig = SIGSEGV then died s else Some SIGSEGV)"
  using assms by (simp add: run_handler_def fatal_act_def fatal_sigs_handler_def set_action_def raise_default_def call_ok prog_simps)

text \<open>The thread of \<^verbatim>\<open>tsig.c\<close> prints a line for each signal, in order, and waits on.\<close>

lemma tsig_signal_loop_run:
  assumes "rets s = []" "\<forall>w \<in> set ws. 0 \<le> fst w"
  shows "tsig_signal_loop ws s = (Blocks, s\<lparr>bout := bout s @ map (\<lambda>w. Out (tsig_line (snd w))) ws\<rparr>)"
  using assms
proof (induction ws arbitrary: s)
  case Nil
  then show ?case by (simp add: call_ok tsig_check_def prog_simps)
next
  case (Cons w ws)
  have "tsig_signal_loop (w # ws) s = tsig_signal_loop ws (s\<lparr>bout := bout s @ [Out (tsig_line (snd w))]\<rparr>)"
    using Cons.prems by (cases w) (simp add: call_ok tsig_check_def prog_simps)
  then show ?case using Cons.IH [of "s\<lparr>bout := bout s @ [Out (tsig_line (snd w))]\<rparr>"] Cons.prems by simp
qed

end
