(* ===== verification/Fault_Handlers.thy ===== *)
theory Fault_Handlers
  imports Signal_Setup Hex_Dump
begin

text \<open>
  Handlers for a fault and for a bombardment of signals: \<^verbatim>\<open>src/booksrc/ch12/handle_segv.c\<close>, \<^verbatim>\<open>src/booksrc/ch11/altstack.c\<close> and
  \<^verbatim>\<open>src/booksrc/solutions_to_assgn/ch12/segv_altstack.c\<close>, over the signals of \<open>Signal_Setup\<close>. \<open>regs\<close> are the registers of the context a handler gets,
  \<open>psig\<close> what \<^verbatim>\<open>psiginfo\<close> prints, \<open>shown_addr\<close> how \<^verbatim>\<open>%p\<close> shows the address in the signal, \<open>access\<close> how the kernel answers an access to an address (the code of the fault, or the value
  there), \<open>sps\<close> the values of the stack pointer at the coming calls of \<^verbatim>\<open>stack\<close>, \<open>arrivals\<close> the signals that come, one after another.
\<close>

section \<open>State and numbers\<close>

datatype acc = Acc_fault int | Acc_value nat

record flt = sgn +
  regs :: "string \<Rightarrow> nat"
  psig :: string
  shown_addr :: string
  access :: acc
  main_addr :: nat
  scount :: int
  stotal :: int
  stk_start :: nat
  stk :: nat
  sps :: "nat list"
  arrivals :: "nat list"

fun hex_of :: "nat \<Rightarrow> string" where
  "hex_of n = (if n < 16 then [hex_digit n] else hex_of (n div 16) @ [hex_digit (n mod 16)])"

declare hex_of.simps [simp del]

definition hex16 :: "nat \<Rightarrow> string" where
  "hex16 n = pad (CHR ''0'') 16 (hex_of n)"

definition tolower :: "int \<Rightarrow> int" where
  "tolower c = (if 65 \<le> c \<and> c \<le> 90 then c + 32 else c)"

definition first_char :: "string \<Rightarrow> int" where
  "first_char xs = (case xs of [] \<Rightarrow> 0 | c # _ \<Rightarrow> int (of_char c))"

section \<open>handle\_segv.c\<close>

definition hs_at :: "nat \<Rightarrow> string" where
  "hs_at line = place ''handle_segv.c'' ''main'' line"

definition reg :: "(string \<Rightarrow> nat) \<Rightarrow> string \<Rightarrow> string" where
  "reg r n = n @ '' = 0x'' @ hex16 (r n)"

definition dump_regs :: "(flt, unit) cprog" where
  "dump_regs = bnd (gets regs) (\<lambda>r. eprintf (
     '' '' @ reg r ''RAX'' @ ''   '' @ reg r ''RBX'' @ ''   '' @ reg r ''RCX'' @ [nl] @
     '' '' @ reg r ''RDX'' @ ''   '' @ reg r ''RSI'' @ ''   '' @ reg r ''RDI'' @ [nl] @
     '' '' @ reg r ''RBP'' @ ''   '' @ reg r ''R8 '' @ ''   '' @ reg r ''R9 '' @ [nl] @
     '' '' @ reg r ''R10'' @ ''   '' @ reg r ''R11'' @ ''   '' @ reg r ''R12'' @ [nl] @
     '' '' @ reg r ''R13'' @ ''   '' @ reg r ''R14'' @ ''   '' @ reg r ''R15'' @ [nl] @
     '' '' @ reg r ''RSP'' @ [nl] @
     [nl] @ '' '' @ reg r ''RIP'' @ ''   '' @ reg r ''EFLAGS'' @ [nl] @
     '' TRAP#  = '' @ pad (CHR ''0'') 2 (show_nat (r ''TRAP#'')) @ ''                ERROR  = '' @ pad (CHR ''0'') 2 (show_nat (r ''ERROR'')) @ [nl] @
     '' '' @ reg r ''CR2'' @ [nl]))"

text \<open>The cases of the two codes without a \<^verbatim>\<open>break\<close> are compiled out here.\<close>

definition hs_cause :: "int \<Rightarrow> string list" where
  "hs_cause code = (if code = 3 \<or> code = 4 then [''-none-'' @ [nl]] else si_cause code)"

definition rule_line :: string where
  "rule_line = ''------------------------------------------------------------'' @ [nl]"

definition myfault :: "nat \<Rightarrow> int \<Rightarrow> int \<Rightarrow> nat \<Rightarrow> (flt, unit) cprog" where
  "myfault signum si_errno si_code si_addr =
     sq (eprintf (''handle_segv:'' @ [nl] @ ''------------------- FATAL signal ---------------------------'' @ [nl]))
     (sq (eprintf ('' myfault: received signal '' @ show_nat signum @ ''. errno='' @ show_int si_errno @ [nl] @
           '' Cause/Origin: (si_code='' @ show_int si_code @ ''): ''))
     (sq (say_all Err (hs_cause si_code))
     (sq (eprintf ('' Faulting instr or address = 0x'' @ hex_of si_addr @ [nl]))
     (sq (eprintf ('' --- Register Dump [x86_64] ---'' @ [nl]))
     (sq dump_regs
     (sq (eprintf rule_line)
     (sq (bnd (gets psig) eprintf)
     (sq (eprintf rule_line)
     (sq (set_action SIGSEGV None)
     (bnd call_ret (\<lambda>r. if r \<noteq> 0 then FATAL (place ''handle_segv.c'' ''myfault'' 180) ''raise SIGSEGV failed'' else raise_default SIGSEGV)))))))))))"

definition hs_setup_altsigstack :: "nat \<Rightarrow> (flt, int) cprog" where
  "hs_setup_altsigstack stack_sz =
     sq (printf (''Alternate signal stack size = '' @ show_nat stack_sz @ '' bytes'' @ [nl]))
     (bnd malloc_ok (\<lambda>ok.
      if \<not> ok then sq (printf (''malloc('' @ show_nat stack_sz @ '') for alt sig stack failed'' @ [nl])) (ret (-12)) else
      bnd call_ret (\<lambda>r.
      if r = -1 then sq (printf (''sigaltstack for size '' @ show_nat stack_sz @ '' failed!'' @ [nl])) (bnd (gets errnum) (\<lambda>e. ret (- e)))
      else sq (modify (\<lambda>s. s\<lparr>altstack := Some stack_sz\<rparr>)) (ret 0))))"

definition hs_usage :: "string \<Rightarrow> (flt, unit) cprog" where
  "hs_usage nm = eprintf (''Usage: '' @ nm @ '' u|k r|w'' @ [nl] @ ''u => user mode'' @ [nl] @ ''k => kernel mode'' @ [nl] @
     '' r => read attempt'' @ [nl] @ '' w => write attempt'' @ [nl])"

definition myfault_act :: sigact where
  "myfault_act = \<lparr>sa_fn = H_myfault, SA_RESTART = True, SA_SIGINFO = True, SA_ONSTACK = False, SA_NODEFER = False, sa_mask = (\<lambda>_. False)\<rparr>"

text \<open>An access to an address: the value there, or the handler. A handler that returned would have the instruction run again; this one does not.\<close>

definition touch :: "nat \<Rightarrow> (nat \<Rightarrow> (flt, unit) cprog) \<Rightarrow> (flt, unit) cprog" where
  "touch addr use = bnd (gets access) (\<lambda>a. case a of Acc_value v \<Rightarrow> use v
     | Acc_fault code \<Rightarrow> sq (run_handler SIGSEGV myfault_act (myfault SIGSEGV 0 code addr)) (\<lambda>s. (Blocks, s)))"

abbreviation (input) invalid_uaddr :: nat where "invalid_uaddr \<equiv> 0xdeadface"
abbreviation (input) invalid_kaddr :: nat where "invalid_kaddr \<equiv> 0xffff0b9ffacedead"

definition hs_attempt :: "int \<Rightarrow> int \<Rightarrow> string \<Rightarrow> (flt, unit) cprog" where
  "hs_attempt a b nm =
     (let is = (\<lambda>c x. tolower a = c \<and> tolower (of_bool (b = x)) \<noteq> 0) in
      if is 117 114 then
             sq (printf (''Attempting to read contents of arbitrary usermode va uptr = 0x'' @ hex_of invalid_uaddr @ '':'' @ [nl]))
             (touch invalid_uaddr (\<lambda>v. printf (''*uptr = 0x'' @ hex_of v @ [nl])))
           else if is 117 119 then
             bnd (gets main_addr) (\<lambda>m.
             sq (printf (''Attempting to write into arbitrary usermode va uptr (&main actually) = 0x'' @ hex_of m @ '':'' @ [nl]))
             (touch m (\<lambda>_. ret ())))
           else if is 107 114 then
             sq (printf (''Attempting to read contents of arbitrary kernel va kptr = 0x'' @ hex_of invalid_kaddr @ '':'' @ [nl]))
             (touch invalid_kaddr (\<lambda>v. printf (''*kptr = 0x'' @ hex_of v @ [nl])))
           else if is 107 119 then
             sq (printf (''Attempting to write into arbitrary kernel va kptr = 0x'' @ hex_of invalid_kaddr @ '':'' @ [nl]))
             (touch invalid_kaddr (\<lambda>_. ret ()))
           else hs_usage nm)"

definition hs_main :: "string list \<Rightarrow> (flt, unit) cprog" where
  "hs_main argv =
     (if length argv \<noteq> 3 then sq (hs_usage (argv ! 0)) (exit_with 1) else
      sq (printf (''Setting up an alternate signal stack now...'' @ [nl]))
      (bnd (hs_setup_altsigstack (10 * 1024 * 1024)) (\<lambda>r.
      sq (if r < 0 then sq (eprintf (argv ! 0 @ '': setting up alt sig stack failed'' @ [nl])) (exit_with 1) else ret ())
      (sq (bnd call_ret (\<lambda>r. if r = -1 then FATAL (hs_at 248) (''sigaction SIGSEGV failed'' @ [nl]) else set_action SIGSEGV (Some myfault_act)))
      (sq (hs_attempt (first_char (argv ! 1)) (first_char (argv ! 2)) (argv ! 0))
      (exit_with 0))))))"

section \<open>altstack.c and segv\_altstack.c\<close>

datatype aver = Altstack | Segv_altstack

fun afile :: "aver \<Rightarrow> string" where
  "afile Altstack = ''altstack.c''" | "afile Segv_altstack = ''segv_altstack.c''"

definition stack :: "(flt, nat) cprog" where
  "stack = (\<lambda>s. case sps s of [] \<Rightarrow> (Return 0, s) | p # ps \<Rightarrow> (Return p, s\<lparr>sps := ps\<rparr>))"

definition sig_max :: int where "sig_max = 9"

text \<open>The difference of two \<^verbatim>\<open>unsigned long\<close>s, printed as a \<^verbatim>\<open>long\<close>.\<close>

definition stk_delta :: "nat \<Rightarrow> nat \<Rightarrow> string" where
  "stk_delta a b = show_int (i64 (int a - int b))"

definition stk_line :: "string \<Rightarrow> nat \<Rightarrow> (flt, unit) cprog" where
  "stk_line pre signum = bnd (gets (\<lambda>s. (stk_start s, stk s))) (\<lambda>(a, b).
     eprintf (pre @ ''signal '' @ show_nat signum @ '':: stack@: t0='' @ hex_of a @ '' last='' @ hex_of b @ '' : delta='' @ stk_delta a b @ '' ***'' @ [nl]))"

text \<open>\<^verbatim>\<open>abort\<close> ends the process by \<^verbatim>\<open>SIGABRT\<close>.\<close>

definition sabort :: "(flt, unit) cprog" where
  "sabort = sq (modify (\<lambda>s. s\<lparr>died := Some SIGABRT\<rparr>)) (exit_with 134)"

definition sighdlr :: "aver \<Rightarrow> nat \<Rightarrow> (flt, unit) cprog" where
  "sighdlr v signum =
     bnd (gets stotal) (\<lambda>t.
     sq (if t = 0 then bnd stack (\<lambda>p. modify (\<lambda>s. s\<lparr>stk_start := p\<rparr>)) else ret ())
     (if signum = SIGUSR1 then
        bnd stack (\<lambda>p.
        sq (modify (\<lambda>s. s\<lparr>stk := p, scount := scount s + 1, stotal := stotal s + 1\<rparr>))
        (sq (modify (\<lambda>s. if scount s \<ge> sig_max then s\<lparr>scount := 1\<rparr> else s))
        (bnd stack (\<lambda>q.
         bnd (gets (\<lambda>s. (scount s, stotal s))) (\<lambda>(c, t).
         eprintf ('' s='' @ show_int c @ '' ; total='' @ show_int t @ ''; stack 0x'' @ hex_of q @ [nl]))))))
      else if signum = SIGUSR2 then stk_line ''*** '' signum
      else if signum = SIGSEGV \<and> v = Altstack then sq (stk_line ''*** '' signum) sabort
      else ret ()))"

definition fatal_sig_handler :: "nat \<Rightarrow> int \<Rightarrow> string \<Rightarrow> (flt, unit) cprog" where
  "fatal_sig_handler signum si_code si_addr =
     (if signum \<noteq> SIGSEGV then ret () else
      bnd (gets (\<lambda>s. (stk_start s, stk s, stotal s))) (\<lambda>(a, b, t).
      sq (eprintf (''segv_altstack:'' @ [nl] @ ''------------------- FATAL signal ---------------------------'' @ [nl] @
           '' signal '' @ show_nat signum @ '' :: stack@: t0='' @ hex_of a @ '' last='' @ hex_of b @ '' : delta='' @ stk_delta a b @ [nl] @
           '' total signals processed='' @ show_int t @ [nl]))
      (sq (eprintf ('' Faulting insn/memory address: '' @ si_addr @ [nl]))
      (sq (eprintf '' Origin: '')
      (sq (if si_code = 1 then eprintf (''SEGV_MAPERR : Address not mapped to object.'' @ [nl])
           else if si_code = 2 then eprintf (''SEGV_ACCERR : Invalid permissions for mapped object.'' @ [nl]) else ret ())
      (sq (eprintf rule_line)
      (sq (set_action SIGSEGV None)
      (bnd call_ret (\<lambda>r. if r \<noteq> 0 then FATAL (place ''segv_altstack.c'' ''fatal_sig_handler'' 125) ''raise SIGSEGV failed'' else raise_default SIGSEGV)))))))))"

definition as_setup_altsigstack :: "aver \<Rightarrow> nat \<Rightarrow> (flt, unit) cprog" where
  "as_setup_altsigstack v stack_sz =
     (let p = place (afile v) ''setup_altsigstack''; z = show_nat stack_sz in
      sq (printf (''Alt signal stack size = '' @ z @ [nl]))
      (bnd malloc_ok (\<lambda>ok.
       sq (if \<not> ok then FATAL (p (if v = Altstack then 95 else 137)) (''malloc('' @ z @ '') for alt sig stack failed'' @ [nl]) else ret ())
       (bnd call_ret (\<lambda>r.
        if r = -1 then FATAL (p (if v = Altstack then 99 else 141)) (''sigaltstack for size '' @ z @ '' failed!'' @ [nl])
        else modify (\<lambda>s. s\<lparr>altstack := Some stack_sz\<rparr>))))))"

text \<open>\<^verbatim>\<open>atoi(str) * 1024\<close>, an \<^verbatim>\<open>int\<close> that becomes a \<^verbatim>\<open>size_t\<close>.\<close>

definition stack_size :: "string \<Rightarrow> nat" where
  "stack_size str = nat (i32 (atoi str * 1024) mod 2 ^ 64)"

definition as_sigaction :: "aver \<Rightarrow> nat \<Rightarrow> string \<Rightarrow> nat \<Rightarrow> sigact \<Rightarrow> (flt, unit) cprog" where
  "as_sigaction v line nm sig act = bnd call_ret (\<lambda>r.
     if r = -1 then FATAL (place (afile v) (if v = Altstack then ''main'' else ''signal_init'') line) (''sigaction '' @ nm @ '' failed'' @ [nl])
     else set_action sig (Some act))"

fun act_of :: "aver \<Rightarrow> nat \<Rightarrow> sigact" where
  "act_of v sig =
     (if sig = SIGUSR1 then \<lparr>sa_fn = H_sighdlr, SA_RESTART = True, SA_SIGINFO = False, SA_ONSTACK = True, SA_NODEFER = True, sa_mask = (\<lambda>_. False)\<rparr>
      else if sig = SIGUSR2 then \<lparr>sa_fn = H_sighdlr, SA_RESTART = True, SA_SIGINFO = False, SA_ONSTACK = False, SA_NODEFER = False, sa_mask = (\<lambda>_. v = Segv_altstack)\<rparr>
      else if v = Altstack then \<lparr>sa_fn = H_sighdlr, SA_RESTART = True, SA_SIGINFO = False, SA_ONSTACK = True, SA_NODEFER = False, sa_mask = (\<lambda>_. False)\<rparr>
      else \<lparr>sa_fn = H_fatal_sig_handler, SA_RESTART = True, SA_SIGINFO = True, SA_ONSTACK = True, SA_NODEFER = False, sa_mask = (\<lambda>_. True)\<rparr>)"

definition signal_init :: "aver \<Rightarrow> string \<Rightarrow> (flt, unit) cprog" where
  "signal_init v str_size =
     sq (as_setup_altsigstack v (stack_size str_size))
     (sq (as_sigaction v (if v = Altstack then 120 else 163) ''SIGUSR1'' SIGUSR1 (act_of v SIGUSR1))
     (sq (as_sigaction v (if v = Altstack then 127 else 171) ''SIGUSR2'' SIGUSR2 (act_of v SIGUSR2))
     (as_sigaction v (if v = Altstack then 135 else 182) ''SIGSEGV'' SIGSEGV (act_of v SIGSEGV))))"

text \<open>Main pauses for ever; each signal that comes, sent by another process (\<^verbatim>\<open>si_code\<close> 0), runs its handler to the end before the next one.\<close>

definition as_deliver :: "aver \<Rightarrow> nat \<Rightarrow> (flt, unit) cprog" where
  "as_deliver v sig = bnd (gets (\<lambda>s. (actions s sig, shown_addr s))) (\<lambda>(a, d). case a of
      None \<Rightarrow> raise_default sig
    | Some act \<Rightarrow> run_handler sig act (if sa_fn act = H_fatal_sig_handler then fatal_sig_handler sig 0 d else sighdlr v sig))"

fun as_signals :: "aver \<Rightarrow> nat list \<Rightarrow> (flt, unit) cprog" where
  "as_signals v [] = (\<lambda>s. (Blocks, s))"
| "as_signals v (x # xs) = sq (as_deliver v x) (as_signals v xs)"

definition as_main :: "aver \<Rightarrow> string list \<Rightarrow> (flt, unit) cprog" where
  "as_main v argv =
     (if length argv \<noteq> 2 then sq (eprintf (''Usage: '' @ argv ! 0 @ '' {alternate-signal-stack-size-in-KB}'' @ [nl])) (exit_with EXIT_FAILURE) else
      sq (signal_init v (argv ! 1))
      (sq (if v = Altstack then printf (''Running: signal SIGUSR1 flags: SA_NODEFER | SA_ONSTACK | SA_RESTART'' @ [nl]) else ret ())
      (sq (printf (''Process awaiting signals ...'' @ [nl]))
      (bnd (gets arrivals) (as_signals v)))))"

section \<open>Lemmas\<close>

lemma flt_call_ok: "rets s = [] \<Longrightarrow> call_ret s = (Return 0, s)" for s :: flt
  by (simp add: call_ret_def)

text \<open>The handler of \<^verbatim>\<open>handle_segv.c\<close> returns with the signal it raised pending, and the process dies of it.\<close>

lemma myfault_dies:
  assumes "rets s = []" "\<not> sigmask s SIGSEGV"
  shows "\<exists>s'. run_handler SIGSEGV myfault_act (myfault SIGSEGV e c a) s = (Exited 139, s') \<and> died s' = Some SIGSEGV"
  using assms by (simp add: run_handler_def myfault_act_def myfault_def dump_regs_def set_action_def raise_default_def flt_call_ok prog_simps)

lemma touch_dies:
  assumes "rets s = []" "\<not> sigmask s SIGSEGV" "access s = Acc_fault c"
  shows "\<exists>s'. touch a f s = (Exited 139, s') \<and> died s' = Some SIGSEGV"
  using myfault_dies [OF assms(1,2), of 0 c a] assms(3) by (auto simp: touch_def prog_eval)

lemma tolower_bool: "tolower (of_bool b) \<noteq> 0 \<longleftrightarrow> b"
  by (simp add: tolower_def)

lemma hs_attempt_end:
  assumes "rets s = []" "\<not> sigmask s SIGSEGV" "access s = Acc_fault c"
  shows "\<exists>s'. hs_attempt a b nm s = (if tolower a \<in> {117, 107} \<and> b \<in> {114, 119} then Exited 139 else Return (), s')"
proof -
  have t: "\<exists>s'. bnd (printf m) (\<lambda>_. touch p f) s = (Exited 139, s')" for m p f
    using touch_dies [of "s\<lparr>bout := bout s @ [Out m]\<rparr>" c p f] assms by (auto simp: prog_eval printf_def)
  have u: "\<exists>s'. hs_usage nm s = (Return (), s')" by (simp add: hs_usage_def prog_simps)
  show ?thesis
  proof (cases "tolower a \<in> {117, 107} \<and> b \<in> {114, 119}")
    case True
    then show ?thesis using t by (auto simp: hs_attempt_def tolower_bool run_bnd_Return [OF run_gets])
  next
    case False
    then have "hs_attempt a b nm = hs_usage nm" by (auto simp: hs_attempt_def tolower_bool)
    then show ?thesis using u False by auto
  qed
qed

text \<open>
  Which arguments lead to an access: the first in either case, the second in lower case only, because the comparison is inside the
  call of \<^verbatim>\<open>tolower\<close>. Everything else prints the usage and ends with status 0.
\<close>

lemma handle_segv_arguments:
  assumes "rets s = []" "bmem s = []" "\<not> sigmask s SIGSEGV" "access s = Acc_fault c" "length argv = 3"
  shows "\<exists>s'. hs_main argv s = (Exited (if tolower (first_char (argv ! 1)) \<in> {117, 107} \<and> first_char (argv ! 2) \<in> {114, 119} then 139 else 0), s')"
proof -
  let ?a = "first_char (argv ! 1)" and ?b = "first_char (argv ! 2)"
  have "\<exists>s1. hs_main argv s = bnd (hs_attempt ?a ?b (argv ! 0)) (\<lambda>_. exit_with 0) s1 \<and> rets s1 = [] \<and> \<not> sigmask s1 SIGSEGV \<and> access s1 = Acc_fault c"
    using assms by (simp add: hs_main_def hs_setup_altsigstack_def flt_call_ok set_action_def prog_simps) (rule exI, rule conjI, rule refl, simp)
  then obtain s1 where s1: "rets s1 = []" "\<not> sigmask s1 SIGSEGV" "access s1 = Acc_fault c" "hs_main argv s = bnd (hs_attempt ?a ?b (argv ! 0)) (\<lambda>_. exit_with 0) s1" by blast
  show ?thesis using hs_attempt_end [OF s1(1-3), of ?a ?b "argv ! 0"] unfolding s1(4) by (auto simp: prog_eval)
qed

lemma run_stack [prog_simps]: "stack s = (Return (case sps s of [] \<Rightarrow> 0 | p # _ \<Rightarrow> p), s\<lparr>sps := tl (sps s)\<rparr>)"
  by (cases "sps s") (simp_all add: stack_def)

text \<open>The counters of \<^verbatim>\<open>altstack.c\<close>: the total counts the signals, the other runs from 1 to 8 and starts again.\<close>

definition cycle :: "nat \<Rightarrow> int" where
  "cycle n = (if n = 0 then 0 else int ((n - 1) mod 8) + 1)"

lemma cycle_Suc: "(if cycle n + 1 \<ge> sig_max then 1 else cycle n + 1) = cycle (Suc n)"
proof (cases n)
  case (Suc m)
  have "Suc m mod 8 = (if Suc (m mod 8) = 8 then 0 else Suc (m mod 8))" by (simp add: mod_Suc)
  then show ?thesis using Suc mod_less_divisor [of 8 m] by (auto simp: cycle_def sig_max_def)
qed (simp add: cycle_def sig_max_def)

lemma usr1_once:
  assumes "actions s SIGUSR1 = Some (act_of v SIGUSR1)" "\<not> pending s SIGUSR1" "scount s = cycle n" "stotal s = int n"
  shows "\<exists>s'. as_deliver v SIGUSR1 s = (Return (), s') \<and> actions s' = actions s \<and> pending s' = pending s \<and> scount s' = cycle (Suc n) \<and> stotal s' = int (Suc n)"
  using assms cycle_Suc [of n]
  by (cases "stotal s = 0") (auto simp: as_deliver_def run_handler_def sighdlr_def prog_simps)

lemma altstack_counts:
  assumes "actions s SIGUSR1 = Some (act_of v SIGUSR1)" "\<not> pending s SIGUSR1" "scount s = cycle m" "stotal s = int m"
  shows "\<exists>s'. as_signals v (replicate n SIGUSR1) s = (Blocks, s') \<and> scount s' = cycle (m + n) \<and> stotal s' = int (m + n)"
  using assms
proof (induction n arbitrary: s m)
  case (Suc n)
  obtain s1 where s1: "as_deliver v SIGUSR1 s = (Return (), s1)" "actions s1 = actions s" "pending s1 = pending s" "scount s1 = cycle (Suc m)" "stotal s1 = int (Suc m)"
    using usr1_once [OF Suc.prems] by blast
  with Suc.IH [of s1 "Suc m"] Suc.prems show ?case by (simp add: prog_simps)
qed simp

end
