(* ===== verification/Sched_Threads.thy ===== *)
theory Sched_Threads
  imports Sync_Demos
begin

text \<open>
  Programs that set the scheduling policy of their threads: \<^verbatim>\<open>src/booksrc/solutions_to_assgn/ch17/assgn2.c\<close> changes one of three threads,
  \<^verbatim>\<open>src/booksrc/ch17/sched_rt_eg.c\<close> has two threads change themselves. \<open>attrs\<close> are the attributes the kernel has for a thread, by its kernel id
  (0 stands for the caller); \<open>junk\<close> is what a structure on the stack holds before it is written.
\<close>

section \<open>State\<close>

record sattr =
  s_policy :: int
  s_flags :: nat
  s_nice :: int
  s_prio :: int

record schd = threaded +
  attrs :: "nat \<Rightarrow> sattr"
  gettid :: "nat \<Rightarrow> nat"
  tpid :: "nat \<Rightarrow> nat"
  junk :: sattr
  prio_min :: int
  prio_max :: int
  euid :: int
  lwp :: int

section \<open>assgn2.c\<close>

definition sc_at :: "string \<Rightarrow> nat \<Rightarrow> string" where
  "sc_at fn line = place ''assgn2.c'' fn line"

text \<open>A worker records its kernel id and says who it is, then works.\<close>

definition worker_begin :: "nat \<Rightarrow> (schd, unit) cprog" where
  "worker_begin t =
     sq (modify (\<lambda>s. s\<lparr>tpid := (tpid s)(t := gettid s t)\<rparr>))
     (printf (''*** Worker Thread #'' @ show_nat t @ '' ***'' @ [nl]))"

fun worker_rounds :: "nat \<Rightarrow> nat \<Rightarrow> (schd, unit) cprog" where
  "worker_rounds t 0 = printf [nl]"
| "worker_rounds t (Suc k) = sq (printf (show_nat t @ '' '')) (worker_rounds t k)"

definition policy_name :: "int \<Rightarrow> string" where
  "policy_name p = (if p = 1 then ''SCHED_FIFO'' else if p = 2 then ''SCHED_RR'' else if p = 0 then ''SCHED_OTHER''
     else if p = 6 then ''SCHED_DEADLINE'' else if p = 3 then ''SCHED_BATCH'' else ''<unknown>'')"

definition left :: "nat \<Rightarrow> string \<Rightarrow> string" where
  "left n xs = xs @ replicate (n - length xs) (CHR '' '')"

fun hex_low :: "nat \<Rightarrow> string" where
  "hex_low n = (if n < 16 then [''0123456789abcdef'' ! n] else hex_low (n div 16) @ [''0123456789abcdef'' ! (n mod 16)])"

declare hex_low.simps [simp del]

definition sched_getattr :: "nat \<Rightarrow> (schd, int \<times> sattr) cprog" where
  "sched_getattr threadid = bnd call_ret (\<lambda>r. bnd (gets (\<lambda>s. (attrs s threadid, junk s))) (\<lambda>(a, j). ret (r, if r < 0 then j else a)))"

definition get_show_sched :: "nat \<Rightarrow> nat \<Rightarrow> (schd, unit) cprog" where
  "get_show_sched thrdnum threadid =
     bnd (sched_getattr threadid) (\<lambda>(r, a).
     sq (if r < 0 then WARN (sc_at ''get_show_sched'' 211) (''sched_getattr(2) on thread '' @ show_nat threadid @ '' failed; exited?'' @ [nl]) else ret ())
     (sq (printf (''[Thread #'' @ show_nat thrdnum @ ''] '' @ left 16 (policy_name (s_policy a)) @ '' ''))
     (sq (printf (''  '' @ pad (CHR '' '') 2 (show_int (s_prio a)) @ ''       '' @ pad (CHR '' '') 2 (show_int (s_nice a)) @ ''      0x'' @ hex_low (s_flags a)))
     (printf [nl]))))"

text \<open>Only the policy and the priority of the structure are written.\<close>

definition set_sched :: "nat \<Rightarrow> int \<Rightarrow> int \<Rightarrow> (schd, unit) cprog" where
  "set_sched thrdnum policy rtprio =
     bnd (gets (\<lambda>s. (tpid s thrdnum, (junk s)\<lparr>s_policy := policy, s_prio := rtprio\<rparr>))) (\<lambda>(id, a).
     if id = 0 then ret () else
     bnd call_ret (\<lambda>r.
     if r < 0 then WARN (sc_at ''set_sched'' 239) (''sched_setattr(2) on thread #'' @ show_nat thrdnum @
       '' failed: usually, either permissions issue (not root) or thread already exited'' @ [nl])
     else modify (\<lambda>s. s\<lparr>attrs := (attrs s)(id := a)\<rparr>)))"

definition change_sched_policy_prio :: "nat \<Rightarrow> nat \<Rightarrow> int \<Rightarrow> int \<Rightarrow> (schd, unit) cprog" where
  "change_sched_policy_prio thrdnum thrd2change policy rtprio =
     sq (bnd (gets (\<lambda>s. tpid s thrdnum)) (\<lambda>id. if id \<noteq> 0 then get_show_sched thrdnum id else ret ()))
     (if thrdnum \<noteq> thrd2change then ret () else
      sq (printf (''* Now making thread #'' @ show_nat thrd2change @ '' sched policy '' @
          (if policy = 0 then ''SCHED_OTHER'' else if policy = 1 then ''SCHED_FIFO'' else if policy = 2 then ''SCHED_RR'' else ''<unknown>'') @
          '' and realtime-prio '' @ show_int rtprio @ '' *'' @ [nl]))
      (sq (set_sched thrd2change policy rtprio)
      (bnd (gets (\<lambda>s. tpid s thrd2change)) (get_show_sched thrd2change))))"

definition sc_usage :: "string \<Rightarrow> (schd, unit) cprog" where
  "sc_usage nm = bnd (gets (\<lambda>s. (prio_min s, prio_max s))) (\<lambda>(lo, hi). eprintf (
     ''With this little program, you can specify which thread of three worker threads'' @ [nl] @
     ''to change to a different scheduling poicy and real-time priority (also specified).'' @ [nl] @
     [nl] @ ''Usage: '' @ nm @ '' thread# sched-policy realtime-priority ; where:'' @ [nl] @
     ''  parameter 1 : thread#      : is any of 0, 1, or 2'' @ [nl] @
     ''  parameter 2 : sched-policy : is any of 0, 1, or 2 (for SCHED_OTHER, SCHED_FIFO or SCHED_RR resp)'' @ [nl] @
     ''  parameter 3 : realtime-prio: is any # between {'' @ show_int lo @ '', '' @ show_int hi @ ''}'' @ [nl]))"

definition ARGS_FAIL :: "string \<Rightarrow> int \<Rightarrow> (schd, unit) cprog" where
  "ARGS_FAIL nm param =
     sq (if param \<noteq> -1 then eprintf (''### '' @ nm @ '': (at least) parameter '' @ show_int param @ '' is invalid, pl correct & retry.'' @ [nl] @ [nl]) else ret ())
     (sq (sc_usage nm) (exit_with EXIT_FAILURE))"

definition sc_args :: "string list \<Rightarrow> (schd, unit) cprog" where
  "sc_args argv =
     (if length argv \<noteq> 4 then ARGS_FAIL (argv ! 0) (-1)
      else if atoi (argv ! 1) < 0 \<or> atoi (argv ! 1) \<ge> 3 then ARGS_FAIL (argv ! 0) 1
      else if atoi (argv ! 2) < 0 \<or> atoi (argv ! 2) \<ge> 3 then ARGS_FAIL (argv ! 0) 2
      else bnd (gets (\<lambda>s. (prio_min s, prio_max s))) (\<lambda>(lo, hi).
        if atoi (argv ! 3) < lo \<or> atoi (argv ! 3) > hi then ARGS_FAIL (argv ! 0) 3 else ret ()))"

definition sc_create :: "nat \<Rightarrow> (schd, unit) cprog" where
  "sc_create i =
     bnd malloc_ok (\<lambda>ok.
     sq (if \<not> ok then sq (FATAL (sc_at ''main'' 319) (''calloc stToThread['' @ show_nat i @ ''] failed!'' @ [nl])) (fault NullDeref) else ret ())
     (bnd call_ret (\<lambda>r. if r \<noteq> 0 then FATAL (sc_at ''main'' 325) (''pthread_create() failed! ['' @ show_int r @ '']'' @ [nl]) else ret ())))"

definition sc_join :: "nat \<Rightarrow> (schd, unit) cprog" where
  "sc_join i = bnd call_ret (\<lambda>r.
     if r \<noteq> 0 then WARN (sc_at ''main'' 352) (''pthread_join() failed! ['' @ show_int r @ '']'' @ [nl])
     else printf ('' Thread #'' @ show_nat i @ '' successfully joined; it terminated with status=0'' @ [nl]))"

fun each :: "('a \<Rightarrow> (schd, unit) cprog) \<Rightarrow> 'a list \<Rightarrow> (schd, unit) cprog" where
  "each f [] = ret ()"
| "each f (x # xs) = sq (f x) (each f xs)"

text \<open>The table is printed in the second after the creations; \<open>early\<close> are the threads that have started by then. The others start, and all work, after it.\<close>

definition sc_main :: "nat list \<Rightarrow> string list \<Rightarrow> (schd, unit) cprog" where
  "sc_main early argv =
     sq (sc_args argv)
     (sq (each sc_create [0, 1, 2])
     (sq (each worker_begin early)
     (sq (printf (''Scheduling'' @ [nl] @ '' Thread #    Policy            Prio    Nice    Flags'' @ [nl] @
          '' ---------   ------            ----    ----    -----'' @ [nl]))
     (sq (each (\<lambda>i. change_sched_policy_prio i (nat (atoi (argv ! 1))) (atoi (argv ! 2)) (atoi (argv ! 3))) [0, 1, 2])
     (sq (each worker_begin (filter (\<lambda>t. t \<notin> set early) [0, 1, 2]))
     (sq (each (\<lambda>t. worker_rounds t 30) [0, 1, 2])
     (each sc_join [0, 1, 2])))))))"

section \<open>sched\_rt\_eg.c\<close>

text \<open>What a worker sets for itself: its policy and its priority, by its place.\<close>

definition rt_at :: "string \<Rightarrow> nat \<Rightarrow> string" where
  "rt_at fn line = place ''sched_rt_eg.c'' fn line"

definition puts :: "string \<Rightarrow> (schd, unit) cprog" where
  "puts xs = printf (xs @ [nl])"

definition pthread_setschedparam :: "nat \<Rightarrow> int \<Rightarrow> int \<Rightarrow> (schd, int) cprog" where
  "pthread_setschedparam t pol prio = bnd call_ret (\<lambda>r.
     if r \<noteq> 0 then ret r
     else sq (modify (\<lambda>s. s\<lparr>attrs := (attrs s)(gettid s t := (attrs s (gettid s t))\<lparr>s_policy := pol, s_prio := prio\<rparr>)\<rparr>)) (ret 0))"

definition rt_hello :: "nat \<Rightarrow> nat \<Rightarrow> string \<Rightarrow> int \<Rightarrow> nat \<Rightarrow> (schd, unit) cprog" where
  "rt_hello k line pol prio secs = bnd (gets lwp) (\<lambda>l. printf (
     ''  RT Thread p'' @ show_nat k @ '' (worker'' @ show_nat k @ ''():'' @ show_nat line @ '':LWP '' @ show_int l @ ''):'' @ [nl] @
     '' Setting sched policy to '' @ pol @ '' and RT priority to '' @ show_int prio @ '' and sleeping for '' @ show_nat secs @ ''s ...'' @ [nl]))"

definition rt_worker1 :: "int \<Rightarrow> (schd, unit) cprog" where
  "rt_worker1 msg =
     sq (rt_hello 1 67 ''SCHED_RR'' msg 2)
     (bnd (pthread_setschedparam 0 2 (i32 msg)) (\<lambda>r.
     sq (if r \<noteq> 0 then WARN (rt_at ''worker1'' 73) (''pthread_setschedparam failed'' @ [nl]) else ret ())
     (sq (puts ''  p1 working'') (sq (DELAY_LOOP 49 200) (puts ''  p1: exiting..'')))))"

definition rt_worker2 :: "int \<Rightarrow> (schd, unit) cprog" where
  "rt_worker2 msg =
     sq (rt_hello 2 100 ''SCHED_FIFO'' (msg + 10) 4)
     (bnd (pthread_setschedparam 1 1 (i32 (msg + 10))) (\<lambda>r.
     sq (if r \<noteq> 0 then WARN (rt_at ''worker2'' 106) (''pthread_setschedparam failed'' @ [nl]) else ret ())
     (sq (puts ''  p2 working'') (sq (DELAY_LOOP 50 200) (puts ''  p2 exiting ...'')))))"

definition rt_check :: "string \<Rightarrow> int \<Rightarrow> (schd, unit) cprog" where
  "rt_check nm rt_prio = bnd (gets (\<lambda>s. (prio_min s, prio_max s))) (\<lambda>(min, max).
     sq (if min = -1 then FATAL (rt_at ''main'' 130) ''sched_get_priority_min failure'' else ret ())
     (sq (if max = -1 then FATAL (rt_at ''main'' 133) ''sched_get_priority_max failure'' else ret ())
     (sq (printf (''SCHED_FIFO: priority range is '' @ show_int min @ '' to '' @ show_int max @ [nl]))
     (if rt_prio < min \<or> rt_prio > max - 10 then
        FATAL (rt_at ''main'' 138) (nm @ '': Priority value passed ('' @ show_int rt_prio @ '') out of range ['' @ show_int min @ ''-'' @ show_int (max - 10) @ ''].'' @ [nl])
      else ret ()))))"

definition rt_create :: "nat \<Rightarrow> nat \<Rightarrow> (schd, unit) cprog" where
  "rt_create k line =
     sq (printf (''main: creating RT worker thread #'' @ show_nat k @ '' ...'' @ [nl]))
     (bnd call_ret (\<lambda>r. if r \<noteq> 0 then FATAL (rt_at ''main'' line) (''pthread_create() #'' @ show_nat k @ '' failed! ['' @ show_int r @ '']'' @ [nl]) else ret ()))"

text \<open>The workers are run after main's creations, the order in which their lines mix is left out.\<close>

definition rt_main :: "string list \<Rightarrow> (schd, unit) cprog" where
  "rt_main argv =
     (if length argv = 1 then sq (eprintf (''Usage: '' @ argv ! 0 @ '' realtime-priority'' @ [nl])) (exit_with EXIT_FAILURE) else
      let rt_prio = atoi (argv ! 1) in
      sq (rt_check (argv ! 0) rt_prio)
      (sq (bnd (gets euid) (\<lambda>e. if e \<noteq> 0 then printf ([nl] @ ''Note: to create true RT threads, you need to run this program as superuser'' @ [nl]) else ret ()))
      (sq (rt_create 1 152) (sq (rt_create 2 157)
      (sq (rt_worker1 rt_prio) (sq (rt_worker2 rt_prio)
      (sq (DELAY_LOOP 109 300)
      (printf ([nl] @ ''main: all done, app exiting ...'' @ [nl])))))))))"

section \<open>Effects\<close>

text \<open>What matters of a state when every call succeeds, and what a program makes of it.\<close>

type_synonym sview = "(nat \<Rightarrow> nat) \<times> sattr \<times> (nat \<Rightarrow> sattr) \<times> (nat \<Rightarrow> nat)"

definition sview :: "schd \<Rightarrow> sview" where
  "sview s = (gettid s, junk s, attrs s, tpid s)"

definition sc_calm :: "schd \<Rightarrow> bool" where
  "sc_calm s = (rets s = [] \<and> bmem s = [])"

definition eff :: "(schd, 'a) cprog \<Rightarrow> sview \<Rightarrow> sview \<Rightarrow> bool" where
  "eff p v v' = (\<forall>s. sc_calm s \<and> sview s = v \<longrightarrow> (\<exists>x s'. p s = (Return x, s') \<and> sc_calm s' \<and> sview s' = v'))"

lemma eff_sq: "eff p v v' \<Longrightarrow> eff q v' v'' \<Longrightarrow> eff (sq p q) v v''"
  unfolding eff_def by (metis run_bnd_Return)

lemma eff_gets: "(\<And>s. sview s = v \<Longrightarrow> eff (f (g s)) v v') \<Longrightarrow> eff (bnd (gets g) f) v v'"
  by (auto simp: eff_def prog_simps)

lemma eff_call: "eff (f 0) v v' \<Longrightarrow> eff (bnd call_ret f) v v'"
  by (auto simp: eff_def sc_calm_def call_ret_def prog_eval)

lemma eff_print: "eff (printf m) v v" "eff (ret x) v v"
  by (auto simp: eff_def sc_calm_def sview_def prog_simps)

lemma eff_if: "(b \<Longrightarrow> eff p v v') \<Longrightarrow> (\<not> b \<Longrightarrow> eff q v v') \<Longrightarrow> eff (if b then p else q) v v'"
  by simp

lemmas eff_rules = eff_sq eff_gets eff_call eff_print eff_if

lemma eff_show: "eff (get_show_sched i d) v v"
proof -
  have "eff (sched_getattr d) v v" unfolding sched_getattr_def by (intro eff_rules) (auto simp: eff_print)
  moreover have "fst r \<ge> 0" if "sc_calm s" "sched_getattr d s = (Return r, s')" for s r s'
    using that by (auto simp: sched_getattr_def sc_calm_def call_ret_def prog_eval)
  ultimately show ?thesis unfolding get_show_sched_def eff_def
    by (auto simp: prog_simps sc_calm_def sview_def) (fastforce simp: sc_calm_def sview_def prog_simps sched_getattr_def call_ret_def bnd_def gets_def ret_def)
qed

definition asked :: "int \<Rightarrow> int \<Rightarrow> sattr \<Rightarrow> sattr" where
  "asked policy rtprio j = j\<lparr>s_policy := policy, s_prio := rtprio\<rparr>"

definition changed :: "nat \<Rightarrow> int \<Rightarrow> int \<Rightarrow> sview \<Rightarrow> sview" where
  "changed n pol pr = (\<lambda>(g, j, A, T). (g, j, if T n \<noteq> 0 then A(T n := asked pol pr j) else A, T))"

lemma eff_set: "eff (set_sched n pol pr) v (changed n pol pr v)"
  by (cases v) (auto simp: eff_def set_sched_def changed_def asked_def sc_calm_def sview_def call_ret_def prog_eval)

lemma eff_change: "eff (change_sched_policy_prio i n pol pr) v (if i = n then changed n pol pr v else v)"
proof -
  have shown: "eff (bnd (gets (\<lambda>s. tpid s i)) (\<lambda>id. if id \<noteq> 0 then get_show_sched i id else ret ())) v v" by (intro eff_gets eff_if eff_show eff_print)
  have again: "eff (bnd (gets (\<lambda>s. tpid s n)) (get_show_sched n)) w w" for w by (intro eff_gets eff_show)
  show ?thesis
  proof (cases "i = n")
    case True
    then show ?thesis unfolding change_sched_policy_prio_def using eff_sq [OF shown eff_sq [OF eff_print(1) eff_sq [OF eff_set again]]] by simp
  next
    case False
    then show ?thesis unfolding change_sched_policy_prio_def by (simp only: not_False_eq_True if_True if_False) (rule eff_sq [OF shown eff_print(2)])
  qed
qed

lemma changed_twice: "changed n pol pr (changed n pol pr v) = changed n pol pr v"
  by (cases v) (auto simp: changed_def)

lemma eff_change_each: "eff (each (\<lambda>i. change_sched_policy_prio i n pol pr) xs) v (if n \<in> set xs then changed n pol pr v else v)"
proof (induction xs arbitrary: v)
  case (Cons i xs)
  have "eff (each (\<lambda>i. change_sched_policy_prio i n pol pr) (i # xs)) v
    (if n \<in> set xs then changed n pol pr (if i = n then changed n pol pr v else v) else if i = n then changed n pol pr v else v)"
    using eff_sq [OF eff_change Cons.IH] by simp
  then show ?case by (auto simp: changed_twice split: if_splits)
qed (simp add: eff_print)

definition begun :: "nat list \<Rightarrow> sview \<Rightarrow> sview" where
  "begun ts = (\<lambda>(g, j, A, T). (g, j, A, \<lambda>t. if t \<in> set ts then g t else T t))"

lemma eff_begin: "eff (each worker_begin ts) v (begun ts v)"
proof (induction ts arbitrary: v)
  case Nil
  then show ?case by (cases v) (simp add: begun_def eff_print)
next
  case (Cons t ts)
  have "eff (worker_begin t) v (begun [t] v)" by (cases v) (auto simp: eff_def worker_begin_def begun_def sc_calm_def sview_def prog_simps)
  moreover have "begun ts (begun [t] v) = begun (t # ts) v" by (cases v) (auto simp: begun_def)
  ultimately show ?case using Cons.IH [of "begun [t] v"] by (auto intro: eff_sq)
qed

lemma eff_each: "(\<And>x. eff (f x) v v) \<Longrightarrow> eff (each f xs) v v"
  by (induction xs) (auto intro: eff_rules)

lemma eff_rounds: "eff (worker_rounds t k) v v"
  by (induction k) (auto intro: eff_rules)

lemma eff_create: "eff (sc_create i) v v"
  by (cases v) (auto simp: eff_def sc_create_def sc_calm_def sview_def call_ret_def prog_simps prog_eval)

lemma eff_join: "eff (sc_join i) v v"
  unfolding sc_join_def by (auto intro!: eff_rules)

text \<open>
  Of the three threads \<^verbatim>\<open>assgn2\<close> changes exactly the one that was asked for, to the policy and priority given, if it has started; otherwise it
  changes none.
\<close>

lemma assgn2_changes_one:
  assumes "rets s = []" "bmem s = []" "tpid s = (\<lambda>_. 0)" "\<And>t. gettid s t \<noteq> 0" "length argv = 4" "0 \<le> atoi (argv ! 1)" "atoi (argv ! 1) < 3"
    "0 \<le> atoi (argv ! 2)" "atoi (argv ! 2) < 3" "prio_min s \<le> atoi (argv ! 3)" "atoi (argv ! 3) \<le> prio_max s"
  shows "\<exists>s'. sc_main early argv s = (Return (), s') \<and>
    attrs s' = (let n = nat (atoi (argv ! 1)) in
      if n \<in> set early then (attrs s)(gettid s n := asked (atoi (argv ! 2)) (atoi (argv ! 3)) (junk s)) else attrs s)"
proof -
  let ?n = "nat (atoi (argv ! 1))" and ?p = "atoi (argv ! 2)" and ?q = "atoi (argv ! 3)"
  let ?rest = "filter (\<lambda>t. t \<notin> set early) [0, 1, 2]"
  let ?v = "begun ?rest (changed ?n ?p ?q (begun early (sview s)))"
  have n: "?n \<in> set [0, 1, 2]" using assms(6,7) by auto
  have ch: "eff (each (\<lambda>i. change_sched_policy_prio i ?n ?p ?q) [0, 1, 2]) (begun early (sview s)) (changed ?n ?p ?q (begun early (sview s)))"
    using eff_change_each [of ?n ?p ?q "[0, 1, 2]" "begun early (sview s)"] unfolding if_P [OF n] .
  have a: "sc_args argv s = (Return (), s)" using assms by (simp add: sc_args_def prog_simps)
  have "eff (sq (each sc_create [0, 1, 2])
     (sq (each worker_begin early)
     (sq (printf (''Scheduling'' @ [nl] @ '' Thread #    Policy            Prio    Nice    Flags'' @ [nl] @
          '' ---------   ------            ----    ----    -----'' @ [nl]))
     (sq (each (\<lambda>i. change_sched_policy_prio i ?n ?p ?q) [0, 1, 2])
     (sq (each worker_begin ?rest)
     (sq (each (\<lambda>t. worker_rounds t 30) [0, 1, 2])
     (each sc_join [0, 1, 2]))))))) (sview s) ?v"
    by (rule eff_sq [OF eff_each [OF eff_create] eff_sq [OF eff_begin eff_sq [OF eff_print(1) eff_sq [OF ch eff_sq [OF eff_begin
        eff_sq [OF eff_each [OF eff_rounds] eff_each [OF eff_join]]]]]]])
  then obtain x s' where "sc_main early argv s = (Return x, s')" "sview s' = ?v"
    using assms(1,2) unfolding eff_def sc_main_def run_bnd_Return [where p = "sc_args argv" and m = s, OF a] sc_calm_def by blast
  moreover from this(2) have "attrs s' = (if ?n \<in> set early then (attrs s)(gettid s ?n := asked ?p ?q (junk s)) else attrs s)"
    using assms(3,4) by (auto simp: sview_def begun_def changed_def)
  ultimately show ?thesis by simp
qed

text \<open>
  \<^verbatim>\<open>sched_rt_eg\<close>: a priority that main accepts gives both threads one that is in the range of the kernel, although the second adds 10.
\<close>

lemma rt_check_range:
  assumes "bmem s = []" "rt_check nm p s = (Return (), s')"
  shows "prio_min s \<le> p \<and> p + 10 \<le> prio_max s"
proof (rule ccontr)
  assume "\<not> (prio_min s \<le> p \<and> p + 10 \<le> prio_max s)"
  then have bad: "p < prio_min s \<or> p > prio_max s - 10" by linarith
  have f: "fst (FATAL l m t) = Exited EXIT_FAILURE" if "bmem t = []" for l m and t :: schd using FATAL_run [of l m t] that by auto
  have e: "fst (bnd (FATAL l m) g t) = Exited EXIT_FAILURE" if "bmem t = []" for l m g and t :: schd
    using f [OF that, of l m] by (cases "FATAL l m t") (simp add: bnd_def)
  have "fst (rt_check nm p s) = Exited EXIT_FAILURE"
    using assms(1) bad by (simp add: rt_check_def e f prog_simps)
  then show False using assms(2) by simp
qed

lemma rt_threads_set:
  assumes "rets s = []" "bmem s = []" "gettid s 0 \<noteq> gettid s 1" "length argv = 2" "prio_min s \<le> atoi (argv ! 1)" "atoi (argv ! 1) + 10 \<le> prio_max s"
    "prio_min s \<noteq> -1" "prio_max s \<noteq> -1" "0 \<le> atoi (argv ! 1)" "atoi (argv ! 1) < 1000"
  shows "\<exists>s'. rt_main argv s = (Return (), s') \<and>
    s_policy (attrs s' (gettid s 0)) = 2 \<and> s_prio (attrs s' (gettid s 0)) = atoi (argv ! 1) \<and>
    s_policy (attrs s' (gettid s 1)) = 1 \<and> s_prio (attrs s' (gettid s 1)) = atoi (argv ! 1) + 10"
proof -
  have i: "i32 (atoi (argv ! 1)) = atoi (argv ! 1)" "i32 (atoi (argv ! 1) + 10) = atoi (argv ! 1) + 10" using assms(9,10) by (simp_all add: i32_id)
  have c: "call_ret t = (Return 0, t)" if "rets t = []" for t :: schd using that by (simp add: call_ret_def)
  show ?thesis using assms i
    by (cases "euid s = 0") (auto simp: rt_main_def Let_def rt_check_def rt_create_def rt_worker1_def rt_worker2_def rt_hello_def pthread_setschedparam_def puts_def c
      DELAY_LOOP_run prog_simps)
qed

end
