(* ===== verification/Fork_Trees.thy ===== *)
theory Fork_Trees
  imports Simple_Shell
begin

text \<open>
  Programs that fork: \<^verbatim>\<open>fork1.c\<close> to \<^verbatim>\<open>fork5.c\<close>, \<^verbatim>\<open>fork4_prnum.c\<close> and \<^verbatim>\<open>fork_r6_of.c\<close> of \<^verbatim>\<open>src/booksrc/ch10\<close>, \<^verbatim>\<open>smallbomb.c\<close> and
  \<^verbatim>\<open>fork2c.c\<close> of \<^verbatim>\<open>src/booksrc/solutions_to_assgn/ch10\<close>. A process is the tree of what it still does: a value of type \<open>proc\<close>, whose variables are the
  arguments of its continuations, so that \<^verbatim>\<open>fork\<close>, which continues the same tree in two processes, copies them. What the processes
  share (an open file and its offset, the results of the kernel) is read and changed by \<open>Act\<close>. The processes are numbered in the
  order of their birth, and \<open>fstep\<close> interleaves them in every way.
\<close>

section \<open>Processes\<close>

datatype 's proc = Exit int | Pause | Say io "'s proc" | Pid "int \<Rightarrow> 's proc" | Fork "int \<Rightarrow> 's proc" | Act "'s \<Rightarrow> 's" "'s \<Rightarrow> 's proc" | Wait "int \<Rightarrow> int \<Rightarrow> 's proc"

record 's pm =
  procs :: "'s proc list"
  parents :: "nat list"
  reaped :: "nat \<Rightarrow> bool"
  shared :: 's
  pout :: "(nat \<times> io) list"
  forks :: "bool list"
  pid0 :: int

definition pid_of :: "'s pm \<Rightarrow> nat \<Rightarrow> int" where
  "pid_of m i = pid0 m + int i"

text \<open>The children of a process that were not waited for, and the first of them that has ended.\<close>

definition kids :: "'s pm \<Rightarrow> nat \<Rightarrow> nat list" where
  "kids m i = filter (\<lambda>j. 0 < j \<and> parents m ! j = i \<and> \<not> reaped m j) [0..<length (procs m)]"

definition ended :: "'s proc \<Rightarrow> int option" where
  "ended p = (case p of Exit n \<Rightarrow> Some n | _ \<Rightarrow> None)"

definition fork_child :: "nat \<Rightarrow> (int \<Rightarrow> 's proc) \<Rightarrow> 's pm \<Rightarrow> 's pm" where
  "fork_child i k m = (case forks m of
      False # fs \<Rightarrow> m\<lparr>procs := (procs m)[i := k (-1)], forks := fs\<rparr>
    | _ \<Rightarrow> m\<lparr>procs := (procs m)[i := k (pid_of m (length (procs m)))] @ [k 0], parents := parents m @ [i], forks := tl (forks m)\<rparr>)"

definition reap :: "nat \<Rightarrow> (int \<Rightarrow> int \<Rightarrow> 's proc) \<Rightarrow> 's pm \<Rightarrow> 's pm option" where
  "reap i k m =
     (if kids m i = [] then Some (m\<lparr>procs := (procs m)[i := k (-1) 0]\<rparr>)
      else case List.find (\<lambda>j. ended (procs m ! j) \<noteq> None) (kids m i) of
        None \<Rightarrow> None
      | Some j \<Rightarrow> Some (m\<lparr>procs := (procs m)[i := k (pid_of m j) (the (ended (procs m ! j)) mod 256 * 256)], reaped := (reaped m)(j := True)\<rparr>))"

definition run_proc :: "nat \<Rightarrow> 's pm \<Rightarrow> 's pm option" where
  "run_proc i m = (case procs m ! i of
      Exit _ \<Rightarrow> None
    | Pause \<Rightarrow> None
    | Say x p \<Rightarrow> Some (m\<lparr>procs := (procs m)[i := p], pout := pout m @ [(i, x)]\<rparr>)
    | Pid k \<Rightarrow> Some (m\<lparr>procs := (procs m)[i := k (pid_of m i)]\<rparr>)
    | Fork k \<Rightarrow> Some (fork_child i k m)
    | Act f k \<Rightarrow> Some (m\<lparr>procs := (procs m)[i := k (shared m)], shared := f (shared m)\<rparr>)
    | Wait k \<Rightarrow> reap i k m)"

inductive fstep :: "'s pm \<Rightarrow> 's pm \<Rightarrow> bool" where
  fstep: "i < length (procs m) \<Longrightarrow> run_proc i m = Some m' \<Longrightarrow> fstep m m'"

inductive_cases fstepE: "fstep m m'"

section \<open>What the programs share\<close>

record fsh =
  fmem :: "bool list"
  ferr :: "string option"
  fres :: "int list"
  ffile :: string
  foff :: nat

text \<open>\<^verbatim>\<open>FATAL\<close>: without memory for the message the program goes on.\<close>

definition fatal :: "string \<Rightarrow> string \<Rightarrow> fsh proc \<Rightarrow> fsh proc" where
  "fatal loc msg on = Act (\<lambda>s. s\<lparr>fmem := tl (fmem s)\<rparr>) (\<lambda>s.
     if fmem s \<noteq> [] \<and> \<not> hd (fmem s) then on
     else Say (Err (take 510 (''FATAL:'' @ loc @ msg))) (case ferr s of None \<Rightarrow> Exit EXIT_FAILURE
       | Some txt \<Rightarrow> Say (Err ''  '') (Say (Err (''kernel says: '' @ txt @ [nl])) (Exit EXIT_FAILURE))))"

section \<open>fork1.c to fork5.c\<close>

definition fork1 :: "fsh proc" where
  "fork1 = Fork (\<lambda>_. Say (Out (''Hello, fork.'' @ [nl])) (Exit EXIT_SUCCESS))"

definition fork2 :: "fsh proc" where
  "fork2 = Fork (\<lambda>r. let hello = Say (Out (''Hello, fork.'' @ [nl])) (Exit EXIT_SUCCESS) in
     if r = -1 then fatal (place ''fork2.c'' ''main'' 27) (''fork failed!'' @ [nl]) hello else hello)"

definition fork3 :: "fsh proc" where
  "fork3 = Fork (\<lambda>r. let hello = Pid (\<lambda>p. Say (Out (''PID '' @ show_int p @ '': Hello, fork.'' @ [nl])) (Exit EXIT_SUCCESS)) in
     if r = -1 then fatal (place ''fork3.c'' ''main'' 27) (''fork failed!'' @ [nl]) hello else hello)"

definition nap :: "string \<Rightarrow> string \<Rightarrow> int \<Rightarrow> fsh proc \<Rightarrow> fsh proc" where
  "nap fn file nsec k = Say (Out ('' '' @ file @ '':'' @ fn @ '' :: will take a nap for '' @ show_int (u32 nsec) @ ''s ...'' @ [nl])) k"

definition returned :: "string \<Rightarrow> int \<Rightarrow> int \<Rightarrow> io" where
  "returned who p r = Out (who @ '' process, PID '' @ show_int p @ '':'' @ [nl] @ '' return '' @ show_int r @ '' from fork()'' @ [nl])"

definition child_done :: "string \<Rightarrow> fsh proc" where
  "child_done pre = Pid (\<lambda>p. Say (Out (pre @ show_int p @ '') done, exiting ...'' @ [nl])) (Exit EXIT_SUCCESS))"

definition parent_done :: "fsh proc" where
  "parent_done = Pid (\<lambda>p. Say (Out (''Parent ('' @ show_int p @ '') will exit now...'' @ [nl])) (Exit EXIT_SUCCESS))"

definition fork_usage :: "string \<Rightarrow> fsh proc" where
  "fork_usage msg = Say (Err msg) (Exit EXIT_FAILURE)"

text \<open>Without memory for the message about a failed \<^verbatim>\<open>fork\<close> the switch falls through to the child's case.\<close>

definition fork4 :: "string list \<Rightarrow> fsh proc" where
  "fork4 argv =
     (if length argv \<noteq> 3 then fork_usage (''Usage: '' @ argv ! 0 @ '' {child-alive-sec} {parent-alive-sec}'' @ [nl]) else
      Fork (\<lambda>r.
        let child = Pid (\<lambda>p. Say (returned ''Child'' p r) (nap ''foo'' ''fork4.c'' (atoi (argv ! 1)) (child_done ''Child process (''))) in
        if r = -1 then fatal (place ''fork4.c'' ''main'' 55) (''fork failed, aborting!'' @ [nl]) child
        else if r = 0 then child
        else Pid (\<lambda>p. Say (returned ''Parent'' p r) (nap ''bar'' ''fork4.c'' (atoi (argv ! 2)) parent_done))))"

fun delay_loop :: "char \<Rightarrow> nat \<Rightarrow> fsh proc \<Rightarrow> fsh proc" where
  "delay_loop c 0 k = k"
| "delay_loop c (Suc n) k = Say (Out [c]) (delay_loop c n k)"

definition fork4_prnum :: "string list \<Rightarrow> fsh proc" where
  "fork4_prnum argv =
     (if length argv \<noteq> 3 then fork_usage (''Usage: '' @ argv ! 0 @ '' {child-numbytes-to-write} {parent-numbytes-to-write}'' @ [nl]) else
      Fork (\<lambda>r.
        let child = Pid (\<lambda>p. Say (returned ''Child'' p r) (delay_loop (CHR ''c'') (nat (u32 (atoi (argv ! 1)))) (child_done ''Child process (''))) in
        if r = -1 then fatal (place ''fork4_prnum.c'' ''main'' 41) (''fork failed, aborting!'' @ [nl]) child
        else if r = 0 then child
        else Pid (\<lambda>p. Say (returned ''Parent'' p r) (delay_loop (CHR ''p'') (nat (u32 (atoi (argv ! 2)))) parent_done))))"

text \<open>\<open>g\<close> and \<open>loc\<close> are copied with the process.\<close>

definition vars_line :: "int \<Rightarrow> int \<Rightarrow> io" where
  "vars_line loc g = Out ('' loc='' @ show_int loc @ '' g='' @ show_int g @ [nl])"

definition who_line :: "string \<Rightarrow> int \<Rightarrow> io" where
  "who_line who p = Out (who @ '' process, PID '' @ show_int p @ '':'' @ [nl])"

definition fork5 :: "fsh proc" where
  "fork5 = (let g = 7; loc = 8 in
     Fork (\<lambda>r.
       let child = Pid (\<lambda>p. Say (who_line ''Child'' p) (let loc = loc + 1; g = g - 1 in Say (vars_line loc g) (child_done ''Child (''))) in
       if r = -1 then fatal (place ''fork5.c'' ''main'' 33) (''fork failed, aborting!'' @ [nl]) child
       else if r = 0 then child
       else Pid (\<lambda>p. Say (who_line ''Parent'' p) (let loc = loc - 1; g = g + 1 in Say (vars_line loc g) parent_done))))"

section \<open>smallbomb.c\<close>

definition FORK_AND_PRINT :: "nat \<Rightarrow> fsh proc \<Rightarrow> fsh proc" where
  "FORK_AND_PRINT line rest = Fork (\<lambda>r.
     let after = Pid (\<lambda>p. Say (Out (''PID '' @ show_int p @ [nl])) rest) in
     if r < 0 then Pid (\<lambda>p. fatal (place ''smallbomb.c'' ''main'' line) (''PID '' @ show_int p @ '': fork failed'' @ [nl]) after) else after)"

definition smallbomb :: "fsh proc" where
  "smallbomb = FORK_AND_PRINT 92 (FORK_AND_PRINT 93 (FORK_AND_PRINT 94 Pause))"

section \<open>fork\_r6\_of.c\<close>

text \<open>The two processes share the offset of the file they both have open. A write goes to the offset and moves it.\<close>

definition next_res :: "fsh \<Rightarrow> int" where
  "next_res s = (case fres s of [] \<Rightarrow> 0 | r # _ \<Rightarrow> r)"

definition put_at :: "nat \<Rightarrow> string \<Rightarrow> string \<Rightarrow> string" where
  "put_at k xs f = take k f @ replicate (k - length f) nul @ xs @ drop (k + length xs) f"

definition do_seek :: "nat \<Rightarrow> fsh \<Rightarrow> fsh" where
  "do_seek k s = (if next_res s < 0 then s\<lparr>fres := tl (fres s)\<rparr> else s\<lparr>fres := tl (fres s), foff := k\<rparr>)"

definition do_write :: "string \<Rightarrow> fsh \<Rightarrow> fsh" where
  "do_write xs s = (if next_res s = -1 then s\<lparr>fres := tl (fres s)\<rparr>
     else s\<lparr>fres := tl (fres s), ffile := put_at (foff s) xs (ffile s), foff := foff s + length xs\<rparr>)"

abbreviation (input) seekto :: nat where "seekto \<equiv> 10"
abbreviation (input) lnsize :: nat where "lnsize \<equiv> 80"
abbreviation (input) numlines :: nat where "numlines \<equiv> 100"

definition r6_at :: "nat \<Rightarrow> string" where
  "r6_at line = place ''fork_r6_of.c'' ''work_on_file'' line"

fun write_lines :: "nat \<Rightarrow> string \<Rightarrow> string \<Rightarrow> nat \<Rightarrow> fsh proc \<Rightarrow> fsh proc" where
  "write_lines line who ln 0 k = k"
| "write_lines line who ln (Suc n) k = Act (do_write ln) (\<lambda>s.
     if next_res s = -1 then fatal (r6_at line) (who @ '': write failed'' @ [nl]) (write_lines line who ln n k) else write_lines line who ln n k)"

text \<open>
  Without a buffer \<^verbatim>\<open>memset\<close> ends the process with a fault, of 128 + 11. Where \<^verbatim>\<open>FATAL\<close> returns after the buffer was freed the
  code goes on with it; the model keeps its bytes.
\<close>

definition seek_write_lines :: "bool \<Rightarrow> nat \<Rightarrow> nat \<Rightarrow> string \<Rightarrow> nat \<Rightarrow> char \<Rightarrow> fsh proc \<Rightarrow> fsh proc" where
  "seek_write_lines buf line1 line2 who off c k = Act (do_seek off) (\<lambda>s.
     let go = (if buf then write_lines line2 who (replicate (lnsize - 1) c @ [nl]) numlines k else Exit 139) in
     if next_res s < 0 then fatal (r6_at line1) (who @ '': lseek failed'' @ [nl]) go else go)"

definition work_on_file :: "bool \<Rightarrow> fsh proc \<Rightarrow> fsh proc" where
  "work_on_file child k =
     Act (\<lambda>s. s\<lparr>fmem := tl (fmem s)\<rparr>) (\<lambda>s.
     let buf = (fmem s = [] \<or> hd (fmem s));
       go = Say (Out ('' in fork_r6_of.c:work_on_file now...'' @ [nl]))
         (if child then Say (Out (''   context: child process'' @ [nl])) (seek_write_lines buf 57 65 ''child'' seekto (CHR ''c'') k)
          else Say (Out (''   context: parent process'' @ [nl])) (seek_write_lines buf 74 82 ''parent'' (seekto + lnsize * numlines) (CHR ''p'') k)) in
     if buf then go else fatal (r6_at 47) (''malloc failed'' @ [nl]) go)"

definition do_work :: "fsh proc" where
  "do_work = Fork (\<lambda>r.
     let child = Pid (\<lambda>p. Say (who_line ''Child'' p) (work_on_file True (child_done ''Child (''))) in
     if r = -1 then fatal (place ''fork_r6_of.c'' ''do_work'' 95) (''fork failed, aborting!'' @ [nl]) child
     else if r = 0 then child
     else Pid (\<lambda>p. Say (who_line ''Parent'' p) (work_on_file False parent_done)))"

text \<open>\<^verbatim>\<open>main\<close> starts with a new empty file. What it prints after \<^verbatim>\<open>do_work\<close> is the end of the parent's branch above.\<close>

definition do_open :: "fsh \<Rightarrow> fsh" where
  "do_open s = (if next_res s = -1 then s\<lparr>fres := tl (fres s)\<rparr> else s\<lparr>fres := tl (fres s), ffile := [], foff := 0\<rparr>)"

definition r6_main :: "string list \<Rightarrow> fsh proc" where
  "r6_main argv =
     (if length argv \<noteq> 2 then fork_usage (''Usage: '' @ argv ! 0 @ '' {test-file-name}'' @ [nl]) else
      Act do_open (\<lambda>s. if next_res s = -1 then fatal (place ''fork_r6_of.c'' ''main'' 126) (''open('' @ argv ! 1 @ '') failed'' @ [nl]) do_work else do_work))"

section \<open>fork2c.c\<close>

definition chkrange :: "int \<Rightarrow> int \<Rightarrow> int \<Rightarrow> int" where
  "chkrange num lo hi = (if num < lo then -2 else if num > hi then -3 else 0)"

text \<open>The value of an \<^verbatim>\<open>unsigned short\<close> variable an \<^verbatim>\<open>int\<close> is assigned to.\<close>

definition u16 :: "int \<Rightarrow> int" where
  "u16 x = x mod 65536"

definition displayChildStatus :: "nat \<Rightarrow> int \<Rightarrow> io" where
  "displayChildStatus stat cpid = Out ([nl] @ ''Child '' @ show_int cpid @ '' just died!'' @ [nl] @
     ''WIFEXITED : '' @ show_nat (of_bool (WIFEXITED stat)) @ [nl] @ ''Exit status: '' @ show_nat (WEXITSTATUS stat) @ [nl] @
     ''WIFSIGNALED : '' @ show_nat (of_bool (WIFSIGNALED stat)) @ [nl] @ ''Termination signal: '' @ show_nat (WTERMSIG stat) @ [nl] @
     ''WIFSTOPPED : '' @ show_nat (of_bool (WIFSTOPPED stat)) @ [nl] @ ''Stop signal: '' @ show_nat (WSTOPSIG stat) @ [nl] @
     ''WCOREDUMP: '' @ show_nat (of_bool (WCOREDUMP stat) * 128) @ [nl] @ ''WIFCONTINUED: '' @ show_nat (of_bool (WIFCONTINUED stat)) @ [nl])"

text \<open>\<^verbatim>\<open>perror("fork")\<close> and \<^verbatim>\<open>exit(1)\<close>.\<close>

definition fork_failed :: "fsh proc" where
  "fork_failed = Act id (\<lambda>s. Say (Err (''fork: '' @ (case ferr s of None \<Rightarrow> ''Success'' | Some txt \<Rightarrow> txt) @ [nl])) (Exit 1))"

definition sleep_line :: "nat \<Rightarrow> int \<Rightarrow> int \<Rightarrow> io" where
  "sleep_line k q tm = Out (''Child '' @ show_nat k @ '' PID '' @ show_int q @ '' sleeping for '' @ show_int tm @ ''s...'' @ [nl])"

definition sleeper :: "nat \<Rightarrow> int \<Rightarrow> fsh proc" where
  "sleeper k tm = Pid (\<lambda>p. Say (sleep_line k p tm) (Exit 0))"

definition createChild :: "int \<Rightarrow> fsh proc \<Rightarrow> fsh proc" where
  "createChild sleep_time rest = Fork (\<lambda>n. if n = -1 then fork_failed else if n = 0 then sleeper 2 sleep_time else rest)"

text \<open>The loop over \<^verbatim>\<open>wait\<close> has as many rounds as there are children, two here, and one that ends it.\<close>

fun wait_loop :: "nat \<Rightarrow> fsh proc \<Rightarrow> fsh proc" where
  "wait_loop 0 k = Pause"
| "wait_loop (Suc n) k = Wait (\<lambda>cpid stat. if cpid = -1 then k else Say (displayChildStatus (nat stat) cpid) (wait_loop n k))"

definition dead_line :: io where
  "dead_line = Out ([nl] @ ''Parent: all children dead, exiting...'' @ [nl])"

definition fork2c_work :: "int \<Rightarrow> int \<Rightarrow> fsh proc" where
  "fork2c_work c1 c2 = Fork (\<lambda>n.
     if n = -1 then fork_failed else if n = 0 then sleeper 1 c1
     else createChild c2 (wait_loop 3 (Say dead_line (Exit EXIT_SUCCESS))))"

definition bad_param :: "string list \<Rightarrow> string \<Rightarrow> int \<Rightarrow> fsh proc" where
  "bad_param argv which tm = Say (Err (argv ! 0 @ '': ensure '' @ which @ '' param ['' @ show_int tm @ ''] is within acceptable range [1-60]'' @ [nl])) (Exit EXIT_FAILURE)"

definition fork2c :: "string list \<Rightarrow> fsh proc" where
  "fork2c argv =
     (if length argv = 3 then
        let c1 = u16 (atoi (argv ! 1)); c2 = u16 (atoi (argv ! 2)) in
        if chkrange c1 1 60 < 0 then bad_param argv ''first'' c1
        else if chkrange c2 1 60 < 0 then bad_param argv ''second'' c2
        else fork2c_work c1 c2
      else fork2c_work 3 7)"

section \<open>The bomb\<close>

text \<open>A process before \<open>n\<close> more forks, and after a fork with its line still to print: how many processes and lines come of it, and in how many steps.\<close>

primrec bomb :: "nat \<Rightarrow> fsh proc" where
  "bomb 0 = Pause"
| "bomb (Suc n) = FORK_AND_PRINT (94 - n) (bomb n)"

definition shape :: "fsh proc \<Rightarrow> nat \<times> nat \<Rightarrow> bool" where
  "shape p = (\<lambda>(n, l). l = 0 \<and> p = bomb n \<or> l = 2 \<and> p = Pid (\<lambda>q. Say (Out (''PID '' @ show_int q @ [nl])) (bomb n))
     \<or> l = 1 \<and> (\<exists>q. p = Say (Out (''PID '' @ show_int q @ [nl])) (bomb n)))"

definition n_procs :: "nat \<times> nat \<Rightarrow> nat" where
  "n_procs = (\<lambda>(n, l). 2 ^ n)"

definition n_lines :: "nat \<times> nat \<Rightarrow> nat" where
  "n_lines = (\<lambda>(n, l). 2 * (2 ^ n - 1) + (if l = 0 then 0 else 1))"

definition n_steps :: "nat \<times> nat \<Rightarrow> nat" where
  "n_steps = (\<lambda>(n, l). 5 * (2 ^ n - 1) + l)"

definition bomb_inv :: "nat \<Rightarrow> nat \<Rightarrow> fsh pm \<Rightarrow> bool" where
  "bomb_inv n k m = (\<exists>ds. list_all2 shape (procs m) ds \<and> sum_list (map n_procs ds) = 2 ^ n
     \<and> length (pout m) + sum_list (map n_lines ds) = 2 * (2 ^ n - 1) \<and> k + sum_list (map n_steps ds) = 5 * (2 ^ n - 1) \<and> forks m = [])"

lemma sum_list_update_nat:
  fixes ds :: "(nat \<times> nat) list" and f :: "nat \<times> nat \<Rightarrow> nat"
  assumes "i < length ds"
  shows "sum_list (map f (ds[i := d])) + f (ds ! i) = sum_list (map f ds) + f d"
  using assms by (induction ds arbitrary: i) (auto simp: less_Suc_eq_0_disj nth_Cons split: nat.splits)

lemma bomb_step:
  assumes "bomb_inv n k m" "0 \<le> pid0 m" "i < length (procs m)" "run_proc i m = Some m'"
  shows "bomb_inv n (Suc k) m' \<and> pid0 m' = pid0 m"
proof -
  from assms(1) obtain ds where ds: "list_all2 shape (procs m) ds" "sum_list (map n_procs ds) = 2 ^ n"
    "length (pout m) + sum_list (map n_lines ds) = 2 * (2 ^ n - 1)" "k + sum_list (map n_steps ds) = 5 * (2 ^ n - 1)" "forks m = []"
    unfolding bomb_inv_def by blast
  have l: "length ds = length (procs m)" "i < length ds" using ds(1) assms(3) by (auto dest: list_all2_lengthD)
  have sh: "shape (procs m ! i) (ds ! i)" using ds(1) assms(3) by (rule list_all2_nthD)
  obtain a b where d: "ds ! i = (a, b)" by fastforce
  have up: "list_all2 shape ((procs m)[i := p]) (ds[i := e])" if "shape p e" for p e using list_all2_update_cong [OF ds(1) that] .
  note sums = sum_list_update_nat [OF l(2), of n_procs] sum_list_update_nat [OF l(2), of n_lines] sum_list_update_nat [OF l(2), of n_steps]
  from sh d consider (fork) "b = 0" "procs m ! i = bomb a" | (pid) "b = 2" "procs m ! i = Pid (\<lambda>q. Say (Out (''PID '' @ show_int q @ [nl])) (bomb a))"
    | (say) q where "b = 1" "procs m ! i = Say (Out (''PID '' @ show_int q @ [nl])) (bomb a)" unfolding shape_def by auto
  then show ?thesis
  proof cases
    case say
    have "m' = m\<lparr>procs := (procs m)[i := bomb a], pout := pout m @ [(i, Out (''PID '' @ show_int q @ [nl]))]\<rparr>" using assms(4) say(2) by (simp add: run_proc_def)
    moreover have "shape (bomb a) (a, 0)" by (simp add: shape_def)
    ultimately show ?thesis using up [of "bomb a" "(a, 0)"] ds(2-5) sums(1-3) [of "(a, 0)"] d say(1)
      unfolding bomb_inv_def by (intro conjI exI [of _ "ds[i := (a, 0)]"]) (auto simp: n_procs_def n_lines_def n_steps_def)
  next
    case pid
    let ?p = "Say (Out (''PID '' @ show_int (pid_of m i) @ [nl])) (bomb a)"
    have "m' = m\<lparr>procs := (procs m)[i := ?p]\<rparr>" using assms(4) pid(2) by (simp add: run_proc_def)
    moreover have "shape ?p (a, 1)" by (auto simp: shape_def)
    ultimately show ?thesis using up [of ?p "(a, 1)"] ds(2-5) sums(1-3) [of "(a, 1)"] d pid(1)
      unfolding bomb_inv_def by (intro conjI exI [of _ "ds[i := (a, 1)]"]) (auto simp: n_procs_def n_lines_def n_steps_def)
  next
    case fork
    show ?thesis
    proof (cases a)
      case 0
      then show ?thesis using assms(4) fork(2) by (simp add: run_proc_def)
    next
      case (Suc c)
      let ?p = "Pid (\<lambda>q. Say (Out (''PID '' @ show_int q @ [nl])) (bomb c)) :: fsh proc"
      have q: "\<not> pid_of m j < 0" for j using assms(2) by (simp add: pid_of_def)
      have "m' = m\<lparr>procs := (procs m)[i := ?p] @ [?p], parents := parents m @ [i], forks := []\<rparr>"
        using assms(4) fork(2) ds(5) by (simp add: run_proc_def Suc FORK_AND_PRINT_def fork_child_def Let_def q)
      moreover have s: "shape ?p (c, 2)" by (simp add: shape_def)
      moreover have "list_all2 shape ((procs m)[i := ?p] @ [?p]) (ds[i := (c, 2)] @ [(c, 2)])" using up [OF s] s by (simp add: list_all2_appendI)
      moreover obtain x :: nat where x: "2 ^ c = Suc x" using not0_implies_Suc [of "2 ^ c"] by auto
      have "n_procs (ds ! i) = 2 * n_procs (c, 2)" "n_lines (ds ! i) = 2 * n_lines (c, 2)" "n_steps (ds ! i) = 1 + 2 * n_steps (c, 2)"
        using d fork(1) by (simp_all add: Suc n_procs_def n_lines_def n_steps_def x)
      then have "sum_list (map n_procs (ds[i := (c, 2)] @ [(c, 2)])) = 2 ^ n"
        "length (pout m) + sum_list (map n_lines (ds[i := (c, 2)] @ [(c, 2)])) = 2 * (2 ^ n - 1)"
        "Suc k + sum_list (map n_steps (ds[i := (c, 2)] @ [(c, 2)])) = 5 * (2 ^ n - 1)"
        using ds(2-4) sums(1-3) [of "(c, 2)"] by (simp_all del: One_nat_def)
      ultimately show ?thesis unfolding bomb_inv_def by (intro conjI exI [of _ "ds[i := (c, 2)] @ [(c, 2)]"]) simp_all
    qed
  qed
qed

definition born :: "'s proc \<Rightarrow> 's pm \<Rightarrow> bool" where
  "born p m = (procs m = [p] \<and> parents m = [0] \<and> pout m = [] \<and> forks m = [] \<and> 0 \<le> pid0 m)"

lemma bomb_run:
  assumes "(fstep ^^ k) m0 m" "born (bomb n) m0"
  shows "bomb_inv n k m \<and> pid0 m = pid0 m0"
  using assms(1)
proof (induction k arbitrary: m)
  case 0
  then show ?case using assms(2)
    by (auto simp: born_def bomb_inv_def n_procs_def n_lines_def n_steps_def shape_def intro!: exI [of _ "[(n, 0)]"])
next
  case (Suc k)
  then obtain m1 where m1: "(fstep ^^ k) m0 m1" "fstep m1 m" by (auto elim: relpowp_Suc_E)
  from Suc.IH [OF m1(1)] have i: "bomb_inv n k m1" "pid0 m1 = pid0 m0" by auto
  moreover have "0 \<le> pid0 m1" using i(2) assms(2) by (simp add: born_def)
  ultimately show ?case using m1(2) bomb_step [of n k m1] by (auto elim!: fstepE)
qed

text \<open>
  However the processes are scheduled, \<open>n\<close> forks in a row end after five steps for each child with \<open>2 ^ n\<close> processes that pause and with
  \<open>2 (2 ^ n - 1)\<close> lines; \<^verbatim>\<open>smallbomb\<close> has three, so eight processes and fourteen lines.
\<close>

lemma bomb_ends:
  assumes "born (bomb n) m0" "(fstep ^^ k) m0 m"
  shows "k \<le> 5 * (2 ^ n - 1) \<and> ((\<exists>m'. fstep m m') \<or> k = 5 * (2 ^ n - 1) \<and> procs m = replicate (2 ^ n) Pause \<and> length (pout m) = 2 * (2 ^ n - 1))"
proof -
  from bomb_run [OF assms(2,1)] obtain ds where ds: "list_all2 shape (procs m) ds" "sum_list (map n_procs ds) = 2 ^ n"
    "length (pout m) + sum_list (map n_lines ds) = 2 * (2 ^ n - 1)" "k + sum_list (map n_steps ds) = 5 * (2 ^ n - 1)" unfolding bomb_inv_def by blast
  have "procs m = replicate (2 ^ n) Pause \<and> length (pout m) = 2 * (2 ^ n - 1) \<and> k = 5 * (2 ^ n - 1)" if no: "\<not> (\<exists>m'. fstep m m')"
  proof -
    have z: "d = (0, 0)" if "i < length ds" "ds ! i = d" for i d
    proof -
      have i: "i < length (procs m)" using ds(1) that(1) by (simp add: list_all2_lengthD)
      then have "run_proc i m = None" using no fstep.intros by (metis option.exhaust)
      moreover have "shape (procs m ! i) d" using list_all2_nthD [OF ds(1) i] that(2) by simp
      ultimately show ?thesis by (cases d; cases "fst d") (auto simp: shape_def run_proc_def FORK_AND_PRINT_def)
    qed
    then have "set ds \<subseteq> {(0, 0)}" by (fastforce simp: in_set_conv_nth)
    then have r: "ds = replicate (length ds) (0, 0)" by (induction ds) auto
    have f: "sum_list (map f ds) = length ds * f (0, 0)" for f :: "nat \<times> nat \<Rightarrow> nat" by (subst r) (simp add: sum_list_replicate)
    have "length ds = 2 ^ n" using ds(2) f [of n_procs] by (simp add: n_procs_def)
    moreover have "procs m ! i = Pause" if "i < length (procs m)" for i
      using list_all2_nthD [OF ds(1) that] z [of i] that list_all2_lengthD [OF ds(1)] by (simp add: shape_def)
    then have "procs m = replicate (length ds) Pause" using list_all2_lengthD [OF ds(1)] by (intro nth_equalityI) auto
    moreover have "sum_list (map n_lines ds) = 0" "sum_list (map n_steps ds) = 0" unfolding f by (simp_all add: n_lines_def n_steps_def)
    ultimately show ?thesis using ds(3,4) by (simp del: sum_list_eq_0_iff)
  qed
  then show ?thesis using ds(4) by auto
qed

lemma smallbomb_eight:
  assumes "born smallbomb m0" "(fstep ^^ k) m0 m"
  shows "k \<le> 35 \<and> ((\<exists>m'. fstep m m') \<or> k = 35 \<and> procs m = replicate 8 Pause \<and> length (pout m) = 14)"
proof -
  have "smallbomb = bomb 3" by (simp add: smallbomb_def numeral_3_eq_3)
  then show ?thesis using bomb_ends [of 3 m0 k m] assms by simp
qed

section \<open>Parent and child\<close>

text \<open>A process that only prints: what it prints is its own, however the other runs.\<close>

primrec straight :: "'s proc \<Rightarrow> bool" where
  "straight (Exit n) = True"
| "straight Pause = True"
| "straight (Say x p) = straight p"
| "straight (Pid k) = (\<forall>q. straight (k q))"
| "straight (Fork k) = False"
| "straight (Act f k) = False"
| "straight (Wait k) = False"

primrec prints :: "int \<Rightarrow> 's proc \<Rightarrow> io list" where
  "prints q (Exit n) = []"
| "prints q Pause = []"
| "prints q (Say x p) = x # prints q p"
| "prints q (Pid k) = prints q (k q)"
| "prints q (Fork k) = []"
| "prints q (Act f k) = []"
| "prints q (Wait k) = []"

definition said :: "nat \<Rightarrow> 's pm \<Rightarrow> io list" where
  "said i m = map snd (filter (\<lambda>x. fst x = i) (pout m))"

definition pair_inv :: "(nat \<Rightarrow> io list) \<Rightarrow> 's pm \<Rightarrow> bool" where
  "pair_inv L m = (length (procs m) = 2 \<and> (\<forall>i < 2. straight (procs m ! i) \<and> said i m @ prints (pid_of m i) (procs m ! i) = L i))"

lemma pair_step:
  assumes "pair_inv L m" "i < length (procs m)" "run_proc i m = Some m'"
  shows "pair_inv L m' \<and> pid0 m' = pid0 m"
proof -
  have i: "i < 2" "straight (procs m ! i)" using assms(1,2) by (auto simp: pair_inv_def)
  show ?thesis
  proof (cases "procs m ! i")
    case (Say x p)
    then have "m' = m\<lparr>procs := (procs m)[i := p], pout := pout m @ [(i, x)]\<rparr>" using assms(3) by (simp add: run_proc_def)
    then show ?thesis using assms(1) i Say by (auto simp: pair_inv_def said_def pid_of_def nth_list_update)
  next
    case (Pid k)
    then have "m' = m\<lparr>procs := (procs m)[i := k (pid_of m i)]\<rparr>" using assms(3) by (simp add: run_proc_def)
    then show ?thesis using assms(1) i Pid by (auto simp: pair_inv_def said_def pid_of_def nth_list_update)
  qed (use assms(3) i(2) in \<open>auto simp: run_proc_def\<close>)
qed

lemma pair_outputs:
  assumes "born (Fork k) m0" "straight (k 0)" "straight (k (pid0 m0 + 1))" "(fstep ^^ Suc n) m0 m"
  shows "pair_inv (\<lambda>i. if i = 0 then prints (pid0 m0) (k (pid0 m0 + 1)) else prints (pid0 m0 + 1) (k 0)) m"
proof -
  let ?L = "\<lambda>i. if i = 0 then prints (pid0 m0) (k (pid0 m0 + 1)) else prints (pid0 m0 + 1) (k 0)"
  obtain m1 where m1: "fstep m0 m1" "(fstep ^^ n) m1 m" using relpowp_Suc_D2 [OF assms(4)] by blast
  have "m1 = m0\<lparr>procs := [k (pid_of m0 1), k 0], parents := [0, 0], forks := []\<rparr>"
    using m1(1) assms(1) by (auto elim!: fstepE simp: run_proc_def born_def fork_child_def)
  then have "pair_inv ?L m1 \<and> pid0 m1 = pid0 m0" using assms(1-3) by (auto simp: pair_inv_def born_def said_def pid_of_def less_2_cases_iff)
  then show ?thesis using m1(2)
  proof (induction n arbitrary: m)
    case (Suc n)
    then obtain m2 where "(fstep ^^ n) m1 m2" "fstep m2 m" by (auto elim: relpowp_Suc_E)
    then show ?case using Suc.IH [of m2] Suc.prems pair_step [of ?L m2] by (auto elim!: fstepE)
  qed simp
qed

text \<open>Once neither of them can go on, each has printed what its tree says.\<close>

lemma pair_ended:
  assumes "pair_inv L m" "\<not> (\<exists>m'. fstep m m')" "i < 2"
  shows "said i m = L i"
proof -
  have "run_proc i m = None" using assms fstep.intros [of i m] by (cases "run_proc i m") (auto simp: pair_inv_def)
  then have "prints (pid_of m i) (procs m ! i) = []" using assms(1,3) by (cases "procs m ! i") (auto simp: run_proc_def pair_inv_def)
  then show ?thesis using assms(1,3) by (auto simp: pair_inv_def)
qed

text \<open>Each process of \<^verbatim>\<open>fork5\<close> has its own copies of the two variables, whichever runs first.\<close>

lemma fork5_copies:
  assumes "born fork5 m0" "(fstep ^^ Suc n) m0 m" "\<not> (\<exists>m'. fstep m m')"
  shows "said 0 m ! 1 = vars_line 7 8 \<and> said 1 m ! 1 = vars_line 9 6 \<and> length (said 0 m) = 3 \<and> length (said 1 m) = 3"
proof -
  obtain k where k: "fork5 = Fork k" "straight (k 0)" "straight (k (pid0 m0 + 1))"
    "prints (pid0 m0) (k (pid0 m0 + 1)) = [who_line ''Parent'' (pid0 m0), vars_line 7 8, Out (''Parent ('' @ show_int (pid0 m0) @ '') will exit now...'' @ [nl])]"
    "prints (pid0 m0 + 1) (k 0) = [who_line ''Child'' (pid0 m0 + 1), vars_line 9 6, Out (''Child ('' @ show_int (pid0 m0 + 1) @ '') done, exiting ...'' @ [nl])]"
    using assms(1) by (auto simp: fork5_def Let_def child_done_def parent_done_def born_def)
  have inv: "pair_inv (\<lambda>i. if i = 0 then prints (pid0 m0) (k (pid0 m0 + 1)) else prints (pid0 m0 + 1) (k 0)) m"
    by (rule pair_outputs [OF _ k(2,3) assms(2)]) (use assms(1) k(1) in simp)
  show ?thesis using pair_ended [OF inv assms(3)] k(4,5) by simp
qed

section \<open>The shared offset\<close>

text \<open>
  The writes of \<^verbatim>\<open>fork_r6_of.c\<close>, as the sequence of calls the two processes make on the shared file: what is meant to be, one process after
  the other, and what happens when both seek before they write.
\<close>

definition file_calls :: "(fsh \<Rightarrow> fsh) list \<Rightarrow> fsh \<Rightarrow> fsh" where
  "file_calls fs s = fold (\<lambda>f. f) fs s"

definition c_line :: string where "c_line = replicate (lnsize - 1) (CHR ''c'') @ [nl]"
definition p_line :: string where "p_line = replicate (lnsize - 1) (CHR ''p'') @ [nl]"

lemma put_at_end: "put_at (length f) xs f = f @ xs"
  by (simp add: put_at_def)

lemma writes_append:
  assumes "fres s = []" "foff s = length (ffile s)"
  shows "fold (\<lambda>f. f) (replicate n (do_write ln)) s = s\<lparr>ffile := ffile s @ concat (replicate n ln), foff := length (ffile s) + n * length ln\<rparr>"
  using assms
proof (induction n arbitrary: s)
  case 0
  then show ?case by (cases s) simp
next
  case (Suc n)
  have w: "do_write ln s = s\<lparr>ffile := ffile s @ ln, foff := length (ffile s) + length ln\<rparr>"
    using Suc.prems put_at_end by (cases s) (simp add: do_write_def next_res_def)
  show ?case using Suc.IH [of "s\<lparr>ffile := ffile s @ ln, foff := length (ffile s) + length ln\<rparr>"] Suc.prems by (simp add: w algebra_simps)
qed

text \<open>One after the other: ten bytes of zero, the lines of the child, the lines of the parent.\<close>

lemma r6_in_turn:
  assumes "fres s = []" "ffile s = []"
  shows "ffile (file_calls (do_seek seekto # replicate numlines (do_write c_line) @ do_seek (seekto + lnsize * numlines) # replicate numlines (do_write p_line)) s) =
    replicate seekto nul @ concat (replicate numlines c_line) @ concat (replicate numlines p_line)"
proof -
  have l: "length c_line = lnsize" "length p_line = lnsize" by (simp_all add: c_line_def p_line_def)
  let ?s1 = "s\<lparr>foff := seekto\<rparr>"
  have z: "do_write c_line ?s1 = s\<lparr>ffile := replicate seekto nul @ c_line, foff := seekto + lnsize\<rparr>"
    using assms l by (cases s) (simp add: do_write_def next_res_def put_at_def)
  have k: "do_seek x t = t\<lparr>foff := x\<rparr>" if "fres t = []" for x and t :: fsh using that by (cases t) (simp add: do_seek_def next_res_def)
  have r: "replicate numlines f = f # replicate 99 f" for f :: 'a by (simp add: numeral_eq_Suc)
  let ?s2 = "s\<lparr>ffile := replicate seekto nul @ c_line, foff := seekto + lnsize\<rparr>"
  have "fold (\<lambda>f. f) (replicate 99 (do_write c_line)) ?s2 = ?s2\<lparr>ffile := ffile ?s2 @ concat (replicate 99 c_line), foff := length (ffile ?s2) + 99 * length c_line\<rparr>"
    by (rule writes_append) (use assms l in simp_all)
  then have c: "fold (\<lambda>f. f) (replicate numlines (do_write c_line)) ?s1 =
    s\<lparr>ffile := replicate seekto nul @ concat (replicate numlines c_line), foff := seekto + lnsize * numlines\<rparr>"
    using z l unfolding r [of "do_write c_line"] r [of c_line] by simp
  let ?s3 = "s\<lparr>ffile := replicate seekto nul @ concat (replicate numlines c_line), foff := seekto + lnsize * numlines\<rparr>"
  have "length (concat (replicate n c_line)) = n * lnsize" for n by (simp add: length_concat sum_list_replicate l)
  then have "fold (\<lambda>f. f) (replicate numlines (do_write p_line)) ?s3 = ?s3\<lparr>ffile := ffile ?s3 @ concat (replicate numlines p_line), foff := length (ffile ?s3) + numlines * length p_line\<rparr>"
    by (intro writes_append) (use assms in simp_all)
  then show ?thesis unfolding file_calls_def using assms k c by simp
qed

text \<open>The child seeks after the parent and before it writes: the first line of the parent lands where the child's should be, and nothing is where the parent's should be.\<close>

lemma r6_mixed:
  assumes "fres s = []" "ffile s = []"
  shows "ffile (file_calls [do_seek (seekto + lnsize * numlines), do_seek seekto, do_write p_line] s) = replicate seekto nul @ p_line"
  using assms by (simp add: file_calls_def do_seek_def do_write_def next_res_def put_at_def p_line_def)

section \<open>Two children\<close>

text \<open>The parameters of \<^verbatim>\<open>fork2c\<close>: the range is checked after the value was cut to 16 bits.\<close>

lemma fork2c_accepts:
  assumes "length argv = 3" "1 \<le> u16 (atoi (argv ! 1))" "u16 (atoi (argv ! 1)) \<le> 60" "1 \<le> u16 (atoi (argv ! 2))" "u16 (atoi (argv ! 2)) \<le> 60"
  shows "fork2c argv = fork2c_work (u16 (atoi (argv ! 1))) (u16 (atoi (argv ! 2)))"
  using assms by (simp add: fork2c_def chkrange_def Let_def)

lemma fork2c_wraps: "fork2c [''fork2c'', ''65539'', ''7''] = fork2c_work 3 7"
proof -
  have "atoi ''65539'' = 65539" "atoi ''7'' = 7" by (simp_all add: atoi_def strtol10_def split_sign_def isspace_def isdigit_def digit_val_def i32_def i64_def signed_take_bit_eq_take_bit_shift take_bit_eq_mod)
  then show ?thesis by (subst fork2c_accepts) (simp_all add: u16_def)
qed

text \<open>A child that sleeps and ends, and the parent that waits, by the number of children it has waited for.\<close>

definition sl_shape :: "nat \<Rightarrow> int \<Rightarrow> fsh proc \<Rightarrow> bool" where
  "sl_shape k tm p = (p = sleeper k tm \<or> p = Exit 0
     \<or> (\<exists>q. p = Say (sleep_line k q tm) (Exit 0)))"

definition f2_end :: "fsh proc" where
  "f2_end = Say dead_line (Exit EXIT_SUCCESS)"

definition f2_shape :: "nat \<Rightarrow> fsh proc \<Rightarrow> bool" where
  "f2_shape r p = (p = wait_loop (3 - r) f2_end \<or> 1 \<le> r \<and> (\<exists>s c. p = Say (displayChildStatus s c) (wait_loop (3 - r) f2_end)) \<or> r = 2 \<and> (p = f2_end \<or> p = Exit 0))"

definition n_reaped :: "fsh pm \<Rightarrow> nat" where
  "n_reaped m = of_bool (reaped m 1) + of_bool (reaped m 2)"

definition f2_inv :: "int \<Rightarrow> int \<Rightarrow> fsh pm \<Rightarrow> bool" where
  "f2_inv a b m = (0 \<le> pid0 m \<and> forks m = [] \<and>
     ((\<exists>p1. procs m = [createChild b (wait_loop 3 f2_end), p1] \<and> parents m = [0, 0] \<and> sl_shape 1 a p1 \<and> \<not> reaped m 1 \<and> \<not> reaped m 2)
      \<or> (\<exists>p0 p1 p2. procs m = [p0, p1, p2] \<and> parents m = [0, 0, 0] \<and> sl_shape 1 a p1 \<and> sl_shape 2 b p2 \<and> (reaped m 1 \<longrightarrow> p1 = Exit 0) \<and> (reaped m 2 \<longrightarrow> p2 = Exit 0)
         \<and> f2_shape (n_reaped m) p0)))"

lemma sl_step:
  assumes "sl_shape k tm (procs m ! i)" "run_proc i m = Some m'"
  shows "\<exists>p o'. sl_shape k tm p \<and> procs m ! i \<noteq> Exit 0 \<and> m' = m\<lparr>procs := (procs m)[i := p], pout := o'\<rparr>"
proof -
  consider "procs m ! i = sleeper k tm" | "procs m ! i = Exit 0"
    | q where "procs m ! i = Say (sleep_line k q tm) (Exit 0)"
    using assms(1) unfolding sl_shape_def by blast
  then show ?thesis
  proof cases
    case 1
    let ?p = "Say (sleep_line k (pid_of m i) tm) (Exit 0) :: fsh proc"
    have "m' = m\<lparr>procs := (procs m)[i := ?p]\<rparr>" using assms(2) 1 by (simp add: run_proc_def sleeper_def)
    then have "m' = m\<lparr>procs := (procs m)[i := ?p], pout := pout m\<rparr>" by simp
    moreover have "sl_shape k tm ?p" unfolding sl_shape_def by blast
    moreover have "procs m ! i \<noteq> Exit 0" using 1 by (simp add: sleeper_def)
    ultimately show ?thesis by blast
  next
    case 2
    then show ?thesis using assms(2) by (simp add: run_proc_def)
  next
    case 3
    then have "m' = m\<lparr>procs := (procs m)[i := Exit 0], pout := pout m @ [(i, sleep_line k q tm)]\<rparr>"
      using assms(2) by (simp add: run_proc_def)
    moreover have "sl_shape k tm (Exit 0)" by (simp add: sl_shape_def)
    ultimately show ?thesis using 3 by fastforce
  qed
qed

lemma kids_3:
  assumes "procs m = [p0, p1, p2]" "parents m = [0, 0, 0]"
  shows "kids m 0 = filter (\<lambda>j. \<not> reaped m j) [1, 2]"
  using assms by (simp add: kids_def upt_rec numeral_3_eq_3 numeral_2_eq_2)

lemma parent_step:
  assumes "f2_inv a b m" "procs m = [p0, p1, p2]" "run_proc 0 m = Some m'"
  shows "f2_inv a b m'"
proof -
  have i: "0 \<le> pid0 m" "forks m = []" "parents m = [0, 0, 0]" "sl_shape 1 a p1" "sl_shape 2 b p2" "reaped m 1 \<longrightarrow> p1 = Exit 0" "reaped m 2 \<longrightarrow> p2 = Exit 0"
    "f2_shape (n_reaped m) p0" using assms(1,2) by (auto simp: f2_inv_def)
  let ?r = "n_reaped m"
  have r2: "?r \<le> 2" by (simp add: n_reaped_def)
  from i(8) consider (wait) "p0 = wait_loop (3 - ?r) f2_end" | (say) s c where "1 \<le> ?r" "p0 = Say (displayChildStatus s c) (wait_loop (3 - ?r) f2_end)"
    | (dead) "?r = 2" "p0 = f2_end" | (gone) "p0 = Exit 0" unfolding f2_shape_def by blast
  then show ?thesis
  proof cases
    case say
    then have "m' = m\<lparr>procs := [wait_loop (3 - ?r) f2_end, p1, p2], pout := pout m @ [(0, displayChildStatus s c)]\<rparr>" using assms(2,3) by (simp add: run_proc_def)
    then show ?thesis using i by (auto simp: f2_inv_def f2_shape_def n_reaped_def)
  next
    case dead
    then have "m' = m\<lparr>procs := [Exit 0, p1, p2], pout := pout m @ [(0, dead_line)]\<rparr>" using assms(2,3) by (simp add: run_proc_def f2_end_def)
    then show ?thesis using i dead by (auto simp: f2_inv_def f2_shape_def n_reaped_def)
  next
    case gone
    then show ?thesis using assms(2,3) by (simp add: run_proc_def)
  next
    case wait
    obtain n where n: "3 - ?r = Suc n" using r2 by (cases "3 - ?r") auto
    let ?k = "\<lambda>cpid stat. if cpid = -1 then f2_end else Say (displayChildStatus (nat stat) cpid) (wait_loop n f2_end)"
    have re: "reap 0 ?k m = Some m'" using assms(2,3) wait n by (simp add: run_proc_def)
    show ?thesis
    proof (cases "kids m 0 = []")
      case True
      then have rr: "reaped m 1" "reaped m 2" using kids_3 [OF assms(2) i(3)] by (auto split: if_splits)
      have "m' = m\<lparr>procs := [f2_end, p1, p2]\<rparr>" using re True assms(2) by (simp add: reap_def)
      then show ?thesis using i rr by (auto simp: f2_inv_def f2_shape_def n_reaped_def)
    next
      case False
      then obtain j where f: "List.find (\<lambda>j. ended (procs m ! j) \<noteq> None) (kids m 0) = Some j" using re by (cases "List.find (\<lambda>j. ended (procs m ! j) \<noteq> None) (kids m 0)") (auto simp: reap_def)
      then have j: "j \<in> set (kids m 0)" "ended (procs m ! j) \<noteq> None" by (auto simp: find_Some_iff)
      then have jj: "j = 1 \<or> j = 2" "\<not> reaped m j" using kids_3 [OF assms(2) i(3)] by (auto split: if_splits)
      have p: "pid_of m j \<noteq> -1" using i(1) by (simp add: pid_of_def)
      obtain st where m': "m' = m\<lparr>procs := [Say (displayChildStatus st (pid_of m j)) (wait_loop n f2_end), p1, p2], reaped := (reaped m)(j := True)\<rparr>"
        using re False f p assms(2) by (auto simp: reap_def)
      have e: "procs m ! j = Exit 0" using jj(1) j(2) i(4,5) assms(2) by (auto simp: sl_shape_def ended_def sleeper_def)
      have nr: "n_reaped m' = Suc ?r" using jj m' by (auto simp: n_reaped_def)
      moreover have "n = 3 - Suc ?r" using n by simp
      ultimately have "f2_shape (n_reaped m') (procs m' ! 0)" using m' unfolding f2_shape_def by auto
      then show ?thesis using i jj e assms(2) unfolding m' by (auto simp: f2_inv_def)
    qed
  qed
qed

lemma f2_step:
  assumes "f2_inv a b m" "i < length (procs m)" "run_proc i m = Some m'"
  shows "f2_inv a b m'"
proof -
  consider (one) p1 where "procs m = [createChild b (wait_loop 3 f2_end), p1]" "parents m = [0, 0]" "sl_shape 1 a p1" "\<not> reaped m 1" "\<not> reaped m 2"
    | (two) p0 p1 p2 where "procs m = [p0, p1, p2]" "parents m = [0, 0, 0]" "sl_shape 1 a p1" "sl_shape 2 b p2" "reaped m 1 \<longrightarrow> p1 = Exit 0" "reaped m 2 \<longrightarrow> p2 = Exit 0"
      "f2_shape (n_reaped m) p0" using assms(1) unfolding f2_inv_def by blast
  then show ?thesis
  proof cases
    case one
    have c: "0 \<le> pid0 m" "forks m = []" using assms(1) by (simp_all add: f2_inv_def)
    have "i = 0 \<or> i = 1" using assms(2) one(1) by auto
    then show ?thesis
    proof
      assume i: "i = 0"
      have "pid_of m 2 \<noteq> -1" "pid_of m 2 \<noteq> 0" using c(1) by (simp_all add: pid_of_def)
      then have "m' = m\<lparr>procs := [wait_loop 3 f2_end, p1, sleeper 2 b], parents := [0, 0, 0], forks := []\<rparr>"
        using assms(3) one(1,2) c i by (simp add: run_proc_def createChild_def fork_child_def numeral_2_eq_2)
      moreover have "n_reaped m = 0" using one by (simp add: n_reaped_def)
      ultimately show ?thesis using one c by (auto simp: f2_inv_def f2_shape_def sl_shape_def n_reaped_def)
    next
      assume i: "i = 1"
      then obtain p o' where "sl_shape 1 a p" "m' = m\<lparr>procs := (procs m)[i := p], pout := o'\<rparr>" using sl_step [OF _ assms(3), of 1 a] one by auto
      then show ?thesis using one c i by (auto simp: f2_inv_def)
    qed
  next
    case two
    have c: "0 \<le> pid0 m" "forks m = []" using assms(1) by (simp_all add: f2_inv_def)
    have "i = 0 \<or> i = 1 \<or> i = 2" using assms(2) two(1) by auto
    then show ?thesis
    proof (elim disjE)
      assume "i = 0"
      then show ?thesis using parent_step [OF assms(1) two(1)] assms(3) by simp
    next
      assume i: "i = 1"
      then obtain p o' where p: "sl_shape 1 a p" "p1 \<noteq> Exit 0" "m' = m\<lparr>procs := (procs m)[i := p], pout := o'\<rparr>" using sl_step [OF _ assms(3), of 1 a] two by auto
      then show ?thesis using two c i by (auto simp: f2_inv_def n_reaped_def)
    next
      assume i: "i = 2"
      then obtain p o' where p: "sl_shape 2 b p" "p2 \<noteq> Exit 0" "m' = m\<lparr>procs := (procs m)[i := p], pout := o'\<rparr>" using sl_step [OF _ assms(3), of 2 b] two by auto
      then show ?thesis using two c i by (auto simp: f2_inv_def n_reaped_def)
    qed
  qed
qed

text \<open>
  Three rounds of the loop are enough: in every run the parent is never out of rounds, and where no step is possible it has waited
  for both children and ended with status 0.
\<close>

lemma fork2c_waits:
  assumes "born (fork2c_work a b) m0" "\<not> reaped m0 1" "\<not> reaped m0 2" "(fstep ^^ Suc n) m0 m"
  shows "hd (procs m) \<noteq> Pause \<and> ((\<exists>m'. fstep m m') \<or> procs m = [Exit 0, Exit 0, Exit 0] \<and> reaped m 1 \<and> reaped m 2)"
proof -
  obtain m1 where m1: "fstep m0 m1" "(fstep ^^ n) m1 m" using relpowp_Suc_D2 [OF assms(4)] by blast
  have "pid_of m0 1 \<noteq> -1" "pid_of m0 1 \<noteq> 0" using assms(1) by (simp_all add: pid_of_def born_def)
  then have "m1 = m0\<lparr>procs := [createChild b (wait_loop 3 f2_end), sleeper 1 a], parents := [0, 0], forks := []\<rparr>"
    using m1(1) assms(1) by (auto elim!: fstepE simp: run_proc_def born_def fork_child_def fork2c_work_def f2_end_def)
  then have "f2_inv a b m1" using assms(1-3) by (simp add: f2_inv_def born_def sl_shape_def)
  then have inv: "f2_inv a b m" using m1(2)
  proof (induction n arbitrary: m)
    case (Suc n)
    then obtain m2 where "(fstep ^^ n) m1 m2" "fstep m2 m" by (auto elim: relpowp_Suc_E)
    then show ?case using Suc.IH [of m2] Suc.prems f2_step [of a b m2] by (auto elim!: fstepE)
  qed simp
  have end_sl: "p = Exit 0" if "sl_shape k tm p" "procs m ! i = p" "run_proc i m = None" for k tm p i
    using that by (auto simp: sl_shape_def sleeper_def run_proc_def)
  have w: "wait_loop (3 - r) f2_end \<noteq> Pause" if "r \<le> 2" for r :: nat using that by (cases "3 - r") auto
  have r2: "n_reaped m \<le> 2" by (simp add: n_reaped_def)
  from inv consider (one) p1 where "procs m = [createChild b (wait_loop 3 f2_end), p1]"
    | (two) p0 p1 p2 where "procs m = [p0, p1, p2]" "parents m = [0, 0, 0]" "sl_shape 1 a p1" "sl_shape 2 b p2" "f2_shape (n_reaped m) p0" unfolding f2_inv_def by blast
  then show ?thesis
  proof cases
    case one
    then have "run_proc 0 m \<noteq> None" by (simp add: run_proc_def createChild_def)
    then show ?thesis using one fstep.intros [of 0 m] by (auto simp: createChild_def)
  next
    case two
    have np: "p0 \<noteq> Pause" using two(5) w [OF r2] by (auto simp: f2_shape_def f2_end_def)
    show ?thesis
    proof (cases "\<exists>m'. fstep m m'")
      case False
      then have none: "run_proc i m = None" if "i < 3" for i using that two(1) fstep.intros [of i m] by (cases "run_proc i m") auto
      have p: "p1 = Exit 0" "p2 = Exit 0" using end_sl [OF two(3), of 1] end_sl [OF two(4), of 2] none two(1) by auto
      have "p0 \<noteq> wait_loop (3 - n_reaped m) f2_end"
      proof
        assume e: "p0 = wait_loop (3 - n_reaped m) f2_end"
        then obtain k where "p0 = Wait k" using r2 by (cases "3 - n_reaped m") auto
        then have "reap 0 k m = None" using none [of 0] two(1) by (simp add: run_proc_def)
        moreover have "List.find (\<lambda>j. ended (procs m ! j) \<noteq> None) (kids m 0) \<noteq> None" if "kids m 0 \<noteq> []"
          using that two(1) p kids_3 [OF two(1,2)] by (auto simp: find_None_iff ended_def split: if_splits)
        ultimately show False by (auto simp: reap_def split: if_splits option.splits)
      qed
      moreover have "p0 \<noteq> Say x q" for x q using none [of 0] two(1) by (auto simp: run_proc_def)
      ultimately have "n_reaped m = 2" "p0 = Exit 0" using two(5) by (auto simp: f2_shape_def f2_end_def)
      moreover have "reaped m 1 \<and> reaped m 2" using \<open>n_reaped m = 2\<close> by (cases "reaped m 1"; cases "reaped m 2") (simp_all add: n_reaped_def)
      ultimately show ?thesis using two(1) p by simp
    next
      case True
      then show ?thesis using np two(1) by simp
    qed
  qed
qed

end
