(* ===== verification/Fork_Demos.thy ===== *)
theory Fork_Demos
  imports Fork_Trees
begin

text \<open>
  More programs that fork, over the processes of \<open>Fork_Trees\<close>: \<^verbatim>\<open>fork_malloc_test.c\<close> of \<^verbatim>\<open>src/booksrc/ch10\<close>, \<^verbatim>\<open>forkbomb.c\<close>, \<^verbatim>\<open>zombie.c\<close> and
  \<^verbatim>\<open>pdf_rdr.c\<close> of \<^verbatim>\<open>src/booksrc/solutions_to_assgn/ch10\<close>, \<^verbatim>\<open>fork_printf_1.c\<close> and \<^verbatim>\<open>fork_printf_2.c\<close> of \<^verbatim>\<open>src/booksrc/A_fileio\<close> and
  \<^verbatim>\<open>fork_test.c\<close> of \<^verbatim>\<open>src/booksrc/ch14\<close>. What a process has in its memory, the buffer of stdout included, is an argument of its tree, so a
  child starts with a copy.
\<close>

definition warn :: "string \<Rightarrow> string \<Rightarrow> fsh proc \<Rightarrow> fsh proc" where
  "warn loc msg k = Act (\<lambda>s. s\<lparr>fmem := tl (fmem s)\<rparr>) (\<lambda>s.
     if fmem s \<noteq> [] \<and> \<not> hd (fmem s) then k
     else Say (Err (take 510 (''!WARNING! '' @ loc @ msg))) (case ferr s of None \<Rightarrow> k
       | Some txt \<Rightarrow> Say (Err ''  '') (Say (Err (''kernel says: '' @ txt @ [nl])) k)))"

definition says :: "io list \<Rightarrow> fsh proc \<Rightarrow> fsh proc" where
  "says l p = foldr Say l p"

text \<open>Whether the next \<^verbatim>\<open>malloc\<close> gives memory, and the result of the next system call.\<close>

definition get_mem :: "(bool \<Rightarrow> fsh proc) \<Rightarrow> fsh proc" where
  "get_mem k = Act (\<lambda>s. s\<lparr>fmem := tl (fmem s)\<rparr>) (\<lambda>s. k (fmem s = [] \<or> hd (fmem s)))"

definition sys_res :: "(int \<Rightarrow> fsh proc) \<Rightarrow> fsh proc" where
  "sys_res k = Act (\<lambda>s. s\<lparr>fres := tl (fres s)\<rparr>) (\<lambda>s. k (next_res s))"

section \<open>fork\_malloc\_test.c\<close>

text \<open>The addresses of the buffer and of the two variables are arguments, as \<^verbatim>\<open>%p\<close> prints them.\<close>

record mtest =
  a_gptr :: string
  a_loc :: string
  a_g :: string

definition WORK_ON_MEM :: "mtest \<Rightarrow> int \<Rightarrow> int \<Rightarrow> int \<Rightarrow> io list" where
  "WORK_ON_MEM a process loc g =
     (let (loc, g) = (if process = 1 then (loc + 1, g - 1) else if process = 2 then (loc - 1, g + 1) else (loc, g)) in
      [Out ('' loc='' @ show_int loc @ '', g='' @ show_int g @ [nl] @ '' &loc='' @ a_loc a @ '', &g='' @ a_g a @ [nl])])"

definition disp_few :: "mtest \<Rightarrow> string \<Rightarrow> io list" where
  "disp_few a p = [Out ('' malloc gptr='' @ a_gptr a @ [nl] @ '' '')] @ map (\<lambda>i. Out [p ! i]) [0..<16] @ [Out [nl]]"

text \<open>Without memory \<^verbatim>\<open>memset\<close> writes through NULL; after the failed \<^verbatim>\<open>fork\<close> it writes to the freed buffer.\<close>

definition fork_malloc_test :: "mtest \<Rightarrow> string list \<Rightarrow> fsh proc" where
  "fork_malloc_test a argv =
     (let show_vars = 1 < length argv; loc = 8; g = 5; memsz = 2048 in
      get_mem (\<lambda>ok.
      let go =
        says ([Out (''Init: malloc gptr='' @ (if ok then a_gptr a else ''(nil)'') @ [nl])] @
          (if show_vars then [Out (''Init: loc='' @ show_int loc @ '', g='' @ show_int g @ [nl])] else []))
        (Fork (\<lambda>r.
          let child = Pid (\<lambda>p. Say (Out ([nl] @ ''Child process, PID '' @ show_int p @ '':'' @ [nl]))
                (if \<not> ok then Exit 139
                 else says (disp_few a (replicate memsz (CHR ''c'')) @ (if show_vars then WORK_ON_MEM a 1 loc g else [])) (child_done ''Child (''))) in
          if r = -1 then fatal (place ''fork_malloc_test.c'' ''main'' 86) (''fork failed, aborting!'' @ [nl]) child
          else if r = 0 then child
          else Pid (\<lambda>p. Say (Out ([nl] @ ''Parent process, PID '' @ show_int p @ '':'' @ [nl]))
                (if \<not> ok then Exit 139
                 else says (disp_few a (replicate memsz (CHR ''p'')) @ (if show_vars then WORK_ON_MEM a 2 loc g else [])) parent_done)))) in
      if ok then go else fatal (place ''fork_malloc_test.c'' ''main'' 77) (''malloc failed!'' @ [nl]) go))"

section \<open>zombie.c\<close>

definition zombie :: "fsh proc" where
  "zombie = Fork (\<lambda>p.
     let child = Pid (\<lambda>q. Say (Out (''Child pid '' @ show_int q @ '' : p='' @ show_int p @ ''; exiting now ...'' @ [nl])) (Exit EXIT_SUCCESS)) in
     if p = -1 then fatal (place ''zombie.c'' ''main'' 65) (''fork failed'' @ [nl]) child
     else if p = 0 then child
     else Pid (\<lambda>q. Say (Out (''Parent pid '' @ show_int q @ '' : p='' @ show_int p @ ''; sleeping now for 300s withoutwait()-ing (resulting in a zombie!)..'' @ [nl]))
       (Say (Out (''Parent: sleep done, exiting. Notice how (on Linux) the zombie is now cleared!'' @ [nl])) (Exit EXIT_SUCCESS))))"

section \<open>fork\_printf\_1.c and fork\_printf\_2.c\<close>

text \<open>\<^verbatim>\<open>printf\<close> without a newline leaves its text in the buffer of stdout, which \<^verbatim>\<open>exit\<close> writes out.\<close>

definition buffered :: "string \<Rightarrow> string \<Rightarrow> (string \<Rightarrow> fsh proc) \<Rightarrow> fsh proc" where
  "buffered buf msg k = k (buf @ msg)"

definition flush_exit :: "string \<Rightarrow> fsh proc" where
  "flush_exit buf = (if buf = [] then Exit 0 else Say (Out buf) (Exit 0))"

definition fork_printf_1 :: "fsh proc" where
  "fork_printf_1 = Fork (\<lambda>_. buffered [] ''Hello, world. '' flush_exit)"

definition fork_printf_2 :: "fsh proc" where
  "fork_printf_2 = buffered [] ''Hello, world. '' (\<lambda>buf. Fork (\<lambda>_. flush_exit buf))"

section \<open>fork\_test.c\<close>

text \<open>The child waited for is the only one there is.\<close>

fun fork_rounds :: "nat \<Rightarrow> fsh proc" where
  "fork_rounds 0 = Exit EXIT_SUCCESS"
| "fork_rounds (Suc n) = Fork (\<lambda>pid.
     let child = Exit EXIT_SUCCESS in
     if pid = -1 then fatal (place ''fork_test.c'' ''main'' 37) (''fork failed! ['' @ show_int pid @ '']'' @ [nl]) child
     else if pid = 0 then child
     else Wait (\<lambda>_ _. fork_rounds n))"

definition NFORKS :: nat where "NFORKS = 60000"

definition fork_test :: "fsh proc" where
  "fork_test = fork_rounds NFORKS"

section \<open>forkbomb.c\<close>

text \<open>
  \<open>old\<close> gives the limits of the kernel before the call. \<open>awake\<close> says whether the month a parent sleeps has passed; before that the
  parent rests. The limit the call sets is the kernel's business: \<open>forks\<close> says which calls of \<^verbatim>\<open>fork\<close> fail.
\<close>

definition rlim_line :: "string \<Rightarrow> int \<Rightarrow> int \<times> int \<Rightarrow> io" where
  "rlim_line what new old = Out (what @ '' rlimit [soft,hard] new ['' @ show_int new @ '':'' @ show_int new @ ''] , old ['' @
     show_int (fst old) @ '':'' @ show_int (snd old) @ ''] (-1 = unlimited)'' @ [nl])"

definition setup_rlimits :: "(int \<times> int) \<times> (int \<times> int) \<Rightarrow> int \<Rightarrow> int \<Rightarrow> fsh proc \<Rightarrow> fsh proc" where
  "setup_rlimits old nprocs dataseg k =
     sys_res (\<lambda>r. if r = -1 then warn (place ''forkbomb.c'' ''setup_rlimits'' 57) (''prlimit(2): nprocs failed'' @ [nl]) k
     else Say (rlim_line ''NPROC'' nprocs (fst old))
       (sys_res (\<lambda>r. if r = -1 then warn (place ''forkbomb.c'' ''setup_rlimits'' 68) (''prlimit(2): nprocs failed'' @ [nl]) k
       else Say (rlim_line '' DATA'' dataseg (snd old)) k)))"

definition fb_line :: "nat \<Rightarrow> int \<Rightarrow> io list" where
  "fb_line i p = replicate (i mod 80 div 2) (Out '' '') @
     [Out (''| [i='' @ pad (CHR '' '') 6 (show_nat i) @ '', PID '' @ pad (CHR '' '') 6 (show_int p) @ '']'' @ [nl])]"

definition fb_mem :: "bool \<Rightarrow> nat \<Rightarrow> fsh proc \<Rightarrow> int \<Rightarrow> fsh proc" where
  "fb_mem awake i k cpid = get_mem (\<lambda>ok.
     if \<not> ok then Exit 139
     else if cpid \<noteq> 0 then Pid (\<lambda>p. says (fb_line i p) (if awake then k else Pause))
     else k)"

fun fb_loop :: "bool \<Rightarrow> nat \<Rightarrow> nat \<Rightarrow> fsh proc" where
  "fb_loop awake 0 i = Exit EXIT_SUCCESS"
| "fb_loop awake (Suc n) i = Fork (\<lambda>cpid.
     let go = fb_mem awake i (fb_loop awake n (Suc i)) cpid in
     if cpid < 0 then
       says (if i = 1 then [Err (''Failing immediately; pl read the comments...'' @ [nl])] else [])
       (fatal (place ''forkbomb.c'' ''main'' 111) (''fork() failed: i='' @ show_nat i @ [nl]) go)
     else go)"

definition forkbomb :: "bool \<Rightarrow> (int \<times> int) \<times> (int \<times> int) \<Rightarrow> string list \<Rightarrow> fsh proc" where
  "forkbomb awake old argv =
     (let out_usage = fork_usage (''Usage: '' @ argv ! 0 @ '' max-limit-on-tasks num ;'' @ [nl] @
           '' 1st param: set the NPROC resource limit (# tasks max) to this number'' @ [nl] @
           '' 2nd param: attempt to fork off approx '' @ [CHR 0x27] @ ''num'' @ [CHR 0x27] @ '' processes'' @ [nl]) in
      if length argv \<noteq> 3 then out_usage
      else if atoi (argv ! 1) = 0 then out_usage
      else let num = atoi (argv ! 1) in
        if num < 1 then out_usage
        else Pid (\<lambda>p. Say (Out (''--- Parent PID ['' @ show_int p @ '']'' @ [nl]))
          (setup_rlimits old num 1073741824
          (Say (Out ([nl] @ ''--- Children :: '' @ [nl])) (fb_loop awake (nat num) 1)))))"

section \<open>pdf\_rdr.c\<close>

text \<open>\<open>reader\<close> is the status with which the reader ends when \<^verbatim>\<open>execv\<close> succeeds.\<close>

definition vline :: "nat \<Rightarrow> string \<Rightarrow> io" where
  "vline line msg = Out (place ''pdf_rdr.c'' ''interpret_wait'' line @ msg)"

definition pdf_interpret_wait :: "int \<Rightarrow> nat \<Rightarrow> io list" where
  "pdf_interpret_wait chld wstatus =
     [vline 43 (''Child (PID '' @ pad7 chld @ '') status changed:'' @ [nl])] @
     (if WIFEXITED wstatus then
        let exstat = WEXITSTATUS wstatus in
        [vline 49 ('' normal termination: exit status: '' @ show_nat exstat @ [nl]),
         if exstat = 0 then vline 51 (''  child exited with success!'' @ [nl])
         else vline 53 (''  child failed; failed exit status = '' @ show_nat exstat @ [nl])]
      else []) @
     (if WIFSIGNALED wstatus then
        [vline 56 ('' abnormal termination: killer signal: '' @ show_nat (WTERMSIG wstatus)),
         if WCOREDUMP wstatus then vline 59 ('' : core dumped'' @ [nl]) else vline 61 [nl]]
      else []) @
     (if WIFSTOPPED wstatus then [vline 64 ('' stopped: stop signal: '' @ show_nat (WSTOPSIG wstatus) @ [nl])] else []) @
     (if WIFCONTINUED wstatus then [vline 67 ('' (was stopped), resumed (SIGCONT)'' @ [nl])] else [])"

definition exec_pdf_reader_app :: "int \<Rightarrow> (int \<Rightarrow> fsh proc) \<Rightarrow> fsh proc" where
  "exec_pdf_reader_app reader k =
     sys_res (\<lambda>r. if r < 0 then warn (place ''pdf_rdr.c'' ''exec_pdf_reader_app'' 75) (''execv failed'' @ [nl]) (k (-1)) else Exit reader)"

definition pdf_parent :: "fsh proc" where
  "pdf_parent = Pid (\<lambda>p. Say (Out (''Parent '' @ show_int p @ '': waiting to clear the zombie...'' @ [nl]))
     (Wait (\<lambda>cpid wstat.
       let go = says (pdf_interpret_wait cpid (nat wstat)) (Exit EXIT_SUCCESS) in
       if cpid < 0 then fatal (place ''pdf_rdr.c'' ''main'' 107) (''wait(2) failed, aborting..'' @ [nl]) go else go)))"

definition pdf_rdr :: "int \<Rightarrow> string list \<Rightarrow> fsh proc" where
  "pdf_rdr reader argv =
     (if length argv < 2 then fork_usage (''Usage: '' @ argv ! 0 @ '' {pathname_of_doc.pdf}'' @ [nl])
      else Fork (\<lambda>r.
        if r = -1 then fatal (place ''pdf_rdr.c'' ''main'' 94) (''fork failed'' @ [nl]) (Exit EXIT_FAILURE)
        else if r = 0 then
          Pid (\<lambda>p. Say (Out (''Child '' @ show_int p @ '': now exec-ing '' @ [CHR 0x27] @ ''/usr/bin/evince '' @ argv ! 1 @ [CHR 0x27, nl]))
            (exec_pdf_reader_app reader (\<lambda>e.
              if e < 0 then fatal (place ''pdf_rdr.c'' ''main'' 100) (''exec pdf function failed'' @ [nl]) pdf_parent else pdf_parent)))
        else pdf_parent))"

section \<open>The buffer is copied\<close>

text \<open>Text that was printed before the \<^verbatim>\<open>fork\<close> but not written yet comes out twice, as if it was printed after it.\<close>

lemma fork_printf_twice:
  assumes "born fork_printf_2 m0 \<or> born fork_printf_1 m0" "(fstep ^^ Suc n) m0 m" "\<not> (\<exists>m'. fstep m m')"
  shows "said 0 m = [Out ''Hello, world. ''] \<and> said 1 m = [Out ''Hello, world. '']"
proof -
  let ?k = "\<lambda>_ :: int. Say (Out ''Hello, world. '') (Exit 0) :: fsh proc"
  have "born (Fork ?k) m0" using assms(1) by (auto simp: fork_printf_1_def fork_printf_2_def buffered_def flush_exit_def)
  from pair_outputs [OF this _ _ assms(2)] show ?thesis using pair_ended [OF _ assms(3)] by fastforce
qed

section \<open>One child at a time\<close>

definition ft_inv :: "nat \<Rightarrow> fsh pm \<Rightarrow> bool" where
  "ft_inv n m = (\<exists>k p0. k \<le> n \<and> procs m = p0 # replicate k (Exit 0) \<and> parents m = replicate (Suc k) 0 \<and> forks m = [] \<and> 0 \<le> pid0 m
     \<and> (\<forall>j. 0 < j \<and> j < k \<longrightarrow> reaped m j) \<and> (\<forall>j > k. \<not> reaped m j)
     \<and> (p0 = fork_rounds (n - k) \<and> (0 < k \<longrightarrow> reaped m k) \<or> 0 < k \<and> p0 = Wait (\<lambda>_ _. fork_rounds (n - k)) \<and> \<not> reaped m k))"

lemma ft_kids:
  assumes "procs m = p0 # replicate k (Exit 0)" "parents m = replicate (Suc k) 0" "\<forall>j. 0 < j \<and> j < k \<longrightarrow> reaped m j"
  shows "kids m 0 = (if 0 < k \<and> \<not> reaped m k then [k] else [])"
proof -
  have "kids m 0 = filter (\<lambda>j. 0 < j \<and> \<not> reaped m j) ([0..<k] @ [k])" using assms(1,2) unfolding kids_def by (intro filter_cong) (auto simp: nth_Cons')
  also have "filter (\<lambda>j. 0 < j \<and> \<not> reaped m j) [0..<k] = []" using assms(3) by (auto simp: filter_empty_conv)
  ultimately show ?thesis by simp
qed

lemma ft_step:
  assumes "ft_inv n m" "i < length (procs m)" "run_proc i m = Some m'"
  shows "ft_inv n m'"
proof -
  from assms(1) obtain k p0 where k: "k \<le> n" "procs m = p0 # replicate k (Exit 0)" "parents m = replicate (Suc k) 0" "forks m = []" "0 \<le> pid0 m"
    "\<forall>j. 0 < j \<and> j < k \<longrightarrow> reaped m j" "\<forall>j > k. \<not> reaped m j"
    and p: "p0 = fork_rounds (n - k) \<and> (0 < k \<longrightarrow> reaped m k) \<or> 0 < k \<and> p0 = Wait (\<lambda>_ _. fork_rounds (n - k)) \<and> \<not> reaped m k" unfolding ft_inv_def by blast
  have i: "i = 0" using assms(2,3) k(2) by (cases i) (auto simp: run_proc_def)
  from p show ?thesis
  proof (elim disjE conjE)
    assume p0: "p0 = fork_rounds (n - k)" "0 < k \<longrightarrow> reaped m k"
    show ?thesis
    proof (cases "n - k")
      case 0
      then show ?thesis using assms(3) k(2) p0 i by (simp add: run_proc_def)
    next
      case (Suc r)
      have "pid_of m (Suc k) \<noteq> -1" "pid_of m (Suc k) \<noteq> 0" using k(5) by (simp_all add: pid_of_def)
      then have m': "m' = m\<lparr>procs := Wait (\<lambda>_ _. fork_rounds r) # replicate (Suc k) (Exit 0), parents := replicate (Suc (Suc k)) 0, forks := []\<rparr>"
        using assms(3) k p0 i Suc by (simp add: run_proc_def fork_child_def Let_def replicate_append_same)
      have "r = n - Suc k" "Suc k \<le> n" using Suc by simp_all
      moreover have "\<forall>j. 0 < j \<and> j < Suc k \<longrightarrow> reaped m j" using k(6) p0(2) by (auto simp: less_Suc_eq)
      ultimately show ?thesis unfolding ft_inv_def m' using k(5,7)
        by (intro exI [of _ "Suc k"] exI [of _ "Wait (\<lambda>_ _. fork_rounds r)"]) simp
    qed
  next
    assume p0: "0 < k" "p0 = Wait (\<lambda>_ _. fork_rounds (n - k))" "\<not> reaped m k"
    have "kids m 0 = [k]" using ft_kids [OF k(2,3,6)] p0 by simp
    moreover have "procs m ! k = Exit 0" using k(2) p0(1) by (simp add: nth_Cons')
    ultimately have m': "m' = m\<lparr>procs := fork_rounds (n - k) # replicate k (Exit 0), reaped := (reaped m)(k := True)\<rparr>"
      using assms(3) k(2) p0 i by (simp add: run_proc_def reap_def ended_def)
    then show ?thesis unfolding ft_inv_def m' using k p0(1) by (intro exI [of _ k] exI [of _ "fork_rounds (n - k)"]) auto
  qed
qed

text \<open>There is never more than one child that was not waited for, and the program stops when it has had all of them.\<close>

lemma fork_rounds_ends:
  assumes "born (fork_rounds n) m0" "\<forall>j. \<not> reaped m0 j" "(fstep ^^ s) m0 m"
  shows "length (kids m 0) \<le> 1 \<and> ((\<exists>m'. fstep m m') \<or> procs m = replicate (Suc n) (Exit 0) \<and> kids m 0 = [])"
proof -
  have "ft_inv n m" using assms(3)
  proof (induction s arbitrary: m)
    case 0
    then show ?case using assms(1,2) by (auto simp: ft_inv_def born_def)
  next
    case (Suc s)
    then obtain m1 where "(fstep ^^ s) m0 m1" "fstep m1 m" by (auto elim: relpowp_Suc_E)
    then show ?case using Suc.IH [of m1] ft_step [of n m1] by (auto elim!: fstepE)
  qed
  then obtain k p0 where k: "k \<le> n" "procs m = p0 # replicate k (Exit 0)" "parents m = replicate (Suc k) 0" "forks m = []" "\<forall>j. 0 < j \<and> j < k \<longrightarrow> reaped m j"
    and p: "p0 = fork_rounds (n - k) \<and> (0 < k \<longrightarrow> reaped m k) \<or> 0 < k \<and> p0 = Wait (\<lambda>_ _. fork_rounds (n - k)) \<and> \<not> reaped m k" unfolding ft_inv_def by blast
  note kids = ft_kids [OF k(2,3,5)]
  have go: "\<exists>m'. fstep m m'" if "run_proc 0 m = Some m'" for m' using that k(2) fstep.intros [of 0 m m'] by auto
  show ?thesis
  proof (cases "p0 = fork_rounds 0")
    case True
    then have "n - k = 0" "0 < k \<longrightarrow> reaped m k" using p by (cases "n - k"; auto)+
    then show ?thesis using True k kids by auto
  next
    case False
    have "\<exists>m'. run_proc 0 m = Some m'"
    proof (cases "p0 = fork_rounds (n - k)")
      case True
      then obtain r where "n - k = Suc r" using False by (cases "n - k") auto
      then show ?thesis using True k(2) by (simp add: run_proc_def)
    next
      case False
      then have "p0 = Wait (\<lambda>_ _. fork_rounds (n - k))" "kids m 0 = [k]" "procs m ! k = Exit 0" using p kids k(2) by (auto simp: nth_Cons')
      then show ?thesis using k(2) by (simp add: run_proc_def reap_def ended_def)
    qed
    then show ?thesis using go kids by auto
  qed
qed

section \<open>The chain of forkbomb\<close>

text \<open>A parent prints its line and rests.\<close>

primrec rests :: "fsh proc \<Rightarrow> bool" where
  "rests (Exit n) = False"
| "rests Pause = True"
| "rests (Say x p) = rests p"
| "rests (Pid k) = (\<forall>q. rests (k q))"
| "rests (Fork k) = False"
| "rests (Act f k) = False"
| "rests (Wait k) = False"

definition fb_parent :: "fsh proc \<Rightarrow> bool" where
  "fb_parent p = (rests p \<or> (\<exists>i k c. c \<noteq> 0 \<and> p = fb_mem False i k c))"

definition fb_inv :: "nat \<Rightarrow> fsh pm \<Rightarrow> bool" where
  "fb_inv n m = (\<exists>k ps q. k \<le> n \<and> procs m = ps @ [q] \<and> length ps = k \<and> (\<forall>p \<in> set ps. fb_parent p)
     \<and> (q = fb_loop False (n - k) (Suc k) \<or> (\<exists>i. q = fb_mem False i (fb_loop False (n - k) (Suc k)) 0)) \<and> fmem (shared m) = [] \<and> forks m = [] \<and> 0 \<le> pid0 m)"

lemma rests_says: "rests (says l Pause)"
  by (induction l) (simp_all add: says_def)

lemma fb_parent_step:
  assumes "fb_parent (procs m ! i)" "fmem (shared m) = []" "run_proc i m = Some m'" "i < length (procs m)"
  shows "\<exists>p o' s'. fb_parent p \<and> m' = m\<lparr>procs := (procs m)[i := p], pout := o', shared := s'\<rparr> \<and> fmem s' = []"
proof (cases "rests (procs m ! i)")
  case True
  then consider x p where "procs m ! i = Say x p" "rests p" | k where "procs m ! i = Pid k" "\<And>q. rests (k q)"
    using assms(3) by (cases "procs m ! i") (auto simp: run_proc_def)
  then show ?thesis
  proof cases
    case 1
    then show ?thesis using assms(2,3) by (intro exI [of _ p] exI [of _ "pout m @ [(i, x)]"] exI [of _ "shared m"]) (auto simp: run_proc_def fb_parent_def)
  next
    case 2
    then show ?thesis using assms(2,3) by (intro exI [of _ "k (pid_of m i)"] exI [of _ "pout m"] exI [of _ "shared m"]) (auto simp: run_proc_def fb_parent_def)
  qed
next
  case False
  then obtain j k c where c: "c \<noteq> 0" "procs m ! i = fb_mem False j k c" using assms(1) by (auto simp: fb_parent_def)
  let ?p = "Pid (\<lambda>p. says (fb_line j p) Pause) :: fsh proc"
  have "fb_parent ?p" by (simp add: fb_parent_def rests_says)
  moreover have "m' = m\<lparr>procs := (procs m)[i := ?p], pout := pout m, shared := (shared m)\<lparr>fmem := []\<rparr>\<rparr>"
    using assms(2,3) c by (simp add: run_proc_def fb_mem_def get_mem_def)
  ultimately show ?thesis by (intro exI [of _ ?p] exI [of _ "pout m"] exI [of _ "(shared m)\<lparr>fmem := []\<rparr>"]) simp
qed

lemma fb_step:
  assumes "fb_inv n m" "i < length (procs m)" "run_proc i m = Some m'"
  shows "fb_inv n m'"
proof -
  from assms(1) obtain k ps q where k: "k \<le> n" "procs m = ps @ [q]" "length ps = k" "\<forall>p \<in> set ps. fb_parent p" "fmem (shared m) = []" "forks m = []" "0 \<le> pid0 m"
    and q: "q = fb_loop False (n - k) (Suc k) \<or> (\<exists>i. q = fb_mem False i (fb_loop False (n - k) (Suc k)) 0)" unfolding fb_inv_def by blast
  show ?thesis
  proof (cases "i < k")
    case True
    then have "fb_parent (procs m ! i)" using k(2-4) by (simp add: nth_append)
    from fb_parent_step [OF this k(5) assms(3,2)] obtain p o' s' where p: "fb_parent p" "m' = m\<lparr>procs := (procs m)[i := p], pout := o', shared := s'\<rparr>" "fmem s' = []" by blast
    then have "procs m' = ps[i := p] @ [q]" using True k(2,3) by (simp add: list_update_append)
    moreover have "\<forall>x \<in> set (ps[i := p]). fb_parent x" using k(4) p(1) set_update_subset_insert [of ps i p] by blast
    ultimately show ?thesis unfolding fb_inv_def using k q p by (intro exI [of _ k] exI [of _ "ps[i := p]"] exI [of _ q]) simp
  next
    case False
    then have i: "i = k" "procs m ! i = q" using assms(2) k(2,3) by (auto simp: nth_append)
    have u: "(procs m)[k := x] = ps @ [x]" for x using k(2) k(3) [symmetric] by simp
    from q show ?thesis
    proof
      assume "\<exists>j. q = fb_mem False j (fb_loop False (n - k) (Suc k)) 0"
      then obtain j where "q = fb_mem False j (fb_loop False (n - k) (Suc k)) 0" by blast
      then have "m' = m\<lparr>procs := ps @ [fb_loop False (n - k) (Suc k)], shared := (shared m)\<lparr>fmem := []\<rparr>\<rparr>"
        using assms(3) i k(5) u by (simp add: run_proc_def fb_mem_def get_mem_def)
      then show ?thesis unfolding fb_inv_def using k by (intro exI [of _ k] exI [of _ ps] exI [of _ "fb_loop False (n - k) (Suc k)"]) simp
    next
      assume ql: "q = fb_loop False (n - k) (Suc k)"
      show ?thesis
      proof (cases "n - k")
        case 0
        then show ?thesis using assms(3) i ql by (simp add: run_proc_def)
      next
        case (Suc r)
        let ?c = "pid_of m (Suc k)" and ?f = "fb_mem False (Suc k) (fb_loop False r (Suc (Suc k)))"
        have c: "\<not> ?c < 0" "?c \<noteq> 0" using k(7) by (simp_all add: pid_of_def)
        have m': "m' = m\<lparr>procs := (ps @ [?f ?c]) @ [?f 0], parents := parents m @ [k], forks := []\<rparr>"
          using assms(3) i k(6) u ql Suc c k(2,3) by (simp add: run_proc_def fork_child_def Let_def)
        have "fb_parent (?f ?c)" using c(2) by (auto simp: fb_parent_def)
        moreover have "r = n - Suc k" "Suc k \<le> n" using Suc by simp_all
        ultimately show ?thesis unfolding fb_inv_def m' using k
          by (intro exI [of _ "Suc k"] exI [of _ "ps @ [?f ?c]"] exI [of _ "?f 0"]) auto
      qed
    qed
  qed
qed

text \<open>
  While the parents sleep each process has one child, and the bomb stops with the first process and \<open>num\<close> more: all but the last
  rest. \<open>num\<close> is the first parameter, the limit; the second is not read.
\<close>

lemma forkbomb_chain:
  assumes "born (fb_loop False n 1) m0" "fmem (shared m0) = []" "(fstep ^^ s) m0 m"
  shows "length (procs m) \<le> Suc n \<and> ((\<exists>m'. fstep m m') \<or> procs m = replicate n Pause @ [Exit 0])"
proof -
  have "fb_inv n m" using assms(3)
  proof (induction s arbitrary: m)
    case 0
    then show ?case using assms(1,2) by (auto simp: fb_inv_def born_def)
  next
    case (Suc s)
    then obtain m1 where "(fstep ^^ s) m0 m1" "fstep m1 m" by (auto elim: relpowp_Suc_E)
    then show ?case using Suc.IH [of m1] fb_step [of n m1] by (auto elim!: fstepE)
  qed
  then obtain k ps q where k: "k \<le> n" "procs m = ps @ [q]" "length ps = k" "\<forall>p \<in> set ps. fb_parent p"
    and q: "q = fb_loop False (n - k) (Suc k) \<or> (\<exists>i. q = fb_mem False i (fb_loop False (n - k) (Suc k)) 0)" unfolding fb_inv_def by blast
  have "procs m = replicate n Pause @ [Exit 0]" if "\<not> (\<exists>m'. fstep m m')"
  proof -
    have none: "run_proc i m = None" if "i < length (procs m)" for i using that \<open>\<not> (\<exists>m'. fstep m m')\<close> fstep.intros [of i m] by (cases "run_proc i m") auto
    have "run_proc k m = None" "procs m ! k = q" using none [of k] k(2,3) by (simp_all add: nth_append)
    then have "n - k = 0 \<and> q = Exit 0" using q by (cases "n - k") (auto simp: run_proc_def fb_mem_def get_mem_def)
    moreover have "ps ! i = Pause" if "i < k" for i
    proof -
      have "fb_parent (ps ! i)" "run_proc i m = None" "procs m ! i = ps ! i" using that k none [of i] by (simp_all add: nth_append)
      then show ?thesis by (cases "ps ! i") (auto simp: fb_parent_def run_proc_def fb_mem_def get_mem_def)
    qed
    then have "ps = replicate k Pause" using k(3) by (intro nth_equalityI) auto
    ultimately show ?thesis using k(1,2) by auto
  qed
  then show ?thesis using k by auto
qed

end
