(* ===== verification/Signal_Machine.thy ===== *)
theory Signal_Machine
  imports Signal_Setup
begin

text \<open>
  How signals reach a process with one thread: the part of the system that the programs of chapters 11 and 12 of the book are about.
  Code is a tree of atomic steps, so that a handler can start between any two of them; \<open>sm\<close> has the program's variables, the handlers
  that run (innermost first), the mask, the pending signals in the order of their arrival, the dispositions and the code main is in.
  A standard signal that is pending is not queued again, a realtime signal is queued with its value. \<open>exec_ev\<close> is one event: a
  signal is sent, the kernel delivers the pending signal of the smallest number that is not blocked, or the innermost code takes a
  step. The locale \<open>masked\<close> proves once, for programs whose handlers block all signals they handle, that the handlers run one
  after another. Histories of what was sent and taken are kept for the statements only.
\<close>

section \<open>Code\<close>

datatype disp = Dfl | Ign | Hdl

datatype got = Sig nat int | Timeout | Eintr

text \<open>
  \<open>Await\<close> is \<^verbatim>\<open>sigwait\<close>, or \<^verbatim>\<open>sigtimedwait\<close> when its flag is set, for a set of signals without \<^verbatim>\<open>SIGKILL\<close> and \<^verbatim>\<open>SIGSTOP\<close>; \<open>Setdisp\<close> is \<^verbatim>\<open>signal\<close>, \<open>Raise\<close> is \<^verbatim>\<open>raise\<close>, and \<open>Trap\<close> an
  instruction that the processor refuses, with the code the kernel reports: it is tried again when the handler returns. \<open>Getmask\<close> reads the mask. \<open>Susp\<close> is
  \<^verbatim>\<open>pause\<close>: it returns after a handler that ran during the call.
\<close>

datatype 's code = is_Fin: Fin | Quit int | Step "'s \<Rightarrow> 's" "'s \<Rightarrow> 's code" | is_Await: Await "nat \<Rightarrow> bool" bool "got \<Rightarrow> 's code"
  | Setdisp nat disp "'s code" | Raise nat "'s code" | Trap nat int | Getmask "(nat \<Rightarrow> bool) \<Rightarrow> 's code"
  | is_Susp: Susp "'s code"

text \<open>A C function as one step: it may end the process.\<close>

definition Do :: "('s, unit) cprog \<Rightarrow> 's code \<Rightarrow> 's code" where
  "Do p k = Step (\<lambda>s. snd (p s)) (\<lambda>s. case fst (p s) of Exited n \<Rightarrow> Quit n | _ \<Rightarrow> k)"

text \<open>A program: its handler, the mask and the flag \<^verbatim>\<open>SA_NODEFER\<close> it is installed with, and the body of main's endless loop.\<close>

record 's prg =
  hfn :: "nat \<Rightarrow> int \<Rightarrow> 's code"
  hmsk :: "nat \<Rightarrow> bool"
  nodef :: bool
  mloop :: "'s code"

datatype death = Status int | Killed nat

record 's sm =
  vars :: 's
  frames :: "('s code \<times> (nat \<Rightarrow> bool)) list"
  sblk :: "nat \<Rightarrow> bool"
  squeue :: "(nat \<times> int) list"
  disps :: "nat \<Rightarrow> disp"
  mainc :: "'s code"
  intr :: bool
  dead :: "death option"
  sent :: "(nat \<times> int) list"
  taken :: "(nat \<times> int) list"

section \<open>The kernel\<close>

abbreviation (input) SIGRTMIN :: nat where "SIGRTMIN \<equiv> 34"
abbreviation (input) SIGRTMAX :: nat where "SIGRTMAX \<equiv> 64"

text \<open>Signals 1 to 31 are the standard ones; 32 and 33 are kept by the thread library.\<close>

definition realtime :: "nat \<Rightarrow> bool" where
  "realtime sig = (32 \<le> sig)"

definition unblockable :: "nat \<Rightarrow> bool" where
  "unblockable sig = (sig = SIGKILL \<or> sig = SIGSTOP)"

text \<open>By default a process ignores \<^verbatim>\<open>SIGCHLD\<close>, \<^verbatim>\<open>SIGURG\<close>, \<^verbatim>\<open>SIGWINCH\<close>; \<^verbatim>\<open>SIGCONT\<close> and the four stop signals do not change its state.\<close>

definition harmless :: "nat \<Rightarrow> bool" where
  "harmless sig = (sig \<in> {17, 18, 19, 20, 21, 22, 23, 28})"

definition send_sig :: "nat \<Rightarrow> int \<Rightarrow> 's sm \<Rightarrow> 's sm" where
  "send_sig sig v st =
     (if disps st sig = Ign \<or> \<not> realtime sig \<and> sig \<in> fst ` set (squeue st) then st
      else st\<lparr>squeue := squeue st @ [(sig, v)], sent := sent st @ [(sig, v)]\<rparr>)"

definition next_sig :: "(nat \<Rightarrow> bool) \<Rightarrow> (nat \<times> int) list \<Rightarrow> (nat \<times> int) option" where
  "next_sig blk q = (let c = filter (\<lambda>e. \<not> blk (fst e)) q in if c = [] then None else Some (arg_min_list fst c))"

definition take_sig :: "nat \<times> int \<Rightarrow> 's sm \<Rightarrow> 's sm" where
  "take_sig e st = st\<lparr>squeue := remove1 e (squeue st), taken := taken st @ [e]\<rparr>"

text \<open>The mask while the handler of \<open>sig\<close> runs.\<close>

definition in_handler :: "'s prg \<Rightarrow> nat \<Rightarrow> (nat \<Rightarrow> bool) \<Rightarrow> nat \<Rightarrow> bool" where
  "in_handler P sig blk x = (\<not> unblockable x \<and> (blk x \<or> hmsk P x \<or> x = sig \<and> \<not> nodef P))"

definition deliver :: "'s prg \<Rightarrow> 's sm \<Rightarrow> 's sm option" where
  "deliver P st = (case next_sig (sblk st) (squeue st) of None \<Rightarrow> None
     | Some e \<Rightarrow> (let st' = take_sig e st in Some (case disps st (fst e) of
           Hdl \<Rightarrow> st'\<lparr>frames := (hfn P (fst e) (snd e), sblk st) # frames st, sblk := in_handler P (fst e) (sblk st), intr := intr st \<or> frames st = [] \<and> (is_Await (mainc st) \<or> is_Susp (mainc st))\<rparr>
         | Ign \<Rightarrow> st'
         | Dfl \<Rightarrow> if harmless (fst e) then st' else st'\<lparr>dead := Some (Killed (fst e))\<rparr>)))"

definition run_code :: "'s code \<Rightarrow> 's sm \<Rightarrow> ('s code \<times> 's sm) option" where
  "run_code c st = (case c of
      Fin \<Rightarrow> None
    | Quit n \<Rightarrow> Some (c, st\<lparr>dead := Some (Status n)\<rparr>)
    | Step f k \<Rightarrow> Some (k (vars st), st\<lparr>vars := f (vars st)\<rparr>)
    | Await ss timed k \<Rightarrow> (case next_sig (\<lambda>x. \<not> ss x \<or> unblockable x) (squeue st) of
          Some e \<Rightarrow> Some (k (Sig (fst e) (snd e)), (take_sig e st)\<lparr>intr := False\<rparr>)
        | None \<Rightarrow> if \<not> timed then None
            else if intr st then Some (k Eintr, st\<lparr>intr := False\<rparr>) else Some (k Timeout, st))
    | Setdisp sig d k \<Rightarrow> Some (k, st\<lparr>disps := (disps st)(sig := d)\<rparr>)
    | Raise sig k \<Rightarrow> Some (k, send_sig sig 0 st)
    | Trap sig v \<Rightarrow> if sblk st sig \<or> disps st sig \<noteq> Hdl then Some (c, st\<lparr>dead := Some (Killed sig)\<rparr>) else Some (c, send_sig sig v st)
    | Getmask k \<Rightarrow> Some (k (sblk st), st)
    | Susp k \<Rightarrow> if intr st then Some (k, st\<lparr>intr := False\<rparr>) else None)"

text \<open>The innermost handler runs; when it returns the mask is restored. Main runs when there is none, round after round.\<close>

definition run_top :: "'s prg \<Rightarrow> 's sm \<Rightarrow> 's sm option" where
  "run_top P st = (case frames st of
      [] \<Rightarrow> (if is_Fin (mainc st) then Some (st\<lparr>mainc := mloop P\<rparr>)
             else map_option (\<lambda>(c', st'). st'\<lparr>mainc := c'\<rparr>) (run_code (mainc st) st))
    | (c, m) # fs \<Rightarrow> (if is_Fin c then Some (st\<lparr>frames := fs, sblk := m\<rparr>)
             else map_option (\<lambda>(c', st'). st'\<lparr>frames := (c', m) # fs\<rparr>) (run_code c st)))"

datatype ev = Send nat int | Deliver | Run

definition exec_ev :: "'s prg \<Rightarrow> ev \<Rightarrow> 's sm \<Rightarrow> 's sm option" where
  "exec_ev P e st = (if dead st \<noteq> None then None else case e of
      Send sig v \<Rightarrow> Some (send_sig sig v st)
    | Deliver \<Rightarrow> deliver P st
    | Run \<Rightarrow> run_top P st)"

fun exec :: "'s prg \<Rightarrow> ev list \<Rightarrow> 's sm \<Rightarrow> 's sm option" where
  "exec P [] st = Some st"
| "exec P (e # es) st = (case exec_ev P e st of None \<Rightarrow> None | Some st' \<Rightarrow> exec P es st')"

text \<open>A process that installed its handler for the signals \<open>hs\<close> and comes to its loop.\<close>

definition sm_start :: "nat list \<Rightarrow> (nat \<Rightarrow> bool) \<Rightarrow> 's \<Rightarrow> 's sm" where
  "sm_start hs blk s = \<lparr>vars = s, frames = [], sblk = blk, squeue = [], disps = (\<lambda>x. if x \<in> set hs then Hdl else Dfl), mainc = Fin,
     intr = False, dead = None, sent = [], taken = []\<rparr>"

section \<open>Every queued signal is taken in turn\<close>

definition of_sig :: "nat \<Rightarrow> (nat \<times> int) list \<Rightarrow> (nat \<times> int) list" where
  "of_sig sig = filter (\<lambda>e. fst e = sig)"

lemma of_sig_append [simp]: "of_sig x (a @ b) = of_sig x a @ of_sig x b"
  by (simp add: of_sig_def)

lemma of_sig_single [simp]: "of_sig x [e] = (if fst e = x then [e] else [])"
  by (simp add: of_sig_def)

lemma arg_min_list_first:
  assumes "xs \<noteq> []"
  shows "\<exists>ys zs. xs = ys @ arg_min_list f xs # zs \<and> (\<forall>y \<in> set ys. f (arg_min_list f xs) < f y)"
  using assms
proof (induction f xs rule: arg_min_list.induct)
  case (2 f x y zs)
  let ?m = "arg_min_list f (y # zs)"
  from 2 obtain as bs where m: "y # zs = as @ ?m # bs" "\<forall>a \<in> set as. f ?m < f a" by blast
  show ?case
  proof (cases "f x \<le> f ?m")
    case True
    then show ?thesis by (intro exI [of _ "[]"] exI [of _ "y # zs"]) simp
  next
    case False
    then show ?thesis using m by (intro exI [of _ "x # as"] exI [of _ bs]) (auto simp: Let_def)
  qed
qed (auto intro: exI [of _ "[]"])

lemma next_sig_Some:
  assumes "next_sig blk q = Some e"
  shows "e \<in> set q" "\<not> blk (fst e)" "of_sig (fst e) q = e # of_sig (fst e) (remove1 e q)" "x \<noteq> fst e \<Longrightarrow> of_sig x (remove1 e q) = of_sig x q"
proof -
  let ?c = "filter (\<lambda>e. \<not> blk (fst e)) q"
  have c: "?c \<noteq> []" "e = arg_min_list fst ?c" using assms by (auto simp: next_sig_def Let_def split: if_splits)
  obtain ys zs where d: "?c = ys @ e # zs" "\<forall>y \<in> set ys. fst e < fst y" using arg_min_list_first [OF c(1), of fst] c(2) by auto
  then have m: "e \<in> set ?c" by simp
  then show "e \<in> set q" "\<not> blk (fst e)" by auto
  then have "of_sig (fst e) q = of_sig (fst e) ?c" unfolding of_sig_def filter_filter by (intro filter_cong) auto
  also have "\<dots> = e # of_sig (fst e) zs" using d by (auto simp: of_sig_def filter_empty_conv)
  finally have h: "of_sig (fst e) q = e # of_sig (fst e) zs" .
  have "of_sig (fst e) (remove1 e q) = remove1 e (of_sig (fst e) q)" unfolding of_sig_def by (simp add: filter_remove1)
  then show "of_sig (fst e) q = e # of_sig (fst e) (remove1 e q)" using h by simp
  show "of_sig x (remove1 e q) = of_sig x q" if "x \<noteq> fst e"
    using that unfolding of_sig_def by (simp add: filter_remove1 remove1_idem)
qed

text \<open>Of every signal number, what was accepted is what was taken, in the same order, followed by what is pending.\<close>

definition in_order :: "'s sm \<Rightarrow> bool" where
  "in_order st = (\<forall>x. of_sig x (sent st) = of_sig x (taken st) @ of_sig x (squeue st))"

lemma send_sig_in_order: "in_order st \<Longrightarrow> in_order (send_sig sig v st)"
  by (auto simp: in_order_def send_sig_def)

lemma take_sig_in_order:
  assumes "in_order st" "next_sig blk (squeue st) = Some e"
  shows "in_order (take_sig e st)"
proof -
  have "of_sig x (squeue st) = of_sig x [e] @ of_sig x (remove1 e (squeue st))" for x
    using next_sig_Some(3,4) [OF assms(2)] by (cases "x = fst e") auto
  then show ?thesis using assms(1) by (simp add: in_order_def take_sig_def del: of_sig_single)
qed

lemma in_order_cong:
  "sent st' = sent st \<Longrightarrow> taken st' = taken st \<Longrightarrow> squeue st' = squeue st \<Longrightarrow> in_order st' = in_order st"
  by (simp add: in_order_def)

lemma run_code_in_order: "in_order st \<Longrightarrow> run_code c st = Some (c', st') \<Longrightarrow> in_order st'"
  by (cases c) (auto simp: run_code_def send_sig_in_order take_sig_in_order in_order_cong [of "_\<lparr>intr := _\<rparr>"]
    in_order_cong [of "_\<lparr>dead := _\<rparr>"] in_order_cong [of "_\<lparr>vars := _\<rparr>"] in_order_cong [of "_\<lparr>disps := _\<rparr>"] split: option.splits if_splits)

lemma run_top_in_order:
  assumes "in_order st" "run_top P st = Some st'"
  shows "in_order st'"
proof -
  consider (same) "sent st' = sent st" "taken st' = taken st" "squeue st' = squeue st"
    | (code) c c' st1 where "run_code c st = Some (c', st1)" "sent st' = sent st1" "taken st' = taken st1" "squeue st' = squeue st1"
    using assms(2) by (fastforce simp: run_top_def split: list.splits if_splits)
  then show ?thesis
  proof cases
    case same
    then show ?thesis using assms(1) in_order_cong by blast
  next
    case code
    then show ?thesis using run_code_in_order [OF assms(1) code(1)] in_order_cong by blast
  qed
qed

lemma deliver_in_order:
  assumes "in_order st" "deliver P st = Some st'"
  shows "in_order st'"
proof -
  from assms(2) obtain e where e: "next_sig (sblk st) (squeue st) = Some e" by (auto simp: deliver_def split: option.splits)
  then have "sent st' = sent (take_sig e st) \<and> taken st' = taken (take_sig e st) \<and> squeue st' = squeue (take_sig e st)"
    using assms(2) by (auto simp: deliver_def Let_def split: disp.splits if_splits)
  then show ?thesis using take_sig_in_order [OF assms(1) e] by (simp add: in_order_def)
qed

lemma exec_ev_in_order: "in_order st \<Longrightarrow> exec_ev P e st = Some st' \<Longrightarrow> in_order st'"
  by (cases e) (auto simp: exec_ev_def send_sig_in_order dest: run_top_in_order deliver_in_order split: if_splits)

lemma exec_in_order: "exec P es st = Some st' \<Longrightarrow> in_order st \<Longrightarrow> in_order st'"
  by (induction es arbitrary: st) (auto dest: exec_ev_in_order split: option.splits)

lemma start_in_order: "in_order (sm_start hs blk s)"
  by (simp add: in_order_def sm_start_def of_sig_def)

text \<open>A standard signal is pending at most once.\<close>

definition once :: "'s sm \<Rightarrow> bool" where
  "once st = (\<forall>x. \<not> realtime x \<longrightarrow> length (of_sig x (squeue st)) \<le> 1)"

lemma of_sig_Nil: "of_sig x q = [] \<longleftrightarrow> x \<notin> fst ` set q"
  by (auto simp: of_sig_def filter_empty_conv)

lemma send_sig_once: "once st \<Longrightarrow> once (send_sig sig v st)"
  using of_sig_Nil [of sig "squeue st"] by (auto simp: once_def send_sig_def)

lemma length_of_sig_remove1: "length (of_sig x (remove1 e q)) \<le> length (of_sig x q)"
  by (induction q) (auto simp: of_sig_def)

lemma take_sig_once: "once st \<Longrightarrow> once (take_sig e st)"
  unfolding once_def take_sig_def by (auto intro: le_trans [OF length_of_sig_remove1])

lemma once_cong: "squeue st' = squeue st \<Longrightarrow> once st \<Longrightarrow> once st'"
  by (simp add: once_def)

lemma run_code_once: "once st \<Longrightarrow> run_code c st = Some (c', st') \<Longrightarrow> once st'"
  by (cases c) (auto simp: run_code_def send_sig_once take_sig_once intro: once_cong [of "_\<lparr>intr := _\<rparr>"]
    once_cong [of "_\<lparr>dead := _\<rparr>"] once_cong [of "_\<lparr>vars := _\<rparr>"] once_cong [of "_\<lparr>disps := _\<rparr>"] split: option.splits if_splits)

lemma exec_ev_once:
  assumes "once st" "exec_ev P e st = Some st'"
  shows "once st'"
proof (cases e)
  case (Send sig v)
  then show ?thesis using assms by (auto simp: exec_ev_def send_sig_once split: if_splits)
next
  case Deliver
  then obtain x where "next_sig (sblk st) (squeue st) = Some x" using assms(2) by (auto simp: exec_ev_def deliver_def split: if_splits option.splits)
  then have "squeue st' = squeue (take_sig x st)" using Deliver assms(2) by (auto simp: exec_ev_def deliver_def Let_def split: if_splits disp.splits)
  then show ?thesis using take_sig_once [OF assms(1)] once_cong by blast
next
  case Run
  then consider "squeue st' = squeue st" | c c' st1 where "run_code c st = Some (c', st1)" "squeue st' = squeue st1"
    using assms(2) by (fastforce simp: exec_ev_def run_top_def split: list.splits if_splits)
  then show ?thesis using assms(1) run_code_once once_cong by cases blast+
qed

lemma exec_once: "exec P es st = Some st' \<Longrightarrow> once st \<Longrightarrow> once st'"
  by (induction es arbitrary: st) (auto dest: exec_ev_once split: option.splits)

lemma start_once: "once (sm_start hs blk s)"
  by (simp add: once_def sm_start_def of_sig_def)

lemma exec_append: "exec P (xs @ ys) st = (case exec P xs st of None \<Rightarrow> None | Some st' \<Rightarrow> exec P ys st')"
  by (induction xs arbitrary: st) (auto split: option.splits)

section \<open>Programs that keep their handlers\<close>

text \<open>Code that neither ends the process nor gives up a handler.\<close>

primrec tame :: "'s code \<Rightarrow> bool" where
  "tame Fin = True"
| "tame (Quit n) = False"
| "tame (Step f k) = (\<forall>s. tame (k s))"
| "tame (Await ss timed k) = (\<forall>g. tame (k g))"
| "tame (Setdisp sig d k) = False"
| "tame (Raise sig k) = tame k"
| "tame (Trap sig v) = False"
| "tame (Getmask k) = (\<forall>m. tame (k m))"
| "tame (Susp k) = tame k"

definition returns :: "('s, unit) cprog \<Rightarrow> bool" where
  "returns p = (\<forall>s. fst (p s) = Return ())"

lemma tame_Do: "returns p \<Longrightarrow> tame (Do p k) = tame k"
  by (simp add: Do_def returns_def)

lemma tame_step:
  assumes "tame c" "run_code c st = Some (c', st')"
  shows "tame c' \<and> disps st' = disps st \<and> dead st' = dead st \<and> frames st' = frames st \<and> mainc st' = mainc st"
  using assms by (cases c) (auto simp: run_code_def send_sig_def take_sig_def split: option.splits if_splits)

text \<open>What was sent, event by event.\<close>

fun sends :: "ev list \<Rightarrow> (nat \<times> int) list" where
  "sends [] = []"
| "sends (Send x v # es) = (x, v) # sends es"
| "sends (Deliver # es) = sends es"
| "sends (Run # es) = sends es"

text \<open>Such a program dies of no signal that it handles.\<close>

locale steady =
  fixes P :: "'s prg" and hs :: "nat list"
  assumes handler_tame: "x \<in> set hs \<Longrightarrow> tame (hfn P x v)"
    and main_tame: "tame (mloop P)"
begin

definition keeps :: "'s sm \<Rightarrow> bool" where
  "keeps st = (tame (mainc st) \<and> (\<forall>(c, m) \<in> set (frames st). tame c) \<and> disps st = (\<lambda>x. if x \<in> set hs then Hdl else Dfl)
     \<and> (dead st = None \<or> (\<exists>x. dead st = Some (Killed x) \<and> x \<notin> set hs \<and> \<not> harmless x)))"

lemma keeps_run:
  assumes "keeps st" "run_top P st = Some st'"
  shows "keeps st'"
proof (cases "frames st")
  case Nil
  show ?thesis
  proof (cases "is_Fin (mainc st)")
    case True
    then show ?thesis using assms Nil main_tame by (auto simp: keeps_def run_top_def)
  next
    case False
    then obtain c' st1 where r: "run_code (mainc st) st = Some (c', st1)" "st' = st1\<lparr>mainc := c'\<rparr>" using assms(2) Nil by (auto simp: run_top_def)
    then show ?thesis using assms(1) tame_step [OF _ r(1)] by (simp add: keeps_def)
  qed
next
  case (Cons fr fs)
  obtain c m where c: "fr = (c, m)" by fastforce
  show ?thesis
  proof (cases "is_Fin c")
    case True
    then show ?thesis using assms Cons c by (auto simp: keeps_def run_top_def)
  next
    case False
    then obtain c' st1 where r: "run_code c st = Some (c', st1)" "st' = st1\<lparr>frames := (c', m) # fs\<rparr>" using assms(2) Cons c by (auto simp: run_top_def)
    then show ?thesis using assms(1) tame_step [OF _ r(1)] Cons c by (simp add: keeps_def)
  qed
qed

lemma keeps_deliver:
  assumes "keeps st" "deliver P st = Some st'" "dead st = None"
  shows "keeps st'"
proof -
  from assms(2) obtain e where e: "next_sig (sblk st) (squeue st) = Some e" by (auto simp: deliver_def split: option.splits)
  have "disps st (fst e) = (if fst e \<in> set hs then Hdl else Dfl)" using assms(1) by (simp add: keeps_def)
  then show ?thesis using assms e handler_tame by (cases "fst e \<in> set hs") (auto simp: keeps_def deliver_def take_sig_def Let_def split: if_splits)
qed

lemma keeps_ev:
  assumes "keeps st" "exec_ev P e st = Some st'"
  shows "keeps st'"
proof (cases e)
  case (Send sig v)
  then show ?thesis using assms by (auto simp: exec_ev_def send_sig_def keeps_def split: if_splits)
next
  case Deliver
  then show ?thesis using assms(2) by (intro keeps_deliver [OF assms(1)]) (auto simp: exec_ev_def split: if_splits)
next
  case Run
  then show ?thesis using assms(2) by (intro keeps_run [OF assms(1)]) (simp add: exec_ev_def split: if_splits)
qed

lemma keeps_start: "keeps (sm_start hs blk s0)"
  by (simp add: keeps_def sm_start_def)

lemma keeps_exec: "exec P es st = Some st' \<Longrightarrow> keeps st \<Longrightarrow> keeps st'"
  by (induction es arbitrary: st) (auto dest: keeps_ev split: option.splits)

lemma survives:
  assumes "exec P es (sm_start hs blk s0) = Some st"
  shows "dead st = None \<or> (\<exists>x. dead st = Some (Killed x) \<and> x \<notin> set hs \<and> \<not> harmless x)"
  using keeps_exec [OF assms keeps_start] by (auto simp: keeps_def)

end

section \<open>Handlers that cannot interrupt each other\<close>

text \<open>Code that only computes, and what it makes of the variables when it runs to its end.\<close>

primrec plain :: "'s code \<Rightarrow> bool" where
  "plain Fin = True"
| "plain (Quit n) = False"
| "plain (Step f k) = (\<forall>s. plain (k s))"
| "plain (Await ss timed k) = False"
| "plain (Setdisp sig d k) = False"
| "plain (Raise sig k) = False"
| "plain (Trap sig v) = False"
| "plain (Getmask k) = False"
| "plain (Susp k) = False"

primrec finish :: "'s code \<Rightarrow> 's \<Rightarrow> 's" where
  "finish Fin s = s"
| "finish (Quit n) s = s"
| "finish (Step f k) s = finish (k s) (f s)"
| "finish (Await ss timed k) s = s"
| "finish (Setdisp sig d k) s = s"
| "finish (Raise sig k) s = s"
| "finish (Trap sig v) s = s"
| "finish (Getmask k) s = s"
| "finish (Susp k) s = s"

text \<open>Such code runs to its end when nothing interrupts it.\<close>

lemma plain_runs:
  assumes "plain c" "dead st = None"
  shows "\<exists>n. exec P (replicate n Run) (st\<lparr>frames := (c, m) # fs\<rparr>) = Some (st\<lparr>frames := fs, sblk := m, vars := finish c (vars st)\<rparr>)"
  using assms
proof (induction c arbitrary: st)
  case Fin
  then show ?case by (intro exI [of _ 1]) (simp add: exec_ev_def run_top_def)
next
  case (Step f k)
  from Step.prems Step.IH [of "k (vars st)" "st\<lparr>vars := f (vars st)\<rparr>"] obtain n
    where "exec P (replicate n Run) (st\<lparr>vars := f (vars st), frames := (k (vars st), m) # fs\<rparr>)
      = Some (st\<lparr>vars := f (vars st), frames := fs, sblk := m, vars := finish (k (vars st)) (f (vars st))\<rparr>)" by auto
  then show ?case using Step.prems(2) by (intro exI [of _ "Suc n"]) (simp add: exec_ev_def run_top_def run_code_def)
qed simp_all

text \<open>What is left of running handlers, innermost first.\<close>

fun finish_all :: "('s code \<times> (nat \<Rightarrow> bool)) list \<Rightarrow> 's \<Rightarrow> 's" where
  "finish_all [] s = s"
| "finish_all ((c, m) # fs) s = finish_all fs (finish c s)"

lemma plain_step:
  assumes "plain c" "\<not> is_Fin c" "run_code c st = Some (c', st')"
  shows "plain c' \<and> finish c' (vars st') = finish c (vars st) \<and> st' = st\<lparr>vars := vars st'\<rparr>"
  using assms by (cases c) (auto simp: run_code_def)

text \<open>The handlers of a sequence of signals, each run to its end before the next.\<close>

definition serial_run :: "'s prg \<Rightarrow> nat list \<Rightarrow> (nat \<times> int) list \<Rightarrow> 's \<Rightarrow> 's" where
  "serial_run P hs es = fold (\<lambda>e. finish (hfn P (fst e) (snd e))) (filter (\<lambda>e. fst e \<in> set hs) es)"

definition minv :: "'s prg \<Rightarrow> nat list \<Rightarrow> 's \<Rightarrow> 's sm \<Rightarrow> bool" where
  "minv P hs s0 st = (mainc st = Fin \<and> disps st = (\<lambda>x. if x \<in> set hs then Hdl else Dfl)
     \<and> (frames st = [] \<or> (\<exists>c m. frames st = [(c, m)] \<and> plain c \<and> (\<forall>x \<in> set hs. sblk st x)))
     \<and> finish_all (frames st) (vars st) = serial_run P hs (taken st) s0)"

text \<open>
  The program handles the signals \<open>hs\<close>; its handler only computes and runs with all of them blocked, and main only waits. Then
  at most one handler runs at a time, and the variables are what the handlers make of them one after another, in the order in which
  their signals were taken.
\<close>

locale masked =
  fixes P :: "'s prg" and hs :: "nat list"
  assumes handler_plain: "x \<in> set hs \<Longrightarrow> plain (hfn P x v)"
    and handler_blocks: "x \<in> set hs \<Longrightarrow> y \<in> set hs \<Longrightarrow> hmsk P y \<or> y = x \<and> \<not> nodef P"
    and main_waits: "mloop P = Fin"
    and blockable: "x \<in> set hs \<Longrightarrow> \<not> unblockable x"
begin

lemma minv_deliver:
  assumes "minv P hs s0 st" "deliver P st = Some st'"
  shows "minv P hs s0 st'"
proof -
  from assms(2) obtain e where e: "next_sig (sblk st) (squeue st) = Some e" by (auto simp: deliver_def split: option.splits)
  have d: "disps st (fst e) = (if fst e \<in> set hs then Hdl else Dfl)" using assms(1) by (simp add: minv_def)
  show ?thesis
  proof (cases "fst e \<in> set hs")
    case True
    then have f: "frames st = []" using assms(1) next_sig_Some(2) [OF e] by (auto simp: minv_def)
    have b: "\<forall>x \<in> set hs. in_handler P (fst e) (sblk st) x" using True handler_blocks blockable by (auto simp: in_handler_def)
    have "serial_run P hs (taken st @ [e]) s0 = finish (hfn P (fst e) (snd e)) (serial_run P hs (taken st) s0)" using True by (simp add: serial_run_def)
    then show ?thesis using assms e d True f b handler_plain by (auto simp: minv_def deliver_def take_sig_def Let_def)
  next
    case False
    then have "serial_run P hs (taken st @ [e]) s0 = serial_run P hs (taken st) s0" by (simp add: serial_run_def)
    then show ?thesis using assms e d False by (auto simp: minv_def deliver_def take_sig_def Let_def split: if_splits)
  qed
qed

lemma minv_run:
  assumes "minv P hs s0 st" "run_top P st = Some st'"
  shows "minv P hs s0 st'"
proof (cases "frames st")
  case Nil
  then show ?thesis using assms main_waits by (auto simp: minv_def run_top_def)
next
  case (Cons fr fs)
  then obtain c m where c: "frames st = [(c, m)]" "plain c" "\<forall>x \<in> set hs. sblk st x" using assms(1) by (auto simp: minv_def)
  show ?thesis
  proof (cases "is_Fin c")
    case True
    then show ?thesis using assms c by (cases c) (auto simp: minv_def run_top_def)
  next
    case False
    then obtain c' st1 where r: "run_code c st = Some (c', st1)" "st' = st1\<lparr>frames := [(c', m)]\<rparr>" using assms(2) c(1) by (auto simp: run_top_def)
    obtain v where v: "st1 = st\<lparr>vars := v\<rparr>" "plain c'" "finish c' v = finish c (vars st)" using plain_step [OF c(2) False r(1)] by metis
    then show ?thesis using assms(1) c r(2) by (auto simp: minv_def)
  qed
qed

lemma minv_ev:
  assumes "minv P hs s0 st" "exec_ev P e st = Some st'"
  shows "minv P hs s0 st'"
proof (cases e)
  case (Send sig v)
  then show ?thesis using assms by (auto simp: exec_ev_def send_sig_def minv_def split: if_splits)
next
  case Deliver
  then show ?thesis using assms(2) by (intro minv_deliver [OF assms(1)]) (simp add: exec_ev_def split: if_splits)
next
  case Run
  then show ?thesis using assms(2) by (intro minv_run [OF assms(1)]) (simp add: exec_ev_def split: if_splits)
qed

lemma minv_start: "minv P hs s0 (sm_start hs blk s0)"
  by (simp add: minv_def sm_start_def serial_run_def)

lemma minv_exec: "exec P es st = Some st' \<Longrightarrow> minv P hs s0 st \<Longrightarrow> minv P hs s0 st'"
  by (induction es arbitrary: st) (auto dest: minv_ev split: option.splits)

lemma one_at_a_time:
  assumes "exec P es (sm_start hs blk s0) = Some st"
  shows "length (frames st) \<le> 1"
  using minv_exec [OF assms minv_start] by (auto simp: minv_def)

lemma serial:
  assumes "exec P es (sm_start hs blk s0) = Some st" "frames st = []"
  shows "vars st = serial_run P hs (taken st) s0"
  using minv_exec [OF assms(1) minv_start] assms(2) by (auto simp: minv_def)

text \<open>Every realtime signal that is sent is accepted.\<close>

lemma plain_tame: "plain c \<Longrightarrow> tame c"
  by (induction c) auto

lemma ev_sent:
  assumes "exec_ev P e st = Some st'" "minv P hs s0 st" "realtime x"
  shows "of_sig x (sent st') = of_sig x (sent st @ sends [e])"
proof (cases e)
  case (Send sig v)
  then show ?thesis using assms by (cases "sig = x") (auto simp: exec_ev_def send_sig_def minv_def split: if_splits)
next
  case Deliver
  then show ?thesis using assms(1) by (auto simp: exec_ev_def deliver_def take_sig_def Let_def split: if_splits option.splits disp.splits)
next
  case Run
  show ?thesis
  proof (cases "frames st")
    case Nil
    then show ?thesis using Run assms(1,2) by (auto simp: exec_ev_def run_top_def minv_def split: if_splits)
  next
    case (Cons fr fs)
    then obtain c m where c: "frames st = [(c, m)]" "plain c" using assms(2) by (auto simp: minv_def)
    have "sent st1 = sent st" if "run_code c st = Some (c', st1)" "\<not> is_Fin c" for c' st1 using plain_step [OF c(2) that(2,1)] by (metis select_convs(9) surjective update_convs(1))
    then show ?thesis using Run assms(1) c(1) by (auto simp: exec_ev_def run_top_def split: if_splits)
  qed
qed

lemma exec_sent:
  assumes "exec P es st = Some st'" "minv P hs s0 st" "realtime x"
  shows "of_sig x (sent st') = of_sig x (sent st @ sends es)"
  using assms(1,2)
proof (induction es arbitrary: st)
  case (Cons e es)
  then obtain st1 where e: "exec_ev P e st = Some st1" "exec P es st1 = Some st'" by (auto split: option.splits)
  have "of_sig x (sent st') = of_sig x (sent st1 @ sends es)" using Cons.IH [OF e(2)] minv_ev [OF Cons.prems(2) e(1)] by simp
  also have "\<dots> = of_sig x (sent st @ sends [e] @ sends es)" using ev_sent [OF e(1) Cons.prems(2) assms(3)] by simp
  finally show ?case by (cases e) simp_all
qed simp

text \<open>Once no signal is pending every one accepted has been handled, those of one number in the order they were sent.\<close>

lemma all_handled:
  assumes "exec P es (sm_start hs blk s0) = Some st" "squeue st = []"
  shows "of_sig x (taken st) = of_sig x (sent st)"
  using exec_in_order [OF assms(1) start_in_order] assms(2) by (simp add: in_order_def of_sig_def)

lemma realtime_all_handled:
  assumes "exec P es (sm_start hs blk s0) = Some st" "squeue st = []" "realtime x"
  shows "of_sig x (taken st) = of_sig x (sends es)"
  using all_handled [OF assms(1,2)] exec_sent [OF assms(1) minv_start assms(3)] by (simp add: sm_start_def)

end

sublocale masked \<subseteq> steady P hs
  by unfold_locales (simp_all add: plain_tame handler_plain main_waits)

end
