(* ===== verification/Signal_Demos.thy ===== *)
theory Signal_Demos
  imports Signal_Machine
begin

text \<open>
  Programs with signal handlers, over \<open>Signal_Machine\<close>: \<^verbatim>\<open>sig1.c\<close>, \<^verbatim>\<open>sig2.c\<close>, \<^verbatim>\<open>query_mask.c\<close> and \<^verbatim>\<open>defer_or_not.c\<close> of
  \<^verbatim>\<open>src/booksrc/ch11\<close>, \<^verbatim>\<open>rtsigs_waiter.c\<close> of \<^verbatim>\<open>src/booksrc/ch12\<close>, and \<^verbatim>\<open>donthup.c\<close>, \<^verbatim>\<open>atomic_A.c\<close> and \<^verbatim>\<open>atomic_B.c\<close> of
  \<^verbatim>\<open>src/booksrc/solutions_to_assgn/ch11\<close>. The first part of each \<^verbatim>\<open>main\<close> is a program on the state; it leaves in \<open>inst\<close> the signals
  whose handler it installed. Its endless loop and the handler are code of the signal machine. A line that is printed is one step.
\<close>

section \<open>State\<close>

record sd = bk +
  calls :: "int list"
  own_pid :: int
  inst :: "nat list"
  iter :: int
  sgcnt :: int
  sgtot :: int
  stkp :: string
  gFlag :: int

type_synonym ('x, 'a) dprog = "('x sd_scheme, 'a) cprog"

text \<open>The result of the next system call; 0 once the list is used up.\<close>

definition next_call :: "('x, int) dprog" where
  "next_call = (\<lambda>s. case calls s of [] \<Rightarrow> (Return 0, s) | r # rs \<Rightarrow> (Return r, s\<lparr>calls := rs\<rparr>))"

definition handle_sig :: "nat \<Rightarrow> string \<Rightarrow> string \<Rightarrow> ('x, unit) dprog" where
  "handle_sig sig loc msg = bnd next_call (\<lambda>r. if r < 0 then FATAL loc msg else modify (\<lambda>s. s\<lparr>inst := inst s @ [sig]\<rparr>))"

text \<open>The process after the first part of \<^verbatim>\<open>main\<close>.\<close>

definition begin_loop :: "'x sd_scheme \<Rightarrow> 'x sd_scheme sm" where
  "begin_loop s = sm_start (inst s) (\<lambda>_. False) s"

section \<open>sig1.c, sig2.c, donthup.c, query\_mask.c\<close>

text \<open>\<^verbatim>\<open>printf("Looping, iteration #%02ld ...", i++)\<close> of an \<^verbatim>\<open>unsigned long\<close>, then a second of sleep.\<close>

definition looping :: "('x, unit) dprog" where
  "looping = bnd (gets iter) (\<lambda>i.
     sq (modify (\<lambda>s. s\<lparr>iter := i64 (i + 1)\<rparr>))
     (printf (''Looping, iteration #'' @ pad (CHR ''0'') 2 (show_int i) @ '' ...'' @ [nl])))"

definition sig1 :: "'x sd_scheme prg" where
  "sig1 = \<lparr>hfn = (\<lambda>_ _. Fin), hmsk = (\<lambda>_. False), nodef = False, mloop = Do looping Fin\<rparr>"

definition wr_or_warn :: "string \<Rightarrow> string \<Rightarrow> string \<Rightarrow> ('x, unit) dprog" where
  "wr_or_warn msg loc w = bnd next_call (\<lambda>r. if r < 0 then WARN loc w else printf msg)"

definition siggy2 :: "nat \<Rightarrow> ('x, unit) dprog" where
  "siggy2 signum =
     (if signum = SIGINT then wr_or_warn (''*** siggy: handled SIGINT ***'' @ [nl]) (place ''sig2.c'' ''siggy'' 36) ''write str1 failed!''
      else if signum = SIGQUIT then wr_or_warn (''*** siggy: handled SIGQUIT ***'' @ [nl]) (place ''sig2.c'' ''siggy'' 40) ''write str2 failed!''
      else ret ())"

definition sig2_setup :: "('x, unit) dprog" where
  "sig2_setup =
     sq (handle_sig SIGINT (place ''sig2.c'' ''main'' 57) ''sigaction on SIGINT failed'')
     (handle_sig SIGQUIT (place ''sig2.c'' ''main'' 59) ''sigaction on SIGQUIT failed'')"

definition sig2 :: "'x sd_scheme prg" where
  "sig2 = \<lparr>hfn = (\<lambda>sig _. Do (siggy2 sig) Fin), hmsk = (\<lambda>_. False), nodef = False, mloop = Do looping Fin\<rparr>"

abbreviation (input) SIGHUP :: nat where "SIGHUP \<equiv> 1"

definition siggy_hup :: "nat \<Rightarrow> ('x, unit) dprog" where
  "siggy_hup signum =
     (if signum = SIGHUP then wr_or_warn (''*** siggy: handled SIGHUP ***'' @ [nl]) (place ''donthup.c'' ''siggy'' 42) ''write str0 failed!''
      else if signum = SIGINT then wr_or_warn (''*** siggy: handled SIGINT ***'' @ [nl]) (place ''donthup.c'' ''siggy'' 46) ''write str1 failed!''
      else if signum = SIGQUIT then wr_or_warn (''*** siggy: handled SIGQUIT ***'' @ [nl]) (place ''donthup.c'' ''siggy'' 50) ''write str2 failed!''
      else ret ())"

definition donthup_setup :: "('x, unit) dprog" where
  "donthup_setup =
     sq (handle_sig SIGHUP (place ''donthup.c'' ''main'' 67) ''sigaction on SIGINT failed'')
     (sq (handle_sig SIGINT (place ''donthup.c'' ''main'' 69) ''sigaction on SIGINT failed'')
     (handle_sig SIGQUIT (place ''donthup.c'' ''main'' 71) ''sigaction on SIGQUIT failed''))"

definition donthup :: "'x sd_scheme prg" where
  "donthup = \<lparr>hfn = (\<lambda>sig _. Do (siggy_hup sig) Fin), hmsk = (\<lambda>_. False), nodef = False, mloop = Do looping Fin\<rparr>"

text \<open>\<^verbatim>\<open>sigfillset\<close> leaves out the two signals of the thread library.\<close>

definition full_set :: "nat \<Rightarrow> bool" where
  "full_set x = (1 \<le> x \<and> x \<le> 64 \<and> x \<noteq> 32 \<and> x \<noteq> 33)"

definition my_handler :: "nat \<Rightarrow> 'x sd_scheme code" where
  "my_handler signum = Getmask (\<lambda>m.
     Do (bnd next_call (\<lambda>q. bnd (show_blocked_signals (if q < 0 then None else Some m)) (\<lambda>r.
          if r < 0 then FATAL (place ''query_mask.c'' ''my_handler'' 34) (''sigprocmask -query- failed'' @ [nl]) else ret ())))
     (Do (if signum = SIGINT then wr_or_warn (''*** my_handler: handled SIGINT ***'' @ [nl]) (place ''query_mask.c'' ''my_handler'' 39) ''write str1 failed!''
          else if signum = SIGQUIT then wr_or_warn (''*** my_handler: handled SIGQUIT ***'' @ [nl]) (place ''query_mask.c'' ''my_handler'' 43) ''write str2 failed!''
          else ret ()) Fin))"

definition query_mask_setup :: "('x, unit) dprog" where
  "query_mask_setup =
     sq (handle_sig SIGINT (place ''query_mask.c'' ''main'' 65) ''sigaction on SIGINT failed'')
     (handle_sig SIGQUIT (place ''query_mask.c'' ''main'' 67) ''sigaction on SIGQUIT failed'')"

definition query_mask :: "'x sd_scheme prg" where
  "query_mask = \<lparr>hfn = (\<lambda>sig _. my_handler sig), hmsk = full_set, nodef = False, mloop = Do looping Fin\<rparr>"

section \<open>defer\_or\_not.c, rtsigs\_waiter.c\<close>

text \<open>\<^verbatim>\<open>s++\<close> and \<^verbatim>\<open>t++\<close> of a \<^verbatim>\<open>volatile\<close> variable are a load and a store, and a signal can come in between.\<close>

definition count_up :: "'x sd_scheme code \<Rightarrow> 'x sd_scheme code" where
  "count_up k =
     Step id (\<lambda>s1. Step (\<lambda>s. s\<lparr>sgcnt := sgcnt s1 + 1\<rparr>) (\<lambda>_.
     Step id (\<lambda>s2. Step (\<lambda>s. s\<lparr>sgtot := sgtot s2 + 1\<rparr>) (\<lambda>_.
     Step id (\<lambda>s3. if 10 \<le> sgcnt s3 then Step (\<lambda>s. s\<lparr>sgcnt := 1\<rparr>) (\<lambda>_. k) else k)))))"

definition count_line :: "('x, unit) dprog" where
  "count_line = bnd (gets (\<lambda>s. (sgcnt s, sgtot s, stkp s))) (\<lambda>(c, t, p).
     eprintf ('' s='' @ show_int c @ '' ; total='' @ show_int t @ ''; stack '' @ p @ '' :''))"

fun beeps :: "int \<Rightarrow> nat \<Rightarrow> 'x sd_scheme code \<Rightarrow> 'x sd_scheme code" where
  "beeps c 0 k = k"
| "beeps c (Suc n) k = Do (beep c) (beeps c n k)"

definition sighdlr_line :: "nat \<Rightarrow> ('x, unit) dprog" where
  "sighdlr_line signum = eprintf ([nl] @ ''sighdlr: signal '' @ show_nat signum @ '','')"

definition defer_sighdlr :: "nat \<Rightarrow> 'x sd_scheme code" where
  "defer_sighdlr signum =
     Do (sighdlr_line signum)
     (if signum = SIGUSR1 then
        count_up (Step id (\<lambda>s4. let saved = sgcnt s4 in Do count_line (beeps (saved + 48) 5 (Do (eprintf ''*'') Fin))))
      else Fin)"

definition defer_setup :: "string list \<Rightarrow> ('x, unit) dprog" where
  "defer_setup argv =
     sq (if length argv \<noteq> 2 then
           sq (eprintf (''Usage: '' @ argv ! 0 @ '' {option}'' @ [nl] @ ''option=1 : don'' @ [CHR 0x27] @ ''t use (clear) SA_NODEFER flag (default sigaction style)'' @ [nl] @
             ''option=2 : use (set) SA_NODEFER flag (will process signal immd)'' @ [nl])) (exit_with EXIT_FAILURE)
         else ret ())
     (bnd (gets own_pid) (\<lambda>p.
      sq (printf (''PID '' @ show_int p @ '': running with the SA_NODEFER signal flag '' @ (if atoi (argv ! 1) = 2 then ''Set'' else ''Cleared [default]'') @ [nl]))
      (sq (handle_sig SIGUSR1 (place ''defer_or_not.c'' ''main'' 109) (''sigaction failed'' @ [nl]))
      (printf (''Process awaiting signals ...'' @ [nl])))))"

definition defer_or_not :: "string list \<Rightarrow> 'x sd_scheme prg" where
  "defer_or_not argv = \<lparr>hfn = (\<lambda>sig _. defer_sighdlr sig), hmsk = (\<lambda>_. False), nodef = (atoi (argv ! 1) = 2), mloop = Fin\<rparr>"

definition rt_signals :: "nat list" where
  "rt_signals = [SIGRTMAX - 5, SIGRTMIN + 5, SIGRTMAX]"

definition rt_sighdlr :: "nat \<Rightarrow> 'x sd_scheme code" where
  "rt_sighdlr signum =
     Do (sighdlr_line signum)
     (if signum \<in> set rt_signals then count_up (Do count_line (Do (eprintf ''*'') Fin)) else Fin)"

definition rtsigs_setup :: "('x, unit) dprog" where
  "rtsigs_setup =
     sq (printf (''Trapping the three realtime signals'' @ [nl]))
     (sq (handle_sig (SIGRTMAX - 5) (place ''rtsigs_waiter.c'' ''main'' 97) (''sigaction SIGRTMAX-5 failed'' @ [nl]))
     (sq (handle_sig (SIGRTMIN + 5) (place ''rtsigs_waiter.c'' ''main'' 99) (''sigaction SIGRTMIN+5 failed'' @ [nl]))
     (sq (handle_sig SIGRTMAX (place ''rtsigs_waiter.c'' ''main'' 101) (''sigaction SIGRTMAX failed'' @ [nl]))
     (printf (''Process awaiting signals ...'' @ [nl])))))"

definition rtsigs_waiter :: "'x sd_scheme prg" where
  "rtsigs_waiter = \<lparr>hfn = (\<lambda>sig _. rt_sighdlr sig), hmsk = full_set, nodef = False, mloop = Fin\<rparr>"

section \<open>atomic\_A.c and atomic\_B.c\<close>

text \<open>What A does to the process B: it probes it, works, and sends \<^verbatim>\<open>SIGUSR1\<close>.\<close>

definition atomic_A :: "string list \<Rightarrow> ('x, nat list) dprog" where
  "atomic_A argv =
     sq (if length argv \<noteq> 3 then sq (eprintf (''Usage: '' @ argv ! 0 @ '' char-to-emit PID-of-process-atomicB'' @ [nl])) (exit_with EXIT_FAILURE) else ret ())
     (sq (if 1 < length (argv ! 1) then
            sq (eprintf (''Usage: '' @ argv ! 0 @ '' char-to-emit'' @ [nl] @ '' Specify ONLY ONE character please...'' @ [nl])) (exit_with EXIT_FAILURE)
          else ret ())
     (let processB = atoi (argv ! 2) in
      sq (bnd next_call (\<lambda>r. if r < 0 then FATAL (place ''atomic_A.c'' ''main'' 62) (''kill: PID '' @ show_int processB @ '' is invalid or perm issue, aborting...'' @ [nl]) else ret ()))
      (sq (DELAY_LOOP (if argv ! 1 = [] then 0 else int (of_char (argv ! 1 ! 0))) 220)
      (bnd next_call (\<lambda>r. if r < 0 then sq (FATAL (place ''atomic_A.c'' ''main'' 68) (''kill: sending SIGUSR1 to process B failed'' @ [nl])) (ret []) else ret [SIGUSR1])))))"

definition handle_sigs :: "'x sd_scheme code" where
  "handle_sigs = Step (\<lambda>s. s\<lparr>gFlag := 1\<rparr>) (\<lambda>_. Fin)"

definition show_flag :: "('x, unit) dprog" where
  "show_flag = bnd (gets gFlag) (\<lambda>f. printf ('' *'' @ show_int f @ ''* ''))"

definition atomic_B_setup :: "string list \<Rightarrow> ('x, unit) dprog" where
  "atomic_B_setup argv =
     sq (handle_sig SIGUSR1 (place ''atomic_B.c'' ''main'' 56) ''sigaction on SIGUSR1 failed'')
     (bnd (gets own_pid) (\<lambda>p. printf (argv ! 0 @ '':'' @ show_int p @ '' trapped SIGUSR1, blocking now ...'' @ [nl])))"

definition atomic_B :: "'x sd_scheme prg" where
  "atomic_B = \<lparr>hfn = (\<lambda>_ _. handle_sigs), hmsk = (\<lambda>_. False), nodef = False, mloop = Do show_flag Fin\<rparr>"

section \<open>Lemmas\<close>

lemma run_next_call [prog_simps]: "next_call s = (Return (if calls s = [] then 0 else hd (calls s)), s\<lparr>calls := tl (calls s)\<rparr>)"
  by (cases "calls s") (simp_all add: next_call_def)

lemma returns_simps [simp]: "returns (printf m)" "returns (eprintf m)" "returns (beep c)" "returns (ret ())" "returns (modify f)"
  by (simp_all add: returns_def beep_def prog_simps)

lemma returns_WARN [simp]: "returns (WARN loc w)"
  unfolding returns_def using WARN_run by (metis fst_conv)

lemma returns_wr [simp]: "returns (wr_or_warn msg loc w)"
  by (simp add: wr_or_warn_def returns_def prog_eval run_next_call run_printf returns_WARN [unfolded returns_def, rule_format])

lemma returns_lines [simp]: "returns looping" "returns (sighdlr_line n)" "returns count_line" "returns show_flag"
  by (simp_all add: looping_def sighdlr_line_def count_line_def show_flag_def returns_def prog_simps split: prod.splits)

lemma plain_Do: "returns p \<Longrightarrow> plain (Do p k) = plain k"
  by (simp add: Do_def returns_def)

lemma finish_Do: "returns p \<Longrightarrow> finish (Do p k) s = finish k (snd (p s))"
  by (simp add: Do_def returns_def)

text \<open>Only \<open>count_up\<close> changes the counters.\<close>

lemma tot_lines [simp]: "sgtot (snd (printf m s)) = sgtot s" "sgtot (snd (eprintf m s)) = sgtot s" "sgtot (snd (beep c s)) = sgtot s"
  "sgtot (snd (sighdlr_line n s)) = sgtot s" "sgtot (snd (count_line s)) = sgtot s"
  by (simp_all add: beep_def sighdlr_line_def count_line_def prog_simps split: prod.splits)

lemma beeps_plain: "plain (beeps c n k) = plain k"
  by (induction n) (simp_all add: plain_Do)

lemma beeps_total: "(\<And>s. sgtot (finish k s) = sgtot s) \<Longrightarrow> sgtot (finish (beeps c n k) s) = sgtot s"
  by (induction n arbitrary: s) (simp_all add: finish_Do)

lemma defer_sighdlr_plain: "plain (defer_sighdlr sig)"
  by (simp add: defer_sighdlr_def count_up_def plain_Do beeps_plain Let_def)

lemma defer_sighdlr_total: "sgtot (finish (defer_sighdlr sig) s) = sgtot s + of_bool (sig = SIGUSR1)"
  by (simp add: defer_sighdlr_def count_up_def finish_Do beeps_total Let_def)

lemma rt_sighdlr_plain: "plain (rt_sighdlr sig)"
  by (simp add: rt_sighdlr_def count_up_def plain_Do)

lemma rt_sighdlr_total: "sgtot (finish (rt_sighdlr sig) s) = sgtot s + of_bool (sig \<in> set rt_signals)"
  by (simp add: rt_sighdlr_def count_up_def finish_Do)

lemma defer_masked: "atoi (argv ! 1) \<noteq> 2 \<Longrightarrow> masked (defer_or_not argv) [SIGUSR1]"
  by unfold_locales (simp_all add: defer_or_not_def defer_sighdlr_plain unblockable_def)

interpretation rt: masked rtsigs_waiter rt_signals
  by unfold_locales (auto simp: rtsigs_waiter_def rt_sighdlr_plain rt_signals_def full_set_def unblockable_def)

interpretation s2: steady sig2 "[SIGINT, SIGQUIT]"
  by unfold_locales (auto simp: sig2_def siggy2_def tame_Do)

interpretation dh: steady donthup "[SIGHUP, SIGINT, SIGQUIT]"
  by unfold_locales (auto simp: donthup_def siggy_hup_def tame_Do)

interpretation ab: steady atomic_B "[SIGUSR1]"
  by unfold_locales (auto simp: atomic_B_def handle_sigs_def tame_Do)

section \<open>What the handlers do\<close>

text \<open>\<^verbatim>\<open>donthup\<close> installs its handler for \<^verbatim>\<open>SIGHUP\<close>, \<^verbatim>\<open>SIGINT\<close> and \<^verbatim>\<open>SIGQUIT\<close> and dies of none of them.\<close>

lemma donthup_survives:
  assumes "calls s = []" "inst s = []"
  shows "\<exists>s'. donthup_setup s = (Return (), s') \<and> (\<forall>es st. exec donthup es (begin_loop s') = Some st \<longrightarrow>
    dead st = None \<or> (\<exists>x. dead st = Some (Killed x) \<and> x \<notin> {SIGHUP, SIGINT, SIGQUIT}))"
proof -
  let ?s' = "s\<lparr>inst := [SIGHUP, SIGINT, SIGQUIT]\<rparr>"
  have "donthup_setup s = (Return (), ?s')" using assms by (simp add: donthup_setup_def handle_sig_def prog_eval run_next_call)
  moreover have "dead st = None \<or> (\<exists>x. dead st = Some (Killed x) \<and> x \<notin> {SIGHUP, SIGINT, SIGQUIT})"
    if "exec donthup es (begin_loop ?s') = Some st" for es st
    using dh.survives [of es "\<lambda>_. False" ?s' st] that by (auto simp: begin_loop_def)
  ultimately show ?thesis by blast
qed

text \<open>While the handler of \<^verbatim>\<open>query_mask\<close> runs every signal is blocked that can be.\<close>

lemma query_mask_blocks:
  "in_handler query_mask sig blk x \<longleftrightarrow> \<not> unblockable x \<and> (blk x \<or> x = sig \<or> 1 \<le> x \<and> x \<le> 64 \<and> x \<noteq> 32 \<and> x \<noteq> 33)"
  by (auto simp: in_handler_def query_mask_def full_set_def)

lemma fold_total:
  assumes "\<And>e s. sgtot (g e s) = sgtot s + of_bool (Q e)"
  shows "sgtot (fold g es s) = sgtot s + int (length (filter Q es))"
  by (induction es arbitrary: s) (simp_all add: assms)

text \<open>Without \<^verbatim>\<open>SA_NODEFER\<close> the handlers do not nest and the total counts every signal that was delivered.\<close>

lemma defer_total:
  assumes "atoi (argv ! 1) \<noteq> 2" "exec (defer_or_not argv) es (sm_start [SIGUSR1] blk s) = Some st"
  shows "length (frames st) \<le> 1 \<and> (frames st = [] \<longrightarrow> sgtot (vars st) = sgtot s + int (length (of_sig SIGUSR1 (taken st))))
    \<and> length (of_sig SIGUSR1 (squeue st)) \<le> 1"
proof (intro conjI impI)
  show "length (frames st) \<le> 1" by (rule masked.one_at_a_time [OF defer_masked [OF assms(1)] assms(2)])
  show "length (of_sig SIGUSR1 (squeue st)) \<le> 1" using exec_once [OF assms(2) start_once] by (simp add: once_def realtime_def)
  assume "frames st = []"
  then have "vars st = serial_run (defer_or_not argv) [SIGUSR1] (taken st) s" by (rule masked.serial [OF defer_masked [OF assms(1)] assms(2)])
  then show "sgtot (vars st) = sgtot s + int (length (of_sig SIGUSR1 (taken st)))"
    by (simp add: serial_run_def defer_or_not_def of_sig_def fold_total [where Q = "\<lambda>e. fst e = SIGUSR1", OF defer_sighdlr_total])
qed

text \<open>
  With \<^verbatim>\<open>SA_NODEFER\<close> handlers nest as deep as signals come, and a signal that comes between the load and the store of \<^verbatim>\<open>t++\<close> is lost from
  the total: here two signals are handled and the total is one.
\<close>

lemma nodefer_nests:
  assumes "atoi (argv ! 1) = 2"
  shows "\<exists>es st. exec (defer_or_not argv) es (sm_start [SIGUSR1] (\<lambda>_. False) s) = Some st \<and> length (frames st) = n
    \<and> \<not> sblk st SIGUSR1 \<and> squeue st = [] \<and> dead st = None \<and> disps st SIGUSR1 = Hdl"
proof (induction n)
  case 0
  then show ?case by (intro exI [of _ "[]"]) (simp add: sm_start_def)
next
  case (Suc n)
  then obtain es st where st: "exec (defer_or_not argv) es (sm_start [SIGUSR1] (\<lambda>_. False) s) = Some st" "length (frames st) = n"
    "\<not> sblk st SIGUSR1" "squeue st = []" "dead st = None" "disps st SIGUSR1 = Hdl" by blast
  have "\<exists>st'. exec (defer_or_not argv) [Send SIGUSR1 0, Deliver] st = Some st' \<and> length (frames st') = Suc n \<and> \<not> sblk st' SIGUSR1
    \<and> squeue st' = [] \<and> dead st' = None \<and> disps st' SIGUSR1 = Hdl"
    using st assms by (simp add: exec_ev_def send_sig_def deliver_def next_sig_def take_sig_def in_handler_def defer_or_not_def)
  then show ?case using st(1) by (metis (no_types, lifting) exec_append option.simps(5))
qed

lemmas sig_eval = exec_ev_def send_sig_def deliver_def next_sig_def take_sig_def run_top_def run_code_def sm_start_def Do_def

lemma nodefer_loses:
  assumes "atoi (argv ! 1) = 2" "sgcnt s = 0" "sgtot s = 0"
  shows "\<exists>es st. exec (defer_or_not argv) es (sm_start [SIGUSR1] (\<lambda>_. False) s) = Some st \<and> frames st = [] \<and> length (of_sig SIGUSR1 (taken st)) = 2
    \<and> sgtot (vars st) = 1"
proof -
  let ?es = "[Send SIGUSR1 0, Deliver, Run, Run, Run, Run, Send SIGUSR1 0, Deliver] @ replicate 26 Run"
  have "\<exists>st. exec (defer_or_not argv) ?es (sm_start [SIGUSR1] (\<lambda>_. False) s) = Some st \<and> frames st = [] \<and> length (of_sig SIGUSR1 (taken st)) = 2
    \<and> sgtot (vars st) = 1"
    using assms by (simp add: sig_eval defer_or_not_def in_handler_def unblockable_def defer_sighdlr_def count_up_def numeral_eq_Suc sighdlr_line_def count_line_def
      beep_def prog_simps of_sig_def)
  then show ?thesis by blast
qed

text \<open>A realtime signal is queued, so none is lost: once all are handled the total has every one of the three signals that was sent.\<close>

lemma length_rt: "length (filter (\<lambda>e. fst e \<in> set rt_signals) es) = length (of_sig 59 es) + length (of_sig 39 es) + length (of_sig 64 es)"
  by (induction es) (auto simp: of_sig_def rt_signals_def)

lemma rtsigs_none_lost:
  assumes "exec rtsigs_waiter es (sm_start rt_signals blk s) = Some st" "frames st = []" "squeue st = []"
  shows "sgtot (vars st) = sgtot s + int (length (filter (\<lambda>e. fst e \<in> set rt_signals) (sends es)))"
proof -
  have "sgtot (vars st) = sgtot s + int (length (filter (\<lambda>e. fst e \<in> set rt_signals) (taken st)))"
    unfolding rt.serial [OF assms(1,2)]
    by (simp add: serial_run_def rtsigs_waiter_def fold_total [where Q = "\<lambda>e. fst e \<in> set rt_signals", OF rt_sighdlr_total])
  moreover have "of_sig x (taken st) = of_sig x (sends es)" if "realtime x" for x by (rule rt.realtime_all_handled [OF assms(1,3) that])
  ultimately show ?thesis unfolding length_rt by (simp add: realtime_def)
qed

end
