(* ===== verification/Signal_Waits.thy ===== *)
theory Signal_Waits
  imports Signal_Demos
begin

text \<open>
  More programs over \<open>Signal_Machine\<close>: \<^verbatim>\<open>sigwt.c\<close>, which waits for signals with \<^verbatim>\<open>sigwait\<close>, and \<^verbatim>\<open>sigtmwtinfo.c\<close> with
  \<^verbatim>\<open>sigtimedwait\<close>; \<^verbatim>\<open>sigq_sender.c\<close> and \<^verbatim>\<open>sigq_recv.c\<close>, a producer and a consumer of data carried by a realtime signal;
  \<^verbatim>\<open>sleeping_beauty.c\<close>, whose sleep is interrupted; and \<^verbatim>\<open>murder.c\<close>, which kills every process up to itself.
\<close>

section \<open>State\<close>

text \<open>
  \<open>blk0\<close> is the mask of the process, \<open>faddr\<close> what \<^verbatim>\<open>%p\<close> prints for the address of a fault, \<open>siginfo\<close> the sender's process and user
  and the value that come with a queued signal, and \<open>junk\<close> the value of a variable that was not written.
\<close>

record sw = sd +
  blk0 :: "nat \<Rightarrow> bool"
  faddr :: string
  siginfo :: "int \<Rightarrow> int \<times> int \<times> int"
  junk :: int
  data_recvd :: int
  r_timestamp :: int
  r_signum :: int
  r_pid :: int
  r_uid :: int
  r_data :: int

definition Call :: "(int \<Rightarrow> sw code) \<Rightarrow> sw code" where
  "Call k = Step (\<lambda>s. snd (next_call s)) (\<lambda>s. case fst (next_call s) of Return r \<Rightarrow> k r | _ \<Rightarrow> Fin)"

text \<open>\<^verbatim>\<open>sigprocmask(SIG_BLOCK, &set, 0)\<close> and the query that follows it.\<close>

definition block_set :: "string \<Rightarrow> nat \<Rightarrow> nat \<Rightarrow> (nat \<Rightarrow> bool) \<Rightarrow> (sw, unit) cprog" where
  "block_set file line1 line2 ss =
     sq (bnd next_call (\<lambda>r. if r < 0 then FATAL (place file ''main'' line1) (''sigprocmask -to block- failed'' @ [nl])
          else modify (\<lambda>s. s\<lparr>blk0 := (\<lambda>x. blk0 s x \<or> ss x \<and> \<not> unblockable x)\<rparr>)))
     (bnd next_call (\<lambda>q. bnd (gets blk0) (\<lambda>m. bnd (show_blocked_signals (if q < 0 then None else Some m)) (\<lambda>r.
       if r < 0 then WARN (place file ''main'' line2) (''sigprocmask -query- failed'' @ [nl]) else ret ()))))"

definition begin_wait :: "sw \<Rightarrow> sw sm" where
  "begin_wait s = sm_start (inst s) (blk0 s) s"

definition received :: "int \<Rightarrow> string" where
  "received sig = ''Received signal# '' @ pad (CHR '' '') 2 (show_int sig) @ [nl]"

section \<open>sigwt.c\<close>

definition siggy_wt :: "nat \<Rightarrow> (sw, unit) cprog" where
  "siggy_wt signum =
     (if signum = SIGFPE then wr_or_warn (''*** siggy: handled SIGFPE (8) ***'' @ [nl]) (place ''sigwt.c'' ''siggy'' 39) ''write str1 failed!''
      else if signum = SIGSEGV then wr_or_warn (''*** siggy: handled SIGSEGV (11) ***'' @ [nl]) (place ''sigwt.c'' ''siggy'' 43) ''write str2 failed!''
      else ret ())"

definition sigwt_set :: "string list \<Rightarrow> nat \<Rightarrow> bool" where
  "sigwt_set argv x = (full_set x \<and> \<not> (atoi (argv ! 1) = 1 \<and> (x = SIGFPE \<or> x = SIGSEGV)))"

definition sigwt_setup :: "string list \<Rightarrow> (sw, unit) cprog" where
  "sigwt_setup argv =
     sq (if length argv \<noteq> 2 \<or> atoi (argv ! 1) \<noteq> 0 \<and> atoi (argv ! 1) \<noteq> 1 then
           sq (eprintf (''Usage: '' @ argv ! 0 @ '' 0|1'' @ [nl] @ '' 0 => block All signals and sigwait for them'' @ [nl] @
             '' 1 => block all signals except the SIGFPE and SIGSEGV, and sigwait'' @ [nl] @
             ''      (further, for case 1, we setup an async handler for the SIGFPE, not the SIGSEGV)'' @ [nl])) (exit_with EXIT_FAILURE)
         else ret ())
     (sq (if atoi (argv ! 1) = 1 then
            sq (printf (argv ! 0 @ '': removing SIGFPE and SIGSEGV from the signal mask...'' @ [nl]))
            (sq (handle_sig SIGFPE (place ''sigwt.c'' ''main'' 84) ''sigaction on SIGFPE failed'')
            (printf (argv ! 0 @ '': all signals except SIGFPE and SIGSEGV blocked'' @ [nl])))
          else printf (argv ! 0 @ '': All signals blocked (and only SIGFPE caught w/ sigaction)'' @ [nl]))
     (sq (block_set ''sigwt.c'' 94 96 (sigwt_set argv))
     (printf (argv ! 0 @ '': waiting upon signals now ...'' @ [nl]))))"

text \<open>\<^verbatim>\<open>sigwait\<close> with a good set waits until it has a signal, whatever handlers run in between.\<close>

definition sigwt :: "string list \<Rightarrow> sw prg" where
  "sigwt argv = \<lparr>hfn = (\<lambda>sig _. Do (siggy_wt sig) Fin), hmsk = (\<lambda>_. False), nodef = False,
     mloop = Await (sigwt_set argv) False (\<lambda>g. case g of Sig x v \<Rightarrow> Do (printf (received (int x))) Fin | _ \<Rightarrow> Fin)\<rparr>"

section \<open>sigtmwtinfo.c\<close>

text \<open>\<^verbatim>\<open>SEGV_MAPERR\<close> is 1, \<^verbatim>\<open>SEGV_ACCERR\<close> 2. Its line of dashes has 19 and 27 of them, the last one 60.\<close>

definition fatal_lines :: "nat \<Rightarrow> int \<Rightarrow> (sw, unit) cprog" where
  "fatal_lines signum si_code =
     sq (eprintf (''sigtmwtinfo:'' @ [nl] @ replicate 19 (CHR ''-'') @ '' FATAL signal '' @ replicate 27 (CHR ''-'') @ [nl]))
     (sq (eprintf ('' *** FATAL signal '' @ show_nat signum @ '' :: '' @ [nl]))
     (bnd (gets faddr) (\<lambda>a.
      sq (eprintf ('' Faulting insn/memory address: '' @ a @ [nl]))
      (sq (eprintf '' Origin: '')
      (sq (if si_code = 1 then eprintf (''SEGV_MAPERR : Address not mapped to object.'' @ [nl])
           else if si_code = 2 then eprintf (''SEGV_ACCERR : Invalid permissions for mapped object.'' @ [nl]) else ret ())
      (sq (eprintf (''sigtmwtinfo: Aborting ...'' @ [nl]))
      (eprintf (replicate 60 (CHR ''-'') @ [nl]))))))))"

definition tw_fatal :: "nat \<Rightarrow> string \<Rightarrow> sw code \<Rightarrow> sw code" where
  "tw_fatal line msg k = Do (FATAL (place ''sigtmwtinfo.c'' ''fatal_sig_handler'' line) msg) k"

definition tw_handler :: "nat \<Rightarrow> int \<Rightarrow> sw code" where
  "tw_handler signum si_code =
     (if signum = SIGSEGV then
        Do (fatal_lines signum si_code)
        (let again = Call (\<lambda>r. if r \<noteq> 0 then tw_fatal 71 ''raise SIGSEGV failed'' Fin else Raise SIGSEGV Fin) in
         Call (\<lambda>r. if r = -1 then tw_fatal 69 ''signal -reverting SIGSEGV to default- failed'' again else Setdisp SIGSEGV Dfl again))
      else Fin)"

definition tw_set :: "nat \<Rightarrow> bool" where
  "tw_set x = (full_set x \<and> x \<noteq> SIGFPE \<and> x \<noteq> SIGSEGV)"

definition tw_setup :: "string list \<Rightarrow> (sw, unit) cprog" where
  "tw_setup argv =
     sq (if length argv \<noteq> 2 then
           sq (eprintf (''Usage: '' @ argv ! 0 @ '' 0|1'' @ [nl] @ '' 0 => no segfault bug'' @ [nl] @ '' 1 => segfault bug present'' @ [nl])) (exit_with EXIT_FAILURE)
         else ret ())
     (sq (printf (argv ! 0 @ '': removing SIGFPE and SIGSEGV from the signal mask...'' @ [nl]))
     (sq (handle_sig SIGSEGV (place ''sigtmwtinfo.c'' ''main'' 117) ''sigaction on SIGSEGV failed'')
     (sq (handle_sig SIGFPE (place ''sigtmwtinfo.c'' ''main'' 119) ''sigaction on SIGFPE failed'')
     (sq (printf (argv ! 0 @ '': All signals blocked (except that SIGSEGV and SIGFPE caught w/ sigaction)'' @ [nl]))
     (sq (block_set ''sigtmwtinfo.c'' 127 129 tw_set)
     (printf (argv ! 0 @ '': waiting upon signals now (bugginess setting is '' @ (if atoi (argv ! 1) = 1 then ''Y'' else ''N'') @ '')...'' @ [nl])))))))"

text \<open>
  \<^verbatim>\<open>sigtimedwait\<close> fails with \<^verbatim>\<open>EAGAIN\<close> when the time is over and with \<^verbatim>\<open>EINTR\<close> when a handler ran; \<^verbatim>\<open>buggy\<close> writes through a NULL
  pointer.
\<close>

definition tw_body :: "string list \<Rightarrow> got \<Rightarrow> sw code" where
  "tw_body argv g = (case g of
      Sig x v \<Rightarrow> Do (printf (received (int x))) Fin
    | Timeout \<Rightarrow> Do (printf (''<timeout>! retrying ...'' @ [nl])) (if atoi (argv ! 1) = 1 then Trap SIGSEGV 1 else Fin)
    | Eintr \<Rightarrow> Do (FATAL (place ''sigtmwtinfo.c'' ''main'' 143) (''sigtimedwait failed'' @ [nl])) (Do (printf (received (-1))) Fin))"

definition sigtmwtinfo :: "string list \<Rightarrow> sw prg" where
  "sigtmwtinfo argv = \<lparr>hfn = tw_handler, hmsk = (\<lambda>_. False), nodef = False, mloop = Await tw_set True (tw_body argv)\<rparr>"

section \<open>sigq\_sender.c and sigq\_recv.c\<close>

abbreviation (input) SIG_COMM :: nat where "SIG_COMM \<equiv> SIGRTMIN"

text \<open>The signals with their values that the sender queues for the target.\<close>

definition send_peer :: "nat \<Rightarrow> int \<Rightarrow> (sw, int \<times> (nat \<times> int) list) cprog" where
  "send_peer sig val =
     bnd next_call (\<lambda>r. if r < 0 then ret (-1, [])
     else bnd next_call (\<lambda>r. if r = -1 then ret (-2, []) else ret (0, [(sig, val)])))"

definition sigq_sender :: "string list \<Rightarrow> (sw, (nat \<times> int) list) cprog" where
  "sigq_sender argv =
     sq (if length argv \<noteq> 3 then sq (eprintf (''Usage: '' @ argv ! 0 @ '' pid-to-send-to value-to-send[int]'' @ [nl])) (exit_with 1) else ret ())
     (bnd (send_peer SIG_COMM (atoi (argv ! 2))) (\<lambda>(r, es).
      sq (if r = -1 then FATAL (place ''sigq_sender.c'' ''main'' 53) (''Target PID invalid or no permission'' @ [nl]) else ret ())
      (sq (if r = -1 \<or> r = -2 then FATAL (place ''sigq_sender.c'' ''main'' 54) (''sigqueue failed'' @ [nl]) else ret ())
      (bnd (gets own_pid) (\<lambda>p.
       sq (printf (''Producer ['' @ show_int p @ '']: sent signal '' @ show_nat SIG_COMM @ '' to PID '' @ show_int (fst (strtol10 (argv ! 1))) @
         '' with data item '' @ show_int (atoi (argv ! 2)) @ [nl])) (ret es))))))"

text \<open>Each assignment of the handler is a step, and so is each read of the main loop.\<close>

definition read_msg :: "nat \<Rightarrow> int \<Rightarrow> sw code" where
  "read_msg signum i = Call (\<lambda>r.
     let rest = (\<lambda>tm s0. Step (\<lambda>s. s\<lparr>r_timestamp := tm\<rparr>) (\<lambda>_.
       Step (\<lambda>s. s\<lparr>r_signum := int signum\<rparr>) (\<lambda>_.
       Step (\<lambda>s. s\<lparr>r_pid := fst (siginfo s i)\<rparr>) (\<lambda>_.
       Step (\<lambda>s. s\<lparr>r_uid := fst (snd (siginfo s i))\<rparr>) (\<lambda>_.
       Step (\<lambda>s. s\<lparr>r_data := snd (snd (siginfo s i))\<rparr>) (\<lambda>_.
       Step (\<lambda>s. s\<lparr>data_recvd := 1\<rparr>) (\<lambda>_. Fin))))))) in
     if r < 0 then Do (WARN (place ''sigq_recv.c'' ''read_msg'' 54) (''time(2) failed'' @ [nl])) (Step id (\<lambda>s. rest (junk s) s))
     else Step id (rest r))"

definition recv_line :: "(int \<Rightarrow> string) \<Rightarrow> int \<Rightarrow> int \<Rightarrow> int \<Rightarrow> int \<Rightarrow> int \<Rightarrow> int \<Rightarrow> string" where
  "recv_line ctime me tm sig p u d = ''Consumer ['' @ show_int me @ ''] received data @ '' @ ctime tm @ '' signal #  : '' @ pad (CHR '' '') 2 (show_int sig) @ [nl] @
     '' Producer  : PID='' @ show_int p @ '' : UID='' @ show_int u @ [nl] @ '' data item : '' @ show_int d @ [nl]"

definition display_recv_data :: "(int \<Rightarrow> string) \<Rightarrow> sw code \<Rightarrow> sw code" where
  "display_recv_data ctime k =
     Step id (\<lambda>s1. Step id (\<lambda>s2. Step id (\<lambda>s3. Step id (\<lambda>s4. Step id (\<lambda>s5.
       Do (printf (recv_line ctime (own_pid s1) (r_timestamp s1) (r_signum s2) (r_pid s3) (r_uid s4) (r_data s5))) k)))))"

definition recv_setup :: "string list \<Rightarrow> (sw, unit) cprog" where
  "recv_setup argv =
     sq (handle_sig SIG_COMM (place ''sigq_recv.c'' ''main'' 90) ''sigaction failure'')
     (bnd (gets own_pid) (\<lambda>p. printf (argv ! 0 @ '': Hey, consumer here ['' @ show_int p @ '']! Awaiting data from producer'' @ [nl] @
       ''(will poll every 3s ...)'' @ [nl])))"

definition sigq_recv :: "(int \<Rightarrow> string) \<Rightarrow> sw prg" where
  "sigq_recv ctime = \<lparr>hfn = read_msg, hmsk = full_set, nodef = False,
     mloop = Step id (\<lambda>s. if data_recvd s \<noteq> 0 then display_recv_data ctime (Step (\<lambda>s. s\<lparr>data_recvd := 0\<rparr>) (\<lambda>_. Fin)) else Fin)\<rparr>"

section \<open>sleeping\_beauty.c\<close>

text \<open>The signals that come during the sleep are handled and reported; each call then tells the time left. \<open>naps\<close> are these times.\<close>

definition sb_handler :: "nat \<Rightarrow> ('x, unit) dprog" where
  "sb_handler signum = eprintf (''**Signal '' @ show_nat signum @ '' interruption!**'' @ [nl])"

fun nanosleeps :: "(nat \<times> timespec) list \<Rightarrow> ('x, unit) dprog" where
  "nanosleeps [] = ret ()"
| "nanosleeps ((sig, rem) # ns) =
     sq (sb_handler sig)
     (sq (printf (''nanosleep interrupted: rem time: '' @ pad (CHR ''0'') 7 (show_int (fst rem)) @ ''.'' @ pad (CHR ''0'') 7 (show_int (snd rem)) @ [nl]))
     (nanosleeps ns))"

definition sleeping_beauty :: "(nat \<times> timespec) list \<Rightarrow> string list \<Rightarrow> ('x, unit) dprog" where
  "sleeping_beauty naps argv =
     sq (if length argv = 1 then
           sq (eprintf (''Usage: '' @ argv ! 0 @ '' option=[0|1]'' @ [nl] @ ''0 : uses the sleep(3) function'' @ [nl] @ ''1 : uses the nanosleep(2) syscall'' @ [nl])) (exit_with EXIT_FAILURE)
         else ret ())
     (sq (bnd next_call (\<lambda>r1. if r1 \<noteq> 0 then FATAL (place ''sleeping_beauty.c'' ''main'' 57) (''sigaction failure'' @ [nl])
          else bnd next_call (\<lambda>r2. if r2 \<noteq> 0 then FATAL (place ''sleeping_beauty.c'' ''main'' 57) (''sigaction failure'' @ [nl]) else ret ())))
     (sq (if atoi (argv ! 1) = 0 then
            sq (printf (''sleep for 10 s now...'' @ [nl]))
            (case naps of [] \<Rightarrow> printf (''sleep returned 0'' @ [nl])
             | (sig, rem) # _ \<Rightarrow> sq (sb_handler sig) (printf (''sleep returned '' @ show_int (u32 (fst rem)) @ [nl])))
          else if atoi (argv ! 1) = 1 then nanosleeps naps else ret ())
     (exit_with EXIT_SUCCESS)))"

section \<open>murder.c\<close>

text \<open>
  \<open>probe\<close> and \<open>hit\<close> are the results of \<^verbatim>\<open>kill(i, 0)\<close> and \<^verbatim>\<open>kill(i, SIGKILL)\<close>; \<open>pidmax\<close> is what the pipe gives, \<open>None\<close> when \<^verbatim>\<open>popen\<close> fails.
  The list of the killed is the result. A process that dies by \<^verbatim>\<open>SIGKILL\<close> ends with 128 + 9.
\<close>

record mu = sd +
  killed :: "int list"

definition get_pid_max :: "string option \<Rightarrow> (mu, nat) cprog" where
  "get_pid_max pidmax = (case pidmax of None \<Rightarrow> fault NullDeref
     | Some txt \<Rightarrow> (case fgets 16 txt of None \<Rightarrow> ret 0 | Some (res, _) \<Rightarrow> ret (nat (fst (strtol10 res) mod 18446744073709551616))))"

definition murder_one :: "(int \<Rightarrow> int) \<Rightarrow> (int \<Rightarrow> int) \<Rightarrow> nat \<Rightarrow> (mu, unit) cprog" where
  "murder_one probe hit i =
     (if probe (int i) < 0 then ret ()
      else
        sq (printf ('' SIGKILL -> '' @ pad (CHR '' '') 6 (show_nat i) @ '' : ''))
        (if hit (int i) < 0 then printf ('' [FAILED]'' @ [nl])
         else sq (modify (\<lambda>s. s\<lparr>killed := killed s @ [int i]\<rparr>))
           (bnd (gets own_pid) (\<lambda>p. if int i = p then exit_with 137 else printf ('' [OK]'' @ [nl])))))"

function murder_loop :: "(int \<Rightarrow> int) \<Rightarrow> (int \<Rightarrow> int) \<Rightarrow> nat \<Rightarrow> nat \<Rightarrow> (mu, unit) cprog" where
  "murder_loop probe hit pid_max i =
     (if i < pid_max then sq (murder_one probe hit i) (murder_loop probe hit pid_max (Suc i)) else ret ())"
  by pat_completeness auto
termination
  by (relation "measure (\<lambda>(_, _, n, i). n - i)") auto

declare murder_loop.simps [simp del]

definition murder :: "string option \<Rightarrow> bool \<Rightarrow> (int \<Rightarrow> int) \<Rightarrow> (int \<Rightarrow> int) \<Rightarrow> string list \<Rightarrow> (mu, unit) cprog" where
  "murder pidmax root probe hit argv =
     bnd (get_pid_max pidmax) (\<lambda>m.
     let pid_max = (if m = 0 then 32768 else m) in
     sq (printf (''!WARNING! This naughty process named '' @ argv ! 0 @ '' intends to'' @ [nl] @
       ''KILL (that too, SIGKILL) off processes in PID range {1, '' @ show_nat pid_max @ ''} !!'' @ [nl, nl]))
     (sq (if root then printf (''*** !!!EXTRA WARNING!!! Running as superuser! ***'' @ [nl, nl]) else ret ())
     (sq (printf (''Press [Enter] to continue, ^C to abort now ...'' @ [nl]))
     (sq (printf (''Fair Warning given, proceeding to murder ...'' @ [nl]))
     (sq (murder_loop probe hit pid_max 1)
     (exit_with EXIT_SUCCESS))))))"

section \<open>sigwt receives every signal\<close>

text \<open>
  With all signals blocked the process dies of none that it waits for, and prints every signal it takes, in that order; a line is
  missing only while main is between the two.
\<close>

definition wt_lines :: "string list \<Rightarrow> (nat \<times> int) list \<Rightarrow> io list" where
  "wt_lines argv es = map (\<lambda>e. Out (received (int (fst e)))) (filter (\<lambda>e. sigwt_set argv (fst e) \<and> \<not> unblockable (fst e)) es)"

definition wt_rest :: "sw code \<Rightarrow> string list \<Rightarrow> io list \<Rightarrow> bool" where
  "wt_rest c argv out = (c = Fin \<and> out = [] \<or> c = mloop (sigwt argv) \<and> out = [] \<or> (\<exists>m. c = Do (printf m) Fin \<and> out = [Out m]))"

definition wt_inv :: "string list \<Rightarrow> sw \<Rightarrow> (nat \<Rightarrow> bool) \<Rightarrow> sw sm \<Rightarrow> bool" where
  "wt_inv argv s blk st = (frames st = [] \<and> sblk st = blk \<and> disps st = (\<lambda>_. Dfl)
     \<and> (\<exists>l. wt_rest (mainc st) argv l \<and> bout (vars st) @ l = bout s @ wt_lines argv (taken st))
     \<and> (dead st = None \<or> (\<exists>x. dead st = Some (Killed x) \<and> \<not> blk x)))"

lemma wt_inv_ev:
  assumes "wt_inv argv s blk st" "exec_ev (sigwt argv) e st = Some st'" "\<And>x. sigwt_set argv x \<Longrightarrow> \<not> unblockable x \<Longrightarrow> blk x"
  shows "wt_inv argv s blk st'"
proof (cases e)
  case (Send sig v)
  then show ?thesis using assms by (auto simp: exec_ev_def send_sig_def wt_inv_def split: if_splits)
next
  case Deliver
  then obtain x where x: "next_sig (sblk st) (squeue st) = Some x" using assms(2) by (auto simp: exec_ev_def deliver_def split: if_splits option.splits)
  then have "\<not> blk (fst x)" using next_sig_Some(2) [OF x] assms(1) by (simp add: wt_inv_def)
  moreover from this have "wt_lines argv (taken st @ [x]) = wt_lines argv (taken st)" using assms(3) by (auto simp: wt_lines_def)
  ultimately show ?thesis using Deliver assms(1,2) x by (auto simp: exec_ev_def deliver_def take_sig_def wt_inv_def Let_def split: if_splits)
next
  case Run
  have f: "frames st = []" "dead st = None" using assms(1,2) by (auto simp: wt_inv_def exec_ev_def split: if_splits)
  have r: "run_top (sigwt argv) st = Some st'" using Run assms(2) f(2) by (simp add: exec_ev_def)
  from assms(1) obtain l where l: "wt_rest (mainc st) argv l" "bout (vars st) @ l = bout s @ wt_lines argv (taken st)" by (auto simp: wt_inv_def)
  then consider "mainc st = Fin" "l = []" | "mainc st = mloop (sigwt argv)" "l = []" | m where "mainc st = Do (printf m) Fin" "l = [Out m]" by (auto simp: wt_rest_def)
  then show ?thesis
  proof cases
    case 1
    then have "st' = st\<lparr>mainc := mloop (sigwt argv)\<rparr>" using r f by (simp add: run_top_def)
    then show ?thesis using assms(1) l 1 by (auto simp: wt_inv_def wt_rest_def)
  next
    case 2
    then obtain e where e: "next_sig (\<lambda>x. \<not> sigwt_set argv x \<or> unblockable x) (squeue st) = Some e"
      and st': "st' = (take_sig e st)\<lparr>intr := False, mainc := Do (printf (received (int (fst e)))) Fin\<rparr>"
      using r f by (auto simp: run_top_def run_code_def sigwt_def split: option.splits if_splits)
    then have "wt_lines argv (taken st @ [e]) = wt_lines argv (taken st) @ [Out (received (int (fst e)))]" using next_sig_Some(2) [OF e] by (auto simp: wt_lines_def)
    then show ?thesis using assms(1) l 2 unfolding st' by (auto simp: wt_inv_def wt_rest_def take_sig_def)
  next
    case 3
    then have "st' = st\<lparr>vars := (vars st)\<lparr>bout := bout (vars st) @ [Out m]\<rparr>, mainc := Fin\<rparr>" using r f by (simp add: run_top_def run_code_def Do_def run_printf)
    then show ?thesis using assms(1) l 3 by (auto simp: wt_inv_def wt_rest_def)
  qed
qed

lemma sigwt_receives:
  assumes "exec (sigwt argv) es (sm_start [] blk s) = Some st" "\<And>x. sigwt_set argv x \<Longrightarrow> \<not> unblockable x \<Longrightarrow> blk x"
  shows "(dead st = None \<or> (\<exists>x. dead st = Some (Killed x) \<and> (\<not> sigwt_set argv x \<or> unblockable x)))
    \<and> (is_Fin (mainc st) \<longrightarrow> bout (vars st) = bout s @ wt_lines argv (taken st))"
proof -
  have "wt_inv argv s blk st1 \<Longrightarrow> exec (sigwt argv) es st1 = Some st \<Longrightarrow> wt_inv argv s blk st" for st1
    by (induction es arbitrary: st1) (auto dest: wt_inv_ev [OF _ _ assms(2)] split: option.splits)
  moreover have "wt_inv argv s blk (sm_start [] blk s)" by (simp add: wt_inv_def sm_start_def wt_rest_def wt_lines_def)
  ultimately have "wt_inv argv s blk st" using assms(1) by blast
  then show ?thesis using assms(2) by (auto simp: wt_inv_def wt_rest_def sigwt_def Do_def)
qed

section \<open>sigtmwtinfo\<close>

text \<open>With the bug the first timeout ends the process by \<^verbatim>\<open>SIGSEGV\<close>, after the report of the handler.\<close>

lemma fatal_lines_run: "\<exists>l. fatal_lines signum c s = (Return (), s\<lparr>bout := l\<rparr>)"
  by (cases "c = 1"; cases "c = 2"; simp add: fatal_lines_def prog_eval run_eprintf; rule exI; rule refl)

lemma tw_bug_dies:
  assumes "atoi (argv ! 1) = 1" "calls s = []" "\<not> blk0 s SIGSEGV" "\<not> blk0 s SIGFPE"
  shows "\<exists>st. exec (sigtmwtinfo argv) [Run, Run, Run, Run, Deliver, Run, Run, Run, Run, Run, Run, Deliver] (sm_start [SIGSEGV, SIGFPE] (blk0 s) s) = Some st
    \<and> dead st = Some (Killed SIGSEGV)"
proof -
  obtain l where l: "fatal_lines SIGSEGV 1 (s\<lparr>bout := bout s @ [Out (''<timeout>! retrying ...'' @ [nl])]\<rparr>) = (Return (), s\<lparr>bout := l\<rparr>)"
    using fatal_lines_run [of SIGSEGV 1 "s\<lparr>bout := bout s @ [Out (''<timeout>! retrying ...'' @ [nl])]\<rparr>"] by auto
  show ?thesis using assms l
    by (simp add: sig_eval sigtmwtinfo_def tw_body_def tw_handler_def Call_def Let_def run_printf run_next_call in_handler_def unblockable_def harmless_def)
qed

text \<open>
  A \<^verbatim>\<open>SIGFPE\<close> that comes while the program waits is handled by doing nothing, and then ends it: \<^verbatim>\<open>sigtimedwait\<close> fails with \<^verbatim>\<open>EINTR\<close>, which
  the loop takes for an error.
\<close>

lemma tw_interrupted:
  assumes "bmem s = []" "\<not> blk0 s SIGFPE"
  shows "\<exists>st. exec (sigtmwtinfo argv) [Run, Send SIGFPE 0, Deliver, Run, Run, Run, Run] (sm_start [SIGSEGV, SIGFPE] (blk0 s) s) = Some st
    \<and> dead st = Some (Status EXIT_FAILURE)"
proof -
  obtain l where "FATAL (place ''sigtmwtinfo.c'' ''main'' 143) (''sigtimedwait failed'' @ [nl]) s = (Exited EXIT_FAILURE, s\<lparr>bmem := [], bout := bout s @ l\<rparr>)"
    using FATAL_run [of "place ''sigtmwtinfo.c'' ''main'' 143" "''sigtimedwait failed'' @ [nl]" s] assms(1) by auto
  then show ?thesis using assms
    by (simp add: sig_eval sigtmwtinfo_def tw_body_def tw_handler_def in_handler_def unblockable_def tw_set_def)
qed

section \<open>The consumer of sigq\_recv\<close>

lemma read_msg_plain: "plain (read_msg sig i)"
  by (simp add: read_msg_def Call_def Let_def run_next_call plain_Do)

lemma read_msg_finish:
  assumes "calls s = []"
  shows "finish (read_msg sig i) s = s\<lparr>r_timestamp := 0, r_signum := int sig, r_pid := fst (siginfo s i), r_uid := fst (snd (siginfo s i)),
    r_data := snd (snd (siginfo s i)), data_recvd := 1\<rparr>"
  using assms by (simp add: read_msg_def Call_def Let_def run_next_call)

text \<open>The consumer between two polls, with the messages \<open>ms\<close> waiting.\<close>

definition consumer :: "int list \<Rightarrow> sw sm \<Rightarrow> bool" where
  "consumer ms st = (frames st = [] \<and> is_Fin (mainc st) \<and> squeue st = map (Pair SIG_COMM) ms \<and> sblk st = (\<lambda>_. False) \<and> disps st SIG_COMM = Hdl
     \<and> dead st = None \<and> calls (vars st) = [])"

lemma consumer_takes:
  assumes "consumer (i # ms) st"
  shows "\<exists>n st'. exec (sigq_recv ct) (Deliver # replicate n Run) st = Some st' \<and> consumer ms st' \<and> vars st' = finish (read_msg SIG_COMM i) (vars st)"
proof -
  let ?st1 = "(take_sig (SIG_COMM, i) st)\<lparr>intr := intr st \<or> is_Await (mainc st) \<or> is_Susp (mainc st), sblk := in_handler (sigq_recv ct) SIG_COMM (sblk st)\<rparr>"
  have "arg_min_list fst (map (Pair SIG_COMM) (i # ms)) = (SIG_COMM, i)" by (induction ms arbitrary: i) (simp_all add: Let_def)
  then have n: "next_sig (sblk st) (squeue st) = Some (SIG_COMM, i)" using assms by (simp add: consumer_def next_sig_def)
  obtain n where "exec (sigq_recv ct) (replicate n Run) (?st1\<lparr>frames := (read_msg SIG_COMM i, sblk st) # []\<rparr>)
      = Some (?st1\<lparr>frames := [], sblk := sblk st, vars := finish (read_msg SIG_COMM i) (vars ?st1)\<rparr>)"
    using plain_runs [OF read_msg_plain, of ?st1 "sigq_recv ct" SIG_COMM i "sblk st" "[]"] assms by (auto simp: consumer_def take_sig_def)
  moreover have "exec_ev (sigq_recv ct) Deliver st = Some (?st1\<lparr>frames := (read_msg SIG_COMM i, sblk st) # []\<rparr>)"
    using assms n by (simp add: consumer_def exec_ev_def deliver_def sigq_recv_def Let_def take_sig_def)
  ultimately show ?thesis using assms
    by (intro exI [of _ n] exI [of _ "?st1\<lparr>frames := [], sblk := sblk st, vars := finish (read_msg SIG_COMM i) (vars st)\<rparr>"])
      (simp add: consumer_def take_sig_def read_msg_finish)
qed

lemma consumer_takes_all:
  assumes "consumer ms st"
  shows "\<exists>es st'. sends es = [] \<and> exec (sigq_recv ct) es st = Some st' \<and> consumer [] st' \<and> vars st' = fold (\<lambda>i. finish (read_msg SIG_COMM i)) ms (vars st)"
  using assms
proof (induction ms arbitrary: st)
  case Nil
  then show ?case by (intro exI [of _ "[]"] exI [of _ st]) simp
next
  case (Cons i ms)
  from consumer_takes [OF Cons.prems, of ct] obtain n st1 where 1: "exec (sigq_recv ct) (Deliver # replicate n Run) st = Some st1" "consumer ms st1"
    "vars st1 = finish (read_msg SIG_COMM i) (vars st)" by blast
  from Cons.IH [OF 1(2)] obtain es st' where 2: "sends es = []" "exec (sigq_recv ct) es st1 = Some st'" "consumer [] st'"
    "vars st' = fold (\<lambda>i. finish (read_msg SIG_COMM i)) ms (vars st1)" by blast
  have "sends ((Deliver # replicate n Run) @ es) = []" using 2(1) by (induction n) simp_all
  moreover have "exec (sigq_recv ct) ((Deliver # replicate n Run) @ es) st = Some st'" unfolding exec_append using 1(1) 2(2) by simp
  ultimately show ?case using 1(3) 2(3,4) by (intro exI [of _ "(Deliver # replicate n Run) @ es"] exI [of _ st']) simp
qed

lemma fold_read_msg:
  assumes "calls s = []" "ms \<noteq> []"
  shows "fold (\<lambda>i. finish (read_msg SIG_COMM i)) ms s = s\<lparr>r_timestamp := 0, r_signum := int SIG_COMM, r_pid := fst (siginfo s (last ms)),
    r_uid := fst (snd (siginfo s (last ms))), r_data := snd (snd (siginfo s (last ms))), data_recvd := 1\<rparr>"
  using assms
proof (induction ms arbitrary: s)
  case (Cons i ms)
  then show ?case by (cases "ms = []") (simp_all add: read_msg_finish)
qed simp

text \<open>
  All messages that wait when the consumer polls are handled, and one is shown, the last: the others are lost, though each signal was
  queued.
\<close>

lemma sigq_shows_last:
  assumes "consumer ms st" "ms \<noteq> []"
  shows "\<exists>es st'. sends es = [] \<and> exec (sigq_recv ct) es st = Some st' \<and> consumer [] st' \<and> data_recvd (vars st') = 0 \<and> (\<exists>p u d. siginfo (vars st) (last ms) = (p, u, d)
    \<and> bout (vars st') = bout (vars st) @ [Out (recv_line ct (own_pid (vars st)) 0 (int SIG_COMM) p u d)])"
proof -
  from consumer_takes_all [OF assms(1), of ct] obtain es st1 where 1: "sends es = []" "exec (sigq_recv ct) es st = Some st1" "consumer [] st1"
    "vars st1 = fold (\<lambda>i. finish (read_msg SIG_COMM i)) ms (vars st)" by blast
  have v: "vars st1 = (vars st)\<lparr>r_timestamp := 0, r_signum := int SIG_COMM, r_pid := fst (siginfo (vars st) (last ms)),
    r_uid := fst (snd (siginfo (vars st) (last ms))), r_data := snd (snd (siginfo (vars st) (last ms))), data_recvd := 1\<rparr>"
    using 1(4) fold_read_msg [of "vars st" ms] assms by (simp add: consumer_def)
  obtain p u d where i: "siginfo (vars st) (last ms) = (p, u, d)" by (metis prod_cases3)
  let ?st2 = "st1\<lparr>vars := (vars st1)\<lparr>bout := bout (vars st) @ [Out (recv_line ct (own_pid (vars st)) 0 (int SIG_COMM) p u d)], data_recvd := 0\<rparr>, mainc := Fin\<rparr>"
  have "exec (sigq_recv ct) (replicate 9 Run) st1 = Some ?st2"
    using 1(3) v i by (simp add: consumer_def numeral_eq_Suc exec_ev_def run_top_def run_code_def sigq_recv_def display_recv_data_def Do_def run_printf)
  moreover have "sends (es @ replicate 9 Run) = []" using 1(1) by (induction es rule: sends.induct) (simp_all add: numeral_eq_Suc)
  ultimately show ?thesis using 1 i
    by (intro exI [of _ "es @ replicate 9 Run"] exI [of _ ?st2]) (auto simp: exec_append consumer_def)
qed

text \<open>A message that comes while another is shown: the line has the sender of the one and the data of the other, and the message itself is never shown.\<close>

lemma sigq_torn:
  assumes "consumer [] st" "data_recvd (vars st) = 1" "siginfo (vars st) 7 = (p', u', d')"
  shows "\<exists>st'. exec (sigq_recv ct) (replicate 5 Run @ [Send SIG_COMM 7, Deliver] @ replicate 13 Run) st = Some st'
    \<and> data_recvd (vars st') = 0 \<and> squeue st' = [] \<and> bout (vars st') = bout (vars st) @
      [Out (recv_line ct (own_pid (vars st)) (r_timestamp (vars st)) (r_signum (vars st)) (r_pid (vars st)) u' d')]"
  using assms by (simp add: consumer_def numeral_eq_Suc sig_eval sigq_recv_def display_recv_data_def run_printf
    read_msg_def Call_def Let_def run_next_call in_handler_def)

section \<open>murder\<close>

lemma murder_one_run:
  assumes "int i \<noteq> own_pid s"
  shows "\<exists>s1. murder_one probe hit i s = (Return (), s1) \<and> own_pid s1 = own_pid s
    \<and> killed s1 = killed s @ (if 0 \<le> probe (int i) \<and> 0 \<le> hit (int i) then [int i] else [])"
  using assms by (simp add: murder_one_def prog_eval run_printf)

lemma murder_loop_stops:
  assumes "own_pid s = int me" "i \<le> me" "me < pid_max" "0 \<le> probe (int me)" "0 \<le> hit (int me)"
  shows "\<exists>s'. murder_loop probe hit pid_max i s = (Exited 137, s') \<and> killed s' = killed s @ filter (\<lambda>j. 0 \<le> probe j \<and> 0 \<le> hit j) (map int [i..<Suc me])"
  using assms
proof (induction "me - i" arbitrary: i s)
  case 0
  then have "i = me" by simp
  then show ?case using 0 by (subst murder_loop.simps) (simp add: murder_one_def prog_eval run_printf)
next
  case (Suc n)
  have i: "i < me" "i < pid_max" and n: "n = me - Suc i" using Suc by simp_all
  obtain s1 where s1: "murder_one probe hit i s = (Return (), s1)" "own_pid s1 = int me"
    "killed s1 = killed s @ (if 0 \<le> probe (int i) \<and> 0 \<le> hit (int i) then [int i] else [])"
    using murder_one_run [of i s probe hit] i Suc.prems(1) by auto
  obtain s' where s': "murder_loop probe hit pid_max (Suc i) s1 = (Exited 137, s')" "killed s' = killed s1 @ filter (\<lambda>j. 0 \<le> probe j \<and> 0 \<le> hit j) (map int [Suc i..<Suc me])"
    using Suc.hyps(1) [OF n s1(2)] Suc.prems i by auto
  have "murder_loop probe hit pid_max i s = (Exited 137, s')" using i s1(1) s'(1) by (subst murder_loop.simps) (simp add: bnd_def)
  moreover have "[i..<Suc me] = i # [Suc i..<Suc me]" using i by (simp add: upt_conv_Cons)
  ultimately show ?case using s1(3) s'(2) by auto
qed

text \<open>\<^verbatim>\<open>murder\<close> comes to its own number before the end of the range and dies there: no process with a larger number is killed.\<close>

lemma murder_stops_at_itself:
  assumes "own_pid s = int me" "1 \<le> me" "me < 32768" "0 \<le> probe (int me)" "0 \<le> hit (int me)" "killed s = []"
  shows "\<exists>s'. murder (Some []) root probe hit argv s = (Exited 137, s') \<and> killed s' = filter (\<lambda>j. 0 \<le> probe j \<and> 0 \<le> hit j) (map int [1..<Suc me])"
proof -
  have "\<exists>s'. murder_loop probe hit 32768 1 (s\<lparr>bout := l\<rparr>) = (Exited 137, s') \<and> killed s' = filter (\<lambda>j. 0 \<le> probe j \<and> 0 \<le> hit j) (map int [1..<Suc me])" for l
    using murder_loop_stops [of "s\<lparr>bout := l\<rparr>" me 1 32768 probe hit] assms by simp
  moreover have "\<exists>l. murder (Some []) root probe hit argv s = sq (murder_loop probe hit 32768 1) (exit_with EXIT_SUCCESS) (s\<lparr>bout := l\<rparr>)"
    by (cases root; simp add: murder_def get_pid_max_def fgets_def prog_simps Let_def; rule exI; rule refl)
  ultimately show ?thesis by (metis run_bnd_Exited)
qed

end
