(* ===== verification/Daemon.thy ===== *)
theory Daemon
  imports Signal_Setup
begin

text \<open>
  \<^verbatim>\<open>src/booksrc/B_daemon/daemon_trad.c\<close>: the steps by which a process becomes a daemon. The program is followed in one process: what \<^verbatim>\<open>fork\<close>
  returns there, and the number the process has from then on, is in \<open>forkres\<close>, so that the original process, the first child and the
  daemon are three runs of the same code. The state has what the steps change: the open descriptors, the signal dispositions, the
  mask, the session, the working directory and the file mode mask. Once stdout is the null device, nothing that is printed is seen.
\<close>

datatype ofile = Null_dev | Some_file nat

record dm = bk +
  dcalls :: "int list"
  forkres :: "(int \<times> int) list"
  me :: int
  session :: int
  dfds :: "nat \<Rightarrow> ofile option"
  custom :: "nat \<Rightarrow> bool"
  dmask :: "nat \<Rightarrow> bool"
  rlim_max :: nat
  cwd :: string
  umsk :: nat

type_synonym 'a dmprog = "(dm, 'a) cprog"

definition dcall :: "int dmprog" where
  "dcall = (\<lambda>s. case dcalls s of [] \<Rightarrow> (Return 0, s) | r # rs \<Rightarrow> (Return r, s\<lparr>dcalls := rs\<rparr>))"

definition dfork :: "int dmprog" where
  "dfork = (\<lambda>s. case forkres s of [] \<Rightarrow> (Return (-1), s) | (r, p) # fs \<Rightarrow> (Return r, s\<lparr>forkres := fs, me := (if r = 0 then p else me s)\<rparr>))"

definition dprint :: "string \<Rightarrow> unit dmprog" where
  "dprint msg = bnd (gets dfds) (\<lambda>f. if f 1 = Some Null_dev \<or> f 1 = None then ret () else printf msg)"

definition step_line :: "string \<Rightarrow> unit dmprog" where
  "step_line msg = bnd (gets me) (\<lambda>p. dprint (show_int p @ '':daemonize_traditional: '' @ msg @ [nl]))"

definition dwarn :: "nat \<Rightarrow> string \<Rightarrow> unit dmprog" where
  "dwarn line msg = WARN (place ''daemon_trad.c'' ''daemonize_traditional'' line) msg"

fun close_fds :: "nat \<Rightarrow> nat \<Rightarrow> unit dmprog" where
  "close_fds i 0 = ret ()"
| "close_fds i (Suc n) = sq (modify (\<lambda>s. s\<lparr>dfds := (dfds s)(i := None)\<rparr>)) (close_fds (Suc i) n)"

fun default_signals :: "nat list \<Rightarrow> int dmprog" where
  "default_signals [] = ret 0"
| "default_signals (i # is) =
     (if i = SIGKILL \<or> i = SIGSTOP \<or> i = 32 \<or> i = 33 then default_signals is
      else bnd dcall (\<lambda>r. if r = -1 then sq (dwarn 83 (''sigaction '' @ show_nat i @ '' failed'' @ [nl])) (ret (-2))
        else sq (modify (\<lambda>s. s\<lparr>custom := (custom s)(i := False)\<rparr>)) (default_signals is)))"

text \<open>\<^verbatim>\<open>SET_TO_NULDEV\<close>; \<open>k\<close> is what follows it.\<close>

definition SET_TO_NULDEV :: "nat \<Rightarrow> nat \<Rightarrow> string \<Rightarrow> nat \<Rightarrow> int dmprog \<Rightarrow> int dmprog" where
  "SET_TO_NULDEV orig_fd new_fd name line k =
     bnd dcall (\<lambda>r. if r < 0 then sq (dwarn line (''dup2(fd_null, '' @ name @ '') failed'' @ [nl])) (ret (-9))
     else sq (modify (\<lambda>s. s\<lparr>dfds := (dfds s)(new_fd := dfds s orig_fd)\<rparr>)) k)"

text \<open>The second child: it pauses for ever.\<close>

definition the_daemon :: "int dmprog" where
  "the_daemon =
     bnd (gets me) (\<lambda>p. sq (dprint ('' '' @ show_int p @ '':daemonize_traditional: the ACTUAL DAEMON !'' @ [nl]))
     (sq (step_line (''[+] step 9 : connect null dev to fd'' @ [CHR 0x27] @ ''s 0,1,2''))
     (bnd dcall (\<lambda>fd_null. if fd_null < 0 then sq (dwarn 133 (''open on null dev failed'' @ [nl])) (ret (-9))
     else sq (modify (\<lambda>s. s\<lparr>dfds := (dfds s)(nat fd_null \<mapsto> Null_dev)\<rparr>))
     (SET_TO_NULDEV (nat fd_null) 0 ''STDIN_FILENO'' 138
     (SET_TO_NULDEV (nat fd_null) 1 ''STDOUT_FILENO'' 139
     (SET_TO_NULDEV (nat fd_null) 2 ''STDERR_FILENO'' 140
     (sq (modify (\<lambda>s. s\<lparr>dfds := (dfds s)(nat fd_null := None)\<rparr>))
     (sq (step_line ''[+] step 10 : set umask to 0x0'')
     (sq (modify (\<lambda>s. s\<lparr>umsk := 0\<rparr>))
     (sq (step_line (''[+] step 11 : set cwd to '' @ [CHR 0x27, CHR 0x2F, CHR 0x27]))
     (bnd dcall (\<lambda>r. if r < 0 then sq (dwarn 159 (''chdir to '' @ [CHR 0x27, CHR 0x2F, CHR 0x27] @ '' failed'' @ [nl])) (ret (-11))
     else sq (modify (\<lambda>s. s\<lparr>cwd := ''/''\<rparr>))
     (sq (step_line (''[-] step 12 : write PID safely to run file'' @ [nl] @ '' <not implemented here>''))
     (sq (step_line (''[-] step 13 : drop privileges'' @ [nl] @ '' <not implemented here>''))
     (sq (step_line (''[-] step 14 : inform original process we'' @ [CHR 0x27] @ ''re ready'' @ [nl] @ '' <not implemented here>''))
     (\<lambda>s. (Blocks, s))))))))))))))))))"

text \<open>The first child, in a session of its own.\<close>

definition first_child :: "int dmprog" where
  "first_child =
     sq (step_line ''[+] step 6 : create new session'')
     (bnd dcall (\<lambda>r. if r < 0 then sq (dwarn 111 (''setsid failed'' @ [nl])) (ret (-6))
     else sq (modify (\<lambda>s. s\<lparr>session := me s\<rparr>))
     (sq (step_line ''[+] step 7 : second fork'')
     (bnd dfork (\<lambda>r. if r = -1 then sq (dwarn 120 (''fork #2 failed!'' @ [nl])) (ret (-7))
     else if r = 0 then the_daemon
     else sq (step_line ''[+] step 8 : first child exit'') (exit_with EXIT_SUCCESS))))))"

text \<open>The first \<^verbatim>\<open>fork\<close>, and the steps before it.\<close>

definition first_fork :: "int dmprog" where
  "first_fork = bnd dfork (\<lambda>r. if r = -1 then sq (dwarn 103 (''fork #1 failed!'' @ [nl])) (ret (-5))
     else if r = 0 then first_child
     else sq (step_line ''[+] step 15 : original parent exit when daemon is fully initialized'') (exit_with EXIT_SUCCESS))"

definition daemonize_traditional :: "int dmprog" where
  "daemonize_traditional =
     bnd dcall (\<lambda>r. if r < 0 then sq (dwarn 62 (''prlimit RLIMIT_NOFILE failed'' @ [nl])) (ret (-1))
     else bnd (gets rlim_max) (\<lambda>n.
     sq (step_line (''[+] step 1 : close fd'' @ [CHR 0x27] @ ''s (3 to '' @ show_int (i64 (int n)) @ '')''))
     (sq (close_fds 3 (n - 3))
     (sq (step_line ''[+] step 2 : reset signals to default'')
     (bnd (default_signals [1..<65]) (\<lambda>r. if r < 0 then ret r
     else sq (step_line ''[+] step 3 : reset signal mask'')
     (bnd dcall (\<lambda>r. if r < 0 then sq (dwarn 91 (''sigemptyset failed'' @ [nl])) (ret (-3))
     else sq (step_line ''[+] step 5 : first fork'') first_fork))))))))"

definition daemon_main :: "unit dmprog" where
  "daemon_main = bnd daemonize_traditional (\<lambda>r.
     sq (if r < 0 then dprint (''Failed to daemonize (traditional): err code '' @ show_int r @ [nl]) else ret ()) (exit_with EXIT_SUCCESS))"

section \<open>What becomes of the process\<close>

lemma run_dcall [prog_simps]: "dcall s = (Return (if dcalls s = [] then 0 else hd (dcalls s)), s\<lparr>dcalls := tl (dcalls s)\<rparr>)"
  by (cases "dcalls s") (simp_all add: dcall_def)

definition seen :: "string \<Rightarrow> dm \<Rightarrow> io list" where
  "seen msg s = (if dfds s 1 = Some Null_dev \<or> dfds s 1 = None then [] else [Out msg])"

lemma run_dprint [prog_simps]: "dprint msg s = (Return (), s\<lparr>bout := bout s @ seen msg s\<rparr>)"
  by (cases s) (simp add: dprint_def seen_def prog_eval run_printf)

lemma run_step_line [prog_simps]: "step_line msg s = (Return (), s\<lparr>bout := bout s @ seen (show_int (me s) @ '':daemonize_traditional: '' @ msg @ [nl]) s\<rparr>)"
  by (simp add: step_line_def prog_simps)

definition closed_fds :: "nat \<Rightarrow> nat \<Rightarrow> (nat \<Rightarrow> ofile option) \<Rightarrow> nat \<Rightarrow> ofile option" where
  "closed_fds i n f = (\<lambda>j. if i \<le> j \<and> j < i + n then None else f j)"

lemma closed_fds_0: "closed_fds i 0 f = f"
  by (rule ext) (auto simp: closed_fds_def)

lemma closed_fds_Suc: "closed_fds (Suc i) n (f(i := None)) = closed_fds i (Suc n) f"
  by (rule ext) (auto simp: closed_fds_def)

lemma close_fds_run: "close_fds i n s = (Return (), s\<lparr>dfds := closed_fds i n (dfds s)\<rparr>)"
proof (induction i n arbitrary: s rule: close_fds.induct)
  case (1 i)
  have "s\<lparr>dfds := dfds s\<rparr> = s" by (cases s) simp
  then show ?case by (simp add: prog_simps closed_fds_0)
next
  case (2 i n)
  then show ?case by (simp add: prog_eval closed_fds_Suc)
qed

definition skipped :: "nat \<Rightarrow> bool" where
  "skipped i = (i = SIGKILL \<or> i = SIGSTOP \<or> i = 32 \<or> i = 33)"

lemma default_signals_run:
  assumes "dcalls s = replicate (length (filter (\<lambda>i. \<not> skipped i) is)) 0 @ cs"
  shows "default_signals is s = (Return 0, s\<lparr>dcalls := cs, custom := (\<lambda>i. custom s i \<and> (i \<in> set is \<longrightarrow> skipped i))\<rparr>)"
  using assms
proof (induction "is" arbitrary: s)
  case Nil
  then show ?case by (cases s) (simp add: prog_simps)
next
  case (Cons i "is")
  show ?case
  proof (cases "skipped i")
    case True
    have "default_signals (i # is) s = default_signals is s" using True by (simp add: skipped_def)
    also have "\<dots> = (Return 0, s\<lparr>dcalls := cs, custom := (\<lambda>j. custom s j \<and> (j \<in> set is \<longrightarrow> skipped j))\<rparr>)" using Cons.IH [of s] Cons.prems True by simp
    also have "(\<lambda>j. custom s j \<and> (j \<in> set is \<longrightarrow> skipped j)) = (\<lambda>j. custom s j \<and> (j \<in> set (i # is) \<longrightarrow> skipped j))" using True by auto
    finally show ?thesis .
  next
    case False
    let ?s = "s\<lparr>dcalls := tl (dcalls s), custom := (custom s)(i := False)\<rparr>"
    have "default_signals (i # is) s = default_signals is ?s" using False Cons.prems by (auto simp: skipped_def prog_eval run_dcall)
    also have "\<dots> = (Return 0, ?s\<lparr>dcalls := cs, custom := (\<lambda>j. custom ?s j \<and> (j \<in> set is \<longrightarrow> skipped j))\<rparr>)" using Cons.prems False by (intro Cons.IH) simp
    also have "(\<lambda>j. custom ?s j \<and> (j \<in> set is \<longrightarrow> skipped j)) = (\<lambda>j. custom s j \<and> (j \<in> set (i # is) \<longrightarrow> skipped j))" using False by auto
    finally show ?thesis by simp
  qed
qed

lemma n_signals: "length (filter (\<lambda>i. \<not> skipped i) [1..<65]) = 60"
  by (simp add: skipped_def upt_conv_Cons)

lemma run_dfork: "forkres s = (r, p) # fs \<Longrightarrow> dfork s = (Return r, s\<lparr>forkres := fs, me := (if r = 0 then p else me s)\<rparr>)"
  by (simp add: dfork_def)

text \<open>The first part, up to the first \<^verbatim>\<open>fork\<close>.\<close>

lemma daemonize_begins:
  assumes "dcalls s = replicate 62 0 @ cs"
  shows "\<exists>s1. daemonize_traditional s = first_fork s1 \<and> dcalls s1 = cs \<and> forkres s1 = forkres s \<and> dmask s1 = dmask s
     \<and> dfds s1 = closed_fds 3 (rlim_max s - 3) (dfds s)
     \<and> custom s1 = (\<lambda>i. custom s i \<and> (1 \<le> i \<and> i < 65 \<longrightarrow> skipped i))"
proof -
  have d: "dcalls s = 0 # replicate 60 0 @ 0 # cs" using assms by (simp add: numeral_eq_Suc replicate_append_same)
  have ds: "default_signals [1..<65] t = (Return 0, t\<lparr>dcalls := 0 # cs, custom := (\<lambda>i. custom t i \<and> (1 \<le> i \<and> i < 65 \<longrightarrow> skipped i))\<rparr>)"
    if "dcalls t = replicate 60 0 @ 0 # cs" for t
    using default_signals_run [of t "[1..<65]" "0 # cs"] that unfolding n_signals by simp
  show ?thesis unfolding daemonize_traditional_def
    by (simp add: d ds prog_simps close_fds_run del: default_signals.simps upt_rec_numeral One_nat_def) (rule exI, rule conjI, rule refl, simp)
qed

text \<open>
  The run with two forks that return 0, when every call succeeds: the process that is left has a session that is not its own, no
  descriptors but the three that are the null device, default dispositions, the file mode mask 0 and the root as its directory.
  But the mask is the one it was started with: the code empties a set and never installs it.
\<close>

lemma first_fork_daemon:
  assumes "dcalls s = [0, int fd]" "3 \<le> fd" "forkres s = [(0, p1), (0, p2)]"
  shows "\<exists>s'. first_fork s = (Blocks, s') \<and> me s' = p2 \<and> session s' = p1 \<and> cwd s' = ''/'' \<and> umsk s' = 0 \<and> custom s' = custom s \<and> dmask s' = dmask s
    \<and> dfds s' = (dfds s)(0 \<mapsto> Null_dev, 1 \<mapsto> Null_dev, 2 \<mapsto> Null_dev, fd := None)"
  using assms by (auto simp: first_fork_def first_child_def the_daemon_def SET_TO_NULDEV_def prog_simps run_dfork)

lemma daemon_detached:
  assumes "dcalls s = replicate 63 0 @ [int fd]" "3 \<le> fd" "fd < rlim_max s" "forkres s = [(0, p1), (0, p2)]"
  shows "\<exists>s'. daemon_main s = (Blocks, s') \<and> me s' = p2 \<and> session s' = p1 \<and> cwd s' = ''/'' \<and> umsk s' = 0
    \<and> (\<forall>i < 3. dfds s' i = Some Null_dev) \<and> (\<forall>i. 3 \<le> i \<and> i < rlim_max s \<longrightarrow> dfds s' i = None)
    \<and> (\<forall>i. 1 \<le> i \<and> i < 65 \<and> \<not> skipped i \<longrightarrow> \<not> custom s' i) \<and> dmask s' = dmask s"
proof -
  have "dcalls s = replicate 62 0 @ [0, int fd]" using assms(1) by (simp add: numeral_eq_Suc)
  from daemonize_begins [OF this] obtain s1 where s1: "daemonize_traditional s = first_fork s1" "dcalls s1 = [0, int fd]" "forkres s1 = forkres s" "dmask s1 = dmask s"
     "dfds s1 = closed_fds 3 (rlim_max s - 3) (dfds s)"
     "custom s1 = (\<lambda>i. custom s i \<and> (1 \<le> i \<and> i < 65 \<longrightarrow> skipped i))" by blast
  from first_fork_daemon [of s1 fd p1 p2] obtain s' where s': "first_fork s1 = (Blocks, s')" "me s' = p2" "session s' = p1" "cwd s' = ''/''" "umsk s' = 0"
    "custom s' = custom s1" "dmask s' = dmask s1" "dfds s' = (dfds s1)(0 \<mapsto> Null_dev, 1 \<mapsto> Null_dev, 2 \<mapsto> Null_dev, fd := None)"
    using s1(2,3) assms(2,4) by auto
  have "daemon_main s = (Blocks, s')" using s1(1) s'(1) by (simp add: daemon_main_def bnd_def)
  moreover have "dfds s' i = Some Null_dev" if "i < 3" for i using that s'(8) assms(2) by (auto simp: less_Suc_eq numeral_eq_Suc)
  moreover have "dfds s' i = None" if "3 \<le> i" "i < rlim_max s" for i using that s'(8) s1(5) by (simp add: closed_fds_def)
  ultimately show ?thesis using s' s1(4,6) by (intro exI [of _ s']) simp
qed

text \<open>The other two processes exit with status 0.\<close>

lemma daemon_others_exit:
  assumes "dcalls s = replicate 63 0" "forkres s = [(c, x)] \<and> 0 < c \<or> forkres s = [(0, p1), (c, x)] \<and> 0 < c"
  shows "\<exists>s'. daemon_main s = (Exited 0, s')"
proof -
  have "dcalls s = replicate 62 0 @ [0]" using assms(1) by (simp add: numeral_eq_Suc)
  from daemonize_begins [OF this] obtain s1 where s1: "daemonize_traditional s = first_fork s1" "dcalls s1 = [0]" "forkres s1 = forkres s" by blast
  have "\<exists>s'. first_fork s1 = (Exited 0, s')" using s1(2,3) assms(2) by (auto simp: first_fork_def first_child_def prog_simps run_dfork)
  then show ?thesis using s1(1) by (auto simp: daemon_main_def bnd_def)
qed

text \<open>A failing call is reported: the fork of the first child, for one, gives -5.\<close>

lemma daemon_first_fork_fails:
  assumes "dcalls s = replicate 62 0" "forkres s = []"
  shows "\<exists>s'. daemonize_traditional s = (Return (-5), s')"
proof -
  have "dcalls s = replicate 62 0 @ []" using assms(1) by simp
  from daemonize_begins [OF this] obtain s1 where s1: "daemonize_traditional s = first_fork s1" "forkres s1 = []" using assms(2) by auto
  obtain t' where "dwarn 103 (''fork #1 failed!'' @ [nl]) s1 = (Return (), t')"
    using WARN_run [of "place ''daemon_trad.c'' ''daemonize_traditional'' 103" "''fork #1 failed!'' @ [nl]" s1] by (auto simp: dwarn_def)
  then show ?thesis using s1 by (simp add: first_fork_def dfork_def bnd_def ret_def)
qed

end
