(* ===== verification/Itimers.thy ===== *)
theory Itimers
  imports Signal_Demos
begin

text \<open>
  Alarms and interval timers, over \<open>Signal_Machine\<close>: \<^verbatim>\<open>alarm1.c\<close>, \<^verbatim>\<open>alarm2_rep.c\<close> and \<^verbatim>\<open>intv_clksimple.c\<close> of \<^verbatim>\<open>src/booksrc/ch13\<close> and
  \<^verbatim>\<open>3intv.c\<close> of \<^verbatim>\<open>src/booksrc/solutions_to_assgn/ch13\<close>. The kernel's timer is whoever sends the signal: \<open>armed\<close> lists what the program
  asked for, the timer, the time to the first expiry and the interval, in microseconds. \<open>clock\<close> are the readings of
  \<^verbatim>\<open>CLOCK_REALTIME\<close> to come and \<open>ctime\<close> is how \<^verbatim>\<open>ctime_r\<close> prints one.
\<close>

datatype itimer = Alarm | Real | Virtual | Prof

record it = sd +
  armed :: "(itimer \<times> int \<times> int) list"
  clock :: "int list"
  ctime :: "int \<Rightarrow> string"
  opt :: int

abbreviation (input) SIGALRM :: nat where "SIGALRM \<equiv> 14"
abbreviation (input) SIGVTALRM :: nat where "SIGVTALRM \<equiv> 26"
abbreviation (input) SIGPROF :: nat where "SIGPROF \<equiv> 27"

definition arm :: "itimer \<times> int \<times> int \<Rightarrow> (it, unit) cprog" where
  "arm t = modify (\<lambda>s. s\<lparr>armed := armed s @ [t]\<rparr>)"

section \<open>alarm1.c and alarm2\_rep.c\<close>

definition alarm_handler :: "string \<Rightarrow> nat \<Rightarrow> nat \<Rightarrow> (it, unit) cprog" where
  "alarm_handler file line signum =
     (if signum \<noteq> SIGALRM then ret ()
      else wr_or_warn (''   *** Timeout! [SIGALRM received] ***'' @ [nl]) (place file ''sig_handler'' line) ''write str failed!'')"

definition alarm_usage :: "string \<Rightarrow> string list \<Rightarrow> (it, unit) cprog" where
  "alarm_usage what argv = sq (eprintf (''Usage: '' @ argv ! 0 @ what @ [nl])) (exit_with EXIT_FAILURE)"

definition alarm_setup :: "string \<Rightarrow> nat \<Rightarrow> string \<Rightarrow> string list \<Rightarrow> (it, unit) cprog" where
  "alarm_setup file line what argv =
     sq (if length argv \<noteq> 2 then alarm_usage what argv else ret ())
     (let n = atoi (argv ! 1) in
      sq (if n \<le> 0 then alarm_usage what argv else ret ())
      (sq (handle_sig SIGALRM (place file ''main'' line) ''sigaction on SIGALRM failed'')
      (sq (arm (Alarm, n * 1000000, 0))
      (printf (''A timeout for '' @ show_int n @ ''s has been armed...'' @ [nl])))))"

definition alarm1_setup :: "string list \<Rightarrow> (it, unit) cprog" where
  "alarm1_setup = alarm_setup ''alarm1.c'' 59 '' seconds-to-timeout(>0)''"

definition alarm1 :: "it prg" where
  "alarm1 = \<lparr>hfn = (\<lambda>sig _. Do (alarm_handler ''alarm1.c'' 34 sig) Fin), hmsk = (\<lambda>_. False), nodef = False, mloop = Susp (Quit EXIT_SUCCESS)\<rparr>"

definition alarm2_setup :: "string list \<Rightarrow> (it, unit) cprog" where
  "alarm2_setup = alarm_setup ''alarm2_rep.c'' 60 '' seconds-to-repetitive-timeout(>0)''"

definition rearm :: "int \<Rightarrow> (it, unit) cprog" where
  "rearm n = arm (Alarm, n * 1000000, 0)"

definition alarm2_rep :: "string list \<Rightarrow> it prg" where
  "alarm2_rep argv = \<lparr>hfn = (\<lambda>sig _. Do (alarm_handler ''alarm2_rep.c'' 33 sig) Fin), hmsk = (\<lambda>_. False), nodef = False,
     mloop = Susp (let n = atoi (argv ! 1) in Do (rearm n) (Do (printf ('' Timeout for '' @ show_int n @ ''s has been (re)armed...'' @ [nl])) Fin))\<rparr>"

section \<open>intv\_clksimple.c and 3intv.c\<close>

definition clock_gettime :: "(it, int) cprog" where
  "clock_gettime = (\<lambda>s. case clock s of [] \<Rightarrow> (Return 0, s) | t # ts \<Rightarrow> (Return t, s\<lparr>clock := ts\<rparr>))"

text \<open>\<^verbatim>\<open>errno\<close> is saved and restored. \<open>lines\<close> are those of the messages.\<close>

definition ticktock :: "string \<Rightarrow> nat list \<Rightarrow> int \<Rightarrow> (it, unit) cprog" where
  "ticktock file lines op =
     bnd (gets berrno) (\<lambda>myerrno.
     bnd next_call (\<lambda>r.
     sq (if r < 0 then FATAL (place file ''ticktock'' (lines ! 0)) (''clock_gettime failed'' @ [nl]) else ret ())
     (bnd clock_gettime (\<lambda>tm.
      bnd next_call (\<lambda>r.
      sq (if r < 0 then FATAL (place file ''ticktock'' (lines ! 1)) (''ctime_r failed'' @ [nl]) else ret ())
      (bnd (gets ctime) (\<lambda>ct.
      let tmstamp = ct tm in
      sq (if op = 0 then bnd next_call (\<lambda>r. if r < 0 then FATAL (place file ''ticktock'' (lines ! 2)) (''write failed'' @ [nl]) else printf tmstamp)
          else if op = 1 then printf ([cr] @ butlast tmstamp) else ret ())
      (modify (\<lambda>s. s\<lparr>berrno := myerrno\<rparr>)))))))))"

definition usage_die :: "string \<Rightarrow> (it, unit) cprog" where
  "usage_die name = sq (eprintf (''Usage: '' @ name @ '' {0|1}'' @ [nl] @ '' 0 : the Correct way (using write(2) in the signal handler)'' @ [nl] @
     '' 1 : the *Wrong* way (using printf(3) in the signal handler) *@your risk*'' @ [nl])) (exit_with EXIT_FAILURE)"

definition set_itimer :: "string \<Rightarrow> nat \<Rightarrow> itimer \<times> int \<times> int \<Rightarrow> (it, unit) cprog" where
  "set_itimer file line t = bnd next_call (\<lambda>r. if r < 0 then FATAL (place file ''main'' line) (''setitimer failed'' @ [nl]) else arm t)"

definition intv_setup :: "string list \<Rightarrow> (it, unit) cprog" where
  "intv_setup argv =
     sq (if length argv \<noteq> 2 \<or> length (argv ! 1) \<noteq> 1 then usage_die (argv ! 0) else ret ())
     (let op = atoi (argv ! 1) in
      sq (modify (\<lambda>s. s\<lparr>opt := op\<rparr>))
      (sq (if op \<noteq> 0 \<and> op \<noteq> 1 then usage_die (argv ! 0) else ret ())
      (sq (printf (''Initializing ...'' @ [nl]))
      (sq (if op = 1 then printf ('' *WARNING* [Using printf in signal handler]'' @ [nl]) else ret ())
      (sq (handle_sig SIGALRM (place ''intv_clksimple.c'' ''main'' 96) ''sigaction on SIGALRM failed'')
      (set_itimer ''intv_clksimple.c'' 103 (Real, 1000000, 1000000)))))))"

definition intv_clksimple :: "it prg" where
  "intv_clksimple = \<lparr>hfn = (\<lambda>_ _. Step id (\<lambda>s. Do (ticktock ''intv_clksimple.c'' [41, 43, 47] (opt s)) Fin)), hmsk = full_set, nodef = False, mloop = Fin\<rparr>"

definition timer_line :: "string \<Rightarrow> nat \<Rightarrow> nat \<Rightarrow> (it, unit) cprog" where
  "timer_line fn line signum = printf (''In '' @ fn @ '':'' @ show_nat line @ '' sig='' @ show_nat signum @ [nl])"

definition virtalrm :: "nat \<Rightarrow> (it, unit) cprog" where "virtalrm = timer_line ''virtalrm'' 37"
definition profalrm :: "nat \<Rightarrow> (it, unit) cprog" where "profalrm = timer_line ''profalrm'' 32"

definition three_setup :: "(it, unit) cprog" where
  "three_setup =
     sq (handle_sig SIGALRM (place ''3intv.c'' ''main'' 85) ''sigaction on SIGALRM failed'')
     (sq (handle_sig SIGVTALRM (place ''3intv.c'' ''main'' 92) ''sigaction on SIGALRM failed'')
     (sq (handle_sig SIGPROF (place ''3intv.c'' ''main'' 99) ''sigaction on SIGALRM failed'')
     (sq (set_itimer ''3intv.c'' 106 (Real, 1000000, 1000000))
     (sq (set_itimer ''3intv.c'' 115 (Virtual, 70000, 30000))
     (set_itimer ''3intv.c'' 124 (Prof, 10000, 10000))))))"

definition three_intv :: "it prg" where
  "three_intv = \<lparr>hfn = (\<lambda>sig _. Do (if sig = SIGALRM then ticktock ''3intv.c'' [48, 50, 54] 0 else if sig = SIGVTALRM then virtalrm sig else profalrm sig) Fin),
     hmsk = full_set, nodef = False, mloop = Fin\<rparr>"

section \<open>Alarms\<close>

lemma returns_alarm [simp]: "returns (alarm_handler file line sig)"
  by (simp add: alarm_handler_def)

lemma returns_rearm [simp]: "returns (rearm n)"
  by (simp add: rearm_def arm_def)

interpretation al2: steady "alarm2_rep argv" "[SIGALRM]"
  by unfold_locales (auto simp: alarm2_rep_def tame_Do Let_def)

text \<open>The alarm ends \<^verbatim>\<open>alarm1\<close> when it comes during \<^verbatim>\<open>pause\<close>; when it comes before, the program waits for ever.\<close>

lemma alarm1_ends:
  "\<exists>st. exec alarm1 [Run, Send SIGALRM 0, Deliver, Run, Run, Run, Run] (sm_start [SIGALRM] (\<lambda>_. False) s) = Some st \<and> dead st = Some (Status 0)"
proof -
  have "fst (alarm_handler ''alarm1.c'' 34 SIGALRM s) = Return ()" using returns_alarm unfolding returns_def by blast
  then show ?thesis by (simp add: sig_eval alarm1_def)
qed

definition stuck_at_pause :: "it sm \<Rightarrow> bool" where
  "stuck_at_pause st = (frames st = [] \<and> is_Susp (mainc st) \<and> \<not> intr st \<and> squeue st = [] \<and> dead st = None)"

lemma stuck_needs_signal: "stuck_at_pause st \<Longrightarrow> exec_ev P Run st = None \<and> exec_ev P Deliver st = None"
  by (cases "mainc st") (auto simp: stuck_at_pause_def exec_ev_def run_top_def run_code_def deliver_def next_sig_def)

lemma alarm_before_pause:
  assumes "P = alarm1 \<or> P = alarm2_rep argv"
  shows "\<exists>st. exec P [Send SIGALRM 0, Deliver, Run, Run, Run] (sm_start [SIGALRM] (\<lambda>_. False) s) = Some st \<and> stuck_at_pause st"
proof -
  have r: "fst (alarm_handler f l SIGALRM s) = Return ()" for f l using returns_alarm unfolding returns_def by blast
  from assms show ?thesis
  proof
    assume "P = alarm1"
    then show ?thesis using r by (simp add: sig_eval alarm1_def stuck_at_pause_def)
  next
    assume "P = alarm2_rep argv"
    then show ?thesis using r by (simp add: sig_eval alarm2_rep_def Let_def stuck_at_pause_def)
  qed
qed

text \<open>Each alarm that comes during \<^verbatim>\<open>pause\<close> is reported, and the next is armed.\<close>

lemma alarm2_round:
  assumes "stuck_at_pause st" "mainc st = mloop (alarm2_rep argv)" "disps st = (\<lambda>x. if x = SIGALRM then Hdl else Dfl)" "sblk st = (\<lambda>_. False)" "calls (vars st) = []"
  shows "\<exists>st'. exec (alarm2_rep argv) [Send SIGALRM 0, Deliver, Run, Run, Run, Run, Run, Run] st = Some st' \<and> stuck_at_pause st' \<and> mainc st' = mloop (alarm2_rep argv)
    \<and> disps st' = disps st \<and> sblk st' = sblk st \<and> calls (vars st') = [] \<and> armed (vars st') = armed (vars st) @ [(Alarm, atoi (argv ! 1) * 1000000, 0)]
    \<and> bout (vars st') = bout (vars st) @ [Out (''   *** Timeout! [SIGALRM received] ***'' @ [nl]), Out ('' Timeout for '' @ show_int (atoi (argv ! 1)) @ ''s has been (re)armed...'' @ [nl])]"
  using assms by (simp add: stuck_at_pause_def sig_eval alarm2_rep_def Let_def alarm_handler_def wr_or_warn_def rearm_def arm_def prog_eval run_next_call run_printf)

text \<open>So the sequence of \<open>n\<close> alarms is reported \<open>n\<close> times, and every one arms the next.\<close>

lemma alarm2_repeats:
  assumes "stuck_at_pause st" "mainc st = mloop (alarm2_rep argv)" "disps st = (\<lambda>x. if x = SIGALRM then Hdl else Dfl)" "sblk st = (\<lambda>_. False)" "calls (vars st) = []"
  shows "\<exists>st'. exec (alarm2_rep argv) (concat (replicate n [Send SIGALRM 0, Deliver, Run, Run, Run, Run, Run, Run])) st = Some st'
    \<and> armed (vars st') = armed (vars st) @ replicate n (Alarm, atoi (argv ! 1) * 1000000, 0)"
  using assms
proof (induction n arbitrary: st)
  case 0
  then show ?case by simp
next
  case (Suc n)
  from alarm2_round [OF Suc.prems] obtain st1 where st1: "exec (alarm2_rep argv) [Send SIGALRM 0, Deliver, Run, Run, Run, Run, Run, Run] st = Some st1"
    "stuck_at_pause st1" "mainc st1 = mloop (alarm2_rep argv)" "disps st1 = disps st" "sblk st1 = sblk st" "calls (vars st1) = []"
    "armed (vars st1) = armed (vars st) @ [(Alarm, atoi (argv ! 1) * 1000000, 0)]" by blast
  from Suc.IH [of st1] st1 Suc.prems obtain st' where "exec (alarm2_rep argv) (concat (replicate n [Send SIGALRM 0, Deliver, Run, Run, Run, Run, Run, Run])) st1 = Some st'"
    "armed (vars st') = armed (vars st1) @ replicate n (Alarm, atoi (argv ! 1) * 1000000, 0)" by auto
  then show ?case using st1(1,7) unfolding replicate_Suc concat.simps exec_append by simp
qed

text \<open>What the timers of \<^verbatim>\<open>3intv\<close> are set to.\<close>

lemma three_intv_armed:
  assumes "calls s = []"
  shows "\<exists>s'. three_setup s = (Return (), s') \<and> inst s' = inst s @ [SIGALRM, SIGVTALRM, SIGPROF]
    \<and> armed s' = armed s @ [(Real, 1000000, 1000000), (Virtual, 70000, 30000), (Prof, 10000, 10000)]"
  using assms by (simp add: three_setup_def handle_sig_def set_itimer_def arm_def prog_eval run_next_call)

text \<open>A tick prints the time and leaves \<^verbatim>\<open>errno\<close> as it was.\<close>

lemma ticktock_prints:
  assumes "calls s = []" "clock s = t # ts"
  shows "\<exists>s'. ticktock file ls 0 s = (Return (), s') \<and> bout s' = bout s @ [Out (ctime s t)] \<and> berrno s' = berrno s \<and> clock s' = ts"
  using assms by (simp add: ticktock_def clock_gettime_def prog_eval run_next_call run_printf Let_def)

end
