(* ===== verification/Thread_Demos.thy ===== *)
theory Thread_Demos
  imports Book_Common
begin

text \<open>
  Threads that main creates in a loop: \<^verbatim>\<open>pthreads1.c\<close>, \<^verbatim>\<open>pthreads2.c\<close>, \<^verbatim>\<open>pthreads3.c\<close>, \<^verbatim>\<open>cr8_so_many_threads.c\<close>, \<^verbatim>\<open>stack_test.c\<close>,
  \<^verbatim>\<open>pthreads1_wrong.c\<close>, \<^verbatim>\<open>struct_as_param.c\<close> and \<^verbatim>\<open>pthread_test.c\<close> of \<^verbatim>\<open>src/booksrc/ch14\<close>, \<^verbatim>\<open>named_threads.c\<close> and \<^verbatim>\<open>see_tid.c\<close> of
  \<^verbatim>\<open>src/booksrc/solutions_to_assgn/ch14\<close> and \<^verbatim>\<open>cancelit.c\<close> of \<^verbatim>\<open>src/booksrc/ch16\<close>. A thread is the tree of what it still does, its
  variables the arguments of the continuations; the threads share the state. Threads are numbered in the order of their creation, main
  is 0. \<open>tstep\<close> interleaves them; when one ends the process, all end.
\<close>

section \<open>Threads\<close>

text \<open>\<open>Spawn w k\<close> starts a thread with the code \<open>w\<close> and goes on with its number; \<open>Join\<close> waits for the end of a thread and gets its status.\<close>

datatype 's thr = Ended int | Die int | Rest | Tell io "'s thr" | Upd "'s \<Rightarrow> 's" "'s \<Rightarrow> 's thr" | Spawn "'s thr" "nat \<Rightarrow> 's thr" | Join nat "int \<Rightarrow> 's thr"

record 's tm =
  thrs :: "'s thr list"
  tsh :: 's
  tout :: "(nat \<times> io) list"
  over :: "int option"

definition run_thr :: "nat \<Rightarrow> 's tm \<Rightarrow> 's tm option" where
  "run_thr i m = (case thrs m ! i of
      Ended _ \<Rightarrow> None
    | Die n \<Rightarrow> Some (m\<lparr>over := Some n\<rparr>)
    | Rest \<Rightarrow> None
    | Tell x t \<Rightarrow> Some (m\<lparr>thrs := (thrs m)[i := t], tout := tout m @ [(i, x)]\<rparr>)
    | Upd f k \<Rightarrow> Some (m\<lparr>thrs := (thrs m)[i := k (tsh m)], tsh := f (tsh m)\<rparr>)
    | Spawn w k \<Rightarrow> Some (m\<lparr>thrs := (thrs m)[i := k (length (thrs m))] @ [w]\<rparr>)
    | Join j k \<Rightarrow> (case thrs m ! j of Ended st \<Rightarrow> Some (m\<lparr>thrs := (thrs m)[i := k st]\<rparr>) | _ \<Rightarrow> None))"

inductive tstep :: "'s tm \<Rightarrow> 's tm \<Rightarrow> bool" where
  tstep: "over m = None \<Longrightarrow> i < length (thrs m) \<Longrightarrow> run_thr i m = Some m' \<Longrightarrow> tstep m m'"

inductive_cases tstepE: "tstep m m'"

section \<open>What the programs share\<close>

text \<open>\<open>tres\<close> are the results of the coming pthread calls, \<open>loopi\<close> the variable \<^verbatim>\<open>i\<close> of main and \<open>cancel\<close> a cancellation of thread 0 that was asked for.\<close>

record tv =
  tmem :: "bool list"
  terr :: "string option"
  tres :: "int list"
  loopi :: int
  tids :: "nat option list"
  tnames :: "(nat \<times> string) list"
  tpid :: int
  tid_of :: "nat \<Rightarrow> int"
  cancel :: bool

type_synonym thread = "tv thr"

definition tells :: "io list \<Rightarrow> thread \<Rightarrow> thread" where
  "tells l t = foldr Tell l t"

definition tcall :: "(int \<Rightarrow> thread) \<Rightarrow> thread" where
  "tcall k = Upd (\<lambda>s. s\<lparr>tres := tl (tres s)\<rparr>) (\<lambda>s. k (if tres s = [] then 0 else hd (tres s)))"

definition terror :: "string \<Rightarrow> (io list \<Rightarrow> thread) \<Rightarrow> thread \<Rightarrow> thread" where
  "terror msg said quiet = Upd (\<lambda>s. s\<lparr>tmem := tl (tmem s)\<rparr>) (\<lambda>s.
     if tmem s \<noteq> [] \<and> \<not> hd (tmem s) then quiet
     else said ([Err (take 510 msg)] @ (case terr s of None \<Rightarrow> [] | Some txt \<Rightarrow> [Err ''  '', Err (''kernel says: '' @ txt @ [nl])])))"

definition tfatal :: "string \<Rightarrow> string \<Rightarrow> thread \<Rightarrow> thread" where
  "tfatal loc msg k = terror (''FATAL:'' @ loc @ msg) (\<lambda>l. tells l (Die EXIT_FAILURE)) k"

definition twarn :: "string \<Rightarrow> string \<Rightarrow> thread \<Rightarrow> thread" where
  "twarn loc msg k = terror (''!WARNING! '' @ loc @ msg) (\<lambda>l. tells l k) k"

definition note_tid :: "nat option \<Rightarrow> thread \<Rightarrow> thread" where
  "note_tid t k = Upd (\<lambda>s. s\<lparr>tids := tids s @ [t]\<rparr>) (\<lambda>_. k)"

text \<open>\<^verbatim>\<open>pthread_create\<close>: a thread that could not be created has no number.\<close>

definition create :: "thread \<Rightarrow> (int \<Rightarrow> thread \<Rightarrow> thread) \<Rightarrow> thread \<Rightarrow> thread" where
  "create w failed k = tcall (\<lambda>r. if r \<noteq> 0 then failed r (note_tid None k) else Spawn w (\<lambda>t. note_tid (Some t) k))"

text \<open>The loop over \<open>n\<close> threads from the \<open>i\<close>-th on; \<open>body i k\<close> is one round.\<close>

fun rounds :: "(nat \<Rightarrow> thread \<Rightarrow> thread) \<Rightarrow> nat \<Rightarrow> nat \<Rightarrow> thread \<Rightarrow> thread" where
  "rounds body i 0 k = k"
| "rounds body i (Suc n) k = body i (rounds body (Suc i) n k)"

definition create_failed :: "string \<Rightarrow> nat \<Rightarrow> int \<Rightarrow> thread \<Rightarrow> thread" where
  "create_failed file line r k = tfatal (place file ''main'' line) (''pthread_create() failed! ['' @ show_int r @ '']'' @ [nl]) k"

section \<open>pthreads1.c, pthreads2.c, pthreads3.c\<close>

definition hello_worker :: "nat \<Rightarrow> thread" where
  "hello_worker n = tells [Out (''Worker thread #'' @ show_nat n @ '' says: hello, world.'' @ [nl]), Out ('' #'' @ show_nat n @ '': work done, exiting now'' @ [nl])] (Ended 0)"

definition pthreads1 :: thread where
  "pthreads1 = rounds (\<lambda>i. create (hello_worker i) (create_failed ''pthreads1.c'' 41)) 0 3 (Die EXIT_SUCCESS)"

definition running_worker :: "nat \<Rightarrow> thread" where
  "running_worker n = tells [Out (''Worker thread #'' @ show_nat n @ '' running ...'' @ [nl]), Out (''#'' @ show_nat n @ '': work done, exiting now'' @ [nl])] (Ended 0)"

definition pthreads2 :: thread where
  "pthreads2 = rounds (\<lambda>i. create (running_worker i) (create_failed ''pthreads2.c'' 42)) 0 3 (Ended 0)"

definition pthreads3 :: thread where
  "pthreads3 = rounds (\<lambda>i. create (running_worker i) (create_failed ''pthreads3.c'' 44)) 0 3 (Ended 0)"

section \<open>pthreads1\_wrong.c\<close>

text \<open>Each worker is given the address of main's \<^verbatim>\<open>i\<close>, which \<open>addr\<close> prints; it reads it when it runs.\<close>

definition wrong_worker :: "string \<Rightarrow> thread" where
  "wrong_worker addr = Upd id (\<lambda>s. Tell (Out (''Worker thread: data_addr='' @ addr @ '' value='' @ show_int (loopi s) @ [nl])) (Ended 0))"

definition wrong_round :: "string \<Rightarrow> nat \<Rightarrow> thread \<Rightarrow> thread" where
  "wrong_round addr i k =
     Tell (Out (''Creating thread #'' @ show_nat i @ '' now ...'' @ [nl]))
     (create (wrong_worker addr) (create_failed ''pthreads1_wrong.c'' 46) (Upd (\<lambda>s. s\<lparr>loopi := int (Suc i)\<rparr>) (\<lambda>_. k)))"

definition pthreads1_wrong :: "string \<Rightarrow> thread" where
  "pthreads1_wrong addr = Tell (Out (''main: &i='' @ addr @ [nl])) (Upd (\<lambda>s. s\<lparr>loopi := 0\<rparr>) (\<lambda>_. rounds (wrong_round addr) 0 3 (Die EXIT_SUCCESS)))"

section \<open>cr8\_so\_many\_threads.c, see\_tid.c, named\_threads.c\<close>

text \<open>The workers pause and are never woken.\<close>

definition pad5 :: "nat \<Rightarrow> string" where
  "pad5 n = pad (CHR '' '') 5 (show_nat n)"

definition pausing_worker :: "nat \<Rightarrow> thread" where
  "pausing_worker n = Tell (Out (''Worker thread #'' @ pad5 n @ '': pausing now...'' @ [nl])) Rest"

definition tusage :: "string \<Rightarrow> thread" where
  "tusage msg = Tell (Err msg) (Die EXIT_FAILURE)"

definition cr8_so_many_threads :: "string list \<Rightarrow> thread" where
  "cr8_so_many_threads argv =
     (let usage = tusage (''Usage: '' @ argv ! 0 @ '' number-of-threads-to-create'' @ [nl]) in
      if length argv \<noteq> 2 then usage
      else let numthrds = fst (strtol10 (argv ! 1)) in
        if numthrds \<le> 0 then usage
        else rounds (\<lambda>i. create (pausing_worker i) (\<lambda>r. tfatal (place ''cr8_so_many_threads.c'' ''main'' 52)
          (''pthread_create() #'' @ show_int (i32 (int i)) @ '' failed! ['' @ show_int r @ '']'' @ [nl]))) 0 (nat numthrds) (Ended 0))"

definition seeing_worker :: "nat \<Rightarrow> thread" where
  "seeing_worker n = Upd id (\<lambda>s. Tell (Out (''Worker thread #'' @ pad5 n @ '' [PID '' @ show_int (tpid s) @ '' * TID '' @ show_int (tid_of s n) @ '' *]: pausing now...'' @ [nl])) Rest)"

definition see_tid :: "string list \<Rightarrow> thread" where
  "see_tid argv =
     (let usage = tusage (''Usage: '' @ argv ! 0 @ '' number-of-threads-to-create'' @ [nl]) in
      if length argv \<noteq> 2 then usage
      else let numthrds = fst (strtol10 (argv ! 1)) in
        if numthrds \<le> 0 then usage
        else rounds (\<lambda>i. create (seeing_worker i) (\<lambda>r k. Upd id (\<lambda>s. tfatal (place ''see_tid.c'' ''main'' 67)
          (''pthread_create() PID '' @ show_int (tpid s) @ '' failed @ thread #'' @ show_int (i32 (int i)) @ ''! [ret='' @ show_int r @ '']'' @ [nl]) k))) 0 (nat numthrds) (Ended 0))"

text \<open>\<^verbatim>\<open>snprintf(nm, 11, ...)\<close> keeps ten characters of the name.\<close>

definition thread_name :: "string \<Rightarrow> nat \<Rightarrow> string" where
  "thread_name prefix i = take 10 (prefix @ ''_'' @ show_nat i)"

definition name_round :: "string list \<Rightarrow> nat \<Rightarrow> thread \<Rightarrow> thread" where
  "name_round argv i k =
     create (pausing_worker i) (\<lambda>r. tfatal (place ''named_threads.c'' ''main'' 69) (''pthread_create() #'' @ show_int (i32 (int i)) @ '' failed! ['' @ show_int r @ '']'' @ [nl]))
     (tcall (\<lambda>r. if r \<noteq> 0 then tfatal (place ''named_threads.c'' ''main'' 77) (''pthread_setname_np ('' @ show_int (i32 (int i)) @ '') failed! ['' @ show_int r @ '']'' @ [nl]) k
       else Upd (\<lambda>s. s\<lparr>tnames := tnames s @ [(i, thread_name (argv ! 1) i)]\<rparr>) (\<lambda>_. k)))"

definition named_threads :: "string list \<Rightarrow> thread" where
  "named_threads argv =
     (let usage = tusage (''Usage: '' @ argv ! 0 @ '' thread-name-prefix number-of-threads-to-create'' @ [nl]) in
      if length argv \<noteq> 3 then usage
      else let numthrds = fst (strtol10 (argv ! 2)) in
        if numthrds \<le> 0 then usage
        else if 8 \<le> length (argv ! 1) then tusage (argv ! 0 @ '': thread-name-prefix  '' @ [CHR 0x22] @ argv ! 1 @ [CHR 0x22] @ '' is too long (max 7 bytes)'' @ [nl])
        else rounds (name_round argv) 0 (nat numthrds) (Ended 0))"

section \<open>Joining: pthread\_test.c, struct\_as\_param.c, stack\_test.c, cancelit.c\<close>

text \<open>\<^verbatim>\<open>pthread_join\<close> of the \<open>i\<close>-th thread; the number of one that was not created is whatever the variable holds, which the model ends as a fault.\<close>

definition join :: "nat \<Rightarrow> (int \<Rightarrow> thread \<Rightarrow> thread) \<Rightarrow> (int \<Rightarrow> thread) \<Rightarrow> thread \<Rightarrow> thread" where
  "join i failed joined k = tcall (\<lambda>r.
     if r \<noteq> 0 then failed r k
     else Upd id (\<lambda>s. case (if i < length (tids s) then tids s ! i else None) of None \<Rightarrow> Die 139 | Some t \<Rightarrow> Join t joined))"

definition pt_round :: "nat \<Rightarrow> thread \<Rightarrow> thread" where
  "pt_round i k =
     create (Ended 0) (create_failed ''pthread_test.c'' 44)
     (join i (\<lambda>r. tfatal (place ''pthread_test.c'' ''main'' 49) (''pthread_join() failed! ['' @ show_int r @ '']'' @ [nl])) (\<lambda>_. k) k)"

definition pthread_test :: thread where
  "pthread_test = rounds pt_round 0 60000 (Ended 0)"

text \<open>An airport: code, name, coordinates as \<^verbatim>\<open>%9.4f\<close> prints them, altitude.\<close>

type_synonym airport = "string \<times> string \<times> string \<times> string \<times> nat"

definition city_airports :: "airport list" where
  "city_airports =
    [(''BLR'', ''Bangalore International'', ''  13.1986'', ''  77.7066'', 904),
     (''BNE'', ''Brisbane International'', ''  27.3942'', '' 153.1218'', 4),
     (''BRU'', ''Brussels National'', ''  50.9010'', ''   4.4856'', 58)]"

definition airport_lines :: "airport \<Rightarrow> io list" where
  "airport_lines = (\<lambda>(code, city, lat, lon, alt).
     [Out ([nl] @ ''----------- Airports Details ---------------'' @ [nl] @ ''  IATA code : '' @ take 3 code @ ''           '' @ pad (CHR '' '') 32 city @ [nl] @
        ''  Latitude, Longitude, Altitude : '' @ lat @ '' '' @ lon @ '' '' @ pad (CHR '' '') 9 (show_nat alt) @ ''m'' @ [nl]),
      Out ('' worker : will sleep for 8s now ...'' @ [nl]), Out ('' worker : work done, exiting now'' @ [nl])])"

definition sp_worker :: "airport \<Rightarrow> thread" where
  "sp_worker arg = tells (airport_lines arg) (Ended 0)"

definition farewell_end :: thread where
  "farewell_end = Tell (Out ([nl] @ ''main: now dying... <Dramatic!> Farewell!'' @ [nl])) (Ended 0)"

definition status_line :: "nat \<Rightarrow> int \<Rightarrow> io" where
  "status_line i stat = Out (''Thread #'' @ show_nat i @ '' successfully joined; it terminated with status='' @ show_int stat @ [nl])"

definition creating_line :: "nat \<Rightarrow> io" where
  "creating_line i = Out (''main: creating thread #'' @ show_nat i @ '' ...'' @ [nl])"

definition joining_line :: "nat \<Rightarrow> io" where
  "joining_line i = Out (''main: joining (waiting) upon thread #'' @ show_nat i @ '' ...'' @ [nl])"

text \<open>Without memory the copy goes through NULL.\<close>

definition sp_create :: "nat \<Rightarrow> thread \<Rightarrow> thread" where
  "sp_create i k = Tell (creating_line i)
     (Upd (\<lambda>s. s\<lparr>tmem := tl (tmem s)\<rparr>) (\<lambda>s.
       if tmem s = [] \<or> hd (tmem s) then
         create (sp_worker (city_airports ! i)) (\<lambda>r. tfatal (place ''struct_as_param.c'' ''main'' 94) (''pthread_create() index '' @ show_nat i @ '' failed! ['' @ show_int r @ '']'' @ [nl])) k
       else tfatal (place ''struct_as_param.c'' ''main'' 89) (''calloc ['' @ show_nat i @ ''] failed'' @ [nl]) (Die 139)))"

definition sp_join :: "nat \<Rightarrow> thread \<Rightarrow> thread" where
  "sp_join i k = Tell (joining_line i)
     (join i (\<lambda>r. twarn (place ''struct_as_param.c'' ''main'' 103) (''pthread_join() index '' @ show_nat i @ '' failed! ['' @ show_int r @ '']'' @ [nl]))
       (\<lambda>stat. Tell (status_line i stat) k) k)"

definition struct_as_param :: thread where
  "struct_as_param = rounds sp_create 0 3 (rounds sp_join 0 3 farewell_end)"

text \<open>
  \<^verbatim>\<open>danger\<close> has an array of two million bytes on the stack of thread 1: with a smaller stack the write to it ends the process. \<open>alpha\<close> is
  the sum it prints, of an array whose last column was never written.
\<close>

definition st_worker :: "int \<Rightarrow> int \<Rightarrow> nat \<Rightarrow> thread" where
  "st_worker stack alpha n = Tell (Out ('' worker #'' @ show_nat n @ '':'' @ [nl]))
     (if n \<noteq> 1 then Ended 1
      else if stack < 2000000 then Die 139
      else tells [Out ([nl] @ '' *** In danger(): here, sizeof long is 8'' @ [nl]), Out (''dummy(): parameter val = '' @ show_int alpha @ [nl])] (Ended 0))"

definition st_size :: "string list \<Rightarrow> int" where
  "st_size argv = (let n = i32 (atoi (argv ! 1) * 1024) in if n \<le> 0 then 1048576 else n)"

definition st_create :: "int \<Rightarrow> int \<Rightarrow> nat \<Rightarrow> thread \<Rightarrow> thread" where
  "st_create stack alpha i k = Tell (creating_line i) (create (st_worker stack alpha i) (create_failed ''stack_test.c'' 135) k)"

definition st_join :: "nat \<Rightarrow> thread \<Rightarrow> thread" where
  "st_join i k = Tell (joining_line i)
     (join i (\<lambda>r. twarn (place ''stack_test.c'' ''main'' 144) (''pthread_join() failed! ['' @ show_int r @ '']'' @ [nl]))
       (\<lambda>stat. Tell (status_line i stat) k) k)"

definition pad10 :: "int \<Rightarrow> string" where
  "pad10 n = pad (CHR '' '') 10 (show_int n)"

definition stack_test :: "int \<Rightarrow> int \<Rightarrow> int \<Rightarrow> string list \<Rightarrow> thread" where
  "stack_test dflt guard alpha argv =
     (if length argv \<noteq> 2 then tusage (''Usage: '' @ argv ! 0 @ '' size-of-thread-stack-in-KB'' @ [nl])
      else let n = i32 (atoi (argv ! 1) * 1024); stack = st_size argv in
        tells (if n \<le> 0 then [Err (argv ! 0 @ '': invalid stack size ('' @ show_int (u32 n) @ '') provided, defaulting to 1048576 bytes'' @ [nl])] else [])
        (tcall (\<lambda>r. let k1 = Tell (Out (''Default thread stack size       : '' @ pad10 dflt @ '' bytes'' @ [nl]))
          (tcall (\<lambda>r. let k2 = Tell (Out (''Thread stack size now set to    : '' @ pad10 stack @ '' bytes'' @ [nl]))
            (tcall (\<lambda>r. let k3 = Tell (Out (''Default thread stack guard size : '' @ pad10 guard @ '' bytes'' @ [nl, nl]))
              (rounds (st_create stack alpha) 0 3 (rounds st_join 0 3 farewell_end)) in
              if r \<noteq> 0 then tfatal (place ''stack_test.c'' ''main'' 127) (''pthread_attr_getstackguard() failed! ['' @ show_int r @ '']'' @ [nl]) k3 else k3)) in
            if r \<noteq> 0 then tfatal (place ''stack_test.c'' ''main'' 121) (''pthread_attr_setstack(1048576) failed! ['' @ show_int r @ '']'' @ [nl]) k2 else k2)) in
          if r \<noteq> 0 then tfatal (place ''stack_test.c'' ''main'' 115) (''pthread_attr_getstack() failed! ['' @ show_int r @ '']'' @ [nl]) k1 else k1)))"

text \<open>
  \<^verbatim>\<open>cancelit.c\<close>: thread 0 cannot be cancelled during its work; \<^verbatim>\<open>sleep\<close> is where a cancellation acts. \<open>PTHREAD_CANCELED\<close> is -1.
\<close>

fun tbeeps :: "char \<Rightarrow> nat \<Rightarrow> thread \<Rightarrow> thread" where
  "tbeeps c 0 k = k"
| "tbeeps c (Suc n) k = Tell (Out [c]) (tbeeps c n k)"

definition ca_state :: "nat \<Rightarrow> nat \<Rightarrow> thread \<Rightarrow> thread" where
  "ca_state line which k = tcall (\<lambda>ret. if ret \<noteq> 0 then tfatal (place ''cancelit.c'' ''worker'' line) (''pthread_setcancelstate failed '' @ show_nat which @ '' ['' @ show_int ret @ '']'' @ [nl]) k else k)"

definition ca_worker :: "nat \<Rightarrow> thread" where
  "ca_worker datum =
     (let rest = Tell (Out ('' worker #'' @ show_nat datum @ '': will sleep for 8s now ...'' @ [nl]))
            (Upd id (\<lambda>s. if datum = 0 \<and> cancel s then Ended (-1)
              else Tell (Out ('' worker #'' @ show_nat datum @ '': work (eyeroll) done, exiting now'' @ [nl])) (Ended 0))) in
      if datum = 0 then
        Tell (Out ('' worker #'' @ show_nat datum @ '': disabling Cancellation: will '' @ [CHR 0x27] @ ''work'' @ [CHR 0x27] @ '' now...'' @ [nl]))
        (ca_state 37 0
        (tbeeps (CHR ''0'') 100
        (Tell (Out ([nl] @ '' worker #'' @ show_nat datum @ '': enabling Cancellation'' @ [nl]))
        (ca_state 41 1 rest))))
      else rest)"

definition ca_create :: "nat \<Rightarrow> thread \<Rightarrow> thread" where
  "ca_create i k = Tell (creating_line i) (create (ca_worker i) (create_failed ''cancelit.c'' 70) k)"

definition ca_join :: "nat \<Rightarrow> thread \<Rightarrow> thread" where
  "ca_join i k = Tell (joining_line i)
     (join i (\<lambda>r. twarn (place ''cancelit.c'' ''main'' 84) (''pthread_join() failed! ['' @ show_int r @ '']'' @ [nl]))
       (\<lambda>stat. Tell (status_line i stat) (if stat = -1 then Tell (Out (''   *** Was CANCELLED ***'' @ [nl])) k else k)) k)"

definition cancelit :: thread where
  "cancelit = rounds ca_create 0 2
     (tcall (\<lambda>r. if r \<noteq> 0 then tfatal (place ''cancelit.c'' ''main'' 77) (''pthread_cancel(thread 0) failed! ['' @ show_int r @ '']'' @ [nl]) (rounds ca_join 0 2 farewell_end)
       else Upd (\<lambda>s. s\<lparr>cancel := True\<rparr>) (\<lambda>_. rounds ca_join 0 2 farewell_end)))"

section \<open>Every thread has its own lines\<close>

text \<open>A worker that only prints, and what it prints; what thread \<open>i\<close> has printed so far.\<close>

primrec printer :: "'s thr \<Rightarrow> bool" where
  "printer (Ended n) = True"
| "printer (Die n) = False"
| "printer Rest = True"
| "printer (Tell x t) = printer t"
| "printer (Upd f k) = False"
| "printer (Spawn u k) = False"
| "printer (Join j k) = False"

primrec lines :: "'s thr \<Rightarrow> io list" where
  "lines (Ended n) = []"
| "lines (Die n) = []"
| "lines Rest = []"
| "lines (Tell x t) = x # lines t"
| "lines (Upd f k) = []"
| "lines (Spawn u k) = []"
| "lines (Join j k) = []"

definition told :: "nat \<Rightarrow> 's tm \<Rightarrow> io list" where
  "told i m = map snd (filter (\<lambda>x. fst x = i) (tout m))"

text \<open>
  Main, when every call succeeds and there are \<open>n\<close> threads, creates the workers \<open>w (n - 1)\<close>, \<open>w n\<close> and so on, in this order.
\<close>

primrec spawns :: "(nat \<Rightarrow> thread) \<Rightarrow> thread \<Rightarrow> nat \<Rightarrow> bool" where
  "spawns w (Ended x) n = True"
| "spawns w (Die x) n = True"
| "spawns w Rest n = True"
| "spawns w (Tell x t) n = spawns w t n"
| "spawns w (Upd f k) n = (\<forall>s. tres s = [] \<longrightarrow> tres (f s) = [] \<and> spawns w (k s) n)"
| "spawns w (Spawn u k) n = (u = w (n - 1) \<and> spawns w (k n) (Suc n))"
| "spawns w (Join j k) n = (\<forall>x. spawns w (k x) n)"

definition workers :: "(nat \<Rightarrow> thread) \<Rightarrow> tv tm \<Rightarrow> bool" where
  "workers w m = (thrs m \<noteq> [] \<and> spawns w (thrs m ! 0) (length (thrs m)) \<and> tres (tsh m) = []
     \<and> (\<forall>i. 0 < i \<and> i < length (thrs m) \<longrightarrow> printer (thrs m ! i) \<and> told i m @ lines (thrs m ! i) = lines (w (i - 1))) \<and> (\<forall>i \<ge> length (thrs m). told i m = []))"

definition alone :: "thread \<Rightarrow> tv tm \<Rightarrow> bool" where
  "alone t m = (thrs m = [t] \<and> tout m = [] \<and> over m = None \<and> tres (tsh m) = [])"

lemma workers_step:
  assumes "workers w m" "\<forall>i. printer (w i)" "tstep m m'"
  shows "workers w m'"
proof -
  from assms(3) obtain i where i: "i < length (thrs m)" "run_thr i m = Some m'" by (auto elim: tstepE)
  show ?thesis
  proof (cases i)
    case 0
    then have sp: "spawns w (thrs m ! 0) (length (thrs m))" "thrs m \<noteq> []" using assms(1) by (simp_all add: workers_def)
    show ?thesis
    proof (cases "thrs m ! 0")
      case (Spawn u k)
      then have "m' = m\<lparr>thrs := (thrs m)[0 := k (length (thrs m))] @ [w (length (thrs m) - 1)]\<rparr>" using i(2) 0 sp by (simp add: run_thr_def)
      then show ?thesis using assms(1,2) sp Spawn by (auto simp: workers_def told_def nth_append nth_list_update less_Suc_eq)
    next
      case (Join j k)
      then obtain st where "m' = m\<lparr>thrs := (thrs m)[0 := k st]\<rparr>" using i(2) 0 by (auto simp: run_thr_def split: thr.splits)
      then show ?thesis using assms(1) sp Join by (auto simp: workers_def told_def nth_list_update)
    next
      case (Tell x t)
      then have "m' = m\<lparr>thrs := (thrs m)[0 := t], tout := tout m @ [(0, x)]\<rparr>" using i(2) 0 by (simp add: run_thr_def)
      then show ?thesis using assms(1) sp Tell by (auto simp: workers_def told_def nth_list_update)
    next
      case (Upd f k)
      then have "m' = m\<lparr>thrs := (thrs m)[0 := k (tsh m)], tsh := f (tsh m)\<rparr>" using i(2) 0 by (simp add: run_thr_def)
      then show ?thesis using assms(1) sp Upd by (auto simp: workers_def told_def nth_list_update)
    qed (use i(2) 0 assms(1) in \<open>auto simp: run_thr_def workers_def told_def\<close>)
  next
    case (Suc j)
    then have p: "printer (thrs m ! i)" using assms(1) i(1) by (simp add: workers_def)
    then obtain x t where t: "thrs m ! i = Tell x t" using i(2) by (cases "thrs m ! i") (auto simp: run_thr_def)
    then have m': "m' = m\<lparr>thrs := (thrs m)[i := t], tout := tout m @ [(i, x)]\<rparr>" using i(2) by (simp add: run_thr_def)
    have "told i m @ x # lines t = lines (w (i - 1))" "printer t" using assms(1) i(1) Suc t p by (auto simp: workers_def)
    moreover have "told k m' = (if k = i then told i m @ [x] else told k m)" for k unfolding m' by (simp add: told_def)
    moreover have "thrs m' ! k = (if k = i then t else thrs m ! k)" for k using i(1) unfolding m' by simp
    moreover have "length (thrs m') = length (thrs m)" "thrs m' \<noteq> []" "tsh m' = tsh m" using i(1) unfolding m' by auto
    ultimately show ?thesis using assms(1) Suc i(1) by (simp add: workers_def)
  qed
qed

lemma workers_run:
  assumes "alone t m0" "spawns w t 1" "\<forall>i. printer (w i)" "(tstep ^^ n) m0 m"
  shows "workers w m"
  using assms(4)
proof (induction n arbitrary: m)
  case 0
  then show ?case using assms(1,2) by (auto simp: alone_def workers_def told_def)
next
  case (Suc n)
  then obtain m1 where "(tstep ^^ n) m0 m1" "tstep m1 m" by (auto elim: relpowp_Suc_E)
  then show ?case using Suc.IH workers_step [OF _ assms(3)] by blast
qed

text \<open>However the threads run, each prints a prefix of its own lines, those for its own argument.\<close>

lemma threads_own_lines:
  assumes "alone t m0" "spawns w t 1" "\<forall>i. printer (w i)" "(tstep ^^ n) m0 m"
  shows "\<exists>l. told (Suc i) m @ l = lines (w i)"
proof (cases "Suc i < length (thrs m)")
  case True
  then have "told (Suc i) m @ lines (thrs m ! Suc i) = lines (w (Suc i - 1))" using workers_run [OF assms] unfolding workers_def by blast
  then show ?thesis by auto
next
  case False
  then show ?thesis using workers_run [OF assms] by (auto simp: workers_def)
qed

lemma spawns_tells: "spawns w (tells l t) n = spawns w t n"
  by (induction l) (simp_all add: tells_def)

lemma spawns_tfatal: "spawns w k n \<Longrightarrow> spawns w (tfatal loc msg k) n"
  by (simp add: tfatal_def terror_def spawns_tells)

lemma spawns_create: "u = w (n - 1) \<Longrightarrow> spawns w k (Suc n) \<Longrightarrow> spawns w (create u failed k) n"
  by (simp add: create_def tcall_def note_tid_def)

lemma spawns_join: "(\<And>x. spawns w (joined x) n) \<Longrightarrow> spawns w (join i failed joined k) n"
  by (simp add: join_def tcall_def split: option.splits)

lemma printer_tells: "printer (tells l t) = printer t"
  by (induction l) (simp_all add: tells_def)

lemma lines_tells: "lines (tells l t) = l @ lines t"
  by (induction l) (simp_all add: tells_def)

text \<open>A loop whose rounds each create one thread, and one whose rounds create none.\<close>

lemma spawns_rounds:
  assumes "\<And>i k. spawns w k (Suc (Suc i)) \<Longrightarrow> spawns w (body i k) (Suc i)" "spawns w k (Suc (i + r))"
  shows "spawns w (rounds body i r k) (Suc i)"
  using assms(2) by (induction r arbitrary: i) (auto intro: assms(1))

lemma spawns_rounds0:
  assumes "\<And>i k. spawns w k n \<Longrightarrow> spawns w (body i k) n" "spawns w k n"
  shows "spawns w (rounds body i r k) n"
  using assms(2) by (induction r arbitrary: i) (auto intro: assms(1))

text \<open>In \<^verbatim>\<open>struct_as_param.c\<close> each thread has a copy of its own airport.\<close>

lemma struct_as_param_own:
  assumes "alone struct_as_param m0" "(tstep ^^ n) m0 m"
  shows "\<exists>l. told (Suc i) m @ l = airport_lines (city_airports ! i)"
proof -
  let ?w = "\<lambda>i. sp_worker (city_airports ! i)"
  have c: "spawns ?w k (Suc (Suc i)) \<Longrightarrow> spawns ?w (sp_create i k) (Suc i)" for i k
    by (auto simp: sp_create_def intro!: spawns_create spawns_tfatal)
  have j: "spawns ?w k n \<Longrightarrow> spawns ?w (sp_join i k) n" for i k n by (simp add: sp_join_def spawns_join)
  have "spawns ?w struct_as_param (Suc 0)" unfolding struct_as_param_def
    by (rule spawns_rounds [of ?w sp_create, OF c]) (auto intro!: spawns_rounds0 j simp: farewell_end_def)
  then have "\<exists>l. told (Suc i) m @ l = lines (?w i)" using threads_own_lines [OF assms(1) _ _ assms(2), of ?w] by (simp add: sp_worker_def printer_tells)
  then show ?thesis by (simp add: sp_worker_def lines_tells)
qed

section \<open>Ends of the creating programs\<close>

text \<open>When every call succeeds main creates \<open>N\<close> threads and ends; it neither waits nor ends the process.\<close>

primrec creates :: "nat \<Rightarrow> thread \<Rightarrow> nat \<Rightarrow> bool" where
  "creates N (Ended x) n = (n = Suc N)"
| "creates N (Die x) n = False"
| "creates N Rest n = False"
| "creates N (Tell x t) n = creates N t n"
| "creates N (Upd f k) n = (\<forall>s. tres s = [] \<longrightarrow> creates N (k s) n)"
| "creates N (Spawn u k) n = creates N (k n) (Suc n)"
| "creates N (Join j k) n = False"

definition creating :: "nat \<Rightarrow> tv tm \<Rightarrow> bool" where
  "creating N m = (creates N (thrs m ! 0) (length (thrs m)) \<and> over m = None)"

lemma creating_step:
  assumes "workers w m" "creating N m" "tstep m m'"
  shows "creating N m'"
proof -
  from assms(3) obtain i where i: "i < length (thrs m)" "run_thr i m = Some m'" by (auto elim: tstepE)
  have n: "thrs m \<noteq> []" "tres (tsh m) = []" using assms(1) by (auto simp: workers_def)
  show ?thesis
  proof (cases i)
    case 0
    then show ?thesis using assms(2) i n by (cases "thrs m ! 0") (auto simp: creating_def run_thr_def nth_append nth_list_update)
  next
    case (Suc j)
    then have "printer (thrs m ! i)" using assms(1) i(1) by (simp add: workers_def)
    then obtain x t where "thrs m ! i = Tell x t" using i(2) by (cases "thrs m ! i") (auto simp: run_thr_def)
    then have "m' = m\<lparr>thrs := (thrs m)[i := t], tout := tout m @ [(i, x)]\<rparr>" using i(2) by (simp add: run_thr_def)
    then show ?thesis using assms(2) Suc by (simp add: creating_def)
  qed
qed

lemma creates_all:
  assumes "alone t m0" "spawns w t 1" "\<forall>i. printer (w i)" "creates N t 1" "(tstep ^^ n) m0 m" "\<not> (\<exists>m'. tstep m m')"
  shows "over m = None \<and> length (thrs m) = Suc N \<and> (\<forall>i < N. told (Suc i) m = lines (w i))"
proof -
  have "creating N m" using assms(5)
  proof (induction n arbitrary: m)
    case 0
    then show ?case using assms(1,4) by (auto simp: creating_def alone_def)
  next
    case (Suc n)
    then obtain m1 where m1: "(tstep ^^ n) m0 m1" "tstep m1 m" by (auto elim: relpowp_Suc_E)
    then show ?case using Suc.IH [OF m1(1)] creating_step [OF workers_run [OF assms(1-3) m1(1)] _ m1(2)] by blast
  qed
  moreover have w: "workers w m" by (rule workers_run [OF assms(1-3,5)])
  moreover have none: "run_thr i m = None" if "i < length (thrs m)" for i
    using that assms(6) tstep.intros [of m i] \<open>creating N m\<close> by (cases "run_thr i m") (auto simp: creating_def)
  ultimately have main: "length (thrs m) = Suc N" "over m = None" using none [of 0]
    by (cases "thrs m ! 0"; auto simp: creating_def run_thr_def workers_def)+
  have "told (Suc i) m = lines (w i)" if "i < N" for i
  proof -
    have i: "Suc i < length (thrs m)" using that main(1) by simp
    then have "printer (thrs m ! Suc i)" "told (Suc i) m @ lines (thrs m ! Suc i) = lines (w (Suc i - 1))" using w unfolding workers_def by blast+
    moreover have "lines (thrs m ! Suc i) = []" using none [OF i] by (cases "thrs m ! Suc i") (auto simp: run_thr_def)
    ultimately show ?thesis by simp
  qed
  then show ?thesis using main by simp
qed

lemma create_rounds:
  "spawns w (rounds (\<lambda>i. create (w i) (failed i)) 0 N (Ended 0)) 1" "creates N (rounds (\<lambda>i. create (w i) (failed i)) 0 N (Ended 0)) 1"
proof -
  show "spawns w (rounds (\<lambda>i. create (w i) (failed i)) 0 N (Ended 0)) 1"
    using spawns_rounds [of w "\<lambda>i. create (w i) (failed i)" "Ended 0" 0 N] by (simp add: spawns_create)
  have "creates N (rounds (\<lambda>i. create (w i) (failed i)) j r (Ended 0)) (Suc j)" if "j + r = N" for j r
    using that by (induction r arbitrary: j) (auto simp: create_def tcall_def note_tid_def)
  then show "creates N (rounds (\<lambda>i. create (w i) (failed i)) 0 N (Ended 0)) 1" by simp
qed

text \<open>
  In \<^verbatim>\<open>pthreads2.c\<close> main leaves with \<^verbatim>\<open>pthread_exit\<close>, and when the program has come to rest all three workers have printed all they have; so too
  the threads of \<^verbatim>\<open>cr8_so_many_threads.c\<close>, however many.
\<close>

lemma pthreads2_complete:
  assumes "alone pthreads2 m0" "(tstep ^^ n) m0 m" "\<not> (\<exists>m'. tstep m m')"
  shows "over m = None \<and> (\<forall>i < 3. told (Suc i) m = lines (running_worker i))"
  using creates_all [OF assms(1) _ _ _ assms(2,3), of running_worker 3] create_rounds [where w = running_worker and failed = "\<lambda>_. create_failed ''pthreads2.c'' 42" and N = 3]
  by (simp add: pthreads2_def running_worker_def printer_tells)

lemma cr8_complete:
  assumes "fst (strtol10 num) = int N" "0 < N" "alone (cr8_so_many_threads [p, num]) m0" "(tstep ^^ n) m0 m" "\<not> (\<exists>m'. tstep m m')"
  shows "length (thrs m) = Suc N \<and> (\<forall>i < N. told (Suc i) m = lines (pausing_worker i))"
proof -
  let ?f = "\<lambda>i r. tfatal (place ''cr8_so_many_threads.c'' ''main'' 52) (''pthread_create() #'' @ show_int (i32 (int i)) @ '' failed! ['' @ show_int r @ '']'' @ [nl])"
  have "cr8_so_many_threads [p, num] = rounds (\<lambda>i. create (pausing_worker i) (?f i)) 0 N (Ended 0)" using assms(1,2) by (simp add: cr8_so_many_threads_def Let_def)
  then show ?thesis using creates_all [OF assms(3) _ _ _ assms(4,5), of pausing_worker N] create_rounds [where w = pausing_worker and failed = ?f and N = N] by (simp add: pausing_worker_def)
qed

section \<open>What can go wrong\<close>

text \<open>A run as the sequence of the threads that step.\<close>

fun trun :: "nat list \<Rightarrow> 's tm \<Rightarrow> 's tm option" where
  "trun [] m = Some m"
| "trun (i # is) m = (if over m = None \<and> i < length (thrs m) then case run_thr i m of None \<Rightarrow> None | Some m' \<Rightarrow> trun is m' else None)"

lemma trun_steps: "trun is m = Some m' \<Longrightarrow> (tstep ^^ length is) m m'"
proof (induction "is" arbitrary: m)
  case (Cons i "is")
  then obtain m1 where "tstep m m1" "trun is m1 = Some m'" by (auto intro: tstep.intros split: if_splits option.splits)
  then show ?case using Cons.IH relpowp_Suc_I2 by fastforce
qed simp

lemma rounds3: "rounds body 0 3 k = body 0 (body 1 (body 2 k))"
  by (simp add: numeral_eq_Suc)

text \<open>\<^verbatim>\<open>pthreads1.c\<close> ends the process when main is done: no worker need have printed anything.\<close>

lemma pthreads1_silent:
  assumes "alone pthreads1 m0"
  shows "\<exists>n m. (tstep ^^ n) m0 m \<and> over m = Some 0 \<and> tout m = []"
proof -
  have "\<exists>m. trun [0, 0, 0, 0, 0, 0, 0, 0, 0, 0] m0 = Some m \<and> over m = Some 0 \<and> tout m = []"
    using assms by (simp add: alone_def pthreads1_def rounds3 create_def tcall_def note_tid_def run_thr_def)
  then show ?thesis using trun_steps by blast
qed

text \<open>In \<^verbatim>\<open>pthreads1_wrong.c\<close> all workers may see the last value of main's variable.\<close>

lemma pthreads1_wrong_value:
  assumes "alone (pthreads1_wrong a) m0"
  shows "\<exists>n m. (tstep ^^ n) m0 m \<and> (\<forall>i \<in> {1, 2, 3}. told i m = [Out (''Worker thread: data_addr='' @ a @ '' value='' @ show_int 3 @ [nl])])"
proof -
  have "\<exists>m. trun [0, 0, 0, 0, 0, 0, 0, 0, 0, 0, 0, 0, 0, 0, 0, 0, 0, 1, 1, 2, 2, 3, 3] m0 = Some m \<and> (\<forall>i \<in> {1, 2, 3}. told i m = [Out (''Worker thread: data_addr='' @ a @ '' value='' @ show_int 3 @ [nl])])"
    using assms by (simp add: alone_def pthreads1_wrong_def wrong_round_def wrong_worker_def rounds3 create_def tcall_def note_tid_def run_thr_def told_def)
  then show ?thesis using trun_steps by blast
qed

text \<open>With a prefix of seven characters threads 10 and 100 have the same name.\<close>

lemma thread_names_clash: "length p = 7 \<Longrightarrow> thread_name p 10 = thread_name p 100"
  by (simp add: thread_name_def digit_char_def show_nat.simps)

end
