(* ===== verification/Credentials.thy ===== *)
theory Credentials
  imports Book_Common
begin

text \<open>
  Programs about user ids and capabilities: \<^verbatim>\<open>savedset_demo.c\<close> and \<^verbatim>\<open>query_creds.c\<close> of \<^verbatim>\<open>src/booksrc/ch7\<close>, \<^verbatim>\<open>query_creds.c\<close> of
  \<^verbatim>\<open>src/booksrc/solutions_to_assgn/ch7\<close> and \<^verbatim>\<open>set_pcap.c\<close> of \<^verbatim>\<open>src/booksrc/ch8\<close>; and the programs
  that spawn a root shell or give their file to root, in the same directories. A process has a real, an effective and a saved user id
  and sets of effective and permitted capabilities; \<open>seteuid\<close> and \<open>setuid\<close> are the system calls with the effect on the capabilities
  that Linux gives them. The capability library is an argument: \<open>cap_set_proc\<close>, which installs a capability state or fails.
\<close>

type_synonym caps = "(nat \<Rightarrow> bool) \<times> (nat \<Rightarrow> bool)"

record crd = bk +
  ruid :: int
  euid :: int
  suid :: int
  rgid :: int
  egid :: int
  ceff :: "nat \<Rightarrow> bool"
  cperm :: "nat \<Rightarrow> bool"
  crets :: "int list"
  cpid :: int
  cbells :: "nat list"
  shells :: "(int \<times> int) list"
  owner :: int

abbreviation (input) CAP_CHOWN :: nat where "CAP_CHOWN \<equiv> 0"
abbreviation (input) CAP_SETUID :: nat where "CAP_SETUID \<equiv> 7"
abbreviation (input) CAP_SYS_ADMIN :: nat where "CAP_SYS_ADMIN \<equiv> 21"

section \<open>User ids\<close>

text \<open>
  A change of user ids: when none of the three is 0 any more all capabilities go; when the effective one stops being 0 the effective
  capabilities go, and when it becomes 0 they are the permitted ones.
\<close>

definition new_ids :: "int \<Rightarrow> int \<Rightarrow> int \<Rightarrow> crd \<Rightarrow> crd" where
  "new_ids r e v s =
     (let gone = (ruid s = 0 \<or> euid s = 0 \<or> suid s = 0) \<and> r \<noteq> 0 \<and> e \<noteq> 0 \<and> v \<noteq> 0;
          perm = (if gone then (\<lambda>_. False) else cperm s);
          eff = (if gone \<or> euid s = 0 \<and> e \<noteq> 0 then (\<lambda>_. False) else if euid s \<noteq> 0 \<and> e = 0 then perm else ceff s) in
      s\<lparr>ruid := r, euid := e, suid := v, cperm := perm, ceff := eff\<rparr>)"

definition seteuid :: "int \<Rightarrow> (crd, int) cprog" where
  "seteuid u = (\<lambda>s. if ceff s CAP_SETUID \<or> u = ruid s \<or> u = euid s \<or> u = suid s then (Return 0, new_ids (ruid s) u (suid s) s) else (Return (-1), s))"

definition setuid :: "int \<Rightarrow> (crd, int) cprog" where
  "setuid u = (\<lambda>s. if ceff s CAP_SETUID then (Return 0, new_ids u u u s)
     else if u = ruid s \<or> u = suid s then (Return 0, new_ids (ruid s) u (suid s) s) else (Return (-1), s))"

definition SHOW_CREDS :: "(crd, unit) cprog" where
  "SHOW_CREDS = bnd (gets (\<lambda>s. (ruid s, euid s, rgid s, egid s))) (\<lambda>(r, e, rg, eg).
     printf (''RUID='' @ show_int r @ '' EUID='' @ show_int e @ [nl] @ ''RGID='' @ show_int rg @ '' EGID='' @ show_int eg @ [nl]))"

definition query_creds :: "string list \<Rightarrow> (crd, unit) cprog" where
  "query_creds argv =
     sq SHOW_CREDS
     (bnd (gets euid) (\<lambda>e.
      sq (if e = 0 then printf (argv ! 0 @ '' now effectively running as root! ...'' @ [nl]) else ret ())
      (exit_with EXIT_SUCCESS)))"

definition sd_loc :: "nat \<Rightarrow> string" where
  "sd_loc line = place ''savedset_demo.c'' ''main'' line"

definition sd_or_fatal :: "(crd, int) cprog \<Rightarrow> nat \<Rightarrow> string \<Rightarrow> (crd, unit) cprog" where
  "sd_or_fatal p line msg = bnd p (\<lambda>r. if r = -1 then FATAL (sd_loc line) (msg @ [nl]) else ret ())"

definition savedset_demo :: "string list \<Rightarrow> (crd, unit) cprog" where
  "savedset_demo argv =
     sq (printf (''t0: Init:'' @ [nl]))
     (sq SHOW_CREDS
     (bnd (gets euid) (\<lambda>e.
      sq (if e \<noteq> 0 then FATAL (sd_loc 38) (''Not a setuid-root executable, aborting now ...'' @ [nl] @ ''[TIP: do: sudo chown root '' @ argv ! 0 @ '' ; sudo chmod u+s '' @ argv ! 0 @ [nl] @
        '' and rerun].'' @ [nl]) else ret ())
      (sq (printf ('' Ok, we'' @ [CHR 0x27] @ ''re effectively running as root! (EUID==0)'' @ [nl]))
      (bnd (gets euid) (\<lambda>saved_setuid.
       sq (printf (''t1: Becoming my original self!'' @ [nl]))
       (sq (bnd (gets ruid) (\<lambda>r. sd_or_fatal (seteuid r) 53 ''seteuid() step 2 failed!''))
       (sq SHOW_CREDS
       (sq (printf (''t2: Switching to privileged state now...'' @ [nl]))
       (sq (sd_or_fatal (seteuid saved_setuid) 58 ''seteuid() step 3 failed!'')
       (sq SHOW_CREDS
       (bnd (gets euid) (\<lambda>e.
        sq (if e = 0 then printf ('' Yup, we'' @ [CHR 0x27] @ ''re root again!'' @ [nl])
            else FATAL (sd_loc 63) ('' should be but aren'' @ [CHR 0x27] @ ''t root; something wrong, aborting!'' @ [nl]))
        (sq (printf (''t3: Switching back to unprivileged state now ...'' @ [nl]))
        (sq (bnd (gets ruid) (\<lambda>r. sd_or_fatal (seteuid r) 67 ''seteuid() step 4 failed!''))
        (sq SHOW_CREDS
        (exit_with EXIT_SUCCESS)))))))))))))))))"

text \<open>
  \<^verbatim>\<open>rootsh_hack1.c\<close> and \<^verbatim>\<open>rootsh_hack2.c\<close>: a shell gets the user ids of the process, which \<open>shells\<close> notes; a shell whose two ids differ gives its privilege up.
  The solution \<^verbatim>\<open>assgn1.c\<close> makes root the owner of its file, which takes the capability CAP_CHOWN.
\<close>

definition run_bash :: "(crd, unit) cprog" where
  "run_bash = modify (\<lambda>s. s\<lparr>shells := shells s @ [(ruid s, euid s)]\<rparr>)"

definition rootsh_hack1 :: "(crd, unit) cprog" where
  "rootsh_hack1 = sq run_bash (exit_with EXIT_SUCCESS)"

definition rootsh_hack2 :: "(crd, unit) cprog" where
  "rootsh_hack2 =
     sq (bnd (setuid 0) (\<lambda>r. if r = -1 then WARN (place ''rootsh_hack2.c'' ''main'' 25) (''setuid(0) failed!'' @ [nl]) else ret ()))
     (sq run_bash (exit_with EXIT_SUCCESS))"

definition chown_root :: "(crd, int) cprog" where
  "chown_root = (\<lambda>s. if ceff s CAP_CHOWN then (Return 0, s\<lparr>owner := 0\<rparr>) else (Return (-1), s))"

definition cap_assgn1 :: "string list \<Rightarrow> (crd, unit) cprog" where
  "cap_assgn1 argv =
     sq SHOW_CREDS
     (sq (bnd (gets euid) (\<lambda>e. if e = 0 then printf (argv ! 0 @ '' now effectively running as root! ...'' @ [nl]) else ret ()))
     (sq (bnd chown_root (\<lambda>r. if r < 0 then FATAL (place ''assgn1.c'' ''main'' 70) (''chown(2) failed'' @ [nl]) else ret ()))
     (exit_with EXIT_SUCCESS)))"

section \<open>set\_pcap.c\<close>

definition cret :: "(crd, int) cprog" where
  "cret = (\<lambda>s. case crets s of [] \<Rightarrow> (Return 0, s) | r # rs \<Rightarrow> (Return r, s\<lparr>crets := rs\<rparr>))"

definition pc_fatal :: "string \<Rightarrow> nat \<Rightarrow> string \<Rightarrow> (crd, unit) cprog" where
  "pc_fatal fn line msg = FATAL (place ''set_pcap.c'' fn line) msg"

text \<open>A library call that gives -1, or NULL, when it fails; \<open>cret\<close> tells.\<close>

definition pc_call :: "string \<Rightarrow> nat \<Rightarrow> string \<Rightarrow> (crd, unit) cprog" where
  "pc_call fn line msg = bnd cret (\<lambda>r. if r = -1 then pc_fatal fn line msg else ret ())"

definition install :: "(caps \<Rightarrow> crd \<Rightarrow> crd option) \<Rightarrow> caps \<Rightarrow> (crd, int) cprog" where
  "install cap_set_proc c = (\<lambda>s. case cap_set_proc c s of None \<Rightarrow> (Return (-1), s) | Some s' \<Rightarrow> (Return 0, s'))"

definition drop_caps_be_normal :: "(caps \<Rightarrow> crd \<Rightarrow> crd option) \<Rightarrow> (crd, unit) cprog" where
  "drop_caps_be_normal cap_set_proc =
     sq (pc_call ''drop_caps_be_normal'' 48 (''cap_init() failed, aborting...'' @ [nl]))
     (sq (bnd (install cap_set_proc (\<lambda>_. False, \<lambda>_. False)) (\<lambda>r.
        if r = -1 then pc_fatal ''drop_caps_be_normal'' 51 (''cap_set_proc('' @ [CHR 0x27] @ ''none'' @ [CHR 0x27] @ '') failed, aborting...'' @ [nl]) else ret ()))
     (bnd (gets ruid) (\<lambda>u. bnd (setuid u) (\<lambda>r.
        if r < 0 then pc_fatal ''drop_caps_be_normal'' 57 (''setuid to lower privileges failed, aborting..'' @ [nl]) else ret ()))))"

text \<open>
  \<^verbatim>\<open>pause\<close> returns after a signal was handled. \<open>cbells\<close> has for each \<^verbatim>\<open>pause\<close> how many more than one are handled before it returns; with no
  entry left no signal comes.
\<close>

definition boing :: "(crd, unit) cprog" where
  "boing = printf (''*(boing!)*'' @ [nl])"

primrec bells :: "nat \<Rightarrow> (crd, unit) cprog" where
  "bells 0 = boing"
| "bells (Suc n) = sq boing (bells n)"

definition pc_pause :: "(crd, unit) cprog" where
  "pc_pause = (\<lambda>s. case cbells s of [] \<Rightarrow> (Blocks, s) | n # ns \<Rightarrow> bells n (s\<lparr>cbells := ns\<rparr>))"

definition ids_line :: "string \<Rightarrow> (crd, unit) cprog" where
  "ids_line pre = bnd (gets (\<lambda>s. (ruid s, euid s))) (\<lambda>(r, e). printf (pre @ ''RUID = '' @ show_int r @ '' EUID = '' @ show_int e @ [nl]))"

definition test_setuid :: "(crd, unit) cprog" where
  "test_setuid =
     sq (ids_line (''test_setuid:'' @ [nl]))
     (sq (bnd (seteuid 0) (\<lambda>r. if r = -1 then WARN (place ''set_pcap.c'' ''test_setuid'' 64) (''seteuid(0) failed...'' @ [nl]) else ret ()))
     (ids_line []))"

definition pc_usage :: "string list \<Rightarrow> int \<Rightarrow> (crd, unit) cprog" where
  "pc_usage argv stat = sq (eprintf (''Usage: '' @ argv ! 0 @ '' 1|2'' @ [nl] @ '' 1 : add just one capability - CAP_SETUID'' @ [nl] @
     '' 2 : add two capabilities - CAP_SETUID and CAP_SYS_ADMIN'' @ [nl] @ ''Tip: run it in the background so that capsets can be looked up'' @ [nl])) (exit_with stat)"

text \<open>The effective set that is asked for.\<close>

definition wanted :: "int \<Rightarrow> (nat \<Rightarrow> bool) \<Rightarrow> nat \<Rightarrow> bool" where
  "wanted op eff = (if op = 1 then eff(CAP_SETUID := True, CAP_SYS_ADMIN := False) else eff(CAP_SETUID := True, CAP_SYS_ADMIN := True))"

definition pc_setup :: "(caps \<Rightarrow> crd \<Rightarrow> crd option) \<Rightarrow> string list \<Rightarrow> (crd, unit) cprog" where
  "pc_setup cap_set_proc argv =
     sq (if length argv < 2 then pc_usage argv EXIT_FAILURE else ret ())
     (let op = atoi (argv ! 1) in
      sq (if op \<noteq> 1 \<and> op \<noteq> 2 then pc_usage argv EXIT_FAILURE else ret ())
      (sq (pc_call ''main'' 93 (''signal() SIGINT failed, aborting...'' @ [nl]))
      (sq (pc_call ''main'' 95 (''signal() SIGTERM failed, aborting...'' @ [nl]))
      (sq (pc_call ''main'' 98 (''CAP_SETUID capability not supported on system, aborting...'' @ [nl]))
      (sq (if op = 2 then pc_call ''main'' 102 (''CAP_SYS_ADMIN capability not supported on system, aborting...'' @ [nl]) else ret ())
      (sq (pc_call ''main'' 110 (''cap_get_proc() for CAP_SETUID failed, aborting...'' @ [nl]))
      (sq (pc_call ''main'' 122 (''cap_set_flag() failed, aborting...'' @ [nl]))
      (sq (if op = 1 then pc_call ''main'' 136 (''cap_set_flag(clear CAP_SYS_ADMIN) failed, aborting...'' @ [nl]) else ret ())
      (bnd (gets (\<lambda>s. (wanted op (ceff s), cperm s))) (\<lambda>mycaps.
       sq (bnd (install cap_set_proc mycaps) (\<lambda>r.
         if r = -1 then pc_fatal ''main'' 150 (''cap_set_proc(CAP_SETUID/CAP_SYS_ADMIN) failed, aborting...'' @ [nl]) else ret ()))
       (bnd (gets cpid) (\<lambda>p.
        printf (''PID '' @ pad (CHR '' '') 6 (show_int p) @ '' now has CAP_SETUID'' @ (if op = 2 then '',CAP_SYS_ADMIN'' else []) @ '' capability.'' @ [nl])))))))))))))"

definition pc_drop :: "(caps \<Rightarrow> crd \<Rightarrow> crd option) \<Rightarrow> (crd, unit) cprog" where
  "pc_drop cap_set_proc =
     sq (printf (''Now dropping all capabilities and reverting to original self...'' @ [nl]))
     (sq (drop_caps_be_normal cap_set_proc) test_setuid)"

definition set_pcap :: "(caps \<Rightarrow> crd \<Rightarrow> crd option) \<Rightarrow> string list \<Rightarrow> (crd, unit) cprog" where
  "set_pcap cap_set_proc argv =
     sq (pc_setup cap_set_proc argv)
     (sq (printf (''Pausing #1 ...'' @ [nl]))
     (sq pc_pause
     (sq test_setuid
     (sq (pc_drop cap_set_proc)
     (sq (printf (''Pausing #2 ...'' @ [nl]))
     (sq pc_pause
     (sq (printf (''.. done, exiting.'' @ [nl]))
     (exit_with EXIT_SUCCESS))))))))"

section \<open>Lemmas\<close>

lemma run_seteuid [prog_simps]:
  "ceff s CAP_SETUID \<or> u = ruid s \<or> u = euid s \<or> u = suid s \<Longrightarrow> seteuid u s = (Return 0, new_ids (ruid s) u (suid s) s)"
  by (auto simp: seteuid_def)

lemma new_ids_fields [simp]:
  "ruid (new_ids r e v s) = r" "euid (new_ids r e v s) = e" "suid (new_ids r e v s) = v"
  "bout (new_ids r e v s) = bout s" "bmem (new_ids r e v s) = bmem s" "cbells (new_ids r e v s) = cbells s" "crets (new_ids r e v s) = crets s"
  "rgid (new_ids r e v s) = rgid s" "egid (new_ids r e v s) = egid s" "cpid (new_ids r e v s) = cpid s" "berrno (new_ids r e v s) = berrno s"
  by (simp_all add: new_ids_def Let_def)

lemma new_ids_no_caps: "ceff s = (\<lambda>_. False) \<Longrightarrow> cperm s = (\<lambda>_. False) \<Longrightarrow> ceff (new_ids r e v s) = (\<lambda>_. False)"
  by (simp add: new_ids_def Let_def)

lemma bells_run: "\<exists>l. bells n s = (Return (), s\<lparr>bout := bout s @ l\<rparr>)"
proof (induction n arbitrary: s)
  case (Suc n)
  obtain l where "bells n (s\<lparr>bout := bout s @ [Out (''*(boing!)*'' @ [nl])]\<rparr>) = (Return (), s\<lparr>bout := bout s @ [Out (''*(boing!)*'' @ [nl])] @ l\<rparr>)"
    using Suc [of "s\<lparr>bout := bout s @ [Out (''*(boing!)*'' @ [nl])]\<rparr>"] by auto
  then show ?case by (auto simp: boing_def prog_simps)
qed (auto simp: boing_def prog_simps)

lemma pc_pause_run: "cbells s = n # ns \<Longrightarrow> \<exists>l. pc_pause s = (Return (), s\<lparr>cbells := ns, bout := bout s @ l\<rparr>)"
  using bells_run [of n "s\<lparr>cbells := ns\<rparr>"] by (auto simp: pc_pause_def)

text \<open>
  A set-user-id-root program run by a user gives root up, takes it back through the saved user id, and ends as the user; anyone else is
  turned away.
\<close>

lemma savedset_demo_switches:
  assumes "euid s = 0" "suid s = 0"
  shows "\<exists>s'. savedset_demo argv s = (Exited EXIT_SUCCESS, s') \<and> euid s' = ruid s \<and> ruid s' = ruid s \<and> suid s' = 0 \<and>
    Out ('' Yup, we'' @ [CHR 0x27] @ ''re root again!'' @ [nl]) \<in> set (bout s')"
  using assms by (simp add: savedset_demo_def SHOW_CREDS_def sd_or_fatal_def prog_simps)

lemma savedset_demo_refuses:
  assumes "euid s \<noteq> 0" "bmem s = []"
  shows "\<exists>s'. savedset_demo argv s = (Exited EXIT_FAILURE, s') \<and> euid s' = euid s"
  using assms by (cases "berrno s") (simp_all add: savedset_demo_def SHOW_CREDS_def FATAL_def handle_err_def prog_simps)

text \<open>
  Installed set-user-id-root, the first hack's shell still has the user as its real user id; the second one's shell is root in both. With CAP_CHOWN alone
  an ordinary user makes root the owner of the file; without it nothing changes.
\<close>

lemma rootsh_shells:
  assumes "euid s = 0" "suid s = 0" "ceff s CAP_SETUID"
  shows "\<exists>t. rootsh_hack1 s = (Exited EXIT_SUCCESS, t) \<and> shells t = shells s @ [(ruid s, 0)]"
    and "\<exists>t. rootsh_hack2 s = (Exited EXIT_SUCCESS, t) \<and> shells t = shells s @ [(0, 0)]"
  using assms by (simp_all add: rootsh_hack1_def rootsh_hack2_def run_bash_def setuid_def new_ids_def Let_def prog_simps)

lemma cap_assgn1_owner:
  assumes "bmem s = []"
  shows "\<exists>t. cap_assgn1 argv s = (Exited (if ceff s CAP_CHOWN then EXIT_SUCCESS else EXIT_FAILURE), t) \<and> owner t = (if ceff s CAP_CHOWN then 0 else owner s)"
  using assms by (cases "berrno s"; cases "euid s = 0") (auto simp: cap_assgn1_def SHOW_CREDS_def chown_root_def FATAL_def handle_err_def prog_simps)

text \<open>
  Dropping the capabilities comes before \<^verbatim>\<open>setuid\<close>, which without the capability leaves the saved user id alone. So the test that follows
  stays the user exactly when neither the real nor the saved user id is 0.
\<close>

lemma test_setuid_run:
  "\<exists>s'. test_setuid s = (Return (), s') \<and> ruid s' = ruid s \<and> suid s' = suid s \<and> crets s' = crets s \<and> cbells s' = cbells s \<and>
    euid s' = (if ceff s CAP_SETUID \<or> ruid s = 0 \<or> euid s = 0 \<or> suid s = 0 then 0 else euid s) \<and>
    (ceff s = (\<lambda>_. False) \<and> cperm s = (\<lambda>_. False) \<longrightarrow> ceff s' = (\<lambda>_. False))"
proof (cases "ceff s CAP_SETUID \<or> ruid s = 0 \<or> euid s = 0 \<or> suid s = 0")
  case True
  let ?s = "s\<lparr>bout := bout s @ [Out (''test_setuid:'' @ [nl] @ ''RUID = '' @ show_int (ruid s) @ '' EUID = '' @ show_int (euid s) @ [nl])]\<rparr>"
  have "seteuid 0 ?s = (Return 0, new_ids (ruid s) 0 (suid s) ?s)" using True by (auto simp: seteuid_def)
  then show ?thesis using True by (auto simp: test_setuid_def ids_line_def prog_simps new_ids_no_caps)
next
  case False
  then have "seteuid 0 s' = (Return (- 1), s')" if "ruid s' = ruid s" "euid s' = euid s" "suid s' = suid s" "ceff s' = ceff s" for s'
    using that by (auto simp: seteuid_def)
  then show ?thesis using False
    WARN_run [of "place ''set_pcap.c'' ''test_setuid'' 64" "''seteuid(0) failed...'' @ [nl]"
      "s\<lparr>bout := bout s @ [Out (''test_setuid:'' @ [nl] @ ''RUID = '' @ show_int (ruid s) @ '' EUID = '' @ show_int (euid s) @ [nl])]\<rparr>"]
    by (auto simp: test_setuid_def ids_line_def prog_simps)
qed

lemma pc_drop_run:
  assumes law: "\<And>s. cap_set_proc (\<lambda>_. False, \<lambda>_. False) s = Some (s\<lparr>ceff := \<lambda>_. False, cperm := \<lambda>_. False\<rparr>)" and "crets s = []"
  shows "\<exists>s'. pc_drop cap_set_proc s = (Return (), s') \<and> ruid s' = ruid s \<and> cbells s' = cbells s \<and> ceff s' = (\<lambda>_. False) \<and>
    euid s' = (if ruid s = 0 \<or> suid s = 0 then 0 else ruid s)"
proof -
  let ?s = "s\<lparr>bout := bout s @ [Out (''Now dropping all capabilities and reverting to original self...'' @ [nl])]\<rparr>"
  let ?t = "new_ids (ruid s) (ruid s) (suid s) (?s\<lparr>ceff := \<lambda>_. False, cperm := \<lambda>_. False\<rparr>)"
  have "drop_caps_be_normal cap_set_proc ?s = (Return (), ?t)"
    using assms(2) by (simp add: drop_caps_be_normal_def pc_call_def cret_def install_def law setuid_def prog_simps)
  then have "pc_drop cap_set_proc s = test_setuid ?t" by (simp add: pc_drop_def prog_simps)
  moreover have "ceff ?t = (\<lambda>_. False)" "cperm ?t = (\<lambda>_. False)" by (simp_all add: new_ids_def Let_def)
  ultimately show ?thesis using test_setuid_run [of ?t] by (auto split: if_splits)
qed

text \<open>
  The law of \<^verbatim>\<open>cap_set_proc\<close>: no permitted capability that the process does not have, no effective one that is not permitted. \<open>capset_rule\<close>
  is a function that has it.
\<close>

definition capset_rule :: "caps \<Rightarrow> crd \<Rightarrow> crd option" where
  "capset_rule c s = (if \<forall>k \<in> set [0..<41]. (snd c k \<longrightarrow> cperm s k) \<and> (fst c k \<longrightarrow> snd c k) then Some (s\<lparr>ceff := fst c, cperm := snd c\<rparr>) else None)"

definition may_set :: "caps \<Rightarrow> crd \<Rightarrow> bool" where
  "may_set c s = ((\<forall>k. snd c k \<longrightarrow> cperm s k) \<and> (\<forall>k. fst c k \<longrightarrow> snd c k))"

lemma pc_setup_run:
  assumes law: "\<And>c s. may_set c s \<Longrightarrow> cap_set_proc c s = Some (s\<lparr>ceff := fst c, cperm := snd c\<rparr>)"
    and s: "crets s = []" "\<forall>k. ceff s k \<longrightarrow> cperm s k" "cperm s CAP_SETUID" "cperm s CAP_SYS_ADMIN" and a: "atoi a \<in> {1, 2}"
  shows "\<exists>l. pc_setup cap_set_proc [p, a] s = (Return (), s\<lparr>ceff := wanted (atoi a) (ceff s), bout := bout s @ l\<rparr>)"
proof -
  have "may_set (wanted (atoi a) (ceff s), cperm s) s" using s by (auto simp: may_set_def wanted_def)
  then have "install cap_set_proc (wanted (atoi a) (ceff s), cperm s) s = (Return 0, s\<lparr>ceff := wanted (atoi a) (ceff s)\<rparr>)"
    using law by (simp add: install_def)
  then show ?thesis using s(1) a by (auto simp: pc_setup_def Let_def pc_call_def cret_def prog_simps)
qed

text \<open>
  With both file capabilities the whole program runs through for either argument: it becomes root in between and ends as the user it was.
  Installed set-user-id-root instead, it ends with the effective user id 0.
\<close>

lemma set_pcap_ends:
  assumes law: "\<And>c s. may_set c s \<Longrightarrow> cap_set_proc c s = Some (s\<lparr>ceff := fst c, cperm := snd c\<rparr>)"
    and s: "crets s = []" "\<forall>k. ceff s k \<longrightarrow> cperm s k" "cperm s CAP_SETUID" "cperm s CAP_SYS_ADMIN" and a: "atoi a \<in> {1, 2}"
    and b: "cbells s = [m, n]"
  shows "\<exists>s'. set_pcap cap_set_proc [p, a] s = (Exited EXIT_SUCCESS, s') \<and> ruid s' = ruid s \<and> ceff s' = (\<lambda>_. False) \<and>
    euid s' = (if ruid s = 0 \<or> suid s = 0 then 0 else ruid s)"
proof -
  have none: "cap_set_proc (\<lambda>_. False, \<lambda>_. False) s = Some (s\<lparr>ceff := \<lambda>_. False, cperm := \<lambda>_. False\<rparr>)" for s
    using law [of "(\<lambda>_. False, \<lambda>_. False)" s] by (simp add: may_set_def)
  obtain l where 1: "pc_setup cap_set_proc [p, a] s = (Return (), s\<lparr>ceff := wanted (atoi a) (ceff s), bout := bout s @ l\<rparr>)"
    using pc_setup_run [OF law s a] by blast
  let ?s = "s\<lparr>ceff := wanted (atoi a) (ceff s), bout := bout s @ l @ [Out (''Pausing #1 ...'' @ [nl])]\<rparr>"
  obtain l1 where 2: "pc_pause ?s = (Return (), ?s\<lparr>cbells := [n], bout := bout ?s @ l1\<rparr>)" using pc_pause_run [of ?s m "[n]"] b by auto
  let ?t = "?s\<lparr>cbells := [n], bout := bout ?s @ l1\<rparr>"
  obtain u where 3: "test_setuid ?t = (Return (), u)" "ruid u = ruid s" "suid u = suid s" "crets u = []" "cbells u = [n]"
    using test_setuid_run [of ?t] s(1) by auto
  obtain v where 4: "pc_drop cap_set_proc u = (Return (), v)" "ruid v = ruid s" "cbells v = [n]" "ceff v = (\<lambda>_. False)"
      "euid v = (if ruid s = 0 \<or> suid s = 0 then 0 else ruid s)"
    using pc_drop_run [of cap_set_proc u, OF none 3(4)] 3 by auto
  let ?v = "v\<lparr>bout := bout v @ [Out (''Pausing #2 ...'' @ [nl])]\<rparr>"
  obtain l2 where 5: "pc_pause ?v = (Return (), ?v\<lparr>cbells := [], bout := bout ?v @ l2\<rparr>)" using pc_pause_run [of ?v n "[]"] 4 by auto
  show ?thesis using 1 2 3(1) 4 5 by (simp add: set_pcap_def prog_simps)
qed

lemma capset_rule_law: "may_set c s \<Longrightarrow> capset_rule c s = Some (s\<lparr>ceff := fst c, cperm := snd c\<rparr>)"
  by (simp add: may_set_def capset_rule_def)

end
