(* ===== verification/Mem_Probes.thy ===== *)
theory Mem_Probes
  imports Fault_Handlers
begin

text \<open>
  Programs that probe the memory of a process: \<^verbatim>\<open>memprot.c\<close>, \<^verbatim>\<open>memprot_arm.c\<close>, \<^verbatim>\<open>mallocmax.c\<close>, \<^verbatim>\<open>mlock_try.c\<close>, \<^verbatim>\<open>malloc_brk_test.c\<close> and \<^verbatim>\<open>show_curbrk.c\<close> of
  \<^verbatim>\<open>src/booksrc/ch4\<close> and \<^verbatim>\<open>memprot.c\<close> of \<^verbatim>\<open>src/booksrc/solutions_to_assgn/ch4\<close>, \<^verbatim>\<open>segflt_nocore.c\<close> of \<^verbatim>\<open>ch3\<close> there. A page has protection bits (1 read, 2 write, 4 execute); an
  access the bits do not allow is a fault. \<open>sysrets\<close> are the results of the coming system calls (0 when it is used up), \<open>ptrs\<close> the addresses the
  coming allocations give, 0 for NULL, with the program break after each.
\<close>

section \<open>State\<close>

record prb = bk +
  gPgsz :: int
  okornot :: "nat \<Rightarrow> int"
  prot :: "int \<Rightarrow> nat"
  cell :: "int \<Rightarrow> char"
  sysrets :: "int list"
  rnd :: int
  pagesz :: int
  ptrs :: "(int \<times> int) list"
  brk :: int
  asked :: "int list"
  freed :: "int list"
  locked :: "(int \<times> int) list"
  syscmds :: "string list"
  ppid :: int
  heap_ptr :: "nat \<Rightarrow> int"
  init_brk :: int
  mstats :: string
  core_limit :: int

type_synonym 'a pprog = "(prb, 'a) cprog"

definition sysret :: "int pprog" where
  "sysret = (\<lambda>s. case sysrets s of [] \<Rightarrow> (Return 0, s) | r # rs \<Rightarrow> (Return r, s\<lparr>sysrets := rs\<rparr>))"

definition alloc :: "int \<Rightarrow> int pprog" where
  "alloc n = (\<lambda>s. case ptrs s of [] \<Rightarrow> (Return 0, s\<lparr>asked := asked s @ [n]\<rparr>)
     | (p, b) # ps \<Rightarrow> (Return p, s\<lparr>asked := asked s @ [n], ptrs := ps, brk := b\<rparr>))"

definition pfree :: "int \<Rightarrow> unit pprog" where
  "pfree p = (if p = 0 then ret () else modify (\<lambda>s. s\<lparr>freed := freed s @ [p]\<rparr>))"

definition hexa :: "int \<Rightarrow> string" where
  "hexa n = ''0x'' @ hex_of (nat n)"

definition show_ptr :: "int \<Rightarrow> string" where
  "show_ptr p = (if p = 0 then ''(nil)'' else hexa p)"

definition shell_cmd :: "string \<Rightarrow> unit pprog" where
  "shell_cmd c = modify (\<lambda>s. s\<lparr>syscmds := syscmds s @ [c]\<rparr>)"

section \<open>memprot.c, memprot\_arm.c\<close>

text \<open>The byte is a signed char, shown as an unsigned int.\<close>

definition show_byte :: "char \<Rightarrow> string" where
  "show_byte c = (let n = int (of_char c) in hex_of (nat (u32 (if n < 128 then n else n - 256))))"

definition load :: "int \<Rightarrow> char pprog" where
  "load a = bnd (gets (\<lambda>s. odd (prot s (a div gPgsz s)))) (\<lambda>ok. if ok then gets (\<lambda>s. cell s a) else fault BadDeref)"

definition stor :: "int \<Rightarrow> char \<Rightarrow> unit pprog" where
  "stor a c = bnd (gets (\<lambda>s. odd (prot s (a div gPgsz s) div 2))) (\<lambda>ok. if ok then modify (\<lambda>s. s\<lparr>cell := (cell s)(a := c)\<rparr>) else fault BadDeref)"

definition TEST_READ :: "nat \<Rightarrow> int \<Rightarrow> unit pprog" where
  "TEST_READ pgnum a =
     sq (printf (''page '' @ show_nat pgnum @ '': reading: byte @ '' @ hexa a @ '' is ''))
     (bnd (load a) (\<lambda>c.
      sq (printf ('' '' @ show_byte c))
      (printf ('' [OK]'' @ [nl]))))"

definition TEST_WRITE :: "nat \<Rightarrow> int \<Rightarrow> char \<Rightarrow> unit pprog" where
  "TEST_WRITE pgnum a c =
     sq (printf (''page '' @ show_nat pgnum @ '': writing: byte '' @ [CHR 0x27, c, CHR 0x27] @ '' to address '' @ hexa a @ '' now ...''))
     (sq (stor a c)
     (printf ('' [OK]'' @ [nl])))"

definition on_page :: "nat \<Rightarrow> unit pprog \<Rightarrow> unit pprog" where
  "on_page i tests = bnd (gets (\<lambda>s. okornot s i)) (\<lambda>ok. if ok = 1 then tests
     else printf (''*** Page '' @ show_nat i @ '' : skipping tests as memprot failed...'' @ [nl]))"

definition test_mem :: "int \<Rightarrow> int \<Rightarrow> unit pprog" where
  "test_mem ptr write_on_ro_mem =
     bnd (gets (\<lambda>s. (gPgsz s, rnd s mod gPgsz s))) (\<lambda>(pg, byte).
     sq (printf ([nl] @ ''----- test_mem() -----'' @ [nl]))
     (sq (on_page 0 (sq (TEST_WRITE 0 (ptr + 0 * pg + byte) (CHR ''a'')) (TEST_READ 0 (ptr + 0 * pg + byte))))
     (sq (on_page 1 (sq (TEST_READ 1 (ptr + 1 * pg + byte))
           (if write_on_ro_mem = 1 then TEST_WRITE 1 (ptr + 1 * pg + byte) (CHR ''b'') else ret ())))
     (sq (on_page 2 (sq (TEST_READ 2 (ptr + 2 * pg + byte)) (TEST_WRITE 2 (ptr + 2 * pg + byte) (CHR ''c''))))
     (on_page 3 (sq (TEST_READ 3 (ptr + 3 * pg + byte)) (TEST_WRITE 3 (ptr + 3 * pg + byte) (CHR ''d''))))))))"

definition str_prots :: "string list" where
  "str_prots = [''PROT_READ|PROT_WRITE'', ''PROT_READ'', ''PROT_READ|PROT_WRITE|PROT_EXEC'', ''PROT_NONE'']"

definition prots :: "nat list" where
  "prots = [3, 1, 7, 0]"

text \<open>\<^verbatim>\<open>mprotect\<close> of the one page at an address.\<close>

definition mprotect :: "int \<Rightarrow> nat \<Rightarrow> int pprog" where
  "mprotect a p = bnd sysret (\<lambda>r. sq (if r = -1 then ret () else modify (\<lambda>s. s\<lparr>prot := (prot s)(a div gPgsz s := p)\<rparr>)) (ret r))"

definition mp_file :: "bool \<Rightarrow> string" where
  "mp_file arm = (if arm then ''memprot_arm.c'' else ''memprot.c'')"

definition protect_page :: "bool \<Rightarrow> int \<Rightarrow> nat \<Rightarrow> unit pprog" where
  "protect_page arm ptr i =
     bnd (gets gPgsz) (\<lambda>pg.
     let start_off = ptr + int i * pg in
     sq (printf (''page '' @ show_nat i @ '': protections: '' @ pad (CHR '' '') 30 (str_prots ! i) @ '': range ['' @ hexa start_off @
           (if arm then '', '' else '':'') @ hexa (start_off + pg - 1) @ '']'' @ [nl]))
     (bnd (mprotect start_off (prots ! i)) (\<lambda>r.
      if r = -1 then WARN (place (mp_file arm) ''protect_mem'' (if arm then 114 else 115)) (''mprotect('' @ str_prots ! i @ '') failed'' @ [nl])
      else modify (\<lambda>s. s\<lparr>okornot := (okornot s)(i := 1)\<rparr>))))"

definition protect_mem :: "bool \<Rightarrow> int \<Rightarrow> unit pprog" where
  "protect_mem arm ptr =
     sq (printf (''----- protect_mem() -----'' @ [nl]))
     (sq (modify (\<lambda>s. s\<lparr>okornot := \<lambda>_. 0\<rparr>))
     (sq (protect_page arm ptr 0) (sq (protect_page arm ptr 1) (sq (protect_page arm ptr 2) (protect_page arm ptr 3)))))"

definition memprot :: "bool \<Rightarrow> string list \<Rightarrow> unit pprog" where
  "memprot arm argv =
     sq (if length argv < 2 then sq (eprintf (''Usage: '' @ argv ! 0 @ '' test-write-to-ro-mem [0|1]'' @ [nl])) (exit_with EXIT_FAILURE) else ret ())
     (sq (modify (\<lambda>s. s\<lparr>gPgsz := pagesz s\<rparr>))
     (bnd (gets gPgsz) (\<lambda>pg.
      bnd (alloc (4 * pg)) (\<lambda>ptr.
      sq (if ptr = 0 then FATAL (place (mp_file arm) ''main'' (if arm then 144 else 145)) (''posix_memalign(for '' @ show_int (4 * pg) @ '' bytes) failed'' @ [nl]) else ret ())
      (sq (protect_mem arm ptr)
      (sq (test_mem ptr (atoi (argv ! 1)))
      (sq (pfree ptr)
      (exit_with EXIT_SUCCESS))))))))"

text \<open>The solution's \<^verbatim>\<open>memprot.c\<close>: two pages, no accesses.\<close>

definition set_prot :: "int \<Rightarrow> nat \<Rightarrow> string \<Rightarrow> unit pprog" where
  "set_prot a p txt =
     sq (printf (''Attempting to set memory protections of '' @ show_ptr a @ '' to ['' @ txt @ '']...'' @ [nl]))
     (bnd (mprotect a p) (\<lambda>r. if r = -1 then eprintf ('' *** mprotect('' @ txt @ '') failed'' @ [nl]) else printf ('' ['' @ txt @ ''] successful'' @ [nl])))"

definition sol_memprot :: "unit pprog" where
  "sol_memprot =
     sq (modify (\<lambda>s. s\<lparr>gPgsz := pagesz s\<rparr>))
     (bnd (gets gPgsz) (\<lambda>pg.
      bnd (alloc (2 * pg)) (\<lambda>ptr.
      sq (if ptr = 0 then sq (eprintf (''posix_memalign(for '' @ show_int (4 * pg) @ '' bytes) failed'' @ [nl])) (exit_with 1) else ret ())
      (sq (set_prot ptr 5 ''r-x'')
      (sq (set_prot (ptr + pg) 1 ''r--'')
      (sq (pfree ptr)
      (exit_with EXIT_SUCCESS)))))))"

section \<open>mallocmax.c\<close>

text \<open>\<^verbatim>\<open>max\<close> is a float, and 2 to the 64 is one.\<close>

definition max_malloc :: "unit pprog" where
  "max_malloc =
     sq (printf (''*** max_malloc() ***'' @ [nl]))
     (printf (''sizeof size_t = 8; max value of the param to malloc = '' @ show_nat (2 ^ 64) @ [nl]))"

definition onePB :: "64 word" where "onePB = 1125899907000000"

definition qa :: "64 word" where "qa = 28 * 1000000"

text \<open>One test: \<^verbatim>\<open>malloc\<close> of a number, the line with its result, and \<^verbatim>\<open>free\<close>.\<close>

definition try_malloc :: "64 word \<Rightarrow> string \<Rightarrow> unit pprog" where
  "try_malloc num line = bnd (alloc (uint num)) (\<lambda>ptr.
     sq (printf (line @ '' returns '' @ show_ptr ptr @ [nl])) (pfree ptr))"

definition negative_malloc :: "unit pprog" where
  "negative_malloc =
     (let ld_num2alloc = qa * onePB; szt_num2alloc = qa * onePB;
          sd1 = (of_int (6 * 1024) :: 16 word); sd2 = (of_int (60 * 1024) :: 16 word); szt2 = (scast sd2 :: 64 word) in
      sq (printf (''*** negative_malloc() ***'' @ [nl]))
      (sq (printf (''size_t max    = '' @ show_nat (2 ^ 64) @ [nl]))
      (sq (printf (''ld_num2alloc  = '' @ show_int (sint ld_num2alloc) @ [nl] @ ''szt_num2alloc = '' @ show_int (uint szt_num2alloc) @ [nl]))
      (sq (try_malloc ld_num2alloc (''1. long int used:  malloc('' @ show_int (sint ld_num2alloc) @ '')''))
      (sq (try_malloc szt_num2alloc (''2. size_t used:    malloc('' @ show_int (uint szt_num2alloc) @ '')''))
      (sq (try_malloc (scast sd1) (''3. short int used: malloc('' @ show_int (sint sd1) @ '')''))
      (sq (try_malloc (scast sd2) (''4. short int used: malloc('' @ show_int (sint sd2) @ '')''))
      (sq (try_malloc szt2 (''5. size_t used:    malloc('' @ show_int (uint szt2) @ '')''))
      (sq (try_malloc (- 1) (''6.                 malloc('' @ show_int (uint (- 1 :: 64 word)) @ '')''))
      (try_malloc 0 ''7.                 malloc(0)''))))))))))"

definition mallocmax :: "unit pprog" where
  "mallocmax = sq max_malloc (sq negative_malloc (exit_with EXIT_SUCCESS))"

section \<open>mlock\_try.c\<close>

text \<open>When \<^verbatim>\<open>FATAL\<close> returns, \<^verbatim>\<open>snprintf\<close> writes through NULL.\<close>

definition disp_locked_mem :: "unit pprog" where
  "disp_locked_mem =
     bnd malloc_ok (\<lambda>ok.
     sq (if ok then ret () else FATAL (place ''mlock_try.c'' ''disp_locked_mem'' 42) (''malloc(256) failed'' @ [nl]))
     (if \<not> ok then fault NullDeref else
     bnd (gets ppid) (\<lambda>p. shell_cmd (take 254 (''grep Lck /proc/'' @ show_int p @ ''/status'')))))"

definition lk_len :: "string \<Rightarrow> int \<Rightarrow> int" where
  "lk_len cpgs pgsz = uint (of_int (atol cpgs) * of_int pgsz :: 64 word)"

definition mlock :: "int \<Rightarrow> int \<Rightarrow> int pprog" where
  "mlock p n = bnd sysret (\<lambda>r. sq (if r = 0 then modify (\<lambda>s. s\<lparr>locked := locked s @ [(p, n)]\<rparr>) else ret ()) (ret r))"

definition munlock :: "int \<Rightarrow> int \<Rightarrow> int pprog" where
  "munlock p n = bnd sysret (\<lambda>r. sq (if r = 0 then modify (\<lambda>s. s\<lparr>locked := remove1 (p, n) (locked s)\<rparr>) else ret ()) (ret r))"

definition lk_fatal :: "nat \<Rightarrow> string \<Rightarrow> unit pprog" where
  "lk_fatal line msg = FATAL (place ''mlock_try.c'' ''try_mlock'' line) (msg @ [nl])"

definition try_mlock :: "string \<Rightarrow> unit pprog" where
  "try_mlock cpgs =
     bnd (gets pagesz) (\<lambda>pgsz.
     let len = lk_len cpgs pgsz in
     sq (if len \<ge> 2 ^ 63 - 1 then lk_fatal 57 (''too many bytes to alloc ('' @ show_int len @ ''), aborting now'') else ret ())
     (bnd (alloc len) (\<lambda>ptr.
      sq (if ptr = 0 then lk_fatal 63 (''posix_memalign(for '' @ show_int len @ '' bytes) failed'') else ret ())
      (sq (bnd (mlock ptr len) (\<lambda>r. if r \<noteq> 0 then sq (pfree ptr) (lk_fatal 68 ''mlock failed'') else ret ()))
      (sq (printf (''Locked '' @ show_int len @ '' bytes from address '' @ show_ptr ptr @ [nl]))
      (sq (if ptr = 0 \<and> len \<noteq> 0 then fault NullDeref else modify (\<lambda>s. s\<lparr>cell := \<lambda>a. if ptr \<le> a \<and> a < ptr + len then CHR ''L'' else cell s a\<rparr>))
      (sq disp_locked_mem
      (sq (bnd (munlock ptr len) (\<lambda>r. if r \<noteq> 0 then sq (pfree ptr) (lk_fatal 78 ''munlock failed'') else ret ()))
      (sq (printf (''unlocked..'' @ [nl]))
      (pfree ptr))))))))))"

definition mlock_try :: "string list \<Rightarrow> unit pprog" where
  "mlock_try argv =
     sq (if length argv < 2 then sq (eprintf (''Usage: '' @ argv ! 0 @ '' pages-to-alloc'' @ [nl])) (exit_with EXIT_FAILURE) else ret ())
     (sq disp_locked_mem
     (sq (try_mlock (argv ! 1))
     (exit_with EXIT_SUCCESS)))"

section \<open>malloc\_brk\_test.c\<close>

text \<open>The options are flags: \<open>(show_mstats, large_allocs, segfault1, segfault2)\<close>.\<close>

type_synonym bflags = "bool \<times> bool \<times> bool \<times> bool"

definition alloctest :: "bflags \<Rightarrow> nat \<Rightarrow> int \<Rightarrow> unit pprog" where
  "alloctest fl index num =
     bnd (alloc num) (\<lambda>p.
     sq (if p = 0 then sq (eprintf (''out of memory!'' @ [nl])) (exit_with EXIT_FAILURE) else ret ())
     (sq (modify (\<lambda>s. s\<lparr>heap_ptr := (heap_ptr s)(index := p)\<rparr>))
     (sq (printf (pad (CHR '' '') 2 (show_nat index) @ '': malloc('' @ pad (CHR '' '') 8 (show_int num) @ '') = ''))
     (sq (printf (pad (CHR '' '') 16 (show_ptr p) @ '' ''))
     (sq (bnd (gets (\<lambda>s. (brk s, init_brk s))) (\<lambda>(b, b0). printf ('' '' @ pad (CHR '' '') 16 (show_ptr b) @ '' ['' @ show_int (b - b0) @ '']'' @ [nl])))
     (if fst fl then sq (bnd (gets mstats) eprintf) (printf [nl]) else ret ()))))))"

definition bt_usage :: "string \<Rightarrow> unit pprog" where
  "bt_usage name = eprintf (''Usage: '' @ name @ '' [option | --help]'' @ [nl] @
     '' option = 0 : show only mem pointers [default]'' @ [nl] @
     '' option = 1 : opt 0 + show malloc stats as well'' @ [nl] @
     '' option = 2 : opt 1 + perform larger alloc'' @ [CHR 0x27] @ ''s (over MMAP_THRESHOLD)'' @ [nl] @
     '' option = 3 : test segfault 1'' @ [nl] @
     '' option = 4 : test segfault 2'' @ [nl] @
     ''-h | --help : show this help screen'' @ [nl])"

definition bt_args :: "string list \<Rightarrow> bflags pprog" where
  "bt_args argv =
     sq (if length argv = 2 \<and> (take 2 (argv ! 1) = ''-h'' \<or> take 6 (argv ! 1) = ''--help'') then sq (bt_usage (argv ! 0)) (exit_with EXIT_SUCCESS) else ret ())
     (if length argv = 2 then
        (let a = atoi (argv ! 1) in
         if a = 1 then ret (True, False, False, False)
         else if a = 2 then ret (True, True, False, False)
         else if a = 3 then ret (False, False, True, False)
         else if a = 4 then ret (False, False, False, True)
         else sq (bt_usage (argv ! 0)) (exit_with EXIT_FAILURE))
      else ret (False, False, False, False))"

text \<open>An access to the heap faults only outside of it: above the program break, or below where it began.\<close>

definition poke :: "int \<Rightarrow> char \<Rightarrow> unit pprog" where
  "poke a c = bnd (gets (\<lambda>s. init_brk s \<le> a \<and> a < brk s)) (\<lambda>ok. if ok then modify (\<lambda>s. s\<lparr>cell := (cell s)(a := c)\<rparr>) else fault BadDeref)"

definition segfault1 :: "unit pprog" where
  "segfault1 = bnd (gets (\<lambda>s. heap_ptr s 0)) (\<lambda>q.
     sq (poke (q + 3000) (CHR ''a''))
     (bnd (gets (\<lambda>s. cell s (q + 3000))) (\<lambda>c.
      printf (''### test segfault 1:'' @ [nl] @ '' q='' @ hexa q @ '' ; (q+3000) is the mem loc '' @ hexa (q + 3000) @ '' ; mem here is '' @ [CHR 0x27] @
        ''0x'' @ show_byte c @ [CHR 0x27] @ ''.'' @ [nl] @ ''###'' @ [nl]))))"

definition segfault2 :: "unit pprog" where
  "segfault2 = bnd (gets (\<lambda>s. (heap_ptr s 0, brk s - init_brk s))) (\<lambda>(q, d).
     sq (printf (''### test segfault 2:'' @ [nl] @ '' q='' @ hexa q @ '' ; (q+3000+(sbrk(0)-init_brk)) is the mem loc '' @ hexa (q + 3000 + d) @ [nl] @ ''###'' @ [nl]))
     (poke (q + 3000 + d) (CHR ''b'')))"

primrec free_all :: "nat \<Rightarrow> unit pprog" where
  "free_all 0 = ret ()"
| "free_all (Suc i) = sq (bnd (gets (\<lambda>s. heap_ptr s i)) pfree) (free_all i)"

definition large_allocs :: "bflags \<Rightarrow> unit pprog" where
  "large_allocs fl = bnd (gets (\<lambda>s. brk s - init_brk s + 1000)) (\<lambda>n. sq (alloctest fl 3 n) (alloctest fl 4 (1024 * 1024)))"

definition brk_begin :: "unit pprog" where
  "brk_begin =
     sq (modify (\<lambda>s. s\<lparr>init_brk := brk s\<rparr>))
     (sq (bnd (gets init_brk) (\<lambda>b. printf (''                              init_brk = '' @ pad (CHR '' '') 16 (show_ptr b) @ [nl])))
     (printf ('' #: malloc(       n) =        heap_ptr           cur_brk   delta [cur_brk-init_brk]'' @ [nl])))"

definition malloc_brk_test :: "string list \<Rightarrow> unit pprog" where
  "malloc_brk_test argv =
     bnd (bt_args argv) (\<lambda>fl. let (m, large, s1, s2) = fl in
     sq brk_begin
     (sq (alloctest fl 0 8)
     (sq (if s1 then segfault1 else ret ())
     (sq (if s2 then segfault2 else ret ())
     (sq (bnd (gets pagesz) (\<lambda>pg. alloctest fl 1 (pg - 8 - 5)))
     (sq (alloctest fl 2 3)
     (sq (if large then large_allocs fl else ret ())
     (sq (free_all (if large then 5 else 3))
     (exit_with EXIT_SUCCESS)))))))))"

section \<open>show\_curbrk.c, segflt\_nocore.c\<close>

text \<open>\<^verbatim>\<open>strtoul(s, 0, 10)\<close> and whether it was out of range.\<close>

definition strtoul10 :: "string \<Rightarrow> int \<times> bool" where
  "strtoul10 str = (let (neg, r) = split_sign (dropWhile isspace str); v = int (digits_val 0 (takeWhile isdigit r)) in
     if v \<ge> 2 ^ 64 then (2 ^ 64 - 1, True) else ((if neg then (- v) mod 2 ^ 64 else v), False))"

definition show_curbrk :: "string list \<Rightarrow> unit pprog" where
  "show_curbrk argv =
     sq (if length argv = 1 then sq (bnd (gets brk) (\<lambda>b. printf (''Current program break: '' @ show_ptr b @ [nl]))) (exit_with EXIT_SUCCESS) else ret ())
     (let (num, erange) = strtoul10 (argv ! 1); at = place ''show_curbrk.c'' ''main'' in
      sq (if erange \<and> num = 2 ^ 64 - 1 \<or> erange \<and> num = 0 then FATAL (at 49) (''strtoul('' @ argv ! 1 @ '') failed!'' @ [nl]) else ret ())
      (sq (if num \<ge> 128 * 1024 then FATAL (at 51) (argv ! 0 @ '': pl pass a value < 128 KB'' @ [nl]) else ret ())
      (sq (bnd (gets brk) (\<lambda>b. printf (''Original program break: '' @ show_ptr b @ '' ; '')))
      (bnd (alloc num) (\<lambda>p.
       sq (if p = 0 then FATAL (at 56) ''malloc failed!'' else ret ())
       (sq (bnd (gets brk) (\<lambda>b. printf (''malloc('' @ show_int num @ '') = '' @ pad (CHR '' '') 16 (show_ptr p) @ '' ; curr break = '' @ pad (CHR '' '') 16 (show_ptr b) @ [nl])))
       (sq (pfree p)
       (exit_with EXIT_SUCCESS))))))))"

text \<open>One of the accesses of \<^verbatim>\<open>segflt_nocore.c\<close>, with the line before it.\<close>

definition sf_try :: "string \<Rightarrow> int \<Rightarrow> string \<Rightarrow> char \<Rightarrow> unit pprog" where
  "sf_try before a after c = sq (printf ([nl] @ before @ show_ptr a @ after @ [nl])) (poke a c)"

definition sf_but :: "unit pprog" where
  "sf_but = bnd (gets brk) (\<lambda>b. printf (''... but it does!'' @ [nl] @ ''Why? because the actual current program break is '' @ show_ptr b @ [nl]))"

definition segflt_nocore :: "string list \<Rightarrow> unit pprog" where
  "segflt_nocore argv =
     (let at = place ''segflt_nocore.c'' ''main''; q = [CHR 0x27] in
      sq (printf (argv ! 0 @ '': setting core file resource limit to 0 ...'' @ [nl]))
      (sq (bnd sysret (\<lambda>r. if r < 0 then FATAL (at 51) (''prlimit(2) on core failed'' @ [nl]) else modify (\<lambda>s. s\<lparr>core_limit := 0\<rparr>)))
      (bnd (alloc 500) (\<lambda>p.
       sq (if p = 0 then FATAL (at 55) (''malloc 500 failed!'' @ [nl]) else ret ())
       (sq (printf ([nl] @ ''0. p=malloc(500); p = '' @ show_ptr (p + 100) @ [nl]))
       (sq (sf_try (''1. Doing: *(p+100)   = '' @ q @ ''a'' @ q @ ''; i.e. ['') (p + 100) ('']='' @ q @ ''a'' @ q @ ''; should work'') (CHR ''a''))
       (sq (sf_try (''2. Doing: *(p+4000)  = '' @ q @ ''b'' @ q @ ''; i.e. ['') (p + 4000) ('']='' @ q @ ''b'' @ q @ ''; should Not work'') (CHR ''b''))
       (sq sf_but
       (sq (sf_try (''3. Doing: *(p+40000) = '' @ q @ ''c'' @ q @ ''; i.e. ['') (p + 40000) ('']='' @ q @ ''b'' @ q @ ''; should Not work'') (CHR ''c''))
       (sq sf_but
       (sq (sf_try (''4. Doing: *(p+800000) = '' @ q @ ''c'' @ q @ ''; i.e. ['') (p + 800000) ('']='' @ q @ ''b'' @ q @ ''; should Not work'') (CHR ''c''))
       (exit_with EXIT_SUCCESS))))))))))))"

section \<open>Protected pages\<close>

text \<open>After \<open>n\<close> rounds with the results \<open>rs\<close> of \<^verbatim>\<open>mprotect\<close>, on the pages from \<open>k\<close> on.\<close>

definition prot_state :: "int list \<Rightarrow> int \<Rightarrow> nat \<Rightarrow> prb \<Rightarrow> bool" where
  "prot_state rs k n s = (0 < gPgsz s \<and> sysrets s = drop n rs \<and>
     (\<forall>i < 4. okornot s i = (if i < n \<and> rs ! i \<noteq> -1 then 1 else 0)) \<and> (\<forall>i < n. rs ! i \<noteq> -1 \<longrightarrow> prot s (k + int i) = prots ! i))"

lemma page_of: "0 < pg \<Longrightarrow> 0 \<le> b \<Longrightarrow> b < pg \<Longrightarrow> (k * pg + i * pg + b) div pg = (k + i :: int)"
  by (simp add: distrib_right [symmetric])

lemma protect_page_state:
  assumes "prot_state rs k n s" "length rs = 4" "n < 4"
  shows "\<exists>t. protect_page arm (k * gPgsz s) n s = (Return (), t) \<and> prot_state rs k (Suc n) t \<and> gPgsz t = gPgsz s \<and> rnd t = rnd s"
proof -
  have r: "sysrets s = rs ! n # drop (Suc n) rs" using assms by (simp add: prot_state_def Cons_nth_drop_Suc)
  have a: "(k * gPgsz s + int n * gPgsz s) div gPgsz s = k + int n"
    using page_of [of "gPgsz s" 0 k "int n"] assms(1) by (simp add: prot_state_def)
  define s0 where "s0 = s\<lparr>bout := bout s @ [Out (''page '' @ show_nat n @ '': protections: '' @ pad (CHR '' '') 30 (str_prots ! n) @ '': range ['' @
     hexa (k * gPgsz s + int n * gPgsz s) @ (if arm then '', '' else '':'') @ hexa (k * gPgsz s + int n * gPgsz s + gPgsz s - 1) @ '']'' @ [nl])],
     sysrets := drop (Suc n) rs\<rparr>"
  have s0: "prot s0 = prot s" "okornot s0 = okornot s" "sysrets s0 = drop (Suc n) rs" "gPgsz s0 = gPgsz s" "rnd s0 = rnd s" by (simp_all add: s0_def)
  have run: "protect_page arm (k * gPgsz s) n s =
      (if rs ! n = -1 then WARN (place (mp_file arm) ''protect_mem'' (if arm then 114 else 115)) (''mprotect('' @ str_prots ! n @ '') failed'' @ [nl]) s0
       else (Return (), s0\<lparr>prot := (prot s)(k + int n := prots ! n), okornot := (okornot s)(n := 1)\<rparr>))"
    using r a by (simp add: protect_page_def mprotect_def sysret_def prog_simps Let_def s0_def)
  obtain l where w: "WARN (place (mp_file arm) ''protect_mem'' (if arm then 114 else 115)) (''mprotect('' @ str_prots ! n @ '') failed'' @ [nl]) s0 =
      (Return (), s0\<lparr>bmem := tl (bmem s0), bout := bout s0 @ l\<rparr>)" using WARN_run by blast
  have "prot_state rs k (Suc n) (if rs ! n = -1 then s0\<lparr>bmem := tl (bmem s0), bout := bout s0 @ l\<rparr>
      else s0\<lparr>prot := (prot s)(k + int n := prots ! n), okornot := (okornot s)(n := 1)\<rparr>)"
    using assms s0 by (auto simp: prot_state_def less_Suc_eq)
  then show ?thesis using run w s0 by (auto split: if_splits)
qed

lemma protect_mem_state:
  assumes "0 < gPgsz s" "sysrets s = rs" "length rs = 4"
  shows "\<exists>t. protect_mem arm (k * gPgsz s) s = (Return (), t) \<and> prot_state rs k 4 t \<and> gPgsz t = gPgsz s \<and> rnd t = rnd s"
proof -
  let ?s = "s\<lparr>bout := bout s @ [Out (''----- protect_mem() -----'' @ [nl])], okornot := \<lambda>_. 0\<rparr>"
  have 0: "prot_state rs k 0 ?s" "gPgsz ?s = gPgsz s" "rnd ?s = rnd s" using assms by (simp_all add: prot_state_def)
  obtain a where a: "protect_page arm (k * gPgsz s) 0 ?s = (Return (), a)" "prot_state rs k 1 a" "gPgsz a = gPgsz s" "rnd a = rnd s"
    using protect_page_state [OF 0(1) assms(3), of arm] 0 by auto
  obtain b where b: "protect_page arm (k * gPgsz s) 1 a = (Return (), b)" "prot_state rs k 2 b" "gPgsz b = gPgsz s" "rnd b = rnd s"
    using protect_page_state [OF a(2) assms(3), of arm] a by (auto simp: numeral_2_eq_2)
  obtain c where c: "protect_page arm (k * gPgsz s) 2 b = (Return (), c)" "prot_state rs k 3 c" "gPgsz c = gPgsz s" "rnd c = rnd s"
    using protect_page_state [OF b(2) assms(3), of arm] b by auto
  obtain d where d: "protect_page arm (k * gPgsz s) 3 c = (Return (), d)" "prot_state rs k 4 d" "gPgsz d = gPgsz s" "rnd d = rnd s"
    using protect_page_state [OF c(2) assms(3), of arm] c by auto
  then show ?thesis using a b c by (simp add: protect_mem_def prog_simps)
qed

text \<open>What the four tests do, when their pages were protected.\<close>

definition keeps_pages :: "prb \<Rightarrow> prb \<Rightarrow> bool" where
  "keeps_pages s t = (gPgsz t = gPgsz s \<and> okornot t = okornot s \<and> prot t = prot s)"

lemma on_page_run:
  "okornot s i \<noteq> 1 \<Longrightarrow> \<exists>t. on_page i p s = (Return (), t) \<and> keeps_pages s t"
  "okornot s i = 1 \<Longrightarrow> on_page i p s = p s"
  by (auto simp: on_page_def keeps_pages_def prog_simps)

lemma read_write_run:
  assumes "prot s (a div gPgsz s) \<in> {3, 7}"
  shows "\<exists>t. sq (TEST_READ i a) (TEST_WRITE i a c) s = (Return (), t) \<and> keeps_pages s t"
    and "\<exists>t. sq (TEST_WRITE i a c) (TEST_READ i a) s = (Return (), t) \<and> keeps_pages s t"
  using assms by (auto simp: TEST_READ_def TEST_WRITE_def load_def stor_def keeps_pages_def prog_simps)

lemma test_mem_outcome:
  assumes p: "prot_state rs k 4 s"
  shows "fst (test_mem (k * gPgsz s) w s) = (if rs ! 3 \<noteq> -1 \<or> rs ! 1 \<noteq> -1 \<and> w = 1 then Faulted BadDeref else Return ())"
proof -
  let ?pg = "gPgsz s" let ?b = "rnd s mod gPgsz s" let ?a = "\<lambda>i. k * ?pg + i * ?pg + ?b"
  have pos: "0 < ?pg" and ok: "\<And>i. i < 4 \<Longrightarrow> okornot s i = (if rs ! i \<noteq> -1 then 1 else 0)"
    and pr: "\<And>i. i < 4 \<Longrightarrow> rs ! i \<noteq> -1 \<Longrightarrow> prot s (k + int i) = prots ! i" using p by (auto simp: prot_state_def)
  have addr: "?a i div ?pg = k + i" for i using pos by (intro page_of) auto
  let ?s = "s\<lparr>bout := bout s @ [Out ([nl] @ ''----- test_mem() -----'' @ [nl])]\<rparr>"
  let ?p0 = "on_page 0 (sq (TEST_WRITE 0 (?a 0) (CHR ''a'')) (TEST_READ 0 (?a 0)))"
  let ?p1 = "on_page 1 (sq (TEST_READ 1 (?a 1)) (if w = 1 then TEST_WRITE 1 (?a 1) (CHR ''b'') else ret ()))"
  let ?p2 = "on_page 2 (sq (TEST_READ 2 (?a 2)) (TEST_WRITE 2 (?a 2) (CHR ''c'')))"
  let ?p3 = "on_page 3 (sq (TEST_READ 3 (?a 3)) (TEST_WRITE 3 (?a 3) (CHR ''d'')))"
  have run: "test_mem (k * ?pg) w s = sq ?p0 (sq ?p1 (sq ?p2 ?p3)) ?s"
    by (simp add: test_mem_def prog_simps)
  have s0: "keeps_pages s ?s" by (simp add: keeps_pages_def)
  have 0: "\<exists>t. ?p0 ?s = (Return (), t) \<and> keeps_pages s t"
    using on_page_run [of ?s 0 "sq (TEST_WRITE 0 (?a 0) (CHR ''a'')) (TEST_READ 0 (?a 0))"] read_write_run(2) [of ?s "?a 0" 0 "CHR ''a''"] ok [of 0] pr [of 0] addr [of 0]
    by (cases "rs ! 0 = -1") (auto simp: keeps_pages_def prots_def)
  have 1: "if rs ! 1 \<noteq> -1 \<and> w = 1 then \<exists>t'. ?p1 t = (Faulted BadDeref, t') else \<exists>t'. ?p1 t = (Return (), t') \<and> keeps_pages s t'" if "keeps_pages s t" for t
    using that ok [of 1] pr [of 1] addr [of 1]
    by (cases "rs ! 1 = -1") (auto simp: keeps_pages_def prots_def on_page_def TEST_READ_def TEST_WRITE_def load_def stor_def prog_simps)
  have 2: "\<exists>t'. ?p2 t = (Return (), t') \<and> keeps_pages s t'" if "keeps_pages s t" for t
    using that on_page_run [of t 2 "sq (TEST_READ 2 (?a 2)) (TEST_WRITE 2 (?a 2) (CHR ''c''))"] read_write_run(1) [of t "?a 2" 2 "CHR ''c''"] ok [of 2] pr [of 2] addr [of 2]
    by (cases "rs ! 2 = -1") (auto simp: keeps_pages_def prots_def)
  have 3: "fst (?p3 t) = (if rs ! 3 \<noteq> -1 then Faulted BadDeref else Return ())" if "keeps_pages s t" for t
    using that ok [of 3] pr [of 3] addr [of 3]
    by (cases "rs ! 3 = -1") (auto simp: keeps_pages_def prots_def on_page_def TEST_READ_def load_def prog_simps)
  obtain t where t: "?p0 ?s = (Return (), t)" "keeps_pages s t" using 0 by blast
  show ?thesis
  proof (cases "rs ! 1 \<noteq> -1 \<and> w = 1")
    case True
    then obtain t' where "?p1 t = (Faulted BadDeref, t')" using 1 [OF t(2)] by auto
    then show ?thesis unfolding run using t True by (simp add: bnd_def)
  next
    case False
    then obtain t' where t': "?p1 t = (Return (), t')" "keeps_pages s t'" using 1 [OF t(2)] by (auto split: if_splits)
    obtain t'' where t'': "?p2 t' = (Return (), t'')" "keeps_pages s t''" using 2 [OF t'(2)] by blast
    show ?thesis unfolding run using t(1) t'(1) t''(1) False 3 [OF t''(2)] by (auto simp add: bnd_def)
  qed
qed

text \<open>
  Whatever \<^verbatim>\<open>mprotect\<close> answers, the program is killed when the page without access was protected, or when it was asked to write to the
  read-only page and that was protected; otherwise it exits.
\<close>

lemma memprot_outcome:
  assumes "0 < pagesz s" "ptrs s = (k * pagesz s, b) # ps" "k \<noteq> 0" "sysrets s = rs" "length rs = 4"
  shows "fst (memprot arm [name, a] s) = (if rs ! 3 \<noteq> -1 \<or> rs ! 1 \<noteq> -1 \<and> atoi a = 1 then Faulted BadDeref else Exited EXIT_SUCCESS)"
proof -
  let ?s = "s\<lparr>gPgsz := pagesz s, asked := asked s @ [4 * pagesz s], ptrs := ps, brk := b\<rparr>"
  obtain t where t: "protect_mem arm (k * pagesz s) ?s = (Return (), t)" "prot_state rs k 4 t" "gPgsz t = pagesz s"
    using protect_mem_state [of ?s rs arm k] assms by auto
  have "memprot arm [name, a] s = sq (test_mem (k * pagesz s) (atoi a)) (sq (pfree (k * pagesz s)) (exit_with EXIT_SUCCESS)) t"
    using assms t by (simp add: memprot_def alloc_def prog_simps)
  then show ?thesis using test_mem_outcome [OF t(2), of "atoi a"] t(3)
    by (cases "test_mem (k * pagesz s) (atoi a) t") (auto simp: prog_eval pfree_def split: if_splits)
qed

section \<open>Sizes\<close>

definition asks :: "unit pprog \<Rightarrow> int list \<Rightarrow> bool" where
  "asks p ns = (\<forall>s. \<exists>t. p s = (Return (), t) \<and> asked t = asked s @ ns)"

lemma asks_sq:
  assumes "asks p [k]" "asks q ns"
  shows "asks (sq p q) (k # ns)"
  unfolding asks_def
proof
  fix s
  obtain t where t: "p s = (Return (), t)" "asked t = asked s @ [k]" using assms(1) unfolding asks_def by blast
  obtain u where "q t = (Return (), u)" "asked u = asked t @ ns" using assms(2) unfolding asks_def by blast
  then show "\<exists>t. sq p q s = (Return (), t) \<and> asked t = asked s @ k # ns" using t by (simp add: prog_simps)
qed

lemma asks_printf: "asks p ns \<Longrightarrow> asks (sq (printf msg) p) ns"
  by (fastforce simp: asks_def prog_simps)

lemma asks_malloc: "uint n = k \<Longrightarrow> asks (try_malloc n line) [k]"
  unfolding asks_def
proof
  fix s
  show "uint n = k \<Longrightarrow> \<exists>t. try_malloc n line s = (Return (), t) \<and> asked t = asked s @ [k]"
    by (cases "ptrs s") (auto simp: try_malloc_def alloc_def pfree_def prog_simps split: prod.splits)
qed

text \<open>
  What \<^verbatim>\<open>malloc\<close> is really asked for: the product of 28 million petabytes wraps, the short that should hold 60 K is negative and asks for almost
  the whole address space, as a short and as a size.
\<close>

lemma negative_malloc_sizes:
  "asks negative_malloc [18158518104085839872, 18158518104085839872, 6144, 2 ^ 64 - 4096, 2 ^ 64 - 4096, 2 ^ 64 - 1, 0]"
proof -
  have v: "uint (qa * onePB) = 18158518104085839872" "uint (scast (of_int (6 * 1024) :: 16 word) :: 64 word) = 6144"
      "uint (scast (of_int (60 * 1024) :: 16 word) :: 64 word) = 2 ^ 64 - 4096" "uint (- 1 :: 64 word) = 2 ^ 64 - 1" "uint (0 :: 64 word) = 0"
    by (simp_all add: qa_def onePB_def unsigned_minus_1_eq_mask mask_eq_exp_minus_1)
  show ?thesis unfolding negative_malloc_def Let_def
    by (intro asks_printf asks_sq asks_malloc v)
qed

text \<open>The check for too many bytes comes after the product has wrapped: a number of pages just over 2 to the 52 locks one page.\<close>

lemma mlock_wraps: "lk_len (show_int 4503599627370497) 4096 = 4096"
  by (simp add: lk_len_def atol_show_int)

definition lk_text :: "string option \<Rightarrow> nat \<Rightarrow> string \<Rightarrow> io list" where
  "lk_text e line msg = Err (take 510 (''FATAL:'' @ place ''mlock_try.c'' ''try_mlock'' line @ msg @ [nl])) #
     (case e of None \<Rightarrow> [] | Some txt \<Rightarrow> [Err ''  '', Err (''kernel says: '' @ txt @ [nl])])"

lemma run_lk_fatal: "bmem s = [] \<Longrightarrow> lk_fatal line msg s = (Exited EXIT_FAILURE, s\<lparr>bmem := [], bout := bout s @ lk_text (berrno s) line msg\<rparr>)"
  by (cases "berrno s") (simp_all add: lk_fatal_def FATAL_def handle_err_def lk_text_def prog_simps)

text \<open>On every path through the locking the memory is freed once, and locked afterwards only when \<^verbatim>\<open>munlock\<close> failed.\<close>

lemma try_mlock_releases:
  assumes s: "ptrs s = (p, b) # ps" "p \<noteq> 0" "bmem s = []" "sysrets s = [r1, r2]" "locked s = []" "lk_len cpgs (pagesz s) < 2 ^ 63 - 1"
  shows "\<exists>t. try_mlock cpgs s = (if r1 = 0 \<and> r2 = 0 then Return () else Exited EXIT_FAILURE, t) \<and> freed t = freed s @ [p] \<and>
    locked t = (if r1 = 0 \<and> r2 \<noteq> 0 then [(p, lk_len cpgs (pagesz s))] else [])"
proof -
  define n where "n = lk_len cpgs (pagesz s)"
  have n: "\<not> n \<ge> 2 ^ 63 - 1" using s(6) by (simp add: n_def)
  show ?thesis
  proof (cases "r1 = 0")
    case True
    then show ?thesis using s(1-5) n
      by (cases "r2 = 0")
        (simp_all add: try_mlock_def n_def [symmetric] Let_def alloc_def mlock_def munlock_def sysret_def pfree_def disp_locked_mem_def shell_cmd_def run_lk_fatal prog_simps)
  next
    case False
    then show ?thesis using s(1-5) n
      by (simp add: try_mlock_def n_def [symmetric] Let_def alloc_def mlock_def sysret_def pfree_def run_lk_fatal prog_simps)
  qed
qed

section \<open>The program break\<close>

text \<open>The first test writes where the heap already reaches; the second always lies beyond it.\<close>

lemma segfault1_goes_on:
  assumes "init_brk s \<le> heap_ptr s 0" "heap_ptr s 0 + 3000 < brk s"
  shows "\<exists>t. segfault1 s = (Return (), t) \<and> cell t (heap_ptr s 0 + 3000) = CHR ''a''"
  using assms by (simp add: segfault1_def poke_def prog_simps)

lemma segfault2_faults:
  assumes "init_brk s \<le> heap_ptr s 0"
  shows "\<exists>t. segfault2 s = (Faulted BadDeref, t)"
  using assms by (auto simp: segfault2_def poke_def prog_eval run_printf)

lemma alloctest_run:
  assumes "ptrs s = (p, b) # ps" "p \<noteq> 0"
  shows "\<exists>l. alloctest fl i n s = (Return (), s\<lparr>asked := asked s @ [n], ptrs := ps, brk := b, heap_ptr := (heap_ptr s)(i := p), bout := bout s @ l\<rparr>)"
  using assms by (cases "fst fl") (auto simp: alloctest_def alloc_def prog_simps)

text \<open>Without an option three blocks are allocated and all of them freed, the last one first.\<close>

lemma malloc_brk_test_frees:
  assumes s: "ptrs s = [(p0, b0), (p1, b1), (p2, b2)]" "p0 \<noteq> 0" "p1 \<noteq> 0" "p2 \<noteq> 0"
  shows "\<exists>t. malloc_brk_test [name] s = (Exited EXIT_SUCCESS, t) \<and> freed t = freed s @ [p2, p1, p0] \<and> asked t = asked s @ [8, pagesz s - 13, 3]"
proof -
  let ?fl = "(False, False, False, False)"
  obtain l where begin_run: "brk_begin s = (Return (), s\<lparr>init_brk := brk s, bout := bout s @ l\<rparr>)" by (simp add: brk_begin_def prog_simps)
  let ?s = "s\<lparr>init_brk := brk s, bout := bout s @ l\<rparr>"
  obtain l0 where 0: "alloctest ?fl 0 8 ?s = (Return (), ?s\<lparr>asked := asked s @ [8], ptrs := [(p1, b1), (p2, b2)], brk := b0, heap_ptr := (heap_ptr s)(0 := p0), bout := bout ?s @ l0\<rparr>)"
    using alloctest_run [of ?s p0 b0 "[(p1, b1), (p2, b2)]" ?fl 0 8] s by auto
  let ?t = "?s\<lparr>asked := asked s @ [8], ptrs := [(p1, b1), (p2, b2)], brk := b0, heap_ptr := (heap_ptr s)(0 := p0), bout := bout ?s @ l0\<rparr>"
  obtain l1 where 1: "alloctest ?fl 1 (pagesz s - 8 - 5) ?t = (Return (), ?t\<lparr>asked := asked ?t @ [pagesz s - 8 - 5], ptrs := [(p2, b2)], brk := b1, heap_ptr := (heap_ptr ?t)(1 := p1), bout := bout ?t @ l1\<rparr>)"
    using alloctest_run [of ?t p1 b1 "[(p2, b2)]" ?fl 1] s by auto
  let ?u = "?t\<lparr>asked := asked ?t @ [pagesz s - 8 - 5], ptrs := [(p2, b2)], brk := b1, heap_ptr := (heap_ptr ?t)(1 := p1), bout := bout ?t @ l1\<rparr>"
  obtain l2 where 2: "alloctest ?fl 2 3 ?u = (Return (), ?u\<lparr>asked := asked ?u @ [3], ptrs := [], brk := b2, heap_ptr := (heap_ptr ?u)(2 := p2), bout := bout ?u @ l2\<rparr>)"
    using alloctest_run [of ?u p2 b2 "[]" ?fl 2] s by auto
  have three: "free_all 3 = free_all (Suc (Suc (Suc 0)))" by (simp add: numeral_3_eq_3)
  show ?thesis using begin_run 0 1 2 s(2-4) by (simp add: malloc_brk_test_def bt_args_def Let_def prog_simps pfree_def numeral_2_eq_2 three)
qed

text \<open>The usage message offers the option 0, which is refused.\<close>

lemma malloc_brk_option_0: "fst (malloc_brk_test [name, ''0''] s) = Exited EXIT_FAILURE"
proof -
  have "atoi ''0'' = 0" by code_simp
  then show ?thesis by (simp add: malloc_brk_test_def bt_args_def bt_usage_def Let_def prog_eval run_eprintf)
qed

text \<open>A number below 128 K is allocated and freed.\<close>

lemma show_curbrk_frees:
  assumes "strtoul10 a = (n, False)" "n < 128 * 1024" "ptrs s = (p, b) # ps" "p \<noteq> 0"
  shows "\<exists>t. show_curbrk [name, a] s = (Exited EXIT_SUCCESS, t) \<and> freed t = freed s @ [p] \<and> asked t = asked s @ [n]"
  using assms by (simp add: show_curbrk_def Let_def alloc_def pfree_def prog_simps)

text \<open>
  With a break between 40000 and 800000 bytes beyond the block the first three accesses go through and the fourth kills the program, with the limit for core
  files at 0.
\<close>

lemma segflt_nocore_killed:
  assumes "sysrets s = []" "ptrs s = (p, b) # ps" "p \<noteq> 0" "init_brk s \<le> p" "p + 40000 < b" "b \<le> p + 800000"
  shows "\<exists>t. segflt_nocore [name] s = (Faulted BadDeref, t) \<and> core_limit t = 0 \<and> cell t (p + 40000) = CHR ''c''"
  using assms by (simp add: segflt_nocore_def Let_def sysret_def alloc_def sf_try_def sf_but_def poke_def prog_eval run_printf)

end
