(* ===== verification/Stdio_Order.thy ===== *)
theory Stdio_Order
  imports Io_Buffers Timers
begin

text \<open>
  Programs about the buffers of stdio and about files: \<^verbatim>\<open>io_setbuf.c\<close>, \<^verbatim>\<open>redirct.c\<close> and \<^verbatim>\<open>streamio1.c\<close> of \<^verbatim>\<open>src/booksrc/A_fileio\<close>, \<^verbatim>\<open>redirct2.c\<close> of
  \<^verbatim>\<open>src/booksrc/solutions_to_assgn/A_fileio\<close> and \<^verbatim>\<open>diskspc.c\<close> of \<^verbatim>\<open>src/booksrc/ch18\<close>. The first runs on the streams of \<open>Io_Buffers\<close>. The two redirecting
  programs send stdout, which is then fully buffered, and stderr, which is not, to one log file: \<open>log_file\<close> computes the file from what
  was printed and from where the buffer was flushed.
\<close>

section \<open>io\_setbuf.c\<close>

text \<open>The sizes are compared as \<^verbatim>\<open>size_t\<close>, after the product was taken in \<^verbatim>\<open>int\<close>.\<close>

definition sb_syscalls :: "int \<Rightarrow> nat \<Rightarrow> int" where
  "sb_syscalls numio bufsz = (let y = (i32 (int NREAD * numio)) mod 2 ^ 64 div int bufsz in if numio < y then numio else y)"

definition sb_testit :: "nat \<Rightarrow> int \<Rightarrow> (iob, unit) cprog" where
  "sb_testit bufsz numio =
     sq (VPRINT (place ''io_setbuf.c'' ''testit'' 43) (''numio='' @ show_int numio @ ''   total rdwr='' @ show_int (u32 (int NREAD * numio)) @
       ''   expected # rw syscalls='' @ show_int (i64 (sb_syscalls numio bufsz)) @ [nl]))
     (testit_loop (place ''io_setbuf.c'' ''testit'' 49) (place ''io_setbuf.c'' ''testit'' 56) (nat numio))"

definition sb_usage :: "string \<Rightarrow> (iob, unit) cprog" where
  "sb_usage name = sq (eprintf (''Usage: '' @ name @ '' new-iobuf-size number-of-times-to-rdwr'' @ [nl])) (exit_with EXIT_FAILURE)"

definition sb_buffer :: "nat \<Rightarrow> nat \<Rightarrow> (iob, unit) cprog" where
  "sb_buffer line n = bnd (buf_malloc n) (\<lambda>p.
     if p = NULL then FATAL (place ''io_setbuf.c'' ''main'' line) (''malloc '' @ show_nat n @ '' failed!'' @ [nl]) else ret ())"

text \<open>\<open>v1\<close> and \<open>v2\<close>: the results of the two \<^verbatim>\<open>setvbuf\<close>; \<open>stats\<close>: what \<^verbatim>\<open>cat /proc/self/io\<close> shows.\<close>

definition sb_setvbuf :: "nat \<Rightarrow> string \<Rightarrow> int \<Rightarrow> (iob, unit) cprog" where
  "sb_setvbuf line which v = (if v \<noteq> 0 then FATAL (place ''io_setbuf.c'' ''main'' line) (''setvbuf on '' @ which @ '' buffer failed'' @ [nl]) else ret ())"

definition sb_prepare :: "int \<Rightarrow> int \<Rightarrow> nat \<Rightarrow> (iob, unit) cprog" where
  "sb_prepare v1 v2 bufsz =
     (let p = place ''io_setbuf.c'' ''main'' in
      sq (sb_buffer 101 bufsz)
      (sq (sb_buffer 106 bufsz)
      (sq (alloc_gbuf (p 110))
      (sq (open_streams (p 115) (p 119))
      (sq (sb_setvbuf 125 ''read'' v1)
      (sb_setvbuf 127 ''write'' v2))))))"

definition io_setbuf :: "int \<Rightarrow> int \<Rightarrow> string \<Rightarrow> string list \<Rightarrow> (iob, unit) cprog" where
  "io_setbuf v1 v2 stats argv =
     sq (if length argv \<noteq> 3 then sb_usage (argv ! 0) else ret ())
     (let (bufsz, erange) = strtoul0 (argv ! 1); numio = atoi (argv ! 2) in
      sq (if erange then FATAL (place ''io_setbuf.c'' ''main'' 85) (''Invalid size input [strtoul]'' @ [nl]) else ret ())
      (sq (if numio \<le> 0 \<or> bufsz = 0 then sb_usage (argv ! 0) else ret ())
      (sq (printf (argv ! 0 @ '': setting our IO RW buffers to size '' @ show_nat bufsz @ '' bytes; # IOs='' @ show_int numio @ [nl]))
      (sq (sb_prepare v1 v2 bufsz)
      (sq (sb_testit bufsz numio)
      (sq (fclose rfp)
      (sq (fclose wfp)
      (sq (printf stats)
      (sq (bnd (gets gbuf) buf_free)
      (exit_with EXIT_SUCCESS))))))))))"

section \<open>redirct.c, redirct2.c\<close>

record rdr = bk +
  marks :: "nat list"
  ropens :: "bool list"
  dateline :: "string option"
  rpos :: int
  rrets :: "int list"

type_synonym 'a rprog = "(rdr, 'a) cprog"

definition ropen :: "bool rprog" where
  "ropen = (\<lambda>s. case ropens s of [] \<Rightarrow> (Return True, s) | b # bs \<Rightarrow> (Return b, s\<lparr>ropens := bs\<rparr>))"

definition rret :: "int rprog" where
  "rret = (\<lambda>s. case rrets s of [] \<Rightarrow> (Return 0, s) | r # rs \<Rightarrow> (Return r, s\<lparr>rrets := rs\<rparr>))"

text \<open>
  What reaches the file between two flushes: first what went to stderr, then at the flush what went to stdout. \<open>marks\<close> are the places in the
  output where stdout was flushed; the exit flushes the rest.
\<close>

definition segment :: "io list \<Rightarrow> string list" where
  "segment l = [m. Err m \<leftarrow> l] @ [m. Out m \<leftarrow> l]"

fun log_file :: "nat list \<Rightarrow> io list \<Rightarrow> string list" where
  "log_file [] l = segment l"
| "log_file (k # ks) l = segment (take k l) @ log_file (map (\<lambda>i. i - k) ks) (drop k l)"

definition rd_at :: "bool \<Rightarrow> nat \<Rightarrow> string" where
  "rd_at sol line = place (if sol then ''redirct2.c'' else ''redirct.c'') ''main'' line"

text \<open>Up to the first output the two versions have the same line numbers.\<close>

definition rd_fatal :: "bool \<Rightarrow> nat \<Rightarrow> string \<Rightarrow> unit rprog" where
  "rd_fatal sol k msg = FATAL (rd_at sol k) (msg @ [nl])"

definition reopen :: "bool \<Rightarrow> nat \<Rightarrow> string \<Rightarrow> string \<Rightarrow> bool rprog" where
  "reopen sol k stream path = bnd ropen (\<lambda>ok. sq (if \<not> ok then rd_fatal sol k (''freopen '' @ stream @ '' on '' @ path @ '' failed'') else ret ()) (ret ok))"

text \<open>The first line of \<^verbatim>\<open>date\<close> without its last character.\<close>

definition rd_date :: "bool \<Rightarrow> string rprog" where
  "rd_date sol =
     bnd ropen (\<lambda>ok.
     sq (if \<not> ok then rd_fatal sol 49 ''popen (date) failed'' else ret ())
     (if \<not> ok then fault NullDeref else
     bnd (gets dateline) (\<lambda>d.
     bnd (case d of None \<Rightarrow> sq (WARN (rd_at sol 51) (''fgets (date) failed'' @ [nl])) (ret ''---'')
          | Some str \<Rightarrow> ret (takeWhile (\<lambda>c. c \<noteq> nul) (take 255 str))) (\<lambda>dt.
     if dt = [] then fault OutOfBounds else ret (butlast dt)))))"

definition fflush_out :: "unit rprog" where
  "fflush_out = modify (\<lambda>s. s\<lparr>marks := marks s @ [length (bout s)]\<rparr>)"

definition rd_sync :: "nat \<Rightarrow> string \<Rightarrow> unit rprog" where
  "rd_sync k which = bnd rret (\<lambda>r. if r < 0 then WARN (rd_at True k) (''fsync '' @ which @ '' failed'' @ [nl]) else ret ())"

definition rd_perror :: "string \<Rightarrow> unit rprog" where
  "rd_perror msg = bnd (gets berrno) (\<lambda>e. eprintf (msg @ '': '' @ (case e of None \<Rightarrow> ''Success'' | Some txt \<Rightarrow> txt) @ [nl]))"

definition rd_close :: "bool \<Rightarrow> unit rprog" where
  "rd_close fp = (if fp then ret () else fault NullDeref)"

definition redirct :: "bool \<Rightarrow> string list \<Rightarrow> unit rprog" where
  "redirct sol argv =
     sq (if length argv \<noteq> 2 then sq (eprintf (''Usage: '' @ argv ! 0 @ '' logfile'' @ [nl])) (exit_with EXIT_FAILURE) else ret ())
     (sq (reopen sol 41 ''stdout'' (argv ! 1))
     (bnd (reopen sol 45 ''stderr'' (argv ! 1)) (\<lambda>fplog.
      bnd (rd_date sol) (\<lambda>dt.
      sq (rd_close fplog)
      (sq (bnd (gets rpos) (\<lambda>pos. printf (argv ! 0 @ '':'' @ dt @ '':current seek position: '' @ show_int pos @ [nl])))
      (sq (if sol then sq fflush_out (sq (rd_sync 66 ''1'') (rd_sync 68 ''2'')) else ret ())
      (bnd ropen (\<lambda>fp.
      if \<not> fp then
        sq (eprintf ((if sol then [nl] else []) @ argv ! 0 @ '':'' @ dt @ '':fopen on abcxyz failed'' @ [nl]))
        (sq (rd_perror '' fopen'')
        (sq (rd_close fplog)
        (exit_with EXIT_SUCCESS)))
      else sq (rd_close fplog) (exit_with EXIT_SUCCESS)))))))))"

section \<open>streamio1.c, diskspc.c\<close>

text \<open>\<open>pos\<close> is the position \<^verbatim>\<open>ftell\<close> gives for the mode the stream was opened in.\<close>

definition streamio1 :: "(string \<Rightarrow> int option) \<Rightarrow> string list \<Rightarrow> (bk, unit) cprog" where
  "streamio1 pos argv =
     sq (if length argv \<noteq> 3 then sq (eprintf (''Usage: '' @ argv ! 0 @ '' pathname {mode=b|e}'' @ [nl])) (exit_with EXIT_FAILURE) else ret ())
     (bnd (if take 1 (argv ! 2) = ''b'' then ret (pos ''r'')
           else if take 1 (argv ! 2) = ''e'' then ret (pos ''a'')
           else sq (eprintf (''Usage: '' @ argv ! 0 @ '' pathname {mode=b|e}'' @ [nl])) (exit_with EXIT_FAILURE)) (\<lambda>fp.
      sq (if fp = None then FATAL (place ''streamio1.c'' ''main'' 44) (''fopen on '' @ argv ! 1 @ '' failed'' @ [nl]) else ret ())
      (case fp of None \<Rightarrow> fault NullDeref
       | Some p \<Rightarrow> sq (printf (''Current seek position: '' @ show_int p @ [nl])) (exit_with EXIT_SUCCESS))))"

text \<open>The size is taken in \<^verbatim>\<open>long\<close>s; \<open>opened\<close> and \<open>fallocate\<close> are the results of the two calls, the size that was asked for goes to \<open>fallocate\<close>.\<close>

definition ds_size :: "string \<Rightarrow> int" where
  "ds_size mb = i64 (i64 (fst (strtol10 mb) * 1024) * 1024)"

definition diskspc :: "int \<Rightarrow> (int \<Rightarrow> int) \<Rightarrow> string list \<Rightarrow> (bk, unit) cprog" where
  "diskspc opened fallocate argv =
     (let at = place ''diskspc.c'' ''main''; sz = ds_size (argv ! 2) in
      sq (if length argv \<noteq> 3 then sq (eprintf (''Usage: '' @ argv ! 0 @ '' new-file-pathname size-to-reserve-in-MB'' @ [nl])) (exit_with EXIT_FAILURE) else ret ())
      (sq (if sz \<le> 0 then FATAL (at 39) (''invalid size '' @ argv ! 2 @ '' MB'' @ [nl]) else ret ())
      (sq (if opened < 0 then FATAL (at 45) (''open on '' @ argv ! 1 @ '' failed'' @ [nl]) else ret ())
      (sq (if fallocate sz \<noteq> 0 then FATAL (at 48) (''posix_fallocate failed'' @ [nl]) else ret ())
      (exit_with EXIT_SUCCESS)))))"

section \<open>Lemmas\<close>

text \<open>
  With enough blocks \<^verbatim>\<open>io_setbuf\<close> copies as \<^verbatim>\<open>iobuf\<close> does, whatever the size of the buffers; at a write that fails at the end of the stream it frees
  its block twice.
\<close>

lemma sb_prepared:
  assumes "io_fresh s"
  shows "\<exists>t. sb_prepare 0 0 n s = (Return (), t) \<and> io_fresh t \<and> blocks t = blocks s \<and> rfp t \<and> wfp t \<and> gbuf t \<noteq> NULL \<and> (\<exists>c. fbuf t (gbuf t) = Some c)"
  using assms by (simp add: sb_prepare_def sb_buffer_def sb_setvbuf_def alloc_gbuf_def open_streams_def buf_malloc_def malloc_ok_def fopen_def io_fresh_def Let_def prog_eval)

lemma sb_testit_copies:
  assumes "rw_ready (nat numio) s"
  shows "\<exists>s'. sb_testit bufsz numio s = (Return (), s') \<and> wrote s' = wrote s @ take (nat numio) (blocks s) \<and> rw_ready 0 s'"
proof -
  let ?s = "snd (VPRINT (place ''io_setbuf.c'' ''testit'' 43) (''numio='' @ show_int numio @ ''   total rdwr='' @ show_int (u32 (int NREAD * numio)) @
       ''   expected # rw syscalls='' @ show_int (i64 (sb_syscalls numio bufsz)) @ [nl]) s)"
  have "rw_ready (nat numio) ?s" "wrote ?s = wrote s" "blocks ?s = blocks s" using assms by (simp_all add: run_VPRINT rw_ready_def)
  then show ?thesis using testit_loop_copies [of "nat numio" ?s "place ''io_setbuf.c'' ''testit'' 49" "place ''io_setbuf.c'' ''testit'' 56"]
    by (simp add: sb_testit_def prog_eval run_VPRINT)
qed

lemma io_setbuf_copies:
  assumes "io_fresh s" "strtoul0 a = (b, False)" "0 < b" "atoi c = int n" "0 < n" "n \<le> length (blocks s)" "\<forall>b \<in> set (blocks s). b \<noteq> [] \<and> length b \<le> NREAD"
  shows "\<exists>s'. io_setbuf 0 0 stats [name, a, c] s = (Exited EXIT_SUCCESS, s') \<and> wrote s' = take n (blocks s)"
proof -
  let ?s = "s\<lparr>bout := bout s @ [Out (name @ '': setting our IO RW buffers to size '' @ show_nat b @ '' bytes; # IOs='' @ show_int (int n) @ [nl])]\<rparr>"
  have "io_fresh ?s" using assms(1) by (simp add: io_fresh_def)
  then obtain t where t: "sb_prepare 0 0 b ?s = (Return (), t)" "io_fresh t" "blocks t = blocks s" "rfp t" "wfp t" "gbuf t \<noteq> NULL" "\<exists>c. fbuf t (gbuf t) = Some c"
    using sb_prepared [of ?s b] by auto
  have "rw_ready (nat (int n)) t" using t assms(6,7) by (auto simp: rw_ready_def io_fresh_def dest: in_set_takeD)
  then obtain u where u: "sb_testit b (int n) t = (Return (), u)" "wrote u = take n (blocks s)" "rw_ready 0 u"
    using sb_testit_copies [of "int n" t b] t(2,3) by (auto simp: io_fresh_def)
  have "io_setbuf 0 0 stats [name, a, c] s = sq (fclose rfp) (sq (fclose wfp) (sq (printf stats) (sq (bnd (gets gbuf) buf_free) (exit_with EXIT_SUCCESS)))) u"
    using assms(2-5) t(1) u(1) by (simp add: io_setbuf_def Let_def prog_eval run_printf)
  also have "\<dots> = (Exited EXIT_SUCCESS, u\<lparr>bout := bout u @ [Out stats], fbuf := (fbuf u)(gbuf u := None)\<rparr>)"
    using u(3) by (auto simp: prog_eval run_printf fclose_def buf_free_def free_def rw_ready_def)
  finally show ?thesis using u(2) by simp
qed

text \<open>
  The order of the log: in \<^verbatim>\<open>redirct.c\<close> the messages of stderr come before the line that was printed first; \<^verbatim>\<open>redirct2.c\<close>, which flushes, keeps the
  order.
\<close>

definition rd_fine :: "string \<Rightarrow> rdr \<Rightarrow> bool" where
  "rd_fine d s = (bout s = [] \<and> marks s = [] \<and> rrets s = [] \<and> ropens s = [True, True, True, False] \<and> dateline s = Some (d @ [nl]) \<and>
     length d < 255 \<and> nul \<notin> set d \<and> berrno s = Some ''No such file or directory'')"

lemma date_trimmed: "length d < 255 \<Longrightarrow> nul \<notin> set d \<Longrightarrow> takeWhile (\<lambda>c. c \<noteq> nul) (take 255 (d @ [nl])) = d @ [nl]"
  by (subst takeWhile_eq_all_conv [THEN iffD2]) auto

lemma redirct_log:
  assumes "rd_fine d s"
  shows "\<exists>t. redirct False [name, path] s = (Exited EXIT_SUCCESS, t) \<and>
    log_file (marks t) (bout t) =
      [name @ '':'' @ d @ '':fopen on abcxyz failed'' @ [nl], '' fopen: No such file or directory'' @ [nl],
       name @ '':'' @ d @ '':current seek position: '' @ show_int (rpos s) @ [nl]]"
proof -
  have "takeWhile (\<lambda>c. c \<noteq> nul) (take 255 (d @ [nl])) = d @ [nl]" using assms by (intro date_trimmed) (auto simp: rd_fine_def)
  then show ?thesis using assms
    by (simp add: rd_fine_def redirct_def reopen_def ropen_def rd_date_def rd_close_def rd_perror_def segment_def prog_eval run_printf run_eprintf del: take_append)
qed

lemma redirct2_log:
  assumes "rd_fine d s"
  shows "\<exists>t. redirct True [name, path] s = (Exited EXIT_SUCCESS, t) \<and>
    log_file (marks t) (bout t) =
      [name @ '':'' @ d @ '':current seek position: '' @ show_int (rpos s) @ [nl],
       [nl] @ name @ '':'' @ d @ '':fopen on abcxyz failed'' @ [nl], '' fopen: No such file or directory'' @ [nl]]"
proof -
  have "takeWhile (\<lambda>c. c \<noteq> nul) (take 255 (d @ [nl])) = d @ [nl]" using assms by (intro date_trimmed) (auto simp: rd_fine_def)
  then show ?thesis using assms
    by (simp add: rd_fine_def redirct_def reopen_def ropen_def rd_date_def rd_close_def rd_perror_def rd_sync_def rret_def fflush_out_def segment_def prog_eval run_printf run_eprintf del: take_append)
qed

text \<open>A number of megabytes that does not fit wraps in the multiplication: the program then reserves one megabyte and reports success.\<close>

lemma diskspc_wraps:
  assumes "fallocate 1048576 = 0" "0 \<le> opened"
  shows "fst (diskspc opened fallocate [name, path, show_int 17592186044417] s) = Exited EXIT_SUCCESS"
proof -
  have "strtol10 (show_int 17592186044417) = (17592186044417, [])" using strtol10_show_int [of 17592186044417 "[]"] by simp
  then have "ds_size (show_int 17592186044417) = 1048576" by (simp add: ds_size_def i64_def)
  then show ?thesis using assms by (simp add: diskspc_def Let_def prog_eval)
qed

end
