(* ===== verification/Exec_Programs.thy ===== *)
theory Exec_Programs
  imports Book_Common "HOL-Library.Word"
begin

text \<open>
  Programs that replace themselves by another, \<^verbatim>\<open>execl_eg.c\<close>, \<^verbatim>\<open>pdfrdr_exec.c\<close>, \<^verbatim>\<open>predcs_name.c\<close> and \<^verbatim>\<open>successor_setnm.c\<close> of \<^verbatim>\<open>src/booksrc/ch9\<close> and
  \<^verbatim>\<open>exec_pid_poc.c\<close> of \<^verbatim>\<open>src/booksrc/solutions_to_assgn/ch9\<close>, and the table of resource limits, \<^verbatim>\<open>src/booksrc/ch3/rlimits_show.c\<close>. \<open>image\<close> is the program and the
  arguments a successful \<^verbatim>\<open>exec\<close> has put in place: the old program has then ended, which is the only way these mains return; \<open>comm\<close> is the
  name the kernel keeps of the process, 15 characters, set by \<^verbatim>\<open>exec\<close> from the file and by \<^verbatim>\<open>prctl\<close>. \<open>xrets\<close> are the results of the coming calls, 0
  when it is used up; \<open>xerrno\<close> is the symbol of \<^verbatim>\<open>errno\<close> after them.
\<close>

section \<open>State\<close>

record exe = bk +
  image :: "(string \<times> string list) option"
  comm :: string
  xrets :: "int list"
  xpid :: int
  xerrno :: string
  limits :: "string \<Rightarrow> (64 word \<times> 64 word) option"

type_synonym 'a xprog = "(exe, 'a) cprog"

definition xret :: "int xprog" where
  "xret = (\<lambda>s. case xrets s of [] \<Rightarrow> (Return 0, s) | r # rs \<Rightarrow> (Return r, s\<lparr>xrets := rs\<rparr>))"

definition basename :: "string \<Rightarrow> string" where
  "basename path = rev (takeWhile (\<lambda>c. c \<noteq> CHR ''/'') (rev path))"

text \<open>A call of the \<^verbatim>\<open>exec\<close> family, and what the program does when it fails.\<close>

definition execv :: "string \<Rightarrow> string list \<Rightarrow> unit xprog \<Rightarrow> unit xprog" where
  "execv path args failed = bnd xret (\<lambda>r. if r < 0 then failed
     else modify (\<lambda>s. s\<lparr>image := Some (path, args), comm := take 15 (basename path)\<rparr>))"

section \<open>Predecessors\<close>

definition execl_eg :: "string list \<Rightarrow> unit xprog" where
  "execl_eg argv =
     sq (if length argv < 2 then sq (eprintf (''Usage: '' @ argv ! 0 @ '' {-a|-r}'' @ [nl] @ '' -a : display all uname info'' @ [nl] @
           '' -r : display only kernel version'' @ [nl])) (exit_with EXIT_FAILURE) else ret ())
     (execv ''/bin/uname'' [''uname'', argv ! 1]
       (sq (FATAL (place ''execl_eg.c'' ''main'' 37) (''execl failed'' @ [nl]))
       (sq (printf (''This should never get executed!'' @ [nl])) (exit_with EXIT_SUCCESS))))"

definition pdfrdr_exec :: "string list \<Rightarrow> unit xprog" where
  "pdfrdr_exec argv =
     sq (if length argv < 2 then sq (eprintf (''Usage: '' @ argv ! 0 @ '' {pathname_of_doc.pdf}'' @ [nl])) (exit_with EXIT_FAILURE) else ret ())
     (execv ''/usr/bin/evince'' [''evince'', argv ! 1]
       (sq (WARN (place ''pdfrdr_exec.c'' ''exec_pdf_reader_app'' 36) (''execv failed'' @ [nl]))
       (sq (FATAL (place ''pdfrdr_exec.c'' ''main'' 51) (''exec pdf function failed'' @ [nl]))
       (exit_with EXIT_SUCCESS))))"

definition exec_pid_poc :: "string list \<Rightarrow> unit xprog" where
  "exec_pid_poc argv =
     sq (bnd (gets xpid) (\<lambda>p. printf (''Predecessor ['' @ argv ! 0 @ '']: PID is '' @ show_int p @ [nl])))
     (execv ''ps'' [''ps'']
       (sq (bnd (gets berrno) (\<lambda>e. eprintf (''execl(ps) failed: '' @ (case e of None \<Rightarrow> ''Success'' | Some txt \<Rightarrow> txt) @ [nl]))) (exit_with EXIT_FAILURE)))"

definition access_err :: "string \<Rightarrow> string" where
  "access_err e = (if e = ''ENOENT'' then ''is missing; please build it and retry.''
     else if e = ''EACCES'' then ''does not have sufficient permissions to execute.'' else '': [other error]'')"

text \<open>The file that is looked for is the first argument; the file that is executed is always \<^verbatim>\<open>./successor_setnm\<close>.\<close>

definition predcs_name :: "string list \<Rightarrow> unit xprog" where
  "predcs_name argv =
     sq (if length argv < 2 \<or> length argv > 3 then sq (eprintf (''Usage: '' @ argv ! 0 @ '' {successor_name} [do-it-right]'' @ [nl])) (exit_with EXIT_FAILURE) else ret ())
     (sq (bnd xret (\<lambda>r. if r < 0 then bnd (gets xerrno) (\<lambda>e.
            FATAL (place ''predcs_name.c'' ''main'' 52) (''Successor file \"'' @ argv ! 1 @ ''\" '' @ access_err e @ [nl])) else ret ()))
     (if length argv = 2 then execv ''./successor_setnm'' [argv ! 1, argv ! 1]
        (sq (FATAL (place ''predcs_name.c'' ''main'' 70) (''execl \"successor_setnm\" 1 failed'' @ [nl])) (exit_with EXIT_SUCCESS))
      else if length argv = 3 then execv ''./successor_setnm'' [argv ! 2, argv ! 1, argv ! 2]
        (sq (FATAL (place ''predcs_name.c'' ''main'' 74) (''execl \"successor_setnm\" 2 failed'' @ [nl])) (exit_with EXIT_SUCCESS))
      else exit_with EXIT_SUCCESS))"

section \<open>The successor\<close>

fun show_args :: "nat \<Rightarrow> string list \<Rightarrow> unit xprog" where
  "show_args i [] = ret ()"
| "show_args i (a # as) = sq (printf (''argv['' @ show_nat i @ '']='' @ a @ [nl])) (show_args (Suc i) as)"

definition set_name :: "string \<Rightarrow> int xprog" where
  "set_name nm = bnd xret (\<lambda>r. sq (if r < 0 then ret () else modify (\<lambda>s. s\<lparr>comm := take 15 nm\<rparr>)) (ret r))"

text \<open>After its last line the program waits for a signal.\<close>

definition successor_setnm :: "string list \<Rightarrow> unit xprog" where
  "successor_setnm argv =
     sq (if length argv < 2 \<or> length argv > 3 then sq (eprintf (''Usage: '' @ argv ! 0 @ '' {successor_name} [do-it-right-param]'' @ [nl])) (exit_with EXIT_FAILURE) else ret ())
     (sq (printf (argv ! 0 @ '':parameters received:'' @ [nl]))
     (sq (show_args 0 argv)
     (sq (if length argv = 3 then
            sq (printf (argv ! 0 @ '': setting name to \"'' @ argv ! 2 @ ''\" via prctl(2) [Right]'' @ [nl]))
            (bnd (set_name (argv ! 2)) (\<lambda>r. if r < 0 then FATAL (place ''successor_setnm.c'' ''main'' 52) (''prctl failed'' @ [nl]) else ret ()))
          else printf (argv ! 0 @ '': attempt to implicitly set name to \"'' @ argv ! 1 @ ''\" via the argv[0] passed to execl [Wrong]'' @ [nl]))
     (sq (printf (argv ! 0 @ '': pausing now...'' @ [nl]))
     (\<lambda>s. (Blocks, s))))))"

text \<open>Both programs one after the other: the second is entered when the first was replaced by it.\<close>

definition predcs_then_successor :: "string list \<Rightarrow> unit xprog" where
  "predcs_then_successor argv = sq (predcs_name argv) (bnd (gets image) (\<lambda>im. case im of None \<Rightarrow> ret () | Some (_, args) \<Rightarrow> successor_setnm args))"

section \<open>rlimits\_show.c\<close>

definition rlimpair_arr :: "string list" where
  "rlimpair_arr = [''RLIMIT_CORE'', ''RLIMIT_DATA'', ''RLIMIT_NICE'', ''RLIMIT_FSIZE'', ''RLIMIT_SIGPENDING'', ''RLIMIT_MEMLOCK'', ''RLIMIT_NOFILE'', ''RLIMIT_MSGQUEUE'',
     ''RLIMIT_RTTIME'', ''RLIMIT_STACK'', ''RLIMIT_CPU'', ''RLIMIT_NPROC'', ''RLIMIT_AS'', ''RLIMIT_LOCKS'']"

text \<open>\<^verbatim>\<open>snprintf(tmp, 16, \"%ld\", ...)\<close> keeps 15 characters.\<close>

definition rl_text :: "64 word \<Rightarrow> string" where
  "rl_text w = (if w = - 1 then ''unlimited'' else take 15 (show_int (sint w)))"

definition rl_row :: "string \<Rightarrow> 64 word \<times> 64 word \<Rightarrow> string" where
  "rl_row name lim = name @ replicate (18 - length name) (CHR '' '') @ '':  '' @ pad (CHR '' '') 16 (rl_text (fst lim)) @ ''  '' @ pad (CHR '' '') 16 (rl_text (snd lim)) @ [nl]"

text \<open>\<open>rlim\<close> is the local variable, \<open>None\<close> before it was written; it keeps its value when the call fails and the message has no memory.\<close>

fun query_loop :: "nat \<Rightarrow> string list \<Rightarrow> (64 word \<times> 64 word) option \<Rightarrow> unit xprog" where
  "query_loop i [] rlim = ret ()"
| "query_loop i (name # names) rlim =
     bnd (gets (\<lambda>s. limits s name)) (\<lambda>got.
     sq (if got = None then FATAL (place ''rlimits_show.c'' ''query_rlimits'' 63) (''prlimit['' @ show_nat i @ ''] failed'' @ [nl]) else ret ())
     (case (if got = None then rlim else got) of None \<Rightarrow> fault Uninitialised
      | Some lim \<Rightarrow> sq (printf (rl_row name lim)) (query_loop (Suc i) names (Some lim))))"

definition rlimits_show :: "unit xprog" where
  "rlimits_show =
     sq (printf (''RESOURCE LIMIT                 SOFT              HARD'' @ [nl]))
     (sq (query_loop 0 rlimpair_arr None)
     (exit_with EXIT_SUCCESS))"

section \<open>Lemmas\<close>

text \<open>
  The name of the process: passed as \<^verbatim>\<open>argv[0]\<close> only, it does not stick; with the second argument the successor takes it, cut to 15 characters. The
  file of the first argument need not be the successor.
\<close>

lemma show_args_run: "\<exists>l. show_args i as s = (Return (), s\<lparr>bout := bout s @ l\<rparr>)"
proof (induction as arbitrary: i s)
  case (Cons a as)
  let ?s = "s\<lparr>bout := bout s @ [Out (''argv['' @ show_nat i @ '']='' @ a @ [nl])]\<rparr>"
  obtain l where "show_args (Suc i) as ?s = (Return (), ?s\<lparr>bout := bout ?s @ l\<rparr>)" using Cons.IH by blast
  then show ?case by (auto simp: prog_simps)
qed (auto simp: prog_simps intro: exI [of _ "[]"])

lemma wrong_way_name:
  assumes "xrets s = []"
  shows "\<exists>t. predcs_then_successor [p, nm] s = (Blocks, t) \<and> comm t = ''successor_setnm'' \<and> image t = Some (''./successor_setnm'', [nm, nm])"
  using assms by (simp add: predcs_then_successor_def predcs_name_def execv_def xret_def successor_setnm_def basename_def prog_simps)

lemma right_way_name:
  assumes "xrets s = []"
  shows "\<exists>t. predcs_then_successor [p, f, nm] s = (Blocks, t) \<and> comm t = take 15 nm \<and> image t = Some (''./successor_setnm'', [nm, f, nm])"
  using assms by (simp add: predcs_then_successor_def predcs_name_def execv_def xret_def successor_setnm_def basename_def set_name_def prog_simps)

text \<open>The line after \<^verbatim>\<open>execl\<close> is printed exactly when \<^verbatim>\<open>execl\<close> fails and there is no memory for the message of \<^verbatim>\<open>FATAL\<close>.\<close>

lemma execl_eg_never:
  assumes "bout s = []"
  shows "Out (''This should never get executed!'' @ [nl]) \<in> set (bout (snd (execl_eg [p, a] s))) \<longleftrightarrow>
    xrets s \<noteq> [] \<and> hd (xrets s) < 0 \<and> bmem s \<noteq> [] \<and> \<not> hd (bmem s)"
  using assms
  by (cases "xrets s"; cases "bmem s"; cases "berrno s") (auto simp: execl_eg_def execv_def xret_def FATAL_def handle_err_def malloc_ok_def prog_eval run_printf run_eprintf)

text \<open>A limit below \<open>10 ^ 15\<close> is shown as it is; a longer number loses its last digits.\<close>

lemma rl_text_exact:
  assumes "uint w < 10 ^ 15"
  shows "rl_text w = show_int (uint w)"
proof -
  have s: "sint w = uint w" unfolding sint_uint using assms by (intro signed_take_bit_int_eq_self) (simp_all add: order_trans [of _ 0])
  have "unat w < 10 ^ Suc 14" using assms by (simp add: unat_eq_nat_uint nat_less_iff del: nat_uint_eq)
  then have "length (show_int (uint w)) \<le> 15" using length_show_nat [of "unat w" 14] by (simp add: show_int_def)
  moreover have "w \<noteq> - 1" using assms by (auto simp: unsigned_minus_1_eq_mask mask_eq_exp_minus_1)
  ultimately show ?thesis by (simp add: rl_text_def s)
qed

lemma rl_text_truncates: "rl_text 1234567890123456 = show_int 123456789012345"
proof -
  have "length (show_nat 123456789012345) = 15" by (simp add: show_nat.simps)
  moreover have "show_nat 1234567890123456 = show_nat 123456789012345 @ [digit_char 6]" by (subst show_nat.simps) simp
  ultimately show ?thesis by (simp add: rl_text_def show_int_def)
qed

lemma query_loop_rows:
  assumes "\<forall>n \<in> set names. limits s n \<noteq> None"
  shows "query_loop i names r s = (Return (), s\<lparr>bout := bout s @ map (\<lambda>n. Out (rl_row n (the (limits s n)))) names\<rparr>)"
  using assms
proof (induction names arbitrary: i r s)
  case (Cons n names)
  then obtain lim where "limits s n = Some lim" by auto
  then show ?case using Cons by (simp add: prog_simps)
qed (simp add: prog_simps)

lemma rlimits_show_rows:
  assumes "\<forall>n. limits s n \<noteq> None"
  shows "\<exists>t. rlimits_show s = (Exited EXIT_SUCCESS, t) \<and>
    bout t = bout s @ Out (''RESOURCE LIMIT                 SOFT              HARD'' @ [nl]) # map (\<lambda>n. Out (rl_row n (the (limits s n)))) rlimpair_arr"
  using assms by (simp add: rlimits_show_def prog_simps query_loop_rows)

end
