(* ===== verification/Kid_Signals.thy ===== *)
theory Kid_Signals
  imports Signal_Machine Book_Common
begin

text \<open>
  A parent and a child and one signal between them: \<^verbatim>\<open>src/booksrc/solutions_to_assgn/ch12/killer.c\<close>, where the parent sends SIGINT to a child that inherited
  the handler, and \<^verbatim>\<open>src/booksrc/ch11/zombies_clear_linux26.c\<close>, where the end of the child sends SIGCHLD to a parent that must not be left with a zombie. A
  step is what one of the two processes does up to its next system call; every interleaving is a run. \<open>kres\<close> are the results of the coming
  system calls, 0 when it is used up.
\<close>

section \<open>killer.c\<close>

datatype kid_pc = K_none | K_run | K_paused | K_dead int

datatype par_pc = P_start | P_say | P_probe | P_kill | P_wait | P_end int

record kil = bk +
  kid :: kid_pc
  par :: par_pc
  int_pending :: bool
  kres :: "int list"
  pids :: "int \<times> int"

definition kcall :: "(kil, int) cprog" where
  "kcall = (\<lambda>s. case kres s of [] \<Rightarrow> (Return 0, s) | r # rs \<Rightarrow> (Return r, s\<lparr>kres := rs\<rparr>))"

definition perror_exit :: "string \<Rightarrow> (kil, unit) cprog" where
  "perror_exit msg = sq (bnd (gets berrno) (\<lambda>e. eprintf (msg @ '': '' @ (case e of None \<Rightarrow> ''Success'' | Some txt \<Rightarrow> txt) @ [nl]))) (exit_with 1)"

abbreviation (input) SIGINT_no :: nat where "SIGINT_no \<equiv> 2"

definition catch_line :: "int \<Rightarrow> io" where
  "catch_line me = Out (''catcher: process '' @ show_int me @ '' received signal SIGINT ; will now die.'' @ [nl])"

definition catchit :: "int \<Rightarrow> nat \<Rightarrow> (kil, unit) cprog" where
  "catchit me signo =
     (if signo = SIGINT_no then sq (printf (''catcher: process '' @ show_int me @ '' received signal SIGINT ; will now die.'' @ [nl])) (exit_with 0)
      else printf (''catchit: error, handler for SIGINT only'' @ [nl]))"

definition goto :: "par_pc \<Rightarrow> (kil, unit) cprog" where
  "goto pc = modify (\<lambda>s. s\<lparr>par := pc\<rparr>)"

text \<open>The parent, one system call after another; the handler is set before the fork.\<close>

fun parent_code :: "par_pc \<Rightarrow> (kil, unit) cprog" where
  "parent_code P_start =
     bnd kcall (\<lambda>r. if r = -1 then perror_exit ''killer: sigaction failed.'' else
     bnd kcall (\<lambda>r. if r = -1 then perror_exit ''fork failed'' else
     sq (modify (\<lambda>s. s\<lparr>kid := K_run\<rparr>)) (goto P_say)))"
| "parent_code P_say = bnd (gets pids) (\<lambda>(p, c). sq (printf (''parent is '' @ show_int p @ '', child is '' @ show_int c @ [nl])) (goto P_probe))"
| "parent_code P_probe = bnd kcall (\<lambda>r. goto (if r = 0 then P_kill else P_wait))"
| "parent_code P_kill = bnd kcall (\<lambda>r. if r = -1 then perror_exit ''kill failed'' else sq (modify (\<lambda>s. s\<lparr>int_pending := True\<rparr>)) (goto P_wait))"
| "parent_code P_wait = bnd kcall (\<lambda>r. if r = -1 then perror_exit ''wait failed'' else
     bnd (gets pids) (\<lambda>(p, c). sq (printf (''parent '' @ show_int p @ '': child process fetched, wait returned '' @ show_int c @ [nl])) (goto (P_end 0))))"
| "parent_code (P_end n) = ret ()"

text \<open>The parent can run unless it has ended or waits for a child that lives.\<close>

definition par_ready :: "kil \<Rightarrow> bool" where
  "par_ready s = (case par s of P_end _ \<Rightarrow> False | P_wait \<Rightarrow> (\<exists>n. kid s = K_dead n) | _ \<Rightarrow> True)"

definition par_step :: "kil \<Rightarrow> kil" where
  "par_step s = (case parent_code (par s) s of (Exited n, s') \<Rightarrow> s'\<lparr>par := P_end n\<rparr> | (_, s') \<Rightarrow> s')"

text \<open>The handler in the child: it ends the child, or returns and \<^verbatim>\<open>pause\<close> with it.\<close>

definition kid_caught :: "kil \<Rightarrow> kil" where
  "kid_caught s = (case catchit (snd (pids s)) SIGINT_no (s\<lparr>int_pending := False\<rparr>) of (Exited n, s') \<Rightarrow> s'\<lparr>kid := K_dead n\<rparr>
     | (_, s') \<Rightarrow> (if kid s = K_paused then s'\<lparr>kid := K_dead 0\<rparr> else s'))"

inductive kstep :: "kil \<Rightarrow> kil \<Rightarrow> bool" where
  parent: "par_ready s \<Longrightarrow> kstep s (par_step s)"
| child_pauses: "kid s = K_run \<Longrightarrow> kstep s (s\<lparr>kid := K_paused\<rparr>)"
| child_caught: "int_pending s \<Longrightarrow> kid s \<in> {K_run, K_paused} \<Longrightarrow> kstep s (kid_caught s)"

inductive_cases kstepE: "kstep s t"

section \<open>zombies\_clear\_linux26.c\<close>

record zom = bk +
  chld_disp :: disp
  nocldwait :: bool
  beeps_left :: "nat option"
  zombies :: nat
  chld_pending :: bool
  zres :: "int list"
  zpids :: "int \<times> int"

definition zcall :: "(zom, int) cprog" where
  "zcall = (\<lambda>s. case zres s of [] \<Rightarrow> (Return 0, s) | r # rs \<Rightarrow> (Return r, s\<lparr>zres := rs\<rparr>))"

definition z_usage :: "string \<Rightarrow> (zom, unit) cprog" where
  "z_usage name = sq (eprintf (''Usage: '' @ name @ '' {option-to-prevent-zombies}'' @ [nl] @
     '' 1 : (2.6 Linux) using the SA_NOCLDWAIT flag with sigaction(2)'' @ [nl] @ '' 2 : just ignore the signal SIGCHLD'' @ [nl])) (exit_with EXIT_FAILURE)"

definition child_dies :: "(zom, unit) cprog" where
  "child_dies = printf ([nl] @ ''*** Child dies! ***'' @ [nl])"

text \<open>Up to the fork; after it the parent is in its loop of \<^verbatim>\<open>pause\<close>. A fork that fails and a \<^verbatim>\<open>FATAL\<close> that returns fall into the code of the child.\<close>

definition zombies_clear :: "string list \<Rightarrow> (zom, unit) cprog" where
  "zombies_clear argv =
     sq (if length argv \<noteq> 2 then z_usage (argv ! 0) else ret ())
     (let op = atoi (argv ! 1) in
      sq (if op \<noteq> 1 \<and> op \<noteq> 2 then z_usage (argv ! 0) else ret ())
      (sq (bnd zcall (\<lambda>r. if r = -1 then FATAL (place ''zombies_clear_linux26.c'' ''main'' 77) ''sigaction failed''
             else modify (\<lambda>s. s\<lparr>chld_disp := (if op = 1 then Hdl else Ign), nocldwait := (op = 1)\<rparr>)))
      (sq (bnd (gets zpids) (\<lambda>(p, c). printf (''parent: '' @ show_int p @ [nl])))
      (bnd zcall (\<lambda>r. if r = -1 then
          sq (FATAL (place ''zombies_clear_linux26.c'' ''main'' 82) ''fork failed'')
          (sq (bnd (gets zpids) (\<lambda>(p, c). printf (''child: '' @ show_int p @ [nl]))) (sq (DELAY_LOOP 99 25) (exit_with 0)))
        else sq (modify (\<lambda>s. s\<lparr>beeps_left := Some 25\<rparr>)) (bnd (gets zpids) (\<lambda>(p, c). printf (''child: '' @ show_int c @ [nl]))))))))"

text \<open>
  Afterwards: the child beeps and exits, which leaves a zombie unless the parent ignores SIGCHLD or has SA_NOCLDWAIT set; the signal runs the handler
  if there is one, and the parent pauses again.
\<close>

inductive zstep :: "zom \<Rightarrow> zom \<Rightarrow> bool" where
  beep: "beeps_left s = Some (Suc n) \<Longrightarrow> zstep s (snd (Book_Common.beep 99 (s\<lparr>beeps_left := Some n\<rparr>)))"
| exits: "beeps_left s = Some 0 \<Longrightarrow> zstep s (s\<lparr>beeps_left := None,
     zombies := (if nocldwait s \<or> chld_disp s = Ign then zombies s else Suc (zombies s)), chld_pending := (chld_disp s = Hdl)\<rparr>)"
| handled: "chld_pending s \<Longrightarrow> zstep s (snd (child_dies (s\<lparr>chld_pending := False\<rparr>)))"

inductive_cases zstepE: "zstep s t"

section \<open>The child inherits the handler\<close>

definition n_caught :: "kil \<Rightarrow> nat" where
  "n_caught s = length (filter (\<lambda>x. x = catch_line (snd (pids s))) (bout s))"

definition kinv :: "kil \<Rightarrow> bool" where
  "kinv s = (kres s = [] \<and> (case par s of
      P_start \<Rightarrow> kid s = K_none \<and> \<not> int_pending s \<and> n_caught s = 0
    | P_wait \<Rightarrow> kid s \<in> {K_run, K_paused} \<and> int_pending s \<and> n_caught s = 0 \<or> kid s = K_dead 0 \<and> \<not> int_pending s \<and> n_caught s = 1
    | P_end n \<Rightarrow> n = 0 \<and> kid s = K_dead 0 \<and> \<not> int_pending s \<and> n_caught s = 1
    | _ \<Rightarrow> kid s \<in> {K_run, K_paused} \<and> \<not> int_pending s \<and> n_caught s = 0))"

definition krank :: "kil \<Rightarrow> nat" where
  "krank s = (case par s of P_start \<Rightarrow> 7 | P_say \<Rightarrow> 4 | P_probe \<Rightarrow> 3 | P_kill \<Rightarrow> 2 | P_wait \<Rightarrow> 1 | P_end _ \<Rightarrow> 0) +
     (case kid s of K_run \<Rightarrow> 2 | K_paused \<Rightarrow> 1 | _ \<Rightarrow> 0)"

lemma par_step_kinv:
  assumes "kinv s" "par_ready s"
  shows "kinv (par_step s) \<and> krank (par_step s) < krank s"
proof (cases "pids s")
  case (Pair p c)
  then show ?thesis using assms
    by (cases "par s")
      (auto simp: kinv_def krank_def par_ready_def par_step_def kcall_def goto_def n_caught_def catch_line_def prog_eval run_printf)
qed

lemma kid_caught_kinv:
  assumes "kinv s" "int_pending s" "kid s \<in> {K_run, K_paused}"
  shows "kinv (kid_caught s) \<and> krank (kid_caught s) < krank s"
  using assms by (cases "par s") (auto simp: kinv_def krank_def kid_caught_def catchit_def n_caught_def catch_line_def prog_eval run_printf)

lemma kid_pauses_kinv: "kinv s \<Longrightarrow> kid s = K_run \<Longrightarrow> kinv (s\<lparr>kid := K_paused\<rparr>) \<and> krank (s\<lparr>kid := K_paused\<rparr>) < krank s"
  by (cases "par s") (auto simp: kinv_def krank_def n_caught_def)

lemma kstep_kinv: "kstep s t \<Longrightarrow> kinv s \<Longrightarrow> kinv t \<and> krank t < krank s"
  by (erule kstepE) (simp_all add: par_step_kinv kid_caught_kinv kid_pauses_kinv)

lemma kinv_stuck:
  assumes "kinv s" "\<nexists>t. kstep s t"
  shows "par s = P_end 0"
proof -
  have "\<not> par_ready s" "\<not> (int_pending s \<and> kid s \<in> {K_run, K_paused})" using assms(2) kstep.intros by blast+
  then show ?thesis using assms(1) by (cases "par s") (auto simp: kinv_def par_ready_def)
qed

lemma kruns_kinv: "(kstep ^^ n) s t \<Longrightarrow> kinv s \<Longrightarrow> kinv t \<and> krank t + n \<le> krank s"
proof (induction n arbitrary: t)
  case (Suc n)
  then obtain u where "(kstep ^^ n) s u" "kstep u t" by auto
  then show ?case using Suc kstep_kinv [of u t] by fastforce
qed simp

text \<open>
  When no call fails, every interleaving ends within seven steps, with the line of the handler printed once and the child gone by the exit of
  the handler: no signal is lost, even one sent before the child pauses.
\<close>

lemma killer_catches:
  assumes "kres s = []" "par s = P_start" "kid s = K_none" "\<not> int_pending s" "bout s = []" "(kstep ^^ n) s t"
  shows "n \<le> 7" and "(\<nexists>u. kstep t u) \<Longrightarrow> par t = P_end 0 \<and> kid t = K_dead 0 \<and> n_caught t = 1"
proof -
  have k: "kinv s" "krank s = 7" using assms by (simp_all add: kinv_def krank_def n_caught_def)
  show "n \<le> 7" using kruns_kinv [OF assms(6) k(1)] k(2) by simp
  show "(\<nexists>u. kstep t u) \<Longrightarrow> par t = P_end 0 \<and> kid t = K_dead 0 \<and> n_caught t = 1"
    using kruns_kinv [OF assms(6) k(1)] kinv_stuck [of t] by (auto simp: kinv_def)
qed

section \<open>No zombie\<close>

definition zinv :: "zom \<Rightarrow> bool" where
  "zinv s = (zombies s = 0 \<and> (nocldwait s \<or> chld_disp s = Ign) \<and>
     (chld_disp s = Hdl \<longrightarrow> beeps_left s \<noteq> None \<or> chld_pending s \<or> Out ([nl] @ ''*** Child dies! ***'' @ [nl]) \<in> set (bout s)))"

lemma zstep_zinv: "zstep s t \<Longrightarrow> zinv s \<Longrightarrow> zinv t"
  by (erule zstepE) (auto simp: zinv_def beep_def child_dies_def run_printf)

lemma zruns_zinv: "zstep\<^sup>*\<^sup>* s t \<Longrightarrow> zinv s \<Longrightarrow> zinv t"
  by (induction rule: rtranclp_induct) (auto intro: zstep_zinv)

text \<open>With either option the parent never has a zombie; with the first it hears of the child's end.\<close>

lemma zombies_clear_none:
  assumes "atoi a \<in> {1, 2}" "zres s = []" "zombies s = 0" "zombies_clear [name, a] s = (Return (), t)" "zstep\<^sup>*\<^sup>* t u"
  shows "zombies u = 0" and "(\<nexists>v. zstep u v) \<Longrightarrow> atoi a = 1 \<Longrightarrow> Out ([nl] @ ''*** Child dies! ***'' @ [nl]) \<in> set (bout u)"
proof -
  have t: "zinv t" "atoi a = 1 \<longrightarrow> chld_disp t = Hdl"
    using assms(1-4) by (auto simp: zombies_clear_def Let_def zcall_def zinv_def prog_eval run_printf split: prod.splits)
  have "zstep\<^sup>*\<^sup>* t u \<Longrightarrow> chld_disp u = chld_disp t" by (induction rule: rtranclp_induct) (auto elim!: zstepE simp: beep_def child_dies_def run_printf)
  then have u: "zinv u" "chld_disp u = chld_disp t" using assms(5) t(1) zruns_zinv by auto
  then show "zombies u = 0" by (simp add: zinv_def)
  assume stuck: "\<nexists>v. zstep u v" and "atoi a = 1"
  have "beeps_left u = None" "\<not> chld_pending u" using stuck zstep.intros(1-2) [of u] zstep.intros(3) [of u] by (cases "beeps_left u", auto) (metis not0_implies_Suc)
  then show "Out ([nl] @ ''*** Child dies! ***'' @ [nl]) \<in> set (bout u)" using u t(2) \<open>atoi a = 1\<close> by (auto simp: zinv_def)
qed

end
