(* ===== verification/Spec2Isabelle.thy ===== *)
theory Spec2Isabelle
  imports Pool_Properties M9_Pool Http_Proxy Future_Value System_Info Proxy_Main Mt_Copy Primes Simple_Shell Io_Buffers Timers Mem_Bugs Scatter_Gather Shared_Mutex Joiners Matrix_Mul Cleanup_Handler Fault_Handlers Sched_Threads Fork_Demos Signal_Waits Daemon Itimers Thread_Demos Credentials Mem_Probes Stdio_Order Exec_Programs Kid_Signals
begin

text \<open>
  This library models the C programs of the repository and proves what makes them correct, or shows how they fail.

  \<^bold>\<open>The programs.\<close> The repository is a course's work on system programming. Its core is a thread pool: \<^verbatim>\<open>src/main.c\<close> creates
  workers (\<^verbatim>\<open>thread_pool.c\<close>, \<^verbatim>\<open>worker_thread.c\<close>), each with a queue of requests (\<^verbatim>\<open>queue.c\<close>); it hands tasks
  (\<^verbatim>\<open>tasks.c\<close>) to randomly chosen workers, closes the queues and joins the threads. \<^verbatim>\<open>src/M9\<close> is an earlier version of the
  same. \<^verbatim>\<open>src/proxy_server\<close> is an HTTP proxy whose main accepts clients and whose handler parses, rewrites and forwards
  requests; it links against a pool library that is only there as headers and a binary. \<^verbatim>\<open>src/M2\<close> and \<^verbatim>\<open>src/M5\<close> are two
  stand-alone programs. \<^verbatim>\<open>src/booksrc\<close> holds the programs of a book on Linux system programming, each on its own over
  \<^verbatim>\<open>common.c\<close> and \<^verbatim>\<open>common.h\<close>.

  \<^bold>\<open>Shared ground.\<close>
  \<^item> \<open>C_Prelude\<close>: machine integers (\<open>i32\<close>, \<open>u32\<close>, \<open>i64\<close>, words where the pattern matters), the parts of the C library that
    several programs use (\<^verbatim>\<open>strtol\<close>, \<^verbatim>\<open>atoi\<close>, \<^verbatim>\<open>fgets\<close>, decimal output), the ways a function can end (\<open>outcome\<close>: it returns,
    exits the process, does something undefined, or blocks) and lemmas on lists and numbers.
  \<^item> \<open>C_Prog\<close>: C functions as programs on a state, their sequence \<open>bnd\<close>, objects on a heap (\<open>deref\<close>, \<open>store\<close>, \<open>free\<close>) with a fault
    for NULL, dangling and doubly freed pointers.
  \<^item> \<open>Machine\<close>: the machine of the pool: heaps of requests, nodes, queues, workers and pools, mutexes with owners, condition
    variables with their sleepers, threads, the log file, and the amount of memory left, so that every \<^verbatim>\<open>malloc\<close> can fail.
  \<^item> \<open>Book_Common\<close>: \<^verbatim>\<open>src/booksrc/common.c\<close> and \<^verbatim>\<open>common.h\<close> (\<^verbatim>\<open>handle_err\<close>, \<^verbatim>\<open>WARN\<close>, \<^verbatim>\<open>FATAL\<close>, \<^verbatim>\<open>VPRINT\<close>, \<^verbatim>\<open>DELAY_LOOP\<close>,
    \<^verbatim>\<open>timerspecsub\<close>, \<^verbatim>\<open>r_sleep\<close>); note that \<^verbatim>\<open>FATAL\<close> returns when there is no memory for its message.
  \<^item> \<open>Locked_Threads\<close>: threads that run one critical section each, at the granularity of single accesses; its locale
    \<open>sections\<close> proves once that under the lock every run ends and is serial.

  \<^bold>\<open>The thread pool.\<close>
  \<^item> \<open>Fifo_Spec\<close> says what a queue promises, a list and a closed flag, and gives the locale \<open>simulation\<close> for an implementation;
    \<open>Request_Queue\<close> models \<^verbatim>\<open>queue.c\<close> on the pointer level and interprets it (C1 to C3: every sequence of calls answers as the
    list does, first in first out, and \<^verbatim>\<open>queue_destroy\<close> frees every node and nothing else).
  \<^item> \<open>Pool_Spec\<close> is the pool as a state machine without pointers; \<open>Worker_Pool\<close> models \<^verbatim>\<open>tasks.c\<close>, \<^verbatim>\<open>worker_thread.c\<close>,
    \<^verbatim>\<open>thread_pool.c\<close> and \<^verbatim>\<open>main.c\<close>, with \<open>sys_step\<close> interleaving main and the workers; \<open>Pool_Refinement\<close> and \<open>Pool_Main\<close> show that
    the code refines the state machine, \<open>Pool_Log\<close> what it writes and frees. \<open>Pool_Properties\<close> has the results for the whole
    process: no undefined behaviour (C4), no lost wakeup (C5), every task once and logged (C6), no deadlock (C7), no infinite
    run (C8), the exit (C9), and the leak of every task's argument (C10).
  \<^item> \<open>M9_Queue\<close> (C11) and \<open>M9_Pool\<close> (C12 to C16): the earlier version, its tasks, the round trip of a request, the array of 20
    threads that is not guarded, and workers that cannot end.

  \<^bold>\<open>The proxy.\<close> \<open>Http_Proxy\<close> (C17 to C23): parsing, the bounded rewriting of the request, the relay of the response, the
  arrays that a long word overruns, and the sockets that are closed or leaked. \<open>Proxy_Main\<close> (C28): the accept loop; the clients
  land on a queue no worker reads.

  \<^bold>\<open>Stand-alone programs.\<close> \<open>Future_Value\<close> (C24) and \<open>System_Info\<close>.

  \<^bold>\<open>Programs of the book: files and streams.\<close>
  \<^item> \<open>File_Copy\<close> (C29, C30): \<^verbatim>\<open>simpcp1.c\<close> and \<^verbatim>\<open>simpcp2.c\<close>; the locale \<open>transfer\<close> proves the copy loop once for both pairs of
    read and write functions. \<open>Mt_Copy\<close> (C32): the copy by several threads, for every order of their pieces.
  \<^item> \<open>Scatter_Gather\<close> (C27): \<^verbatim>\<open>sgio_simple.c\<close>, whose two ways of writing leave the same file. \<open>Hex_Dump\<close> (C25): \<^verbatim>\<open>mmap_file_simple.c\<close>, whose
    dump can be read back.
  \<^item> \<open>Io_Buffers\<close> (C34): \<^verbatim>\<open>iobuf.c\<close> and its three ports to threads; the locale \<open>private_io\<close> proves once for the two ports with private
    buffers that each block read is written exactly once, whatever the interleaving; the port with a shared buffer and a
    mutex loses blocks. \<open>Stdio_Order\<close>: \<^verbatim>\<open>io_setbuf.c\<close> on the same streams, the order of stdout and stderr in one log file (\<^verbatim>\<open>redirct.c\<close>,
    \<^verbatim>\<open>redirct2.c\<close>), \<^verbatim>\<open>streamio1.c\<close>, \<^verbatim>\<open>diskspc.c\<close>.

  \<^bold>\<open>Programs of the book: threads.\<close>
  \<^item> \<open>Primes\<close> (C33): \<^verbatim>\<open>rlimit_primes.c\<close>, \<^verbatim>\<open>mt_primes1.c\<close>, \<^verbatim>\<open>mt_primes2.c\<close>. \<open>Matrix_Mul\<close> (C38): the multiplication by processes and by threads.
  \<^item> \<open>Bank_Facto\<close> (C37) and the second half of \<open>Sync_Demos\<close>: \<^verbatim>\<open>bankacc.c\<close>, \<^verbatim>\<open>facto.c\<close> and \<^verbatim>\<open>mutex1.c\<close>, interpretations of \<open>sections\<close>;
    what goes wrong without the lock is shown on a schedule. \<open>Sync_Demos\<close>, first half: \<^verbatim>\<open>cv_simple.c\<close>; thread A goes on only after
    B's work, spurious wakeups or not, and a signal sent too early blocks the program for ever. \<open>Shared_Mutex\<close> (C31): the mutex shared
    between processes.
  \<^item> \<open>Joiners\<close>: the programs that join their threads, each with its own number. \<open>Thread_Demos\<close>: the programs that create threads, as trees run
    in every interleaving; which lines appear depends on how main leaves. \<open>Cleanup_Handler\<close> (C26): cancelled threads free their buffers.
    \<open>Sched_Threads\<close>: the policies and priorities the scheduling programs set, and whom they change.

  \<^bold>\<open>Programs of the book: processes, signals, time.\<close>
  \<^item> \<open>Simple_Shell\<close> (C35, C36): the three shells as one definition with the version as argument.
  \<^item> \<open>Fork_Trees\<close> and \<open>Fork_Demos\<close>: processes as trees of what they still do, interleaved in every way: the eight processes of \<^verbatim>\<open>smallbomb.c\<close>, copies of
    variables, shared file offsets, output printed twice, chains of children, and parents that wait for all of them. \<open>Daemon\<close>: \<^verbatim>\<open>daemon_trad.c\<close>.
    \<open>Exec_Programs\<close>: the programs of chapter 9, the predecessor composed with its successor, and the table of limits.
  \<^item> \<open>Signal_Machine\<close>: code as trees with handlers, masks, pending and queued signals; its locales \<open>steady\<close> and \<open>masked\<close> prove once that
    queued signals are all handled in order and that handlers that block each other run one after another. \<open>Signal_Demos\<close>, \<open>Signal_Waits\<close> and
    \<open>Itimers\<close> interpret them on the programs of chapters 11 to 13. \<open>Signal_Setup\<close> and \<open>Fault_Handlers\<close>: the templates and the handlers of faults.
    \<open>Kid_Signals\<close>: a signal between parent and child.
  \<^item> \<open>Timers\<close> (C39, C40): \<^verbatim>\<open>react.c\<close> and \<^verbatim>\<open>runwalk_timer.c\<close>, driven by the sequence of signals.

  \<^bold>\<open>Programs of the book: memory and privileges.\<close>
  \<^item> \<open>Mem_Bugs\<close>: every case of \<^verbatim>\<open>membugs.c\<close> and the fault it has. \<open>Mem_Probes\<close>: page protections, sizes that wrap, locked memory, the program
    break.
  \<^item> \<open>Credentials\<close>: user ids and capabilities; who ends as whom.

  \<^bold>\<open>How the model corresponds to the code.\<close> A struct is a record, a pointer an address into a map of live objects, a function
  a definition of the same name on the state; a name that would clash carries the program's name. What the system decides is
  part of the state or an argument: the results of coming system calls, the outcomes of \<^verbatim>\<open>malloc\<close>, the random numbers, the
  clock, the signals, the schedule. So a statement about all states is one about all these behaviours.

  \<^bold>\<open>Steps of threads.\<close> In the pool one step is what a thread does under one hold of a mutex, or between two of them: in
  between a thread touches only objects that it owns, which the refinement relation states. Where a program has no lock or can
  switch it off, a step is one access to a shared variable (\<open>Locked_Threads\<close>) or one call of a stream (\<open>Io_Buffers\<close>); in
  \<open>Mt_Copy\<close> and \<open>Primes\<close> a step is a thread's work on its own range, disjoint from the others'. The trees of \<open>Fork_Trees\<close>, \<open>Thread_Demos\<close> and
  \<open>Signal_Machine\<close> make one node a step: one call, one line or one access to what is shared.

  \<^bold>\<open>Fuel.\<close> A loop that is not structural runs with fuel that is proved to be enough: \<^verbatim>\<open>queue_destroy\<close> takes the number of nodes of
  the queue, every round freeing one; the relay of a response the number of chunks and bytes to come; \<^verbatim>\<open>docopy\<close> one more than
  the bytes that remain, every round reading at least one; \<^verbatim>\<open>fd_read\<close> and \<^verbatim>\<open>fd_write\<close> the count they were asked for; the shells
  one more than the length of the input; the waiting loop of \<^verbatim>\<open>fork2c.c\<close> three rounds, one for each of its two children and one that finds
  none (\<open>fork2c_waits\<close>). The other loops are total functions with a measure. The pool's runs have no fuel: they
  are paths of a relation, and C8 bounds their length.

  \<^bold>\<open>Floating point.\<close> In \<open>Future_Value\<close> a double is a real number and the rounding of each operation is an argument, the identity
  where a result is stated in exact arithmetic.

  \<^bold>\<open>Not modelled.\<close> The memory models of the processor (a run is a sequence of steps), time other than as clock readings, and
  stdio's inner buffers except where a program is about them (\<open>Fork_Demos\<close>, \<open>Stdio_Order\<close>). The tests \<^verbatim>\<open>test_queue.c\<close> and \<^verbatim>\<open>M9/test_queue.c\<close> are of
  an earlier interface; \<^verbatim>\<open>compare.c\<close> is one \<^verbatim>\<open>malloc\<close>; the pool library of the proxy has no source. Of the book, the programs that have no logic of
  their own to state: those that read a register, print a greeting, overrun the stack with \<^verbatim>\<open>alloca\<close>, store to a fixed address, nest calls for a
  debugger, print the library's default thread attributes, one capability set, one file mode or the preprocessor's macros.
\<close>

end
